(* ===== verification/Prelude.thy ===== *)
theory Prelude
  imports Complex_Main "HOL-Library.AList" "HOL-Library.Multiset" "HOL-Library.Char_ord"
    "HOL-Library.List_Lexorder"
begin

text \<open>
  Shared vocabulary of the development. The monitored program is TypeScript, so the
  prelude fixes how its data is read in HOL:

  \<^item> a \<open>Map\<close> is an association list in insertion order (\<open>Map.set\<close> keeps the position of an
    existing key and appends a new one, \<open>Map.delete\<close> removes it): \<open>js_get\<close>, \<open>js_set\<close>,
    \<open>js_delete\<close>, \<open>js_has\<close>, with \<open>wf_map\<close> (no key twice) as the representation invariant;
  \<^item> a \<open>Set\<close> built from an array (\<open>new Set(xs)\<close>) is the list of first occurrences, \<open>js_uniq\<close>;
  \<^item> \<open>Array.sort\<close> is stable, as \<open>sort_key\<close> is;
  \<^item> timestamps and counters are \<open>int\<close>, ratios and measurements are \<open>real\<close> (rounding of
    IEEE doubles is not modelled); where the source asks \<open>Number.isFinite\<close> the type is
    \<open>jsnum\<close>, which has the non-finite values;
  \<^item> \<open>null\<close> and \<open>undefined\<close> are \<open>None\<close>.

  Last come the alert levels shared by the hysteresis detectors, with their order.
\<close>

named_theorems js_simps \<open>rewriting of the Map, Set and array operations of the source\<close>

section \<open>Maps in insertion order\<close>

type_synonym ('k, 'v) jsmap = "('k \<times> 'v) list"

abbreviation js_get :: "('k, 'v) jsmap \<Rightarrow> 'k \<Rightarrow> 'v option" where
  "js_get m k \<equiv> map_of m k"

abbreviation js_set :: "'k \<Rightarrow> 'v \<Rightarrow> ('k, 'v) jsmap \<Rightarrow> ('k, 'v) jsmap" where
  "js_set k v m \<equiv> AList.update k v m"

abbreviation js_delete :: "'k \<Rightarrow> ('k, 'v) jsmap \<Rightarrow> ('k, 'v) jsmap" where
  "js_delete k m \<equiv> AList.delete k m"

definition js_has :: "('k, 'v) jsmap \<Rightarrow> 'k \<Rightarrow> bool" where
  "js_has m k \<longleftrightarrow> map_of m k \<noteq> None"

definition js_get_or :: "'v \<Rightarrow> ('k, 'v) jsmap \<Rightarrow> 'k \<Rightarrow> 'v" where
  "js_get_or d m k = (case map_of m k of None \<Rightarrow> d | Some v \<Rightarrow> v)"

definition wf_map :: "('k, 'v) jsmap \<Rightarrow> bool" where
  "wf_map m \<longleftrightarrow> distinct (map fst m)"

lemma js_has_iff [js_simps]: "js_has m k \<longleftrightarrow> k \<in> fst ` set m"
  by (simp add: js_has_def map_of_eq_None_iff)

lemma wf_map_Nil [simp, intro]: "wf_map []"
  by (simp add: wf_map_def)

lemma wf_map_set [simp, intro]: "wf_map m \<Longrightarrow> wf_map (js_set k v m)"
  by (simp add: wf_map_def distinct_update)

lemma wf_map_delete [simp, intro]: "wf_map m \<Longrightarrow> wf_map (js_delete k m)"
  by (simp add: wf_map_def distinct_delete)

lemma wf_map_filter [simp, intro]: "wf_map m \<Longrightarrow> wf_map (filter P m)"
  by (simp add: wf_map_def distinct_map_filter)

lemma js_get_set [js_simps]: "js_get (js_set k v m) k' = (if k' = k then Some v else js_get m k')"
  by (simp add: update_conv')

lemma js_get_delete [js_simps]: "js_get (js_delete k m) k' = (if k' = k then None else js_get m k')"
  by (simp add: delete_conv')

lemma js_keys_set [js_simps]: "fst ` set (js_set k v m) = insert k (fst ` set m)"
  using dom_update [of k v m] by (simp add: dom_map_of_conv_image_fst)

lemma js_keys_delete [js_simps]: "fst ` set (js_delete k m) = fst ` set m - {k}"
  by (auto simp: AList.delete_eq)

lemma js_get_in_set: "wf_map m \<Longrightarrow> (k, v) \<in> set m \<longleftrightarrow> js_get m k = Some v"
  by (auto simp: wf_map_def)

lemma js_get_filter:
  assumes "wf_map m"
  shows "js_get (filter P m) k = (case js_get m k of None \<Rightarrow> None
           | Some v \<Rightarrow> if P (k, v) then Some v else None)"
  using assms
  by (induction m) (auto simp: wf_map_def split: option.splits dest!: map_of_SomeD
      intro: rev_image_eqI)

lemma js_set_new: "k \<notin> fst ` set m \<Longrightarrow> js_set k v m = m @ [(k, v)]"
  by (induction m) (auto)

lemma set_js_set: "set (js_set k v m) \<subseteq> insert (k, v) (set m)"
  by (induction m) auto

lemma length_js_set: "length (js_set k v m) = (if k \<in> fst ` set m then length m else Suc (length m))"
  by (induction m) auto

lemma length_js_delete_le [simp]: "length (js_delete k m) \<le> length m"
  by (simp add: AList.delete_eq)

text \<open>
  The idiom \<open>const list = m.get(k) ?? []; list.push(x); m.set(k, list)\<close>, run over an array,
  groups it by key. An element whose key is absent is skipped, as the \<open>continue\<close> of each
  such loop does.
\<close>

definition bucket_push :: "'k \<Rightarrow> 'a \<Rightarrow> ('k, 'a list) jsmap \<Rightarrow> ('k, 'a list) jsmap" where
  "bucket_push k x m = js_set k (js_get_or [] m k @ [x]) m"

fun group_into :: "('a \<Rightarrow> 'k option) \<Rightarrow> 'a list \<Rightarrow> ('k, 'a list) jsmap \<Rightarrow> ('k, 'a list) jsmap" where
  "group_into key [] m = m"
| "group_into key (x # xs) m =
     group_into key xs (case key x of None \<Rightarrow> m | Some k \<Rightarrow> bucket_push k x m)"

lemma wf_bucket_push [simp, intro]: "wf_map m \<Longrightarrow> wf_map (bucket_push k x m)"
  by (simp add: bucket_push_def)

lemma wf_group_into [simp, intro]: "wf_map m \<Longrightarrow> wf_map (group_into key xs m)"
  by (induction key xs m rule: group_into.induct) (auto split: option.split)

lemma js_get_or_group_into:
  "js_get_or [] (group_into key xs m) k = js_get_or [] m k @ filter (\<lambda>x. key x = Some k) xs"
  by (induction key xs m rule: group_into.induct)
    (auto simp: bucket_push_def js_get_or_def js_simps split: option.splits)

lemma js_keys_group_into:
  "fst ` set (group_into key xs m) = fst ` set m \<union> {k. \<exists>x \<in> set xs. key x = Some k}"
  by (induction key xs m rule: group_into.induct)
    (auto simp: bucket_push_def js_simps split: option.splits)

lemma group_into_entry:
  assumes "(k, g) \<in> set (group_into key xs [])"
  shows "g = filter (\<lambda>x. key x = Some k) xs" and "g \<noteq> []"
proof -
  have "js_get (group_into key xs []) k = Some g"
    using assms by (simp add: js_get_in_set)
  then show "g = filter (\<lambda>x. key x = Some k) xs"
    using js_get_or_group_into [of key xs "[]" k] by (simp add: js_get_or_def)
  moreover have "k \<in> fst ` set (group_into key xs [])"
    using assms by (force simp: image_iff)
  ultimately show "g \<noteq> []"
    by (auto simp: js_keys_group_into filter_empty_conv)
qed

lemma group_into_complete:
  assumes "x \<in> set xs" and "key x = Some k"
  shows "(k, filter (\<lambda>x. key x = Some k) xs) \<in> set (group_into key xs [])"
proof -
  have "k \<in> fst ` set (group_into key xs [])"
    using assms by (auto simp: js_keys_group_into)
  then obtain g where "(k, g) \<in> set (group_into key xs [])" by auto
  with group_into_entry(1) [OF this] show ?thesis by simp
qed

section \<open>Sets, arrays and windows\<close>

fun js_uniq_acc :: "'a list \<Rightarrow> 'a list \<Rightarrow> 'a list" where
  "js_uniq_acc seen [] = seen"
| "js_uniq_acc seen (x # xs) = js_uniq_acc (if x \<in> set seen then seen else seen @ [x]) xs"

definition js_uniq :: "'a list \<Rightarrow> 'a list" where
  "js_uniq xs = js_uniq_acc [] xs"

lemma set_js_uniq_acc: "set (js_uniq_acc seen xs) = set seen \<union> set xs"
  by (induction seen xs rule: js_uniq_acc.induct) auto

lemma distinct_js_uniq_acc: "distinct seen \<Longrightarrow> distinct (js_uniq_acc seen xs)"
  by (induction seen xs rule: js_uniq_acc.induct) auto

lemma set_js_uniq [simp]: "set (js_uniq xs) = set xs"
  by (simp add: js_uniq_def set_js_uniq_acc)

lemma distinct_js_uniq [simp]: "distinct (js_uniq xs)"
  by (simp add: js_uniq_def distinct_js_uniq_acc)

lemma js_uniq_acc_distinct: "distinct xs \<Longrightarrow> set seen \<inter> set xs = {} \<Longrightarrow> js_uniq_acc seen xs = seen @ xs"
  by (induction xs arbitrary: seen) auto

lemma js_uniq_distinct: "distinct xs \<Longrightarrow> js_uniq xs = xs"
  by (simp add: js_uniq_def js_uniq_acc_distinct)

lemma length_js_uniq: "length (js_uniq xs) = card (set xs)"
  by (metis distinct_card distinct_js_uniq set_js_uniq)

lemma sort_uniq_cong:
  fixes xs ys :: "'a::linorder list"
  assumes "set xs = set ys"
  shows "sort (js_uniq xs) = sort (js_uniq ys)"
proof (rule map_sorted_distinct_set_unique [where f = "\<lambda>x. x"])
  show "set (sort (js_uniq xs)) = set (sort (js_uniq ys))" using assms by simp
qed simp_all

text \<open>\<open>xs.slice(-n)\<close> for a positive \<open>n\<close>, and \<open>push\<close> followed by a \<open>shift\<close> over the limit.\<close>

definition take_last :: "nat \<Rightarrow> 'a list \<Rightarrow> 'a list" where
  "take_last n xs = drop (length xs - n) xs"

definition push_capped :: "nat \<Rightarrow> 'a \<Rightarrow> 'a list \<Rightarrow> 'a list" where
  "push_capped n x xs = (let ys = xs @ [x] in if n < length ys then tl ys else ys)"

lemma length_take_last [simp]: "length (take_last n xs) = min n (length xs)"
  by (simp add: take_last_def)

lemma take_last_id: "length xs \<le> n \<Longrightarrow> take_last n xs = xs"
  by (simp add: take_last_def)

lemma set_take_last_subset: "set (take_last n xs) \<subseteq> set xs"
  by (simp add: take_last_def set_drop_subset)

lemma length_push_capped: "length xs \<le> n \<Longrightarrow> length (push_capped n x xs) \<le> n"
  by (simp add: push_capped_def Let_def)

lemma set_push_capped: "set (push_capped n x xs) \<subseteq> insert x (set xs)"
  by (auto simp: push_capped_def Let_def dest: list.set_sel(2) [rotated] in_set_dropD)

lemma map_push_capped: "map f (push_capped n x xs) = push_capped n (f x) (map f xs)"
  by (simp add: push_capped_def Let_def map_tl)

lemma push_capped_take_last: "push_capped n x (take_last n xs) = take_last n (xs @ [x])"
proof (cases "length xs < n")
  case True
  then show ?thesis by (simp add: push_capped_def take_last_def)
next
  case False
  then obtain ys zs where xs: "xs = ys @ zs" and n: "length zs = n"
    by (metis append_take_drop_id diff_diff_cancel length_drop not_less)
  show ?thesis
    by (cases zs) (simp_all add: push_capped_def take_last_def xs flip: n)
qed

lemma sep_inject:
  assumes "c \<notin> set xs" and "c \<notin> set ys"
  shows "xs @ c # us = ys @ c # vs \<longleftrightarrow> xs = ys \<and> us = vs"
  using assms
proof (induction xs arbitrary: ys)
  case Nil
  then show ?case by (cases ys) auto
next
  case (Cons x xs)
  then show ?case by (cases ys) auto
qed

lemma map_filter_mem: "y \<in> set (List.map_filter f xs) \<longleftrightarrow> (\<exists>x \<in> set xs. f x = Some y)"
  by (force simp: map_filter_def image_iff)

text \<open>\<open>Set.add\<close> on a set in insertion order.\<close>

definition set_add :: "'a \<Rightarrow> 'a list \<Rightarrow> 'a list" where
  "set_add x xs = (if x \<in> set xs then xs else xs @ [x])"

lemma set_set_add [simp]: "set (set_add x xs) = insert x (set xs)"
  by (auto simp: set_add_def)

text \<open>\<open>xs.join(sep)\<close>.\<close>

fun js_join :: "string \<Rightarrow> string list \<Rightarrow> string" where
  "js_join sep [] = ''''"
| "js_join sep [x] = x"
| "js_join sep (x # y # ys) = x @ sep @ js_join sep (y # ys)"

lemma js_join_Cons: "js_join sep (x # xs) = (if xs = [] then x else x @ sep @ js_join sep xs)"
  by (cases xs) simp_all

text \<open>A joined list can be read back when no element holds the separator and the length is known not to be 0.\<close>

lemma js_join_inject:
  assumes "\<forall>x \<in> set xs. c \<notin> set x" and "\<forall>y \<in> set ys. c \<notin> set y" and "xs \<noteq> []" and "ys \<noteq> []"
    and "js_join [c] xs = js_join [c] ys"
  shows "xs = ys"
  using assms
proof (induction xs arbitrary: ys)
  case (Cons x xs)
  obtain y ys' where ys: "ys = y # ys'" using Cons.prems(4) by (cases ys) auto
  show ?case
  proof (cases "xs = []"; cases "ys' = []")
    assume *: "xs \<noteq> []" "ys' \<noteq> []"
    with Cons.prems ys have "x @ c # js_join [c] xs = y @ c # js_join [c] ys'" by (simp add: js_join_Cons)
    with Cons.prems(1,2) ys have "x = y" "js_join [c] xs = js_join [c] ys'" by (auto simp: sep_inject)
    with Cons.IH [of ys'] Cons.prems(1,2) ys * show ?thesis by simp
  next
    assume *: "xs = []" "ys' \<noteq> []"
    with Cons.prems(5) ys have "x = y @ [c] @ js_join [c] ys'" by (simp add: js_join_Cons)
    with Cons.prems(1) show ?thesis by simp
  next
    assume *: "xs \<noteq> []" "ys' = []"
    with Cons.prems(5) ys have "y = x @ [c] @ js_join [c] xs" by (simp add: js_join_Cons)
    with Cons.prems(2) ys show ?thesis by simp
  qed (use Cons.prems ys in simp)
qed simp

text \<open>
  Truthiness of an optional value whose falsy value is \<open>zero\<close> (0 or the empty string), and a
  condition applied only when the option is given.
\<close>

definition truthy :: "'a \<Rightarrow> 'a option \<Rightarrow> 'a option" where
  "truthy zero opt = (if opt = Some zero then None else opt)"

definition opt_holds :: "('a \<Rightarrow> bool) \<Rightarrow> 'a option \<Rightarrow> bool" where
  "opt_holds P opt = (case opt of None \<Rightarrow> True | Some x \<Rightarrow> P x)"

lemma truthy_Some [simp]: "truthy z opt = Some x \<longleftrightarrow> opt = Some x \<and> x \<noteq> z"
  by (auto simp: truthy_def)

text \<open>\<open>String(n)\<close> of an integer, and reading it back.\<close>

fun show_nat :: "nat \<Rightarrow> string" where
  "show_nat n = (if n < 10 then [char_of (48 + n)] else show_nat (n div 10) @ [char_of (48 + n mod 10)])"

declare show_nat.simps [simp del]

definition read_nat :: "string \<Rightarrow> nat" where
  "read_nat s = foldl (\<lambda>acc c. 10 * acc + (of_char c - 48)) 0 s"

definition show_int :: "int \<Rightarrow> string" where
  "show_int i = (if i < 0 then ''-'' @ show_nat (nat (- i)) else show_nat (nat i))"

lemma of_char_digit: "n < 10 \<Longrightarrow> of_char (char_of (48 + n)) = (48 + n :: nat)"
  by simp

lemma read_show_nat [simp]: "read_nat (show_nat n) = n"
proof (induction n rule: show_nat.induct)
  case (1 n)
  then show ?case by (cases "n < 10") (simp_all add: show_nat.simps [of n] read_nat_def)
qed

lemma show_nat_inject [simp]: "show_nat m = show_nat n \<longleftrightarrow> m = n"
  by (metis read_show_nat)

lemma show_nat_chars: "c \<in> set (show_nat n) \<Longrightarrow> 48 \<le> (of_char c :: nat) \<and> (of_char c :: nat) \<le> 57"
proof (induction n rule: show_nat.induct)
  case (1 n)
  have "n mod 10 < 10" by simp
  with 1 show ?case by (cases "n < 10") (auto simp: show_nat.simps [of n])
qed

lemma show_nat_no [simp]:
  "CHR ''-'' \<notin> set (show_nat n)" "CHR '','' \<notin> set (show_nat n)" "CHR ''|'' \<notin> set (show_nat n)"
  using show_nat_chars [of "CHR ''-''" n] show_nat_chars [of "CHR '',''" n] show_nat_chars [of "CHR ''|''" n] by auto

text \<open>The same digits by integer division, for evaluation.\<close>

function show_digits :: "int \<Rightarrow> string" where
  "show_digits i = (if i < 10 then [''0123456789'' ! nat i] else show_digits (i div 10) @ [''0123456789'' ! nat (i mod 10)])"
  by auto
termination by (relation "measure nat") auto

declare show_digits.simps [simp del]

lemma digit_char: "n < 10 \<Longrightarrow> ''0123456789'' ! n = char_of (48 + n)"
proof -
  assume "n < 10"
  then have "n \<in> {0, 1, 2, 3, 4, 5, 6, 7, 8, 9}" by auto
  moreover have "map (\<lambda>n. ''0123456789'' ! n) [0, 1, 2, 3, 4, 5, 6, 7, 8, 9] = map (\<lambda>n. char_of (48 + n)) [0, 1, 2, 3, 4, 5, 6, 7, 8, 9 :: nat]"
    by code_simp
  ultimately show ?thesis by auto
qed

lemma show_digits_nat: "show_digits (int n) = show_nat n"
proof (induction n rule: show_nat.induct)
  case (1 n)
  have "nat (int n mod 10) = n mod 10" "int n div 10 = int (n div 10)" by (simp_all add: nat_mod_distrib zdiv_int)
  with 1 show ?case
    by (cases "n < 10") (simp_all add: show_digits.simps [of "int n"] show_nat.simps [of n] digit_char)
qed

lemma show_int_code [code]: "show_int i = (if i < 0 then ''-'' @ show_digits (- i) else show_digits i)"
  using show_digits_nat [of "nat i"] show_digits_nat [of "nat (- i)"] by (cases "i < 0") (simp_all add: show_int_def)

lemma show_int_inject [simp]: "show_int i = show_int j \<longleftrightarrow> i = j"
proof
  assume eq: "show_int i = show_int j"
  show "i = j"
  proof (cases "i < 0"; cases "j < 0")
    assume "i < 0" "\<not> j < 0"
    with eq have "''-'' @ show_nat (nat (- i)) = show_nat (nat j)" by (simp add: show_int_def)
    then have "CHR ''-'' \<in> set (show_nat (nat j))" by (metis append_Cons list.set_intros(1))
    then show ?thesis by simp
  next
    assume "\<not> i < 0" "j < 0"
    with eq have "''-'' @ show_nat (nat (- j)) = show_nat (nat i)" by (simp add: show_int_def)
    then have "CHR ''-'' \<in> set (show_nat (nat i))" by (metis append_Cons list.set_intros(1))
    then show ?thesis by simp
  qed (use eq in \<open>auto simp: show_int_def\<close>)
qed simp

lemma show_int_no [simp]: "CHR '','' \<notin> set (show_int i)" "CHR ''|'' \<notin> set (show_int i)"
  by (simp_all add: show_int_def)

text \<open>
  \<open>parseInt(s, 10)\<close>: leading white space, an optional sign, then the digits up to the first other
  character; \<open>None\<close> is NaN.
\<close>

definition is_digit :: "char \<Rightarrow> bool" where
  "is_digit c \<longleftrightarrow> c \<in> set ''0123456789''"

definition is_space :: "char \<Rightarrow> bool" where
  "is_space c \<longleftrightarrow> of_char c \<in> {9, 10, 11, 12, 13, 32, 160 :: nat}"

definition read_int :: "string \<Rightarrow> int" where
  "read_int s = foldl (\<lambda>acc c. 10 * acc + (of_char c - 48)) 0 s"

definition parse_digits :: "string \<Rightarrow> int option" where
  "parse_digits s = (let ds = takeWhile is_digit s in if ds = [] then None else Some (read_int ds))"

definition parseInt :: "string \<Rightarrow> int option" where
  "parseInt s =
     (case dropWhile is_space s of
        [] \<Rightarrow> None
      | c # cs \<Rightarrow>
          if c = CHR ''-'' then map_option uminus (parse_digits cs)
          else if c = CHR ''+'' then parse_digits cs
          else parse_digits (c # cs))"

text \<open>\<open>s.toLowerCase()\<close> on ASCII.\<close>

definition lower_char :: "char \<Rightarrow> char" where
  "lower_char c = (if CHR ''A'' \<le> c \<and> c \<le> CHR ''Z'' then char_of ((of_char c :: nat) + 32) else c)"

definition toLowerCase :: "string \<Rightarrow> string" where
  "toLowerCase s = map lower_char s"

definition within_ms :: "int \<Rightarrow> int \<Rightarrow> int list \<Rightarrow> int list" where
  "within_ms w now ts = filter (\<lambda>t. now - t \<le> w) ts"

lemma within_ms_mem [simp]: "t \<in> set (within_ms w now ts) \<longleftrightarrow> t \<in> set ts \<and> now - t \<le> w"
  by (simp add: within_ms_def)

lemma length_within_ms [simp]: "length (within_ms w now ts) \<le> length ts"
  by (simp add: within_ms_def)

section \<open>Numbers that may not be finite\<close>

datatype jsnum = Num real | PosInf | NegInf | NaN

fun isFinite :: "jsnum \<Rightarrow> bool" where
  "isFinite (Num _) = True"
| "isFinite _ = False"

section \<open>Alert levels\<close>

datatype level = LNone | LWarning | LCritical

primrec level_rank :: "level \<Rightarrow> nat" where
  "level_rank LNone = 0"
| "level_rank LWarning = 1"
| "level_rank LCritical = 2"

lemma level_rank_inject [simp]: "level_rank a = level_rank b \<longleftrightarrow> a = b"
  by (cases a; cases b) simp_all

lemma level_rank_le_2 [simp]: "level_rank l \<le> 2"
  by (cases l) simp_all

lemma level_rank_0 [simp]: "level_rank l = 0 \<longleftrightarrow> l = LNone"
  by (cases l) simp_all

lemma level_rank_neq: "a \<noteq> b \<Longrightarrow> \<not> level_rank b < level_rank a \<Longrightarrow> level_rank a < level_rank b"
  by (cases a; cases b) simp_all

instantiation level :: linorder
begin

definition less_eq_level :: "level \<Rightarrow> level \<Rightarrow> bool" where
  "less_eq_level a b \<longleftrightarrow> level_rank a \<le> level_rank b"

definition less_level :: "level \<Rightarrow> level \<Rightarrow> bool" where
  "less_level a b \<longleftrightarrow> level_rank a < level_rank b"

instance
  by standard (auto simp: less_eq_level_def less_level_def)

end

lemmas level_order [js_simps] = less_eq_level_def less_level_def

lemma level_cases_le [simp]: "LNone \<le> l" "l \<le> LCritical"
  by (cases l; simp add: less_eq_level_def)+

end
