(* ===== verification/Js_Number.thy ===== *)
theory Js_Number
  imports Prelude
begin

text \<open>
  \<open>Number(s)\<close> of a string: white space is trimmed, the empty string is 0, then a signed decimal
  with optional fraction and exponent, a signed \<open>Infinity\<close>, or an unsigned hexadecimal, octal or
  binary literal; everything else is NaN. The value is exact, rounding to a double is left out.
\<close>

definition js_trim :: "string \<Rightarrow> string" where
  "js_trim s = rev (dropWhile is_space (rev (dropWhile is_space s)))"

definition scale10 :: "int \<Rightarrow> real \<Rightarrow> real" where
  "scale10 e x = (if e \<ge> 0 then x * 10 ^ nat e else x / 10 ^ nat (- e))"

text \<open>The exponent part, up to the end of the string.\<close>

definition exponent :: "string \<Rightarrow> int option" where
  "exponent s =
     (case s of
        [] \<Rightarrow> Some 0
      | c # cs \<Rightarrow>
          if c \<noteq> CHR ''e'' \<and> c \<noteq> CHR ''E'' then None
          else let sgn = (if take 1 cs = ''-'' then - 1 else 1);
                   ds = (case cs of d # ds \<Rightarrow> if d = CHR ''-'' \<or> d = CHR ''+'' then ds else cs | [] \<Rightarrow> [])
               in if ds \<noteq> [] \<and> list_all is_digit ds then Some (sgn * read_int ds) else None)"

definition unsigned_decimal :: "string \<Rightarrow> jsnum" where
  "unsigned_decimal s =
     (let ip = takeWhile is_digit s; rest = dropWhile is_digit s;
          frac = (if take 1 rest = ''.'' then takeWhile is_digit (tl rest) else []);
          tail = (if take 1 rest = ''.'' then dropWhile is_digit (tl rest) else rest)
      in if s = ''Infinity'' then PosInf
         else if ip = [] \<and> frac = [] then NaN
         else case exponent tail of
             None \<Rightarrow> NaN
           | Some e \<Rightarrow> Num (scale10 (e - int (length frac)) (of_int (read_int (ip @ frac)))))"

definition digit_value :: "char \<Rightarrow> int option" where
  "digit_value c =
     (let n = (of_char c :: int)
      in if 48 \<le> n \<and> n \<le> 57 then Some (n - 48)
         else if 97 \<le> n \<and> n \<le> 102 then Some (n - 87)
         else if 65 \<le> n \<and> n \<le> 70 then Some (n - 55)
         else None)"

definition radix_number :: "int \<Rightarrow> string \<Rightarrow> jsnum" where
  "radix_number b ds =
     (if ds \<noteq> [] \<and> list_all (\<lambda>c. case digit_value c of None \<Rightarrow> False | Some d \<Rightarrow> d < b) ds
      then Num (of_int (foldl (\<lambda>acc c. b * acc + (case digit_value c of None \<Rightarrow> 0 | Some d \<Rightarrow> d)) 0 ds))
      else NaN)"

fun neg_num :: "jsnum \<Rightarrow> jsnum" where
  "neg_num (Num x) = Num (- x)"
| "neg_num PosInf = NegInf"
| "neg_num NegInf = PosInf"
| "neg_num NaN = NaN"

definition js_Number :: "string \<Rightarrow> jsnum" where
  "js_Number s =
     (let t = js_trim s
      in if t = [] then Num 0
         else if hd t = CHR ''-'' then neg_num (unsigned_decimal (tl t))
         else if hd t = CHR ''+'' then unsigned_decimal (tl t)
         else if take 2 t = ''0x'' \<or> take 2 t = ''0X'' then radix_number 16 (drop 2 t)
         else if take 2 t = ''0o'' \<or> take 2 t = ''0O'' then radix_number 8 (drop 2 t)
         else if take 2 t = ''0b'' \<or> take 2 t = ''0B'' then radix_number 2 (drop 2 t)
         else unsigned_decimal t)"

text \<open>What is printed by \<open>String(n)\<close> is read back.\<close>

lemma is_digit_iff: "is_digit c \<longleftrightarrow> 48 \<le> (of_char c :: nat) \<and> (of_char c :: nat) \<le> 57"
proof
  assume "is_digit c"
  then show "48 \<le> (of_char c :: nat) \<and> (of_char c :: nat) \<le> 57" by (auto simp: is_digit_def)
next
  assume *: "48 \<le> (of_char c :: nat) \<and> (of_char c :: nat) \<le> 57"
  define n where "n = (of_char c :: nat) - 48"
  with * have n: "48 + n = (of_char c :: nat)" "n < 10" by linarith+
  then have "c = char_of (48 + n)" by simp
  then have "c = ''0123456789'' ! n" using n(2) by (simp only: digit_char)
  moreover have "''0123456789'' ! n \<in> set ''0123456789''" using n(2) by (intro nth_mem) simp
  ultimately show "is_digit c" by (simp only: is_digit_def)
qed

lemma show_nat_digits: "list_all is_digit (show_nat n)" "show_nat n \<noteq> []"
  using show_nat_chars by (auto simp: list_all_iff is_digit_iff show_nat.simps [of n])

lemma read_int_nat: "list_all is_digit s \<Longrightarrow> read_int s = int (read_nat s)"
proof -
  assume "list_all is_digit s"
  moreover have "foldl (\<lambda>acc c. 10 * acc + (of_char c - 48)) (int a) s = int (foldl (\<lambda>acc c. 10 * acc + (of_char c - 48)) a s)"
    if "list_all is_digit s" for a
    using that
  proof (induction s arbitrary: a)
    case (Cons c s)
    then have "48 \<le> (of_char c :: nat)" by (simp add: is_digit_iff)
    then have step: "10 * int a + ((of_char c :: int) - 48) = int (10 * a + (of_char c - 48))"
      by (simp add: of_nat_diff of_nat_of_char)
    from Cons have "list_all is_digit s" by simp
    from Cons.IH [OF this] show ?case by (simp only: foldl_Cons step)
  qed simp
  ultimately show ?thesis unfolding read_int_def read_nat_def by (metis of_nat_0)
qed

lemma js_trim_no_space:
  assumes "s \<noteq> []" and "\<not> is_space (hd s)" and "\<not> is_space (last s)"
  shows "js_trim s = s"
proof -
  have "dropWhile is_space s = s" using assms(1,2) by (cases s) simp_all
  moreover have "dropWhile is_space (rev s) = rev s" using assms(1,3) by (cases s rule: rev_cases) simp_all
  ultimately show ?thesis by (simp add: js_trim_def)
qed

lemma digit_not_space: "is_digit c \<Longrightarrow> \<not> is_space c"
  by (auto simp: is_digit_iff is_space_def)

lemma unsigned_decimal_digits:
  assumes "list_all is_digit s" and "s \<noteq> []"
  shows "unsigned_decimal s = Num (of_int (read_int s))"
proof -
  have tw: "takeWhile is_digit s = s" "dropWhile is_digit s = []"
    using assms(1) by (simp_all add: list_all_iff)
  have "s \<noteq> ''Infinity''" using assms(1) by (auto simp: is_digit_def)
  then show ?thesis using assms(2) unfolding unsigned_decimal_def tw by (simp add: Let_def exponent_def scale10_def)
qed

lemma js_Number_show_nat: "js_Number (show_nat n) = Num (real n)"
proof -
  let ?s = "show_nat n"
  note digits = show_nat_digits [of n]
  obtain c cs where s: "?s = c # cs" using digits(2) by (cases ?s) auto
  have "is_digit (hd ?s)" "is_digit (last ?s)" using digits by (auto simp: list_all_iff)
  then have trim: "js_trim ?s = c # cs" using s by (metis js_trim_no_space digits(2) digit_not_space)
  have dec: "unsigned_decimal (c # cs) = Num (real n)"
    using unsigned_decimal_digits [OF digits] read_int_nat [OF digits(1)] by (simp add: s [symmetric])
  have "is_digit c" "\<forall>x \<in> set cs. is_digit x" using digits(1) s by (simp_all add: list_all_iff)
  moreover from this have "take 1 cs \<notin> {''x'', ''X'', ''o'', ''O'', ''b'', ''B''}" by (cases cs) (auto simp: is_digit_def)
  ultimately show ?thesis unfolding js_Number_def trim Let_def by (auto simp: dec is_digit_def)
qed

end
