(* ===== verification/Proposal_Types.thy ===== *)
theory Proposal_Types
  imports Js_Number
begin

text \<open>
  The data of the cache proposals: src/packages/shared/src/utils/cache-proposals.ts (types, payload
  schemas and inputs) and the error classes of src/proprietary/cache-proposals/errors.ts. A schema
  is a function from the numbers of a request, which may be any JavaScript number, into the payload
  with checked fields; \<open>None\<close> stands for the error it throws. An object of unknown fields
  (\<open>details\<close>, the audit payload) is a map from field names to values.
\<close>

datatype CacheType = AgentCache | SemanticCache

datatype ProposalType = ThresholdAdjust | ToolTtlAdjust | Invalidate

datatype ProposalStatus = Pending | Approved | Rejected | Applied | Failed | Expired

datatype ProposalAuditEvent =
  EvProposed | EvApproved | EvRejected | EvEditedAndApproved | EvApplied | EvFailed | EvExpired | EvOutcomeEvaluated

datatype ActorSource = Ui | Mcp | System

datatype AgentFilterKind = ToolFilter | KeyPrefixFilter | SessionFilter

text \<open>A field of an object whose fields the source does not type.\<close>

datatype field_value = FText string | FNumber real | FBool bool | FNull | FObject "(string \<times> field_value) list"

section \<open>Payloads and their schemas\<close>

datatype ProposalPayload =
  SemanticThresholdAdjustPayload "string option" real real
| AgentToolTtlAdjustPayload string int int
| SemanticInvalidatePayload string int
| AgentInvalidatePayload AgentFilterKind string int

text \<open>\<open>z.number().min(lo).max(hi)\<close>: not NaN, not infinite.\<close>

definition number_between :: "real \<Rightarrow> real \<Rightarrow> jsnum \<Rightarrow> real option" where
  "number_between lo hi v = (case v of Num x \<Rightarrow> if lo \<le> x \<and> x \<le> hi then Some x else None | _ \<Rightarrow> None)"

text \<open>\<open>z.number().int()\<close>: an integer that doubles represent exactly.\<close>

definition MAX_SAFE_INTEGER :: int where "MAX_SAFE_INTEGER = 9007199254740991"

definition int_number :: "jsnum \<Rightarrow> int option" where
  "int_number v =
     (case v of
        Num x \<Rightarrow> if x = of_int \<lfloor>x\<rfloor> \<and> \<bar>\<lfloor>x\<rfloor>\<bar> \<le> MAX_SAFE_INTEGER then Some \<lfloor>x\<rfloor> else None
      | _ \<Rightarrow> None)"

definition int_at_least :: "int \<Rightarrow> jsnum \<Rightarrow> int option" where
  "int_at_least lo v = (case int_number v of None \<Rightarrow> None | Some n \<Rightarrow> if lo \<le> n then Some n else None)"

definition SemanticThresholdAdjustPayloadSchema :: "string option \<Rightarrow> jsnum \<Rightarrow> jsnum \<Rightarrow> ProposalPayload option" where
  "SemanticThresholdAdjustPayloadSchema category current new =
     (case (number_between 0 2 current, number_between 0 2 new) of
        (Some c, Some n) \<Rightarrow> Some (SemanticThresholdAdjustPayload category c n)
      | _ \<Rightarrow> None)"

definition AgentToolTtlAdjustPayloadSchema :: "string \<Rightarrow> jsnum \<Rightarrow> jsnum \<Rightarrow> ProposalPayload option" where
  "AgentToolTtlAdjustPayloadSchema tool current new =
     (case (int_at_least 0 current, int_at_least 10 new) of
        (Some c, Some n) \<Rightarrow>
          if tool \<noteq> [] \<and> n \<le> 86400 then Some (AgentToolTtlAdjustPayload tool c n) else None
      | _ \<Rightarrow> None)"

definition SemanticInvalidatePayloadSchema :: "string \<Rightarrow> jsnum \<Rightarrow> ProposalPayload option" where
  "SemanticInvalidatePayloadSchema expression estimated =
     (case int_at_least 0 estimated of
        Some n \<Rightarrow> if expression \<noteq> [] then Some (SemanticInvalidatePayload expression n) else None
      | None \<Rightarrow> None)"

definition AgentInvalidatePayloadSchema :: "AgentFilterKind \<Rightarrow> string \<Rightarrow> jsnum \<Rightarrow> ProposalPayload option" where
  "AgentInvalidatePayloadSchema kind fvalue estimated =
     (case int_at_least 0 estimated of
        Some n \<Rightarrow> if fvalue \<noteq> [] then Some (AgentInvalidatePayload kind fvalue n) else None
      | None \<Rightarrow> None)"

text \<open>Parsing a payload against the schema of a cache and proposal type; unknown pairs throw.\<close>

fun payload_valid :: "ProposalPayload \<Rightarrow> bool" where
  "payload_valid (SemanticThresholdAdjustPayload category c n) \<longleftrightarrow> 0 \<le> c \<and> c \<le> 2 \<and> 0 \<le> n \<and> n \<le> 2"
| "payload_valid (AgentToolTtlAdjustPayload tool c n) \<longleftrightarrow> tool \<noteq> [] \<and> 0 \<le> c \<and> c \<le> MAX_SAFE_INTEGER \<and> 10 \<le> n \<and> n \<le> 86400"
| "payload_valid (SemanticInvalidatePayload expression n) \<longleftrightarrow> expression \<noteq> [] \<and> 0 \<le> n \<and> n \<le> MAX_SAFE_INTEGER"
| "payload_valid (AgentInvalidatePayload kind v n) \<longleftrightarrow> v \<noteq> [] \<and> 0 \<le> n \<and> n \<le> MAX_SAFE_INTEGER"

fun payload_fits :: "CacheType \<Rightarrow> ProposalType \<Rightarrow> ProposalPayload \<Rightarrow> bool" where
  "payload_fits SemanticCache ThresholdAdjust (SemanticThresholdAdjustPayload _ _ _) = True"
| "payload_fits SemanticCache Invalidate (SemanticInvalidatePayload _ _) = True"
| "payload_fits AgentCache ToolTtlAdjust (AgentToolTtlAdjustPayload _ _ _) = True"
| "payload_fits AgentCache Invalidate (AgentInvalidatePayload _ _ _) = True"
| "payload_fits _ _ _ = False"

definition variant_parses :: "CacheType \<Rightarrow> ProposalType \<Rightarrow> ProposalPayload \<Rightarrow> bool" where
  "variant_parses ct pt payload \<longleftrightarrow> payload_fits ct pt payload \<and> payload_valid payload"

text \<open>What a schema returns is valid and of its variant.\<close>

lemma int_number_safe: "int_number v = Some n \<Longrightarrow> \<bar>n\<bar> \<le> MAX_SAFE_INTEGER"
  by (auto simp: int_number_def split: jsnum.splits if_splits)

lemma int_at_leastD: "int_at_least lo v = Some n \<Longrightarrow> lo \<le> n \<and> n \<le> MAX_SAFE_INTEGER"
  by (auto simp: int_at_least_def dest: int_number_safe split: option.splits if_splits)

lemma number_betweenD: "number_between lo hi v = Some x \<Longrightarrow> v = Num x \<and> lo \<le> x \<and> x \<le> hi"
  by (auto simp: number_between_def split: jsnum.splits if_splits)

lemma threshold_schema_parses:
  "SemanticThresholdAdjustPayloadSchema category c n = Some p \<Longrightarrow> variant_parses SemanticCache ThresholdAdjust p"
  by (auto simp: SemanticThresholdAdjustPayloadSchema_def variant_parses_def dest: number_betweenD
      split: option.splits)

lemma ttl_schema_parses:
  "AgentToolTtlAdjustPayloadSchema tool c n = Some p \<Longrightarrow> variant_parses AgentCache ToolTtlAdjust p"
  by (auto simp: AgentToolTtlAdjustPayloadSchema_def variant_parses_def dest: int_at_leastD
      split: option.splits if_splits)

lemma semantic_invalidate_schema_parses:
  "SemanticInvalidatePayloadSchema e n = Some p \<Longrightarrow> variant_parses SemanticCache Invalidate p"
  by (auto simp: SemanticInvalidatePayloadSchema_def variant_parses_def dest: int_at_leastD
      split: option.splits if_splits)

lemma agent_invalidate_schema_parses:
  "AgentInvalidatePayloadSchema k v n = Some p \<Longrightarrow> variant_parses AgentCache Invalidate p"
  by (auto simp: AgentInvalidatePayloadSchema_def variant_parses_def dest: int_at_leastD
      split: option.splits if_splits)

lemmas schema_parses = threshold_schema_parses ttl_schema_parses semantic_invalidate_schema_parses
  agent_invalidate_schema_parses

section \<open>Rows\<close>

record AppliedResult =
  arSuccess :: bool
  arError :: "string option"
  arDetails :: "(string, field_value) jsmap option"

record StoredCacheProposal =
  cpId :: string
  cpConnectionId :: string
  cpCacheName :: string
  cpCacheType :: CacheType
  cpProposalType :: ProposalType
  cpPayload :: ProposalPayload
  cpReasoning :: "string option"
  cpStatus :: ProposalStatus
  cpProposedBy :: "string option"
  cpProposedAt :: int
  cpReviewedBy :: "string option"
  cpReviewedAt :: "int option"
  cpAppliedAt :: "int option"
  cpAppliedResult :: "AppliedResult option"
  cpExpiresAt :: int

record StoredCacheProposalAudit =
  auId :: string
  auProposalId :: string
  auEventType :: ProposalAuditEvent
  auEventPayload :: "(string, field_value) jsmap option"
  auEventAt :: int
  auActor :: "string option"
  auActorSource :: ActorSource

record CreateCacheProposalInput =
  ciId :: string
  ciConnectionId :: string
  ciCacheName :: string
  ciCacheType :: CacheType
  ciProposalType :: ProposalType
  ciPayload :: ProposalPayload
  ciReasoning :: "string option"
  ciProposedBy :: "string option"
  ciProposedAt :: "int option"
  ciExpiresAt :: "int option"

text \<open>
  In the input of a status update a field that is not given keeps its value. The callers never give
  an explicit \<open>null\<close> but for the reviewer, so the outer option of \<open>uiReviewedBy\<close> is \<open>undefined\<close>
  and the inner one \<open>null\<close>.
\<close>

record UpdateProposalStatusInput =
  uiId :: string
  uiExpected :: "ProposalStatus list option"
  uiStatus :: ProposalStatus
  uiReviewedBy :: "string option option"
  uiReviewedAt :: "int option"
  uiAppliedAt :: "int option"
  uiAppliedResult :: "AppliedResult option"
  uiPayload :: "ProposalPayload option"

definition status_update :: "string \<Rightarrow> ProposalStatus list \<Rightarrow> ProposalStatus \<Rightarrow> UpdateProposalStatusInput" where
  "status_update pid expected status =
     \<lparr> uiId = pid, uiExpected = Some expected, uiStatus = status, uiReviewedBy = None, uiReviewedAt = None,
       uiAppliedAt = None, uiAppliedResult = None, uiPayload = None \<rparr>"

record ListCacheProposalsOptions =
  loConnectionId :: string
  loStatus :: "ProposalStatus list option"
  loCacheName :: "string option"
  loCacheType :: "CacheType option"
  loProposalType :: "ProposalType option"
  loLimit :: "nat option"
  loOffset :: "nat option"

definition PROPOSAL_DEFAULT_EXPIRY_MS :: int where "PROPOSAL_DEFAULT_EXPIRY_MS = 86400000"

section \<open>Errors\<close>

text \<open>What a driver throws: the fields the services look at.\<close>

record DriverError =
  errCode :: "string option"
  errMessage :: "string option"

datatype CacheProposalError =
  CacheProposalValidationError
| InvalidCacheTypeError CacheType CacheType string
| CacheNotFoundError string
| DuplicatePendingProposalError string ProposalType
| ProposalNotFoundError string
| ProposalExpiredError string int
| ProposalNotPendingError string "ProposalStatus option"
| ProposalEditNotAllowedError string
| ApplyFailedError string string "(string, field_value) jsmap option"
| RateLimitedError int
| ZodError
| StorageError DriverError

end
