(* ===== verification/Proposal_Store.thy ===== *)
theory Proposal_Store
  imports Proposal_Types
begin

text \<open>
  The rows of the cache proposals and of their audit trail in the memory adapter (a \<open>Map\<close> by id) and
  in the SQLite adapter (a table with its constraints), src/apps/api/src/storage/adapters. The
  SQLite statements are read as functions of the rows in insertion order; the row parser is the
  identity on the rows the typed inputs can make. A read of the clock is an argument.

  Shown: no two pending proposals ask for the same change, whatever the order of the operations, and
  on the stores that arise both adapters do the same. The locale \<open>proposal_repo\<close> is what the
  services rely on; both adapters are its interpretations.
\<close>

record proposal_store =
  proposals :: "(string, StoredCacheProposal) jsmap"
  proposalAudit :: "(string, StoredCacheProposalAudit) jsmap"

type_synonym 'a store_call = "proposal_store \<Rightarrow> (CacheProposalError + 'a) \<times> proposal_store"

definition driver_error :: "string option \<Rightarrow> string \<Rightarrow> CacheProposalError" where
  "driver_error code message = StorageError \<lparr> errCode = code, errMessage = Some message \<rparr>"

definition given :: "'a option \<Rightarrow> 'a \<Rightarrow> 'a" where
  "given new old = (case new of None \<Rightarrow> old | Some x \<Rightarrow> x)"

section \<open>Creating\<close>

definition NULL_SUB_DISCRIMINATOR :: string where "NULL_SUB_DISCRIMINATOR = ''__betterdb_null__''"

fun payload_category :: "ProposalPayload \<Rightarrow> string option" where
  "payload_category (SemanticThresholdAdjustPayload category _ _) = category"
| "payload_category _ = None"

fun payload_tool_name :: "ProposalPayload \<Rightarrow> string option" where
  "payload_tool_name (AgentToolTtlAdjustPayload tool _ _) = Some tool"
| "payload_tool_name _ = None"

definition pendingProposalSubDiscriminator :: "ProposalType \<Rightarrow> ProposalPayload \<Rightarrow> string option" where
  "pendingProposalSubDiscriminator pt payload =
     (case pt of
        ThresholdAdjust \<Rightarrow> Some (given (payload_category payload) NULL_SUB_DISCRIMINATOR)
      | ToolTtlAdjust \<Rightarrow> Some (given (payload_tool_name payload) NULL_SUB_DISCRIMINATOR)
      | Invalidate \<Rightarrow> None)"

definition new_row :: "int \<Rightarrow> CreateCacheProposalInput \<Rightarrow> StoredCacheProposal" where
  "new_row now ci =
     (let proposedAt = given (ciProposedAt ci) now
      in \<lparr> cpId = ciId ci, cpConnectionId = ciConnectionId ci, cpCacheName = ciCacheName ci,
           cpCacheType = ciCacheType ci, cpProposalType = ciProposalType ci, cpPayload = ciPayload ci,
           cpReasoning = ciReasoning ci, cpStatus = Pending, cpProposedBy = ciProposedBy ci,
           cpProposedAt = proposedAt, cpReviewedBy = None, cpReviewedAt = None, cpAppliedAt = None,
           cpAppliedResult = None, cpExpiresAt = given (ciExpiresAt ci) (proposedAt + PROPOSAL_DEFAULT_EXPIRY_MS) \<rparr>)"

definition same_request :: "CreateCacheProposalInput \<Rightarrow> StoredCacheProposal \<Rightarrow> bool" where
  "same_request ci existing \<longleftrightarrow> cpStatus existing = Pending
     \<and> cpConnectionId existing = ciConnectionId ci \<and> cpCacheName existing = ciCacheName ci
     \<and> cpProposalType existing = ciProposalType ci
     \<and> pendingProposalSubDiscriminator (cpProposalType existing) (cpPayload existing)
         = pendingProposalSubDiscriminator (ciProposalType ci) (ciPayload ci)"

definition mem_createCacheProposal :: "int \<Rightarrow> CreateCacheProposalInput \<Rightarrow> StoredCacheProposal store_call" where
  "mem_createCacheProposal now ci s =
     (if pendingProposalSubDiscriminator (ciProposalType ci) (ciPayload ci) \<noteq> None
         \<and> list_ex (same_request ci) (map snd (proposals s))
      then (Inl (driver_error None ''UNIQUE constraint failed: cache_proposals''), s)
      else let p = new_row now ci in (Inr p, s \<lparr> proposals := js_set (cpId p) p (proposals s) \<rparr>))"

text \<open>The partial unique indexes of the table: a key for the rows they hold, \<open>None\<close> for the others.\<close>

definition threshold_index :: "StoredCacheProposal \<Rightarrow> (string \<times> string \<times> string) option" where
  "threshold_index p =
     (if cpStatus p = Pending \<and> cpProposalType p = ThresholdAdjust
      then Some (cpConnectionId p, cpCacheName p, given (payload_category (cpPayload p)) ''__betterdb_null__'')
      else None)"

definition tool_ttl_index :: "StoredCacheProposal \<Rightarrow> (string \<times> string \<times> string) option" where
  "tool_ttl_index p =
     (if cpStatus p = Pending \<and> cpProposalType p = ToolTtlAdjust
      then Some (cpConnectionId p, cpCacheName p, given (payload_tool_name (cpPayload p)) ''__betterdb_null__'')
      else None)"

definition index_clash :: "(StoredCacheProposal \<Rightarrow> 'k option) \<Rightarrow> StoredCacheProposal \<Rightarrow> StoredCacheProposal list \<Rightarrow> bool" where
  "index_clash idx p rows \<longleftrightarrow> idx p \<noteq> None \<and> list_ex (\<lambda>q. idx q = idx p) rows"

definition table_check :: "StoredCacheProposal \<Rightarrow> bool" where
  "table_check p \<longleftrightarrow>
     (cpCacheType p = SemanticCache \<and> cpProposalType p \<in> {ThresholdAdjust, Invalidate})
     \<or> (cpCacheType p = AgentCache \<and> cpProposalType p \<in> {ToolTtlAdjust, Invalidate})"

definition sql_createCacheProposal :: "int \<Rightarrow> CreateCacheProposalInput \<Rightarrow> StoredCacheProposal store_call" where
  "sql_createCacheProposal now ci s =
     (let p = new_row now ci; rows = map snd (proposals s)
      in if \<not> table_check p then
           (Inl (driver_error (Some ''SQLITE_CONSTRAINT_CHECK'') ''CHECK constraint failed''), s)
         else if js_has (proposals s) (cpId p) then
           (Inl (driver_error (Some ''SQLITE_CONSTRAINT_PRIMARYKEY'') ''UNIQUE constraint failed: cache_proposals.id''), s)
         else if index_clash threshold_index p rows \<or> index_clash tool_ttl_index p rows then
           (Inl (driver_error (Some ''SQLITE_CONSTRAINT_UNIQUE'') ''UNIQUE constraint failed''), s)
         else (Inr p, s \<lparr> proposals := proposals s @ [(cpId p, p)] \<rparr>))"

section \<open>Reading\<close>

definition getCacheProposal :: "string \<Rightarrow> proposal_store \<Rightarrow> StoredCacheProposal option" where
  "getCacheProposal pid s = js_get (proposals s) pid"

definition wanted :: "ListCacheProposalsOptions \<Rightarrow> StoredCacheProposal \<Rightarrow> bool" where
  "wanted opt p \<longleftrightarrow> cpConnectionId p = loConnectionId opt
     \<and> opt_holds (\<lambda>statuses. cpStatus p \<in> set statuses) (loStatus opt)
     \<and> opt_holds (\<lambda>n. cpCacheName p = n) (truthy [] (loCacheName opt))
     \<and> opt_holds (\<lambda>t. cpCacheType p = t) (loCacheType opt)
     \<and> opt_holds (\<lambda>t. cpProposalType p = t) (loProposalType opt)"

definition listCacheProposals :: "ListCacheProposalsOptions \<Rightarrow> proposal_store \<Rightarrow> StoredCacheProposal list" where
  "listCacheProposals opt s =
     (if loStatus opt = Some [] then []
      else take (given (loLimit opt) 100) (drop (given (loOffset opt) 0)
             (sort_key (\<lambda>p. - cpProposedAt p) (filter (wanted opt) (map snd (proposals s))))))"

section \<open>Changing the status\<close>

definition apply_status :: "UpdateProposalStatusInput \<Rightarrow> StoredCacheProposal \<Rightarrow> StoredCacheProposal" where
  "apply_status u p =
     p \<lparr> cpStatus := uiStatus u, cpReviewedBy := given (uiReviewedBy u) (cpReviewedBy p),
         cpReviewedAt := (case uiReviewedAt u of None \<Rightarrow> cpReviewedAt p | t \<Rightarrow> t),
         cpAppliedAt := (case uiAppliedAt u of None \<Rightarrow> cpAppliedAt p | t \<Rightarrow> t),
         cpAppliedResult := (case uiAppliedResult u of None \<Rightarrow> cpAppliedResult p | r \<Rightarrow> r),
         cpPayload := given (uiPayload u) (cpPayload p) \<rparr>"

definition expected :: "UpdateProposalStatusInput \<Rightarrow> StoredCacheProposal \<Rightarrow> bool" where
  "expected u p \<longleftrightarrow> opt_holds (\<lambda>statuses. cpStatus p \<in> set statuses) (uiExpected u)"

definition payload_ok :: "UpdateProposalStatusInput \<Rightarrow> StoredCacheProposal \<Rightarrow> bool" where
  "payload_ok u p \<longleftrightarrow> opt_holds (variant_parses (cpCacheType p) (cpProposalType p)) (uiPayload u)"

definition mem_updateCacheProposalStatus :: "UpdateProposalStatusInput \<Rightarrow> StoredCacheProposal option store_call" where
  "mem_updateCacheProposalStatus u s =
     (case js_get (proposals s) (uiId u) of
        None \<Rightarrow> (Inr None, s)
      | Some existing \<Rightarrow>
          if \<not> expected u existing then (Inr None, s)
          else if \<not> payload_ok u existing then (Inl ZodError, s)
          else let updated = apply_status u existing
               in (Inr (Some updated), s \<lparr> proposals := js_set (uiId u) updated (proposals s) \<rparr>))"

text \<open>
  The statement of the SQLite adapter tests the status again in its WHERE clause; the unique
  indexes hold for the updated row too.
\<close>

definition sql_update_rows ::
  "UpdateProposalStatusInput \<Rightarrow> (string, StoredCacheProposal) jsmap \<Rightarrow> (string, StoredCacheProposal) jsmap" where
  "sql_update_rows u rows =
     map (\<lambda>(k, p). (k, if k = uiId u \<and> expected u p then apply_status u p else p)) rows"

definition sql_update_clash :: "UpdateProposalStatusInput \<Rightarrow> (string, StoredCacheProposal) jsmap \<Rightarrow> bool" where
  "sql_update_clash u rows \<longleftrightarrow>
     list_ex (\<lambda>(k, p). k = uiId u \<and> expected u p
       \<and> (let others = map snd (filter (\<lambda>(k', q). k' \<noteq> k) rows)
          in index_clash threshold_index (apply_status u p) others
             \<or> index_clash tool_ttl_index (apply_status u p) others)) rows"

definition sql_updateCacheProposalStatus :: "UpdateProposalStatusInput \<Rightarrow> StoredCacheProposal option store_call" where
  "sql_updateCacheProposalStatus u s =
     (let precheck = (if uiExpected u = None \<and> uiPayload u = None then Inr True
            else case getCacheProposal (uiId u) s of
                None \<Rightarrow> Inr False
              | Some existing \<Rightarrow>
                  if \<not> expected u existing then Inr False
                  else if \<not> payload_ok u existing then Inl ZodError
                  else Inr True)
      in case precheck of
           Inl e \<Rightarrow> (Inl e, s)
         | Inr False \<Rightarrow> (Inr None, s)
         | Inr True \<Rightarrow>
             if sql_update_clash u (proposals s)
             then (Inl (driver_error (Some ''SQLITE_CONSTRAINT_UNIQUE'') ''UNIQUE constraint failed''), s)
             else let changes = filter (\<lambda>(k, p). k = uiId u \<and> expected u p) (proposals s);
                      s' = s \<lparr> proposals := sql_update_rows u (proposals s) \<rparr>
                  in if changes = [] then (Inr None, s') else (Inr (getCacheProposal (uiId u) s'), s'))"

section \<open>Expiry\<close>

definition overdue :: "int \<Rightarrow> StoredCacheProposal \<Rightarrow> bool" where
  "overdue now p \<longleftrightarrow> cpStatus p = Pending \<and> cpExpiresAt p \<le> now"

definition expire_row :: "StoredCacheProposal \<Rightarrow> StoredCacheProposal" where
  "expire_row p = p \<lparr> cpStatus := Expired \<rparr>"

fun mem_expire_loop :: "int \<Rightarrow> StoredCacheProposal list \<Rightarrow> StoredCacheProposal list \<times> (string, StoredCacheProposal) jsmap
    \<Rightarrow> StoredCacheProposal list \<times> (string, StoredCacheProposal) jsmap" where
  "mem_expire_loop now [] (expired, rows) = (expired, rows)"
| "mem_expire_loop now (p # ps) (expired, rows) =
     mem_expire_loop now ps
       (if overdue now p then (expired @ [expire_row p], js_set (cpId p) (expire_row p) rows) else (expired, rows))"

definition mem_expireCacheProposalsBefore :: "int \<Rightarrow> StoredCacheProposal list store_call" where
  "mem_expireCacheProposalsBefore now s =
     (let (expired, rows) = mem_expire_loop now (map snd (proposals s)) ([], proposals s)
      in (Inr expired, s \<lparr> proposals := rows \<rparr>))"

definition sql_expireCacheProposalsBefore :: "int \<Rightarrow> StoredCacheProposal list store_call" where
  "sql_expireCacheProposalsBefore now s =
     (Inr (map expire_row (filter (overdue now) (map snd (proposals s)))),
      s \<lparr> proposals := map (\<lambda>(k, p). (k, if overdue now p then expire_row p else p)) (proposals s) \<rparr>)"

section \<open>Audit\<close>

definition mem_appendCacheProposalAudit :: "StoredCacheProposalAudit \<Rightarrow> StoredCacheProposalAudit store_call" where
  "mem_appendCacheProposalAudit a s = (Inr a, s \<lparr> proposalAudit := js_set (auId a) a (proposalAudit s) \<rparr>)"

definition sql_appendCacheProposalAudit :: "StoredCacheProposalAudit \<Rightarrow> StoredCacheProposalAudit store_call" where
  "sql_appendCacheProposalAudit a s =
     (if js_has (proposalAudit s) (auId a) then
        (Inl (driver_error (Some ''SQLITE_CONSTRAINT_PRIMARYKEY'') ''UNIQUE constraint failed: cache_proposal_audit.id''), s)
      else if \<not> js_has (proposals s) (auProposalId a) then
        (Inl (driver_error (Some ''SQLITE_CONSTRAINT_FOREIGNKEY'') ''FOREIGN KEY constraint failed''), s)
      else (Inr a, s \<lparr> proposalAudit := proposalAudit s @ [(auId a, a)] \<rparr>))"

definition getCacheProposalAudit :: "string \<Rightarrow> proposal_store \<Rightarrow> StoredCacheProposalAudit list" where
  "getCacheProposalAudit pid s =
     sort_key auEventAt (filter (\<lambda>a. auProposalId a = pid) (map snd (proposalAudit s)))"

section \<open>The invariant\<close>

text \<open>What a pending proposal asks for; \<open>None\<close> for rows that exclude no other.\<close>

definition request_key :: "StoredCacheProposal \<Rightarrow> (string \<times> string \<times> ProposalType \<times> string) option" where
  "request_key p =
     (if cpStatus p = Pending
      then map_option (\<lambda>d. (cpConnectionId p, cpCacheName p, cpProposalType p, d))
             (pendingProposalSubDiscriminator (cpProposalType p) (cpPayload p))
      else None)"

definition unique_pending :: "(string, StoredCacheProposal) jsmap \<Rightarrow> bool" where
  "unique_pending rows \<longleftrightarrow>
     (\<forall>(k, p) \<in> set rows. \<forall>(k', q) \<in> set rows. request_key p \<noteq> None \<and> request_key p = request_key q \<longrightarrow> k = k')"

definition store_ok :: "proposal_store \<Rightarrow> bool" where
  "store_ok s \<longleftrightarrow> wf_map (proposals s) \<and> (\<forall>(k, p) \<in> set (proposals s). cpId p = k) \<and> unique_pending (proposals s)"

lemma unique_pendingI:
  assumes "\<And>k p k' q y. (k, p) \<in> set rows \<Longrightarrow> (k', q) \<in> set rows \<Longrightarrow> request_key p = Some y \<Longrightarrow>
    request_key q = Some y \<Longrightarrow> k = k'"
  shows "unique_pending rows"
  unfolding unique_pending_def
proof (rule ballI)
  fix a assume a: "a \<in> set rows"
  obtain k p where kp: "a = (k, p)" by (cases a)
  have "case b of (k', q) \<Rightarrow> request_key p \<noteq> None \<and> request_key p = request_key q \<longrightarrow> k = k'"
    if b: "b \<in> set rows" for b
  proof -
    obtain k' q where kq: "b = (k', q)" by (cases b)
    show ?thesis using a b assms [of k p k' q] unfolding kp kq by (cases "request_key p") auto
  qed
  then show "case a of (k, p) \<Rightarrow> \<forall>(k', q) \<in> set rows. request_key p \<noteq> None \<and> request_key p = request_key q \<longrightarrow> k = k'"
    unfolding kp by simp
qed

lemma unique_pendingD:
  assumes "unique_pending rows" "(k, p) \<in> set rows" "(k', q) \<in> set rows" "request_key p = Some y" "request_key q = Some y"
  shows "k = k'"
  using bspec [OF bspec [OF assms(1) [unfolded unique_pending_def] assms(2), simplified prod.case] assms(3)] assms(4,5)
  by simp

lemma threshold_index_key:
  "threshold_index p \<noteq> None \<Longrightarrow> threshold_index q = threshold_index p \<longleftrightarrow> request_key q = request_key p"
  by (cases "cpProposalType q"; cases "cpStatus q = Pending")
    (simp_all add: threshold_index_def request_key_def pendingProposalSubDiscriminator_def
      NULL_SUB_DISCRIMINATOR_def split: if_splits)

lemma tool_ttl_index_key:
  "tool_ttl_index p \<noteq> None \<Longrightarrow> tool_ttl_index q = tool_ttl_index p \<longleftrightarrow> request_key q = request_key p"
  by (cases "cpProposalType q"; cases "cpStatus q = Pending")
    (simp_all add: tool_ttl_index_def request_key_def pendingProposalSubDiscriminator_def
      NULL_SUB_DISCRIMINATOR_def split: if_splits)

lemma indexed_iff: "threshold_index p \<noteq> None \<or> tool_ttl_index p \<noteq> None \<longleftrightarrow> request_key p \<noteq> None"
  by (cases "cpProposalType p")
    (simp_all add: threshold_index_def tool_ttl_index_def request_key_def pendingProposalSubDiscriminator_def)

lemma index_clash_iff:
  "index_clash threshold_index p rows \<or> index_clash tool_ttl_index p rows
    \<longleftrightarrow> request_key p \<noteq> None \<and> (\<exists>q \<in> set rows. request_key q = request_key p)"
proof -
  have "index_clash threshold_index p rows
      \<longleftrightarrow> threshold_index p \<noteq> None \<and> (\<exists>q \<in> set rows. request_key q = request_key p)"
    unfolding index_clash_def list_ex_iff using threshold_index_key [of p] by blast
  moreover have "index_clash tool_ttl_index p rows
      \<longleftrightarrow> tool_ttl_index p \<noteq> None \<and> (\<exists>q \<in> set rows. request_key q = request_key p)"
    unfolding index_clash_def list_ex_iff using tool_ttl_index_key [of p] by blast
  ultimately show ?thesis using indexed_iff [of p] by blast
qed

lemma same_request_iff:
  assumes "pendingProposalSubDiscriminator (ciProposalType ci) (ciPayload ci) \<noteq> None"
  shows "same_request ci q \<longleftrightarrow> request_key q = request_key (new_row now ci)"
  using assms by (auto simp: same_request_def request_key_def new_row_def Let_def)

lemma new_row_key:
  "request_key (new_row now ci) \<noteq> None \<longleftrightarrow> pendingProposalSubDiscriminator (ciProposalType ci) (ciPayload ci) \<noteq> None"
  by (simp add: request_key_def new_row_def Let_def)


lemma map_at_key:
  assumes "wf_map m"
  shows "map (\<lambda>(k', q). (k', if k' = k \<and> P q then f q else q)) m
    = (case js_get m k of None \<Rightarrow> m | Some p \<Rightarrow> if P p then js_set k (f p) m else m)"
  using assms
proof (induction m)
  case (Cons a m)
  obtain k' q where a: "a = (k', q)" by (cases a)
  have wf: "wf_map m" and new: "k' \<notin> fst ` set m" using Cons.prems a by (simp_all add: wf_map_def)
  show ?case
  proof (cases "k' = k")
    case True
    have "map (\<lambda>(k', q). (k', if k' = k \<and> P q then f q else q)) m = m"
      using new True by (induction m) auto
    with True a show ?thesis by simp
  next
    case False
    with Cons.IH [OF wf] a show ?thesis by (simp split: option.splits)
  qed
qed simp

lemma update_append_new: "k \<notin> fst ` set pre \<Longrightarrow> js_set k v (pre @ (k, p) # rest) = pre @ (k, v) # rest"
  by (induction pre) auto

lemma mem_expire_loop_map:
  assumes "wf_map (pre @ todo)" and "\<forall>(k, p) \<in> set todo. cpId p = k"
  shows "mem_expire_loop now (map snd todo) (ex, pre @ todo)
    = (ex @ map expire_row (filter (overdue now) (map snd todo)),
       pre @ map (\<lambda>(k, p). (k, if overdue now p then expire_row p else p)) todo)"
  using assms
proof (induction todo arbitrary: pre ex)
  case (Cons a todo)
  obtain k p where a: "a = (k, p)" by (cases a)
  have id: "cpId p = k" and new: "k \<notin> fst ` set pre" using Cons.prems a by (auto simp: wf_map_def)
  define p' where "p' = (if overdue now p then expire_row p else p)"
  have "wf_map ((pre @ [(k, p')]) @ todo)" using Cons.prems(1) a by (simp add: wf_map_def)
  from Cons.IH [OF this] Cons.prems(2)
  have ih: "mem_expire_loop now (map snd todo) (ex', (pre @ [(k, p')]) @ todo)
      = (ex' @ map expire_row (filter (overdue now) (map snd todo)),
         (pre @ [(k, p')]) @ map (\<lambda>(k, p). (k, if overdue now p then expire_row p else p)) todo)" for ex'
    by simp
  show ?case
    using ih [of ex] ih [of "ex @ [expire_row p]"] update_append_new [OF new, of "expire_row p" p todo] id
    unfolding a p'_def by (cases "overdue now p") simp_all
qed simp

lemma expire_agrees:
  assumes "store_ok s"
  shows "mem_expireCacheProposalsBefore now s = sql_expireCacheProposalsBefore now s"
  using mem_expire_loop_map [of "[]" "proposals s" now "[]"] assms
  by (simp add: mem_expireCacheProposalsBefore_def sql_expireCacheProposalsBefore_def store_ok_def)

text \<open>A proposal that leaves the pending state, or keeps asking for the same, clashes with no index.\<close>

lemma update_no_clash:
  assumes "store_ok s" and leaves: "uiStatus u \<noteq> Pending"
  shows "\<not> sql_update_clash u (proposals s)"
proof -
  have "request_key (apply_status u p) = None" for p using leaves by (simp add: request_key_def apply_status_def)
  then show ?thesis by (auto simp: sql_update_clash_def list_ex_iff Let_def index_clash_iff)
qed

lemma sql_rows:
  assumes "store_ok s"
  shows "sql_update_rows u (proposals s)
    = (case js_get (proposals s) (uiId u) of None \<Rightarrow> proposals s
       | Some p \<Rightarrow> if expected u p then js_set (uiId u) (apply_status u p) (proposals s) else proposals s)"
  using assms unfolding sql_update_rows_def by (simp add: map_at_key store_ok_def)

lemma sql_changes:
  assumes "store_ok s"
  shows "filter (\<lambda>(k, p). k = uiId u \<and> expected u p) (proposals s) = []
    \<longleftrightarrow> (case js_get (proposals s) (uiId u) of None \<Rightarrow> True | Some p \<Rightarrow> \<not> expected u p)"
proof -
  have wf: "wf_map (proposals s)" using assms by (simp add: store_ok_def)
  have "filter (\<lambda>(k, p). k = uiId u \<and> expected u p) (proposals s) = []
      \<longleftrightarrow> (\<forall>p. (uiId u, p) \<in> set (proposals s) \<longrightarrow> \<not> expected u p)"
    by (auto simp: filter_empty_conv)
  then show ?thesis unfolding js_get_in_set [OF wf] by (auto split: option.splits)
qed

lemma update_agrees:
  assumes ok: "store_ok s" and leaves: "uiStatus u \<noteq> Pending"
  shows "mem_updateCacheProposalStatus u s = sql_updateCacheProposalStatus u s"
proof (cases "js_get (proposals s) (uiId u)")
  case None
  have same: "s \<lparr> proposals := proposals s \<rparr> = s" by simp
  show ?thesis
    using None update_no_clash [OF ok leaves] sql_changes [OF ok, of u] sql_rows [OF ok, of u]
    by (simp add: mem_updateCacheProposalStatus_def sql_updateCacheProposalStatus_def getCacheProposal_def)
next
  case (Some p)
  have free: "expected u p" "payload_ok u p" if "uiExpected u = None \<and> uiPayload u = None"
    using that by (simp_all add: expected_def payload_ok_def opt_holds_def)
  show ?thesis
  proof (cases "expected u p \<and> payload_ok u p")
    case True
    with Some show ?thesis
      using update_no_clash [OF ok leaves] sql_changes [OF ok, of u] sql_rows [OF ok, of u]
      by (simp add: mem_updateCacheProposalStatus_def sql_updateCacheProposalStatus_def getCacheProposal_def
          Let_def js_simps)
  next
    case False
    with free have checked: "\<not> (uiExpected u = None \<and> uiPayload u = None)" by blast
    show ?thesis using Some False checked
      by (simp only: mem_updateCacheProposalStatus_def sql_updateCacheProposalStatus_def getCacheProposal_def Let_def
          if_False option.case) (simp split: if_splits)
  qed
qed

section \<open>Errors that mean a duplicate\<close>

definition contains_ignoring_case :: "string \<Rightarrow> string \<Rightarrow> bool" where
  "contains_ignoring_case pat txt \<longleftrightarrow>
     list_ex (\<lambda>i. toLowerCase (take (length pat) (drop i txt)) = toLowerCase pat) [0..<Suc (length txt)]"

definition isUniqueConstraintViolation :: "DriverError \<Rightarrow> bool" where
  "isUniqueConstraintViolation e \<longleftrightarrow>
     errCode e = Some ''23505''
     \<or> errCode e \<in> {Some ''SQLITE_CONSTRAINT_UNIQUE'', Some ''SQLITE_CONSTRAINT_PRIMARYKEY''}
     \<or> (case errMessage e of None \<Rightarrow> False | Some m \<Rightarrow> contains_ignoring_case ''UNIQUE constraint failed'' m)"

definition means_duplicate :: "CacheProposalError \<Rightarrow> bool" where
  "means_duplicate e \<longleftrightarrow> (case e of StorageError d \<Rightarrow> isUniqueConstraintViolation d | _ \<Rightarrow> False)"

lemma adapters_report_duplicates:
  "means_duplicate (driver_error None ''UNIQUE constraint failed: cache_proposals'')"
  "means_duplicate (driver_error (Some ''SQLITE_CONSTRAINT_UNIQUE'') ''UNIQUE constraint failed'')"
  "means_duplicate (driver_error (Some ''SQLITE_CONSTRAINT_PRIMARYKEY'') ''UNIQUE constraint failed: cache_proposals.id'')"
  "\<not> means_duplicate (driver_error (Some ''SQLITE_CONSTRAINT_CHECK'') ''CHECK constraint failed'')"
  by code_simp+

section \<open>The interface\<close>

definition asks_nothing_pending :: "StoredCacheProposal \<Rightarrow> proposal_store \<Rightarrow> bool" where
  "asks_nothing_pending p s \<longleftrightarrow>
     request_key p = None \<or> (\<forall>q \<in> set (map snd (proposals s)). request_key q \<noteq> request_key p)"

locale proposal_repo =
  fixes create :: "int \<Rightarrow> CreateCacheProposalInput \<Rightarrow> StoredCacheProposal store_call"
    and update :: "UpdateProposalStatusInput \<Rightarrow> StoredCacheProposal option store_call"
    and expire :: "int \<Rightarrow> StoredCacheProposal list store_call"
    and append :: "StoredCacheProposalAudit \<Rightarrow> StoredCacheProposalAudit store_call"
  assumes create_error: "create now ci s = (Inl e, s') \<Longrightarrow> s' = s"
    and create_row: "create now ci s = (Inr p, s') \<Longrightarrow> \<not> js_has (proposals s) (ciId ci) \<Longrightarrow>
        p = new_row now ci \<and> asks_nothing_pending p s \<and> s' = s \<lparr> proposals := proposals s @ [(cpId p, p)] \<rparr>"
    and update_miss: "store_ok s \<Longrightarrow> uiStatus u \<noteq> Pending \<Longrightarrow>
        opt_holds (\<lambda>p. \<not> expected u p) (getCacheProposal (uiId u) s) \<Longrightarrow> update u s = (Inr None, s)"
    and update_refuse: "store_ok s \<Longrightarrow> uiStatus u \<noteq> Pending \<Longrightarrow> getCacheProposal (uiId u) s = Some p \<Longrightarrow>
        expected u p \<Longrightarrow> \<not> payload_ok u p \<Longrightarrow> update u s = (Inl ZodError, s)"
    and update_hit: "store_ok s \<Longrightarrow> uiStatus u \<noteq> Pending \<Longrightarrow> getCacheProposal (uiId u) s = Some p \<Longrightarrow>
        expected u p \<Longrightarrow> payload_ok u p \<Longrightarrow>
        update u s = (Inr (Some (apply_status u p)), s \<lparr> proposals := js_set (uiId u) (apply_status u p) (proposals s) \<rparr>)"
    and expire_all: "store_ok s \<Longrightarrow> expire now s =
        (Inr (map expire_row (filter (overdue now) (map snd (proposals s)))),
         s \<lparr> proposals := map (\<lambda>(k, p). (k, if overdue now p then expire_row p else p)) (proposals s) \<rparr>)"
    and append_ok: "append a s = (Inr a', s') \<Longrightarrow> a' = a \<and> s' = s \<lparr> proposalAudit := js_set (auId a) a (proposalAudit s) \<rparr>"
    and append_error: "append a s = (Inl e, s') \<Longrightarrow> s' = s"
begin

text \<open>The three outcomes of an update, for case analyses.\<close>

lemma update_cases:
  assumes "store_ok s" "uiStatus u \<noteq> Pending"
  obtains (miss) "update u s = (Inr None, s)" "opt_holds (\<lambda>p. \<not> expected u p) (getCacheProposal (uiId u) s)"
    | (refuse) "update u s = (Inl ZodError, s)"
    | (hit) p where "getCacheProposal (uiId u) s = Some p" "expected u p" "payload_ok u p"
        "update u s = (Inr (Some (apply_status u p)), s \<lparr> proposals := js_set (uiId u) (apply_status u p) (proposals s) \<rparr>)"
proof (cases "getCacheProposal (uiId u) s")
  case None
  then have "opt_holds (\<lambda>p. \<not> expected u p) (getCacheProposal (uiId u) s)" by (simp add: opt_holds_def)
  with update_miss [OF assms this] miss show ?thesis by blast
next
  case (Some p)
  show ?thesis
  proof (cases "expected u p")
    case True
    with Some update_refuse [OF assms Some] update_hit [OF assms Some] refuse hit show ?thesis
      by (cases "payload_ok u p") blast+
  next
    case False
    with Some have "opt_holds (\<lambda>p. \<not> expected u p) (getCacheProposal (uiId u) s)" by (simp add: opt_holds_def)
    with update_miss [OF assms this] miss show ?thesis by blast
  qed
qed

lemma create_ok:
  assumes ok: "store_ok s" and c: "create now ci s = (r, s')" and new: "\<not> js_has (proposals s) (ciId ci)"
  shows "store_ok s'"
proof (cases r)
  case (Inl e)
  with create_error c ok show ?thesis by blast
next
  case (Inr p)
  with create_row c new have p: "p = new_row now ci" "asks_nothing_pending p s"
    and s': "s' = s \<lparr> proposals := proposals s @ [(cpId p, p)] \<rparr>" by blast+
  have id: "cpId p = ciId ci" by (simp add: p(1) new_row_def Let_def)
  have no: "request_key q \<noteq> Some y" if "(k, q) \<in> set (proposals s)" "request_key p = Some y" for k q y
  proof -
    have "q \<in> set (map snd (proposals s))" using that(1) by force
    then show ?thesis using p(2) that(2) by (force simp: asks_nothing_pending_def)
  qed
  have "unique_pending (proposals s @ [(cpId p, p)])"
  proof (rule unique_pendingI)
    fix k q k' q' y
    assume *: "(k, q) \<in> set (proposals s @ [(cpId p, p)])" "(k', q') \<in> set (proposals s @ [(cpId p, p)])"
      "request_key q = Some y" "request_key q' = Some y"
    from *(1,2) consider "(k, q) \<in> set (proposals s)" "(k', q') \<in> set (proposals s)"
      | "(k, q) \<in> set (proposals s)" "q' = p" | "q = p" "(k', q') \<in> set (proposals s)"
      | "k = cpId p" "k' = cpId p" by auto
    then show "k = k'"
    proof cases
      case 1
      with unique_pendingD *(3,4) ok show ?thesis unfolding store_ok_def by blast
    next
      case 2
      with no *(3,4) show ?thesis by blast
    next
      case 3
      with no *(3,4) show ?thesis by blast
    qed simp
  qed
  moreover have "wf_map (proposals s @ [(cpId p, p)])"
    using ok new id by (auto simp: store_ok_def wf_map_def js_simps)
  ultimately show ?thesis using ok unfolding s' store_ok_def by auto
qed

lemma update_store_ok:
  assumes ok: "store_ok s" and leaves: "uiStatus u \<noteq> Pending" and r: "update u s = (r, s')"
  shows "store_ok s'"
  using ok leaves
proof (cases rule: update_cases)
  case (hit p)
  then have s': "proposals s' = js_set (uiId u) (apply_status u p) (proposals s)" using r by simp
  have id: "cpId p = uiId u"
    using hit(1) ok unfolding getCacheProposal_def store_ok_def by (auto dest: map_of_SomeD)
  have key: "request_key (apply_status u p) = None" using leaves by (simp add: request_key_def apply_status_def)
  have sub: "(k, q) \<in> set (proposals s') \<Longrightarrow> (k, q) \<in> set (proposals s) \<or> k = uiId u \<and> q = apply_status u p" for k q
    using set_js_set [of "uiId u" "apply_status u p" "proposals s"] unfolding s' by auto
  have "unique_pending (proposals s')"
  proof (rule unique_pendingI)
    fix k q k' q' y
    assume *: "(k, q) \<in> set (proposals s')" "(k', q') \<in> set (proposals s')"
      "request_key q = Some y" "request_key q' = Some y"
    have "(k, q) \<in> set (proposals s)" using sub [OF *(1)] *(3) key by auto
    moreover have "(k', q') \<in> set (proposals s)" using sub [OF *(2)] *(4) key by auto
    ultimately show "k = k'" using unique_pendingD *(3,4) ok unfolding store_ok_def by blast
  qed
  moreover have "wf_map (proposals s')" using ok by (simp add: s' store_ok_def)
  moreover have "cpId q = k" if "(k, q) \<in> set (proposals s')" for k q
    using sub [OF that] ok id by (auto simp: store_ok_def apply_status_def)
  ultimately show ?thesis unfolding store_ok_def by blast
qed (use r ok in auto)

lemma expire_store_ok:
  assumes ok: "store_ok s" and r: "expire now s = (r, s')"
  shows "store_ok s'"
proof -
  define f where "f = (\<lambda>p. if overdue now p then expire_row p else p)"
  have s': "proposals s' = map (\<lambda>(k, p). (k, f p)) (proposals s)" using expire_all [OF ok, of now] r by (auto simp: f_def)
  have key: "request_key (f p) = request_key p \<or> request_key (f p) = None" for p
    by (simp add: f_def expire_row_def request_key_def)
  have id: "cpId (f p) = cpId p" for p by (simp add: f_def expire_row_def)
  have "unique_pending (proposals s')"
  proof (rule unique_pendingI)
    fix k p' k' q' y
    assume *: "(k, p') \<in> set (proposals s')" "(k', q') \<in> set (proposals s')"
      "request_key p' = Some y" "request_key q' = Some y"
    obtain p q where old: "(k, p) \<in> set (proposals s)" "p' = f p" "(k', q) \<in> set (proposals s)" "q' = f q"
      using *(1,2) unfolding s' by auto
    have "request_key p = Some y" "request_key q = Some y" using key [of p] key [of q] old *(3,4) by auto
    with old ok unique_pendingD show "k = k'" unfolding store_ok_def by blast
  qed
  moreover have "wf_map (proposals s')"
  proof -
    have "map fst (proposals s') = map fst (proposals s)" unfolding s' by (simp add: case_prod_beta comp_def)
    then show ?thesis using ok by (simp add: store_ok_def wf_map_def)
  qed
  moreover have "\<forall>(k, p) \<in> set (proposals s'). cpId p = k" using ok id unfolding s' store_ok_def by auto
  ultimately show ?thesis unfolding store_ok_def by blast
qed

lemma append_store_ok: "store_ok s \<Longrightarrow> append a s = (r, s') \<Longrightarrow> store_ok s'"
  using append_ok [of a s] append_error [of a s] by (cases r) (auto simp: store_ok_def)

end

interpretation mem_proposals: proposal_repo mem_createCacheProposal mem_updateCacheProposalStatus
  mem_expireCacheProposalsBefore mem_appendCacheProposalAudit
proof unfold_locales
  fix now ci s p s'
  assume c: "mem_createCacheProposal now ci s = (Inr p, s')" and new: "\<not> js_has (proposals s) (ciId ci)"
  let ?d = "pendingProposalSubDiscriminator (ciProposalType ci) (ciPayload ci)"
  from c have free: "\<not> (?d \<noteq> None \<and> list_ex (same_request ci) (map snd (proposals s)))"
    and p: "p = new_row now ci" and s': "s' = s \<lparr> proposals := js_set (cpId p) p (proposals s) \<rparr>"
    by (auto simp: mem_createCacheProposal_def Let_def split: if_splits)
  have id: "cpId p = ciId ci" by (simp add: p new_row_def Let_def)
  have "asks_nothing_pending p s"
    using free new_row_key [of now ci] same_request_iff [of ci _ now]
    unfolding asks_nothing_pending_def p list_ex_iff by blast
  moreover have "js_set (cpId p) p (proposals s) = proposals s @ [(cpId p, p)]"
    using new by (simp add: id js_set_new js_simps)
  ultimately show "p = new_row now ci \<and> asks_nothing_pending p s \<and> s' = s \<lparr> proposals := proposals s @ [(cpId p, p)] \<rparr>"
    using p s' by simp
next
  fix s now
  assume "store_ok s"
  then show "mem_expireCacheProposalsBefore now s =
        (Inr (map expire_row (filter (overdue now) (map snd (proposals s)))),
         s \<lparr> proposals := map (\<lambda>(k, p). (k, if overdue now p then expire_row p else p)) (proposals s) \<rparr>)"
    by (simp add: expire_agrees sql_expireCacheProposalsBefore_def)
qed (auto simp: mem_createCacheProposal_def mem_updateCacheProposalStatus_def mem_appendCacheProposalAudit_def
    getCacheProposal_def opt_holds_def Let_def split: if_splits option.splits)

interpretation sql_proposals: proposal_repo sql_createCacheProposal sql_updateCacheProposalStatus
  sql_expireCacheProposalsBefore sql_appendCacheProposalAudit
proof unfold_locales
  fix now ci s p s'
  assume c: "sql_createCacheProposal now ci s = (Inr p, s')"
  then have p: "p = new_row now ci" and s': "s' = s \<lparr> proposals := proposals s @ [(cpId p, p)] \<rparr>"
    and free: "\<not> (index_clash threshold_index p (map snd (proposals s)) \<or> index_clash tool_ttl_index p (map snd (proposals s)))"
    by (auto simp: sql_createCacheProposal_def Let_def split: if_splits)
  have "asks_nothing_pending p s" using free unfolding index_clash_iff asks_nothing_pending_def by blast
  with p s' show "p = new_row now ci \<and> asks_nothing_pending p s \<and> s' = s \<lparr> proposals := proposals s @ [(cpId p, p)] \<rparr>"
    by simp
next
  fix s :: proposal_store and u :: UpdateProposalStatusInput
  assume "store_ok s" "uiStatus u \<noteq> Pending"
  note agree = update_agrees [OF this]
  show "opt_holds (\<lambda>p. \<not> expected u p) (getCacheProposal (uiId u) s) \<Longrightarrow> sql_updateCacheProposalStatus u s = (Inr None, s)"
    unfolding agree [symmetric] using \<open>store_ok s\<close> \<open>uiStatus u \<noteq> Pending\<close> by (rule mem_proposals.update_miss)
  show "getCacheProposal (uiId u) s = Some p \<Longrightarrow> expected u p \<Longrightarrow> \<not> payload_ok u p \<Longrightarrow>
      sql_updateCacheProposalStatus u s = (Inl ZodError, s)" for p
    unfolding agree [symmetric] using \<open>store_ok s\<close> \<open>uiStatus u \<noteq> Pending\<close> by (rule mem_proposals.update_refuse)
  show "getCacheProposal (uiId u) s = Some p \<Longrightarrow> expected u p \<Longrightarrow> payload_ok u p \<Longrightarrow>
      sql_updateCacheProposalStatus u s = (Inr (Some (apply_status u p)),
        s \<lparr> proposals := js_set (uiId u) (apply_status u p) (proposals s) \<rparr>)" for p
    unfolding agree [symmetric] using \<open>store_ok s\<close> \<open>uiStatus u \<noteq> Pending\<close> by (rule mem_proposals.update_hit)
next
  fix a s a' s'
  assume "sql_appendCacheProposalAudit a s = (Inr a', s')"
  then show "a' = a \<and> s' = s \<lparr> proposalAudit := js_set (auId a) a (proposalAudit s) \<rparr>"
    by (auto simp: sql_appendCacheProposalAudit_def js_simps js_set_new split: if_splits)
qed (auto simp: sql_createCacheProposal_def sql_expireCacheProposalsBefore_def sql_appendCacheProposalAudit_def
    Let_def split: if_splits)

section \<open>Any sequence of operations\<close>

record proposal_adapter =
  adCreate :: "int \<Rightarrow> CreateCacheProposalInput \<Rightarrow> StoredCacheProposal store_call"
  adUpdate :: "UpdateProposalStatusInput \<Rightarrow> StoredCacheProposal option store_call"
  adExpire :: "int \<Rightarrow> StoredCacheProposal list store_call"
  adAppend :: "StoredCacheProposalAudit \<Rightarrow> StoredCacheProposalAudit store_call"

definition mem_adapter :: proposal_adapter where
  "mem_adapter = \<lparr> adCreate = mem_createCacheProposal, adUpdate = mem_updateCacheProposalStatus,
     adExpire = mem_expireCacheProposalsBefore, adAppend = mem_appendCacheProposalAudit \<rparr>"

definition sql_adapter :: proposal_adapter where
  "sql_adapter = \<lparr> adCreate = sql_createCacheProposal, adUpdate = sql_updateCacheProposalStatus,
     adExpire = sql_expireCacheProposalsBefore, adAppend = sql_appendCacheProposalAudit \<rparr>"

definition repo_laws :: "proposal_adapter \<Rightarrow> bool" where
  "repo_laws ad \<longleftrightarrow> proposal_repo (adCreate ad) (adUpdate ad) (adExpire ad) (adAppend ad)"

lemma mem_adapter_laws: "repo_laws mem_adapter"
  unfolding repo_laws_def mem_adapter_def proposal_adapter.simps by (rule mem_proposals.proposal_repo_axioms)

lemma sql_adapter_laws: "repo_laws sql_adapter"
  unfolding repo_laws_def sql_adapter_def proposal_adapter.simps by (rule sql_proposals.proposal_repo_axioms)

datatype proposal_op =
  OpCreate int CreateCacheProposalInput | OpUpdate UpdateProposalStatusInput | OpExpire int
| OpAudit StoredCacheProposalAudit

fun run_op :: "proposal_adapter \<Rightarrow> proposal_op \<Rightarrow> proposal_store \<Rightarrow> proposal_store" where
  "run_op ad (OpCreate now ci) s = snd (adCreate ad now ci s)"
| "run_op ad (OpUpdate u) s = snd (adUpdate ad u s)"
| "run_op ad (OpExpire now) s = snd (adExpire ad now s)"
| "run_op ad (OpAudit a) s = snd (adAppend ad a s)"

text \<open>What the services keep to: fresh ids, no return to the pending state, audits of existing proposals.\<close>

fun op_ok :: "proposal_op \<Rightarrow> proposal_store \<Rightarrow> bool" where
  "op_ok (OpCreate now ci) s \<longleftrightarrow> \<not> js_has (proposals s) (ciId ci) \<and> table_check (new_row now ci)"
| "op_ok (OpUpdate u) s \<longleftrightarrow> uiStatus u \<noteq> Pending"
| "op_ok (OpExpire now) s \<longleftrightarrow> True"
| "op_ok (OpAudit a) s \<longleftrightarrow> js_has (proposals s) (auProposalId a) \<and> \<not> js_has (proposalAudit s) (auId a)"

fun run_ops :: "proposal_adapter \<Rightarrow> proposal_op list \<Rightarrow> proposal_store \<Rightarrow> proposal_store" where
  "run_ops ad [] s = s"
| "run_ops ad (op # ops) s = run_ops ad ops (run_op ad op s)"

fun ops_ok :: "proposal_adapter \<Rightarrow> proposal_op list \<Rightarrow> proposal_store \<Rightarrow> bool" where
  "ops_ok ad [] s \<longleftrightarrow> True"
| "ops_ok ad (op # ops) s \<longleftrightarrow> op_ok op s \<and> ops_ok ad ops (run_op ad op s)"

definition empty_store :: proposal_store where
  "empty_store = \<lparr> proposals = [], proposalAudit = [] \<rparr>"

lemma empty_store_ok [simp]: "store_ok empty_store"
  by (simp add: store_ok_def empty_store_def unique_pending_def)

lemma run_op_ok:
  assumes laws: "repo_laws ad" and ok: "store_ok s" and op: "op_ok op s"
  shows "store_ok (run_op ad op s)"
proof -
  note laws = laws [unfolded repo_laws_def]
  show ?thesis
  proof (cases op)
    case (OpCreate now ci)
    with op show ?thesis
      using proposal_repo.create_ok [OF laws ok, of now ci] by (cases "adCreate ad now ci s") simp
  next
    case (OpUpdate u)
    with op show ?thesis
      using proposal_repo.update_store_ok [OF laws ok, of u] by (cases "adUpdate ad u s") simp
  next
    case (OpExpire now)
    then show ?thesis
      using proposal_repo.expire_store_ok [OF laws ok, of now] by (cases "adExpire ad now s") simp
  next
    case (OpAudit a)
    then show ?thesis
      using proposal_repo.append_store_ok [OF laws ok, of a] by (cases "adAppend ad a s") simp
  qed
qed

lemma run_ops_ok: "repo_laws ad \<Longrightarrow> store_ok s \<Longrightarrow> ops_ok ad ops s \<Longrightarrow> store_ok (run_ops ad ops s)"
  by (induction ops arbitrary: s) (simp_all add: run_op_ok)

text \<open>
  C8: in either store, after any sequence of creations under fresh ids, status changes that leave the
  pending state, expiries and audits, two pending proposals of one connection and cache that would
  adjust the same threshold (category) or the same tool's TTL are the same proposal.
\<close>

theorem pending_proposals_unique:
  assumes "ad = mem_adapter \<or> ad = sql_adapter" and "ops_ok ad ops empty_store"
    and "getCacheProposal i (run_ops ad ops empty_store) = Some p" "cpStatus p = Pending"
    and "getCacheProposal j (run_ops ad ops empty_store) = Some q" "cpStatus q = Pending"
    and "cpConnectionId p = cpConnectionId q" "cpCacheName p = cpCacheName q"
    and "cpProposalType p = cpProposalType q" "cpProposalType p \<noteq> Invalidate"
    and "payload_category (cpPayload p) = payload_category (cpPayload q)"
    and "payload_tool_name (cpPayload p) = payload_tool_name (cpPayload q)"
  shows "i = j"
proof -
  have "store_ok (run_ops ad ops empty_store)"
    using assms(1,2) mem_adapter_laws sql_adapter_laws run_ops_ok empty_store_ok by blast
  then have unique: "unique_pending (proposals (run_ops ad ops empty_store))" by (simp add: store_ok_def)
  obtain d where "request_key p = Some (cpConnectionId p, cpCacheName p, cpProposalType p, d)"
    "request_key q = Some (cpConnectionId p, cpCacheName p, cpProposalType p, d)"
    using assms(4,6-12) unfolding request_key_def pendingProposalSubDiscriminator_def
    by (cases "cpProposalType p") simp_all
  with unique_pendingD [OF unique] assms(3,5) show ?thesis
    unfolding getCacheProposal_def by (blast dest: map_of_SomeD)
qed





definition demo_create :: "string \<Rightarrow> string option \<Rightarrow> CreateCacheProposalInput" where
  "demo_create pid category =
     \<lparr> ciId = pid, ciConnectionId = ''conn'', ciCacheName = ''faq'', ciCacheType = SemanticCache,
       ciProposalType = ThresholdAdjust, ciPayload = SemanticThresholdAdjustPayload category 1 2,
       ciReasoning = None, ciProposedBy = None, ciProposedAt = Some 5, ciExpiresAt = Some 50 \<rparr>"

definition demo_ops :: "proposal_op list" where
  "demo_ops = [OpCreate 0 (demo_create ''p1'' None), OpCreate 0 (demo_create ''p2'' None),
     OpCreate 0 (demo_create ''p3'' (Some ''news'')), OpUpdate (status_update ''p3'' [Pending] Rejected),
     OpCreate 0 (demo_create ''p4'' (Some ''news'')), OpExpire 20]"

lemma demo_ops_ok: "ops_ok mem_adapter demo_ops empty_store"
  by code_simp

lemma demo_ops_rows:
  "map (\<lambda>(k, p). (k, cpStatus p)) (proposals (run_ops mem_adapter demo_ops empty_store))
    = [(''p1'', Pending), (''p3'', Rejected), (''p4'', Pending)]"
  by code_simp

lemma pending_proposals_unique_witness:
  "getCacheProposal ''p1'' (run_ops mem_adapter demo_ops empty_store) = Some (new_row 0 (demo_create ''p1'' None))"
proof -
  have row: "getCacheProposal ''p1'' (run_ops mem_adapter demo_ops empty_store) = Some (new_row 0 (demo_create ''p1'' None))"
    by code_simp
  have "''p1'' = ''p1''"
    by (rule pending_proposals_unique [OF _ demo_ops_ok row _ row])
      (simp_all add: new_row_def demo_create_def Let_def)
  then show ?thesis using row by simp
qed


end
