(* ===== verification/Rate_Limiter.thy ===== *)
theory Rate_Limiter
  imports Prelude
begin

text \<open>
  The sliding window rate limiter of the proposal services,
  src/proprietary/cache-proposals/rate-limiter.ts: per key the time stamps of the reservations of
  the last window, each with the token under which it can be given back. The clock is an argument
  of every call; \<open>reserve\<close> reads it twice, once in \<open>check\<close> and once in \<open>record\<close>.

  Shown: whatever the order of reservations and refunds, no window of the configured length holds
  more unreleased reservations of a key than the limit; and a refusal names the first moment at
  which the next reservation is granted.
\<close>

section \<open>The limiter\<close>

record BucketEntry =
  beTs :: int
  beToken :: int

record rate_limiter =
  rlLimit :: nat
  rlWindowMs :: int
  buckets :: "(string, BucketEntry list) jsmap"
  nextToken :: int

record RateLimiterReservation =
  allowed :: bool
  retryAfterMs :: int
  remaining :: nat
  releaseToken :: "int option"

definition new_limiter :: "nat \<Rightarrow> int \<Rightarrow> rate_limiter" where
  "new_limiter limit windowMs = \<lparr> rlLimit = limit, rlWindowMs = windowMs, buckets = [], nextToken = 1 \<rparr>"

definition prune :: "string \<Rightarrow> int \<Rightarrow> rate_limiter \<Rightarrow> BucketEntry list \<times> rate_limiter" where
  "prune key cutoff rl =
     (let existing = js_get_or [] (buckets rl) key;
          pruned = dropWhile (\<lambda>e. beTs e \<le> cutoff) existing
      in if length pruned = length existing then (existing, rl)
         else (pruned, rl \<lparr> buckets := js_set key pruned (buckets rl) \<rparr>))"

text \<open>With a limit of 0 the refusal reads the first entry of an empty array, which raises: \<open>None\<close>.\<close>

definition check :: "int \<Rightarrow> string \<Rightarrow> rate_limiter \<Rightarrow> (RateLimiterReservation \<times> rate_limiter) option" where
  "check ts key rl =
     (let (events, rl') = prune key (ts - rlWindowMs rl) rl
      in if length events \<ge> rlLimit rl
         then case events of
             [] \<Rightarrow> None
           | oldest # _ \<Rightarrow>
               Some (\<lparr> allowed = False, retryAfterMs = max 0 (beTs oldest + rlWindowMs rl - ts), remaining = 0,
                       releaseToken = None \<rparr>, rl')
         else Some (\<lparr> allowed = True, retryAfterMs = 0, remaining = rlLimit rl - length events,
                      releaseToken = None \<rparr>, rl'))"

definition rl_record :: "int \<Rightarrow> string \<Rightarrow> rate_limiter \<Rightarrow> int \<times> rate_limiter" where
  "rl_record ts key rl =
     (let (events, rl') = prune key (ts - rlWindowMs rl) rl; token = nextToken rl'
      in (token, rl' \<lparr> nextToken := token + 1,
                       buckets := js_set key (events @ [\<lparr> beTs = ts, beToken = token \<rparr>]) (buckets rl') \<rparr>))"

definition reserve ::
  "int \<Rightarrow> int \<Rightarrow> string \<Rightarrow> rate_limiter \<Rightarrow> (RateLimiterReservation \<times> rate_limiter) option" where
  "reserve ts ts' key rl =
     (case check ts key rl of
        None \<Rightarrow> None
      | Some (result, rl') \<Rightarrow>
          if \<not> allowed result then Some (result, rl')
          else let (token, rl'') = rl_record ts' key rl'
               in Some (result \<lparr> remaining := remaining result - 1, releaseToken := Some token \<rparr>, rl''))"

definition release :: "string \<Rightarrow> int \<Rightarrow> rate_limiter \<Rightarrow> rate_limiter" where
  "release key token rl =
     (case js_get (buckets rl) key of
        None \<Rightarrow> rl
      | Some events \<Rightarrow>
          if list_all (\<lambda>e. beToken e \<noteq> token) events then rl
          else let events' = takeWhile (\<lambda>e. beToken e \<noteq> token) events
                              @ tl (dropWhile (\<lambda>e. beToken e \<noteq> token) events)
               in rl \<lparr> buckets := (if events' = [] then js_delete key (buckets rl)
                                    else js_set key events' (buckets rl)) \<rparr>)"

definition reset :: "string option \<Rightarrow> rate_limiter \<Rightarrow> rate_limiter" where
  "reset key rl = (case key of None \<Rightarrow> rl \<lparr> buckets := [] \<rparr>
                   | Some k \<Rightarrow> rl \<lparr> buckets := js_delete k (buckets rl) \<rparr>)"

section \<open>Buckets\<close>

abbreviation bucket :: "rate_limiter \<Rightarrow> string \<Rightarrow> BucketEntry list" where
  "bucket rl key \<equiv> js_get_or [] (buckets rl) key"

definition fresh :: "int \<Rightarrow> BucketEntry list \<Rightarrow> BucketEntry list" where
  "fresh cutoff events = dropWhile (\<lambda>e. beTs e \<le> cutoff) events"

lemma js_get_or_set [js_simps]: "js_get_or d (js_set k v m) k' = (if k' = k then v else js_get_or d m k')"
  by (simp add: js_get_or_def js_simps)

lemma js_get_or_delete [js_simps]: "js_get_or d (js_delete k m) k' = (if k' = k then d else js_get_or d m k')"
  by (simp add: js_get_or_def js_simps)

lemma fresh_split: "es = takeWhile (\<lambda>e. beTs e \<le> cutoff) es @ fresh cutoff es"
  by (simp add: fresh_def)

lemma fresh_same: "length (fresh cutoff es) = length es \<Longrightarrow> fresh cutoff es = es"
  using fresh_split [of es cutoff] by (metis append_eq_append_conv append_Nil)

lemma prune_spec:
  assumes "prune key cutoff rl = (events, rl')"
  shows "events = fresh cutoff (bucket rl key)"
    and "bucket rl' k = (if k = key then events else bucket rl k)"
    and "rlLimit rl' = rlLimit rl" and "rlWindowMs rl' = rlWindowMs rl" and "nextToken rl' = nextToken rl"
  using assms fresh_same [of cutoff "bucket rl key"]
  by (auto simp: prune_def fresh_def [symmetric] Let_def js_simps split: if_splits)

text \<open>What a reservation does to the buckets, granted and refused.\<close>

lemma check_spec:
  assumes "check ts key rl = Some (r, rl')"
  shows "allowed r \<longleftrightarrow> length (fresh (ts - rlWindowMs rl) (bucket rl key)) < rlLimit rl"
    and "bucket rl' k = (if k = key then fresh (ts - rlWindowMs rl) (bucket rl key) else bucket rl k)"
    and "rlLimit rl' = rlLimit rl" and "rlWindowMs rl' = rlWindowMs rl" and "nextToken rl' = nextToken rl"
proof -
  obtain events rl1 where p: "prune key (ts - rlWindowMs rl) rl = (events, rl1)" by (cases "prune key (ts - rlWindowMs rl) rl")
  from assms have "rl' = rl1" "allowed r \<longleftrightarrow> length events < rlLimit rl"
    by (auto simp: check_def p Let_def split: if_splits list.splits)
  with prune_spec [OF p] show "allowed r \<longleftrightarrow> length (fresh (ts - rlWindowMs rl) (bucket rl key)) < rlLimit rl"
    "bucket rl' k = (if k = key then fresh (ts - rlWindowMs rl) (bucket rl key) else bucket rl k)"
    "rlLimit rl' = rlLimit rl" "rlWindowMs rl' = rlWindowMs rl" "nextToken rl' = nextToken rl" by simp_all
qed

lemma record_spec:
  assumes "rl_record ts key rl = (token, rl')"
  shows "token = nextToken rl" and "nextToken rl' = nextToken rl + 1"
    and "bucket rl' k = (if k = key
           then fresh (ts - rlWindowMs rl) (bucket rl key) @ [\<lparr> beTs = ts, beToken = nextToken rl \<rparr>] else bucket rl k)"
    and "rlLimit rl' = rlLimit rl" and "rlWindowMs rl' = rlWindowMs rl"
proof -
  obtain events rl1 where p: "prune key (ts - rlWindowMs rl) rl = (events, rl1)" by (cases "prune key (ts - rlWindowMs rl) rl")
  from assms prune_spec [OF p] show "token = nextToken rl" "nextToken rl' = nextToken rl + 1"
    "bucket rl' k = (if k = key
       then fresh (ts - rlWindowMs rl) (bucket rl key) @ [\<lparr> beTs = ts, beToken = nextToken rl \<rparr>] else bucket rl k)"
    "rlLimit rl' = rlLimit rl" "rlWindowMs rl' = rlWindowMs rl"
    by (auto simp: rl_record_def p Let_def js_simps)
qed

lemma release_keeps [simp]:
  "rlLimit (release key token rl) = rlLimit rl" "rlWindowMs (release key token rl) = rlWindowMs rl"
  "nextToken (release key token rl) = nextToken rl"
  by (simp_all add: release_def Let_def split: option.splits)

lemma cut_first: "distinct (map beToken es) \<Longrightarrow>
  takeWhile (\<lambda>e. beToken e \<noteq> t) es @ tl (dropWhile (\<lambda>e. beToken e \<noteq> t) es) = filter (\<lambda>e. beToken e \<noteq> t) es"
proof (induction es)
  case (Cons e es)
  show ?case
  proof (cases "beToken e = t")
    case True
    with Cons.prems have "\<forall>x \<in> set es. beToken x \<noteq> t" by (force simp: image_iff)
    with True show ?thesis by simp
  next
    case False
    with Cons show ?thesis by simp
  qed
qed simp

lemma release_spec:
  assumes "distinct (map beToken (bucket rl key))"
  shows "bucket (release key token rl) k
    = (if k = key then filter (\<lambda>e. beToken e \<noteq> token) (bucket rl key) else bucket rl k)"
proof (cases "js_get (buckets rl) key")
  case None
  then show ?thesis by (simp add: release_def js_get_or_def)
next
  case (Some es)
  then have b: "bucket rl key = es" by (simp add: js_get_or_def)
  show ?thesis
  proof (cases "list_all (\<lambda>e. beToken e \<noteq> token) es")
    case True
    then have "filter (\<lambda>e. beToken e \<noteq> token) es = es" by (simp add: list_all_iff)
    with True Some b show ?thesis by (simp add: release_def)
  next
    case False
    with Some b cut_first [OF assms, of token, unfolded b] show ?thesis
      by (simp add: release_def Let_def js_simps)
  qed
qed

section \<open>No window holds more than the limit\<close>

text \<open>The calls of a client, and the grants that were not given back, in order.\<close>

datatype rl_event = Reserve string int int | Release string int

fun rl_step :: "rl_event \<Rightarrow> rate_limiter \<times> (string \<times> BucketEntry) list \<Rightarrow> rate_limiter \<times> (string \<times> BucketEntry) list" where
  "rl_step (Reserve key ts ts') (rl, grants) =
     (case reserve ts ts' key rl of
        None \<Rightarrow> (rl, grants)
      | Some (r, rl') \<Rightarrow>
          (rl', case releaseToken r of None \<Rightarrow> grants
                | Some token \<Rightarrow> grants @ [(key, \<lparr> beTs = ts', beToken = token \<rparr>)]))"
| "rl_step (Release key token) (rl, grants) =
     (release key token rl, filter (\<lambda>(k, e). \<not> (k = key \<and> beToken e = token)) grants)"

definition rl_run :: "rl_event list \<Rightarrow> rate_limiter \<Rightarrow> rate_limiter \<times> (string \<times> BucketEntry) list" where
  "rl_run evs rl = fold rl_step evs (rl, [])"

fun event_clock :: "rl_event \<Rightarrow> int list" where
  "event_clock (Reserve key ts ts') = [ts, ts']"
| "event_clock (Release key token) = []"

definition clocks :: "rl_event list \<Rightarrow> int list" where
  "clocks evs = concat (map event_clock evs)"

definition granted :: "string \<Rightarrow> (string \<times> BucketEntry) list \<Rightarrow> BucketEntry list" where
  "granted key grants = map snd (filter (\<lambda>(k, e). k = key) grants)"

definition in_window :: "int \<Rightarrow> int \<Rightarrow> BucketEntry list \<Rightarrow> nat" where
  "in_window w t es = length (filter (\<lambda>e. t - w < beTs e \<and> beTs e \<le> t) es)"

text \<open>A bucket holds the newest of the unreleased grants; what it lacks is older than a window.\<close>

definition key_ok :: "nat \<Rightarrow> int \<Rightarrow> int \<Rightarrow> int \<Rightarrow> BucketEntry list \<Rightarrow> BucketEntry list \<Rightarrow> bool" where
  "key_ok limit w now next es b \<longleftrightarrow>
     (\<exists>old. es = old @ b \<and> (\<forall>e \<in> set old. beTs e \<le> now - w))
     \<and> sorted (map beTs es) \<and> (\<forall>e \<in> set es. beTs e \<le> now \<and> beToken e < next)
     \<and> distinct (map beToken es) \<and> length b \<le> limit \<and> (\<forall>t. in_window w t es \<le> limit)"

lemma key_okD:
  assumes "key_ok limit w now next es b"
  obtains old where "es = old @ b" "\<forall>e \<in> set old. beTs e \<le> now - w" "sorted (map beTs es)"
    "\<forall>e \<in> set es. beTs e \<le> now \<and> beToken e < next" "distinct (map beToken es)" "length b \<le> limit"
    "\<forall>t. in_window w t es \<le> limit"
  using assms unfolding key_ok_def by blast

lemma key_ok_mono:
  assumes ok: "key_ok limit w now next es b" and "now \<le> now'" "next \<le> next'"
  shows "key_ok limit w now' next' es b"
  using ok
proof (rule key_okD)
  fix old
  assume *: "es = old @ b" "\<forall>e \<in> set old. beTs e \<le> now - w" "sorted (map beTs es)"
    "\<forall>e \<in> set es. beTs e \<le> now \<and> beToken e < next" "distinct (map beToken es)" "length b \<le> limit"
    "\<forall>t. in_window w t es \<le> limit"
  have "\<forall>e \<in> set old. beTs e \<le> now' - w" using *(2) assms(2) by force
  moreover have "\<forall>e \<in> set es. beTs e \<le> now' \<and> beToken e < next'" using *(4) assms(2,3) by force
  ultimately show ?thesis using * unfolding key_ok_def by blast
qed

lemma key_ok_fresh:
  assumes ok: "key_ok limit w now next es b" and now: "now \<le> ts"
  shows "key_ok limit w ts next es (fresh (ts - w) b)"
  using key_ok_mono [OF ok now order_refl]
proof (rule key_okD)
  fix old
  assume *: "es = old @ b" "\<forall>e \<in> set old. beTs e \<le> ts - w" "sorted (map beTs es)"
    "\<forall>e \<in> set es. beTs e \<le> ts \<and> beToken e < next" "distinct (map beToken es)" "length b \<le> limit"
    "\<forall>t. in_window w t es \<le> limit"
  define cut where "cut = takeWhile (\<lambda>e. beTs e \<le> ts - w) b"
  have b: "b = cut @ fresh (ts - w) b" unfolding cut_def by (rule fresh_split)
  have "\<forall>e \<in> set cut. beTs e \<le> ts - w" unfolding cut_def by (auto dest: set_takeWhileD)
  with *(2) have "\<forall>e \<in> set (old @ cut). beTs e \<le> ts - w" by auto
  moreover have "es = (old @ cut) @ fresh (ts - w) b" using *(1) b by simp
  moreover have "length (fresh (ts - w) b) \<le> limit"
    using *(6) arg_cong [OF b, of length] by simp
  ultimately show ?thesis using *(3-5,7) unfolding key_ok_def by blast
qed

lemma key_ok_push:
  assumes ok: "key_ok limit w now next es b" and room: "length b < limit" and now: "now \<le> ts"
  shows "key_ok limit w ts (next + 1) (es @ [\<lparr> beTs = ts, beToken = next \<rparr>]) (b @ [\<lparr> beTs = ts, beToken = next \<rparr>])"
  using key_ok_mono [OF ok now order_refl]
proof (rule key_okD)
  fix old
  let ?e = "\<lparr> beTs = ts, beToken = next \<rparr>"
  assume *: "es = old @ b" "\<forall>e \<in> set old. beTs e \<le> ts - w" "sorted (map beTs es)"
    "\<forall>e \<in> set es. beTs e \<le> ts \<and> beToken e < next" "distinct (map beToken es)" "length b \<le> limit"
    "\<forall>t. in_window w t es \<le> limit"
  have "in_window w t (es @ [?e]) \<le> limit" for t
  proof (cases "ts \<le> t")
    case True
    then have "filter (\<lambda>e. t - w < beTs e \<and> beTs e \<le> t) old = []" using *(2) by (force simp: filter_empty_conv)
    then have "in_window w t es \<le> length b" using *(1) by (simp add: in_window_def)
    with room show ?thesis by (simp add: in_window_def)
  next
    case False
    with *(7) show ?thesis by (simp add: in_window_def)
  qed
  moreover have "\<forall>e \<in> set (es @ [?e]). beTs e \<le> ts \<and> beToken e < next + 1" using *(4) by force
  moreover have "distinct (map beToken (es @ [?e]))" using *(4,5) by force
  moreover have "sorted (map beTs (es @ [?e]))" using *(3,4) by (force simp: sorted_append)
  moreover have "es @ [?e] = old @ (b @ [?e])" "length (b @ [?e]) \<le> limit" using *(1) room by simp_all
  ultimately show ?thesis using *(2) unfolding key_ok_def by blast
qed

lemma key_ok_drop:
  assumes "key_ok limit w now next es b"
  shows "key_ok limit w now next (filter P es) (filter P b)"
  using assms
proof (rule key_okD)
  fix old
  assume *: "es = old @ b" "\<forall>e \<in> set old. beTs e \<le> now - w" "sorted (map beTs es)"
    "\<forall>e \<in> set es. beTs e \<le> now \<and> beToken e < next" "distinct (map beToken es)" "length b \<le> limit"
    "\<forall>t. in_window w t es \<le> limit"
  have "in_window w t (filter P es) \<le> in_window w t es" for t
    unfolding in_window_def by (induction es) auto
  then have "\<forall>t. in_window w t (filter P es) \<le> limit" using *(7) order_trans by blast
  moreover have "length (filter P b) \<le> limit" using *(6) length_filter_le order_trans by blast
  moreover have "filter P es = filter P old @ filter P b \<and> (\<forall>e \<in> set (filter P old). beTs e \<le> now - w)"
    using *(1,2) by simp
  moreover have "sorted (map beTs (filter P es))" using *(3) by (rule sorted_filter)
  moreover have "distinct (map beToken (filter P es))" using *(5) by (rule distinct_map_filter)
  moreover have "\<forall>e \<in> set (filter P es). beTs e \<le> now \<and> beToken e < next" using *(4) by simp
  ultimately show ?thesis unfolding key_ok_def by blast
qed

definition run_ok :: "nat \<Rightarrow> int \<Rightarrow> int \<Rightarrow> rate_limiter \<times> (string \<times> BucketEntry) list \<Rightarrow> bool" where
  "run_ok limit w now s \<longleftrightarrow> rlLimit (fst s) = limit \<and> rlWindowMs (fst s) = w
     \<and> (\<forall>k. key_ok limit w now (nextToken (fst s)) (granted k (snd s)) (bucket (fst s) k))"

lemma run_ok_key:
  "run_ok limit w now (rl, g) \<Longrightarrow> key_ok limit w now (nextToken rl) (granted k g) (bucket rl k)"
  by (simp only: run_ok_def fst_conv snd_conv)

lemma granted_snoc [simp]: "granted k (g @ [(k', e)]) = granted k g @ (if k = k' then [e] else [])"
  by (simp add: granted_def)

lemma granted_drop [simp]:
  "granted k (filter (\<lambda>(k', e). k' = key \<longrightarrow> beToken e \<noteq> t) g)
    = (if k = key then filter (\<lambda>e. beToken e \<noteq> t) (granted k g) else granted k g)"
proof (induction g)
  case (Cons p g)
  obtain k' e where p: "p = (k', e)" by (cases p)
  show ?case
    using Cons unfolding p granted_def by (cases "k' = k"; cases "k = key"; cases "beToken e = t") simp_all
qed (simp add: granted_def)

lemma reserve_cases:
  assumes "reserve ts ts' key rl = Some (r, rl')"
  obtains (refused) "\<not> allowed r" "check ts key rl = Some (r, rl')" "releaseToken r = None"
    | (granted) r1 rl1 where "check ts key rl = Some (r1, rl1)" "allowed r1" "allowed r"
        "releaseToken r = Some (nextToken rl)" "rl_record ts' key rl1 = (nextToken rl, rl')"
proof (cases "check ts key rl")
  case None
  with assms show ?thesis by (simp add: reserve_def)
next
  case (Some p)
  obtain r1 rl1 where p: "p = (r1, rl1)" by (cases p)
  obtain token rl2 where rec: "rl_record ts' key rl1 = (token, rl2)" by (cases "rl_record ts' key rl1")
  have token: "token = nextToken rl" using record_spec(1) [OF rec] check_spec(5) [OF Some [unfolded p]] by simp
  show ?thesis
  proof (cases "allowed r1")
    case True
    with assms Some p rec have "r = r1 \<lparr> remaining := remaining r1 - 1, releaseToken := Some token \<rparr>" "rl2 = rl'"
      by (simp_all add: reserve_def)
    with True Some p rec token granted show ?thesis by simp
  next
    case False
    with assms Some p have r: "r = r1" "rl' = rl1" by (simp_all add: reserve_def)
    have "releaseToken r1 = None"
      using Some p by (auto simp: check_def Let_def split: prod.splits if_splits list.splits)
    with False Some p r refused show ?thesis by simp
  qed
qed

lemma run_ok_reserve:
  assumes ok: "run_ok limit w now (rl, g)" and time: "now \<le> ts" "ts \<le> ts'"
  shows "run_ok limit w ts' (rl_step (Reserve key ts ts') (rl, g))"
proof (cases "reserve ts ts' key rl")
  case None
  have "\<forall>k. key_ok limit w ts' (nextToken rl) (granted k g) (bucket rl k)"
    using ok time key_ok_mono [OF _ order_trans [OF time] order_refl] by (simp add: run_ok_def)
  with None ok show ?thesis by (simp add: run_ok_def)
next
  case (Some p)
  obtain r rl' where p: "p = (r, rl')" by (cases p)
  note res = Some [unfolded p]
  have lim: "rlLimit rl = limit" "rlWindowMs rl = w"
    and keys: "key_ok limit w now (nextToken rl) (granted k g) (bucket rl k)" for k
    using ok by (simp_all add: run_ok_def)
  have pruned: "key_ok limit w ts' (nextToken rl) (granted k g)
      (if k = key then fresh (ts - w) (bucket rl key) else bucket rl k)" for k
    using key_ok_mono [OF keys order_trans [OF time] order_refl, of k]
      key_ok_mono [OF key_ok_fresh [OF keys time(1)] time(2) order_refl, of k] by (cases "k = key") auto
  show ?thesis
    using res
  proof (cases rule: reserve_cases)
    case refused
    note c = check_spec [OF refused(2), unfolded lim]
    have "\<forall>k. key_ok limit w ts' (nextToken rl') (granted k g) (bucket rl' k)"
      using pruned unfolding c(2,5) by blast
    with c(3,4) res refused(3) show ?thesis by (simp add: run_ok_def)
  next
    case (granted r1 rl1)
    note c = check_spec [OF granted(1), unfolded lim] and rec = record_spec [OF granted(5)]
    let ?e = "\<lparr> beTs = ts', beToken = nextToken rl \<rparr>" and ?b = "fresh (ts' - w) (fresh (ts - w) (bucket rl key))"
    have room: "length (fresh (ts - w) (bucket rl key)) < limit" using granted(2) c(1) by simp
    have "length ?b \<le> length (fresh (ts - w) (bucket rl key))"
      unfolding fresh_def by (rule length_dropWhile_le)
    with room have small: "length ?b < limit" by simp
    have "key_ok limit w ts (nextToken rl) (granted key g) (fresh (ts - w) (bucket rl key))"
      by (rule key_ok_fresh [OF keys time(1)])
    from key_ok_push [OF key_ok_fresh [OF this time(2)] small order_refl]
    have new: "key_ok limit w ts' (nextToken rl + 1) (granted key g @ [?e]) (?b @ [?e])" .
    have old: "key_ok limit w ts' (nextToken rl + 1) (granted k g) (bucket rl k)" for k
      using key_ok_mono [OF keys order_trans [OF time]] by simp
    have "key_ok limit w ts' (nextToken rl') (granted k (g @ [(key, ?e)])) (bucket rl' k)" for k
      using new old [of k] unfolding rec(2,3) c by (cases "k = key") simp_all
    with rec(4,5) c(3,4) res granted(4) show ?thesis by (simp add: run_ok_def)
  qed
qed

lemma run_ok_step:
  assumes ok: "run_ok limit w now s" and time: "sorted (now # event_clock ev)"
  shows "run_ok limit w (last (now # event_clock ev)) (rl_step ev s)"
proof (cases ev)
  case (Reserve key ts ts')
  with ok time run_ok_reserve [of limit w now "fst s" "snd s" ts ts' key] show ?thesis by simp
next
  case (Release key token)
  obtain rl g where s: "s = (rl, g)" by (cases s)
  have keys: "key_ok limit w now (nextToken rl) (granted k g) (bucket rl k)" for k using ok s by (simp add: run_ok_def)
  have "distinct (map beToken (bucket rl key))" using keys [of key] by (rule key_okD) simp
  note b = release_spec [OF this, of token]
  have "key_ok limit w now (nextToken rl) (filter (\<lambda>e. beToken e \<noteq> token) (granted key g))
      (filter (\<lambda>e. beToken e \<noteq> token) (bucket rl key))" by (rule key_ok_drop [OF keys])
  with keys b Release s ok show ?thesis by (simp add: run_ok_def)
qed

lemma run_ok_fold:
  "run_ok limit w now s \<Longrightarrow> sorted (now # clocks evs) \<Longrightarrow>
     run_ok limit w (last (now # clocks evs)) (fold rl_step evs s)"
proof (induction evs arbitrary: now s)
  case (Cons ev evs)
  have time: "sorted (now # event_clock ev)" using Cons.prems(2) by (auto simp: clocks_def sorted_append)
  have later: "sorted (last (now # event_clock ev) # clocks evs)"
    using Cons.prems(2) by (cases ev) (auto simp: clocks_def)
  have "last (last (now # event_clock ev) # clocks evs) = last (now # clocks (ev # evs))"
    by (cases ev; cases "clocks evs") (auto simp: clocks_def)
  with Cons.IH [OF run_ok_step [OF Cons.prems(1) time] later] show ?case by simp
qed (simp add: clocks_def)

lemma run_ok_run:
  assumes "sorted (clocks evs)" and le: "\<forall>c \<in> set (clocks evs). start \<le> c"
  shows "run_ok limit w (last (start # clocks evs)) (rl_run evs (new_limiter limit w))"
  unfolding rl_run_def
  by (rule run_ok_fold)
    (use assms in \<open>simp_all add: run_ok_def new_limiter_def granted_def js_get_or_def key_ok_def in_window_def\<close>)

lemma run_ok_any:
  assumes "sorted (clocks evs @ rest)"
  shows "\<exists>now. run_ok limit w now (rl_run evs (new_limiter limit w)) \<and> (\<forall>c \<in> set rest. now \<le> c)"
proof -
  define start where "start = (if clocks evs @ rest = [] then 0 else hd (clocks evs @ rest))"
  have hd: "\<forall>c \<in> set (clocks evs @ rest). start \<le> c"
    using assms unfolding start_def by (cases "clocks evs @ rest") auto
  then have "run_ok limit w (last (start # clocks evs)) (rl_run evs (new_limiter limit w))"
    using assms by (intro run_ok_run) (simp_all add: sorted_append)
  moreover have "\<forall>c \<in> set rest. last (start # clocks evs) \<le> c"
    using assms hd by (cases "clocks evs = []") (auto simp: sorted_append)
  ultimately show ?thesis by blast
qed

text \<open>
  C9: over any sequence of reservations and refunds with a clock that does not go back, every
  window of the configured length holds at most \<open>limit\<close> reservations of a key that were granted
  and not given back.
\<close>

theorem rate_limit_respected:
  assumes "sorted (clocks evs)"
    and "rl_run evs (new_limiter limit w) = (rl, grants)"
  shows "in_window w t (granted key grants) \<le> limit"
proof -
  obtain now where "run_ok limit w now (rl, grants)"
    using run_ok_any [of evs "[]" limit w] assms by auto
  then have "key_ok limit w now (nextToken rl) (granted key grants) (bucket rl key)" by (simp add: run_ok_def)
  then show ?thesis by (rule key_okD) simp
qed

definition demo_events :: "rl_event list" where
  "demo_events = [Reserve ''a'' 0 0, Reserve ''a'' 1 2, Reserve ''a'' 5 5, Release ''a'' 1, Reserve ''a'' 6 6,
     Reserve ''a'' 12 12]"

lemma demo_run: "rl_run demo_events (new_limiter 2 10) =
  (\<lparr> rlLimit = 2, rlWindowMs = 10, buckets = [(''a'', [\<lparr> beTs = 6, beToken = 3 \<rparr>, \<lparr> beTs = 12, beToken = 4 \<rparr>])],
     nextToken = 5 \<rparr>,
   [(''a'', \<lparr> beTs = 2, beToken = 2 \<rparr>), (''a'', \<lparr> beTs = 6, beToken = 3 \<rparr>), (''a'', \<lparr> beTs = 12, beToken = 4 \<rparr>)])"
  by code_simp

lemma rate_limit_respected_witness:
  "in_window 10 11 (granted ''a'' (snd (rl_run demo_events (new_limiter 2 10)))) \<le> 2"
proof -
  have "sorted (clocks demo_events)" by code_simp
  from rate_limit_respected [OF this demo_run] show ?thesis by (simp add: demo_run)
qed

section \<open>A refusal names the moment of the next grant\<close>

lemma fresh_hd:
  assumes "b \<noteq> []"
  shows "length (fresh cutoff b) < length b \<longleftrightarrow> beTs (hd b) \<le> cutoff"
  using assms by (cases b) (auto simp: fresh_def le_imp_less_Suc length_dropWhile_le)

lemma refusal_spec:
  assumes c: "check ts key rl = Some (r, rl')" and no: "\<not> allowed r"
  shows "\<exists>oldest rest. fresh (ts - rlWindowMs rl) (bucket rl key) = oldest # rest
     \<and> retryAfterMs r = max 0 (beTs oldest + rlWindowMs rl - ts)"
proof -
  obtain events rl1 where p: "prune key (ts - rlWindowMs rl) rl = (events, rl1)"
    by (cases "prune key (ts - rlWindowMs rl) rl")
  from c no show ?thesis
    using prune_spec(1) [OF p] by (auto simp: check_def p split: if_splits list.splits)
qed

text \<open>
  C16: with a limit above zero and a clock that does not go back, a reservation of the key that
  follows a refusal, with no release or other reservation in between, is granted exactly from the
  moment the refusal named: not earlier, and not later. (A slot given back in between may let it in
  earlier.)
\<close>

theorem refusal_names_next_grant:
  assumes time: "sorted (clocks evs @ [ts, t, t'])" and limit: "limit > 0"
    and run: "rl_run evs (new_limiter limit w) = (rl, grants)"
    and refused: "reserve ts ts0 key rl = Some (r, rl')" "\<not> allowed r"
  shows "\<exists>r2 rl2. reserve t t' key rl' = Some (r2, rl2) \<and> (allowed r2 \<longleftrightarrow> t \<ge> ts + retryAfterMs r)"
proof -
  obtain now where ok: "run_ok limit w now (rl, grants)" and now: "now \<le> ts"
    using run_ok_any [OF time, of limit w] run by auto
  have lim: "rlLimit rl = limit" "rlWindowMs rl = w"
    and key: "key_ok limit w now (nextToken rl) (granted key grants) (bucket rl key)"
    using ok by (simp_all add: run_ok_def)
  have c: "check ts key rl = Some (r, rl')" using refused by (auto elim: reserve_cases)
  note cs = check_spec [OF c, unfolded lim]
  define b where "b = fresh (ts - w) (bucket rl key)"
  obtain oldest rest where b: "b = oldest # rest" and retry: "retryAfterMs r = max 0 (beTs oldest + w - ts)"
    using refusal_spec [OF c refused(2)] unfolding b_def lim by blast
  have "length b \<le> limit"
    using key_ok_fresh [OF key now] unfolding b_def by (rule key_okD) simp
  with cs(1) refused(2) have full: "length b = limit" by (simp add: b_def)
  have "beTs oldest > ts - w"
    using hd_dropWhile [of "\<lambda>e. beTs e \<le> ts - w" "bucket rl key"] b unfolding b_def fresh_def by simp
  then have due: "beTs oldest \<le> t - w \<longleftrightarrow> t \<ge> ts + retryAfterMs r" using retry by linarith
  have bucket: "bucket rl' key = b" and lim': "rlLimit rl' = limit" "rlWindowMs rl' = w"
    using cs by (simp_all add: b_def)
  have room: "length (fresh (t - w) b) < limit \<longleftrightarrow> t \<ge> ts + retryAfterMs r"
    using fresh_hd [of b "t - w"] b full due by simp
  have "check t key rl' \<noteq> None"
    using prune_spec(1) [of key "t - w" rl'] bucket lim' limit fresh_hd [of b "t - w"] b full
    by (auto simp: check_def Let_def split: prod.splits list.splits)
  then obtain r1 rl1 where c1: "check t key rl' = Some (r1, rl1)" by auto
  have a1: "allowed r1 \<longleftrightarrow> t \<ge> ts + retryAfterMs r" using check_spec(1) [OF c1] room bucket lim' by simp
  obtain token rl2 where rec: "rl_record t' key rl1 = (token, rl2)" by (cases "rl_record t' key rl1")
  have "\<exists>r2 rl2. reserve t t' key rl' = Some (r2, rl2) \<and> allowed r2 = allowed r1"
    using c1 rec by (simp add: reserve_def)
  with a1 show ?thesis by simp
qed

lemma refusal_names_next_grant_witness:
  "\<exists>r2 rl2. reserve 17 17 ''a'' (fst (rl_run demo_events (new_limiter 2 10))) = Some (r2, rl2) \<and> allowed r2"
proof -
  let ?rl = "fst (rl_run demo_events (new_limiter 2 10))"
  let ?r = "\<lparr> allowed = False, retryAfterMs = 3, remaining = 0, releaseToken = None \<rparr>"
  have time: "sorted (clocks demo_events @ [13, 17, 17])" by code_simp
  have run: "rl_run demo_events (new_limiter 2 10) = (?rl, snd (rl_run demo_events (new_limiter 2 10)))" by simp
  have refused: "reserve 13 13 ''a'' ?rl = Some (?r, ?rl)" unfolding demo_run by code_simp
  from refusal_names_next_grant [OF time _ run refused] show ?thesis by simp
qed

end
