(* ===== verification/Proposal_Review.thy ===== *)
theory Proposal_Review
  imports Proposal_Store Rate_Limiter
begin

text \<open>
  The life of a cache proposal: proposing under the rate limit, approval, rejection, approval with
  edits, expiry, and the application of an approved proposal,
  src/proprietary/cache-proposals/cache-proposal.service.ts and cache-apply.service.ts. A handler is
  a function of the store and of the servers; the dispatcher, which talks to the servers and may not
  return, is an argument. The code between two awaits that more than one handler shares, or that
  Proposal_Machine runs as one step, has a definition of its own.
\<close>

section \<open>The environment of a call\<close>

text \<open>The reads of the clock and the random ids a call makes, in the order of the code.\<close>

record review_env =
  nowChecked :: int
  nowReviewed :: int
  nowApplied :: int
  nowAudited :: int
  reviewAuditId :: string
  applyAuditId :: string
  expireAuditId :: "string \<Rightarrow> string"

record reviewer =
  rvActor :: "string option"
  rvSource :: ActorSource

record ApplyOutcome =
  aoActualAffected :: "int option"
  aoDurationMs :: int
  aoDetails :: "(string, field_value) jsmap"

text \<open>What \<open>dispatch\<close> throws: an \<open>ApplyFailedError\<close> with its details, or any other error.\<close>

datatype dispatch_error = ApplyFailure string "(string, field_value) jsmap" | OtherFailure string

type_synonym 'w dispatcher = "StoredCacheProposal \<Rightarrow> 'w \<Rightarrow> ((dispatch_error + ApplyOutcome) \<times> 'w) option"

section \<open>Proposing\<close>

definition REASONING_MIN_LENGTH :: nat where "REASONING_MIN_LENGTH = 20"
definition PROPOSAL_RATE_LIMIT :: nat where "PROPOSAL_RATE_LIMIT = 30"
definition PROPOSAL_RATE_WINDOW_MS :: int where "PROPOSAL_RATE_WINDOW_MS = 3600000"
definition ESTIMATED_AFFECTED_WARN_THRESHOLD :: real where "ESTIMATED_AFFECTED_WARN_THRESHOLD = 10000"

definition requireReasoning :: "string \<Rightarrow> bool" where
  "requireReasoning reasoning \<longleftrightarrow> length (js_trim reasoning) \<ge> REASONING_MIN_LENGTH"

definition findFirstPendingMatch ::
  "string \<Rightarrow> string \<Rightarrow> ProposalType \<Rightarrow> (StoredCacheProposal \<Rightarrow> bool) \<Rightarrow> proposal_store \<Rightarrow> StoredCacheProposal option" where
  "findFirstPendingMatch conn cacheName pt matches s =
     (let pageSize = 200;
          pages = map (\<lambda>page. listCacheProposals \<lparr> loConnectionId = conn, loStatus = Some [Pending],
                    loCacheName = Some cacheName, loCacheType = None, loProposalType = Some pt,
                    loLimit = Some pageSize, loOffset = Some (page * pageSize) \<rparr> s) [0..<10];
          full = takeWhile (\<lambda>batch. find matches batch = None \<and> \<not> length batch < pageSize) pages
      in case drop (length full) pages of
           [] \<Rightarrow> None
         | batch # _ \<Rightarrow> find matches batch)"

definition persist ::
  "proposal_adapter \<Rightarrow> int \<Rightarrow> int \<Rightarrow> string \<Rightarrow> int \<Rightarrow> string \<Rightarrow> CreateCacheProposalInput \<Rightarrow> rate_limiter \<Rightarrow> proposal_store
    \<Rightarrow> ((CacheProposalError + StoredCacheProposal) \<times> rate_limiter \<times> proposal_store) option" where
  "persist ad ts ts' conn proposedAt uuid args rl s =
     (case reserve ts ts' conn rl of
        None \<Rightarrow> None
      | Some (reservation, rl1) \<Rightarrow>
          if \<not> allowed reservation then Some (Inl (RateLimitedError (retryAfterMs reservation)), rl1, s)
          else
            let ci = args \<lparr> ciId := uuid, ciConnectionId := conn, ciProposedAt := Some proposedAt,
                            ciExpiresAt := Some (proposedAt + PROPOSAL_DEFAULT_EXPIRY_MS) \<rparr>
            in case adCreate ad proposedAt ci s of
                 (Inr p, s1) \<Rightarrow> Some (Inr p, rl1, s1)
               | (Inl e, s1) \<Rightarrow>
                   if means_duplicate e then
                     Some (Inl (DuplicatePendingProposalError (ciCacheName args) (ciProposalType args)), rl1, s1)
                   else case releaseToken reservation of
                       Some token \<Rightarrow> Some (Inl e, release conn token rl1, s1)
                     | None \<Rightarrow> Some (Inl e, rl1, s1))"

text \<open>
  The three ways to propose. \<open>cache\<close> is the answer of the resolver (\<open>None\<close>: not registered) and
  \<open>current\<close> what \<open>readCurrentThreshold\<close> and \<open>readCurrentToolTtl\<close> read, 0 when they could not.
\<close>

record proposing =
  prConnectionId :: string
  prCacheName :: string
  prReasoning :: string
  prProposedBy :: "string option"

definition proposal_input :: "proposing \<Rightarrow> CacheType \<Rightarrow> ProposalType \<Rightarrow> ProposalPayload \<Rightarrow> CreateCacheProposalInput" where
  "proposal_input pr ct pt payload =
     \<lparr> ciId = [], ciConnectionId = prConnectionId pr, ciCacheName = prCacheName pr, ciCacheType = ct,
       ciProposalType = pt, ciPayload = payload, ciReasoning = Some (prReasoning pr),
       ciProposedBy = prProposedBy pr, ciProposedAt = None, ciExpiresAt = None \<rparr>"

definition requireCache :: "CacheType \<Rightarrow> string \<Rightarrow> CacheType option \<Rightarrow> CacheProposalError option" where
  "requireCache wanted_type cacheName cache =
     (case cache of
        None \<Rightarrow> Some (CacheNotFoundError cacheName)
      | Some t \<Rightarrow> if t \<noteq> wanted_type then Some (InvalidCacheTypeError wanted_type t cacheName) else None)"

definition proposeThresholdAdjust ::
  "proposing \<Rightarrow> string option \<Rightarrow> jsnum \<Rightarrow> CacheType option \<Rightarrow> jsnum \<Rightarrow> proposal_store
    \<Rightarrow> CacheProposalError + CreateCacheProposalInput" where
  "proposeThresholdAdjust pr category newThreshold cache current s =
     (if \<not> requireReasoning (prReasoning pr) then Inl CacheProposalValidationError
      else case requireCache SemanticCache (prCacheName pr) cache of
        Some e \<Rightarrow> Inl e
      | None \<Rightarrow>
          (case SemanticThresholdAdjustPayloadSchema category current newThreshold of
             None \<Rightarrow> Inl ZodError
           | Some payload \<Rightarrow>
               let matches = (\<lambda>p. cpCacheType p = SemanticCache \<and> cpProposalType p = ThresholdAdjust
                     \<and> (case cpPayload p of SemanticThresholdAdjustPayload c _ _ \<Rightarrow> c = category | _ \<Rightarrow> False))
               in if findFirstPendingMatch (prConnectionId pr) (prCacheName pr) ThresholdAdjust matches s \<noteq> None
                  then Inl (DuplicatePendingProposalError (prCacheName pr) ThresholdAdjust)
                  else Inr (proposal_input pr SemanticCache ThresholdAdjust payload)))"

definition proposeToolTtlAdjust ::
  "proposing \<Rightarrow> string \<Rightarrow> jsnum \<Rightarrow> CacheType option \<Rightarrow> jsnum \<Rightarrow> proposal_store
    \<Rightarrow> CacheProposalError + CreateCacheProposalInput" where
  "proposeToolTtlAdjust pr toolName newTtl cache current s =
     (if \<not> requireReasoning (prReasoning pr) then Inl CacheProposalValidationError
      else case requireCache AgentCache (prCacheName pr) cache of
        Some e \<Rightarrow> Inl e
      | None \<Rightarrow>
          (case AgentToolTtlAdjustPayloadSchema toolName current newTtl of
             None \<Rightarrow> Inl ZodError
           | Some payload \<Rightarrow>
               let matches = (\<lambda>p. cpCacheType p = AgentCache \<and> cpProposalType p = ToolTtlAdjust
                     \<and> payload_tool_name (cpPayload p) = Some toolName)
               in if findFirstPendingMatch (prConnectionId pr) (prCacheName pr) ToolTtlAdjust matches s \<noteq> None
                  then Inl (DuplicatePendingProposalError (prCacheName pr) ToolTtlAdjust)
                  else Inr (proposal_input pr AgentCache ToolTtlAdjust payload)))"

text \<open>The filter of an invalidation: a search expression, or a value of one of the three agent kinds.\<close>

datatype invalidate_filter = ValkeySearch string | AgentFilter AgentFilterKind string

definition proposeInvalidate ::
  "proposing \<Rightarrow> invalidate_filter \<Rightarrow> jsnum \<Rightarrow> CacheType option
    \<Rightarrow> CacheProposalError + (CreateCacheProposalInput \<times> bool)" where
  "proposeInvalidate pr filt estimated cache =
     (if \<not> requireReasoning (prReasoning pr) then Inl CacheProposalValidationError
      else case cache of
        None \<Rightarrow> Inl (CacheNotFoundError (prCacheName pr))
      | Some ct \<Rightarrow>
          let warns = (case estimated of Num x \<Rightarrow> x > ESTIMATED_AFFECTED_WARN_THRESHOLD | PosInf \<Rightarrow> True | _ \<Rightarrow> False)
          in case (ct, filt) of
               (SemanticCache, ValkeySearch expression) \<Rightarrow>
                 (case SemanticInvalidatePayloadSchema expression estimated of
                    None \<Rightarrow> Inl ZodError
                  | Some payload \<Rightarrow> Inr (proposal_input pr SemanticCache Invalidate payload, warns))
             | (AgentCache, AgentFilter kind v) \<Rightarrow>
                 (case AgentInvalidatePayloadSchema kind v estimated of
                    None \<Rightarrow> Inl ZodError
                  | Some payload \<Rightarrow> Inr (proposal_input pr AgentCache Invalidate payload, warns))
             | _ \<Rightarrow> Inl CacheProposalValidationError)"

section \<open>Reviewing\<close>

definition append_review ::
  "proposal_adapter \<Rightarrow> string \<Rightarrow> string \<Rightarrow> ProposalAuditEvent \<Rightarrow> (string, field_value) jsmap option \<Rightarrow> reviewer \<Rightarrow> int
    \<Rightarrow> StoredCacheProposalAudit store_call" where
  "append_review ad aid pid event payload who eventAt =
     adAppend ad \<lparr> auId = aid, auProposalId = pid, auEventType = event, auEventPayload = payload,
       auEventAt = eventAt, auActor = rvActor who, auActorSource = rvSource who \<rparr>"

definition past_pending :: "ProposalStatus \<Rightarrow> bool" where
  "past_pending st \<longleftrightarrow> st = Approved \<or> st = Applied \<or> st = Failed"

text \<open>The checks before an approval: an error, or the row, and whether it still has to be updated.\<close>

definition admit_approval ::
  "review_env \<Rightarrow> string \<Rightarrow> StoredCacheProposal option \<Rightarrow> CacheProposalError + (StoredCacheProposal \<times> bool)" where
  "admit_approval env pid row =
     (case row of
        None \<Rightarrow> Inl (ProposalNotFoundError pid)
      | Some existing \<Rightarrow>
          if past_pending (cpStatus existing) then Inr (existing, False)
          else if cpStatus existing \<noteq> Pending then Inl (ProposalNotPendingError pid (Some (cpStatus existing)))
          else if cpExpiresAt existing \<le> nowChecked env then Inl (ProposalExpiredError pid (cpExpiresAt existing))
          else Inr (existing, True))"

definition requireFreshPending ::
  "review_env \<Rightarrow> string \<Rightarrow> StoredCacheProposal option \<Rightarrow> CacheProposalError + StoredCacheProposal" where
  "requireFreshPending env pid row =
     (case row of
        None \<Rightarrow> Inl (ProposalNotFoundError pid)
      | Some existing \<Rightarrow>
          if cpStatus existing \<noteq> Pending then Inl (ProposalNotPendingError pid (Some (cpStatus existing)))
          else if cpExpiresAt existing < nowChecked env then Inl (ProposalExpiredError pid (cpExpiresAt existing))
          else Inr existing)"

definition review_update ::
  "review_env \<Rightarrow> string \<Rightarrow> ProposalStatus \<Rightarrow> reviewer \<Rightarrow> ProposalPayload option \<Rightarrow> UpdateProposalStatusInput" where
  "review_update env pid status who payload =
     (status_update pid [Pending] status)
       \<lparr> uiReviewedBy := Some (rvActor who), uiReviewedAt := Some (nowReviewed env), uiPayload := payload \<rparr>"

text \<open>After an update that found no pending row.\<close>

definition not_pending :: "string \<Rightarrow> StoredCacheProposal option \<Rightarrow> CacheProposalError" where
  "not_pending pid reread = ProposalNotPendingError pid (map_option cpStatus reread)"

definition lost_approval ::
  "string \<Rightarrow> StoredCacheProposal option \<Rightarrow> CacheProposalError + StoredCacheProposal" where
  "lost_approval pid reread =
     (case reread of
        Some r \<Rightarrow> if past_pending (cpStatus r) then Inr r else Inl (not_pending pid reread)
      | None \<Rightarrow> Inl (not_pending pid reread))"

definition transitionToApproved ::
  "proposal_adapter \<Rightarrow> review_env \<Rightarrow> string \<Rightarrow> reviewer \<Rightarrow> StoredCacheProposal store_call" where
  "transitionToApproved ad env pid who s =
     (case admit_approval env pid (getCacheProposal pid s) of
        Inl e \<Rightarrow> (Inl e, s)
      | Inr (existing, False) \<Rightarrow> (Inr existing, s)
      | Inr (existing, True) \<Rightarrow>
          (case adUpdate ad (review_update env (cpId existing) Approved who None) s of
             (Inl e, s1) \<Rightarrow> (Inl e, s1)
           | (Inr None, s1) \<Rightarrow> (lost_approval pid (getCacheProposal pid s1), s1)
           | (Inr (Some approved), s1) \<Rightarrow>
               (case append_review ad (reviewAuditId env) (cpId approved) EvApproved None who (nowReviewed env) s1 of
                  (Inl e, s2) \<Rightarrow> (Inl e, s2)
                | (Inr _, s2) \<Rightarrow> (Inr approved, s2))))"

definition reject_payload :: "string option \<Rightarrow> (string, field_value) jsmap option" where
  "reject_payload reason = map_option (\<lambda>r. [(''reason'', FText r)]) (truthy [] reason)"

definition reject ::
  "proposal_adapter \<Rightarrow> review_env \<Rightarrow> string \<Rightarrow> string option \<Rightarrow> reviewer \<Rightarrow> StoredCacheProposal store_call" where
  "reject ad env pid reason who s =
     (case requireFreshPending env pid (getCacheProposal pid s) of
        Inl e \<Rightarrow> (Inl e, s)
      | Inr existing \<Rightarrow>
          (case adUpdate ad (review_update env (cpId existing) Rejected who None) s of
             (Inl e, s1) \<Rightarrow> (Inl e, s1)
           | (Inr None, s1) \<Rightarrow> (Inl (not_pending pid (getCacheProposal pid s1)), s1)
           | (Inr (Some updated), s1) \<Rightarrow>
               (case append_review ad (reviewAuditId env) (cpId updated) EvRejected (reject_payload reason) who
                       (nowReviewed env) s1 of
                  (Inl e, s2) \<Rightarrow> (Inl e, s2)
                | (Inr _, s2) \<Rightarrow> (Inr updated, s2))))"

record edits =
  newThreshold :: "jsnum option"
  newTtlSeconds :: "jsnum option"

definition edited_payload :: "edits \<Rightarrow> StoredCacheProposal \<Rightarrow> CacheProposalError + ProposalPayload" where
  "edited_payload ed existing =
     (case cpProposalType existing of
        Invalidate \<Rightarrow> Inl (ProposalEditNotAllowedError (cpId existing))
      | ThresholdAdjust \<Rightarrow>
          (case newThreshold ed of
             None \<Rightarrow> Inl CacheProposalValidationError
           | Some n \<Rightarrow>
               if newTtlSeconds ed \<noteq> None then Inl CacheProposalValidationError
               else case cpPayload existing of
                   SemanticThresholdAdjustPayload category current _ \<Rightarrow>
                     (case SemanticThresholdAdjustPayloadSchema category (Num current) n of
                        None \<Rightarrow> Inl ZodError
                      | Some payload \<Rightarrow> Inr payload)
                 | _ \<Rightarrow> Inl ZodError)
      | ToolTtlAdjust \<Rightarrow>
          (case newTtlSeconds ed of
             None \<Rightarrow> Inl CacheProposalValidationError
           | Some n \<Rightarrow>
               if newThreshold ed \<noteq> None then Inl CacheProposalValidationError
               else case cpPayload existing of
                   AgentToolTtlAdjustPayload tool current _ \<Rightarrow>
                     (case AgentToolTtlAdjustPayloadSchema tool (Num (of_int current)) n of
                        None \<Rightarrow> Inl ZodError
                      | Some payload \<Rightarrow> Inr payload)
                 | _ \<Rightarrow> Inl ZodError))"

text \<open>The event payload \<open>{edits}\<close> of the audit row: the numbers that were given.\<close>

fun number_field :: "jsnum \<Rightarrow> field_value" where
  "number_field (Num x) = FNumber x"
| "number_field _ = FNull"

definition edits_payload :: "edits \<Rightarrow> (string, field_value) jsmap option" where
  "edits_payload ed = Some [(''edits'', FObject
     ((case newThreshold ed of None \<Rightarrow> [] | Some x \<Rightarrow> [(''newThreshold'', number_field x)])
      @ (case newTtlSeconds ed of None \<Rightarrow> [] | Some x \<Rightarrow> [(''newTtlSeconds'', number_field x)])))]"

section \<open>Applying\<close>

definition ESTIMATED_AFFECTED_OVERSHOOT_FACTOR :: int where "ESTIMATED_AFFECTED_OVERSHOOT_FACTOR = 10"

fun estimated_of_payload :: "ProposalPayload \<Rightarrow> int option" where
  "estimated_of_payload (SemanticInvalidatePayload _ n) = Some n"
| "estimated_of_payload (AgentInvalidatePayload _ _ n) = Some n"
| "estimated_of_payload _ = None"

definition estimatedAffectedOf :: "StoredCacheProposal \<Rightarrow> int option" where
  "estimatedAffectedOf p = (if cpProposalType p \<noteq> Invalidate then None else estimated_of_payload (cpPayload p))"

definition overshoot :: "StoredCacheProposal \<Rightarrow> ApplyOutcome \<Rightarrow> bool" where
  "overshoot p outcome \<longleftrightarrow>
     (case (aoActualAffected outcome, estimatedAffectedOf p) of
        (Some actual, Some estimated) \<Rightarrow> estimated > 0 \<and> actual > estimated * ESTIMATED_AFFECTED_OVERSHOOT_FACTOR
      | _ \<Rightarrow> False)"

definition stored_result :: "StoredCacheProposal \<Rightarrow> AppliedResult" where
  "stored_result p = given (cpAppliedResult p) \<lparr> arSuccess = (cpStatus p = Applied), arError = None, arDetails = None \<rparr>"

fun failed_result :: "dispatch_error \<Rightarrow> AppliedResult" where
  "failed_result (ApplyFailure message details) = \<lparr> arSuccess = False, arError = Some message, arDetails = Some details \<rparr>"
| "failed_result (OtherFailure message) =
     \<lparr> arSuccess = False, arError = Some message, arDetails = Some [(''error'', FText message)] \<rparr>"

definition applied_result :: "StoredCacheProposal \<Rightarrow> ApplyOutcome \<Rightarrow> AppliedResult" where
  "applied_result p outcome =
     (let details = aoDetails outcome;
          details1 = (case aoActualAffected outcome of None \<Rightarrow> details
                      | Some n \<Rightarrow> js_set ''actual_affected'' (FNumber (of_int n)) details);
          details2 = js_set ''duration_ms'' (FNumber (of_int (aoDurationMs outcome))) details1
      in \<lparr> arSuccess = True, arError = None,
           arDetails = Some (if overshoot p outcome then js_set ''overshoot'' (FBool True) details2 else details2) \<rparr>)"

definition final_update :: "review_env \<Rightarrow> string \<Rightarrow> ProposalStatus \<Rightarrow> AppliedResult \<Rightarrow> UpdateProposalStatusInput" where
  "final_update env pid status result =
     (status_update pid [Approved] status) \<lparr> uiAppliedAt := Some (nowApplied env), uiAppliedResult := Some result \<rparr>"

definition result_object :: "AppliedResult \<Rightarrow> field_value" where
  "result_object result = FObject
     ((''success'', FBool (arSuccess result))
      # (case arError result of None \<Rightarrow> [] | Some m \<Rightarrow> [(''error'', FText m)])
      @ (case arDetails result of None \<Rightarrow> [] | Some d \<Rightarrow> [(''details'', FObject d)]))"

text \<open>The audit of the outcome; a failure to write it is logged.\<close>

definition append_outcome ::
  "proposal_adapter \<Rightarrow> review_env \<Rightarrow> string \<Rightarrow> ProposalAuditEvent \<Rightarrow> AppliedResult \<Rightarrow> reviewer \<Rightarrow> proposal_store \<Rightarrow> proposal_store" where
  "append_outcome ad env pid event result who s =
     snd (append_review ad (applyAuditId env) pid event
       (Some [(''applied_result'', result_object result)]) who (nowAudited env) s)"

text \<open>After the dispatch: the row to audit with its event, or no audit, or the error of the store.\<close>

definition finish_apply ::
  "proposal_adapter \<Rightarrow> review_env \<Rightarrow> StoredCacheProposal \<Rightarrow> dispatch_error + ApplyOutcome
    \<Rightarrow> (StoredCacheProposal \<times> AppliedResult \<times> ProposalAuditEvent option) store_call" where
  "finish_apply ad env approved dispatched s =
     (case dispatched of
        Inl err \<Rightarrow>
          let result = failed_result err
          in (case adUpdate ad (final_update env (cpId approved) Failed result) s of
                (Inl e, s1) \<Rightarrow> (Inl e, s1)
              | (Inr failed, s1) \<Rightarrow> (Inr (given failed approved, result, Some EvFailed), s1))
      | Inr outcome \<Rightarrow>
          let result = applied_result approved outcome
          in (case adUpdate ad (final_update env (cpId approved) Applied result) s of
                (Inl e, s1) \<Rightarrow> (Inl e, s1)
              | (Inr None, s1) \<Rightarrow> (Inr (approved, result, None), s1)
              | (Inr (Some applied), s1) \<Rightarrow> (Inr (applied, result, Some EvApplied), s1)))"

definition apply_proposal ::
  "proposal_adapter \<Rightarrow> review_env \<Rightarrow> 'w dispatcher \<Rightarrow> StoredCacheProposal \<Rightarrow> reviewer \<Rightarrow> proposal_store \<Rightarrow> 'w
    \<Rightarrow> ((CacheProposalError + StoredCacheProposal \<times> AppliedResult) \<times> proposal_store \<times> 'w) option" where
  "apply_proposal ad env dispatch approved who s w =
     (if cpStatus approved = Applied \<or> cpStatus approved = Failed
      then Some (Inr (approved, stored_result approved), s, w)
      else case dispatch approved w of
          None \<Rightarrow> None
        | Some (dispatched, w1) \<Rightarrow>
            (case finish_apply ad env approved dispatched s of
               (Inl e, s1) \<Rightarrow> Some (Inl e, s1, w1)
             | (Inr (row, result, None), s1) \<Rightarrow> Some (Inr (row, result), s1, w1)
             | (Inr (row, result, Some event), s1) \<Rightarrow>
                 Some (Inr (row, result), append_outcome ad env (cpId row) event result who s1, w1)))"

definition runApply ::
  "proposal_adapter \<Rightarrow> review_env \<Rightarrow> 'w dispatcher option \<Rightarrow> StoredCacheProposal \<Rightarrow> reviewer \<Rightarrow> proposal_store \<Rightarrow> 'w
    \<Rightarrow> ((CacheProposalError + StoredCacheProposal \<times> AppliedResult option) \<times> proposal_store \<times> 'w) option" where
  "runApply ad env applyService p who s w =
     (case applyService of
        None \<Rightarrow> Some (Inr (p, None), s, w)
      | Some dispatch \<Rightarrow>
          let wasAlreadyTerminal = (cpStatus p = Applied \<or> cpStatus p = Failed)
          in (case apply_proposal ad env dispatch p who s w of
                None \<Rightarrow> None
              | Some (Inl e, s1, w1) \<Rightarrow> Some (Inl e, s1, w1)
              | Some (Inr (row, result), s1, w1) \<Rightarrow>
                  if \<not> arSuccess result \<and> \<not> wasAlreadyTerminal
                  then Some (Inl (ApplyFailedError (cpId p) (given (arError result) ''apply failed'') (arDetails result)), s1, w1)
                  else Some (Inr (row, Some result), s1, w1)))"

definition approve ::
  "proposal_adapter \<Rightarrow> review_env \<Rightarrow> 'w dispatcher option \<Rightarrow> string \<Rightarrow> reviewer \<Rightarrow> proposal_store \<Rightarrow> 'w
    \<Rightarrow> ((CacheProposalError + StoredCacheProposal \<times> AppliedResult option) \<times> proposal_store \<times> 'w) option" where
  "approve ad env applyService pid who s w =
     (case transitionToApproved ad env pid who s of
        (Inl e, s1) \<Rightarrow> Some (Inl e, s1, w)
      | (Inr p, s1) \<Rightarrow> runApply ad env applyService p who s1 w)"

definition editAndApprove ::
  "proposal_adapter \<Rightarrow> review_env \<Rightarrow> 'w dispatcher option \<Rightarrow> string \<Rightarrow> edits \<Rightarrow> reviewer \<Rightarrow> proposal_store \<Rightarrow> 'w
    \<Rightarrow> ((CacheProposalError + StoredCacheProposal \<times> AppliedResult option) \<times> proposal_store \<times> 'w) option" where
  "editAndApprove ad env applyService pid ed who s w =
     (case requireFreshPending env pid (getCacheProposal pid s) of
        Inl e \<Rightarrow> Some (Inl e, s, w)
      | Inr existing \<Rightarrow>
          (case edited_payload ed existing of
             Inl e \<Rightarrow> Some (Inl e, s, w)
           | Inr payload \<Rightarrow>
               (case adUpdate ad (review_update env (cpId existing) Approved who (Some payload)) s of
                  (Inl e, s1) \<Rightarrow> Some (Inl e, s1, w)
                | (Inr None, s1) \<Rightarrow> Some (Inl (not_pending pid (getCacheProposal pid s1)), s1, w)
                | (Inr (Some approved), s1) \<Rightarrow>
                    (case append_review ad (reviewAuditId env) (cpId approved) EvEditedAndApproved
                            (edits_payload ed) who (nowReviewed env) s1 of
                       (Inl e, s2) \<Rightarrow> Some (Inl e, s2, w)
                     | (Inr _, s2) \<Rightarrow> runApply ad env applyService approved who s2 w))))"

definition system_reviewer :: "ActorSource \<Rightarrow> reviewer" where
  "system_reviewer source = \<lparr> rvActor = Some ''system'', rvSource = source \<rparr>"

fun audit_expired :: "proposal_adapter \<Rightarrow> review_env \<Rightarrow> int \<Rightarrow> ActorSource \<Rightarrow> StoredCacheProposal list \<Rightarrow> proposal_store \<Rightarrow> proposal_store" where
  "audit_expired ad env now source [] s = s"
| "audit_expired ad env now source (p # ps) s =
     audit_expired ad env now source ps
       (snd (append_review ad (expireAuditId env (cpId p)) (cpId p) EvExpired
          (Some [(''expires_at'', FNumber (of_int (cpExpiresAt p)))]) (system_reviewer source) now s))"

definition expireProposals :: "proposal_adapter \<Rightarrow> review_env \<Rightarrow> int \<Rightarrow> ActorSource \<Rightarrow> nat store_call" where
  "expireProposals ad env now source s =
     (case adExpire ad now s of
        (Inl e, s1) \<Rightarrow> (Inl e, s1)
      | (Inr expired, s1) \<Rightarrow> (Inr (length expired), audit_expired ad env now source expired s1))"

definition getProposalWithAudit ::
  "string \<Rightarrow> proposal_store \<Rightarrow> CacheProposalError + (StoredCacheProposal \<times> StoredCacheProposalAudit list)" where
  "getProposalWithAudit pid s =
     (case getCacheProposal pid s of
        None \<Rightarrow> Inl (ProposalNotFoundError pid)
      | Some p \<Rightarrow> Inr (p, getCacheProposalAudit pid s))"

end
