(* ===== verification/Memory_Proposals.thy ===== *)
theory Memory_Proposals
  imports Proposal_Review
begin

text \<open>
  The proposals to forget memories: src/proprietary/memory-proposals (service and apply service),
  the types of src/packages/shared/src/utils/memory-proposals.ts and the rows of the two adapters.
  They differ from the cache proposals in one state: an approved proposal is claimed (\<open>applying\<close>)
  before it is dispatched. The machine of the interleaved calls shows what the claim is for: the
  dispatch of a proposal, which deletes, is started at most once, whatever overlaps.

  The store client of \<open>@betterdb/agent-memory\<close> is the dispatcher argument.
\<close>

section \<open>Types\<close>

datatype MemoryProposalStatus = MPending | MApproved | MApplying | MApplied | MFailed | MRejected | MExpired

record MemoryProposalScope =
  scThreadId :: "string option"
  scAgentId :: "string option"
  scNamespace :: "string option"

datatype MemoryForgetPayload =
  ForgetById string
| ForgetByScope "MemoryProposalScope option" "string list option"

record StoredMemoryProposal =
  mpId :: string
  mpConnectionId :: string
  mpStoreName :: string
  mpReasoning :: "string option"
  mpStatus :: MemoryProposalStatus
  mpProposedBy :: "string option"
  mpProposedAt :: int
  mpReviewedBy :: "string option"
  mpReviewedAt :: "int option"
  mpAppliedAt :: "int option"
  mpAppliedResult :: "AppliedResult option"
  mpExpiresAt :: int
  mpPayload :: MemoryForgetPayload

record memory_store =
  memoryProposals :: "(string, StoredMemoryProposal) jsmap"
  memoryAudit :: "(string, StoredCacheProposalAudit) jsmap"

record UpdateMemoryProposalStatusInput =
  umId :: string
  umExpected :: "MemoryProposalStatus list option"
  umStatus :: MemoryProposalStatus
  umReviewedBy :: "string option option"
  umReviewedAt :: "int option"
  umAppliedAt :: "int option"
  umAppliedResult :: "AppliedResult option"

definition memory_update :: "string \<Rightarrow> MemoryProposalStatus list option \<Rightarrow> MemoryProposalStatus \<Rightarrow> UpdateMemoryProposalStatusInput" where
  "memory_update pid expect status =
     \<lparr> umId = pid, umExpected = expect, umStatus = status, umReviewedBy = None, umReviewedAt = None,
       umAppliedAt = None, umAppliedResult = None \<rparr>"

datatype memory_error =
  MemoryValidationError
| DuplicatePendingMemoryProposalError string
| MemoryProposalNotFoundError string
| MemoryProposalNotPendingError string
| MemoryProposalExpiredError string
| MemoryProposalRateLimitedError int
| MemoryStorageError string

section \<open>The store\<close>

text \<open>
  The target of a proposal as text. \<open>JSON.stringify\<close> of a scope writes the fields that are given, in
  the order of the object; the scope is a record here, so its fields are in the order of the schema.
\<close>

definition json_text :: "string \<Rightarrow> string" where
  "json_text s = [CHR 0x22] @ concat (map (\<lambda>c. if c = CHR 0x22 \<or> c = CHR 0x5C then [CHR 0x5C, c] else [c]) s) @ [CHR 0x22]"

definition scope_text :: "MemoryProposalScope option \<Rightarrow> string" where
  "scope_text scope =
     (case scope of
        None \<Rightarrow> ''{}''
      | Some sc \<Rightarrow>
          ''{'' @ js_join '','' (List.map_filter (\<lambda>(name, v). map_option (\<lambda>x. json_text name @ '':'' @ json_text x) v)
             [(''threadId'', scThreadId sc), (''agentId'', scAgentId sc), (''namespace'', scNamespace sc)]) @ ''}'')"

definition targetDiscriminator :: "MemoryForgetPayload \<Rightarrow> string" where
  "targetDiscriminator payload =
     (case payload of
        ForgetById mid \<Rightarrow> ''id:'' @ mid
      | ForgetByScope scope tags \<Rightarrow>
          ''scope:'' @ scope_text scope @ ''|tags:'' @ js_join '','' (sort (given tags [])))"

definition memory_row :: "string \<Rightarrow> string \<Rightarrow> string \<Rightarrow> MemoryForgetPayload \<Rightarrow> string \<Rightarrow> string option \<Rightarrow> int \<Rightarrow> int \<Rightarrow> StoredMemoryProposal" where
  "memory_row pid conn store payload reasoning who proposedAt expiresAt =
     \<lparr> mpId = pid, mpConnectionId = conn, mpStoreName = store, mpReasoning = Some reasoning, mpStatus = MPending,
       mpProposedBy = who, mpProposedAt = proposedAt, mpReviewedBy = None, mpReviewedAt = None, mpAppliedAt = None,
       mpAppliedResult = None, mpExpiresAt = expiresAt, mpPayload = payload \<rparr>"

definition same_target :: "StoredMemoryProposal \<Rightarrow> StoredMemoryProposal \<Rightarrow> bool" where
  "same_target p existing \<longleftrightarrow> mpStatus existing = MPending \<and> mpConnectionId existing = mpConnectionId p
     \<and> mpStoreName existing = mpStoreName p \<and> targetDiscriminator (mpPayload existing) = targetDiscriminator (mpPayload p)"

definition mem_createMemoryProposal :: "StoredMemoryProposal \<Rightarrow> memory_store \<Rightarrow> (memory_error + StoredMemoryProposal) \<times> memory_store" where
  "mem_createMemoryProposal p s =
     (if list_ex (same_target p) (map snd (memoryProposals s))
      then (Inl (MemoryStorageError ''UNIQUE constraint failed: memory_proposals''), s)
      else (Inr p, s \<lparr> memoryProposals := js_set (mpId p) p (memoryProposals s) \<rparr>))"

text \<open>The table of the SQLite adapter has no unique index but its primary key.\<close>

definition sql_createMemoryProposal :: "StoredMemoryProposal \<Rightarrow> memory_store \<Rightarrow> (memory_error + StoredMemoryProposal) \<times> memory_store" where
  "sql_createMemoryProposal p s =
     (if js_has (memoryProposals s) (mpId p)
      then (Inl (MemoryStorageError ''UNIQUE constraint failed: memory_proposals.id''), s)
      else (Inr p, s \<lparr> memoryProposals := memoryProposals s @ [(mpId p, p)] \<rparr>))"

definition getMemoryProposal :: "string \<Rightarrow> memory_store \<Rightarrow> StoredMemoryProposal option" where
  "getMemoryProposal pid s = js_get (memoryProposals s) pid"

definition listPendingMemoryProposals :: "string \<Rightarrow> string \<Rightarrow> nat \<Rightarrow> memory_store \<Rightarrow> StoredMemoryProposal list" where
  "listPendingMemoryProposals conn store limit s =
     take limit (sort_key (\<lambda>p. - mpProposedAt p)
       (filter (\<lambda>p. mpConnectionId p = conn \<and> mpStatus p = MPending \<and> opt_holds (\<lambda>n. mpStoreName p = n) (truthy [] (Some store)))
          (map snd (memoryProposals s))))"

definition apply_memory_update :: "UpdateMemoryProposalStatusInput \<Rightarrow> StoredMemoryProposal \<Rightarrow> StoredMemoryProposal" where
  "apply_memory_update u p =
     p \<lparr> mpStatus := umStatus u, mpReviewedBy := given (umReviewedBy u) (mpReviewedBy p),
         mpReviewedAt := (case umReviewedAt u of None \<Rightarrow> mpReviewedAt p | t \<Rightarrow> t),
         mpAppliedAt := (case umAppliedAt u of None \<Rightarrow> mpAppliedAt p | t \<Rightarrow> t),
         mpAppliedResult := (case umAppliedResult u of None \<Rightarrow> mpAppliedResult p | r \<Rightarrow> r) \<rparr>"

definition updateMemoryProposalStatus ::
  "UpdateMemoryProposalStatusInput \<Rightarrow> memory_store \<Rightarrow> StoredMemoryProposal option \<times> memory_store" where
  "updateMemoryProposalStatus u s =
     (case js_get (memoryProposals s) (umId u) of
        None \<Rightarrow> (None, s)
      | Some existing \<Rightarrow>
          if opt_holds (\<lambda>sts. mpStatus existing \<in> set sts) (umExpected u)
          then let updated = apply_memory_update u existing
               in (Some updated, s \<lparr> memoryProposals := js_set (umId u) updated (memoryProposals s) \<rparr>)
          else (None, s))"

definition overdue_memory :: "int \<Rightarrow> StoredMemoryProposal \<Rightarrow> bool" where
  "overdue_memory now p \<longleftrightarrow> mpStatus p = MPending \<and> mpExpiresAt p \<le> now"

definition expireMemoryProposalsBefore :: "int \<Rightarrow> memory_store \<Rightarrow> StoredMemoryProposal list \<times> memory_store" where
  "expireMemoryProposalsBefore now s =
     (map (\<lambda>p. p \<lparr> mpStatus := MExpired \<rparr>) (filter (overdue_memory now) (map snd (memoryProposals s))),
      s \<lparr> memoryProposals := map (\<lambda>(k, p). (k, if overdue_memory now p then p \<lparr> mpStatus := MExpired \<rparr> else p)) (memoryProposals s) \<rparr>)"

definition appendMemoryProposalAudit ::
  "string \<Rightarrow> string \<Rightarrow> ProposalAuditEvent \<Rightarrow> (string, field_value) jsmap option \<Rightarrow> reviewer \<Rightarrow> int \<Rightarrow> memory_store \<Rightarrow> memory_store" where
  "appendMemoryProposalAudit aid pid event payload who eventAt s =
     s \<lparr> memoryAudit := js_set aid \<lparr> auId = aid, auProposalId = pid, auEventType = event, auEventPayload = payload,
           auEventAt = eventAt, auActor = rvActor who, auActorSource = rvSource who \<rparr> (memoryAudit s) \<rparr>"

section \<open>Proposing\<close>

record forget_input =
  fiStoreName :: string
  fiReasoning :: string
  fiMemoryId :: "string option"
  fiScope :: "MemoryProposalScope option"
  fiTags :: "string list option"
  fiProposedBy :: "string option"

definition buildForgetPayload :: "forget_input \<Rightarrow> memory_error + MemoryForgetPayload" where
  "buildForgetPayload fi =
     (case truthy [] (fiMemoryId fi) of
        Some mid \<Rightarrow> Inr (ForgetById mid)
      | None \<Rightarrow>
          let hasScope = (case fiScope fi of None \<Rightarrow> False
                | Some sc \<Rightarrow> scThreadId sc \<noteq> None \<or> scAgentId sc \<noteq> None \<or> scNamespace sc \<noteq> None);
              hasTags = (truthy [] (fiTags fi) \<noteq> None)
          in if \<not> hasScope \<and> \<not> hasTags then Inl MemoryValidationError
             else Inr (ForgetByScope (if hasScope then fiScope fi else None) (fiTags fi)))"

type_synonym create_memory = "StoredMemoryProposal \<Rightarrow> memory_store \<Rightarrow> (memory_error + StoredMemoryProposal) \<times> memory_store"

definition isUniqueViolation :: "memory_error \<Rightarrow> bool" where
  "isUniqueViolation e \<longleftrightarrow> (case e of MemoryStorageError m \<Rightarrow> contains_ignoring_case ''unique'' m | _ \<Rightarrow> False)"

definition proposeForget ::
  "create_memory \<Rightarrow> string \<Rightarrow> int \<Rightarrow> int \<Rightarrow> int \<Rightarrow> string \<Rightarrow> string \<Rightarrow> forget_input \<Rightarrow> rate_limiter \<Rightarrow> memory_store
    \<Rightarrow> ((memory_error + StoredMemoryProposal) \<times> rate_limiter \<times> memory_store) option" where
  "proposeForget create conn ts ts' now uuid aid fi rl s =
     (if \<not> requireReasoning (fiReasoning fi) then Some (Inl MemoryValidationError, rl, s)
      else case buildForgetPayload fi of
        Inl e \<Rightarrow> Some (Inl e, rl, s)
      | Inr payload \<Rightarrow>
          if list_ex (\<lambda>p. targetDiscriminator (mpPayload p) = targetDiscriminator payload)
               (listPendingMemoryProposals conn (fiStoreName fi) 1000 s)
          then Some (Inl (DuplicatePendingMemoryProposalError (fiStoreName fi)), rl, s)
          else case reserve ts ts' conn rl of
              None \<Rightarrow> None
            | Some (reservation, rl1) \<Rightarrow>
                if \<not> allowed reservation then Some (Inl (MemoryProposalRateLimitedError (retryAfterMs reservation)), rl1, s)
                else
                  let row = memory_row uuid conn (fiStoreName fi) payload (fiReasoning fi) (fiProposedBy fi) now
                              (now + PROPOSAL_DEFAULT_EXPIRY_MS)
                  in case create row s of
                       (Inr p, s1) \<Rightarrow>
                         Some (Inr p, rl1, appendMemoryProposalAudit aid (mpId p) EvProposed None
                           \<lparr> rvActor = fiProposedBy fi, rvSource = Mcp \<rparr> now s1)
                     | (Inl e, s1) \<Rightarrow>
                         if isUniqueViolation e then Some (Inl (DuplicatePendingMemoryProposalError (fiStoreName fi)), rl1, s1)
                         else case releaseToken reservation of
                             Some token \<Rightarrow> Some (Inl e, release conn token rl1, s1)
                           | None \<Rightarrow> Some (Inl e, rl1, s1))"

section \<open>Reviewing and applying\<close>

text \<open>The audit row of a review has a clock read of its own here.\<close>

record memory_env = review_env +
  nowReviewAudited :: int

type_synonym 'w memory_dispatcher = "StoredMemoryProposal \<Rightarrow> 'w \<Rightarrow> ((string + ApplyOutcome) \<times> 'w) option"

definition beyond_pending :: "MemoryProposalStatus \<Rightarrow> bool" where
  "beyond_pending st \<longleftrightarrow> st = MApproved \<or> st = MApplying \<or> st = MApplied \<or> st = MFailed"

definition admit_memory_approval ::
  "memory_env \<Rightarrow> string \<Rightarrow> StoredMemoryProposal option \<Rightarrow> memory_error + (StoredMemoryProposal \<times> bool)" where
  "admit_memory_approval env pid row =
     (case row of
        None \<Rightarrow> Inl (MemoryProposalNotFoundError pid)
      | Some existing \<Rightarrow>
          if beyond_pending (mpStatus existing) then Inr (existing, False)
          else if mpStatus existing \<noteq> MPending then Inl (MemoryProposalNotPendingError pid)
          else if mpExpiresAt existing \<le> nowChecked env then Inl (MemoryProposalExpiredError pid)
          else Inr (existing, True))"

definition fresh_pending_memory :: "memory_env \<Rightarrow> string \<Rightarrow> StoredMemoryProposal option \<Rightarrow> memory_error + StoredMemoryProposal" where
  "fresh_pending_memory env pid row =
     (case row of
        None \<Rightarrow> Inl (MemoryProposalNotFoundError pid)
      | Some existing \<Rightarrow>
          if mpStatus existing \<noteq> MPending then Inl (MemoryProposalNotPendingError pid)
          else if mpExpiresAt existing \<le> nowChecked env then Inl (MemoryProposalExpiredError pid)
          else Inr existing)"

definition memory_review_update :: "memory_env \<Rightarrow> string \<Rightarrow> MemoryProposalStatus \<Rightarrow> reviewer \<Rightarrow> UpdateMemoryProposalStatusInput" where
  "memory_review_update env pid status who =
     (memory_update pid (Some [MPending]) status) \<lparr> umReviewedBy := Some (rvActor who), umReviewedAt := Some (nowReviewed env) \<rparr>"

fun status_text :: "MemoryProposalStatus \<Rightarrow> string" where
  "status_text MPending = ''pending''"
| "status_text MApproved = ''approved''"
| "status_text MApplying = ''applying''"
| "status_text MApplied = ''applied''"
| "status_text MFailed = ''failed''"
| "status_text MRejected = ''rejected''"
| "status_text MExpired = ''expired''"

definition resultFor :: "StoredMemoryProposal \<Rightarrow> AppliedResult" where
  "resultFor p =
     (if mpStatus p = MApplied then given (mpAppliedResult p) \<lparr> arSuccess = True, arError = None, arDetails = None \<rparr>
      else if mpStatus p = MFailed then given (mpAppliedResult p) \<lparr> arSuccess = False, arError = None, arDetails = None \<rparr>
      else given (mpAppliedResult p)
        \<lparr> arSuccess = False, arError = None, arDetails = Some [(''status'', FText (status_text (mpStatus p)))] \<rparr>)"

definition claim_update :: "string \<Rightarrow> UpdateMemoryProposalStatusInput" where
  "claim_update pid = memory_update pid (Some [MApproved]) MApplying"

definition memory_failed_result :: "string \<Rightarrow> string \<Rightarrow> AppliedResult" where
  "memory_failed_result pid message =
     \<lparr> arSuccess = False, arError = Some message, arDetails = Some [(''proposal_id'', FText pid)] \<rparr>"

definition memory_applied_result :: "ApplyOutcome \<Rightarrow> AppliedResult" where
  "memory_applied_result outcome =
     \<lparr> arSuccess = True, arError = None,
       arDetails = Some (js_set ''durationMs'' (FNumber (of_int (aoDurationMs outcome)))
         (js_set ''actualAffected'' (FNumber (of_int (given (aoActualAffected outcome) 0))) (aoDetails outcome))) \<rparr>"

text \<open>The unconditional update after the dispatch, and the audit row that follows it.\<close>

definition finish_memory ::
  "memory_env \<Rightarrow> StoredMemoryProposal \<Rightarrow> string + ApplyOutcome \<Rightarrow> memory_store \<Rightarrow> (StoredMemoryProposal option \<times> AppliedResult) \<times> memory_store" where
  "finish_memory env claimed dispatched s =
     (let result = (case dispatched of Inl message \<Rightarrow> memory_failed_result (mpId claimed) message
                    | Inr outcome \<Rightarrow> memory_applied_result outcome);
          status = (case dispatched of Inl message \<Rightarrow> MFailed | Inr outcome \<Rightarrow> MApplied);
          (updated, s1) = updateMemoryProposalStatus ((memory_update (mpId claimed) None status)
            \<lparr> umAppliedAt := Some (nowApplied env), umAppliedResult := Some result \<rparr>) s
      in ((updated, result), s1))"

definition audit_memory_outcome ::
  "memory_env \<Rightarrow> string \<Rightarrow> string + ApplyOutcome \<Rightarrow> AppliedResult \<Rightarrow> reviewer \<Rightarrow> memory_store \<Rightarrow> memory_store" where
  "audit_memory_outcome env pid dispatched result who s =
     (case dispatched of
        Inl message \<Rightarrow> appendMemoryProposalAudit (applyAuditId env) pid EvFailed (Some [(''error'', FText message)]) who (nowAudited env) s
      | Inr outcome \<Rightarrow> appendMemoryProposalAudit (applyAuditId env) pid EvApplied (arDetails result) who (nowAudited env) s)"

definition apply_memory ::
  "memory_env \<Rightarrow> 'w memory_dispatcher \<Rightarrow> StoredMemoryProposal \<Rightarrow> reviewer \<Rightarrow> memory_store \<Rightarrow> 'w
    \<Rightarrow> ((StoredMemoryProposal \<times> AppliedResult) \<times> memory_store \<times> 'w) option" where
  "apply_memory env dispatch approved who s w =
     (if mpStatus approved = MApplied \<or> mpStatus approved = MFailed
      then Some ((approved, resultFor approved), s, w)
      else case updateMemoryProposalStatus (claim_update (mpId approved)) s of
          (None, s1) \<Rightarrow>
            let current = given (getMemoryProposal (mpId approved) s1) approved
            in Some ((current, resultFor current), s1, w)
        | (Some claimed, s1) \<Rightarrow>
            (case dispatch claimed w of
               None \<Rightarrow> None
             | Some (dispatched, w1) \<Rightarrow>
                 (case finish_memory env claimed dispatched s1 of
                    ((updated, result), s2) \<Rightarrow>
                      Some ((given updated claimed, result),
                        audit_memory_outcome env (mpId claimed) dispatched result who s2, w1))))"

definition approve_memory ::
  "memory_env \<Rightarrow> 'w memory_dispatcher \<Rightarrow> string \<Rightarrow> reviewer \<Rightarrow> memory_store \<Rightarrow> 'w
    \<Rightarrow> ((memory_error + StoredMemoryProposal \<times> AppliedResult) \<times> memory_store \<times> 'w) option" where
  "approve_memory env dispatch pid who s w =
     (case admit_memory_approval env pid (getMemoryProposal pid s) of
        Inl e \<Rightarrow> Some (Inl e, s, w)
      | Inr (existing, False) \<Rightarrow>
          (case apply_memory env dispatch existing who s w of
             None \<Rightarrow> None | Some (r, s1, w1) \<Rightarrow> Some (Inr r, s1, w1))
      | Inr (existing, True) \<Rightarrow>
          (case updateMemoryProposalStatus (memory_review_update env pid MApproved who) s of
             (None, s1) \<Rightarrow> Some (Inl (MemoryProposalNotPendingError pid), s1, w)
           | (Some row, s1) \<Rightarrow>
               (case apply_memory env dispatch row who
                       (appendMemoryProposalAudit (reviewAuditId env) pid EvApproved None who (nowReviewAudited env) s1) w of
                  None \<Rightarrow> None | Some (r, s2, w2) \<Rightarrow> Some (Inr r, s2, w2))))"

definition reject_memory ::
  "memory_env \<Rightarrow> string \<Rightarrow> string option \<Rightarrow> reviewer \<Rightarrow> memory_store \<Rightarrow> (memory_error + StoredMemoryProposal) \<times> memory_store" where
  "reject_memory env pid reason who s =
     (case fresh_pending_memory env pid (getMemoryProposal pid s) of
        Inl e \<Rightarrow> (Inl e, s)
      | Inr existing \<Rightarrow>
          (case updateMemoryProposalStatus (memory_review_update env pid MRejected who) s of
             (None, s1) \<Rightarrow> (Inl (MemoryProposalNotPendingError pid), s1)
           | (Some row, s1) \<Rightarrow>
               (Inr row, appendMemoryProposalAudit (reviewAuditId env) pid EvRejected (reject_payload reason) who (nowReviewAudited env) s1)))"

definition expire_memory :: "memory_env \<Rightarrow> int \<Rightarrow> ActorSource \<Rightarrow> memory_store \<Rightarrow> nat \<times> memory_store" where
  "expire_memory env now source s =
     (let (expired, s1) = expireMemoryProposalsBefore now s
      in (length expired,
          foldl (\<lambda>st p. appendMemoryProposalAudit (expireAuditId env (mpId p)) (mpId p) EvExpired
                   (Some [(''expires_at'', FNumber (of_int (mpExpiresAt p)))]) (system_reviewer source) (nowAudited env) st) s1 expired))"

end
