(* ===== verification/Memory_Machine.thy ===== *)
theory Memory_Machine
  imports Memory_Proposals
begin

text \<open>
  The calls on the memory proposals in any interleaving, as threads that run from one store or
  dispatcher call to the next; a thread may end at any point. The dispatch of a proposal is started
  at most once, because only the thread whose update claimed the row goes on to it.
\<close>

section \<open>Threads\<close>

datatype memory_kind = ApproveMemory | RejectMemory "string option"

datatype memory_thread =
  MReading memory_kind string reviewer
| MUpdating memory_kind string reviewer
| MAuditing memory_kind StoredMemoryProposal string reviewer
| MClaiming StoredMemoryProposal reviewer
| MDispatching StoredMemoryProposal reviewer
| MFinishing StoredMemoryProposal "string + ApplyOutcome" reviewer
| MAuditingOutcome string "string + ApplyOutcome" AppliedResult reviewer
| MExpiring ActorSource
| MDone

fun memory_after_read :: "memory_env \<Rightarrow> memory_kind \<Rightarrow> string \<Rightarrow> reviewer \<Rightarrow> StoredMemoryProposal option \<Rightarrow> memory_thread" where
  "memory_after_read env ApproveMemory pid who row =
     (case admit_memory_approval env pid row of
        Inl e \<Rightarrow> MDone
      | Inr (existing, False) \<Rightarrow>
          if mpStatus existing = MApplied \<or> mpStatus existing = MFailed then MDone else MClaiming existing who
      | Inr (existing, True) \<Rightarrow> MUpdating ApproveMemory pid who)"
| "memory_after_read env (RejectMemory reason) pid who row =
     (case fresh_pending_memory env pid row of
        Inl e \<Rightarrow> MDone
      | Inr existing \<Rightarrow> MUpdating (RejectMemory reason) pid who)"

fun memory_new_status :: "memory_kind \<Rightarrow> MemoryProposalStatus" where
  "memory_new_status ApproveMemory = MApproved"
| "memory_new_status (RejectMemory reason) = MRejected"

fun memory_step :: "'w memory_dispatcher \<Rightarrow> memory_env \<Rightarrow> int \<Rightarrow> memory_thread \<Rightarrow> memory_store \<Rightarrow> 'w
    \<Rightarrow> (memory_thread \<times> memory_store \<times> 'w) option" where
  "memory_step dispatch env now (MReading kind pid who) s w =
     Some (memory_after_read env kind pid who (getMemoryProposal pid s), s, w)"
| "memory_step dispatch env now (MUpdating kind pid who) s w =
     (case updateMemoryProposalStatus (memory_review_update env pid (memory_new_status kind) who) s of
        (None, s1) \<Rightarrow> Some (MDone, s1, w)
      | (Some row, s1) \<Rightarrow> Some (MAuditing kind row pid who, s1, w))"
| "memory_step dispatch env now (MAuditing ApproveMemory row pid who) s w =
     Some (MClaiming row who, appendMemoryProposalAudit (reviewAuditId env) pid EvApproved None who (nowReviewAudited env) s, w)"
| "memory_step dispatch env now (MAuditing (RejectMemory reason) row pid who) s w =
     Some (MDone, appendMemoryProposalAudit (reviewAuditId env) pid EvRejected (reject_payload reason) who
       (nowReviewAudited env) s, w)"
| "memory_step dispatch env now (MClaiming row who) s w =
     (case updateMemoryProposalStatus (claim_update (mpId row)) s of
        (None, s1) \<Rightarrow> Some (MDone, s1, w)
      | (Some claimed, s1) \<Rightarrow> Some (MDispatching claimed who, s1, w))"
| "memory_step dispatch env now (MDispatching row who) s w =
     (case dispatch row w of
        None \<Rightarrow> None
      | Some (dispatched, w1) \<Rightarrow> Some (MFinishing row dispatched who, s, w1))"
| "memory_step dispatch env now (MFinishing row dispatched who) s w =
     (case finish_memory env row dispatched s of
        ((updated, result), s1) \<Rightarrow> Some (MAuditingOutcome (mpId row) dispatched result who, s1, w))"
| "memory_step dispatch env now (MAuditingOutcome pid dispatched result who) s w =
     Some (MDone, audit_memory_outcome env pid dispatched result who s, w)"
| "memory_step dispatch env now (MExpiring source) s w = Some (MDone, snd (expire_memory env now source s), w)"
| "memory_step dispatch env now MDone s w = Some (MDone, s, w)"

record 'w memory_system =
  memoryRows :: memory_store
  memoryServers :: 'w
  memoryThreads :: "memory_thread list"
  forgotten :: "string list"

fun starts_forget :: "memory_thread \<Rightarrow> string list" where
  "starts_forget (MDispatching row who) = [mpId row]"
| "starts_forget _ = []"

definition memory_starts :: "memory_thread \<Rightarrow> bool" where
  "memory_starts t \<longleftrightarrow> (case t of MReading kind pid who \<Rightarrow> True | MExpiring source \<Rightarrow> True | _ \<Rightarrow> False)"

text \<open>\<open>forgotten\<close> records the proposals whose dispatch was started, in order.\<close>

inductive memory_system_step :: "create_memory \<Rightarrow> 'w memory_dispatcher \<Rightarrow> 'w memory_system \<Rightarrow> 'w memory_system \<Rightarrow> bool"
  for create dispatch where
  called: "memory_starts t \<Longrightarrow>
    memory_system_step create dispatch sys (sys \<lparr> memoryThreads := memoryThreads sys @ [t] \<rparr>)"
| proposed: "\<not> js_has (memoryProposals (memoryRows sys)) (mpId p) \<Longrightarrow> mpStatus p = MPending \<Longrightarrow>
    memory_system_step create dispatch sys (sys \<lparr> memoryRows := snd (create p (memoryRows sys)) \<rparr>)"
| stepped: "i < length (memoryThreads sys) \<Longrightarrow>
    memory_step dispatch env now (memoryThreads sys ! i) (memoryRows sys) (memoryServers sys) = Some (t', s', w') \<Longrightarrow>
    memory_system_step create dispatch sys
      \<lparr> memoryRows = s', memoryServers = w', memoryThreads = (memoryThreads sys)[i := t'],
        forgotten = forgotten sys @ starts_forget (memoryThreads sys ! i) \<rparr>"
| dropped: "i < length (memoryThreads sys) \<Longrightarrow>
    memory_system_step create dispatch sys (sys \<lparr> memoryThreads := (memoryThreads sys)[i := MDone] \<rparr>)"

definition initial_memory :: "'w \<Rightarrow> 'w memory_system" where
  "initial_memory w = \<lparr> memoryRows = \<lparr> memoryProposals = [], memoryAudit = [] \<rparr>, memoryServers = w, memoryThreads = [],
     forgotten = [] \<rparr>"

definition memory_reach :: "create_memory \<Rightarrow> 'w memory_dispatcher \<Rightarrow> 'w \<Rightarrow> 'w memory_system \<Rightarrow> bool" where
  "memory_reach create dispatch w sys \<longleftrightarrow> (memory_system_step create dispatch)\<^sup>*\<^sup>* (initial_memory w) sys"

section \<open>The invariant\<close>

definition memory_status :: "string \<Rightarrow> memory_store \<Rightarrow> MemoryProposalStatus option" where
  "memory_status pid s = map_option mpStatus (getMemoryProposal pid s)"

definition claimed :: "string \<Rightarrow> memory_store \<Rightarrow> bool" where
  "claimed pid s \<longleftrightarrow> memory_status pid s \<in> {Some MApplying, Some MApplied, Some MFailed}"

definition keyed :: "memory_store \<Rightarrow> bool" where
  "keyed s \<longleftrightarrow> wf_map (memoryProposals s) \<and> (\<forall>(k, p) \<in> set (memoryProposals s). mpId p = k)"

text \<open>The dispatches that are next for a thread.\<close>

fun next_forget :: "string \<Rightarrow> memory_thread \<Rightarrow> nat" where
  "next_forget pid (MDispatching row who) = of_bool (mpId row = pid)"
| "next_forget pid _ = 0"

definition memory_ok :: "'w memory_system \<Rightarrow> bool" where
  "memory_ok sys \<longleftrightarrow> keyed (memoryRows sys)
     \<and> (\<forall>pid. count_list (forgotten sys) pid + sum_list (map (next_forget pid) (memoryThreads sys))
          \<le> of_bool (claimed pid (memoryRows sys)))"

lemma keyed_get: "keyed s \<Longrightarrow> getMemoryProposal pid s = Some p \<Longrightarrow> mpId p = pid"
  by (auto simp: keyed_def getMemoryProposal_def dest: map_of_SomeD)

lemma memory_update_effect:
  assumes k: "keyed s" and up: "updateMemoryProposalStatus u s = (r, s')"
  obtains (none) "r = None" "s' = s"
    | (hit) p row where "r = Some row" "getMemoryProposal (umId u) s = Some p" "mpId row = umId u" "keyed s'"
        "opt_holds (\<lambda>sts. mpStatus p \<in> set sts) (umExpected u)"
        "\<And>pid. memory_status pid s' = (if pid = umId u then Some (umStatus u) else memory_status pid s)"
proof (cases "js_get (memoryProposals s) (umId u)")
  case None
  with up none show ?thesis by (simp add: updateMemoryProposalStatus_def)
next
  case (Some p)
  show ?thesis
  proof (cases "opt_holds (\<lambda>sts. mpStatus p \<in> set sts) (umExpected u)")
    case False
    with up Some none show ?thesis by (simp add: updateMemoryProposalStatus_def)
  next
    case True
    let ?row = "apply_memory_update u p"
    have get: "getMemoryProposal (umId u) s = Some p" using Some by (simp add: getMemoryProposal_def)
    have r: "r = Some ?row" and s': "s' = s \<lparr> memoryProposals := js_set (umId u) ?row (memoryProposals s) \<rparr>"
      using up Some True by (simp_all add: updateMemoryProposalStatus_def Let_def)
    have id: "mpId ?row = umId u" using keyed_get [OF k get] by (simp add: apply_memory_update_def)
    have "mpId q = k'" if "(k', q) \<in> set (js_set (umId u) ?row (memoryProposals s))" for k' q
      using subsetD [OF set_js_set that] id k by (auto simp: keyed_def)
    then have "keyed s'" using k by (auto simp: s' keyed_def)
    moreover have "memory_status pid s' = (if pid = umId u then Some (umStatus u) else memory_status pid s)" for pid
      by (simp add: s' memory_status_def getMemoryProposal_def js_simps apply_memory_update_def)
    ultimately show ?thesis using hit [OF r get id _ True] by blast
  qed
qed

text \<open>What a step of a thread does: the statuses that count, and the dispatch it makes possible.\<close>

definition memory_effect :: "memory_thread \<Rightarrow> memory_store \<Rightarrow> memory_thread \<Rightarrow> memory_store \<Rightarrow> bool" where
  "memory_effect t s t' s' \<longleftrightarrow> keyed s'
     \<and> (\<forall>pid. (claimed pid s \<longrightarrow> claimed pid s')
          \<and> (next_forget pid t' = 0 \<or> \<not> claimed pid s \<and> claimed pid s' \<and> next_forget pid t' = 1))"

lemma effect_same:
  assumes "keyed s" "memoryProposals s' = memoryProposals s" "\<And>pid. next_forget pid t' = 0"
  shows "memory_effect t s t' s'"
proof -
  have "claimed pid s' = claimed pid s" for pid
    using assms(2) by (simp add: claimed_def memory_status_def getMemoryProposal_def)
  with assms show ?thesis by (auto simp: memory_effect_def keyed_def)
qed

lemma memory_expire_effect:
  assumes "keyed s"
  shows "keyed (snd (expireMemoryProposalsBefore now s))"
    and "claimed pid (snd (expireMemoryProposalsBefore now s)) = claimed pid s"
proof -
  define f where "f = (\<lambda>p. if overdue_memory now p then p \<lparr> mpStatus := MExpired \<rparr> else p)"
  have rows: "memoryProposals (snd (expireMemoryProposalsBefore now s)) = map (\<lambda>(k, p). (k, f p)) (memoryProposals s)"
    by (simp add: expireMemoryProposalsBefore_def f_def)
  have id: "mpId (f p) = mpId p" for p by (simp add: f_def)
  show "keyed (snd (expireMemoryProposalsBefore now s))"
    using assms id by (auto simp: keyed_def rows wf_map_def case_prod_beta comp_def)
  have cl: "mpStatus (f p) \<in> {MApplying, MApplied, MFailed} \<longleftrightarrow> mpStatus p \<in> {MApplying, MApplied, MFailed}" for p
    by (simp add: f_def overdue_memory_def)
  have "getMemoryProposal pid (snd (expireMemoryProposalsBefore now s)) = map_option f (getMemoryProposal pid s)"
    unfolding getMemoryProposal_def rows by (simp add: map_of_map)
  then show "claimed pid (snd (expireMemoryProposalsBefore now s)) = claimed pid s"
    using cl by (cases "getMemoryProposal pid s") (simp_all add: claimed_def memory_status_def)
qed

lemma audit_keeps [simp]:
  "memoryProposals (appendMemoryProposalAudit aid pid ev payload who eventAt s) = memoryProposals s"
  by (simp add: appendMemoryProposalAudit_def)

lemma audit_fold_keeps:
  "memoryProposals (foldl (\<lambda>st p. appendMemoryProposalAudit (a p) (b p) ev (c p) who eventAt st) s ps) = memoryProposals s"
  by (induction ps arbitrary: s) simp_all

lemma claimed_cong: "memoryProposals s' = memoryProposals s \<Longrightarrow> claimed pid s' = claimed pid s"
  by (simp add: claimed_def memory_status_def getMemoryProposal_def)

lemma memory_thread_effect:
  assumes k: "keyed s" and step: "memory_step dispatch env now t s w = Some (t', s', w')"
  shows "memory_effect t s t' s'"
proof (cases t)
  case (MReading kind pid who)
  have t': "t' = memory_after_read env kind pid who (getMemoryProposal pid s)" and s': "s' = s" using step MReading by auto
  have "next_forget i t' = 0" for i
    unfolding t' by (cases kind) (auto split: sum.splits prod.splits bool.splits)
  then show ?thesis using s' k by (intro effect_same) auto
next
  case (MUpdating kind pid who)
  let ?u = "memory_review_update env pid (memory_new_status kind) who"
  have u: "umExpected ?u = Some [MPending]" "umStatus ?u = memory_new_status kind" "umId ?u = pid"
    by (simp_all add: memory_review_update_def memory_update_def)
  obtain r s1 where up: "updateMemoryProposalStatus ?u s = (r, s1)" by (cases "updateMemoryProposalStatus ?u s")
  have s1: "s' = s1" and t': "next_forget i t' = 0" for i
    using step MUpdating up by (auto split: option.splits)
  from k up show ?thesis
  proof (cases rule: memory_update_effect)
    case none
    with k t' s1 show ?thesis by (intro effect_same) auto
  next
    case (hit p row)
    have p: "mpStatus p = MPending" using hit(5) u(1) by (simp add: opt_holds_def)
    have "memory_status pid s = Some MPending" using hit(2) p u(3) by (simp add: memory_status_def)
    then have "claimed i s1 \<longleftrightarrow> claimed i s" for i
      using hit(6) [of i] u(2,3) by (cases kind) (auto simp: claimed_def)
    with hit(4) t' s1 show ?thesis by (simp add: memory_effect_def)
  qed
next
  case (MAuditing kind row pid who)
  show ?thesis
    by (rule effect_same) (use step MAuditing k in \<open>cases kind; auto\<close>)+
next
  case (MClaiming row who)
  let ?u = "claim_update (mpId row)"
  have u: "umExpected ?u = Some [MApproved]" "umStatus ?u = MApplying" "umId ?u = mpId row"
    by (simp_all add: claim_update_def memory_update_def)
  obtain r s1 where up: "updateMemoryProposalStatus ?u s = (r, s1)" by (cases "updateMemoryProposalStatus ?u s")
  from k up show ?thesis
  proof (cases rule: memory_update_effect)
    case none
    with k step MClaiming up show ?thesis by (intro effect_same) auto
  next
    case (hit p row')
    have s1: "s' = s1" and t': "t' = MDispatching row' who" using step MClaiming up hit(1) by auto
    have "mpStatus p = MApproved" using hit(5) u(1) by (simp add: opt_holds_def)
    then have free: "\<not> claimed (mpId row) s" using hit(2) u(3) by (simp add: claimed_def memory_status_def)
    have "claimed i s1 \<longleftrightarrow> i = mpId row \<or> claimed i s" for i
      using hit(6) [of i] u(2,3) by (auto simp: claimed_def)
    with free hit(3,4) u(3) s1 t' show ?thesis by (auto simp: memory_effect_def)
  qed
next
  case (MDispatching row who)
  then have "s' = s" "\<exists>d. t' = MFinishing row d who" using step by (auto split: option.splits)
  with k show ?thesis by (intro effect_same) auto
next
  case (MFinishing row dispatched who)
  define st where "st = (case dispatched of Inl message \<Rightarrow> MFailed | Inr outcome \<Rightarrow> MApplied)"
  define result where "result = (case dispatched of Inl message \<Rightarrow> memory_failed_result (mpId row) message
    | Inr outcome \<Rightarrow> memory_applied_result outcome)"
  define u where "u = (memory_update (mpId row) None st) \<lparr> umAppliedAt := Some (nowApplied env), umAppliedResult := Some result \<rparr>"
  have u: "umStatus u = st" "umId u = mpId row" by (simp_all add: u_def memory_update_def)
  obtain r s1 where up: "updateMemoryProposalStatus u s = (r, s1)" by (cases "updateMemoryProposalStatus u s")
  then have s1: "finish_memory env row dispatched s = ((r, result), s1)"
    by (simp add: finish_memory_def Let_def st_def u_def result_def)
  have s': "s' = s1" and t': "next_forget i t' = 0" for i
    using step MFinishing s1 by (auto split: prod.splits)
  from k up show ?thesis
  proof (cases rule: memory_update_effect)
    case none
    with k t' s' show ?thesis by (intro effect_same) auto
  next
    case (hit p row')
    have "claimed i s \<Longrightarrow> claimed i s1" for i
      using hit(6) [of i] u by (auto simp: claimed_def st_def split: sum.splits)
    with hit(4) t' s' show ?thesis by (simp add: memory_effect_def)
  qed
next
  case (MAuditingOutcome pid dispatched result who)
  show ?thesis
    by (rule effect_same)
      (use step MAuditingOutcome k in \<open>auto simp: audit_memory_outcome_def split: sum.splits\<close>)
next
  case (MExpiring source)
  have t': "t' = MDone" and rows: "memoryProposals s' = memoryProposals (snd (expireMemoryProposalsBefore now s))"
    using step MExpiring by (auto simp: expire_memory_def Let_def audit_fold_keeps split: prod.splits)
  have "keyed s'" using memory_expire_effect(1) [OF k, of now] rows by (simp add: keyed_def)
  moreover have "claimed i s' = claimed i s" for i
    using memory_expire_effect(2) [OF k] claimed_cong [OF rows] by simp
  ultimately show ?thesis using t' by (simp add: memory_effect_def)
next
  case MDone
  with step k show ?thesis by (intro effect_same) auto
qed

lemma created_memory:
  assumes k: "keyed s" and new: "\<not> js_has (memoryProposals s) (mpId p)" and p: "mpStatus p = MPending"
    and create: "create = mem_createMemoryProposal \<or> create = sql_createMemoryProposal"
  shows "keyed (snd (create p s)) \<and> (\<forall>pid. claimed pid s \<longrightarrow> claimed pid (snd (create p s)))"
proof -
  have app: "js_set (mpId p) p (memoryProposals s) = memoryProposals s @ [(mpId p, p)]"
    using new by (simp add: js_set_new js_simps)
  have "snd (create p s) = s \<or> snd (create p s) = s \<lparr> memoryProposals := memoryProposals s @ [(mpId p, p)] \<rparr>"
    using create app by (auto simp: mem_createMemoryProposal_def sql_createMemoryProposal_def)
  then consider "snd (create p s) = s" | "snd (create p s) = s \<lparr> memoryProposals := js_set (mpId p) p (memoryProposals s) \<rparr>"
    unfolding app by blast
  then show ?thesis
  proof cases
    case 2
    have "mpId q = k'" if "(k', q) \<in> set (js_set (mpId p) p (memoryProposals s))" for k' q
      using subsetD [OF set_js_set that] k by (auto simp: keyed_def)
    then have "keyed (snd (create p s))" using k by (auto simp: 2 keyed_def)
    moreover have "claimed pid (snd (create p s))" if "claimed pid s" for pid
    proof -
      have "pid \<noteq> mpId p" using that new
        by (auto simp: claimed_def memory_status_def getMemoryProposal_def js_has_def)
      with that show ?thesis by (simp add: 2 claimed_def memory_status_def getMemoryProposal_def js_simps)
    qed
    ultimately show ?thesis by blast
  qed (use k in simp)
qed

lemma memory_ok_step:
  assumes create: "create = mem_createMemoryProposal \<or> create = sql_createMemoryProposal"
    and ok: "memory_ok sys" and step: "memory_system_step create dispatch sys sys'"
  shows "memory_ok sys'"
  using step
proof cases
  case (called t)
  have "next_forget pid t = 0" for pid using called(2) by (cases t) (simp_all add: memory_starts_def)
  with ok show ?thesis by (simp add: memory_ok_def called(1))
next
  case (proposed p)
  from ok have le: "count_list (forgotten sys) pid + sum_list (map (next_forget pid) (memoryThreads sys))
      \<le> of_bool (claimed pid (memoryRows sys))" for pid by (simp add: memory_ok_def)
  from created_memory [OF _ proposed(2,3) create] ok
  have c: "keyed (snd (create p (memoryRows sys)))"
    and mono: "\<And>pid. claimed pid (memoryRows sys) \<Longrightarrow> claimed pid (snd (create p (memoryRows sys)))"
    by (simp_all add: memory_ok_def)
  have "(of_bool (claimed pid (memoryRows sys)) :: nat) \<le> of_bool (claimed pid (snd (create p (memoryRows sys))))" for pid
    using mono [of pid] by (cases "claimed pid (memoryRows sys)") simp_all
  with le have "count_list (forgotten sys) pid + sum_list (map (next_forget pid) (memoryThreads sys))
      \<le> of_bool (claimed pid (snd (create p (memoryRows sys))))" for pid by (rule order_trans)
  with c show ?thesis by (simp add: memory_ok_def proposed(1))
next
  case (stepped i env now t' s' w')
  let ?t = "memoryThreads sys ! i"
  from ok have k: "keyed (memoryRows sys)" by (simp add: memory_ok_def)
  from memory_thread_effect [OF k stepped(3)] have eff: "memory_effect ?t (memoryRows sys) t' s'" .
  have "count_list (forgotten sys @ starts_forget ?t) pid + sum_list (map (next_forget pid) ((memoryThreads sys)[i := t']))
      \<le> of_bool (claimed pid s')" for pid
  proof -
    define os where "os = map (next_forget pid) (memoryThreads sys)"
    have len: "i < length os" and nth: "os ! i = next_forget pid ?t" using stepped(2) by (simp_all add: os_def)
    have sum: "sum_list (os[i := next_forget pid t']) = sum_list os + next_forget pid t' - os ! i"
      using len by (rule sum_list_update)
    have part: "os ! i \<le> sum_list os" using len by (rule elem_le_sum_list)
    have le: "count_list (forgotten sys) pid + sum_list os \<le> of_bool (claimed pid (memoryRows sys))"
      using ok by (simp add: memory_ok_def os_def)
    have start: "count_list (starts_forget ?t) pid = os ! i" unfolding nth by (cases ?t) auto
    have e: "(claimed pid (memoryRows sys) \<longrightarrow> claimed pid s') \<and> (next_forget pid t' = 0
        \<or> \<not> claimed pid (memoryRows sys) \<and> claimed pid s' \<and> next_forget pid t' = 1)"
      using eff by (simp add: memory_effect_def)
    have total: "count_list (forgotten sys @ starts_forget ?t) pid + sum_list (map (next_forget pid) ((memoryThreads sys)[i := t']))
        = count_list (forgotten sys) pid + sum_list os + next_forget pid t'"
      using part by (simp add: map_update start sum flip: os_def)
    define n where "n = sum_list os"
    show ?thesis unfolding total using e le unfolding n_def [symmetric]
      by (cases "claimed pid (memoryRows sys)"; cases "claimed pid s'") auto
  qed
  moreover have "keyed s'" using eff by (simp add: memory_effect_def)
  ultimately show ?thesis by (simp add: memory_ok_def stepped(1))
next
  case (dropped i)
  have "sum_list (map (next_forget pid) ((memoryThreads sys)[i := MDone])) \<le> sum_list (map (next_forget pid) (memoryThreads sys))" for pid
    using dropped(2) by (simp add: map_update sum_list_update elem_le_sum_list)
  then have "count_list (forgotten sys) pid + sum_list (map (next_forget pid) ((memoryThreads sys)[i := MDone]))
      \<le> of_bool (claimed pid (memoryRows sys))" for pid
    by (rule order_trans [OF add_left_mono]) (use ok in \<open>simp add: memory_ok_def\<close>)
  with ok show ?thesis by (simp add: memory_ok_def dropped(1))
qed

lemma memory_ok_reach:
  assumes create: "create = mem_createMemoryProposal \<or> create = sql_createMemoryProposal"
    and "memory_reach create dispatch w sys"
  shows "memory_ok sys"
  using assms(2) unfolding memory_reach_def
proof (induction rule: rtranclp_induct)
  case base
  show ?case by (simp add: memory_ok_def initial_memory_def keyed_def)
next
  case (step sys sys')
  then show ?case using memory_ok_step [OF create] by blast
qed

text \<open>
  C3: whatever approvals, rejections, expiry timers, crashes and new proposals interleave, over either
  store, the dispatch of a memory proposal is started at most once, and a proposal whose dispatch was
  started has been claimed: it is being applied, applied or failed.
\<close>

theorem memory_forget_starts_once:
  assumes "create = mem_createMemoryProposal \<or> create = sql_createMemoryProposal"
    and "memory_reach create dispatch w sys"
  shows "count_list (forgotten sys) pid \<le> 1
    \<and> (pid \<in> set (forgotten sys) \<longrightarrow> memory_status pid (memoryRows sys) \<in> {Some MApplying, Some MApplied, Some MFailed})"
proof -
  have le: "count_list (forgotten sys) pid \<le> of_bool (claimed pid (memoryRows sys))"
    using memory_ok_reach [OF assms] unfolding memory_ok_def by (meson add_leD1)
  have "count_list (forgotten sys) pid = 0" if "\<not> claimed pid (memoryRows sys)" using le that by simp
  moreover have "count_list (forgotten sys) pid \<le> 1" using le by (simp add: of_bool_def split: if_splits)
  ultimately show ?thesis by (auto simp: claimed_def count_list_0_iff)
qed

section \<open>Runs\<close>

datatype memory_move = CallMemory memory_thread | ProposeMemory StoredMemoryProposal | AdvanceMemory nat

definition demo_memory_env :: "nat \<Rightarrow> memory_env" where
  "demo_memory_env i = \<lparr> nowChecked = 10, nowReviewed = 10, nowApplied = 11, nowAudited = 12,
     reviewAuditId = [char_of (97 + i), CHR ''r''], applyAuditId = [char_of (97 + i), CHR ''a''],
     expireAuditId = (\<lambda>pid. [char_of (97 + i)] @ pid), nowReviewAudited = 10 \<rparr>"

fun do_memory_move :: "create_memory \<Rightarrow> 'w memory_dispatcher \<Rightarrow> memory_move \<Rightarrow> 'w memory_system \<Rightarrow> 'w memory_system option" where
  "do_memory_move create dispatch (CallMemory t) sys =
     (if memory_starts t then Some (sys \<lparr> memoryThreads := memoryThreads sys @ [t] \<rparr>) else None)"
| "do_memory_move create dispatch (ProposeMemory p) sys =
     (if js_has (memoryProposals (memoryRows sys)) (mpId p) \<or> mpStatus p \<noteq> MPending then None
      else Some (sys \<lparr> memoryRows := snd (create p (memoryRows sys)) \<rparr>))"
| "do_memory_move create dispatch (AdvanceMemory i) sys =
     (if i < length (memoryThreads sys) then
        map_option (\<lambda>(t', s', w'). \<lparr> memoryRows = s', memoryServers = w', memoryThreads = (memoryThreads sys)[i := t'],
            forgotten = forgotten sys @ starts_forget (memoryThreads sys ! i) \<rparr>)
          (memory_step dispatch (demo_memory_env i) 10 (memoryThreads sys ! i) (memoryRows sys) (memoryServers sys))
      else None)"

definition do_memory_moves :: "create_memory \<Rightarrow> 'w memory_dispatcher \<Rightarrow> memory_move list \<Rightarrow> 'w memory_system \<Rightarrow> 'w memory_system" where
  "do_memory_moves create dispatch ms sys = foldl (\<lambda>st m. given (do_memory_move create dispatch m st) st) sys ms"

lemma do_memory_move_step:
  assumes "do_memory_move create dispatch m sys = Some sys'"
  shows "memory_system_step create dispatch sys sys'"
proof (cases m)
  case (CallMemory t)
  with assms have "memory_starts t" "sys' = sys \<lparr> memoryThreads := memoryThreads sys @ [t] \<rparr>" by (auto split: if_splits)
  then show ?thesis by (simp add: called)
next
  case (ProposeMemory p)
  with assms have "\<not> js_has (memoryProposals (memoryRows sys)) (mpId p)" "mpStatus p = MPending"
    "sys' = sys \<lparr> memoryRows := snd (create p (memoryRows sys)) \<rparr>" by (auto split: if_splits)
  then show ?thesis by (simp add: proposed)
next
  case (AdvanceMemory i)
  with assms obtain t' s' w' where i: "i < length (memoryThreads sys)"
    and st: "memory_step dispatch (demo_memory_env i) 10 (memoryThreads sys ! i) (memoryRows sys) (memoryServers sys) = Some (t', s', w')"
    and sys': "sys' = \<lparr> memoryRows = s', memoryServers = w', memoryThreads = (memoryThreads sys)[i := t'],
      forgotten = forgotten sys @ starts_forget (memoryThreads sys ! i) \<rparr>"
    by (auto split: if_splits)
  show ?thesis unfolding sys' by (rule stepped [OF i st])
qed

lemma do_memory_moves_reach: "memory_reach create dispatch w (do_memory_moves create dispatch ms (initial_memory w))"
proof (induction ms rule: rev_induct)
  case Nil
  show ?case by (simp add: do_memory_moves_def memory_reach_def)
next
  case (snoc m ms)
  let ?st = "do_memory_moves create dispatch ms (initial_memory w)"
  have eq: "do_memory_moves create dispatch (ms @ [m]) (initial_memory w) = given (do_memory_move create dispatch m ?st) ?st"
    by (simp add: do_memory_moves_def)
  show ?case
  proof (cases "do_memory_move create dispatch m ?st")
    case None
    with snoc show ?thesis by (simp add: eq given_def)
  next
    case (Some sys')
    from do_memory_move_step [OF Some] snoc show ?thesis
      by (simp add: eq given_def Some memory_reach_def)
  qed
qed

definition demo_memory_row :: "string \<Rightarrow> StoredMemoryProposal" where
  "demo_memory_row pid = memory_row pid ''conn'' ''store'' (ForgetById ''m1'') ''no longer true'' None 0 1000"

definition demo_memory_dispatch :: "nat memory_dispatcher" where
  "demo_memory_dispatch p n = Some (Inr \<lparr> aoActualAffected = Some 1, aoDurationMs = 1, aoDetails = [] \<rparr>, Suc n)"

definition demo_operator :: reviewer where "demo_operator = \<lparr> rvActor = Some ''ann'', rvSource = Ui \<rparr>"

text \<open>Two approvals of one proposal, the second while the first waits between its audit row and its claim.\<close>

definition overlapping_memory :: "memory_move list" where
  "overlapping_memory = [ProposeMemory (demo_memory_row ''p1''), CallMemory (MReading ApproveMemory ''p1'' demo_operator),
     CallMemory (MReading ApproveMemory ''p1'' demo_operator)]
     @ map AdvanceMemory [0, 0, 1, 0, 1, 0, 1, 0, 1, 0, 1, 0, 1, 0]"

lemma memory_forget_starts_once_witness:
  "count_list (forgotten (do_memory_moves mem_createMemoryProposal demo_memory_dispatch overlapping_memory (initial_memory 0))) ''p1'' = 1
    \<and> memory_status ''p1'' (memoryRows (do_memory_moves mem_createMemoryProposal demo_memory_dispatch overlapping_memory
        (initial_memory 0))) \<in> {Some MApplying, Some MApplied, Some MFailed}"
proof -
  let ?sys = "do_memory_moves mem_createMemoryProposal demo_memory_dispatch overlapping_memory (initial_memory (0::nat))"
  have one: "count_list (forgotten ?sys) ''p1'' = 1" by code_simp
  then have mem: "''p1'' \<in> set (forgotten ?sys)" by (metis count_list_0_iff zero_neq_one)
  have st: "memory_status ''p1'' (memoryRows ?sys) \<in> {Some MApplying, Some MApplied, Some MFailed}"
    by (rule mp [OF conjunct2 [OF memory_forget_starts_once [OF disjI1 [OF refl] do_memory_moves_reach]] mem])
  show ?thesis by (rule conjI [OF one st])
qed

text \<open>
  the service answers a unique violation of the store with a duplicate error, and only one of the
  stores raises it: of two pending proposals for one target, created past the check of the service,
  the memory adapter refuses the second and the SQLite adapter keeps both.
\<close>

theorem duplicate_targets_by_store:
  assumes "same_target p existing" and "js_get (memoryProposals s) (mpId existing) = Some existing"
    and "\<not> js_has (memoryProposals s) (mpId p)"
  shows "(\<exists>e. mem_createMemoryProposal p s = (Inl e, s) \<and> isUniqueViolation e)
    \<and> fst (sql_createMemoryProposal p s) = Inr p
    \<and> getMemoryProposal (mpId p) (snd (sql_createMemoryProposal p s)) = Some p
    \<and> getMemoryProposal (mpId existing) (snd (sql_createMemoryProposal p s)) = Some existing"
proof -
  have "existing \<in> set (map snd (memoryProposals s))" using assms(2) by (force dest: map_of_SomeD)
  then have dup: "list_ex (same_target p) (map snd (memoryProposals s))" using assms(1) by (auto simp: list_ex_iff)
  have "isUniqueViolation (MemoryStorageError ''UNIQUE constraint failed: memory_proposals'')" by code_simp
  moreover have "map_of (memoryProposals s) (mpId p) = None" using assms(3) by (simp add: js_has_def)
  ultimately show ?thesis
    using dup assms(2,3) by (simp add: mem_createMemoryProposal_def sql_createMemoryProposal_def getMemoryProposal_def map_add_def)
qed

lemma duplicate_targets_by_store_witness:
  "fst (sql_createMemoryProposal (demo_memory_row ''p2'')
     \<lparr> memoryProposals = [(''p1'', demo_memory_row ''p1'')], memoryAudit = [] \<rparr>) = Inr (demo_memory_row ''p2'')"
proof -
  let ?s = "\<lparr> memoryProposals = [(''p1'', demo_memory_row ''p1'')], memoryAudit = [] \<rparr>"
  have "same_target (demo_memory_row ''p2'') (demo_memory_row ''p1'')" by code_simp
  moreover have "js_get (memoryProposals ?s) (mpId (demo_memory_row ''p1'')) = Some (demo_memory_row ''p1'')"
    by (simp add: demo_memory_row_def memory_row_def)
  moreover have "\<not> js_has (memoryProposals ?s) (mpId (demo_memory_row ''p2''))"
    by (simp add: demo_memory_row_def memory_row_def js_simps)
  ultimately show ?thesis using duplicate_targets_by_store [of "demo_memory_row ''p2''" "demo_memory_row ''p1''" ?s] by blast
qed

end
