(* ===== verification/Proposal_Machine.thy ===== *)
theory Proposal_Machine
  imports Proposal_Review
begin

text \<open>
  The calls on the proposals in any interleaving. A call of cache-proposal.service.ts suspends at
  each await, so it is a thread that runs from one store or server call to the next; between the
  steps of a thread other calls, the expiry timer and new proposals run. A thread may also end at any
  point, which stands for a rejected store call and for a stop of the process.

  The invariant accounts for every audit row that is written or still owed by a thread. It gives:
  a proposal is decided once, expires or is decided but not both, and touches a server only after
  an approval. What it does not give is shown by two runs: two approvals of one proposal can both
  reach the servers, and the audit trail can hold an \<open>applied\<close> and a \<open>failed\<close> row for it.
\<close>

section \<open>Threads\<close>

datatype review_kind = Approving | Rejecting "string option" | Editing edits

text \<open>A thread between two awaits, named after the call it makes next.\<close>

datatype thread =
  Reading review_kind string reviewer
| Updating review_kind StoredCacheProposal "ProposalPayload option" string reviewer
| Rereading review_kind string reviewer
| Auditing review_kind StoredCacheProposal reviewer
| Dispatching StoredCacheProposal reviewer
| Finishing StoredCacheProposal "dispatch_error + ApplyOutcome" reviewer
| AuditingOutcome StoredCacheProposal ProposalAuditEvent AppliedResult reviewer
| Expiring ActorSource
| AuditingExpired int "StoredCacheProposal list" ActorSource
| Done

fun new_status :: "review_kind \<Rightarrow> ProposalStatus" where
  "new_status Approving = Approved"
| "new_status (Rejecting reason) = Rejected"
| "new_status (Editing ed) = Approved"

fun review_event :: "review_kind \<Rightarrow> ProposalAuditEvent" where
  "review_event Approving = EvApproved"
| "review_event (Rejecting reason) = EvRejected"
| "review_event (Editing ed) = EvEditedAndApproved"

fun review_payload :: "review_kind \<Rightarrow> (string, field_value) jsmap option" where
  "review_payload Approving = None"
| "review_payload (Rejecting reason) = reject_payload reason"
| "review_payload (Editing ed) = edits_payload ed"

text \<open>After a read: the thread goes on to its update, to the application of a row, or ends.\<close>

fun after_read :: "review_env \<Rightarrow> review_kind \<Rightarrow> string \<Rightarrow> reviewer \<Rightarrow> StoredCacheProposal option \<Rightarrow> thread" where
  "after_read env Approving pid who row =
     (case admit_approval env pid row of
        Inl e \<Rightarrow> Done
      | Inr (existing, False) \<Rightarrow>
          if cpStatus existing = Approved then Dispatching existing who else Done
      | Inr (existing, True) \<Rightarrow> Updating Approving existing None pid who)"
| "after_read env (Rejecting reason) pid who row =
     (case requireFreshPending env pid row of
        Inl e \<Rightarrow> Done
      | Inr existing \<Rightarrow> Updating (Rejecting reason) existing None pid who)"
| "after_read env (Editing ed) pid who row =
     (case requireFreshPending env pid row of
        Inl e \<Rightarrow> Done
      | Inr existing \<Rightarrow>
          (case edited_payload ed existing of
             Inl e \<Rightarrow> Done
           | Inr payload \<Rightarrow> Updating (Editing ed) existing (Some payload) pid who))"

fun after_reread :: "review_kind \<Rightarrow> string \<Rightarrow> reviewer \<Rightarrow> StoredCacheProposal option \<Rightarrow> thread" where
  "after_reread Approving pid who row =
     (case lost_approval pid row of
        Inl e \<Rightarrow> Done
      | Inr r \<Rightarrow> if cpStatus r = Approved then Dispatching r who else Done)"
| "after_reread kind pid who row = Done"

definition applies :: "review_kind \<Rightarrow> bool" where
  "applies kind \<longleftrightarrow> (case kind of Rejecting reason \<Rightarrow> False | _ \<Rightarrow> True)"

text \<open>One step of a thread. \<open>None\<close>: the dispatcher does not return.\<close>

fun thread_step :: "proposal_adapter \<Rightarrow> 'w dispatcher \<Rightarrow> review_env \<Rightarrow> int \<Rightarrow> thread \<Rightarrow> proposal_store \<Rightarrow> 'w
    \<Rightarrow> (thread \<times> proposal_store \<times> 'w) option" where
  "thread_step ad dispatch env now (Reading kind pid who) s w =
     Some (after_read env kind pid who (getCacheProposal pid s), s, w)"
| "thread_step ad dispatch env now (Updating kind existing payload pid who) s w =
     (case adUpdate ad (review_update env (cpId existing) (new_status kind) who payload) s of
        (Inl e, s1) \<Rightarrow> Some (Done, s1, w)
      | (Inr None, s1) \<Rightarrow> Some (Rereading kind pid who, s1, w)
      | (Inr (Some row), s1) \<Rightarrow> Some (Auditing kind row who, s1, w))"
| "thread_step ad dispatch env now (Rereading kind pid who) s w =
     Some (after_reread kind pid who (getCacheProposal pid s), s, w)"
| "thread_step ad dispatch env now (Auditing kind row who) s w =
     (case append_review ad (reviewAuditId env) (cpId row) (review_event kind) (review_payload kind) who (nowReviewed env) s of
        (Inl e, s1) \<Rightarrow> Some (Done, s1, w)
      | (Inr a, s1) \<Rightarrow> Some (if applies kind then Dispatching row who else Done, s1, w))"
| "thread_step ad dispatch env now (Dispatching row who) s w =
     (case dispatch row w of
        None \<Rightarrow> None
      | Some (dispatched, w1) \<Rightarrow> Some (Finishing row dispatched who, s, w1))"
| "thread_step ad dispatch env now (Finishing row dispatched who) s w =
     (case finish_apply ad env row dispatched s of
        (Inl e, s1) \<Rightarrow> Some (Done, s1, w)
      | (Inr (row', result, None), s1) \<Rightarrow> Some (Done, s1, w)
      | (Inr (row', result, Some event), s1) \<Rightarrow> Some (AuditingOutcome row' event result who, s1, w))"
| "thread_step ad dispatch env now (AuditingOutcome row event result who) s w =
     Some (Done, append_outcome ad env (cpId row) event result who s, w)"
| "thread_step ad dispatch env now (Expiring source) s w =
     (case adExpire ad now s of
        (Inl e, s1) \<Rightarrow> Some (Done, s1, w)
      | (Inr expired, s1) \<Rightarrow> Some (AuditingExpired now expired source, s1, w))"
| "thread_step ad dispatch env now (AuditingExpired t [] source) s w = Some (Done, s, w)"
| "thread_step ad dispatch env now (AuditingExpired t (p # ps) source) s w =
     Some (AuditingExpired t ps source, audit_expired ad env t source [p] s, w)"
| "thread_step ad dispatch env now Done s w = Some (Done, s, w)"

section \<open>The system\<close>

text \<open>\<open>touched\<close> records the proposals whose dispatch reached the servers, in order.\<close>

record 'w proposal_system =
  rows :: proposal_store
  servers :: 'w
  threads :: "thread list"
  touched :: "string list"

fun touches :: "thread \<Rightarrow> string list" where
  "touches (Dispatching row who) = [cpId row]"
| "touches _ = []"

definition starts :: "thread \<Rightarrow> bool" where
  "starts t \<longleftrightarrow> (case t of Reading kind pid who \<Rightarrow> True | Expiring source \<Rightarrow> True | _ \<Rightarrow> False)"

inductive system_step :: "proposal_adapter \<Rightarrow> 'w dispatcher \<Rightarrow> 'w proposal_system \<Rightarrow> 'w proposal_system \<Rightarrow> bool"
  for ad dispatch where
  called: "starts t \<Longrightarrow> system_step ad dispatch sys (sys \<lparr> threads := threads sys @ [t] \<rparr>)"
| proposed: "\<not> js_has (proposals (rows sys)) (ciId ci) \<Longrightarrow> adCreate ad now ci (rows sys) = (r, s') \<Longrightarrow>
    system_step ad dispatch sys (sys \<lparr> rows := s' \<rparr>)"
| stepped: "i < length (threads sys) \<Longrightarrow>
    thread_step ad dispatch env now (threads sys ! i) (rows sys) (servers sys) = Some (t', s', w') \<Longrightarrow>
    system_step ad dispatch sys
      \<lparr> rows = s', servers = w', threads = (threads sys)[i := t'], touched = touched sys @ touches (threads sys ! i) \<rparr>"
| dropped: "i < length (threads sys) \<Longrightarrow>
    system_step ad dispatch sys (sys \<lparr> threads := (threads sys)[i := Done] \<rparr>)"

definition initial_system :: "'w \<Rightarrow> 'w proposal_system" where
  "initial_system w = \<lparr> rows = empty_store, servers = w, threads = [], touched = [] \<rparr>"

definition system_reach :: "proposal_adapter \<Rightarrow> 'w dispatcher \<Rightarrow> 'w \<Rightarrow> 'w proposal_system \<Rightarrow> bool" where
  "system_reach ad dispatch w sys \<longleftrightarrow> (system_step ad dispatch)\<^sup>*\<^sup>* (initial_system w) sys"

section \<open>Accounting for the audit rows\<close>

definition status_of :: "string \<Rightarrow> proposal_store \<Rightarrow> ProposalStatus option" where
  "status_of pid s = map_option cpStatus (getCacheProposal pid s)"

text \<open>Audit rows of a proposal with an event of \<open>evs\<close>: written, and still owed by a thread.\<close>

definition written :: "string \<Rightarrow> ProposalAuditEvent set \<Rightarrow> proposal_store \<Rightarrow> nat" where
  "written pid evs s = length (filter (\<lambda>a. auProposalId a = pid \<and> auEventType a \<in> evs) (map snd (proposalAudit s)))"

fun owed :: "string \<Rightarrow> ProposalAuditEvent set \<Rightarrow> thread \<Rightarrow> nat" where
  "owed pid evs (Auditing kind row who) = of_bool (cpId row = pid \<and> review_event kind \<in> evs)"
| "owed pid evs (AuditingOutcome row event result who) = of_bool (cpId row = pid \<and> event \<in> evs)"
| "owed pid evs (AuditingExpired t ps source) = of_bool (EvExpired \<in> evs) * length (filter (\<lambda>p. cpId p = pid) ps)"
| "owed pid evs _ = 0"

definition due :: "string \<Rightarrow> ProposalAuditEvent set \<Rightarrow> 'w proposal_system \<Rightarrow> nat" where
  "due pid evs sys = written pid evs (rows sys) + sum_list (map (owed pid evs) (threads sys))"

text \<open>Each group of events belongs to statuses that are never left again.\<close>

definition charged :: "ProposalAuditEvent set \<Rightarrow> ProposalStatus set \<Rightarrow> bool" where
  "charged evs sts \<longleftrightarrow> (evs, sts) \<in> {({EvApproved, EvEditedAndApproved}, {Approved, Applied, Failed}),
     ({EvRejected}, {Rejected}), ({EvApplied}, {Applied}), ({EvExpired}, {Expired}), ({}, {Failed})}"

definition has_status :: "string \<Rightarrow> ProposalStatus set \<Rightarrow> proposal_store \<Rightarrow> bool" where
  "has_status pid sts s \<longleftrightarrow> (case status_of pid s of None \<Rightarrow> False | Some st \<Rightarrow> st \<in> sts)"

definition accounted :: "string \<Rightarrow> ProposalAuditEvent set \<Rightarrow> ProposalStatus set \<Rightarrow> nat \<Rightarrow> proposal_store \<Rightarrow> nat \<Rightarrow> proposal_store \<Rightarrow> bool" where
  "accounted pid evs sts b s b' s' \<longleftrightarrow> (has_status pid sts s \<longrightarrow> has_status pid sts s')
     \<and> (b' \<le> b \<or> b' \<le> Suc b \<and> \<not> has_status pid sts s \<and> has_status pid sts s')"

lemma accounted_same [intro]: "b' \<le> b \<Longrightarrow> status_of pid s' = status_of pid s \<Longrightarrow> accounted pid evs sts b s b' s'"
  by (simp add: accounted_def has_status_def)

lemma written_set:
  "written pid evs (s \<lparr> proposalAudit := js_set k a (proposalAudit s) \<rparr>)
    \<le> written pid evs s + of_bool (auProposalId a = pid \<and> auEventType a \<in> evs)"
proof -
  have "length (filter Q (map snd (js_set k a m))) \<le> length (filter Q (map snd m)) + of_bool (Q a)"
    for Q and m :: "(string \<times> StoredCacheProposalAudit) list"
    by (induction m) auto
  from this [of "\<lambda>a. auProposalId a = pid \<and> auEventType a \<in> evs" "proposalAudit s"] show ?thesis
    by (simp add: written_def)
qed

text \<open>An audit append moves a row from owed to written, or drops it.\<close>

lemma append_effect:
  assumes laws: "repo_laws ad" and ok: "store_ok s"
    and app: "append_review ad aid i event payload who t s = (r, s')"
  shows "store_ok s'" and "proposals s' = proposals s"
    and "written pid evs s' \<le> written pid evs s + of_bool (i = pid \<and> event \<in> evs)"
proof -
  note laws = laws [unfolded repo_laws_def]
  let ?a = "\<lparr> auId = aid, auProposalId = i, auEventType = event, auEventPayload = payload,
       auEventAt = t, auActor = rvActor who, auActorSource = rvSource who \<rparr>"
  have call: "adAppend ad ?a s = (r, s')" using app by (simp add: append_review_def)
  show "store_ok s'" by (rule proposal_repo.append_store_ok [OF laws ok call])
  have s': "s' = s \<or> s' = s \<lparr> proposalAudit := js_set aid ?a (proposalAudit s) \<rparr>"
  proof (cases r)
    case (Inl e)
    with proposal_repo.append_error [OF laws] call show ?thesis by blast
  next
    case (Inr a')
    with proposal_repo.append_ok [OF laws call [unfolded Inr]] show ?thesis by simp
  qed
  then show "proposals s' = proposals s" by auto
  show "written pid evs s' \<le> written pid evs s + of_bool (i = pid \<and> event \<in> evs)"
    using s' written_set [where pid = pid and evs = evs and s = s and k = aid and a = ?a] by auto
qed

text \<open>An update changes one row, from one of the expected statuses, or nothing.\<close>

lemma update_effect:
  assumes laws: "repo_laws ad" and ok: "store_ok s" and leaves: "uiStatus u \<noteq> Pending"
    and expects: "uiExpected u = Some [before]" and call: "adUpdate ad u s = (r, s')"
  obtains (same) "s' = s" "r = Inr None \<or> (\<exists>e. r = Inl e)"
    | (hit) row where "r = Inr (Some row)" "store_ok s'" "proposalAudit s' = proposalAudit s" "cpId row = uiId u"
        "status_of (uiId u) s = Some before" "cpStatus row = uiStatus u"
        "\<And>pid. status_of pid s' = (if pid = uiId u then Some (uiStatus u) else status_of pid s)"
proof -
  note laws' = laws [unfolded repo_laws_def]
  show ?thesis
  proof (rule proposal_repo.update_cases [OF laws' ok leaves])
    assume "adUpdate ad u s = (Inr None, s)"
    with call same show ?thesis by auto
  next
    assume "adUpdate ad u s = (Inl ZodError, s)"
    with call same show ?thesis by auto
  next
    fix p
    assume hit: "getCacheProposal (uiId u) s = Some p" "expected u p" "payload_ok u p"
      "adUpdate ad u s = (Inr (Some (apply_status u p)), s \<lparr> proposals := js_set (uiId u) (apply_status u p) (proposals s) \<rparr>)"
    have id: "cpId p = uiId u"
      using hit(1) ok unfolding getCacheProposal_def store_ok_def by (auto dest: map_of_SomeD)
    have before: "cpStatus p = before" using hit(2) expects by (simp add: expected_def opt_holds_def)
    have r: "r = Inr (Some (apply_status u p))"
      and s': "s' = s \<lparr> proposals := js_set (uiId u) (apply_status u p) (proposals s) \<rparr>" using hit(4) call by auto
    have "store_ok s'" by (rule proposal_repo.update_store_ok [OF laws' ok leaves call])
    moreover have "status_of pid s' = (if pid = uiId u then Some (uiStatus u) else status_of pid s)" for pid
      by (simp add: s' status_of_def getCacheProposal_def js_simps apply_status_def)
    moreover have "status_of (uiId u) s = Some before" using hit(1) before by (simp add: status_of_def)
    ultimately show ?thesis
      using that(2) [OF r] id s' by (simp add: apply_status_def)
  qed
qed

lemma charged_facts:
  assumes "charged evs sts"
  shows "Pending \<notin> sts" and "review_event kind \<in> evs \<Longrightarrow> new_status kind \<in> sts"
    and "EvFailed \<notin> evs" and "EvExpired \<in> evs \<Longrightarrow> Expired \<in> sts"
    and "EvApplied \<in> evs \<Longrightarrow> Applied \<in> sts \<and> Approved \<notin> sts"
    and "Approved \<in> sts \<Longrightarrow> Failed \<in> sts \<and> Applied \<in> sts"
  using assms by (auto simp: charged_def split: if_splits) (cases kind; simp)+

lemma accounted_hit:
  assumes before: "status_of i s = Some st" and after: "status_of i s' = Some st'"
    and other: "pid \<noteq> i \<Longrightarrow> status_of pid s' = status_of pid s \<and> b' \<le> b"
    and keeps: "st \<in> sts \<Longrightarrow> st' \<in> sts"
    and adds: "b' \<le> b \<or> b' \<le> Suc b \<and> st \<notin> sts \<and> st' \<in> sts"
  shows "accounted pid evs sts b s b' s'"
proof (cases "pid = i")
  case True
  with before after keeps adds show ?thesis by (simp add: accounted_def has_status_def)
next
  case False
  with other show ?thesis by (simp add: accounted_same)
qed

lemma written_same: "proposalAudit s' = proposalAudit s \<Longrightarrow> written pid evs s' = written pid evs s"
  by (simp add: written_def)

lemma status_same: "proposals s' = proposals s \<Longrightarrow> status_of pid s' = status_of pid s"
  by (simp add: status_of_def getCacheProposal_def)

lemma updating_effect:
  assumes laws: "repo_laws ad" and ok: "store_ok s" and ch: "charged evs sts"
    and call: "adUpdate ad (review_update env (cpId existing) (new_status kind) who payload) s = (r, s')"
    and t': "owed pid evs t' = (case r of Inr (Some row) \<Rightarrow> of_bool (cpId row = pid \<and> review_event kind \<in> evs) | _ \<Rightarrow> 0)"
  shows "store_ok s' \<and> accounted pid evs sts (written pid evs s) s (written pid evs s' + owed pid evs t') s'"
proof -
  let ?u = "review_update env (cpId existing) (new_status kind) who payload"
  have u: "uiStatus ?u \<noteq> Pending" "uiExpected ?u = Some [Pending]" "uiStatus ?u = new_status kind"
    by (cases kind; simp add: review_update_def status_update_def)+
  show ?thesis
  proof (rule update_effect [OF laws ok u(1,2) call])
    assume "s' = s" "r = Inr None \<or> (\<exists>e. r = Inl e)"
    with ok t' show ?thesis by (auto simp: accounted_def)
  next
    fix row
    assume *: "r = Inr (Some row)" "store_ok s'" "proposalAudit s' = proposalAudit s" "cpId row = uiId ?u"
      "status_of (uiId ?u) s = Some Pending" "cpStatus row = uiStatus ?u"
      "\<And>pid. status_of pid s' = (if pid = uiId ?u then Some (uiStatus ?u) else status_of pid s)"
    have owe: "owed pid evs t' = of_bool (uiId ?u = pid \<and> review_event kind \<in> evs)" using t' *(1,4) by simp
    have "accounted pid evs sts (written pid evs s) s (written pid evs s' + owed pid evs t') s'"
      unfolding written_same [OF *(3)] owe
      by (rule accounted_hit [OF *(5), of _ "new_status kind"])
        (use *(7) u(3) charged_facts(1,2) [OF ch] in auto)
    with *(2) show ?thesis by blast
  qed
qed

lemma finishing_effect:
  assumes laws: "repo_laws ad" and ok: "store_ok s" and ch: "charged evs sts"
    and call: "finish_apply ad env row dispatched s = (r, s')"
    and t': "owed pid evs t' = (case r of Inr (row', result, Some event) \<Rightarrow> of_bool (cpId row' = pid \<and> event \<in> evs) | _ \<Rightarrow> 0)"
  shows "store_ok s' \<and> accounted pid evs sts (written pid evs s) s (written pid evs s' + owed pid evs t') s'"
proof -
  define st' where "st' = (case dispatched of Inl e \<Rightarrow> Failed | Inr outcome \<Rightarrow> Applied)"
  define result where "result = (case dispatched of Inl e \<Rightarrow> failed_result e | Inr outcome \<Rightarrow> applied_result row outcome)"
  let ?u = "final_update env (cpId row) st' result"
  have u: "uiStatus ?u \<noteq> Pending" "uiExpected ?u = Some [Approved]" "uiStatus ?u = st'" "uiId ?u = cpId row"
    by (simp_all add: st'_def final_update_def status_update_def split: sum.splits)
  obtain q where up: "adUpdate ad ?u s = (q, s')"
    and r: "r = (case (dispatched, q) of (_, Inl e) \<Rightarrow> Inl e
        | (Inl e, Inr failed) \<Rightarrow> Inr (given failed row, result, Some EvFailed)
        | (Inr outcome, Inr None) \<Rightarrow> Inr (row, result, None)
        | (Inr outcome, Inr (Some applied)) \<Rightarrow> Inr (applied, result, Some EvApplied))"
    using call unfolding finish_apply_def st'_def result_def Let_def
    by (cases dispatched) (auto split: prod.splits sum.splits option.splits)
  show ?thesis
  proof (rule update_effect [OF laws ok u(1,2) up])
    assume s': "s' = s" and q: "q = Inr None \<or> (\<exists>e. q = Inl e)"
    then have "owed pid evs t' = 0"
      unfolding t' r using charged_facts(3) [OF ch] by (auto split: sum.splits option.splits)
    with s' ok show ?thesis by (auto simp: accounted_def)
  next
    fix p
    assume *: "q = Inr (Some p)" "store_ok s'" "proposalAudit s' = proposalAudit s" "cpId p = uiId ?u"
      "status_of (uiId ?u) s = Some Approved" "cpStatus p = uiStatus ?u"
      "\<And>pid. status_of pid s' = (if pid = uiId ?u then Some (uiStatus ?u) else status_of pid s)"
    have owe: "owed pid evs t' = of_bool (uiId ?u = pid \<and> st' = Applied \<and> EvApplied \<in> evs)"
    proof (cases dispatched)
      case (Inl e)
      with t' r *(1) charged_facts(3) [OF ch] show ?thesis by (simp add: given_def st'_def)
    next
      case (Inr outcome)
      then have "st' = Applied" by (simp add: st'_def)
      with Inr t' r *(1,4) show ?thesis by (simp add: u(4))
    qed
    have "accounted pid evs sts (written pid evs s) s (written pid evs s' + owed pid evs t') s'"
      unfolding written_same [OF *(3)] owe
    proof (rule accounted_hit [OF *(5), of _ st'])
      show "status_of (uiId ?u) s' = Some st'" using *(7) u(3) by simp
      show "pid \<noteq> uiId ?u \<Longrightarrow> status_of pid s' = status_of pid s
          \<and> written pid evs s + of_bool (uiId ?u = pid \<and> st' = Applied \<and> EvApplied \<in> evs) \<le> written pid evs s"
        using *(7) by simp
      show "Approved \<in> sts \<Longrightarrow> st' \<in> sts" using charged_facts(6) [OF ch] by (simp add: st'_def split: sum.splits)
      show "written pid evs s + of_bool (uiId ?u = pid \<and> st' = Applied \<and> EvApplied \<in> evs) \<le> written pid evs s
          \<or> written pid evs s + of_bool (uiId ?u = pid \<and> st' = Applied \<and> EvApplied \<in> evs) \<le> Suc (written pid evs s)
            \<and> Approved \<notin> sts \<and> st' \<in> sts"
        using charged_facts(5) [OF ch] by auto
    qed
    with *(2) show ?thesis by blast
  qed
qed

lemma expired_count:
  assumes "wf_map m" "\<forall>(k, p) \<in> set m. cpId p = k"
  shows "length (filter (\<lambda>p. cpId p = pid) (map expire_row (filter (overdue now) (map snd m))))
    = (case js_get m pid of None \<Rightarrow> 0 | Some p \<Rightarrow> of_bool (overdue now p))"
  using assms
proof (induction m)
  case (Cons a m)
  obtain k p where a: "a = (k, p)" by (cases a)
  have wf: "wf_map m" and id: "cpId p = k" and new: "k \<notin> fst ` set m" using Cons.prems a by (auto simp: wf_map_def)
  have "js_get m k = None" using new by (simp add: map_of_eq_None_iff)
  with Cons.IH [OF wf] Cons.prems(2) a id show ?case
    by (cases "k = pid") (auto simp: expire_row_def)
qed simp

lemma expiring_effect:
  assumes laws: "repo_laws ad" and ok: "store_ok s" and ch: "charged evs sts"
    and call: "adExpire ad now s = (Inr expired, s')"
  shows "store_ok s' \<and> accounted pid evs sts (written pid evs s) s
    (written pid evs s' + of_bool (EvExpired \<in> evs) * length (filter (\<lambda>p. cpId p = pid) expired)) s'"
proof -
  note laws' = laws [unfolded repo_laws_def]
  have ex: "expired = map expire_row (filter (overdue now) (map snd (proposals s)))"
    and s': "s' = s \<lparr> proposals := map (\<lambda>(k, p). (k, if overdue now p then expire_row p else p)) (proposals s) \<rparr>"
    using proposal_repo.expire_all [OF laws' ok, of now] call by simp_all
  have ok': "store_ok s'" by (rule proposal_repo.expire_store_ok [OF laws' ok call])
  have wf: "wf_map (proposals s)" and ids: "\<forall>(k, p) \<in> set (proposals s). cpId p = k" using ok by (simp_all add: store_ok_def)
  have audit: "proposalAudit s' = proposalAudit s" by (simp add: s')
  have get: "js_get (proposals s') pid = map_option (\<lambda>p. if overdue now p then expire_row p else p) (js_get (proposals s) pid)"
    unfolding s' by (simp add: map_of_map)
  have "accounted pid evs sts (written pid evs s) s
    (written pid evs s' + of_bool (EvExpired \<in> evs) * length (filter (\<lambda>p. cpId p = pid) expired)) s'"
  proof (cases "\<exists>p. js_get (proposals s) pid = Some p \<and> overdue now p")
    case True
    then obtain p where p: "js_get (proposals s) pid = Some p" "overdue now p" by blast
    have "status_of pid s = Some Pending" using p by (simp add: status_of_def getCacheProposal_def overdue_def)
    moreover have "status_of pid s' = Some Expired"
      using p get by (simp add: status_of_def getCacheProposal_def expire_row_def)
    moreover have "length (filter (\<lambda>p. cpId p = pid) expired) = 1"
      unfolding ex expired_count [OF wf ids] using p by simp
    ultimately show ?thesis
      unfolding written_same [OF audit] using charged_facts(1,4) [OF ch] by (auto simp: accounted_def has_status_def)
  next
    case False
    then have "length (filter (\<lambda>p. cpId p = pid) expired) = 0"
      unfolding ex expired_count [OF wf ids] by (simp split: option.splits)
    moreover have "status_of pid s' = status_of pid s"
      using False get by (cases "js_get (proposals s) pid") (simp_all add: status_of_def getCacheProposal_def)
    ultimately show ?thesis unfolding written_same [OF audit] by (simp add: accounted_same)
  qed
  with ok' show ?thesis by blast
qed

text \<open>What one step of one thread does to the account of one proposal.\<close>

lemma thread_effect:
  assumes laws: "repo_laws ad" and ok: "store_ok s" and ch: "charged evs sts"
    and step: "thread_step ad dispatch env now t s w = Some (t', s', w')"
  shows "store_ok s' \<and> accounted pid evs sts (written pid evs s + owed pid evs t) s
    (written pid evs s' + owed pid evs t') s'"
proof (cases t)
  case (Reading kind i who)
  have "owed pid evs (after_read env kind i who row) = 0" for row
    by (cases kind) (auto split: sum.splits prod.splits bool.splits)
  with Reading step ok show ?thesis by (auto intro!: accounted_same)
next
  case (Updating kind existing payload i who)
  obtain r s1 where call: "adUpdate ad (review_update env (cpId existing) (new_status kind) who payload) s = (r, s1)"
    by (cases "adUpdate ad (review_update env (cpId existing) (new_status kind) who payload) s")
  with Updating step have s1: "s1 = s'" by (auto split: sum.splits option.splits)
  have "owed pid evs t' = (case r of Inr (Some row) \<Rightarrow> of_bool (cpId row = pid \<and> review_event kind \<in> evs) | _ \<Rightarrow> 0)"
    using Updating step call by (auto split: sum.splits option.splits)
  from updating_effect [OF laws ok ch call this] Updating s1 show ?thesis by simp
next
  case (Rereading kind i who)
  have "owed pid evs (after_reread kind i who row) = 0" for row
    by (cases kind) (auto split: sum.splits)
  with Rereading step ok show ?thesis by (auto intro!: accounted_same)
next
  case (Auditing kind row who)
  obtain r s1 where call: "append_review ad (reviewAuditId env) (cpId row) (review_event kind) (review_payload kind) who (nowReviewed env) s = (r, s1)"
    by (cases "append_review ad (reviewAuditId env) (cpId row) (review_event kind) (review_payload kind) who (nowReviewed env) s")
  with Auditing step have s1: "s1 = s'" and t': "t' = Done \<or> t' = Dispatching row who"
    by (auto split: sum.splits if_splits)
  note eff = append_effect [OF laws ok call]
  from t' have "owed pid evs t' = 0" by auto
  with eff(3) [of pid evs] Auditing s1
  have "written pid evs s' + owed pid evs t' \<le> written pid evs s + owed pid evs t" by simp
  with eff(1) status_same [OF eff(2)] s1 show ?thesis by auto
next
  case (Dispatching row who)
  with step ok show ?thesis by (auto split: option.splits)
next
  case (Finishing row dispatched who)
  obtain r s1 where call: "finish_apply ad env row dispatched s = (r, s1)" by (cases "finish_apply ad env row dispatched s")
  with Finishing step have s1: "s1 = s'" by (auto split: sum.splits option.splits)
  have "owed pid evs t' = (case r of Inr (row', result, Some event) \<Rightarrow> of_bool (cpId row' = pid \<and> event \<in> evs) | _ \<Rightarrow> 0)"
    using Finishing step call by (auto split: sum.splits option.splits)
  from finishing_effect [OF laws ok ch call this] Finishing s1 show ?thesis by simp
next
  case (AuditingOutcome row event result who)
  define a where "a = append_review ad (applyAuditId env) (cpId row) event
    (Some [(''applied_result'', result_object result)]) who (nowAudited env) s"
  have call: "append_review ad (applyAuditId env) (cpId row) event
    (Some [(''applied_result'', result_object result)]) who (nowAudited env) s = (fst a, s')" and t': "t' = Done"
    using AuditingOutcome step by (auto simp: append_outcome_def a_def)
  note eff = append_effect [OF laws ok call]
  have "written pid evs s' + owed pid evs t' \<le> written pid evs s + owed pid evs t"
    using eff(3) [of pid evs] AuditingOutcome t' by simp
  with eff(1) status_same [OF eff(2)] show ?thesis by auto
next
  case (Expiring source)
  obtain r s1 where call: "adExpire ad now s = (r, s1)" by (cases "adExpire ad now s")
  then obtain expired where r: "r = Inr expired"
    using proposal_repo.expire_all [OF laws [unfolded repo_laws_def] ok, of now] by auto
  with Expiring step call have "s1 = s'" "t' = AuditingExpired now expired source" by auto
  with expiring_effect [OF laws ok ch call [unfolded r], of pid] Expiring show ?thesis by simp
next
  case (AuditingExpired u ps source)
  show ?thesis
  proof (cases ps)
    case Nil
    with AuditingExpired step ok show ?thesis by auto
  next
    case (Cons p qs)
    define a where "a = append_review ad (expireAuditId env (cpId p)) (cpId p) EvExpired
      (Some [(''expires_at'', FNumber (of_int (cpExpiresAt p)))]) (system_reviewer source) u s"
    have call: "append_review ad (expireAuditId env (cpId p)) (cpId p) EvExpired
      (Some [(''expires_at'', FNumber (of_int (cpExpiresAt p)))]) (system_reviewer source) u s = (fst a, s')"
      and t': "t' = AuditingExpired u qs source"
      using AuditingExpired step Cons by (auto simp: a_def)
    note eff = append_effect [OF laws ok call]
    have "written pid evs s' + owed pid evs t' \<le> written pid evs s + owed pid evs t"
      using eff(3) [of pid evs] AuditingExpired Cons t' by (cases "EvExpired \<in> evs"; cases "cpId p = pid") simp_all
    with eff(1) status_same [OF eff(2)] show ?thesis by auto
  qed
next
  case Done
  with step ok show ?thesis by auto
qed

section \<open>The invariant\<close>

text \<open>A thread that is about to reach the servers, or has, holds an approved proposal.\<close>

fun carries :: "thread \<Rightarrow> string list" where
  "carries (Auditing kind row who) = (if applies kind then [cpId row] else [])"
| "carries (Dispatching row who) = [cpId row]"
| "carries _ = []"

definition was_approved :: "string \<Rightarrow> proposal_store \<Rightarrow> bool" where
  "was_approved pid s \<longleftrightarrow> has_status pid {Approved, Applied, Failed} s"

definition system_ok :: "'w proposal_system \<Rightarrow> bool" where
  "system_ok sys \<longleftrightarrow> store_ok (rows sys)
     \<and> (\<forall>pid evs sts. charged evs sts \<longrightarrow> due pid evs sys \<le> of_bool (has_status pid sts (rows sys)))
     \<and> (\<forall>t \<in> set (threads sys). \<forall>pid \<in> set (carries t). was_approved pid (rows sys))
     \<and> (\<forall>pid \<in> set (touched sys). was_approved pid (rows sys))"

lemma charged_approved: "charged {EvApproved, EvEditedAndApproved} {Approved, Applied, Failed}"
  by (simp add: charged_def)

lemma due_step:
  assumes i: "i < length (threads sys)"
    and acc: "accounted pid evs sts (written pid evs (rows sys) + owed pid evs (threads sys ! i)) (rows sys)
      (written pid evs s' + owed pid evs t') s'"
    and le: "due pid evs sys \<le> of_bool (has_status pid sts (rows sys))"
  shows "due pid evs \<lparr> rows = s', servers = w', threads = (threads sys)[i := t'], touched = tt \<rparr>
    \<le> of_bool (has_status pid sts s')"
proof -
  define os where "os = map (owed pid evs) (threads sys)"
  define b where "b = written pid evs (rows sys)"
  define b' where "b' = written pid evs s' + owed pid evs t'"
  have nth: "os ! i = owed pid evs (threads sys ! i)" and len: "i < length os" using i by (simp_all add: os_def)
  have sum: "sum_list (os[i := owed pid evs t']) = sum_list os + owed pid evs t' - os ! i"
    using len by (rule sum_list_update)
  have part: "os ! i \<le> sum_list os" using len by (rule elem_le_sum_list)
  have new: "due pid evs \<lparr> rows = s', servers = w', threads = (threads sys)[i := t'], touched = tt \<rparr>
      = b' + (sum_list os - os ! i)"
    using sum part by (simp add: due_def map_update b'_def flip: os_def)
  have old: "due pid evs sys = (b + os ! i) + (sum_list os - os ! i)"
    using part by (simp add: due_def b_def flip: os_def)
  define rest where "rest = sum_list os - os ! i"
  have acc': "(has_status pid sts (rows sys) \<longrightarrow> has_status pid sts s')
      \<and> (b' \<le> b + os ! i \<or> b' \<le> Suc (b + os ! i) \<and> \<not> has_status pid sts (rows sys) \<and> has_status pid sts s')"
    using acc unfolding accounted_def nth b_def b'_def .
  show ?thesis
    using acc' le unfolding new old rest_def [symmetric]
    by (cases "has_status pid sts (rows sys)"; cases "has_status pid sts s'") auto
qed

lemma row_approved:
  assumes "store_ok s" "getCacheProposal i s = Some p" "past_pending (cpStatus p)"
  shows "was_approved (cpId p) s"
proof -
  have "cpId p = i" using assms(1,2) unfolding getCacheProposal_def store_ok_def by (auto dest: map_of_SomeD)
  with assms show ?thesis by (auto simp: was_approved_def has_status_def status_of_def past_pending_def)
qed

lemma approved_stays:
  assumes laws: "repo_laws ad" and ok: "store_ok s"
    and step: "thread_step ad dispatch env now t s w = Some (t', s', w')" and "was_approved pid s"
  shows "was_approved pid s'"
  using thread_effect [OF laws ok charged_approved step, of pid] assms(4) by (simp add: was_approved_def accounted_def)

lemma carries_read:
  assumes ok: "store_ok s" and "x \<in> set (carries (after_read env kind i who (getCacheProposal i s)))"
  shows "was_approved x s"
proof (cases kind)
  case Approving
  with assms(2) obtain p where p: "admit_approval env i (getCacheProposal i s) = Inr (p, False)"
    and st: "cpStatus p = Approved" and x: "x = cpId p"
    by (auto split: sum.splits prod.splits bool.splits if_splits)
  have "getCacheProposal i s = Some p"
    using p by (auto simp: admit_approval_def split: option.splits if_splits)
  with row_approved [OF ok this] st x show ?thesis by (simp add: past_pending_def)
qed (use assms(2) in \<open>auto split: sum.splits\<close>)

lemma carries_reread:
  assumes ok: "store_ok s" and "x \<in> set (carries (after_reread kind i who (getCacheProposal i s)))"
  shows "was_approved x s"
proof (cases kind)
  case Approving
  with assms(2) obtain p where p: "lost_approval i (getCacheProposal i s) = Inr p"
    and st: "cpStatus p = Approved" and x: "x = cpId p"
    by (auto split: sum.splits if_splits)
  have "getCacheProposal i s = Some p"
    using p by (auto simp: lost_approval_def split: option.splits if_splits)
  with row_approved [OF ok this] st x show ?thesis by (simp add: past_pending_def)
qed (use assms(2) in auto)

lemma carries_step:
  assumes laws: "repo_laws ad" and ok: "store_ok s"
    and step: "thread_step ad dispatch env now t s w = Some (t', s', w')"
    and old: "\<forall>x \<in> set (carries t). was_approved x s" and x: "x \<in> set (carries t')"
  shows "was_approved x s'"
proof (cases t)
  case (Reading kind i who)
  with step x carries_read [OF ok] show ?thesis by auto
next
  case (Rereading kind i who)
  with step x carries_reread [OF ok] show ?thesis by auto
next
  case (Updating kind existing payload i who)
  let ?u = "review_update env (cpId existing) (new_status kind) who payload"
  have u: "uiStatus ?u \<noteq> Pending" "uiExpected ?u = Some [Pending]" "uiStatus ?u = new_status kind"
    by (cases kind; simp add: review_update_def status_update_def)+
  obtain r s1 where call: "adUpdate ad ?u s = (r, s1)" by (cases "adUpdate ad ?u s")
  from Updating step x call obtain row where r: "r = Inr (Some row)" and s1: "s1 = s'"
    and kind: "applies kind" and xr: "x = cpId row"
    by (auto split: sum.splits option.splits if_splits)
  have st: "new_status kind = Approved" using kind by (cases kind) (simp_all add: applies_def)
  show ?thesis
  proof (rule update_effect [OF laws ok u(1,2) call])
    assume "r = Inr None \<or> (\<exists>e. r = Inl e)"
    with r show ?thesis by auto
  next
    fix p
    assume "r = Inr (Some p)" "cpId p = uiId ?u"
      "\<And>pid. status_of pid s1 = (if pid = uiId ?u then Some (uiStatus ?u) else status_of pid s)"
    with r xr s1 u(3) st show ?thesis by (simp add: was_approved_def has_status_def)
  qed
next
  case (Auditing kind row who)
  with step x have "applies kind" "x = cpId row" by (auto split: prod.splits sum.splits if_splits)
  with old Auditing approved_stays [OF laws ok step] show ?thesis by simp
next
  case (Dispatching row who)
  with step x show ?thesis by (auto split: option.splits)
next
  case (Finishing row dispatched who)
  with step x show ?thesis by (auto split: prod.splits sum.splits option.splits)
next
  case (AuditingOutcome row event result who)
  with step x show ?thesis by auto
next
  case (Expiring source)
  with step x show ?thesis by (auto split: prod.splits sum.splits)
next
  case (AuditingExpired u ps source)
  with step x show ?thesis by (cases ps) auto
next
  case Done
  with step x show ?thesis by auto
qed

lemma system_okD:
  assumes "system_ok sys"
  shows "store_ok (rows sys)" and "charged evs sts \<Longrightarrow> due pid evs sys \<le> of_bool (has_status pid sts (rows sys))"
    and "t \<in> set (threads sys) \<Longrightarrow> x \<in> set (carries t) \<Longrightarrow> was_approved x (rows sys)"
    and "x \<in> set (touched sys) \<Longrightarrow> was_approved x (rows sys)"
  using assms unfolding system_ok_def by blast+

text \<open>A call that starts, or a thread that ends, owes nothing and carries nothing.\<close>

lemma idle_thread: "starts t \<Longrightarrow> owed pid evs t = 0" "starts t \<Longrightarrow> carries t = []"
  by (cases t; simp add: starts_def)+

lemma created_status:
  assumes laws: "repo_laws ad" and new: "\<not> js_has (proposals s) (ciId ci)" and call: "adCreate ad now ci s = (r, s')"
  shows "proposalAudit s' = proposalAudit s"
    and "status_of pid s' = status_of pid s \<or> status_of pid s = None \<and> status_of pid s' = Some Pending"
proof -
  note laws' = laws [unfolded repo_laws_def]
  have "proposalAudit s' = proposalAudit s
      \<and> (status_of pid s' = status_of pid s \<or> status_of pid s = None \<and> status_of pid s' = Some Pending)"
  proof (cases r)
    case (Inl e)
    with proposal_repo.create_error [OF laws'] call have "s' = s" by blast
    then show ?thesis by simp
  next
    case (Inr p)
    from proposal_repo.create_row [OF laws' call [unfolded Inr] new]
    have p: "p = new_row now ci" and s': "s' = s \<lparr> proposals := proposals s @ [(cpId p, p)] \<rparr>" by blast+
    have id: "cpId p = ciId ci" "cpStatus p = Pending" by (simp_all add: p new_row_def Let_def)
    have none: "js_get (proposals s) (ciId ci) = None" using new by (simp add: js_has_def)
    show ?thesis
    proof (cases "pid = ciId ci")
      case True
      with s' id none show ?thesis by (simp add: status_of_def getCacheProposal_def map_add_def)
    next
      case False
      with s' id show ?thesis by (cases "js_get (proposals s) pid") (simp_all add: status_of_def getCacheProposal_def map_add_def)
    qed
  qed
  then show "proposalAudit s' = proposalAudit s"
    "status_of pid s' = status_of pid s \<or> status_of pid s = None \<and> status_of pid s' = Some Pending" by blast+
qed

lemma system_ok_step:
  assumes laws: "repo_laws ad" and ok: "system_ok sys" and step: "system_step ad dispatch sys sys'"
  shows "system_ok sys'"
  using step
proof cases
  case (called t)
  with system_okD [OF ok] idle_thread [of t] show ?thesis by (auto simp: system_ok_def due_def)
next
  case (proposed ci now r s')
  have ok': "store_ok s'" by (rule proposal_repo.create_ok [OF laws [unfolded repo_laws_def] system_okD(1) [OF ok] proposed(3,2)])
  note cs = created_status [OF laws proposed(2,3)]
  have hs: "has_status pid sts s' = has_status pid sts (rows sys)" if "Pending \<notin> sts" for pid sts
    using cs(2) [of pid] that by (auto simp: has_status_def split: option.splits)
  have "due pid evs sys' \<le> of_bool (has_status pid sts (rows sys'))" if "charged evs sts" for pid evs sts
    using system_okD(2) [OF ok that, of pid] hs [OF charged_facts(1) [OF that]] written_same [OF cs(1)] proposed(1)
    by (simp add: due_def)
  then show ?thesis
    using ok' system_okD(3,4) [OF ok] hs proposed(1) by (auto simp: system_ok_def was_approved_def)
next
  case (stepped i env now t' s' w')
  let ?t = "threads sys ! i"
  have t: "?t \<in> set (threads sys)" using stepped(2) by simp
  note sok = system_okD(1) [OF ok]
  have ok': "store_ok s'" using thread_effect [OF laws sok charged_approved stepped(3)] by blast
  have stays: "was_approved x s'" if "was_approved x (rows sys)" for x
    by (rule approved_stays [OF laws sok stepped(3) that])
  have "due pid evs sys' \<le> of_bool (has_status pid sts (rows sys'))" if "charged evs sts" for pid evs sts
    unfolding stepped(1) proposal_system.simps
    by (rule due_step [OF stepped(2) _ system_okD(2) [OF ok that]])
      (use thread_effect [OF laws sok that stepped(3)] in blast)
  moreover have "was_approved x s'" if "t \<in> set ((threads sys)[i := t'])" "x \<in> set (carries t)" for t x
  proof (cases "t = t'")
    case True
    with carries_step [OF laws sok stepped(3)] system_okD(3) [OF ok t] that(2) show ?thesis by blast
  next
    case False
    with that(1) have "t \<in> set (threads sys)" using set_update_subset_insert [of "threads sys" i t'] by blast
    with system_okD(3) [OF ok] that(2) stays show ?thesis by blast
  qed
  moreover have "was_approved x s'" if "x \<in> set (touched sys @ touches ?t)" for x
  proof -
    have "set (touches ?t) \<subseteq> set (carries ?t)" by (cases ?t) auto
    with that system_okD(3) [OF ok t] system_okD(4) [OF ok] stays show ?thesis by auto
  qed
  ultimately show ?thesis using ok' stepped(1) by (auto simp: system_ok_def)
next
  case (dropped i)
  have "accounted pid evs sts (written pid evs (rows sys) + owed pid evs (threads sys ! i)) (rows sys)
      (written pid evs (rows sys) + owed pid evs Done) (rows sys)" for pid evs sts by auto
  note acc = this
  have sys': "sys' = \<lparr> rows = rows sys, servers = servers sys, threads = (threads sys)[i := Done], touched = touched sys \<rparr>"
    using dropped(1) by (cases sys) simp
  have "due pid evs sys' \<le> of_bool (has_status pid sts (rows sys'))" if "charged evs sts" for pid evs sts
    unfolding sys' proposal_system.simps by (rule due_step [OF dropped(2) acc system_okD(2) [OF ok that]])
  moreover have "was_approved x (rows sys)" if "t \<in> set ((threads sys)[i := Done])" "x \<in> set (carries t)" for t x
    using set_update_subset_insert [of "threads sys" i Done] that system_okD(3) [OF ok, of t x] by auto
  ultimately show ?thesis using system_okD(1,4) [OF ok] dropped(1) by (auto simp: system_ok_def)
qed

lemma system_ok_reach:
  assumes laws: "repo_laws ad" and "system_reach ad dispatch w sys"
  shows "system_ok sys"
  using assms(2) unfolding system_reach_def
proof (induction rule: rtranclp_induct)
  case base
  show ?case
    by (simp add: system_ok_def initial_system_def due_def written_def) (simp add: empty_store_def)
next
  case (step sys sys')
  then show ?case using system_ok_step [OF laws] by blast
qed

text \<open>The audit rows of a proposal with one of the given events.\<close>

definition audit_count :: "string \<Rightarrow> ProposalAuditEvent list \<Rightarrow> 'w proposal_system \<Rightarrow> nat" where
  "audit_count pid evs sys =
     length (filter (\<lambda>a. auEventType a \<in> set evs) (getCacheProposalAudit pid (rows sys)))"

lemma audit_count_written: "audit_count pid evs sys = written pid (set evs) (rows sys)"
  by (simp add: audit_count_def getCacheProposalAudit_def written_def filter_sort conj_commute)

lemma audit_count_due: "audit_count pid evs sys \<le> due pid (set evs) sys"
  by (simp add: audit_count_written due_def)

lemma audit_bound:
  assumes "system_ok sys" and "charged (set evs) sts"
  shows "audit_count pid evs sys \<le> of_bool (has_status pid sts (rows sys))"
  using order_trans [OF audit_count_due system_okD(2) [OF assms]] .

lemma charged_lists:
  "charged (set [EvApproved, EvEditedAndApproved]) {Approved, Applied, Failed}"
  "charged (set [EvRejected]) {Rejected}" "charged (set [EvApplied]) {Applied}" "charged (set [EvExpired]) {Expired}"
  by (simp_all add: charged_def)

lemma audit_count_split: "audit_count pid (evs @ evs') sys \<le> audit_count pid evs sys + audit_count pid evs' sys"
proof -
  have "length (filter (\<lambda>a. auEventType a \<in> set (evs @ evs')) as)
      \<le> length (filter (\<lambda>a. auEventType a \<in> set evs) as) + length (filter (\<lambda>a. auEventType a \<in> set evs') as)"
    for as :: "StoredCacheProposalAudit list"
    by (induction as) auto
  then show ?thesis unfolding audit_count_def .
qed

section \<open>What holds in every reachable state\<close>

lemma decided_once:
  assumes ok: "system_ok sys"
  shows "audit_count pid [EvApproved, EvEditedAndApproved, EvRejected, EvExpired] sys \<le> 1"
    and "audit_count pid [EvApplied] sys \<le> 1"
    and "was_approved pid (rows sys) \<Longrightarrow> audit_count pid [EvRejected, EvExpired] sys = 0"
proof -
  note b = audit_bound [OF ok charged_lists(1), of pid] audit_bound [OF ok charged_lists(2), of pid]
    audit_bound [OF ok charged_lists(3), of pid] audit_bound [OF ok charged_lists(4), of pid]
  note split = audit_count_split [of pid "[EvApproved, EvEditedAndApproved]" "[EvRejected, EvExpired]" sys]
    audit_count_split [of pid "[EvRejected]" "[EvExpired]" sys]
  show "audit_count pid [EvApplied] sys \<le> 1" using b(3)
    by (cases "has_status pid {Applied} (rows sys)") auto
  show "audit_count pid [EvApproved, EvEditedAndApproved, EvRejected, EvExpired] sys \<le> 1"
  proof (cases "status_of pid (rows sys)")
    case None
    with b split show ?thesis by (simp add: has_status_def)
  next
    case (Some st)
    with b split show ?thesis by (cases st) (simp_all add: has_status_def)
  qed
  show "was_approved pid (rows sys) \<Longrightarrow> audit_count pid [EvRejected, EvExpired] sys = 0"
    using b(2,4) split(2) by (auto simp: was_approved_def has_status_def split: option.splits if_splits)
qed

text \<open>A schedule: what happens next, and its execution, to build runs.\<close>

datatype move = Call thread | Propose int CreateCacheProposalInput | Advance nat review_env int | Drop nat

fun do_move :: "proposal_adapter \<Rightarrow> 'w dispatcher \<Rightarrow> move \<Rightarrow> 'w proposal_system \<Rightarrow> 'w proposal_system option" where
  "do_move ad dispatch (Call t) sys = (if starts t then Some (sys \<lparr> threads := threads sys @ [t] \<rparr>) else None)"
| "do_move ad dispatch (Propose now ci) sys =
     (if js_has (proposals (rows sys)) (ciId ci) then None
      else Some (sys \<lparr> rows := snd (adCreate ad now ci (rows sys)) \<rparr>))"
| "do_move ad dispatch (Advance i env now) sys =
     (if i < length (threads sys) then
        case thread_step ad dispatch env now (threads sys ! i) (rows sys) (servers sys) of
          None \<Rightarrow> None
        | Some (t', s', w') \<Rightarrow>
            Some \<lparr> rows = s', servers = w', threads = (threads sys)[i := t'],
                   touched = touched sys @ touches (threads sys ! i) \<rparr>
      else None)"
| "do_move ad dispatch (Drop i) sys =
     (if i < length (threads sys) then Some (sys \<lparr> threads := (threads sys)[i := Done] \<rparr>) else None)"

fun do_moves :: "proposal_adapter \<Rightarrow> 'w dispatcher \<Rightarrow> move list \<Rightarrow> 'w proposal_system \<Rightarrow> 'w proposal_system option" where
  "do_moves ad dispatch [] sys = Some sys"
| "do_moves ad dispatch (m # ms) sys =
     (case do_move ad dispatch m sys of None \<Rightarrow> None | Some sys' \<Rightarrow> do_moves ad dispatch ms sys')"

lemma do_move_step:
  assumes "do_move ad dispatch m sys = Some sys'"
  shows "system_step ad dispatch sys sys'"
proof (cases m)
  case (Call t)
  with assms show ?thesis by (auto intro: called split: if_splits)
next
  case (Propose now ci)
  with assms have new: "\<not> js_has (proposals (rows sys)) (ciId ci)"
    and sys': "sys' = sys \<lparr> rows := snd (adCreate ad now ci (rows sys)) \<rparr>" by (auto split: if_splits)
  show ?thesis unfolding sys' by (rule proposed [OF new prod.collapse [symmetric]])
next
  case (Advance i env now)
  with assms obtain t' s' w' where i: "i < length (threads sys)"
    and st: "thread_step ad dispatch env now (threads sys ! i) (rows sys) (servers sys) = Some (t', s', w')"
    and sys': "sys' = \<lparr> rows = s', servers = w', threads = (threads sys)[i := t'],
      touched = touched sys @ touches (threads sys ! i) \<rparr>"
    by (auto split: if_splits option.splits)
  show ?thesis unfolding sys' by (rule stepped [OF i st])
next
  case (Drop i)
  with assms show ?thesis by (auto intro: dropped split: if_splits)
qed

lemma do_moves_reach:
  "do_moves ad dispatch ms sys = Some sys' \<Longrightarrow> (system_step ad dispatch)\<^sup>*\<^sup>* sys sys'"
proof (induction ms arbitrary: sys)
  case (Cons m ms)
  then obtain sys1 where "do_move ad dispatch m sys = Some sys1" "do_moves ad dispatch ms sys1 = Some sys'"
    by (auto split: option.splits)
  with Cons.IH do_move_step show ?case by (meson converse_rtranclp_into_rtranclp)
qed simp

text \<open>
  C2: whatever calls, timers, crashes and new proposals interleave, over either store, a proposal has
  at most one audit row that decides it (approved, edited and approved, rejected or expired) and at
  most one that says it was applied; and a proposal whose dispatch reached the servers was approved
  and has no rejection and no expiry in its trail.
\<close>

theorem proposal_decided_once:
  assumes "ad = mem_adapter \<or> ad = sql_adapter" and "system_reach ad dispatch w sys"
  shows "audit_count pid [EvApproved, EvEditedAndApproved, EvRejected, EvExpired] sys \<le> 1
    \<and> audit_count pid [EvApplied] sys \<le> 1
    \<and> (pid \<in> set (touched sys) \<longrightarrow>
         was_approved pid (rows sys) \<and> audit_count pid [EvRejected, EvExpired] sys = 0)"
proof -
  have "repo_laws ad" using assms(1) mem_adapter_laws sql_adapter_laws by blast
  from system_ok_reach [OF this assms(2)] have ok: "system_ok sys" .
  show ?thesis using decided_once [OF ok] system_okD(4) [OF ok] by blast
qed

lemma settled_step:
  assumes laws: "repo_laws ad" and ok: "system_ok sys" and step: "system_step ad dispatch sys sys'"
    and ch: "charged evs sts" and st: "has_status pid sts (rows sys)"
  shows "has_status pid sts (rows sys')"
  using step
proof cases
  case (proposed ci now r s')
  from created_status(2) [OF laws proposed(2,3), of pid] st show ?thesis
    unfolding proposed(1) by (auto simp: has_status_def)
next
  case (stepped i env now t' s' w')
  from thread_effect [OF laws system_okD(1) [OF ok] ch stepped(3), of pid] st show ?thesis
    unfolding stepped(1) by (simp add: accounted_def)
qed (use st in simp_all)

lemma settled_steps:
  assumes laws: "repo_laws ad" and ok: "system_ok sys" and steps: "(system_step ad dispatch)\<^sup>*\<^sup>* sys sys'"
    and ch: "charged evs sts" and st: "has_status pid sts (rows sys)"
  shows "has_status pid sts (rows sys')"
proof -
  from steps have "system_ok sys' \<and> has_status pid sts (rows sys')"
  proof (induction rule: rtranclp_induct)
    case base
    with ok st show ?case by blast
  next
    case (step sys1 sys2)
    with system_ok_step [OF laws] settled_step [OF laws _ _ ch] show ?case by blast
  qed
  then show ?thesis by blast
qed

text \<open>
  C15: a proposal that was rejected, expired, applied or failed keeps that status for ever, whatever
  reviews, timers and dispatches of it are still running.
\<close>

theorem settled_proposal_stays:
  assumes "ad = mem_adapter \<or> ad = sql_adapter" and reach: "system_reach ad dispatch w sys"
    and steps: "(system_step ad dispatch)\<^sup>*\<^sup>* sys sys'"
    and "status_of pid (rows sys) = Some st" and "st \<noteq> Pending" and "st \<noteq> Approved"
  shows "status_of pid (rows sys') = Some st"
proof -
  have laws: "repo_laws ad" using assms(1) mem_adapter_laws sql_adapter_laws by blast
  obtain evs where ch: "charged evs {st}" using assms(5,6) by (cases st) (auto simp: charged_def)
  have "has_status pid {st} (rows sys)" using assms(4) by (simp add: has_status_def)
  from settled_steps [OF laws system_ok_reach [OF laws reach] steps ch this] show ?thesis
    by (auto simp: has_status_def split: option.splits)
qed

section \<open>Runs\<close>

definition demo_env :: "string \<Rightarrow> review_env" where
  "demo_env tag = \<lparr> nowChecked = 10, nowReviewed = 10, nowApplied = 11, nowAudited = 12,
     reviewAuditId = tag @ ''-review'', applyAuditId = tag @ ''-apply'', expireAuditId = (\<lambda>pid. tag @ pid) \<rparr>"

definition demo_who :: reviewer where "demo_who = \<lparr> rvActor = Some ''ann'', rvSource = Ui \<rparr>"

text \<open>A server that counts its calls and fails from the second on.\<close>

definition demo_dispatch :: "nat dispatcher" where
  "demo_dispatch p n = Some
     (if n = 0 then Inr \<lparr> aoActualAffected = None, aoDurationMs = 1, aoDetails = [] \<rparr> else Inl (OtherFailure ''down''), Suc n)"

definition schedule_alone :: "move list" where
  "schedule_alone = [Propose 0 (demo_create ''p1'' None), Call (Reading Approving ''p1'' demo_who)]
     @ map (\<lambda>i. Advance 0 (demo_env ''a'') 10) [0..<6::nat]"

definition schedule_overlap :: "move list" where
  "schedule_overlap = [Propose 0 (demo_create ''p1'' None), Call (Reading Approving ''p1'' demo_who),
     Call (Reading Approving ''p1'' demo_who)]
     @ map (\<lambda>i. Advance i (demo_env (if i = 0 then ''a'' else ''b'')) 10) [0, 0, 0, 1, 0, 1, 0, 0, 1, 1]"

definition final_state :: "move list \<Rightarrow> nat proposal_system" where
  "final_state ms = given (do_moves mem_adapter demo_dispatch ms (initial_system 0)) (initial_system 0)"

lemma final_state_reach: "system_reach mem_adapter demo_dispatch 0 (final_state ms)"
proof (cases "do_moves mem_adapter demo_dispatch ms (initial_system 0)")
  case (Some sys)
  with do_moves_reach [OF Some] show ?thesis by (simp add: final_state_def system_reach_def given_def)
qed (simp add: final_state_def system_reach_def given_def)

lemma proposal_decided_once_witness:
  "audit_count ''p1'' [EvApplied] (final_state schedule_alone) = 1
    \<and> audit_count ''p1'' [EvApproved, EvEditedAndApproved, EvRejected, EvExpired] (final_state schedule_alone) \<le> 1"
proof -
  have "audit_count ''p1'' [EvApplied] (final_state schedule_alone) = 1" by code_simp
  moreover have "mem_adapter = mem_adapter \<or> mem_adapter = sql_adapter" by simp
  note proposal_decided_once [OF this final_state_reach, where pid = "''p1''"]
  ultimately show ?thesis by blast
qed

lemma settled_proposal_stays_witness:
  "status_of ''p1'' (rows (final_state schedule_alone)) = Some Applied"
proof -
  have "status_of ''p1'' (rows (final_state schedule_alone)) = Some Applied" by code_simp
  from settled_proposal_stays [OF _ final_state_reach rtranclp.rtrancl_refl this] show ?thesis by blast
qed

section \<open>Two approvals that overlap\<close>

lemma append_fresh:
  assumes ad: "ad = mem_adapter \<or> ad = sql_adapter" and row: "js_has (proposals s) pid" and new: "\<not> js_has (proposalAudit s) aid"
    and app: "append_review ad aid pid event payload who t s = (r, s')"
  shows "proposals s' = proposals s" and "written pid evs s' = written pid evs s + of_bool (event \<in> evs)"
proof -
  let ?a = "\<lparr> auId = aid, auProposalId = pid, auEventType = event, auEventPayload = payload,
       auEventAt = t, auActor = rvActor who, auActorSource = rvSource who \<rparr>"
  have "js_set aid ?a (proposalAudit s) = proposalAudit s @ [(aid, ?a)]"
    using new by (simp add: js_has_iff js_set_new)
  then have s': "s' = s \<lparr> proposalAudit := proposalAudit s @ [(aid, ?a)] \<rparr>"
    using ad row new app
    by (auto simp: append_review_def mem_adapter_def sql_adapter_def mem_appendCacheProposalAudit_def sql_appendCacheProposalAudit_def)
  then show "proposals s' = proposals s" by simp
  show "written pid evs s' = written pid evs s + of_bool (event \<in> evs)" unfolding s' by (simp add: written_def)
qed

text \<open>
  C38: applying is documented as idempotent, and for a proposal that is still being applied it is not.
  In either store, an approval of a proposal whose first approval is under way (its row is approved)
  goes straight on to the dispatch. And when its dispatch fails after the first one has succeeded, it
  leaves the proposal applied and adds a \<open>failed\<close> row to its audit trail.
\<close>

theorem overlapping_approvals_dispatch_twice:
  assumes ad: "ad = mem_adapter \<or> ad = sql_adapter" and "store_ok s"
    and row: "getCacheProposal pid s = Some row" "cpStatus row = Approved"
  shows "thread_step ad dispatch env now (Reading Approving pid who) s w = Some (Dispatching row who, s, w)
    \<and> (\<forall>s1 w1 err. store_ok s1 \<and> status_of pid s1 = Some Applied \<and> \<not> js_has (proposalAudit s1) (applyAuditId env) \<longrightarrow>
         (\<exists>t s2. thread_step ad dispatch env now (Finishing row (Inl err) who) s1 w1 = Some (t, s1, w1)
            \<and> thread_step ad dispatch env now t s1 w1 = Some (Done, s2, w1)
            \<and> status_of pid s2 = Some Applied \<and> written pid {EvFailed} s2 = Suc (written pid {EvFailed} s1)))"
proof -
  have laws: "repo_laws ad" using ad mem_adapter_laws sql_adapter_laws by blast
  have pid: "cpId row = pid"
    using assms(2) row(1) by (auto simp: store_ok_def getCacheProposal_def dest: map_of_SomeD)
  have "thread_step ad dispatch env now (Reading Approving pid who) s w = Some (Dispatching row who, s, w)"
    using row by (simp add: admit_approval_def past_pending_def)
  moreover have "\<exists>t s2. thread_step ad dispatch env now (Finishing row (Inl err) who) s1 w1 = Some (t, s1, w1)
      \<and> thread_step ad dispatch env now t s1 w1 = Some (Done, s2, w1)
      \<and> status_of pid s2 = Some Applied \<and> written pid {EvFailed} s2 = Suc (written pid {EvFailed} s1)"
    if s1: "store_ok s1" "status_of pid s1 = Some Applied" "\<not> js_has (proposalAudit s1) (applyAuditId env)" for s1 w1 err
  proof -
    let ?u = "final_update env pid Failed (failed_result err)"
    obtain p where p: "getCacheProposal pid s1 = Some p" "cpStatus p = Applied" using s1(2) by (auto simp: status_of_def)
    have has: "js_has (proposals s1) pid" using p(1) by (simp add: getCacheProposal_def js_has_def)
    have "\<not> expected ?u p" using p(2) by (simp add: expected_def opt_holds_def final_update_def status_update_def)
    then have miss: "adUpdate ad ?u s1 = (Inr None, s1)"
      using proposal_repo.update_miss [OF laws [unfolded repo_laws_def] s1(1), of ?u] p(1)
      by (simp add: opt_holds_def final_update_def status_update_def)
    define res where "res = failed_result err"
    obtain r s2 where app: "append_review ad (applyAuditId env) pid EvFailed
        (Some [(''applied_result'', result_object res)]) who (nowAudited env) s1 = (r, s2)" by fastforce
    note eff = append_fresh [OF ad has s1(3) app]
    have "thread_step ad dispatch env now (Finishing row (Inl err) who) s1 w1 = Some (AuditingOutcome row EvFailed res who, s1, w1)"
      using miss by (simp add: finish_apply_def pid res_def given_def)
    moreover have "thread_step ad dispatch env now (AuditingOutcome row EvFailed res who) s1 w1 = Some (Done, s2, w1)"
      using app by (simp add: append_outcome_def pid)
    moreover have "status_of pid s2 = Some Applied" using s1(2) eff(1) by (simp add: status_of_def getCacheProposal_def)
    moreover have "written pid {EvFailed} s2 = Suc (written pid {EvFailed} s1)" using eff(2) by simp
    ultimately show ?thesis by blast
  qed
  ultimately show ?thesis by blast
qed

text \<open>
  A run in which this happens: after two moves of the first approval and its audit row the second is
  called, the first dispatch succeeds and the second fails.
\<close>

lemma overlapping_approvals_run:
  "touched (final_state schedule_overlap) = [''p1'', ''p1'']
    \<and> status_of ''p1'' (rows (final_state schedule_overlap)) = Some Applied
    \<and> audit_count ''p1'' [EvApplied] (final_state schedule_overlap) = 1
    \<and> audit_count ''p1'' [EvFailed] (final_state schedule_overlap) = 1"
  by (intro conjI) code_simp+

lemma overlapping_approvals_dispatch_twice_witness:
  "\<exists>row. thread_step mem_adapter demo_dispatch (demo_env ''b'') 10 (Reading Approving ''p1'' demo_who)
     (rows (final_state (take 6 schedule_overlap))) 0
   = Some (Dispatching row demo_who, rows (final_state (take 6 schedule_overlap)), 0)"
proof -
  let ?sys = "final_state (take 6 schedule_overlap)"
  have st: "status_of ''p1'' (rows ?sys) = Some Approved" by code_simp
  then obtain row where row: "getCacheProposal ''p1'' (rows ?sys) = Some row" "cpStatus row = Approved" by (auto simp: status_of_def)
  have ok: "store_ok (rows ?sys)"
    using system_ok_reach [OF mem_adapter_laws final_state_reach] by (simp add: system_ok_def)
  show ?thesis by (intro exI) (rule conjunct1 [OF overlapping_approvals_dispatch_twice [OF disjI1 [OF refl] ok row]])
qed

end
