(* ===== verification/Proposal_Calls.thy ===== *)
theory Proposal_Calls
  imports Proposal_Machine
begin

text \<open>
  The handlers of Proposal_Review as whole calls. Each is what its thread of Proposal_Machine does
  when nothing runs in between, so the facts about the interleaved calls are facts about this code.
  Then what the calls give to one caller: a repeated approval reaches no server, a failed store call
  gives the rate limit slot back, and every stored payload is one its schema accepts.
\<close>

section \<open>A handler is its thread, uninterrupted\<close>

fun run_thread :: "proposal_adapter \<Rightarrow> 'w dispatcher \<Rightarrow> review_env \<Rightarrow> int \<Rightarrow> nat \<Rightarrow> thread \<Rightarrow> proposal_store \<Rightarrow> 'w
    \<Rightarrow> (thread \<times> proposal_store \<times> 'w) option" where
  "run_thread ad dispatch env now 0 t s w = Some (t, s, w)"
| "run_thread ad dispatch env now (Suc n) t s w =
     (case thread_step ad dispatch env now t s w of
        None \<Rightarrow> None
      | Some (t', s', w') \<Rightarrow> run_thread ad dispatch env now n t' s' w')"

lemma run_done [simp]: "run_thread ad dispatch env now n Done s w = Some (Done, s, w)"
  by (induction n) simp_all

definition ends_as :: "(thread \<times> proposal_store \<times> 'w) option \<Rightarrow> ('r \<times> proposal_store \<times> 'w) option \<Rightarrow> bool" where
  "ends_as run call \<longleftrightarrow>
     (case call of None \<Rightarrow> run = None | Some (r, s, w) \<Rightarrow> run = Some (Done, s, w))"

lemma ends_as_simps [simp]:
  "ends_as run None \<longleftrightarrow> run = None" "ends_as run (Some (r, s, w)) \<longleftrightarrow> run = Some (Done, s, w)"
  by (simp_all add: ends_as_def)

text \<open>From the dispatch on.\<close>

lemma apply_run:
  assumes "cpStatus row = Approved"
  shows "ends_as (run_thread ad dispatch env now (Suc (Suc (Suc n))) (Dispatching row who) s w)
    (apply_proposal ad env dispatch row who s w)"
proof (cases "dispatch row w")
  case None
  with assms show ?thesis by (simp add: apply_proposal_def)
next
  case (Some p)
  obtain d w1 where p: "p = (d, w1)" by (cases p)
  obtain r s1 where fin: "finish_apply ad env row d s = (r, s1)" by (cases "finish_apply ad env row d s")
  show ?thesis
  proof (cases r)
    case (Inl e)
    with assms Some p fin show ?thesis by (simp add: apply_proposal_def)
  next
    case (Inr q)
    obtain row' result ev where q: "q = (row', result, ev)" by (cases q)
    with assms Some p fin Inr show ?thesis by (cases ev) (simp_all add: apply_proposal_def)
  qed
qed

lemma runApply_apply:
  "ends_as run (apply_proposal ad env dispatch row who s w) \<Longrightarrow> ends_as run (runApply ad env (Some dispatch) row who s w)"
  by (auto simp: runApply_def Let_def ends_as_def split: option.splits sum.splits prod.splits if_splits)

lemma runApply_run:
  "cpStatus row = Approved \<Longrightarrow>
   ends_as (run_thread ad dispatch env now (Suc (Suc (Suc n))) (Dispatching row who) s w)
     (runApply ad env (Some dispatch) row who s w)"
  by (intro runApply_apply apply_run)

lemma runApply_terminal:
  "cpStatus row = Applied \<or> cpStatus row = Failed \<Longrightarrow>
   \<exists>r. runApply ad env (Some dispatch) row who s w = Some (r, s, w)"
  by (auto simp: runApply_def apply_proposal_def)

lemma resume_run:
  assumes "past_pending (cpStatus row)"
  shows "ends_as (run_thread ad dispatch env now (Suc (Suc (Suc n))) (if cpStatus row = Approved then Dispatching row who else Done) s w)
    (runApply ad env (Some dispatch) row who s w)"
proof (cases "cpStatus row = Approved")
  case True
  with runApply_run [OF True] show ?thesis by simp
next
  case False
  with assms have "cpStatus row = Applied \<or> cpStatus row = Failed" by (auto simp: past_pending_def)
  from runApply_terminal [OF this, of ad env dispatch who s w] obtain r
    where "runApply ad env (Some dispatch) row who s w = Some (r, s, w)" by blast
  with False show ?thesis by simp
qed

text \<open>A row that an update returns has the status that was asked for.\<close>

lemma updated_status:
  assumes laws: "repo_laws ad" and ok: "store_ok s" and u: "uiStatus u \<noteq> Pending" "uiExpected u = Some [before]"
    and call: "adUpdate ad u s = (Inr (Some row), s')"
  shows "cpStatus row = uiStatus u" and "cpId row = uiId u"
proof -
  have "cpStatus row = uiStatus u \<and> cpId row = uiId u"
    by (rule update_effect [OF laws ok u call]) auto
  then show "cpStatus row = uiStatus u" "cpId row = uiId u" by blast+
qed

lemma review_update_fields [simp]:
  "uiStatus (review_update env pid st who payload) = st" "uiExpected (review_update env pid st who payload) = Some [Pending]"
  "uiId (review_update env pid st who payload) = pid"
  by (simp_all add: review_update_def status_update_def)

lemma approve_run:
  assumes laws: "repo_laws ad" and ok: "store_ok s"
  shows "ends_as (run_thread ad dispatch env now 6 (Reading Approving pid who) s w)
    (approve ad env (Some dispatch) pid who s w)"
proof -
  have six: "(6::nat) = Suc (Suc (Suc (Suc (Suc (Suc 0)))))" by simp
  note def = approve_def transitionToApproved_def
  show ?thesis
  proof (cases "admit_approval env pid (getCacheProposal pid s)")
    case (Inl e)
    then show ?thesis unfolding six by (simp add: def)
  next
    case (Inr q)
    obtain existing goes where q: "q = (existing, goes)" by (cases q)
    show ?thesis
    proof (cases goes)
      case False
      with Inr q have past: "past_pending (cpStatus existing)"
        by (auto simp: admit_approval_def split: option.splits if_splits)
      have "run_thread ad dispatch env now 6 (Reading Approving pid who) s w
          = run_thread ad dispatch env now (Suc (Suc (Suc (Suc (Suc 0)))))
              (if cpStatus existing = Approved then Dispatching existing who else Done) s w"
        unfolding six using Inr q False by simp
      moreover have "approve ad env (Some dispatch) pid who s w = runApply ad env (Some dispatch) existing who s w"
        using Inr q False by (simp add: def)
      ultimately show ?thesis
        using resume_run [OF past, of ad dispatch env now "Suc (Suc 0)" who s w] by (simp only:)
    next
      case True
      let ?u = "review_update env (cpId existing) Approved who None"
      obtain r s1 where up: "adUpdate ad ?u s = (r, s1)" by (cases "adUpdate ad ?u s")
      consider (err) e where "r = Inl e" | (lost) "r = Inr None" | (won) row where "r = Inr (Some row)"
        by (cases r; cases "projr r") auto
      then show ?thesis
      proof cases
        case err
        with Inr q True up show ?thesis unfolding six by (simp add: def)
      next
        case lost
        show ?thesis
        proof (cases "lost_approval pid (getCacheProposal pid s1)")
          case (Inl e)
          with lost \<open>admit_approval env pid (getCacheProposal pid s) = Inr q\<close> q True up
          show ?thesis unfolding six by (simp add: def)
        next
          case (Inr reread)
          then have past: "past_pending (cpStatus reread)"
            by (auto simp: lost_approval_def split: option.splits if_splits)
          have "run_thread ad dispatch env now 6 (Reading Approving pid who) s w
              = run_thread ad dispatch env now (Suc (Suc (Suc 0)))
                  (if cpStatus reread = Approved then Dispatching reread who else Done) s1 w"
            unfolding six using lost \<open>admit_approval env pid (getCacheProposal pid s) = Inr q\<close> q True up Inr by simp
          moreover have "approve ad env (Some dispatch) pid who s w = runApply ad env (Some dispatch) reread who s1 w"
            using lost \<open>admit_approval env pid (getCacheProposal pid s) = Inr q\<close> q True up Inr by (simp add: def)
          ultimately show ?thesis
            using resume_run [OF past, of ad dispatch env now 0 who s1 w] by (simp only:)
        qed
      next
        case won
        obtain a s2 where app: "append_review ad (reviewAuditId env) (cpId row) EvApproved None who (nowReviewed env) s1 = (a, s2)"
          by (cases "append_review ad (reviewAuditId env) (cpId row) EvApproved None who (nowReviewed env) s1")
        have st: "cpStatus row = Approved" using updated_status(1) [OF laws ok _ _ up [unfolded won]] by simp
        show ?thesis
        proof (cases a)
          case (Inl e)
          with won Inr q True up app show ?thesis unfolding six by (simp add: def)
        next
          case (Inr a')
          have "run_thread ad dispatch env now 6 (Reading Approving pid who) s w
              = run_thread ad dispatch env now (Suc (Suc (Suc 0))) (Dispatching row who) s2 w"
            unfolding six using won \<open>admit_approval env pid (getCacheProposal pid s) = Inr q\<close> q True up app Inr
            by (simp add: applies_def)
          moreover have "approve ad env (Some dispatch) pid who s w = runApply ad env (Some dispatch) row who s2 w"
            using won \<open>admit_approval env pid (getCacheProposal pid s) = Inr q\<close> q True up app Inr by (simp add: def)
          ultimately show ?thesis
            using runApply_run [OF st, of ad dispatch env now 0 who s2 w] by (simp only:)
        qed
      qed
    qed
  qed
qed

lemma reject_run:
  "ends_as (run_thread ad dispatch env now 4 (Reading (Rejecting reason) pid who) s w)
    (case reject ad env pid reason who s of (r, s') \<Rightarrow> Some (r, s', w))"
proof -
  have four: "(4::nat) = Suc (Suc (Suc (Suc 0)))" by simp
  show ?thesis
  proof (cases "requireFreshPending env pid (getCacheProposal pid s)")
    case (Inl e)
    then show ?thesis unfolding four by (simp add: reject_def)
  next
    case (Inr existing)
    let ?u = "review_update env (cpId existing) Rejected who None"
    obtain r s1 where up: "adUpdate ad ?u s = (r, s1)" by (cases "adUpdate ad ?u s")
    consider (err) e where "r = Inl e" | (lost) "r = Inr None" | (won) row where "r = Inr (Some row)"
      by (cases r; cases "projr r") auto
    then show ?thesis
    proof cases
      case err
      with Inr up show ?thesis unfolding four by (simp add: reject_def)
    next
      case lost
      with Inr up show ?thesis unfolding four by (simp add: reject_def)
    next
      case won
      obtain a s2 where app: "append_review ad (reviewAuditId env) (cpId row) EvRejected (reject_payload reason) who
          (nowReviewed env) s1 = (a, s2)"
        by (cases "append_review ad (reviewAuditId env) (cpId row) EvRejected (reject_payload reason) who (nowReviewed env) s1")
      with Inr up won show ?thesis unfolding four by (cases a) (simp_all add: reject_def applies_def)
    qed
  qed
qed

lemma edit_run:
  assumes laws: "repo_laws ad" and ok: "store_ok s"
  shows "ends_as (run_thread ad dispatch env now 6 (Reading (Editing ed) pid who) s w)
    (editAndApprove ad env (Some dispatch) pid ed who s w)"
proof -
  have six: "(6::nat) = Suc (Suc (Suc (Suc (Suc (Suc 0)))))" by simp
  show ?thesis
  proof (cases "requireFreshPending env pid (getCacheProposal pid s)")
    case (Inl e)
    then show ?thesis unfolding six by (simp add: editAndApprove_def)
  next
    case read: (Inr existing)
    show ?thesis
    proof (cases "edited_payload ed existing")
      case (Inl e)
      with read show ?thesis unfolding six by (simp add: editAndApprove_def)
    next
      case edit: (Inr payload)
      let ?u = "review_update env (cpId existing) Approved who (Some payload)"
      obtain r s1 where up: "adUpdate ad ?u s = (r, s1)" by (cases "adUpdate ad ?u s")
      consider (err) e where "r = Inl e" | (lost) "r = Inr None" | (won) row where "r = Inr (Some row)"
        by (cases r; cases "projr r") auto
      then show ?thesis
      proof cases
        case err
        with read edit up show ?thesis unfolding six by (simp add: editAndApprove_def)
      next
        case lost
        with read edit up show ?thesis unfolding six by (simp add: editAndApprove_def)
      next
        case won
        obtain a s2 where app: "append_review ad (reviewAuditId env) (cpId row) EvEditedAndApproved (edits_payload ed) who
            (nowReviewed env) s1 = (a, s2)"
          by (cases "append_review ad (reviewAuditId env) (cpId row) EvEditedAndApproved (edits_payload ed) who (nowReviewed env) s1")
        have st: "cpStatus row = Approved" using updated_status(1) [OF laws ok _ _ up [unfolded won]] by simp
        show ?thesis
        proof (cases a)
          case (Inl e)
          with read edit won up app show ?thesis unfolding six by (simp add: editAndApprove_def)
        next
          case (Inr a')
          have "run_thread ad dispatch env now 6 (Reading (Editing ed) pid who) s w
              = run_thread ad dispatch env now (Suc (Suc (Suc 0))) (Dispatching row who) s2 w"
            unfolding six using read edit won up app Inr by (simp add: applies_def)
          moreover have "editAndApprove ad env (Some dispatch) pid ed who s w = runApply ad env (Some dispatch) row who s2 w"
            using read edit won up app Inr by (simp add: editAndApprove_def)
          ultimately show ?thesis
            using runApply_run [OF st, of ad dispatch env now 0 who s2 w] by (simp only:)
        qed
      qed
    qed
  qed
qed

lemma audit_expired_run:
  "run_thread ad dispatch env now (Suc (length ps)) (AuditingExpired t ps source) s w
    = Some (Done, audit_expired ad env t source ps s, w)"
  by (induction ps arbitrary: s) simp_all

lemma expire_run:
  assumes "expireProposals ad env now source s = (r, s')"
  shows "\<exists>n. run_thread ad dispatch env now n (Expiring source) s w = Some (Done, s', w)"
proof -
  obtain q s1 where ex: "adExpire ad now s = (q, s1)" by (cases "adExpire ad now s")
  show ?thesis
  proof (cases q)
    case (Inl e)
    with assms ex have "run_thread ad dispatch env now (Suc 0) (Expiring source) s w = Some (Done, s', w)"
      by (simp add: expireProposals_def)
    then show ?thesis by blast
  next
    case (Inr expired)
    with assms ex audit_expired_run [of ad dispatch env now expired now source s1 w]
    have "run_thread ad dispatch env now (Suc (Suc (length expired))) (Expiring source) s w = Some (Done, s', w)"
      by (simp add: expireProposals_def)
    then show ?thesis by blast
  qed
qed

text \<open>
  on a well-formed store, each handler of the service (approve, reject, edit and approve) does
  exactly what its thread does when no other call runs between its awaits, and it returns when the
  thread does.
\<close>

theorem handlers_are_uninterrupted_threads:
  assumes "ad = mem_adapter \<or> ad = sql_adapter" and "store_ok s"
  shows "ends_as (run_thread ad dispatch env now 6 (Reading Approving pid who) s w)
      (approve ad env (Some dispatch) pid who s w)
    \<and> ends_as (run_thread ad dispatch env now 4 (Reading (Rejecting reason) pid who) s w)
      (case reject ad env pid reason who s of (r, s') \<Rightarrow> Some (r, s', w))
    \<and> ends_as (run_thread ad dispatch env now 6 (Reading (Editing ed) pid who) s w)
      (editAndApprove ad env (Some dispatch) pid ed who s w)"
proof -
  have laws: "repo_laws ad" using assms(1) mem_adapter_laws sql_adapter_laws by blast
  show ?thesis by (intro conjI approve_run [OF laws assms(2)] reject_run edit_run [OF laws assms(2)])
qed

definition demo_store :: proposal_store where
  "demo_store = run_ops mem_adapter demo_ops empty_store"

lemma demo_store_ok: "store_ok demo_store"
  unfolding demo_store_def by (rule run_ops_ok [OF mem_adapter_laws empty_store_ok demo_ops_ok])

lemma handlers_are_uninterrupted_threads_witness:
  "ends_as (run_thread mem_adapter demo_dispatch (demo_env ''a'') 10 6 (Reading Approving ''p1'' demo_who) demo_store 0)
    (approve mem_adapter (demo_env ''a'') (Some demo_dispatch) ''p1'' demo_who demo_store 0)"
  using handlers_are_uninterrupted_threads [OF _ demo_store_ok, of mem_adapter demo_dispatch "demo_env ''a''" 10 "''p1''" demo_who 0]
  by blast

section \<open>A repeated approval\<close>

text \<open>
  The row a successful or failed application leaves behind, and what approving it again does.
\<close>

lemma get_after_audit:
  assumes laws: "repo_laws ad" and ok: "store_ok s"
  shows "getCacheProposal i (append_outcome ad env pid event result who s) = getCacheProposal i s"
proof -
  define a where "a = append_review ad (applyAuditId env) pid event (Some [(''applied_result'', result_object result)]) who
    (nowAudited env) s"
  have "append_review ad (applyAuditId env) pid event (Some [(''applied_result'', result_object result)]) who
    (nowAudited env) s = (fst a, snd a)" by (simp add: a_def)
  from append_effect(2) [OF laws ok this] show ?thesis
    by (simp add: append_outcome_def getCacheProposal_def a_def)
qed

lemma approve_settled:
  assumes "getCacheProposal pid s = Some row" and "cpStatus row = Applied \<or> cpStatus row = Failed"
  shows "approve ad env (Some dispatch) pid who s w = Some (Inr (row, Some (stored_result row)), s, w)"
proof -
  have "admit_approval env pid (Some row) = Inr (row, False)"
    using assms(2) by (auto simp: admit_approval_def past_pending_def)
  then show ?thesis using assms by (auto simp: approve_def transitionToApproved_def runApply_def apply_proposal_def)
qed

text \<open>
  C17: approving a proposal that was applied or has failed reaches no server, changes nothing, and
  answers with the stored row and its result: an approval repeated after the first one has finished
  is idempotent, also when the first ended in an error.
\<close>

theorem repeated_approval_is_idempotent:
  assumes "status_of pid s = Some Applied \<or> status_of pid s = Some Failed"
  shows "\<exists>row. getCacheProposal pid s = Some row
    \<and> approve ad env (Some dispatch) pid who s w = Some (Inr (row, Some (stored_result row)), s, w)"
proof -
  obtain row where row: "getCacheProposal pid s = Some row" "cpStatus row = Applied \<or> cpStatus row = Failed"
    using assms by (auto simp: status_of_def)
  show ?thesis by (intro exI [of _ row] conjI row(1) approve_settled [OF row])
qed

lemma repeated_approval_is_idempotent_witness:
  "\<exists>row. getCacheProposal ''p1'' (rows (final_state schedule_alone)) = Some row
    \<and> approve mem_adapter (demo_env ''b'') (Some demo_dispatch) ''p1'' demo_who (rows (final_state schedule_alone)) 1
      = Some (Inr (row, Some (stored_result row)), rows (final_state schedule_alone), 1)"
proof -
  have st: "status_of ''p1'' (rows (final_state schedule_alone)) = Some Applied" by code_simp
  show ?thesis by (rule repeated_approval_is_idempotent [OF disjI1 [OF st]])
qed

section \<open>Stored payloads parse\<close>

definition typed_row :: "StoredCacheProposal \<Rightarrow> bool" where
  "typed_row p \<longleftrightarrow> variant_parses (cpCacheType p) (cpProposalType p) (cpPayload p)"

definition typed_input :: "CreateCacheProposalInput \<Rightarrow> bool" where
  "typed_input ci \<longleftrightarrow> variant_parses (ciCacheType ci) (ciProposalType ci) (ciPayload ci)"

fun op_typed :: "proposal_op \<Rightarrow> bool" where
  "op_typed (OpCreate now ci) \<longleftrightarrow> typed_input ci"
| "op_typed _ \<longleftrightarrow> True"

definition typed_store :: "proposal_store \<Rightarrow> bool" where
  "typed_store s \<longleftrightarrow> (\<forall>(k, p) \<in> set (proposals s). typed_row p)"

lemma apply_status_typed:
  assumes "typed_row p" "payload_ok u p"
  shows "typed_row (apply_status u p)"
  using assms by (cases "uiPayload u") (simp_all add: typed_row_def payload_ok_def opt_holds_def apply_status_def given_def)

lemma run_op_typed:
  assumes laws: "repo_laws ad" and ok: "store_ok s" and op: "op_ok op s" "op_typed op" and ty: "typed_store s"
  shows "typed_store (run_op ad op s)"
proof -
  note laws' = laws [unfolded repo_laws_def]
  show ?thesis
  proof (cases op)
    case (OpCreate now ci)
    obtain r s' where call: "adCreate ad now ci s = (r, s')" by (cases "adCreate ad now ci s")
    show ?thesis
    proof (cases r)
      case (Inl e)
      with proposal_repo.create_error [OF laws'] call have "s' = s" by blast
      with OpCreate call ty show ?thesis by simp
    next
      case (Inr p)
      have new: "\<not> js_has (proposals s) (ciId ci)" using op(1) OpCreate by simp
      from proposal_repo.create_row [OF laws' call [unfolded Inr] new]
      have p: "p = new_row now ci" and s': "s' = s \<lparr> proposals := proposals s @ [(cpId p, p)] \<rparr>" by blast+
      have "typed_row p" using op(2) OpCreate by (simp add: p typed_row_def typed_input_def new_row_def Let_def)
      with OpCreate call s' ty show ?thesis by (simp add: typed_store_def)
    qed
  next
    case (OpUpdate u)
    then have leaves: "uiStatus u \<noteq> Pending" using op(1) by simp
    show ?thesis
    proof (rule proposal_repo.update_cases [OF laws' ok leaves])
      fix p
      assume hit: "getCacheProposal (uiId u) s = Some p" "payload_ok u p"
        "adUpdate ad u s = (Inr (Some (apply_status u p)), s \<lparr> proposals := js_set (uiId u) (apply_status u p) (proposals s) \<rparr>)"
      have "typed_row p" using hit(1) ty unfolding getCacheProposal_def typed_store_def by (auto dest: map_of_SomeD)
      from apply_status_typed [OF this hit(2)] have new: "typed_row (apply_status u p)" .
      have "typed_row q" if "(k, q) \<in> set (js_set (uiId u) (apply_status u p) (proposals s))" for k q
        using subsetD [OF set_js_set that] new ty by (auto simp: typed_store_def)
      with OpUpdate hit(3) show ?thesis by (auto simp: typed_store_def)
    qed (use OpUpdate ty in simp_all)
  next
    case (OpExpire now)
    have keep: "typed_row (expire_row p) = typed_row p" for p by (simp add: typed_row_def expire_row_def)
    from OpExpire ty proposal_repo.expire_all [OF laws' ok, of now] show ?thesis
      by (auto simp: typed_store_def keep)
  next
    case (OpAudit a)
    obtain r s' where call: "adAppend ad a s = (r, s')" by (cases "adAppend ad a s")
    have "proposals s' = proposals s"
    proof (cases r)
      case (Inl e)
      with proposal_repo.append_error [OF laws'] call show ?thesis by blast
    next
      case (Inr a')
      with proposal_repo.append_ok [OF laws' call [unfolded Inr]] show ?thesis by simp
    qed
    with OpAudit call ty show ?thesis by (simp add: typed_store_def)
  qed
qed

lemma run_ops_typed:
  "repo_laws ad \<Longrightarrow> store_ok s \<Longrightarrow> ops_ok ad ops s \<Longrightarrow> list_all op_typed ops \<Longrightarrow> typed_store s
    \<Longrightarrow> typed_store (run_ops ad ops s)"
  by (induction ops arbitrary: s) (simp_all add: run_op_ok run_op_typed)

lemma empty_store_typed [simp]: "typed_store empty_store"
  by (simp add: typed_store_def empty_store_def)

text \<open>What the three ways to propose hand to the store.\<close>

lemma proposed_inputs_typed:
  "proposeThresholdAdjust pr category new cache current s = Inr ci \<Longrightarrow> typed_input ci"
  "proposeToolTtlAdjust pr tool new cache current s = Inr ci \<Longrightarrow> typed_input ci"
  "proposeInvalidate pr filt estimated cache = Inr (ci, w) \<Longrightarrow> typed_input ci"
  by (auto simp: proposeThresholdAdjust_def proposeToolTtlAdjust_def proposeInvalidate_def typed_input_def
      proposal_input_def Let_def dest: schema_parses
      split: if_splits option.splits prod.splits CacheType.splits invalidate_filter.splits)

text \<open>
  Everything that writes a proposal row: the three propose calls, whose checks read the store at some
  earlier moment \<open>s0\<close> and whose input goes through \<open>persist\<close>, the status updates of the reviews (an
  edit carries new values), the expiry and the audit trail.
\<close>

definition proposed :: "CreateCacheProposalInput \<Rightarrow> bool" where
  "proposed ci \<longleftrightarrow>
     (\<exists>pr category new cache current s0. proposeThresholdAdjust pr category new cache current s0 = Inr ci)
     \<or> (\<exists>pr tool new cache current s0. proposeToolTtlAdjust pr tool new cache current s0 = Inr ci)
     \<or> (\<exists>pr filt estimated cache warns. proposeInvalidate pr filt estimated cache = Inr (ci, warns))"

inductive proposal_write :: "proposal_adapter \<Rightarrow> proposal_store \<Rightarrow> proposal_store \<Rightarrow> bool" for ad where
  "proposed ci \<Longrightarrow> \<not> js_has (proposals s) uuid \<Longrightarrow> persist ad ts ts' conn proposedAt uuid ci rl s = Some (r, rl', s')
    \<Longrightarrow> proposal_write ad s s'"
| "uiStatus u \<noteq> Pending \<Longrightarrow> adUpdate ad u s = (r, s') \<Longrightarrow> proposal_write ad s s'"
| "adExpire ad now s = (r', s') \<Longrightarrow> proposal_write ad s s'"
| "adAppend ad a s = (r'', s') \<Longrightarrow> proposal_write ad s s'"

lemma proposed_typed: "proposed ci \<Longrightarrow> typed_input ci"
  unfolding proposed_def using proposed_inputs_typed by blast

lemma persist_store:
  assumes "persist ad ts ts' conn proposedAt uuid args rl s = Some (r, rl', s')"
  shows "s' = s \<or> (\<exists>ci. s' = run_op ad (OpCreate proposedAt ci) s \<and> ciId ci = uuid \<and> typed_input ci = typed_input args)"
proof -
  define ci where "ci = args \<lparr> ciId := uuid, ciConnectionId := conn, ciProposedAt := Some proposedAt,
    ciExpiresAt := Some (proposedAt + PROPOSAL_DEFAULT_EXPIRY_MS) \<rparr>"
  have "s' = s \<or> s' = run_op ad (OpCreate proposedAt ci) s"
    using assms by (auto simp: persist_def Let_def ci_def [symmetric] split: option.splits prod.splits sum.splits if_splits)
  moreover have "ciId ci = uuid" "typed_input ci = typed_input args" by (simp_all add: ci_def typed_input_def)
  ultimately show ?thesis by blast
qed

lemma typed_table_check: "typed_input ci \<Longrightarrow> table_check (new_row now ci)"
  by (cases "ciCacheType ci"; cases "ciProposalType ci"; cases "ciPayload ci")
    (simp_all add: typed_input_def variant_parses_def table_check_def new_row_def Let_def)

lemma run_op_kept:
  assumes "repo_laws ad" and "store_ok s" "typed_store s" and "op_ok op s" "op_typed op"
  shows "store_ok (run_op ad op s) \<and> typed_store (run_op ad op s)"
  using run_op_ok [OF assms(1,2,4)] run_op_typed [OF assms(1,2,4,5,3)] by blast

lemma proposal_write_typed:
  assumes laws: "repo_laws ad" and "proposal_write ad s s'" and ok: "store_ok s" "typed_store s"
  shows "store_ok s' \<and> typed_store s'"
  using assms(2)
proof cases
  case (1 ci uuid ts ts' conn proposedAt rl r rl')
  from persist_store [OF 1(3)] consider "s' = s"
    | ci' where "s' = run_op ad (OpCreate proposedAt ci') s" "ciId ci' = uuid" "typed_input ci'"
    using proposed_typed [OF 1(1)] by blast
  then show ?thesis
  proof cases
    case 2
    with run_op_kept [OF laws ok, of "OpCreate proposedAt ci'"] typed_table_check [of ci'] 1(2) show ?thesis by simp
  qed (use ok in simp)
next
  case (2 u r)
  with run_op_kept [OF laws ok, of "OpUpdate u"] show ?thesis by simp
next
  case (3 now r')
  with run_op_kept [OF laws ok, of "OpExpire now"] show ?thesis by simp
next
  case (4 a r'')
  have "proposals s' = proposals s"
    using 4 proposal_repo.append_error [OF laws [unfolded repo_laws_def], of a s]
      proposal_repo.append_ok [OF laws [unfolded repo_laws_def], of a s]
    by (cases r'') auto
  then show ?thesis
    using ok proposal_repo.append_store_ok [OF laws [unfolded repo_laws_def] ok(1) 4] by (simp add: typed_store_def)
qed

text \<open>
  C18: every payload in either store is one that the schema of its cache and proposal type accepts
  (a threshold between 0 and 2, a TTL of 10 to 86400 seconds for a named tool, a non-empty filter with
  a count of affected entries that is a natural number), whatever numbers and texts the three
  propose calls are given: a proposal gets into the store through one of them only, and no sequence
  of their writes, status updates with or without edited values, expiries and audit rows leaves
  another payload.
\<close>

theorem stored_payloads_parse:
  assumes "ad = mem_adapter \<or> ad = sql_adapter" and "(proposal_write ad)\<^sup>*\<^sup>* empty_store s"
    and "getCacheProposal pid s = Some p"
  shows "variant_parses (cpCacheType p) (cpProposalType p) (cpPayload p)"
proof -
  have laws: "repo_laws ad" using assms(1) mem_adapter_laws sql_adapter_laws by blast
  from assms(2) have "store_ok s \<and> typed_store s"
    by (induction rule: rtranclp_induct) (use proposal_write_typed [OF laws] in auto)
  then show ?thesis
    using assms(3) unfolding getCacheProposal_def typed_store_def typed_row_def by (auto dest: map_of_SomeD)
qed

definition demo_proposing :: proposing where
  "demo_proposing = \<lparr> prConnectionId = ''conn'', prCacheName = ''cache'',
     prReasoning = ''hit rate is far too low'', prProposedBy = None \<rparr>"

definition demo_persist :: "((CacheProposalError + StoredCacheProposal) \<times> rate_limiter \<times> proposal_store) option" where
  "demo_persist =
     (case proposeThresholdAdjust demo_proposing None (Num 1) (Some SemanticCache) (Num (1 / 2)) empty_store of
        Inl e \<Rightarrow> None
      | Inr ci \<Rightarrow> persist mem_adapter 0 0 ''conn'' 0 ''p1'' ci (new_limiter PROPOSAL_RATE_LIMIT PROPOSAL_RATE_WINDOW_MS) empty_store)"

lemma stored_payloads_parse_witness:
  "\<exists>r rl s p. demo_persist = Some (r, rl, s) \<and> getCacheProposal ''p1'' s = Some p \<and> cpCacheType p = SemanticCache
    \<and> variant_parses SemanticCache (cpProposalType p) (cpPayload p)"
proof -
  have run: "map_option (\<lambda>(r, rl, s). map_option cpCacheType (getCacheProposal ''p1'' s)) demo_persist = Some (Some SemanticCache)"
    by code_simp
  then obtain r rl s p where call: "demo_persist = Some (r, rl, s)" and row: "getCacheProposal ''p1'' s = Some p"
    and st: "cpCacheType p = SemanticCache" by auto
  obtain ci where ci: "proposeThresholdAdjust demo_proposing None (Num 1) (Some SemanticCache) (Num (1 / 2)) empty_store = Inr ci"
    and per: "persist mem_adapter 0 0 ''conn'' 0 ''p1'' ci (new_limiter PROPOSAL_RATE_LIMIT PROPOSAL_RATE_WINDOW_MS) empty_store
      = Some (r, rl, s)"
    using call unfolding demo_persist_def by (auto split: sum.splits)
  have "proposed ci" unfolding proposed_def using ci by blast
  then have "proposal_write mem_adapter empty_store s"
    by (rule proposal_write.intros(1) [OF _ _ per]) (simp add: empty_store_def js_has_def)
  then have "(proposal_write mem_adapter)\<^sup>*\<^sup>* empty_store s" by (rule r_into_rtranclp)
  from stored_payloads_parse [OF disjI1 [OF refl] this row] call row st show ?thesis by auto
qed

section \<open>The rate limit slot of a proposal\<close>

definition keeps_slot :: "CacheProposalError + StoredCacheProposal \<Rightarrow> bool" where
  "keeps_slot r \<longleftrightarrow> (case r of Inr p \<Rightarrow> True | Inl e \<Rightarrow> (case e of DuplicatePendingProposalError c t \<Rightarrow> True | _ \<Rightarrow> False))"

lemma filter_own_token:
  "distinct (map beToken (es @ [e])) \<Longrightarrow> filter (\<lambda>x. beToken x \<noteq> beToken e) (es @ [e]) = es"
proof -
  assume "distinct (map beToken (es @ [e]))"
  then have "beToken e \<notin> beToken ` set es" by simp
  then have "filter (\<lambda>x. beToken x \<noteq> beToken e) es = es" by (intro filter_True) (metis imageI)
  then show ?thesis by simp
qed

text \<open>
  a proposal that was admitted by the rate limiter occupies its slot when it was stored and when
  the store already held a pending one for the same change; when the store failed for another reason
  the slot is given back, and the bucket is as if the call had never been made.
\<close>

theorem failed_store_refunds_slot:
  assumes time: "sorted (clocks evs @ [ts, ts'])"
    and run: "rl_run evs (new_limiter PROPOSAL_RATE_LIMIT PROPOSAL_RATE_WINDOW_MS) = (rl, grants)"
    and driver: "\<forall>now ci s. case fst (adCreate ad now ci s) of Inl e \<Rightarrow> \<exists>d. e = StorageError d | Inr p \<Rightarrow> True"
    and admitted: "reserve ts ts' conn rl = Some (res, rl1)" "allowed res"
    and call: "persist ad ts ts' conn proposedAt uuid args rl s = Some (r, rl', s')"
  shows "bucket rl' conn
    = (let left = fresh (ts' - PROPOSAL_RATE_WINDOW_MS) (fresh (ts - PROPOSAL_RATE_WINDOW_MS) (bucket rl conn))
       in if keeps_slot r then left @ [\<lparr> beTs = ts', beToken = nextToken rl \<rparr>] else left)"
proof -
  let ?w = PROPOSAL_RATE_WINDOW_MS
  define left where "left = fresh (ts' - ?w) (fresh (ts - ?w) (bucket rl conn))"
  obtain now where ok: "run_ok PROPOSAL_RATE_LIMIT ?w now (rl, grants)" and now: "now \<le> ts" "ts \<le> ts'"
    using run_ok_any [OF time, of PROPOSAL_RATE_LIMIT ?w] run time by (auto simp: sorted_append)
  have w: "rlWindowMs rl = ?w" using ok by (simp add: run_ok_def)
  obtain r1 rl0 where chk: "check ts conn rl = Some (r1, rl0)" and token: "releaseToken res = Some (nextToken rl)"
    and rec: "rl_record ts' conn rl0 = (nextToken rl, rl1)"
    using admitted by (auto elim: reserve_cases)
  have nt: "nextToken rl0 = nextToken rl" using check_spec(5) [OF chk] .
  have full: "bucket rl1 conn = left @ [\<lparr> beTs = ts', beToken = nextToken rl \<rparr>]"
    using record_spec(3) [OF rec, of conn] check_spec(2) [OF chk, of conn] check_spec(4) [OF chk] w nt by (simp add: left_def)
  have "distinct (map beToken (bucket rl1 conn))"
  proof -
    have "run_ok PROPOSAL_RATE_LIMIT ?w ts' (rl1, grants @ [(conn, \<lparr> beTs = ts', beToken = nextToken rl \<rparr>)])"
      using run_ok_reserve [OF ok now, of conn] admitted(1) token by simp
    then have "key_ok PROPOSAL_RATE_LIMIT ?w ts' (nextToken rl1)
        (granted conn (grants @ [(conn, \<lparr> beTs = ts', beToken = nextToken rl \<rparr>)])) (bucket rl1 conn)"
      by (rule run_ok_key)
    then show ?thesis by (rule key_okD) simp
  qed
  note dist = this
  have refund: "bucket (release conn (nextToken rl) rl1) conn = left"
    using release_spec [OF dist, of "nextToken rl" conn]
      filter_own_token [OF dist [unfolded full]] by (simp add: full)
  let ?ci = "args \<lparr> ciId := uuid, ciConnectionId := conn, ciProposedAt := Some proposedAt,
    ciExpiresAt := Some (proposedAt + PROPOSAL_DEFAULT_EXPIRY_MS) \<rparr>"
  obtain q s1 where cr: "adCreate ad proposedAt ?ci s = (q, s1)" by (cases "adCreate ad proposedAt ?ci s")
  show ?thesis
  proof (cases q)
    case (Inl e)
    from driver [rule_format, of proposedAt ?ci s] obtain d where e: "e = StorageError d" using cr Inl by auto
    show ?thesis
      using call admitted token cr Inl e refund full
      by (cases "means_duplicate e") (auto simp: persist_def keeps_slot_def left_def Let_def)
  next
    case (Inr p)
    with call admitted cr full show ?thesis by (auto simp: persist_def keeps_slot_def left_def Let_def)
  qed
qed

definition broken_adapter :: proposal_adapter where
  "broken_adapter = mem_adapter \<lparr> adCreate := (\<lambda>now ci s. (Inl (driver_error None ''disk full''), s)) \<rparr>"

lemma failed_store_refunds_slot_witness:
  "case persist broken_adapter 5 5 ''conn'' 5 ''u1'' (demo_create ''x'' None)
      (new_limiter PROPOSAL_RATE_LIMIT PROPOSAL_RATE_WINDOW_MS) empty_store of
     None \<Rightarrow> False
   | Some (r, rl', s') \<Rightarrow> \<not> keeps_slot r \<and> bucket rl' ''conn'' = []"
proof -
  let ?rl = "new_limiter PROPOSAL_RATE_LIMIT PROPOSAL_RATE_WINDOW_MS"
  obtain res rl1 where adm: "reserve 5 5 ''conn'' ?rl = Some (res, rl1)" "allowed res" "releaseToken res = Some 1"
    by (simp add: reserve_def check_def prune_def rl_record_def new_limiter_def js_get_or_def Let_def
        PROPOSAL_RATE_LIMIT_def PROPOSAL_RATE_WINDOW_MS_def)
  have dup: "\<not> means_duplicate (driver_error None ''disk full'')" by code_simp
  have call: "persist broken_adapter 5 5 ''conn'' 5 ''u1'' (demo_create ''x'' None) ?rl empty_store
      = Some (Inl (driver_error None ''disk full''), release ''conn'' 1 rl1, empty_store)"
    using adm dup by (simp add: persist_def broken_adapter_def Let_def)
  have "rl_run [] ?rl = (?rl, [])" by (simp add: rl_run_def)
  moreover have "sorted (clocks [] @ [5::int, 5])" by (simp add: clocks_def)
  moreover have "\<forall>now ci s. case fst (adCreate broken_adapter now ci s) of Inl e \<Rightarrow> \<exists>d. e = StorageError d | Inr p \<Rightarrow> True"
    by (simp add: broken_adapter_def driver_error_def)
  ultimately have "bucket (release ''conn'' 1 rl1) ''conn'' = []"
    using failed_store_refunds_slot [OF _ _ _ adm(1,2) call]
    by (simp add: keeps_slot_def driver_error_def Let_def new_limiter_def js_get_or_def fresh_def)
  then show ?thesis unfolding call by (simp add: keeps_slot_def driver_error_def)
qed

end
