(* ===== verification/Anomaly_Types.thy ===== *)
theory Anomaly_Types
  imports Prelude
begin

text \<open>
  The data model of the anomaly detection subsystem, types.ts: metric types, severities,
  patterns and the anomaly event. The event's message text is not modelled (each detector
  keeps the values its message interpolates where the text has branches); every other
  field is. Ids come from \<open>randomUUID\<close> and are arguments of the functions that build events.

  \<open>info_num\<close> and \<open>info_str\<close> stand for reading a field of a flattened INFO reply: the first
  after the service's \<open>parseNumber\<close> (\<open>None\<close> for a missing or unparseable field), the second as
  text.
\<close>

datatype MetricType =
    CONNECTIONS | OPS_PER_SEC | MEMORY_USED | INPUT_KBPS | OUTPUT_KBPS | SLOWLOG_LAST_ID
  | ACL_DENIED | AUTH_FAILURE_BURST | REJECTED_CONNECTIONS | CLIENT_SATURATION
  | CLIENT_LOCKOUT_RISK | EVICTED_CLIENTS | RAFT_HEALTH | FAILOVER_CHURN
  | REPL_BUFFER_PRESSURE | MEMORY_OVERHEAD | LOAD_SATURATION | FORK_MEMORY_RISK
  | EVICTED_KEYS | BLOCKED_CLIENTS | KEYSPACE_MISSES | FRAGMENTATION_RATIO
  | CPU_UTILIZATION | REPLICATION_ROLE | CLUSTER_STATE | RESYNC_LOOP | REPLICA_SLOT_STATE
  | ORPHANED_SLOT_KEYS | GHOST_MEMBERSHIP | LAGGING_PROMOTION | DATASET_KEYS | COMMAND_P99
  | PERSISTENCE_CHILD | CLUSTER_TOPOLOGY | HOSTNAME_STALENESS | LARGE_REPLY_PRESSURE
  | SLOWLOG_COUNT | CONFIG_DRIFT | ACL_DRIFT | SENTINEL_ENDPOINT_DRIFT

definition METRICS_HANDLED_OUTSIDE_EXTRACTOR :: "MetricType list" where
  "METRICS_HANDLED_OUTSIDE_EXTRACTOR =
     [REPLICATION_ROLE, CLUSTER_STATE, RESYNC_LOOP, REPLICA_SLOT_STATE, ORPHANED_SLOT_KEYS,
      GHOST_MEMBERSHIP, LAGGING_PROMOTION, DATASET_KEYS, COMMAND_P99, PERSISTENCE_CHILD,
      CLUSTER_TOPOLOGY, HOSTNAME_STALENESS, SLOWLOG_LAST_ID, REJECTED_CONNECTIONS,
      CLIENT_SATURATION, CLIENT_LOCKOUT_RISK, AUTH_FAILURE_BURST, ACL_DRIFT,
      SENTINEL_ENDPOINT_DRIFT, EVICTED_CLIENTS, RAFT_HEALTH, FAILOVER_CHURN,
      REPL_BUFFER_PRESSURE, MEMORY_OVERHEAD, LOAD_SATURATION, FORK_MEMORY_RISK,
      SLOWLOG_COUNT, CONFIG_DRIFT, LARGE_REPLY_PRESSURE]"

datatype AnomalySeverity = INFO | WARNING | CRITICAL

datatype AnomalyType = SPIKE | DROP

datatype AnomalyPattern =
    TRAFFIC_BURST | BATCH_JOB | MEMORY_PRESSURE | SLOW_QUERIES | AUTH_ATTACK
  | CONNECTION_LEAK | CACHE_THRASHING | NODE_FAILOVER | PERSISTENCE_STALL | SPLIT_BRAIN
  | CONTROL_PLANE_SATURATION | UNKNOWN

record AnomalyEvent =
  ev_id :: string
  ev_timestamp :: int
  ev_metricType :: MetricType
  ev_anomalyType :: AnomalyType
  ev_severity :: AnomalySeverity
  ev_value :: real
  ev_baseline :: real
  ev_stdDev :: real
  ev_zScore :: real
  ev_threshold :: real
  ev_correlationId :: "string option"
  ev_relatedMetrics :: "MetricType list option"
  ev_resolved :: bool
  ev_connectionId :: "string option"
  ev_syntheticPattern :: "AnomalyPattern option"
  ev_persisted :: bool

text \<open>
  The literal every state-based detector of the service builds: \<open>zScore\<close> and \<open>stdDev\<close> 0, not
  resolved, not correlated.
\<close>

definition state_event ::
  "string \<Rightarrow> int \<Rightarrow> MetricType \<Rightarrow> AnomalyType \<Rightarrow> AnomalySeverity \<Rightarrow> real \<Rightarrow> real \<Rightarrow> real \<Rightarrow> string
   \<Rightarrow> AnomalyEvent" where
  "state_event uuid timestamp metricType anomalyType severity value baseline threshold connectionId =
     \<lparr>ev_id = uuid, ev_timestamp = timestamp, ev_metricType = metricType,
      ev_anomalyType = anomalyType, ev_severity = severity, ev_value = value,
      ev_baseline = baseline, ev_stdDev = 0, ev_zScore = 0, ev_threshold = threshold,
      ev_correlationId = None, ev_relatedMetrics = None, ev_resolved = False,
      ev_connectionId = Some connectionId, ev_syntheticPattern = None, ev_persisted = False\<rparr>"

type_synonym info_num = "string \<Rightarrow> real option"
type_synonym info_str = "string \<Rightarrow> string option"

record MetricSample =
  ms_timestamp :: int
  ms_value :: real

definition level_severity :: "level \<Rightarrow> AnomalySeverity" where
  "level_severity l = (if l = LCritical then CRITICAL else WARNING)"

end
