(* ===== verification/Anomaly_Store.thy ===== *)
theory Anomaly_Store
  imports Anomaly_Types
begin

text \<open>
  The anomaly rows of the storage port (storage-port.interface.ts) and two of its adapters:
  memory.adapter.ts keeps an array, sqlite.adapter.ts a table whose key is the id. The SQL text of
  the second is read as what it does to the rows: INSERT with ON CONFLICT(id) DO UPDATE, UPDATE
  with a WHERE, SELECT with ORDER BY and LIMIT (rows of equal timestamp in rowid order), DELETE.
  A port operation returns \<open>None\<close> where the adapter throws.

  The locale \<open>anomaly_storage\<close> holds what the service relies on of any adapter, and
  \<open>closing_storage\<close> adds that a resolved id has no open row left, which the SQL adapter promises
  and the array of the memory adapter does not. The message, host and port columns are left out;
  no operation reads them.
\<close>

record StoredAnomalyEvent =
  se_id :: string
  se_timestamp :: int
  se_metricType :: MetricType
  se_anomalyType :: AnomalyType
  se_severity :: AnomalySeverity
  se_value :: real
  se_baseline :: real
  se_stdDev :: real
  se_zScore :: real
  se_threshold :: real
  se_correlationId :: "string option"
  se_relatedMetrics :: "MetricType list option"
  se_resolved :: bool
  se_resolvedAt :: "int option"
  se_durationMs :: "int option"
  se_connectionId :: "string option"

record AnomalyQueryOptions =
  qo_startTime :: "int option"
  qo_endTime :: "int option"
  qo_severity :: "AnomalySeverity option"
  qo_metricType :: "MetricType option"
  qo_resolved :: "bool option"
  qo_limit :: "nat option"
  qo_offset :: "nat option"
  qo_connectionId :: "string option"

definition no_options :: AnomalyQueryOptions where
  "no_options = \<lparr>qo_startTime = None, qo_endTime = None, qo_severity = None, qo_metricType = None,
     qo_resolved = None, qo_limit = None, qo_offset = None, qo_connectionId = None\<rparr>"

record 'st StoragePort =
  saveAnomalyEvent :: "StoredAnomalyEvent \<Rightarrow> string \<Rightarrow> 'st \<Rightarrow> 'st option"
  getAnomalyEvents :: "AnomalyQueryOptions \<Rightarrow> 'st \<Rightarrow> StoredAnomalyEvent list option"
  resolveAnomalyRow :: "string \<Rightarrow> int \<Rightarrow> 'st \<Rightarrow> ('st \<times> bool) option"

section \<open>Queries\<close>

definition row_matches :: "AnomalyQueryOptions \<Rightarrow> StoredAnomalyEvent \<Rightarrow> bool" where
  "row_matches options e \<longleftrightarrow>
     opt_holds (\<lambda>c. se_connectionId e = Some c) (truthy '''' (qo_connectionId options)) \<and>
     opt_holds (\<lambda>t. t \<le> se_timestamp e) (truthy 0 (qo_startTime options)) \<and>
     opt_holds (\<lambda>t. se_timestamp e \<le> t) (truthy 0 (qo_endTime options)) \<and>
     opt_holds (\<lambda>s. se_severity e = s) (qo_severity options) \<and>
     opt_holds (\<lambda>m. se_metricType e = m) (qo_metricType options) \<and>
     opt_holds (\<lambda>r. se_resolved e = r) (qo_resolved options)"

definition page :: "AnomalyQueryOptions \<Rightarrow> 'a list \<Rightarrow> 'a list" where
  "page options rs =
     (let offset = (case qo_offset options of None \<Rightarrow> 0 | Some n \<Rightarrow> n);
          limit = (case qo_limit options of None \<Rightarrow> 100 | Some n \<Rightarrow> n)
      in take limit (drop offset rs))"

definition newest_first :: "StoredAnomalyEvent list \<Rightarrow> StoredAnomalyEvent list" where
  "newest_first rs = sort_key (\<lambda>e. - se_timestamp e) rs"

definition select_rows :: "AnomalyQueryOptions \<Rightarrow> StoredAnomalyEvent list \<Rightarrow> StoredAnomalyEvent list" where
  "select_rows options rs = page options (newest_first (filter (row_matches options) rs))"

lemma select_rows_sub: "r \<in> set (select_rows options rs) \<Longrightarrow> r \<in> set rs \<and> row_matches options r"
  by (auto simp: select_rows_def page_def newest_first_def Let_def dest!: in_set_takeD in_set_dropD)

lemma length_select_rows: "length (select_rows options rs) \<le> length (filter (row_matches options) rs)"
  by (simp add: select_rows_def page_def newest_first_def Let_def)

lemma select_rows_all:
  assumes "length (filter (row_matches options) rs) \<le> (case qo_limit options of None \<Rightarrow> 100 | Some n \<Rightarrow> n)"
    and "qo_offset options = None"
  shows "set (select_rows options rs) = {r \<in> set rs. row_matches options r}"
  using assms by (auto simp: select_rows_def page_def newest_first_def Let_def)

section \<open>The memory adapter\<close>

definition close_row :: "int \<Rightarrow> StoredAnomalyEvent \<Rightarrow> StoredAnomalyEvent" where
  "close_row resolvedAt e =
     (if se_resolved e then e
      else e\<lparr>se_resolved := True, se_resolvedAt := Some resolvedAt, se_durationMs := Some (resolvedAt - se_timestamp e)\<rparr>)"

fun close_first :: "string \<Rightarrow> int \<Rightarrow> StoredAnomalyEvent list \<Rightarrow> StoredAnomalyEvent list" where
  "close_first i t [] = []"
| "close_first i t (e # es) = (if se_id e = i then close_row t e # es else e # close_first i t es)"

definition mem_saveAnomalyEvent :: "StoredAnomalyEvent \<Rightarrow> string \<Rightarrow> StoredAnomalyEvent list \<Rightarrow> StoredAnomalyEvent list option" where
  "mem_saveAnomalyEvent event connectionId rs = Some (rs @ [event\<lparr>se_connectionId := Some connectionId\<rparr>])"

definition mem_saveAnomalyEvents ::
  "StoredAnomalyEvent list \<Rightarrow> string \<Rightarrow> StoredAnomalyEvent list \<Rightarrow> (StoredAnomalyEvent list \<times> nat) option" where
  "mem_saveAnomalyEvents events connectionId rs =
     Some (foldl (\<lambda>acc e. acc @ [e\<lparr>se_connectionId := Some connectionId\<rparr>]) rs events, length events)"

definition mem_getAnomalyEvents :: "AnomalyQueryOptions \<Rightarrow> StoredAnomalyEvent list \<Rightarrow> StoredAnomalyEvent list option" where
  "mem_getAnomalyEvents options rs = Some (select_rows options rs)"

definition mem_resolveAnomaly :: "string \<Rightarrow> int \<Rightarrow> StoredAnomalyEvent list \<Rightarrow> (StoredAnomalyEvent list \<times> bool) option" where
  "mem_resolveAnomaly i resolvedAt rs =
     (case List.find (\<lambda>e. se_id e = i) rs of
        None \<Rightarrow> Some (rs, False)
      | Some _ \<Rightarrow> Some (close_first i resolvedAt rs, True))"

definition mem_pruneOldAnomalyEvents :: "int \<Rightarrow> string option \<Rightarrow> StoredAnomalyEvent list \<Rightarrow> (StoredAnomalyEvent list \<times> nat) option" where
  "mem_pruneOldAnomalyEvents cutoff connectionId rs =
     (let kept = (case truthy '''' connectionId of
            Some c \<Rightarrow> filter (\<lambda>e. cutoff \<le> se_timestamp e \<or> se_connectionId e \<noteq> Some c) rs
          | None \<Rightarrow> filter (\<lambda>e. cutoff \<le> se_timestamp e) rs)
      in Some (kept, length rs - length kept))"

definition memory_port :: "StoredAnomalyEvent list StoragePort" where
  "memory_port = \<lparr>saveAnomalyEvent = mem_saveAnomalyEvent, getAnomalyEvents = mem_getAnomalyEvents,
     resolveAnomalyRow = mem_resolveAnomaly\<rparr>"

section \<open>The SQLite adapter\<close>

text \<open>
  The table, or \<open>None\<close> while the database is not initialized. On a conflict the upsert sets four
  columns and keeps the others as they were; \<open>x || null\<close> stores an empty value as NULL.
\<close>

type_synonym sqlite_db = "StoredAnomalyEvent list option"

definition sql_row :: "StoredAnomalyEvent \<Rightarrow> string \<Rightarrow> StoredAnomalyEvent" where
  "sql_row event connectionId =
     event\<lparr>se_correlationId := truthy '''' (se_correlationId event), se_resolvedAt := truthy 0 (se_resolvedAt event),
           se_durationMs := truthy 0 (se_durationMs event), se_connectionId := Some connectionId\<rparr>"

definition sql_conflict_update :: "StoredAnomalyEvent \<Rightarrow> StoredAnomalyEvent \<Rightarrow> StoredAnomalyEvent" where
  "sql_conflict_update excluded row =
     row\<lparr>se_correlationId := se_correlationId excluded, se_resolved := se_resolved excluded,
         se_resolvedAt := se_resolvedAt excluded, se_durationMs := se_durationMs excluded\<rparr>"

definition sql_upsert :: "StoredAnomalyEvent \<Rightarrow> StoredAnomalyEvent list \<Rightarrow> StoredAnomalyEvent list" where
  "sql_upsert row rs =
     (if list_ex (\<lambda>r. se_id r = se_id row) rs
      then map (\<lambda>r. if se_id r = se_id row then sql_conflict_update row r else r) rs
      else rs @ [row])"

definition sql_saveAnomalyEvent :: "StoredAnomalyEvent \<Rightarrow> string \<Rightarrow> sqlite_db \<Rightarrow> sqlite_db option" where
  "sql_saveAnomalyEvent event connectionId db =
     (case db of None \<Rightarrow> None | Some rs \<Rightarrow> Some (Some (sql_upsert (sql_row event connectionId) rs)))"

definition sql_getAnomalyEvents :: "AnomalyQueryOptions \<Rightarrow> sqlite_db \<Rightarrow> StoredAnomalyEvent list option" where
  "sql_getAnomalyEvents options db = (case db of None \<Rightarrow> None | Some rs \<Rightarrow> Some (select_rows options rs))"

definition sql_close :: "string \<Rightarrow> int \<Rightarrow> StoredAnomalyEvent \<Rightarrow> StoredAnomalyEvent" where
  "sql_close i resolvedAt r = (if se_id r = i \<and> \<not> se_resolved r then close_row resolvedAt r else r)"

definition sql_resolveAnomaly :: "string \<Rightarrow> int \<Rightarrow> sqlite_db \<Rightarrow> (sqlite_db \<times> bool) option" where
  "sql_resolveAnomaly i resolvedAt db =
     (case db of
        None \<Rightarrow> None
      | Some rs \<Rightarrow>
          let changes = length (filter (\<lambda>r. se_id r = i \<and> \<not> se_resolved r) rs);
              rs' = map (sql_close i resolvedAt) rs
          in if changes > 0 then Some (Some rs', True)
             else Some (Some rs', list_ex (\<lambda>r. se_id r = i) rs'))"

definition sql_pruneOldAnomalyEvents :: "int \<Rightarrow> string option \<Rightarrow> sqlite_db \<Rightarrow> (sqlite_db \<times> nat) option" where
  "sql_pruneOldAnomalyEvents cutoff connectionId db =
     (case db of
        None \<Rightarrow> None
      | Some rs \<Rightarrow>
          let gone = (case truthy '''' connectionId of
                Some c \<Rightarrow> (\<lambda>e. se_timestamp e < cutoff \<and> se_connectionId e = Some c)
              | None \<Rightarrow> (\<lambda>e. se_timestamp e < cutoff))
          in Some (Some (filter (\<lambda>e. \<not> gone e) rs), length (filter gone rs)))"

definition sqlite_port :: "sqlite_db StoragePort" where
  "sqlite_port = \<lparr>saveAnomalyEvent = sql_saveAnomalyEvent, getAnomalyEvents = sql_getAnomalyEvents,
     resolveAnomalyRow = sql_resolveAnomaly\<rparr>"

section \<open>What the service relies on\<close>

locale anomaly_storage =
  fixes port :: "'st StoragePort"
    and stored :: "'st \<Rightarrow> StoredAnomalyEvent list"
  assumes save_stores: "saveAnomalyEvent port e c st = Some st' \<Longrightarrow> se_id ` set (stored st') = insert (se_id e) (se_id ` set (stored st))"
    and save_others: "saveAnomalyEvent port e c st = Some st' \<Longrightarrow> se_id r \<noteq> se_id e \<Longrightarrow> r \<in> set (stored st') \<longleftrightarrow> r \<in> set (stored st)"
    and query_sub: "getAnomalyEvents port options st = Some rs \<Longrightarrow> r \<in> set rs \<Longrightarrow> r \<in> set (stored st) \<and> row_matches options r"
    and resolve_found: "resolveAnomalyRow port i t st = Some (st', found) \<Longrightarrow> found \<longleftrightarrow> i \<in> se_id ` set (stored st)"
    and resolve_others: "resolveAnomalyRow port i t st = Some (st', found) \<Longrightarrow> se_id r \<noteq> i \<Longrightarrow> r \<in> set (stored st') \<longleftrightarrow> r \<in> set (stored st)"
    and resolve_ids: "resolveAnomalyRow port i t st = Some (st', found) \<Longrightarrow> se_id ` set (stored st') = se_id ` set (stored st)"
begin

lemma resolve_missing: "resolveAnomalyRow port i t st = Some (st', False) \<Longrightarrow> r \<in> set (stored st') \<longleftrightarrow> r \<in> set (stored st)"
  using resolve_found resolve_others resolve_ids by (metis image_eqI)

end

locale closing_storage = anomaly_storage port stored
  for port :: "'st StoragePort" and stored :: "'st \<Rightarrow> StoredAnomalyEvent list" +
  assumes resolve_closes: "resolveAnomalyRow port i t st = Some (st', True) \<Longrightarrow> r \<in> set (stored st') \<Longrightarrow> se_id r = i \<Longrightarrow> se_resolved r"
begin

lemma resolved_not_listed:
  assumes "resolveAnomalyRow port i t st = Some (st', True)"
    and "getAnomalyEvents port options st' = Some rs" and "qo_resolved options = Some False"
  shows "i \<notin> se_id ` set rs"
proof
  assume "i \<in> se_id ` set rs"
  then obtain r where r: "r \<in> set rs" "se_id r = i" by blast
  from query_sub [OF assms(2) r(1)] resolve_closes [OF assms(1) _ r(2)] assms(3)
  show False by (auto simp: row_matches_def opt_holds_def)
qed

end

lemma close_row_id [simp]: "se_id (close_row t e) = se_id e" "se_resolved (close_row t e)"
  by (simp_all add: close_row_def)

lemma close_first_ids: "se_id ` set (close_first i t rs) = se_id ` set rs"
  by (induction rs) auto

lemma close_first_others: "se_id r \<noteq> i \<Longrightarrow> r \<in> set (close_first i t rs) \<longleftrightarrow> r \<in> set rs"
  by (induction rs) auto

lemma find_id: "List.find (\<lambda>e. se_id e = i) rs = None \<longleftrightarrow> i \<notin> se_id ` set rs"
  by (auto simp: find_None_iff)

interpretation memory: anomaly_storage memory_port "\<lambda>rs. rs"
proof unfold_locales
  fix e c st st' and r assume "saveAnomalyEvent memory_port e c st = Some st'"
  then show "se_id ` set st' = insert (se_id e) (se_id ` set st)"
    and "se_id r \<noteq> se_id e \<Longrightarrow> r \<in> set st' \<longleftrightarrow> r \<in> set st"
    by (auto simp: memory_port_def mem_saveAnomalyEvent_def)
next
  fix options st rs r assume "getAnomalyEvents memory_port options st = Some rs" "r \<in> set rs"
  then show "r \<in> set st \<and> row_matches options r"
    by (auto simp: memory_port_def mem_getAnomalyEvents_def dest: select_rows_sub)
next
  fix i t st st' found r assume "resolveAnomalyRow memory_port i t st = Some (st', found)"
  then have *: "mem_resolveAnomaly i t st = Some (st', found)" by (simp add: memory_port_def)
  from * show "found \<longleftrightarrow> i \<in> se_id ` set st"
    using find_id [of i st] by (auto simp: mem_resolveAnomaly_def split: option.splits)
  from * have st': "st' = st \<or> st' = close_first i t st" by (auto simp: mem_resolveAnomaly_def split: option.splits)
  then show "se_id r \<noteq> i \<Longrightarrow> r \<in> set st' \<longleftrightarrow> r \<in> set st" by (auto simp: close_first_others)
  from st' show "se_id ` set st' = se_id ` set st" using close_first_ids by metis
qed

definition table :: "sqlite_db \<Rightarrow> StoredAnomalyEvent list" where
  "table db = (case db of None \<Rightarrow> [] | Some rs \<Rightarrow> rs)"

lemma sql_conflict_update_id [simp]: "se_id (sql_conflict_update e r) = se_id r"
  by (simp add: sql_conflict_update_def)

lemma sql_row_id [simp]: "se_id (sql_row e c) = se_id e"
  by (simp add: sql_row_def)

lemma sql_upsert_ids: "se_id ` set (sql_upsert e rs) = insert (se_id e) (se_id ` set rs)"
proof (cases "list_ex (\<lambda>r. se_id r = se_id e) rs")
  case True
  then obtain r where "r \<in> set rs" "se_id e = se_id r" by (metis (mono_tags) list_ex_iff)
  then have "se_id e \<in> se_id ` set rs" by (rule rev_image_eqI)
  moreover have "map se_id (sql_upsert e rs) = map se_id rs"
    using True by (simp add: sql_upsert_def)
  then have "se_id ` set (sql_upsert e rs) = se_id ` set rs" by (metis list.set_map)
  ultimately show ?thesis by (simp only: insert_absorb)
qed (simp add: sql_upsert_def)

lemma sql_upsert_others: "se_id r \<noteq> se_id e \<Longrightarrow> r \<in> set (sql_upsert e rs) \<longleftrightarrow> r \<in> set rs"
  by (auto simp: sql_upsert_def image_iff)

lemma sql_upsert_distinct: "distinct (map se_id rs) \<Longrightarrow> distinct (map se_id (sql_upsert e rs))"
  by (auto simp: sql_upsert_def list_ex_iff comp_def if_distrib cong: if_cong)

lemma sql_close_id [simp]: "se_id (sql_close i t r) = se_id r"
  by (simp add: sql_close_def)

lemma sql_close_ids: "se_id ` set (map (sql_close i t) rs) = se_id ` set rs"
  by (simp add: image_image)

lemma sql_close_others:
  assumes "se_id r \<noteq> i"
  shows "r \<in> set (map (sql_close i t) rs) \<longleftrightarrow> r \<in> set rs"
proof -
  have "r = sql_close i t x \<longleftrightarrow> r = x" for x
    using assms by (metis sql_close_def sql_close_id)
  then show ?thesis by (simp add: image_iff)
qed

lemma sql_closed:
  assumes "r \<in> set (map (sql_close i t) rs)" and "se_id r = i"
  shows "se_resolved r"
proof -
  from assms(1) obtain x where r: "r = sql_close i t x" by auto
  with assms(2) have "se_id x = i" by simp
  then show ?thesis unfolding r sql_close_def by simp
qed

lemma sql_resolve_Some:
  assumes "sql_resolveAnomaly i t db = Some (db', found)"
  shows "\<exists>rs. db = Some rs \<and> db' = Some (map (sql_close i t) rs) \<and> found = (i \<in> se_id ` set rs)"
proof -
  from assms obtain rs where db: "db = Some rs" by (auto simp: sql_resolveAnomaly_def split: option.splits)
  have ex: "list_ex (\<lambda>r. se_id r = i) (map (sql_close i t) rs) \<longleftrightarrow> i \<in> se_id ` set rs"
    by (auto simp: list_ex_iff)
  show ?thesis
  proof (cases "filter (\<lambda>r. se_id r = i \<and> \<not> se_resolved r) rs = []")
    case True
    with assms ex show ?thesis by (simp add: db sql_resolveAnomaly_def)
  next
    case False
    then have "i \<in> se_id ` set rs" by (auto simp: filter_empty_conv)
    with False assms show ?thesis by (simp add: db sql_resolveAnomaly_def)
  qed
qed

interpretation sqlite: closing_storage sqlite_port table
proof unfold_locales
  fix e c st st' and r assume "saveAnomalyEvent sqlite_port e c st = Some st'"
  then show "se_id ` set (table st') = insert (se_id e) (se_id ` set (table st))"
    and "se_id r \<noteq> se_id e \<Longrightarrow> r \<in> set (table st') \<longleftrightarrow> r \<in> set (table st)"
    by (auto simp: sqlite_port_def sql_saveAnomalyEvent_def table_def sql_upsert_ids sql_upsert_others split: option.splits)
next
  fix options st rs r assume "getAnomalyEvents sqlite_port options st = Some rs" "r \<in> set rs"
  then show "r \<in> set (table st) \<and> row_matches options r"
    by (auto simp: sqlite_port_def sql_getAnomalyEvents_def table_def dest: select_rows_sub split: option.splits)
next
  fix i t st st' found r assume "resolveAnomalyRow sqlite_port i t st = Some (st', found)"
  then have "sql_resolveAnomaly i t st = Some (st', found)" by (simp add: sqlite_port_def)
  from sql_resolve_Some [OF this] obtain rs where
    *: "st = Some rs" "st' = Some (map (sql_close i t) rs)" "found = (i \<in> se_id ` set rs)" by blast
  show "found \<longleftrightarrow> i \<in> se_id ` set (table st)" using * by (simp add: table_def)
  show "se_id r \<noteq> i \<Longrightarrow> r \<in> set (table st') \<longleftrightarrow> r \<in> set (table st)"
    using * sql_close_others [of r i t rs] by (simp add: table_def)
  show "se_id ` set (table st') = se_id ` set (table st)" using * sql_close_ids by (simp add: table_def)
next
  fix i t st st' r
  assume a: "resolveAnomalyRow sqlite_port i t st = Some (st', True)" "r \<in> set (table st')" "se_id r = i"
  then have "sql_resolveAnomaly i t st = Some (st', True)" by (simp add: sqlite_port_def)
  from sql_resolve_Some [OF this] obtain rs where "st' = Some (map (sql_close i t) rs)" by blast
  with a(2,3) sql_closed [of r i t rs] show "se_resolved r" by (simp add: table_def)
qed

end
