(* ===== verification/Alert_Contract.thy ===== *)
theory Alert_Contract
  imports Prelude
begin

text \<open>
  The contract between the anomaly service and its hysteresis detectors, as an interface.

  A detector is a pair \<open>eval\<close> (fold one poll into the state, maybe return a finding) and
  \<open>ack\<close> (record that the finding was emitted). The service drives every one of them the
  same way: evaluate, emit, and acknowledge only after a successful emit, so that a failed
  emit is retried (for instance detectLoadSaturation, detectForkMemoryRisk,
  detectMemoryOverhead, detectResyncLoop, detectClientLockoutRisk and
  detectControlPlaneSaturation of anomaly.service.ts). \<open>run_polls\<close> is that loop over a
  sequence of polls, each with the outcome of its emit.

  The locale \<open>alert_budget\<close> asks for a measure of what is acknowledged that evaluation never
  raises and acknowledging a finding strictly raises; the client lemma bounds the alerts
  of any run by the number of polls that re-arm the detector. The locale \<open>alert_retry\<close> adds
  that under a steady condition the finding comes back until it is acknowledged, and
  \<open>alert_delivery\<close> that it never comes again afterwards.
\<close>

type_synonym ('s, 'i, 'f) evaluator = "'s \<Rightarrow> 'i \<Rightarrow> 's \<times> 'f option"

definition poll_step ::
  "('s, 'i, 'f) evaluator \<Rightarrow> ('s \<Rightarrow> 'f \<Rightarrow> 's) \<Rightarrow> 's \<Rightarrow> 'i \<Rightarrow> bool \<Rightarrow> 's \<times> 'f option" where
  "poll_step eval ack s i emitted =
     (case eval s i of
        (s', None) \<Rightarrow> (s', None)
      | (s', Some f) \<Rightarrow> if emitted then (ack s' f, Some f) else (s', None))"

fun run_polls ::
  "('s, 'i, 'f) evaluator \<Rightarrow> ('s \<Rightarrow> 'f \<Rightarrow> 's) \<Rightarrow> 's \<Rightarrow> ('i \<times> bool) list \<Rightarrow> 's \<times> 'f list" where
  "run_polls eval ack s [] = (s, [])"
| "run_polls eval ack s ((i, emitted) # ps) =
     (let (s', r) = poll_step eval ack s i emitted;
          (s'', fs) = run_polls eval ack s' ps
      in (s'', (case r of None \<Rightarrow> fs | Some f \<Rightarrow> f # fs)))"

text \<open>The polls of a run at which evaluation lowers the measure \<open>acked\<close>: the re-arming polls.\<close>

fun rearms ::
  "('s \<Rightarrow> nat) \<Rightarrow> ('s, 'i, 'f) evaluator \<Rightarrow> ('s \<Rightarrow> 'f \<Rightarrow> 's) \<Rightarrow> 's \<Rightarrow> ('i \<times> bool) list \<Rightarrow> nat" where
  "rearms acked eval ack s [] = 0"
| "rearms acked eval ack s ((i, emitted) # ps) =
     (if acked (fst (eval s i)) < acked s then 1 else 0)
     + rearms acked eval ack (fst (poll_step eval ack s i emitted)) ps"

text \<open>A sequence of polls in which each is a steady continuation of the one before.\<close>

fun steady_run :: "('i \<Rightarrow> 'i \<Rightarrow> bool) \<Rightarrow> 'i \<Rightarrow> 'i list \<Rightarrow> bool" where
  "steady_run steady i [] = True"
| "steady_run steady i (j # js) = (steady i j \<and> steady_run steady j js)"

lemma run_polls_append:
  "run_polls eval ack s (ps @ qs) =
     (let (s', fs) = run_polls eval ack s ps; (s'', gs) = run_polls eval ack s' qs in (s'', fs @ gs))"
  by (induction ps arbitrary: s) (auto simp: Let_def split: prod.splits option.splits)

lemma run_polls_snoc_state:
  "fst (run_polls eval ack s (ps @ [(i, e)])) = fst (poll_step eval ack (fst (run_polls eval ack s ps)) i e)"
  by (simp add: run_polls_append split: prod.splits)

lemma run_polls_invariant:
  assumes "P s" and "\<And>s i. P s \<Longrightarrow> P (fst (eval s i))" and "\<And>s f. P s \<Longrightarrow> P (ack s f)"
  shows "P (fst (run_polls eval ack s ps))"
  using assms(1)
proof (induction ps arbitrary: s)
  case (Cons p ps)
  obtain i e where p: "p = (i, e)" by (cases p)
  have "P (fst (poll_step eval ack s i e))"
    using assms(2) [OF Cons.prems, of i] assms(3) by (auto simp: poll_step_def split: prod.splits option.splits)
  from Cons.IH [OF this] show ?case by (simp add: p Let_def case_prod_beta)
qed simp

locale alert_budget =
  fixes eval :: "'s \<Rightarrow> 'i \<Rightarrow> 's \<times> 'f option"
    and ack :: "'s \<Rightarrow> 'f \<Rightarrow> 's"
    and acked :: "'s \<Rightarrow> nat"
    and top :: nat
  assumes eval_lowers: "acked (fst (eval s i)) \<le> acked s"
    and ack_raises: "eval s i = (s', Some f) \<Longrightarrow> acked s' < acked (ack s' f)"
    and acked_top: "acked s \<le> top"
begin

lemma poll_step_budget:
  assumes "poll_step eval ack s i emitted = (s', r)"
  shows "(case r of None \<Rightarrow> 0 | Some _ \<Rightarrow> 1) + acked s
           \<le> acked s' + (if acked (fst (eval s i)) < acked s then top else 0)"
  using assms eval_lowers [of s i] ack_raises [of s i] acked_top [of s]
  by (auto simp: poll_step_def split: prod.splits option.splits if_splits; fastforce)

lemma run_budget:
  "length (snd (run_polls eval ack s ps)) + acked s
     \<le> acked (fst (run_polls eval ack s ps)) + top * rearms acked eval ack s ps"
proof (induction ps arbitrary: s)
  case (Cons p ps)
  obtain i emitted where p: "p = (i, emitted)" by (cases p)
  obtain s' r where st: "poll_step eval ack s i emitted = (s', r)" by (cases "poll_step eval ack s i emitted")
  show ?case
    using poll_step_budget [OF st] Cons.IH [of s'] st
    by (auto simp: p Let_def split: prod.splits option.splits if_splits)
qed simp

lemma alerts_bounded:
  "length (snd (run_polls eval ack s ps)) \<le> top * (1 + rearms acked eval ack s ps)"
  using run_budget [of s ps] acked_top [of "fst (run_polls eval ack s ps)"] by simp

end

locale alert_retry = alert_budget eval ack acked top
  for eval :: "'s \<Rightarrow> 'i \<Rightarrow> 's \<times> 'f option"
    and ack :: "'s \<Rightarrow> 'f \<Rightarrow> 's"
    and acked :: "'s \<Rightarrow> nat"
    and top :: nat +
  fixes steady :: "'i \<Rightarrow> 'i \<Rightarrow> bool"
  assumes retry: "eval s i = (s', Some f) \<Longrightarrow> steady i j \<Longrightarrow> \<exists>s'' f'. eval s' j = (s'', Some f')"
begin

lemma failed_run:
  assumes "eval s i = (s1, Some f)" and "steady_run steady i (js @ [j])"
  shows "\<exists>s' f'. eval (fst (run_polls eval ack s (zip (i # js) (replicate (Suc (length js)) False)))) j
           = (s', Some f')"
    and "snd (run_polls eval ack s (zip (i # js) (replicate (Suc (length js)) False))) = []"
proof -
  have "(\<exists>s' f'. eval (fst (run_polls eval ack s (zip (i # js) (replicate (Suc (length js)) False)))) j
           = (s', Some f')) \<and>
        snd (run_polls eval ack s (zip (i # js) (replicate (Suc (length js)) False))) = []"
    using assms
  proof (induction js arbitrary: s i s1 f)
    case Nil
    then show ?case by (auto simp: poll_step_def dest: retry)
  next
    case (Cons k ks)
    from Cons.prems have "steady i k" and rest: "steady_run steady k (ks @ [j])" by auto
    with Cons.prems(1) obtain s2 f2 where "eval s1 k = (s2, Some f2)" by (blast dest: retry)
    from Cons.IH [OF this rest] Cons.prems(1) show ?case
      by (simp add: poll_step_def split: prod.splits)
  qed
  then show "\<exists>s' f'. eval (fst (run_polls eval ack s (zip (i # js) (replicate (Suc (length js)) False)))) j
           = (s', Some f')"
    and "snd (run_polls eval ack s (zip (i # js) (replicate (Suc (length js)) False))) = []"
    by blast+
qed

end

locale alert_delivery = alert_retry eval ack acked top steady
  for eval :: "'s \<Rightarrow> 'i \<Rightarrow> 's \<times> 'f option"
    and ack :: "'s \<Rightarrow> 'f \<Rightarrow> 's"
    and acked :: "'s \<Rightarrow> nat"
    and top :: nat
    and steady :: "'i \<Rightarrow> 'i \<Rightarrow> bool" +
  fixes covered :: "'s \<Rightarrow> 'i \<Rightarrow> bool"
  assumes covers: "eval s i = (s', Some f) \<Longrightarrow> steady i j \<Longrightarrow> covered (ack s' f) j"
    and covered_quiet: "covered s i \<Longrightarrow> snd (eval s i) = None"
    and covered_stays: "covered s i \<Longrightarrow> steady i j \<Longrightarrow> covered (fst (eval s i)) j"
begin

lemma covered_run:
  assumes "covered s i" and "steady_run steady i js"
  shows "snd (run_polls eval ack s (zip (i # js) oks)) = []"
  using assms
proof (induction js arbitrary: s i oks)
  case Nil
  then show ?case
    by (cases oks) (auto simp: poll_step_def split: prod.splits dest: covered_quiet)
next
  case (Cons j js)
  show ?case
  proof (cases oks)
    case (Cons ok oks')
    from Cons.prems have q: "snd (eval s i) = None" and c: "covered (fst (eval s i)) j"
      by (auto dest: covered_quiet covered_stays)
    from Cons.IH [OF c, of oks'] Cons.prems(2) q show ?thesis
      by (auto simp: \<open>oks = ok # oks'\<close> poll_step_def split: prod.splits)
  qed simp
qed

text \<open>
  A condition that fires and then stays: however many emits fail first, the first successful
  emit delivers exactly one alert, and no later poll delivers another.
\<close>

lemma delivered_once:
  assumes fire: "eval s i = (s1, Some f)"
    and steady: "steady_run steady i (js @ j # ks)"
  shows "length (snd (run_polls eval ack s
           (zip (i # js) (replicate (Suc (length js)) False) @ (j, True) # zip ks oks))) = 1"
proof -
  have sj: "steady_run steady i (js @ [j])" and sk: "steady_run steady j ks"
    using steady by (induction js arbitrary: i) auto
  define failing where "failing = zip (i # js) (replicate (Suc (length js)) False)"
  obtain t where run: "run_polls eval ack s failing = (t, [])"
    using failed_run(2) [OF fire sj] unfolding failing_def by (metis prod.collapse)
  obtain s' f' where ev: "eval t j = (s', Some f')"
    using failed_run(1) [OF fire sj] run unfolding failing_def by auto
  have rest: "snd (run_polls eval ack (ack s' f') (zip ks oks)) = []"
  proof (cases ks)
    case (Cons k ks')
    with sk have "steady j k" and "steady_run steady k ks'" by auto
    with covers [OF ev] covered_run Cons show ?thesis by blast
  qed simp
  show ?thesis
    unfolding failing_def [symmetric]
    using run ev rest by (auto simp: run_polls_append poll_step_def split: prod.splits)
qed

end

end
