(* ===== verification/Control_Plane.thy ===== *)
theory Control_Plane
  imports Alert_Contract Anomaly_Types
begin

text \<open>
  Control-plane saturation, control-plane-saturation-detector.ts: sustained CPU paired with
  evidence of control-plane impact (a probe round-trip spike, recent control-plane anomalies,
  dropped replicas), the synthetic event it emits and the service handler
  detectControlPlaneSaturation. The corroboration text is kept as the list of its reasons, and
  \<open>-Infinity\<close>, the floor when none is set, as \<open>None\<close>.
\<close>

definition SATURATION_CPU_PCT :: real where "SATURATION_CPU_PCT = 90"
definition SATURATION_MIN_STREAK :: nat where "SATURATION_MIN_STREAK = 3"
definition SATURATION_RTT_MULT :: real where "SATURATION_RTT_MULT = 4"
definition SATURATION_RTT_FLOOR_MS :: real where "SATURATION_RTT_FLOOR_MS = 100"
definition SATURATION_CORROBORATION_WINDOW_MS :: int where "SATURATION_CORROBORATION_WINDOW_MS = 60000"
definition RTT_SAMPLE_LIMIT :: nat where "RTT_SAMPLE_LIMIT = 30"
definition RTT_MIN_SAMPLES :: nat where "RTT_MIN_SAMPLES = 5"

definition CONTROL_PLANE_CORROBORATING_METRICS :: "MetricType list" where
  "CONTROL_PLANE_CORROBORATING_METRICS =
     [REPLICATION_ROLE, CLUSTER_STATE, CLUSTER_TOPOLOGY, RAFT_HEALTH, FAILOVER_CHURN, REPL_BUFFER_PRESSURE]"

lemmas cp_consts = SATURATION_CPU_PCT_def SATURATION_MIN_STREAK_def SATURATION_RTT_MULT_def
  SATURATION_RTT_FLOOR_MS_def SATURATION_CORROBORATION_WINDOW_MS_def RTT_SAMPLE_LIMIT_def RTT_MIN_SAMPLES_def

record cp_state =
  cp_cpuHighStreak :: nat
  cp_rttSamples :: "real list"
  cp_episodeActive :: bool
  cp_replicaDropTimes :: "int list"
  cp_evidenceFloorAt :: "int option"

record cp_input =
  pi_cpuUtilization :: "real option"
  pi_cpuCounterReset :: bool
  pi_probeRttMs :: "real option"
  pi_replicaDropCount :: real
  pi_recentEvents :: "(MetricType \<times> int) list"
  pi_timestamp :: int

datatype cp_reason = RttSpiked real real | RecentAnomalies "MetricType list" | ReplicasDropped nat

record cp_finding =
  pf_cpuUtilization :: real
  pf_corroboration :: "cp_reason list"
  pf_streak :: nat

definition createControlPlaneState :: cp_state where
  "createControlPlaneState = \<lparr>cp_cpuHighStreak = 0, cp_rttSamples = [], cp_episodeActive = False,
     cp_replicaDropTimes = [], cp_evidenceFloorAt = None\<rparr>"

definition rollingMedian :: "real list \<Rightarrow> real option" where
  "rollingMedian samples =
     (if length samples < RTT_MIN_SAMPLES then None
      else let sorted = sort samples in Some (sorted ! (length sorted div 2)))"

definition judgeRtt :: "cp_state \<Rightarrow> real option \<Rightarrow> cp_state \<times> bool \<times> real option" where
  "judgeRtt state probeRttMs =
     (case probeRttMs of
        None \<Rightarrow> (state, False, None)
      | Some rtt \<Rightarrow>
          let baseline = rollingMedian (cp_rttSamples state);
              spike = (case baseline of None \<Rightarrow> False
                       | Some b \<Rightarrow> rtt \<ge> SATURATION_RTT_FLOOR_MS \<and> rtt \<ge> b * SATURATION_RTT_MULT)
          in (state\<lparr>cp_rttSamples := push_capped RTT_SAMPLE_LIMIT rtt (cp_rttSamples state)\<rparr>, spike, baseline))"

definition describeCorroboration ::
  "cp_input \<Rightarrow> bool \<times> real option \<Rightarrow> nat \<Rightarrow> MetricType list \<Rightarrow> cp_reason list option" where
  "describeCorroboration input rtt replicasDropped freshEventTypes =
     (let rttReasons = (case (fst rtt, pi_probeRttMs input, snd rtt) of
                          (True, Some probe, Some baseline) \<Rightarrow> [RttSpiked probe baseline] | _ \<Rightarrow> []);
          eventReasons = (if length freshEventTypes > 0 then [RecentAnomalies (js_uniq freshEventTypes)] else []);
          reasons = rttReasons @ eventReasons;
          replicaDropCorroborates = (replicasDropped \<ge> 2 \<or> (replicasDropped = 1 \<and> length reasons > 0));
          reasons' = (if replicaDropCorroborates then reasons @ [ReplicasDropped replicasDropped] else reasons)
      in if length reasons' = 0 then None else Some reasons')"

definition cp_after_floor :: "int option \<Rightarrow> int \<Rightarrow> bool" where
  "cp_after_floor floorAt t = (case floorAt of None \<Rightarrow> True | Some fl \<Rightarrow> t > fl)"

definition evaluateControlPlaneSaturation :: "cp_state \<Rightarrow> cp_input \<Rightarrow> cp_state \<times> cp_finding option" where
  "evaluateControlPlaneSaturation state input =
     (let (s0, rtt) = judgeRtt state (pi_probeRttMs input) in
      if pi_cpuCounterReset input then
        (s0\<lparr>cp_cpuHighStreak := 0, cp_episodeActive := False, cp_replicaDropTimes := [],
            cp_evidenceFloorAt := Some (pi_timestamp input), cp_rttSamples := []\<rparr>, None)
      else
        let pushed = cp_replicaDropTimes s0 @ replicate (nat \<lceil>pi_replicaDropCount input\<rceil>) (pi_timestamp input);
            s1 = s0\<lparr>cp_replicaDropTimes :=
                      within_ms SATURATION_CORROBORATION_WINDOW_MS (pi_timestamp input) pushed\<rparr>;
            s2 = (case pi_cpuUtilization input of
                    None \<Rightarrow> s1
                  | Some cpu \<Rightarrow> if cpu \<ge> SATURATION_CPU_PCT
                               then s1\<lparr>cp_cpuHighStreak := cp_cpuHighStreak s1 + 1\<rparr>
                               else s1\<lparr>cp_cpuHighStreak := 0, cp_episodeActive := False\<rparr>)
        in if cp_cpuHighStreak s2 < SATURATION_MIN_STREAK then (s2, None)
           else if cp_episodeActive s2 then (s2, None)
           else
             let replicasDropped = length (filter (cp_after_floor (cp_evidenceFloorAt s2)) (cp_replicaDropTimes s2));
                 freshEventTypes = map fst (filter (\<lambda>e. cp_after_floor (cp_evidenceFloorAt s2) (snd e)) (pi_recentEvents input))
             in case describeCorroboration input rtt replicasDropped freshEventTypes of
                  None \<Rightarrow> (s2, None)
                | Some corroboration \<Rightarrow>
                    (s2, Some \<lparr>pf_cpuUtilization = (case pi_cpuUtilization input of None \<Rightarrow> SATURATION_CPU_PCT | Some c \<Rightarrow> c),
                               pf_corroboration = corroboration, pf_streak = cp_cpuHighStreak s2\<rparr>))"

definition acknowledgeSaturationFinding :: "cp_state \<Rightarrow> int \<Rightarrow> cp_state" where
  "acknowledgeSaturationFinding state timestamp =
     state\<lparr>cp_episodeActive := True, cp_evidenceFloorAt := Some timestamp\<rparr>"

definition createControlPlaneSaturationEvent ::
  "cp_finding \<Rightarrow> string \<Rightarrow> int \<Rightarrow> string option \<Rightarrow> AnomalyEvent" where
  "createControlPlaneSaturationEvent finding uuid timestamp connectionId =
     \<lparr>ev_id = uuid, ev_timestamp = timestamp, ev_metricType = CPU_UTILIZATION, ev_anomalyType = SPIKE,
      ev_severity = CRITICAL, ev_value = pf_cpuUtilization finding, ev_baseline = 0, ev_stdDev = 0,
      ev_zScore = 0, ev_threshold = SATURATION_CPU_PCT, ev_correlationId = None, ev_relatedMetrics = None,
      ev_resolved = False, ev_connectionId = connectionId,
      ev_syntheticPattern = Some CONTROL_PLANE_SATURATION, ev_persisted = False\<rparr>"

definition isControlPlaneSaturationEvent :: "AnomalyEvent \<Rightarrow> bool" where
  "isControlPlaneSaturationEvent event \<longleftrightarrow> ev_syntheticPattern event = Some CONTROL_PLANE_SATURATION"

record cp_service =
  cv_states :: "(string, cp_state) jsmap"
  cv_lastConnectedSlaves :: "(string, real) jsmap"

definition cp_recent_events :: "AnomalyEvent list \<Rightarrow> string \<Rightarrow> int \<Rightarrow> (MetricType \<times> int) list" where
  "cp_recent_events recentAnomalies connectionId timestamp =
     map (\<lambda>a. (ev_metricType a, ev_timestamp a))
       (filter (\<lambda>a. ev_connectionId a = Some connectionId \<and>
                    timestamp - ev_timestamp a \<le> SATURATION_CORROBORATION_WINDOW_MS \<and>
                    ev_metricType a \<in> set CONTROL_PLANE_CORROBORATING_METRICS \<and>
                    \<not> isControlPlaneSaturationEvent a) recentAnomalies)"

definition detectControlPlaneSaturation ::
  "cp_service \<Rightarrow> AnomalyEvent list \<Rightarrow> info_num \<Rightarrow> string \<Rightarrow> int \<Rightarrow> real option \<Rightarrow> real \<Rightarrow> bool \<Rightarrow> string \<Rightarrow> bool
   \<Rightarrow> cp_service \<times> AnomalyEvent option" where
  "detectControlPlaneSaturation sv recentAnomalies info connectionId timestamp cpuUtilization probeRttMs
     cpuCounterReset uuid emitted =
     (let state = js_get_or createControlPlaneState (cv_states sv) connectionId;
          (slaves', replicaDropCount) =
            (case info ''connected_slaves'' of
               None \<Rightarrow> (cv_lastConnectedSlaves sv, 0)
             | Some now \<Rightarrow>
                 (js_set connectionId now (cv_lastConnectedSlaves sv),
                  case js_get (cv_lastConnectedSlaves sv) connectionId of
                    None \<Rightarrow> 0 | Some prev \<Rightarrow> if now < prev then prev - now else 0));
          (state', r) = evaluateControlPlaneSaturation state
            \<lparr>pi_cpuUtilization = cpuUtilization, pi_cpuCounterReset = cpuCounterReset,
             pi_probeRttMs = Some probeRttMs, pi_replicaDropCount = replicaDropCount,
             pi_recentEvents = cp_recent_events recentAnomalies connectionId timestamp, pi_timestamp = timestamp\<rparr>;
          sv1 = sv\<lparr>cv_lastConnectedSlaves := slaves', cv_states := js_set connectionId state' (cv_states sv)\<rparr>
      in case r of
           None \<Rightarrow> (sv1, None)
         | Some finding \<Rightarrow>
             if emitted then
               (sv1\<lparr>cv_states := js_set connectionId (acknowledgeSaturationFinding state' timestamp) (cv_states sv1)\<rparr>,
                Some (createControlPlaneSaturationEvent finding uuid timestamp (Some connectionId)))
             else (sv1, None))"

section \<open>The shape of one evaluation\<close>

lemma cp_after_floor_Some: "cp_after_floor (Some t) = (\<lambda>d. t < d)"
  by (simp add: cp_after_floor_def fun_eq_iff)

lemma judgeRtt_keeps [simp]:
  "cp_cpuHighStreak (fst (judgeRtt s r)) = cp_cpuHighStreak s"
  "cp_episodeActive (fst (judgeRtt s r)) = cp_episodeActive s"
  "cp_replicaDropTimes (fst (judgeRtt s r)) = cp_replicaDropTimes s"
  "cp_evidenceFloorAt (fst (judgeRtt s r)) = cp_evidenceFloorAt s"
  by (simp_all add: judgeRtt_def Let_def split: option.split)

lemma judgeRtt_samples:
  "length (cp_rttSamples s) \<le> RTT_SAMPLE_LIMIT \<Longrightarrow> length (cp_rttSamples (fst (judgeRtt s r))) \<le> RTT_SAMPLE_LIMIT"
  by (simp add: judgeRtt_def Let_def length_push_capped split: option.split)

lemmas cp_step_defs = evaluateControlPlaneSaturation_def Let_def case_prod_beta

lemma eval_cp_samples:
  assumes "length (cp_rttSamples s) \<le> RTT_SAMPLE_LIMIT"
  shows "length (cp_rttSamples (fst (evaluateControlPlaneSaturation s i))) \<le> RTT_SAMPLE_LIMIT"
  using judgeRtt_samples [OF assms, of "pi_probeRttMs i"]
  by (auto simp: cp_step_defs split: option.splits)

lemma eval_cp_active:
  "cp_episodeActive (fst (evaluateControlPlaneSaturation s i)) \<longrightarrow> cp_episodeActive s"
  by (auto simp: cp_step_defs split: option.splits)

lemma eval_cp_finding:
  assumes "evaluateControlPlaneSaturation s i = (s', Some f)"
  shows "\<not> pi_cpuCounterReset i" and "\<not> cp_episodeActive s'" and "SATURATION_MIN_STREAK \<le> cp_cpuHighStreak s'"
    and "cp_evidenceFloorAt s' = cp_evidenceFloorAt s"
    and "describeCorroboration i (snd (judgeRtt s (pi_probeRttMs i)))
           (length (filter (cp_after_floor (cp_evidenceFloorAt s)) (cp_replicaDropTimes s')))
           (map fst (filter (\<lambda>e. cp_after_floor (cp_evidenceFloorAt s) (snd e)) (pi_recentEvents i)))
         = Some (pf_corroboration f)"
  using assms
  by (auto simp: cp_step_defs split: option.splits if_splits)

section \<open>The alert contract\<close>

text \<open>
  The handler acknowledges with the timestamp it evaluated at, so the finding of the interface is
  paired with it.
\<close>

definition cp_eval :: "cp_state \<Rightarrow> cp_input \<Rightarrow> cp_state \<times> (cp_finding \<times> int) option" where
  "cp_eval s i = (case evaluateControlPlaneSaturation s i of (s', r) \<Rightarrow> (s', map_option (\<lambda>f. (f, pi_timestamp i)) r))"

definition cp_ack :: "cp_state \<Rightarrow> cp_finding \<times> int \<Rightarrow> cp_state" where
  "cp_ack s ft = acknowledgeSaturationFinding s (snd ft)"

definition cp_acked :: "cp_state \<Rightarrow> nat" where
  "cp_acked s = (if cp_episodeActive s then 1 else 0)"

lemma cp_eval_fst [simp]: "fst (cp_eval s i) = fst (evaluateControlPlaneSaturation s i)"
  by (simp add: cp_eval_def case_prod_beta)

lemma cp_eval_finding:
  "cp_eval s i = (s', Some (f, t)) \<longleftrightarrow> evaluateControlPlaneSaturation s i = (s', Some f) \<and> t = pi_timestamp i"
  by (auto simp: cp_eval_def split: prod.splits)

interpretation cpsat: alert_budget cp_eval cp_ack cp_acked 1
proof unfold_locales
  show "cp_acked (fst (cp_eval s i)) \<le> cp_acked s" for s i
    using eval_cp_active [of s i] by (simp add: cp_acked_def)
  show "cp_acked s' < cp_acked (cp_ack s' f)" if "cp_eval s i = (s', Some f)" for s i s' f
  proof -
    obtain g t where "f = (g, t)" by (cases f)
    with that eval_cp_finding(2) [of s i s' g] show ?thesis
      by (simp add: cp_eval_finding cp_acked_def cp_ack_def acknowledgeSaturationFinding_def)
  qed
qed (simp add: cp_acked_def)

section \<open>Properties\<close>

text \<open>
  CPU alone never raises control-plane saturation: a finding needs three or more consecutive
  polls at 90 percent or above and, among evidence later than the floor, a probe round-trip spike,
  a control-plane anomaly of the window, or at least two dropped replicas.
\<close>

theorem saturation_needs_evidence:
  assumes "evaluateControlPlaneSaturation s i = (s', Some f)"
  shows "3 \<le> cp_cpuHighStreak s' \<and>
     (fst (snd (judgeRtt s (pi_probeRttMs i))) \<or>
      (\<exists>e \<in> set (pi_recentEvents i). cp_after_floor (cp_evidenceFloorAt s) (snd e)) \<or>
      2 \<le> length (filter (cp_after_floor (cp_evidenceFloorAt s)) (cp_replicaDropTimes s')))"
proof -
  have "3 \<le> cp_cpuHighStreak s'" using eval_cp_finding(3) [OF assms] by (simp add: cp_consts)
  moreover have False
    if "\<not> fst (snd (judgeRtt s (pi_probeRttMs i)))"
      "\<forall>e \<in> set (pi_recentEvents i). \<not> cp_after_floor (cp_evidenceFloorAt s) (snd e)"
      "\<not> 2 \<le> length (filter (cp_after_floor (cp_evidenceFloorAt s)) (cp_replicaDropTimes s'))"
    using eval_cp_finding(5) [OF assms] that
    by (auto simp: describeCorroboration_def Let_def filter_False split: if_splits bool.splits)
  ultimately show ?thesis by blast
qed

definition cp_poll :: "real \<Rightarrow> real \<Rightarrow> (MetricType \<times> int) list \<Rightarrow> int \<Rightarrow> cp_input" where
  "cp_poll cpu drops events t = \<lparr>pi_cpuUtilization = Some cpu, pi_cpuCounterReset = False,
     pi_probeRttMs = None, pi_replicaDropCount = drops, pi_recentEvents = events, pi_timestamp = t\<rparr>"

definition cp_busy :: cp_state where
  "cp_busy = fst (run_polls cp_eval cp_ack createControlPlaneState
     [(cp_poll 95 0 [] 1000, True), (cp_poll 96 0 [] 2000, True), (cp_poll 97 0 [] 3000, True)])"

lemmas cp_exec = cp_busy_def cp_poll_def cp_eval_def cp_ack_def evaluateControlPlaneSaturation_def judgeRtt_def
  createControlPlaneState_def describeCorroboration_def cp_after_floor_def acknowledgeSaturationFinding_def
  within_ms_def cp_consts poll_step_def Let_def js_uniq_def

theorem saturation_needs_evidence_witness:
  "snd (evaluateControlPlaneSaturation cp_busy (cp_poll 98 0 [] 4000)) = None \<and>
   (\<exists>s' f. evaluateControlPlaneSaturation cp_busy (cp_poll 98 2 [] 4000) = (s', Some f) \<and> 3 \<le> cp_cpuHighStreak s')"
proof -
  have "snd (evaluateControlPlaneSaturation cp_busy (cp_poll 98 2 [] 4000)) \<noteq> None"
    by (simp add: cp_exec numeral_2_eq_2)
  then obtain s' f where "evaluateControlPlaneSaturation cp_busy (cp_poll 98 2 [] 4000) = (s', Some f)"
    by (metis not_Some_eq prod.collapse)
  moreover have "snd (evaluateControlPlaneSaturation cp_busy (cp_poll 98 0 [] 4000)) = None"
    by (simp add: cp_exec)
  ultimately show ?thesis using saturation_needs_evidence by blast
qed

text \<open>
  One alert per saturation episode: in any run of polls the alerts number at most one more than
  the polls that ended an episode (CPU back under 90 percent, or a server restart).
\<close>

theorem saturation_alerts_bounded:
  "length (snd (run_polls cp_eval cp_ack s ps)) \<le> 1 + rearms cp_acked cp_eval cp_ack s ps
   \<and> (if cp_acked (fst (cp_eval s i)) < cp_acked s
      then pi_cpuCounterReset i \<or> (\<exists>cpu. pi_cpuUtilization i = Some cpu \<and> cpu < 90) else True)"
proof -
  have "pi_cpuCounterReset i \<or> (\<exists>cpu. pi_cpuUtilization i = Some cpu \<and> cpu < 90)"
    if "cp_acked (fst (cp_eval s i)) < cp_acked s"
    using that
    by (auto simp: cp_acked_def cp_step_defs SATURATION_CPU_PCT_def split: if_splits option.splits)
  with cpsat.alerts_bounded [of s ps] show ?thesis by simp
qed

text \<open>
  Evidence is used once: after a saturation alert at time t is acknowledged, anomalies and
  replica drops recorded at or before t cannot corroborate the next finding; without a fresh
  round-trip spike it needs an event or two drops later than t.
\<close>

theorem saturation_evidence_not_reused:
  assumes "cp_evidenceFloorAt s = Some t" and "evaluateControlPlaneSaturation s i = (s', Some f)"
    and "\<not> fst (snd (judgeRtt s (pi_probeRttMs i)))"
  shows "(\<exists>e \<in> set (pi_recentEvents i). t < snd e) \<or> 2 \<le> length (filter (\<lambda>d. t < d) (cp_replicaDropTimes s'))"
proof -
  have "False" if "\<forall>e \<in> set (pi_recentEvents i). \<not> t < snd e"
    "\<not> 2 \<le> length (filter (\<lambda>d. t < d) (cp_replicaDropTimes s'))"
    using eval_cp_finding(5) [OF assms(2)] that assms(1,3)
    by (auto simp: describeCorroboration_def Let_def filter_False cp_after_floor_Some split: if_splits bool.splits)
  then show ?thesis by blast
qed

definition cp_rearmed :: cp_state where
  "cp_rearmed = fst (run_polls cp_eval cp_ack cp_busy
     [(cp_poll 98 2 [] 4000, True), (cp_poll 50 0 [] 5000, True), (cp_poll 95 0 [] 6000, True), (cp_poll 95 0 [] 7000, True)])"

theorem saturation_evidence_not_reused_witness:
  "snd (evaluateControlPlaneSaturation cp_rearmed (cp_poll 95 0 [(CLUSTER_STATE, 4000)] 8000)) = None"
proof -
  have fl: "cp_evidenceFloorAt cp_rearmed = Some 4000"
    by (simp add: cp_rearmed_def cp_exec numeral_2_eq_2)
  show ?thesis
  proof (rule ccontr)
    assume "\<not> ?thesis"
    then obtain s' f where ev: "evaluateControlPlaneSaturation cp_rearmed (cp_poll 95 0 [(CLUSTER_STATE, 4000)] 8000) = (s', Some f)"
      by (metis not_Some_eq prod.collapse)
    have "cp_replicaDropTimes s' = [4000, 4000]"
      using ev by (auto simp: cp_rearmed_def cp_exec numeral_2_eq_2)
    with saturation_evidence_not_reused [OF fl ev] show False
      by (simp add: judgeRtt_def cp_poll_def)
  qed
qed

text \<open>
  The round-trip baseline is bounded and the recognizer is exact: a run of polls keeps at most
  30 samples, and every event the constructor builds is recognized by its marker while an event
  without the marker is not.
\<close>

theorem saturation_marker_and_window:
  "length (cp_rttSamples (fst (run_polls cp_eval cp_ack createControlPlaneState ps))) \<le> 30 \<and>
   isControlPlaneSaturationEvent (createControlPlaneSaturationEvent f u t c) \<and>
   \<not> isControlPlaneSaturationEvent ((createControlPlaneSaturationEvent f u t c)\<lparr>ev_syntheticPattern := None\<rparr>)"
proof -
  have "length (cp_rttSamples (fst (run_polls cp_eval cp_ack createControlPlaneState ps))) \<le> RTT_SAMPLE_LIMIT"
    by (rule run_polls_invariant)
      (simp_all add: eval_cp_samples cp_ack_def acknowledgeSaturationFinding_def createControlPlaneState_def)
  then show ?thesis
    by (simp add: isControlPlaneSaturationEvent_def createControlPlaneSaturationEvent_def RTT_SAMPLE_LIMIT_def)
qed

end
