(* ===== verification/Correlator.thy ===== *)
theory Correlator
  imports Control_Plane
begin

text \<open>
  The correlator, correlator.ts: anomalies are sorted, cut into time windows, each window is
  matched against an ordered list of pattern rules and becomes one group. A rule is named by
  \<open>rule_id\<close>, which stands for its diagnosis and recommendation texts; the texts selected at run
  time are constructors of \<open>diagnosis\<close> and \<open>recommendations\<close>. Group ids are the argument
  \<open>fresh\<close>, the id drawn for the n-th group.
\<close>

section \<open>The rules\<close>

datatype rule_id =
    R_saturation | R_auth_attack | R_failover_role | R_failover_cluster | R_persistence | R_slowlog
  | R_memory | R_thrashing | R_leak | R_batch | R_burst | R_single_ops | R_single_input
  | R_single_output | R_single_frag | R_single_evicted | R_single_conn | R_single_blocked | R_single_misses

datatype diagnosis =
    RuleDiagnosis rule_id | FailoverWithSlowlog | ClusterStateWithSlowlog
  | SingleAnomaly MetricType | MultipleAnomalies "MetricType list" | UnknownPattern

datatype recommendations = RuleRecommendations rule_id | InvestigateMetric | InvestigateCorrelation | NoRecommendations

record PatternRule =
  pr_pattern :: AnomalyPattern
  pr_requiredMetrics :: "MetricType list"
  pr_optionalMetrics :: "MetricType list"
  pr_diagnosis :: diagnosis
  pr_recommendations :: recommendations
  pr_check :: "(AnomalyEvent list \<Rightarrow> bool) option"

record CorrelatedAnomalyGroup =
  cg_correlationId :: string
  cg_timestamp :: int
  cg_anomalies :: "AnomalyEvent list"
  cg_pattern :: AnomalyPattern
  cg_diagnosis :: diagnosis
  cg_recommendations :: recommendations
  cg_severity :: AnomalySeverity

definition has_metric :: "MetricType \<Rightarrow> AnomalyEvent list \<Rightarrow> bool" where
  "has_metric m anomalies = list_ex (\<lambda>a. ev_metricType a = m) anomalies"

definition has_spike :: "MetricType \<Rightarrow> AnomalyEvent list \<Rightarrow> bool" where
  "has_spike m anomalies = list_ex (\<lambda>a. ev_metricType a = m \<and> ev_anomalyType a = SPIKE) anomalies"

definition check_saturation :: "AnomalyEvent list \<Rightarrow> bool" where
  "check_saturation anomalies = list_ex isControlPlaneSaturationEvent anomalies"

definition check_role :: "AnomalyEvent list \<Rightarrow> bool" where
  "check_role anomalies = has_metric REPLICATION_ROLE anomalies"

definition check_memory :: "AnomalyEvent list \<Rightarrow> bool" where
  "check_memory anomalies =
     (let hasMemorySpike = has_spike MEMORY_USED anomalies; hasEvictions = has_metric EVICTED_KEYS anomalies
      in hasMemorySpike \<and> (hasEvictions \<or> length anomalies = 1))"

definition check_leak :: "AnomalyEvent list \<Rightarrow> bool" where
  "check_leak anomalies =
     (case List.find (\<lambda>a. ev_metricType a = CONNECTIONS) anomalies of
        None \<Rightarrow> False
      | Some connAnomaly \<Rightarrow>
          if ev_anomalyType connAnomaly \<noteq> SPIKE then False else \<not> has_metric OPS_PER_SEC anomalies)"

definition check_batch :: "AnomalyEvent list \<Rightarrow> bool" where
  "check_batch anomalies = (has_spike CONNECTIONS anomalies \<and> has_spike OPS_PER_SEC anomalies \<and> has_spike MEMORY_USED anomalies)"

definition check_burst :: "AnomalyEvent list \<Rightarrow> bool" where
  "check_burst anomalies = (has_spike CONNECTIONS anomalies \<and> has_spike OPS_PER_SEC anomalies \<and> \<not> has_spike MEMORY_USED anomalies)"

definition mk_rule ::
  "AnomalyPattern \<Rightarrow> MetricType list \<Rightarrow> MetricType list \<Rightarrow> rule_id \<Rightarrow> (AnomalyEvent list \<Rightarrow> bool) option \<Rightarrow> PatternRule" where
  "mk_rule pattern required opt rid chk =
     \<lparr>pr_pattern = pattern, pr_requiredMetrics = required, pr_optionalMetrics = opt,
      pr_diagnosis = RuleDiagnosis rid, pr_recommendations = RuleRecommendations rid, pr_check = chk\<rparr>"

text \<open>The rules in the order of the source: state signals first, then metric combinations, then the
  single-metric catch-alls.\<close>

definition rules_state :: "PatternRule list" where
  "rules_state =
     [mk_rule CONTROL_PLANE_SATURATION [CPU_UTILIZATION] [] R_saturation (Some check_saturation),
      mk_rule AUTH_ATTACK [ACL_DENIED] [] R_auth_attack None,
      mk_rule NODE_FAILOVER [REPLICATION_ROLE] [SLOWLOG_LAST_ID, CLUSTER_STATE, OPS_PER_SEC] R_failover_role (Some check_role),
      mk_rule NODE_FAILOVER [CLUSTER_STATE] [] R_failover_cluster None,
      mk_rule PERSISTENCE_STALL [PERSISTENCE_CHILD] [] R_persistence None,
      mk_rule SLOW_QUERIES [SLOWLOG_LAST_ID] [] R_slowlog None]"

definition rules_combined :: "PatternRule list" where
  "rules_combined =
     [mk_rule MEMORY_PRESSURE [MEMORY_USED] [EVICTED_KEYS, FRAGMENTATION_RATIO] R_memory (Some check_memory),
      mk_rule CACHE_THRASHING [KEYSPACE_MISSES, EVICTED_KEYS] [] R_thrashing None,
      mk_rule CONNECTION_LEAK [CONNECTIONS] [] R_leak (Some check_leak),
      mk_rule BATCH_JOB [CONNECTIONS, OPS_PER_SEC] [MEMORY_USED] R_batch (Some check_batch),
      mk_rule TRAFFIC_BURST [CONNECTIONS, OPS_PER_SEC] [] R_burst (Some check_burst)]"

definition rules_single :: "PatternRule list" where
  "rules_single =
     [mk_rule TRAFFIC_BURST [OPS_PER_SEC] [] R_single_ops None,
      mk_rule TRAFFIC_BURST [INPUT_KBPS] [] R_single_input None,
      mk_rule TRAFFIC_BURST [OUTPUT_KBPS] [] R_single_output None,
      mk_rule MEMORY_PRESSURE [FRAGMENTATION_RATIO] [] R_single_frag None,
      mk_rule MEMORY_PRESSURE [EVICTED_KEYS] [] R_single_evicted None,
      mk_rule CONNECTION_LEAK [CONNECTIONS] [] R_single_conn None,
      mk_rule SLOW_QUERIES [BLOCKED_CLIENTS] [] R_single_blocked None,
      mk_rule CACHE_THRASHING [KEYSPACE_MISSES] [] R_single_misses None]"

definition patternRules :: "PatternRule list" where
  "patternRules = rules_state @ rules_combined @ rules_single"

lemmas patternRules_defs = patternRules_def rules_state_def rules_combined_def rules_single_def

section \<open>Operations\<close>

definition rule_matches :: "AnomalyEvent list \<Rightarrow> PatternRule \<Rightarrow> bool" where
  "rule_matches anomalies rule =
     (let metricTypes = js_uniq (map ev_metricType anomalies);
          hasAllRequired = list_all (\<lambda>m. m \<in> set metricTypes) (pr_requiredMetrics rule)
      in hasAllRequired \<and> (case pr_check rule of Some chk \<Rightarrow> chk anomalies | None \<Rightarrow> True))"

definition detectPattern :: "AnomalyEvent list \<Rightarrow> PatternRule option" where
  "detectPattern anomalies = List.find (rule_matches anomalies) patternRules"

primrec severityOrder :: "AnomalySeverity \<Rightarrow> nat" where
  "severityOrder INFO = 0"
| "severityOrder WARNING = 1"
| "severityOrder CRITICAL = 2"

definition maxSeverity :: "AnomalyEvent list \<Rightarrow> AnomalySeverity" where
  "maxSeverity anomalies =
     foldl (\<lambda>mx a. if severityOrder (ev_severity a) > severityOrder mx then ev_severity a else mx) INFO anomalies"

definition enrichDiagnosis :: "PatternRule \<Rightarrow> AnomalyEvent list \<Rightarrow> diagnosis" where
  "enrichDiagnosis rule anomalies =
     (if pr_pattern rule = NODE_FAILOVER then
        let hasSlowlogSpike = has_metric SLOWLOG_LAST_ID anomalies;
            hasClusterState = has_metric CLUSTER_STATE anomalies;
            hasRoleChange = has_metric REPLICATION_ROLE anomalies
        in if hasRoleChange \<and> hasSlowlogSpike then FailoverWithSlowlog
           else if hasClusterState \<and> hasSlowlogSpike then ClusterStateWithSlowlog
           else pr_diagnosis rule
      else pr_diagnosis rule)"

text \<open>
  createGroup stamps the correlation id and the related metrics on its events. The ids of the
  events do not change, so mapping over the original window reads the same as the source's
  in-place update.
\<close>

definition stamp :: "string \<Rightarrow> AnomalyEvent list \<Rightarrow> AnomalyEvent \<Rightarrow> AnomalyEvent" where
  "stamp correlationId anomalies a =
     a\<lparr>ev_correlationId := Some correlationId,
       ev_relatedMetrics := Some (map ev_metricType (filter (\<lambda>other. ev_id other \<noteq> ev_id a) anomalies))\<rparr>"

definition createGroup :: "string \<Rightarrow> AnomalyEvent list \<Rightarrow> PatternRule \<Rightarrow> CorrelatedAnomalyGroup" where
  "createGroup correlationId anomalies rule =
     \<lparr>cg_correlationId = correlationId,
      cg_timestamp = Min (set (map ev_timestamp anomalies)),
      cg_anomalies = map (stamp correlationId anomalies) anomalies,
      cg_pattern = pr_pattern rule,
      cg_diagnosis = enrichDiagnosis rule anomalies,
      cg_recommendations = pr_recommendations rule,
      cg_severity = maxSeverity anomalies\<rparr>"

text \<open>The window loop over the sorted anomalies: \<open>cur\<close> is \<open>currentWindow\<close>.\<close>

fun window_loop :: "int \<Rightarrow> int \<Rightarrow> AnomalyEvent list \<Rightarrow> AnomalyEvent list list \<Rightarrow> AnomalyEvent list \<Rightarrow> AnomalyEvent list list" where
  "window_loop w windowStart cur windows [] = (if length cur > 0 then windows @ [cur] else windows)"
| "window_loop w windowStart cur windows (a # as) =
     (if ev_timestamp a - windowStart \<le> w then window_loop w windowStart (cur @ [a]) windows as
      else window_loop w (ev_timestamp a) [a] (if length cur > 0 then windows @ [cur] else windows) as)"

definition correlation_windows :: "int \<Rightarrow> AnomalyEvent list \<Rightarrow> AnomalyEvent list list" where
  "correlation_windows w events =
     (case events of [] \<Rightarrow> [] | first # _ \<Rightarrow> window_loop w (ev_timestamp first) [] [] events)"

definition unknown_rule :: "diagnosis \<Rightarrow> recommendations \<Rightarrow> PatternRule" where
  "unknown_rule d r = \<lparr>pr_pattern = UNKNOWN, pr_requiredMetrics = [], pr_optionalMetrics = [],
     pr_diagnosis = d, pr_recommendations = r, pr_check = None\<rparr>"

definition correlate_window :: "string \<Rightarrow> AnomalyEvent list \<Rightarrow> CorrelatedAnomalyGroup" where
  "correlate_window correlationId windowAnomalies =
     (if length windowAnomalies = 1 then
        case detectPattern windowAnomalies of
          Some rule \<Rightarrow> createGroup correlationId windowAnomalies rule
        | None \<Rightarrow> createGroup correlationId windowAnomalies
            (unknown_rule (SingleAnomaly (ev_metricType (windowAnomalies ! 0))) InvestigateMetric)
      else
        case detectPattern windowAnomalies of
          Some rule \<Rightarrow> createGroup correlationId windowAnomalies rule
        | None \<Rightarrow> createGroup correlationId windowAnomalies
            (unknown_rule (MultipleAnomalies (map ev_metricType windowAnomalies)) InvestigateCorrelation))"

definition correlate :: "int \<Rightarrow> (nat \<Rightarrow> string) \<Rightarrow> AnomalyEvent list \<Rightarrow> CorrelatedAnomalyGroup list" where
  "correlate correlationWindowMs fresh anomalies =
     (if length anomalies = 0 then []
      else let sorted = sort_key ev_timestamp anomalies;
               windows = correlation_windows correlationWindowMs sorted
           in map (\<lambda>(n, win). correlate_window (fresh n) win) (List.enumerate 0 windows))"

definition getPatternDescription :: "AnomalyPattern \<Rightarrow> diagnosis" where
  "getPatternDescription pattern =
     (case List.find (\<lambda>r. pr_pattern r = pattern) patternRules of None \<Rightarrow> UnknownPattern | Some r \<Rightarrow> pr_diagnosis r)"

definition getPatternRecommendations :: "AnomalyPattern \<Rightarrow> recommendations" where
  "getPatternRecommendations pattern =
     (case List.find (\<lambda>r. pr_pattern r = pattern) patternRules of None \<Rightarrow> NoRecommendations | Some r \<Rightarrow> pr_recommendations r)"

section \<open>Windows\<close>

text \<open>A window is non-empty, sorted, and spans at most \<open>w\<close> from its first event.\<close>

definition window_ok :: "int \<Rightarrow> AnomalyEvent list \<Rightarrow> bool" where
  "window_ok w win \<longleftrightarrow> win \<noteq> [] \<and> sorted (map ev_timestamp win) \<and>
     (\<forall>a \<in> set win. ev_timestamp a - ev_timestamp (hd win) \<le> w)"

lemma window_loop_concat: "concat (window_loop w st cur ws as) = concat ws @ cur @ as"
  by (induction w st cur ws as rule: window_loop.induct) auto

lemma window_loop_ok:
  assumes "\<forall>win \<in> set ws. window_ok w win" and "sorted (map ev_timestamp (cur @ as))" and "0 \<le> w"
    and "\<forall>a \<in> set cur. ev_timestamp a - st \<le> w" and "cur \<noteq> [] \<Longrightarrow> st = ev_timestamp (hd cur)"
    and "cur = [] \<Longrightarrow> as \<noteq> [] \<Longrightarrow> st = ev_timestamp (hd as)"
  shows "\<forall>win \<in> set (window_loop w st cur ws as). window_ok w win"
  using assms
proof (induction w st cur ws as rule: window_loop.induct)
  case (1 w st cur ws)
  then show ?case by (auto simp: window_ok_def)
next
  case (2 w st cur ws a as)
  show ?case
  proof (cases "ev_timestamp a - st \<le> w")
    case True
    have "\<forall>win \<in> set (window_loop w st (cur @ [a]) ws as). window_ok w win"
      by (rule 2(1) [OF True]) (use 2(3-) True in \<open>auto simp: hd_append\<close>)
    with True show ?thesis by simp
  next
    case False
    with 2(8) 2(5) have "cur \<noteq> []" by auto
    with 2(3-) have "window_ok w cur" by (auto simp: window_ok_def sorted_append)
    have "\<forall>win \<in> set (window_loop w (ev_timestamp a) [a] (if length cur > 0 then ws @ [cur] else ws) as). window_ok w win"
      by (rule 2(2) [OF False]) (use 2(3-) \<open>window_ok w cur\<close> in \<open>auto simp: sorted_append\<close>)
    with False show ?thesis by simp
  qed
qed

text \<open>Windows are maximal: the next window opens more than \<open>w\<close> after the previous one did.\<close>

fun windows_apart :: "int \<Rightarrow> AnomalyEvent list list \<Rightarrow> bool" where
  "windows_apart w (u # v # ws) = (w < ev_timestamp (hd v) - ev_timestamp (hd u) \<and> windows_apart w (v # ws))"
| "windows_apart w _ = True"

lemma windows_apart_snoc:
  "windows_apart w (ws @ [u, v]) \<longleftrightarrow> windows_apart w (ws @ [u]) \<and> w < ev_timestamp (hd v) - ev_timestamp (hd u)"
proof (induction ws)
  case (Cons x ws)
  then show ?case by (cases ws) auto
qed simp

lemma window_loop_apart:
  assumes "cur \<noteq> []" and "st = ev_timestamp (hd cur)" and "windows_apart w (ws @ [cur])"
  shows "windows_apart w (window_loop w st cur ws as)"
  using assms
proof (induction w st cur ws as rule: window_loop.induct)
  case (2 w st cur ws a as)
  have hd_same: "windows_apart w (ws @ [cur @ [a]]) = windows_apart w (ws @ [cur])"
    using 2(3) by (induction ws rule: rev_induct) (auto simp: windows_apart_snoc)
  show ?case
  proof (cases "ev_timestamp a - st \<le> w")
    case True
    from 2(1) [OF True] 2(3-5) True show ?thesis by (simp add: hd_same)
  next
    case False
    with 2(3-5) have "windows_apart w ((ws @ [cur]) @ [[a]])" by (simp add: windows_apart_snoc)
    with 2(2) [OF False] 2(3) False show ?thesis by simp
  qed
qed simp

lemma correlation_windows_ok:
  assumes "0 \<le> w" and "sorted (map ev_timestamp as)"
  shows "\<forall>win \<in> set (correlation_windows w as). window_ok w win" and "concat (correlation_windows w as) = as"
    and "windows_apart w (correlation_windows w as)"
proof -
  show "concat (correlation_windows w as) = as"
    by (cases as) (simp_all add: correlation_windows_def window_loop_concat)
  show "\<forall>win \<in> set (correlation_windows w as). window_ok w win"
  proof (cases as)
    case (Cons a as')
    show ?thesis
      unfolding correlation_windows_def Cons list.case
      by (rule window_loop_ok) (use assms Cons in auto)
  qed (simp add: correlation_windows_def)
  show "windows_apart w (correlation_windows w as)"
  proof (cases as)
    case (Cons a as')
    with assms(1) window_loop_apart [of "[a]" "ev_timestamp a" w "[]" as'] show ?thesis
      by (simp add: correlation_windows_def)
  qed (simp add: correlation_windows_def)
qed

section \<open>Groups\<close>

lemma stamp_fields [simp]:
  "ev_timestamp (stamp c as a) = ev_timestamp a" "ev_metricType (stamp c as a) = ev_metricType a"
  "ev_severity (stamp c as a) = ev_severity a" "ev_id (stamp c as a) = ev_id a"
  "ev_correlationId (stamp c as a) = Some c"
  by (simp_all add: stamp_def)

definition uncorrelated :: "AnomalyEvent \<Rightarrow> AnomalyEvent" where
  "uncorrelated a = a\<lparr>ev_correlationId := None, ev_relatedMetrics := None\<rparr>"

lemma uncorrelated_stamp [simp]: "uncorrelated (stamp c as a) = uncorrelated a"
  by (simp add: uncorrelated_def stamp_def)

lemma correlate_window_fields [simp]:
  "cg_anomalies (correlate_window c win) = map (stamp c win) win"
  "cg_correlationId (correlate_window c win) = c"
  "cg_severity (correlate_window c win) = maxSeverity win"
  "cg_timestamp (correlate_window c win) = Min (set (map ev_timestamp win))"
  by (simp_all add: correlate_window_def createGroup_def split: option.split)

lemma maxSeverity_upper: "a \<in> set as \<Longrightarrow> severityOrder (ev_severity a) \<le> severityOrder (maxSeverity as)"
proof (induction as rule: rev_induct)
  case (snoc x xs)
  then show ?case by (auto simp: maxSeverity_def)
qed simp

lemma maxSeverity_attained: "maxSeverity as = INFO \<or> maxSeverity as \<in> ev_severity ` set as"
  by (induction as rule: rev_induct) (auto simp: maxSeverity_def)

lemma severityOrder_0 [simp]: "severityOrder s = 0 \<longleftrightarrow> s = INFO"
  by (cases s) simp_all

lemma maxSeverity_mem: "as \<noteq> [] \<Longrightarrow> maxSeverity as \<in> ev_severity ` set as"
  using maxSeverity_attained [of as] maxSeverity_upper [of "hd as" as]
  by (cases as) (auto simp: image_iff)

lemma window_ok_Min: "window_ok w win \<Longrightarrow> Min (set (map ev_timestamp win)) = ev_timestamp (hd win)"
  by (cases win) (auto simp: window_ok_def intro!: Min_eqI)

section \<open>Properties\<close>

lemma windows_apart_nth:
  "windows_apart w ws \<Longrightarrow> Suc i < length ws \<Longrightarrow> w < ev_timestamp (hd (ws ! Suc i)) - ev_timestamp (hd (ws ! i))"
proof (induction w ws arbitrary: i rule: windows_apart.induct)
  case (1 w u v ws)
  then show ?case by (cases i) auto
qed auto

lemma correlate_windows:
  assumes "0 \<le> w" and "ws = correlation_windows w (sort_key ev_timestamp as)"
  shows "correlate w fresh as = map (\<lambda>(n, win). correlate_window (fresh n) win) (List.enumerate 0 ws)"
    and "\<forall>win \<in> set ws. window_ok w win" and "concat ws = sort_key ev_timestamp as"
    and "windows_apart w ws"
  using correlation_windows_ok [OF assms(1), of "sort_key ev_timestamp as"] assms(2)
  by (auto simp: correlate_def correlation_windows_def Let_def split: list.split)

text \<open>A group's timestamp is its first event's, and the next group opens after its window.\<close>

lemma group_timestamp:
  assumes "0 \<le> w" and "g \<in> set (correlate w fresh as)"
  shows "cg_anomalies g \<noteq> []" and "cg_timestamp g = ev_timestamp (hd (cg_anomalies g))"
proof -
  from assms(2) obtain n win where g: "g = correlate_window (fresh n) win"
    and win: "win \<in> set (correlation_windows w (sort_key ev_timestamp as))"
    by (auto simp: correlate_windows(1) [OF assms(1) refl] in_set_enumerate_eq)
  have ok: "window_ok w win" using correlate_windows(2) [OF assms(1) refl] win by blast
  then show "cg_anomalies g \<noteq> []" by (simp add: g window_ok_def)
  show "cg_timestamp g = ev_timestamp (hd (cg_anomalies g))"
    using window_ok_Min [OF ok] ok by (simp add: g window_ok_def hd_map)
qed

lemma groups_apart:
  assumes "0 \<le> w" and "Suc i < length (correlate w fresh as)"
  shows "w < cg_timestamp (correlate w fresh as ! Suc i) - cg_timestamp (correlate w fresh as ! i)"
proof -
  define ws where "ws = correlation_windows w (sort_key ev_timestamp as)"
  note groups = correlate_windows [OF assms(1) ws_def]
  have ts: "cg_timestamp (correlate w fresh as ! j) = ev_timestamp (hd (ws ! j))" if "j < length ws" for j
  proof -
    from that have "window_ok w (ws ! j)" using groups(2) by simp
    with that show ?thesis by (simp add: groups(1) nth_enumerate_eq window_ok_Min [simplified])
  qed
  have "Suc i < length ws" using assms(2) by (simp add: groups(1))
  with windows_apart_nth [OF groups(4) this] show ?thesis by (simp add: ts)
qed

text \<open>
  C4: Correlation is the partition into maximal time windows: read in order and with the correlation
  fields cleared, the groups' events are exactly the input sorted by timestamp (nothing lost, nothing
  twice); a group's timestamp is its first event's and every event of the group is within the window
  of it; and the next group opens after that window, so no group ends early.
\<close>

theorem correlate_partitions:
  assumes "0 \<le> w"
  shows "map uncorrelated (concat (map cg_anomalies (correlate w fresh as))) = map uncorrelated (sort_key ev_timestamp as)
       \<and> (\<forall>g \<in> set (correlate w fresh as). cg_anomalies g \<noteq> [] \<and> cg_timestamp g = ev_timestamp (hd (cg_anomalies g)) \<and>
            (\<forall>a \<in> set (cg_anomalies g). 0 \<le> ev_timestamp a - cg_timestamp g \<and> ev_timestamp a - cg_timestamp g \<le> w \<and>
               ev_correlationId a = Some (cg_correlationId g)))
       \<and> (\<forall>i. Suc i < length (correlate w fresh as) \<longrightarrow>
            w < cg_timestamp (correlate w fresh as ! Suc i) - cg_timestamp (correlate w fresh as ! i))"
proof -
  define ws where "ws = correlation_windows w (sort_key ev_timestamp as)"
  note groups = correlate_windows [OF assms ws_def]
  have "map uncorrelated (concat (map cg_anomalies (correlate w fresh as))) = concat (map (map uncorrelated) ws)"
    using map_map [of "map uncorrelated" snd "List.enumerate 0 ws"]
    by (simp add: groups(1) map_concat comp_def case_prod_beta)
  also have "\<dots> = map uncorrelated (sort_key ev_timestamp as)" using groups(3) by (simp add: map_concat [symmetric])
  finally have part: "map uncorrelated (concat (map cg_anomalies (correlate w fresh as))) = map uncorrelated (sort_key ev_timestamp as)" .
  have "0 \<le> ev_timestamp a - cg_timestamp g \<and> ev_timestamp a - cg_timestamp g \<le> w \<and> ev_correlationId a = Some (cg_correlationId g)"
    if "g \<in> set (correlate w fresh as)" "a \<in> set (cg_anomalies g)" for g a
  proof -
    from that obtain n win where g: "g = correlate_window (fresh n) win" and win: "win \<in> set ws"
      by (auto simp: groups(1) in_set_enumerate_eq)
    from groups(2) win have okw: "window_ok w win" by blast
    then have low: "ev_timestamp (hd win) \<le> ev_timestamp b" if "b \<in> set win" for b
      using that by (cases win) (auto simp: window_ok_def)
    from okw low window_ok_Min [OF okw] that(2) show ?thesis by (auto simp: g window_ok_def)
  qed
  with part group_timestamp [OF assms] groups_apart [OF assms] show ?thesis by blast
qed

text \<open>
  A group's severity is the highest of its events', and it is the severity of one of them.
\<close>

theorem group_severity_is_max:
  assumes "g \<in> set (correlate w fresh as)" and "0 \<le> w"
  shows "cg_severity g \<in> ev_severity ` set (cg_anomalies g) \<and>
         (\<forall>a \<in> set (cg_anomalies g). severityOrder (ev_severity a) \<le> severityOrder (cg_severity g))"
proof -
  note ok = correlation_windows_ok(1) [OF assms(2), of "sort_key ev_timestamp as", simplified]
  from assms(1) obtain n win where g: "g = correlate_window (fresh n) win"
    and "win \<in> set (correlation_windows w (sort_key ev_timestamp as))"
    by (auto simp: correlate_def Let_def in_set_enumerate_eq split: if_splits)
  with ok have "win \<noteq> []" by (auto simp: window_ok_def)
  with maxSeverity_mem [of win] maxSeverity_upper [of _ win] show ?thesis by (auto simp: g image_iff)
qed

definition sample_event :: "string \<Rightarrow> MetricType \<Rightarrow> int \<Rightarrow> AnomalySeverity \<Rightarrow> AnomalyEvent" where
  "sample_event i m t sev = state_event i t m SPIKE sev 1 0 0 ''c''"

theorem correlate_partitions_witness:
  "map uncorrelated (concat (map cg_anomalies (correlate 5000 (\<lambda>n. ''g'')
      [sample_event ''b'' CLUSTER_STATE 9000 WARNING, sample_event ''a'' CONNECTIONS 1000 INFO])))
   = [sample_event ''a'' CONNECTIONS 1000 INFO, sample_event ''b'' CLUSTER_STATE 9000 WARNING]"
  using correlate_partitions [of 5000 "\<lambda>n. ''g''" "[sample_event ''b'' CLUSTER_STATE 9000 WARNING, sample_event ''a'' CONNECTIONS 1000 INFO]"]
  by (simp add: sample_event_def state_event_def uncorrelated_def)

theorem group_severity_is_max_witness:
  "\<exists>g \<in> set (correlate 5000 (\<lambda>n. ''g'') [sample_event ''b'' CLUSTER_STATE 1000 WARNING, sample_event ''a'' CONNECTIONS 1500 INFO]).
     cg_severity g \<in> ev_severity ` set (cg_anomalies g) \<and> cg_severity g = WARNING"
proof -
  let ?gs = "correlate 5000 (\<lambda>n. ''g'') [sample_event ''b'' CLUSTER_STATE 1000 WARNING, sample_event ''a'' CONNECTIONS 1500 INFO]"
  have len: "?gs \<noteq> []" and sev: "cg_severity (hd ?gs) = WARNING"
    by (simp_all add: correlate_def correlation_windows_def sample_event_def state_event_def maxSeverity_def Let_def)
  then have mem: "hd ?gs \<in> set ?gs" by simp
  from group_severity_is_max [OF mem] sev mem show ?thesis by (intro bexI [OF _ mem]) simp
qed

text \<open>
  Windows are maximal: consecutive groups start more than the correlation window apart, so two
  anomalies within the window of a group's first event are never split into later groups.
\<close>

theorem correlate_groups_apart:
  assumes "0 \<le> w" and "gs = correlate w fresh as" and "Suc i < length gs"
  shows "w < cg_timestamp (gs ! Suc i) - cg_timestamp (gs ! i)"
  using groups_apart [OF assms(1), of i fresh as] assms(2,3) by simp

theorem correlate_groups_apart_witness:
  "let gs = correlate 5000 (\<lambda>n. ''g'') [sample_event ''b'' CLUSTER_STATE 9000 WARNING, sample_event ''a'' CONNECTIONS 1000 INFO]
   in length gs = 2 \<and> 5000 < cg_timestamp (gs ! 1) - cg_timestamp (gs ! 0)"
proof -
  let ?gs = "correlate 5000 (\<lambda>n. ''g'') [sample_event ''b'' CLUSTER_STATE 9000 WARNING, sample_event ''a'' CONNECTIONS 1000 INFO]"
  have "length ?gs = 2"
    by (simp add: correlate_def correlation_windows_def sample_event_def state_event_def Let_def)
  with correlate_groups_apart [OF _ refl, of 5000 0 "\<lambda>n. ''g''" "[sample_event ''b'' CLUSTER_STATE 9000 WARNING, sample_event ''a'' CONNECTIONS 1000 INFO]"]
  show ?thesis by (simp add: Let_def)
qed

section \<open>Pattern priority\<close>

lemma has_metric_iff: "has_metric m as \<longleftrightarrow> m \<in> ev_metricType ` set as"
  by (auto simp: has_metric_def list_ex_iff)

lemma rule_matches_mk [simp]:
  "rule_matches as (mk_rule p req opt rid chk) \<longleftrightarrow>
     list_all (\<lambda>m. has_metric m as) req \<and> (case chk of Some c \<Rightarrow> c as | None \<Rightarrow> True)"
  by (simp add: rule_matches_def mk_rule_def has_metric_iff)

lemma pr_pattern_mk [simp]: "pr_pattern (mk_rule p req opt rid chk) = p"
  by (simp add: mk_rule_def)

lemma correlate_window_pattern:
  "cg_pattern (correlate_window c win) = (case detectPattern win of None \<Rightarrow> UNKNOWN | Some r \<Rightarrow> pr_pattern r)"
  by (simp add: correlate_window_def createGroup_def unknown_rule_def split: option.split)

text \<open>
  The order of the rules decides the pattern of a window: one that holds the synthetic
  saturation event is reported as control-plane saturation whatever else it holds; otherwise an
  ACL denial makes it an auth attack, and otherwise a role or cluster-state change makes it a
  node failover, and nothing else does.
\<close>

theorem window_pattern_priority:
  "cg_pattern (correlate_window c win) =
     (if has_metric CPU_UTILIZATION win \<and> list_ex isControlPlaneSaturationEvent win then CONTROL_PLANE_SATURATION
      else if has_metric ACL_DENIED win then AUTH_ATTACK
      else if has_metric REPLICATION_ROLE win \<or> has_metric CLUSTER_STATE win then NODE_FAILOVER
      else cg_pattern (correlate_window c win)) \<and>
   (cg_pattern (correlate_window c win) = NODE_FAILOVER) =
     ((has_metric REPLICATION_ROLE win \<or> has_metric CLUSTER_STATE win) \<and> \<not> has_metric ACL_DENIED win \<and>
      \<not> (has_metric CPU_UTILIZATION win \<and> list_ex isControlPlaneSaturationEvent win))"
  by (simp add: correlate_window_pattern detectPattern_def patternRules_defs check_saturation_def check_role_def)

text \<open>
  The diagnosis of a failover mentions the slowlog exactly when the window also holds a slowlog
  anomaly; otherwise it is the matched rule's own text.
\<close>

theorem failover_diagnosis_enriched:
  assumes "cg_pattern (correlate_window c win) = NODE_FAILOVER"
  shows "(cg_diagnosis (correlate_window c win) \<in> {FailoverWithSlowlog, ClusterStateWithSlowlog}) = has_metric SLOWLOG_LAST_ID win
       \<and> (cg_diagnosis (correlate_window c win) = FailoverWithSlowlog) = (has_metric SLOWLOG_LAST_ID win \<and> has_metric REPLICATION_ROLE win)"
proof -
  obtain r where r: "detectPattern win = Some r" and p: "pr_pattern r = NODE_FAILOVER"
    using assms by (auto simp: correlate_window_pattern split: option.splits)
  then have d: "cg_diagnosis (correlate_window c win) = enrichDiagnosis r win"
    by (simp add: correlate_window_def createGroup_def)
  have "r \<in> set patternRules" and m: "rule_matches win r" using r by (auto simp: detectPattern_def find_Some_iff)
  then have "(\<exists>rid. pr_diagnosis r = RuleDiagnosis rid) \<and> (has_metric REPLICATION_ROLE win \<or> has_metric CLUSTER_STATE win)"
    using p m by (auto simp: patternRules_defs) (auto simp: mk_rule_def)
  then show ?thesis using p by (auto simp: d enrichDiagnosis_def Let_def)
qed

theorem failover_diagnosis_enriched_witness:
  "cg_diagnosis (correlate_window ''g'' [sample_event ''a'' REPLICATION_ROLE 1 CRITICAL, sample_event ''b'' SLOWLOG_LAST_ID 2 INFO])
     = FailoverWithSlowlog"
proof -
  let ?win = "[sample_event ''a'' REPLICATION_ROLE 1 CRITICAL, sample_event ''b'' SLOWLOG_LAST_ID 2 INFO]"
  have h: "has_metric m ?win = (m = REPLICATION_ROLE \<or> m = SLOWLOG_LAST_ID)" for m
    by (auto simp: has_metric_def sample_event_def state_event_def)
  have "cg_pattern (correlate_window ''g'' ?win) = NODE_FAILOVER"
    by (simp only: correlate_window_pattern detectPattern_def patternRules_defs)
      (simp add: h check_role_def)
  from failover_diagnosis_enriched [OF this] show ?thesis by (simp add: h)
qed

text \<open>
  A group can mix connections: the correlator looks at timestamps only, so two anomalies of
  different connections within the window end in one group (the service labels the group with
  the connection of the first).
\<close>

theorem correlate_mixes_connections:
  "let a = (sample_event ''a'' CONNECTIONS 1000 WARNING)\<lparr>ev_connectionId := Some ''prod''\<rparr>;
       b = (sample_event ''b'' OPS_PER_SEC 2000 WARNING)\<lparr>ev_connectionId := Some ''staging''\<rparr>;
       gs = correlate 5000 (\<lambda>n. ''g'') [a, b]
   in length gs = 1 \<and> map ev_connectionId (cg_anomalies (hd gs)) = [Some ''prod'', Some ''staging'']"
  by (simp add: Let_def correlate_def correlation_windows_def sample_event_def state_event_def stamp_def)

end
