(* ===== verification/Anomaly_Feed.thy ===== *)
theory Anomaly_Feed
  imports Anomaly_Store Correlator
begin

text \<open>
  The service's cache of anomalies and its public feed, anomaly.service.ts: recording, correlating,
  querying and resolving. The event objects are shared between \<open>recentAnomalies\<close> and the groups
  of \<open>recentGroups\<close>, and the correlator and the resolvers change them in place, so they live in an
  explicit object store whose addresses are the event ids (random or built from signature and
  timestamp, one id per object); the two caches hold addresses. A group's member objects are read
  through that store.

  Best-effort metric and telemetry emits and logging are left out. The storage operations are those
  of a \<open>StoragePort\<close>; whether \<open>saveCorrelatedGroup\<close>, whose table is not modelled, returned normally
  is the argument \<open>groupSaved\<close>. \<open>now\<close> is \<open>Date.now()\<close>.
\<close>

definition maxRecentEvents :: nat where
  "maxRecentEvents = 1000"

definition maxRecentGroups :: nat where
  "maxRecentGroups = 100"

record feed =
  fd_objects :: "(string, AnomalyEvent) jsmap"
  recentAnomalies :: "string list"
  recentGroups :: "CorrelatedAnomalyGroup list"

definition empty_feed :: feed where
  "empty_feed = \<lparr>fd_objects = [], recentAnomalies = [], recentGroups = []\<rparr>"

definition cached :: "feed \<Rightarrow> AnomalyEvent list" where
  "cached f = List.map_filter (js_get (fd_objects f)) (recentAnomalies f)"

definition find_cached :: "feed \<Rightarrow> string \<Rightarrow> AnomalyEvent option" where
  "find_cached f i = List.find (\<lambda>a. ev_id a = i) (cached f)"

definition mark_resolved :: "string \<Rightarrow> feed \<Rightarrow> feed" where
  "mark_resolved i f = (case js_get (fd_objects f) i of
     None \<Rightarrow> f | Some e \<Rightarrow> f\<lparr>fd_objects := js_set i (e\<lparr>ev_resolved := True\<rparr>) (fd_objects f)\<rparr>)"

section \<open>Recording\<close>

text \<open>\<open>ctx?.connectionId || anomaly.connectionId\<close>.\<close>

definition connection_of :: "string option \<Rightarrow> AnomalyEvent \<Rightarrow> string option" where
  "connection_of ctx e = (case truthy '''' ctx of Some c \<Rightarrow> Some c | None \<Rightarrow> ev_connectionId e)"

definition toStoredAnomalyEvent :: "AnomalyEvent \<Rightarrow> string option \<Rightarrow> StoredAnomalyEvent" where
  "toStoredAnomalyEvent e ctx =
     \<lparr>se_id = ev_id e, se_timestamp = ev_timestamp e, se_metricType = ev_metricType e,
      se_anomalyType = ev_anomalyType e, se_severity = ev_severity e, se_value = ev_value e,
      se_baseline = ev_baseline e, se_stdDev = ev_stdDev e, se_zScore = ev_zScore e,
      se_threshold = ev_threshold e, se_correlationId = ev_correlationId e,
      se_relatedMetrics = ev_relatedMetrics e, se_resolved = ev_resolved e, se_resolvedAt = None,
      se_durationMs = None, se_connectionId = connection_of ctx e\<rparr>"

definition remember :: "AnomalyEvent \<Rightarrow> feed \<Rightarrow> feed" where
  "remember e f =
     (let pushed = recentAnomalies f @ [ev_id e]
      in f\<lparr>fd_objects := js_set (ev_id e) e (fd_objects f),
           recentAnomalies := (if length pushed > maxRecentEvents then take_last maxRecentEvents pushed else pushed)\<rparr>)"

definition addAnomaly :: "'st StoragePort \<Rightarrow> string option \<Rightarrow> AnomalyEvent \<Rightarrow> feed \<times> 'st \<Rightarrow> feed \<times> 'st" where
  "addAnomaly port ctx e fs =
     (let f = remember e (fst fs); st = snd fs
      in case truthy '''' (connection_of ctx e) of
           None \<Rightarrow> (f, st)
         | Some c \<Rightarrow> (case saveAnomalyEvent port (toStoredAnomalyEvent e ctx) c st of
             None \<Rightarrow> (f, st)
           | Some st' \<Rightarrow> (f\<lparr>fd_objects := js_set (ev_id e) (e\<lparr>ev_persisted := True\<rparr>) (fd_objects f)\<rparr>, st')))"

section \<open>Correlating\<close>

text \<open>The loop over a group's events stops at the first failed save; what was saved stays.\<close>

fun save_events :: "'st StoragePort \<Rightarrow> string \<Rightarrow> AnomalyEvent list \<Rightarrow> 'st \<Rightarrow> 'st" where
  "save_events port c [] st = st"
| "save_events port c (e # es) st =
     (case saveAnomalyEvent port (toStoredAnomalyEvent e None) c st of
        None \<Rightarrow> st
      | Some st' \<Rightarrow> save_events port c es st')"

definition persist_group ::
  "'st StoragePort \<Rightarrow> (CorrelatedAnomalyGroup \<Rightarrow> string \<Rightarrow> bool) \<Rightarrow> CorrelatedAnomalyGroup \<Rightarrow> 'st \<Rightarrow> 'st" where
  "persist_group port groupSaved g st =
     (case cg_anomalies g of
        [] \<Rightarrow> st
      | first # _ \<Rightarrow> (case truthy '''' (ev_connectionId first) of
          None \<Rightarrow> st
        | Some c \<Rightarrow> if groupSaved g c then save_events port c (cg_anomalies g) st else st))"

definition write_objects :: "AnomalyEvent list \<Rightarrow> (string, AnomalyEvent) jsmap \<Rightarrow> (string, AnomalyEvent) jsmap" where
  "write_objects es m = foldl (\<lambda>m e. js_set (ev_id e) e m) m es"

definition awaiting_correlation :: "feed \<Rightarrow> AnomalyEvent list" where
  "awaiting_correlation f = filter (\<lambda>a. truthy '''' (ev_correlationId a) = None \<and> \<not> ev_resolved a) (cached f)"

definition cache_groups :: "CorrelatedAnomalyGroup list \<Rightarrow> feed \<Rightarrow> feed" where
  "cache_groups newGroups f =
     (let pushed = recentGroups f @ newGroups
      in f\<lparr>fd_objects := write_objects (concat (map cg_anomalies newGroups)) (fd_objects f),
           recentGroups := (if length pushed > maxRecentGroups then take_last maxRecentGroups pushed else pushed)\<rparr>)"

definition correlateAnomalies ::
  "'st StoragePort \<Rightarrow> (CorrelatedAnomalyGroup \<Rightarrow> string \<Rightarrow> bool) \<Rightarrow> int \<Rightarrow> (nat \<Rightarrow> string) \<Rightarrow> feed \<times> 'st \<Rightarrow> feed \<times> 'st" where
  "correlateAnomalies port groupSaved w fresh fs =
     (let f = fst fs; st = snd fs; waiting = awaiting_correlation f
      in if length waiting = 0 then (f, st)
         else let newGroups = correlate w fresh waiting
              in if length newGroups = 0 then (f, st)
                 else (cache_groups newGroups f, foldl (\<lambda>s g. persist_group port groupSaved g s) st newGroups))"

section \<open>Reading\<close>

definition getRecentEvents :: "feed \<Rightarrow> nat \<Rightarrow> MetricType option \<Rightarrow> AnomalyEvent list" where
  "getRecentEvents f limit metricType =
     (let events = rev (cached f);
          kept = (case metricType of None \<Rightarrow> events | Some m \<Rightarrow> filter (\<lambda>e. ev_metricType e = m) events)
      in take limit kept)"

definition storedToAnomalyEvent :: "StoredAnomalyEvent \<Rightarrow> AnomalyEvent" where
  "storedToAnomalyEvent s =
     \<lparr>ev_id = se_id s, ev_timestamp = se_timestamp s, ev_metricType = se_metricType s,
      ev_anomalyType = se_anomalyType s, ev_severity = se_severity s, ev_value = se_value s,
      ev_baseline = se_baseline s, ev_stdDev = se_stdDev s, ev_zScore = se_zScore s,
      ev_threshold = se_threshold s, ev_correlationId = se_correlationId s,
      ev_relatedMetrics = se_relatedMetrics s, ev_resolved = se_resolved s,
      ev_connectionId = se_connectionId s, ev_syntheticPattern = None, ev_persisted = False\<rparr>"

record feed_query =
  fq_startTime :: "int option"
  fq_endTime :: "int option"
  fq_severity :: "AnomalySeverity option"
  fq_metricType :: "MetricType option"
  fq_limit :: nat
  fq_connectionId :: "string option"
  fq_activeOnly :: bool

text \<open>The conditions the two branches share for an event of the cache.\<close>

definition cache_matches :: "feed_query \<Rightarrow> AnomalyEvent \<Rightarrow> bool" where
  "cache_matches q e \<longleftrightarrow>
     opt_holds (\<lambda>c. ev_connectionId e = Some c) (truthy '''' (fq_connectionId q)) \<and>
     opt_holds (\<lambda>m. ev_metricType e = m) (fq_metricType q) \<and>
     opt_holds (\<lambda>s. ev_severity e = s) (fq_severity q) \<and>
     opt_holds (\<lambda>t. ev_timestamp e \<le> t) (truthy 0 (fq_endTime q))"

definition active_options :: "feed_query \<Rightarrow> AnomalyQueryOptions" where
  "active_options q = no_options\<lparr>qo_endTime := fq_endTime q, qo_severity := fq_severity q, qo_metricType := fq_metricType q,
     qo_resolved := Some False, qo_limit := Some (fq_limit q), qo_connectionId := fq_connectionId q\<rparr>"

definition window_options :: "feed_query \<Rightarrow> AnomalyQueryOptions" where
  "window_options q = no_options\<lparr>qo_startTime := fq_startTime q, qo_endTime := fq_endTime q, qo_severity := fq_severity q,
     qo_metricType := fq_metricType q, qo_limit := Some (fq_limit q), qo_connectionId := fq_connectionId q\<rparr>"

text \<open>Storage wins on id; then newest first, up to the limit.\<close>

definition merge_feed :: "nat \<Rightarrow> (AnomalyEvent \<Rightarrow> bool) \<Rightarrow> AnomalyEvent list \<Rightarrow> AnomalyEvent list \<Rightarrow> AnomalyEvent list" where
  "merge_feed limit P storedEvents cache =
     (let seen = map ev_id storedEvents;
          inMemory = filter (\<lambda>e. ev_id e \<notin> set seen \<and> P e) cache
      in take limit (sort_key (\<lambda>e. - ev_timestamp e) (storedEvents @ inMemory)))"

definition getRecentAnomalies ::
  "'st StoragePort \<Rightarrow> int \<Rightarrow> int \<Rightarrow> feed_query \<Rightarrow> feed \<times> 'st \<Rightarrow> AnomalyEvent list option" where
  "getRecentAnomalies port now cacheTtlMs q fs =
     (if fq_activeOnly q then
        case getAnomalyEvents port (active_options q) (snd fs) of
          None \<Rightarrow> None
        | Some rs \<Rightarrow> Some (merge_feed (fq_limit q) (\<lambda>e. \<not> ev_resolved e \<and> cache_matches q e)
            (map storedToAnomalyEvent rs) (cached (fst fs)))
      else
        case getAnomalyEvents port (window_options q) (snd fs) of
          None \<Rightarrow> None
        | Some rs \<Rightarrow>
            let storedEvents = map storedToAnomalyEvent rs; cacheThreshold = now - cacheTtlMs
            in if opt_holds (\<lambda>t. t \<ge> cacheThreshold) (truthy 0 (fq_startTime q))
               then Some (merge_feed (fq_limit q) (\<lambda>e. cache_matches q e \<and> opt_holds (\<lambda>t. ev_timestamp e \<ge> t) (truthy 0 (fq_startTime q)))
                       storedEvents (cached (fst fs)))
               else Some storedEvents)"

section \<open>Resolving\<close>

datatype resolve_outcome = Resolved | Retry | Gone

definition resolveAnomalyOutcome ::
  "'st StoragePort \<Rightarrow> int \<Rightarrow> string \<Rightarrow> feed \<times> 'st \<Rightarrow> (feed \<times> 'st) \<times> resolve_outcome" where
  "resolveAnomalyOutcome port now anomalyId fs =
     (let f = fst fs; st = snd fs; anomaly = find_cached f anomalyId
      in case anomaly of
           Some a \<Rightarrow>
             if \<not> ev_persisted a then ((mark_resolved anomalyId f, st), Resolved)
             else (case resolveAnomalyRow port anomalyId now st of
                 None \<Rightarrow> ((f, st), Retry)
               | Some (st', persisted) \<Rightarrow>
                   if \<not> persisted then ((f, st'), Retry)
                   else ((mark_resolved anomalyId f, st'), Resolved))
         | None \<Rightarrow>
             (case resolveAnomalyRow port anomalyId now st of
                 None \<Rightarrow> ((f, st), Retry)
               | Some (st', persisted) \<Rightarrow>
                   if \<not> persisted then ((f, st'), Gone) else ((f, st'), Resolved)))"

definition resolveAnomaly :: "'st StoragePort \<Rightarrow> int \<Rightarrow> string \<Rightarrow> feed \<times> 'st \<Rightarrow> (feed \<times> 'st) \<times> bool" where
  "resolveAnomaly port now anomalyId fs =
     (case resolveAnomalyOutcome port now anomalyId fs of (fs', outcome) \<Rightarrow> (fs', outcome = Resolved))"

definition object_persisted :: "feed \<Rightarrow> string \<Rightarrow> bool" where
  "object_persisted f i = (case js_get (fd_objects f) i of None \<Rightarrow> False | Some e \<Rightarrow> ev_persisted e)"

fun resolve_members :: "'st StoragePort \<Rightarrow> int \<Rightarrow> string list \<Rightarrow> bool \<Rightarrow> feed \<times> 'st \<Rightarrow> (feed \<times> 'st) \<times> bool" where
  "resolve_members port resolvedAt [] allResolved fs = (fs, allResolved)"
| "resolve_members port resolvedAt (i # is) allResolved fs =
     (if \<not> object_persisted (fst fs) i
      then resolve_members port resolvedAt is allResolved (mark_resolved i (fst fs), snd fs)
      else case resolveAnomalyRow port i resolvedAt (snd fs) of
          None \<Rightarrow> resolve_members port resolvedAt is False fs
        | Some (st', persisted) \<Rightarrow>
            if persisted then resolve_members port resolvedAt is allResolved (mark_resolved i (fst fs), st')
            else resolve_members port resolvedAt is False (fst fs, st'))"

definition resolveGroup :: "'st StoragePort \<Rightarrow> int \<Rightarrow> string \<Rightarrow> feed \<times> 'st \<Rightarrow> (feed \<times> 'st) \<times> bool" where
  "resolveGroup port now correlationId fs =
     (case List.find (\<lambda>g. cg_correlationId g = correlationId) (recentGroups (fst fs)) of
        None \<Rightarrow> (fs, False)
      | Some g \<Rightarrow> resolve_members port now (map ev_id (cg_anomalies g)) True fs)"

definition clearResolved :: "feed \<Rightarrow> feed \<times> nat" where
  "clearResolved f =
     (let open_ids = filter (\<lambda>i. \<not> (case js_get (fd_objects f) i of None \<Rightarrow> False | Some e \<Rightarrow> ev_resolved e)) (recentAnomalies f)
      in (f\<lparr>recentAnomalies := open_ids\<rparr>, length (recentAnomalies f) - length open_ids))"

section \<open>The cache keeps its objects\<close>

definition feed_ok :: "feed \<Rightarrow> bool" where
  "feed_ok f \<longleftrightarrow> (\<forall>i e. js_get (fd_objects f) i = Some e \<longrightarrow> ev_id e = i) \<and>
     set (recentAnomalies f) \<subseteq> fst ` set (fd_objects f) \<and>
     (\<forall>g \<in> set (recentGroups f). \<forall>a \<in> set (cg_anomalies g). ev_id a \<in> fst ` set (fd_objects f)) \<and>
     length (recentAnomalies f) \<le> maxRecentEvents \<and> length (recentGroups f) \<le> maxRecentGroups"

lemma feed_okD:
  assumes "feed_ok f"
  shows "js_get (fd_objects f) i = Some e \<Longrightarrow> ev_id e = i"
    and "i \<in> set (recentAnomalies f) \<Longrightarrow> \<exists>e. js_get (fd_objects f) i = Some e \<and> ev_id e = i"
    and "g \<in> set (recentGroups f) \<Longrightarrow> a \<in> set (cg_anomalies g) \<Longrightarrow> ev_id a \<in> fst ` set (fd_objects f)"
proof -
  show id: "js_get (fd_objects f) i = Some e \<Longrightarrow> ev_id e = i" for i e using assms by (simp add: feed_ok_def)
  assume "i \<in> set (recentAnomalies f)"
  then have "i \<in> fst ` set (fd_objects f)" using assms by (auto simp: feed_ok_def)
  then obtain e where "js_get (fd_objects f) i = Some e" using map_of_eq_None_iff not_None_eq by metis
  with id show "\<exists>e. js_get (fd_objects f) i = Some e \<and> ev_id e = i" by blast
next
  show "g \<in> set (recentGroups f) \<Longrightarrow> a \<in> set (cg_anomalies g) \<Longrightarrow> ev_id a \<in> fst ` set (fd_objects f)"
    using assms by (auto simp: feed_ok_def)
qed

lemma cached_mem: "e \<in> set (cached f) \<longleftrightarrow> (\<exists>i \<in> set (recentAnomalies f). js_get (fd_objects f) i = Some e)"
  by (force simp: cached_def map_filter_def image_iff)

lemma cached_ids: "feed_ok f \<Longrightarrow> map ev_id (cached f) = recentAnomalies f"
proof -
  assume ok: "feed_ok f"
  have "map ev_id (List.map_filter (js_get (fd_objects f)) is) = is" if "set is \<subseteq> set (recentAnomalies f)" for "is"
    using that
  proof (induction "is")
    case (Cons i "is")
    then obtain e where "js_get (fd_objects f) i = Some e" "ev_id e = i" using feed_okD(2) [OF ok, of i] by auto
    with Cons show ?case by (simp add: map_filter_def)
  qed (simp add: map_filter_def)
  then show ?thesis by (simp add: cached_def)
qed

lemma find_cached_eq:
  assumes "feed_ok f"
  shows "find_cached f i = (if i \<in> set (recentAnomalies f) then js_get (fd_objects f) i else None)"
proof (cases "find_cached f i")
  case None
  then have "i \<notin> set (map ev_id (cached f))" by (auto simp: find_cached_def find_None_iff)
  with None assms show ?thesis by (simp only: cached_ids) simp
next
  case (Some e)
  then have e: "e \<in> set (cached f)" "ev_id e = i" by (auto simp: find_cached_def find_Some_iff)
  then obtain j where "j \<in> set (recentAnomalies f)" "js_get (fd_objects f) j = Some e" by (auto simp: cached_mem)
  with feed_okD(1) [OF assms] e Some show ?thesis by metis
qed

lemma remember_ok: "feed_ok f \<Longrightarrow> feed_ok (remember e f)"
  using set_take_last_subset [of maxRecentEvents "recentAnomalies f @ [ev_id e]"]
  by (auto simp: feed_ok_def remember_def Let_def js_simps maxRecentEvents_def split: if_splits)

lemma object_write_ok:
  assumes "feed_ok f" and "ev_id e = i"
  shows "feed_ok (f\<lparr>fd_objects := js_set i e (fd_objects f)\<rparr>)"
  using assms by (auto simp: feed_ok_def js_simps split: if_splits)

lemma addAnomaly_ok: "feed_ok (fst fs) \<Longrightarrow> feed_ok (fst (addAnomaly port ctx e fs))"
  using object_write_ok [OF remember_ok, of "fst fs" "e\<lparr>ev_persisted := True\<rparr>" "ev_id e" e]
  by (auto simp: addAnomaly_def Let_def remember_ok split: option.split)

lemma mark_resolved_ok: "feed_ok f \<Longrightarrow> feed_ok (mark_resolved i f)"
  using object_write_ok feed_okD(1) by (auto simp: mark_resolved_def split: option.split)

lemma mark_resolved_same [simp]:
  "recentAnomalies (mark_resolved i f) = recentAnomalies f" "recentGroups (mark_resolved i f) = recentGroups f"
  by (simp_all add: mark_resolved_def split: option.split)

lemma mark_resolved_get:
  "js_get (fd_objects (mark_resolved i f)) k =
     (if k = i then map_option (\<lambda>e. e\<lparr>ev_resolved := True\<rparr>) (js_get (fd_objects f) k) else js_get (fd_objects f) k)"
  by (simp add: mark_resolved_def js_simps split: option.split)

lemma resolveAnomalyOutcome_ok: "feed_ok (fst fs) \<Longrightarrow> feed_ok (fst (fst (resolveAnomalyOutcome port now i fs)))"
  by (auto simp: resolveAnomalyOutcome_def Let_def mark_resolved_ok split: option.split prod.split)

lemma resolve_members_ok: "feed_ok (fst fs) \<Longrightarrow> feed_ok (fst (fst (resolve_members port t is ok fs)))"
  by (induction port t "is" ok fs rule: resolve_members.induct) (auto simp: mark_resolved_ok split: option.split prod.split)

lemma resolveGroup_ok: "feed_ok (fst fs) \<Longrightarrow> feed_ok (fst (fst (resolveGroup port now c fs)))"
  by (auto simp: resolveGroup_def resolve_members_ok split: option.split)

lemma clearResolved_ok: "feed_ok f \<Longrightarrow> feed_ok (fst (clearResolved f))"
proof -
  assume ok: "feed_ok f"
  define P where "P = (\<lambda>i. \<not> (case js_get (fd_objects f) i of None \<Rightarrow> False | Some e \<Rightarrow> ev_resolved e))"
  have "fst (clearResolved f) = f\<lparr>recentAnomalies := filter P (recentAnomalies f)\<rparr>"
    by (simp add: clearResolved_def Let_def P_def)
  moreover have "length (filter P (recentAnomalies f)) \<le> maxRecentEvents"
    using ok order_trans [OF length_filter_le [of P "recentAnomalies f"]] unfolding feed_ok_def by blast
  ultimately show ?thesis using ok by (auto simp: feed_ok_def)
qed

lemma write_objects_get:
  "js_get (write_objects es m) i = Some e \<Longrightarrow> js_get m i = Some e \<or> (e \<in> set es \<and> ev_id e = i)"
  by (induction es arbitrary: m) (fastforce simp: write_objects_def js_simps split: if_splits)+

lemma write_objects_keys: "fst ` set (write_objects es m) = fst ` set m \<union> ev_id ` set es"
  by (induction es arbitrary: m) (auto simp: write_objects_def js_simps)

lemma correlate_members:
  assumes "g \<in> set (correlate w fresh as)" and "a \<in> set (cg_anomalies g)"
  obtains c n win where "a = stamp c win n" "n \<in> set as"
proof -
  define ws where "ws = correlation_windows w (sort_key ev_timestamp as)"
  have cat: "concat ws = sort_key ev_timestamp as"
    by (cases "sort_key ev_timestamp as") (simp_all add: ws_def correlation_windows_def window_loop_concat)
  have "correlate w fresh as = map (\<lambda>(n, win). correlate_window (fresh n) win) (List.enumerate 0 ws)"
    by (cases as) (simp_all add: correlate_def ws_def correlation_windows_def Let_def)
  with assms(1) obtain n win where g: "g = correlate_window (fresh n) win" and win: "win \<in> set ws"
    by (auto simp: in_set_enumerate_eq)
  from assms(2) g obtain b where b: "b \<in> set win" "a = stamp (fresh n) win b" by auto
  with win have "b \<in> set (concat ws)" by auto
  then have "b \<in> set as" by (simp add: cat)
  with b(2) show thesis by (rule that)
qed

lemma correlate_ids: "g \<in> set (correlate w fresh as) \<Longrightarrow> a \<in> set (cg_anomalies g) \<Longrightarrow> ev_id a \<in> ev_id ` set as"
  by (metis correlate_members image_eqI stamp_fields(4))

lemma correlateAnomalies_fst:
  "fst (correlateAnomalies port groupSaved w fresh fs) = fst fs \<or>
   fst (correlateAnomalies port groupSaved w fresh fs) = cache_groups (correlate w fresh (awaiting_correlation (fst fs))) (fst fs)"
  by (simp add: correlateAnomalies_def Let_def)

lemma cache_groups_ok:
  assumes ok: "feed_ok f"
  shows "feed_ok (cache_groups newGroups f)"
proof -
  let ?pushed = "recentGroups f @ newGroups" and ?objs = "write_objects (concat (map cg_anomalies newGroups)) (fd_objects f)"
  have groups: "set (recentGroups (cache_groups newGroups f)) \<subseteq> set ?pushed"
    using set_take_last_subset [of maxRecentGroups ?pushed] by (auto simp: cache_groups_def Let_def)
  have objs: "fd_objects (cache_groups newGroups f) = ?objs" by (simp add: cache_groups_def Let_def)
  have "ev_id e = i" if "js_get ?objs i = Some e" for i e
    using write_objects_get [OF that] feed_okD(1) [OF ok] by auto
  moreover have "ev_id a \<in> fst ` set ?objs" if "g \<in> set ?pushed" "a \<in> set (cg_anomalies g)" for g a
    using that feed_okD(3) [OF ok, of g a] by (auto simp: write_objects_keys)
  moreover have "recentAnomalies (cache_groups newGroups f) = recentAnomalies f"
    "length (recentGroups (cache_groups newGroups f)) \<le> maxRecentGroups"
    by (simp_all add: cache_groups_def Let_def)
  moreover have "set (recentAnomalies f) \<subseteq> fst ` set ?objs" "length (recentAnomalies f) \<le> maxRecentEvents"
    using ok by (auto simp: feed_ok_def write_objects_keys)
  ultimately show ?thesis using groups unfolding feed_ok_def objs by (intro conjI ballI) (blast | simp)+
qed

lemma correlateAnomalies_ok: "feed_ok (fst fs) \<Longrightarrow> feed_ok (fst (correlateAnomalies port groupSaved w fresh fs))"
  using correlateAnomalies_fst [of port groupSaved w fresh fs] cache_groups_ok by metis

text \<open>
  The operations as steps of one machine. The storage may also change on its own: other writers,
  the retention job, an outage or its end.
\<close>

inductive feed_step :: "'st StoragePort \<Rightarrow> feed \<times> 'st \<Rightarrow> feed \<times> 'st \<Rightarrow> bool" for port where
  step_add: "feed_step port fs (addAnomaly port ctx e fs)"
| step_correlate: "feed_step port fs (correlateAnomalies port groupSaved w fresh fs)"
| step_resolve: "feed_step port fs (fst (resolveAnomalyOutcome port now i fs))"
| step_resolve_group: "feed_step port fs (fst (resolveGroup port now c fs))"
| step_clear: "feed_step port fs (fst (clearResolved (fst fs)), snd fs)"
| step_storage: "feed_step port fs (fst fs, st)"

lemma feed_step_ok: "feed_step port fs fs' \<Longrightarrow> feed_ok (fst fs) \<Longrightarrow> feed_ok (fst fs')"
  by (induction rule: feed_step.induct)
     (simp_all add: addAnomaly_ok correlateAnomalies_ok resolveAnomalyOutcome_ok resolveGroup_ok clearResolved_ok)

lemma empty_feed_ok: "feed_ok empty_feed"
  by (simp add: feed_ok_def empty_feed_def)

lemma feed_reachable_ok: "(feed_step port)\<^sup>*\<^sup>* (empty_feed, st) fs \<Longrightarrow> feed_ok (fst fs)"
  by (induction rule: rtranclp_induct) (simp_all add: empty_feed_ok feed_step_ok)

section \<open>A resolved event stays resolved\<close>

definition object_resolved :: "feed \<Rightarrow> string \<Rightarrow> bool" where
  "object_resolved f i = (case js_get (fd_objects f) i of None \<Rightarrow> False | Some e \<Rightarrow> ev_resolved e)"

lemma mark_resolved_keeps: "object_resolved f i \<Longrightarrow> object_resolved (mark_resolved j f) i"
  by (auto simp: object_resolved_def mark_resolved_get split: option.splits)

lemma resolve_members_keeps: "object_resolved (fst fs) i \<Longrightarrow> object_resolved (fst (fst (resolve_members port t is ok fs))) i"
  by (induction port t "is" ok fs rule: resolve_members.induct) (auto simp: mark_resolved_keeps split: option.split prod.split)

lemma cache_groups_keeps:
  assumes ok: "feed_ok f" and res: "object_resolved f i"
  shows "object_resolved (cache_groups (correlate w fresh (awaiting_correlation f)) f) i"
proof -
  let ?gs = "correlate w fresh (awaiting_correlation f)"
  from res obtain e where e: "js_get (fd_objects f) i = Some e" "ev_resolved e"
    by (auto simp: object_resolved_def split: option.splits)
  have notin: "i \<notin> ev_id ` set (concat (map cg_anomalies ?gs))"
  proof
    assume "i \<in> ev_id ` set (concat (map cg_anomalies ?gs))"
    then obtain g a where "g \<in> set ?gs" "a \<in> set (cg_anomalies g)" "ev_id a = i" by auto
    with correlate_ids [of g w fresh "awaiting_correlation f" a] obtain b where "b \<in> set (awaiting_correlation f)" "ev_id b = i"
      by auto
    then have "js_get (fd_objects f) i = Some b" "\<not> ev_resolved b"
      using feed_okD(1) [OF ok] by (auto simp: awaiting_correlation_def cached_mem)
    with e show False by simp
  qed
  have "js_get (write_objects es m) i = js_get m i" if "i \<notin> ev_id ` set es" for es m
    using that by (induction es arbitrary: m) (auto simp: write_objects_def js_simps)
  from this [OF notin] e show ?thesis by (simp add: cache_groups_def Let_def object_resolved_def)
qed

lemma feed_step_keeps_resolved:
  assumes "feed_step port fs fs'" and "feed_ok (fst fs)" and "object_resolved (fst fs) i"
    and "\<And>ctx e. fs' = addAnomaly port ctx e fs \<Longrightarrow> ev_id e \<noteq> i"
  shows "object_resolved (fst fs') i"
  using assms(1)
proof (cases rule: feed_step.cases)
  case (step_add ctx e)
  with assms(4) have "ev_id e \<noteq> i" by blast
  with step_add assms(3) show ?thesis
    by (auto simp: addAnomaly_def remember_def object_resolved_def Let_def js_simps split: option.splits)
next
  case (step_correlate groupSaved w fresh)
  with correlateAnomalies_fst [of port groupSaved w fresh fs] assms(3) cache_groups_keeps [OF assms(2,3)]
  show ?thesis by metis
next
  case (step_resolve now j)
  with assms(3) show ?thesis
    by (auto simp: resolveAnomalyOutcome_def Let_def mark_resolved_keeps split: option.split prod.split)
next
  case (step_resolve_group now c)
  with assms(3) show ?thesis by (auto simp: resolveGroup_def resolve_members_keeps split: option.split)
next
  case step_clear
  with assms(3) show ?thesis by (simp add: clearResolved_def object_resolved_def Let_def)
qed (use assms(3) in simp)

section \<open>Resolution and the active feed\<close>

lemma merge_feed_mem:
  "x \<in> set (merge_feed limit P rs es) \<Longrightarrow> x \<in> set rs \<or> (x \<in> set es \<and> P x \<and> ev_id x \<notin> ev_id ` set rs)"
  by (auto simp: merge_feed_def Let_def dest!: in_set_takeD)


lemma stored_id [simp]: "ev_id (storedToAnomalyEvent r) = se_id r"
  by (simp add: storedToAnomalyEvent_def)

lemma ids_of_stored: "ev_id ` set (map storedToAnomalyEvent rs) = se_id ` set rs"
  by (simp add: image_image)

lemma active_feed_mem:
  assumes "getRecentAnomalies port now ttl q fs = Some es" and "fq_activeOnly q"
    and "i \<in> ev_id ` set es"
  obtains rs where "getAnomalyEvents port (active_options q) (snd fs) = Some rs" "i \<in> se_id ` set rs"
  | x where "x \<in> set (cached (fst fs))" "\<not> ev_resolved x" "ev_id x = i"
proof -
  from assms(1,2) obtain rs where rs: "getAnomalyEvents port (active_options q) (snd fs) = Some rs"
    and es: "es = merge_feed (fq_limit q) (\<lambda>e. \<not> ev_resolved e \<and> cache_matches q e) (map storedToAnomalyEvent rs) (cached (fst fs))"
    by (auto simp: getRecentAnomalies_def split: option.splits)
  from assms(3) obtain x where "x \<in> set es" "ev_id x = i" by blast
  with merge_feed_mem [of x] es have "x \<in> set (map storedToAnomalyEvent rs) \<or> (x \<in> set (cached (fst fs)) \<and> \<not> ev_resolved x)"
    by blast
  then show thesis
  proof
    assume "x \<in> set (map storedToAnomalyEvent rs)"
    with \<open>ev_id x = i\<close> have "i \<in> se_id ` set rs" by (metis ids_of_stored image_eqI)
    with rs show thesis by (rule that(1))
  qed (use that(2) \<open>ev_id x = i\<close> in blast)
qed

lemma mark_resolved_cached:
  assumes "feed_ok f" and "x \<in> set (cached (mark_resolved i f))" and "ev_id x = i"
  shows "ev_resolved x"
proof -
  from assms(2) obtain j where j: "js_get (fd_objects (mark_resolved i f)) j = Some x" by (auto simp: cached_mem)
  with feed_okD(1) [OF mark_resolved_ok [OF assms(1)]] assms(3) have "j = i" by metis
  with j show ?thesis by (auto simp: mark_resolved_get)
qed

lemma outcome_Resolved:
  assumes "resolveAnomalyOutcome port now i fs = (fs', Resolved)"
  obtains (memory_only) a where "find_cached (fst fs) i = Some a" "\<not> ev_persisted a" "fs' = (mark_resolved i (fst fs), snd fs)"
  | (durable) f' st' where "fs' = (f', st')" "resolveAnomalyRow port i now (snd fs) = Some (st', True)"
      "f' = mark_resolved i (fst fs) \<or> (find_cached (fst fs) i = None \<and> f' = fst fs)"
  using assms by (auto simp: resolveAnomalyOutcome_def Let_def split: option.splits prod.splits if_splits)

context anomaly_storage
begin

lemma outcome_Gone:
  assumes "resolveAnomalyOutcome port now i fs = (fs', Gone)"
  shows "find_cached (fst fs) i = None \<and> i \<notin> se_id ` set (stored (snd fs))"
proof -
  from assms obtain st' where "find_cached (fst fs) i = None" "resolveAnomalyRow port i now (snd fs) = Some (st', False)"
    by (auto simp: resolveAnomalyOutcome_def Let_def split: option.splits prod.splits if_splits)
  with resolve_found show ?thesis by blast
qed

lemma outcome_Retry:
  assumes "resolveAnomalyOutcome port now i fs = (fs', Retry)"
  shows "fst fs' = fst fs \<and> (resolveAnomalyRow port i now (snd fs) = None \<or>
    (find_cached (fst fs) i \<noteq> None \<and> i \<notin> se_id ` set (stored (snd fs))))"
proof -
  from assms have "fst fs' = fst fs" and "resolveAnomalyRow port i now (snd fs) = None \<or>
      (\<exists>st'. find_cached (fst fs) i \<noteq> None \<and> resolveAnomalyRow port i now (snd fs) = Some (st', False))"
    by (auto simp: resolveAnomalyOutcome_def Let_def split: option.splits prod.splits if_splits)
  then show ?thesis using resolve_found by metis
qed

end

context closing_storage
begin

lemma resolved_leaves_active_feed:
  assumes ok: "feed_ok (fst fs)" and out: "resolveAnomalyOutcome port now i fs = (fs', Resolved)"
    and only: "\<And>a. find_cached (fst fs) i = Some a \<Longrightarrow> \<not> ev_persisted a \<Longrightarrow> i \<notin> se_id ` set (stored (snd fs))"
    and es: "getRecentAnomalies port now' ttl q fs' = Some es" "fq_activeOnly q"
  shows "i \<notin> ev_id ` set es"
proof
  have openq: "qo_resolved (active_options q) = Some False" by (simp add: active_options_def)
  have feed: "x \<in> set (cached (fst fs')) \<Longrightarrow> ev_id x = i \<Longrightarrow> ev_resolved x" for x
    using out
  proof (cases rule: outcome_Resolved)
    case (memory_only a)
    then show "x \<in> set (cached (fst fs')) \<Longrightarrow> ev_id x = i \<Longrightarrow> ev_resolved x"
      using mark_resolved_cached [OF ok] by simp
  next
    case (durable f' st')
    then show "x \<in> set (cached (fst fs')) \<Longrightarrow> ev_id x = i \<Longrightarrow> ev_resolved x"
      using mark_resolved_cached [OF ok] by (auto simp: find_cached_def find_None_iff)
  qed
  have rows: "i \<notin> se_id ` set rs" if "getAnomalyEvents port (active_options q) (snd fs') = Some rs" for rs
    using out
  proof (cases rule: outcome_Resolved)
    case (memory_only a)
    with only have "i \<notin> se_id ` set (stored (snd fs'))" by simp
    with query_sub [OF that] show ?thesis by blast
  next
    case (durable f' st')
    with that show ?thesis using resolved_not_listed [OF durable(2) _ openq] by simp
  qed
  assume "i \<in> ev_id ` set es"
  with es show False by (rule active_feed_mem) (use feed rows in blast)+
qed

end

section \<open>Sample inputs\<close>

definition active_query :: feed_query where
  "active_query = \<lparr>fq_startTime = None, fq_endTime = None, fq_severity = None, fq_metricType = None,
     fq_limit = 100, fq_connectionId = None, fq_activeOnly = True\<rparr>"

definition open_event :: "string \<Rightarrow> AnomalyEvent" where
  "open_event i = state_event i 1000 REPLICA_SLOT_STATE SPIKE WARNING 1 0 0 ''c1''"

section \<open>Properties\<close>

text \<open>
  C11: However the feed is used (recording, correlating, resolving, clearing, storage coming and
  going), the cache holds at most 1000 events and 100 groups, every cached address has its event,
  and every event resolved once stays resolved in the next state unless its id is recorded again.
\<close>

theorem feed_bounded_resolution_stays:
  assumes "(feed_step port)\<^sup>*\<^sup>* (empty_feed, st) fs"
  shows "length (recentAnomalies (fst fs)) \<le> 1000 \<and> length (recentGroups (fst fs)) \<le> 100 \<and>
    map ev_id (cached (fst fs)) = recentAnomalies (fst fs) \<and>
    (\<forall>fs' i. feed_step port fs fs' \<and> object_resolved (fst fs) i \<and> \<not> (\<exists>ctx e. fs' = addAnomaly port ctx e fs \<and> ev_id e = i)
       \<longrightarrow> object_resolved (fst fs') i)"
proof -
  have ok: "feed_ok (fst fs)" by (rule feed_reachable_ok [OF assms])
  have "object_resolved (fst fs') i"
    if "feed_step port fs fs'" "object_resolved (fst fs) i" "\<not> (\<exists>ctx e. fs' = addAnomaly port ctx e fs \<and> ev_id e = i)" for fs' i
    by (rule feed_step_keeps_resolved [OF that(1) ok that(2)]) (use that(3) in blast)
  with ok cached_ids [OF ok] show ?thesis
    by (simp add: feed_ok_def maxRecentEvents_def maxRecentGroups_def)
qed

theorem feed_bounded_resolution_stays_witness:
  "\<exists>fs fs'. feed_step memory_port fs fs' \<and> object_resolved (fst fs) ''e1'' \<and> length (recentGroups (fst fs)) \<le> 100 \<and>
     object_resolved (fst fs') ''e1''"
proof -
  let ?s0 = "(empty_feed, [])" and ?s1 = "addAnomaly memory_port (Some ''c1'') (open_event ''e1'') (empty_feed, [])"
  let ?s2 = "fst (resolveAnomalyOutcome memory_port 2000 ''e1'' ?s1)"
  let ?s3 = "(fst (clearResolved (fst ?s2)), snd ?s2)"
  have reach: "(feed_step memory_port)\<^sup>*\<^sup>* ?s0 ?s2"
    by (rule rtranclp.rtrancl_into_rtrancl [OF rtranclp.rtrancl_into_rtrancl [OF rtranclp.rtrancl_refl]])
       (rule step_add, rule step_resolve)
  have res: "object_resolved (fst ?s2) ''e1''" by code_simp
  have clr: "recentAnomalies (fst ?s3) = []" by code_simp
  have "recentAnomalies (fst (addAnomaly memory_port ctx e fs)) \<noteq> []" for ctx e fs
    by (auto simp: addAnomaly_def remember_def Let_def take_last_def maxRecentEvents_def split: option.split)
  with clr have other: "\<not> (\<exists>ctx e. ?s3 = addAnomaly memory_port ctx e ?s2 \<and> ev_id e = ''e1'')" by metis
  have "object_resolved (fst ?s3) ''e1'' \<and> length (recentGroups (fst ?s2)) \<le> 100"
    using feed_bounded_resolution_stays [OF reach] step_clear res other by blast
  with res show ?thesis using step_clear by blast
qed





text \<open>
  On the in-memory store a correlated incident cannot be dismissed: correlation saves the event
  a second time, the adapter appends instead of replacing, and resolving closes only the first
  copy. After recording, correlating and resolving an event, the resolution is reported as
  successful and the active feed still lists the event.
\<close>

theorem memory_store_keeps_resolved_open:
  "(let fs1 = addAnomaly memory_port (Some ''c1'') (open_event ''e1'') (empty_feed, []);
        fs2 = correlateAnomalies memory_port (\<lambda>_ _. True) 5000 (\<lambda>_. ''g1'') fs1;
        (fs3, outcome) = resolveAnomalyOutcome memory_port 2000 ''e1'' fs2
    in outcome = Resolved \<and> map_option (map ev_id) (getRecentAnomalies memory_port 2000 0 active_query fs3) = Some [''e1''])"
  by code_simp

text \<open>
  An event whose first save failed can be stored later by correlation, which does not mark it
  persisted. Resolving it then changes the cached copy alone and is reported as successful,
  while the stored row stays open and the active feed lists it.
\<close>

theorem late_saved_event_stays_open:
  "(let fs1 = addAnomaly sqlite_port (Some ''c1'') (open_event ''e1'') (empty_feed, None);
        fs2 = correlateAnomalies sqlite_port (\<lambda>_ _. True) 5000 (\<lambda>_. ''g1'') (fst fs1, Some []);
        (fs3, outcome) = resolveAnomalyOutcome sqlite_port 2000 ''e1'' fs2
    in outcome = Resolved \<and> map_option (map ev_id) (getRecentAnomalies sqlite_port 2000 0 active_query fs3) = Some [''e1''])"
  by code_simp

text \<open>
  Correlation records each event's related metrics, but for an event already stored the
  SQL upsert leaves that column as it was: saving again never changes the related metrics of a row.
\<close>

lemma sql_resave_keeps_relatedMetrics:
  assumes "se_id e \<in> se_id ` set rs"
  shows "map se_relatedMetrics (sql_upsert (sql_row e c) rs) = map se_relatedMetrics rs"
proof -
  from assms obtain r where "r \<in> set rs" "se_id r = se_id e" by force
  then have "list_ex (\<lambda>r. se_id r = se_id (sql_row e c)) rs" by (auto simp: list_ex_iff)
  then show ?thesis by (simp add: sql_upsert_def sql_conflict_update_def)
qed

end
