(* ===== verification/Raft_Health.thy ===== *)
theory Raft_Health
  imports Anomaly_Feed Js_Number
begin

text \<open>
  Health of a Raft cluster: raft-health-detector.ts, and detectRaftHealth of anomaly.service.ts with
  its leaderless watch, the windows derived from the node timeout, the election churn warning and
  the incident it keeps pinned in the active feed. The seven maps of the service are the fields of
  one record per connection, \<open>None\<close> an absent entry; the reply of CONFIG GET is an argument
  (\<open>None\<close> when the read rejects, \<open>Some None\<close> when the value is null), and \<open>uuid\<close> gives the two
  random ids a poll may need.
\<close>

section \<open>The state of a node\<close>

record RaftState =
  rs_role :: string
  rs_currentTerm :: real
  rs_commitIndex :: real
  rs_lastApplied :: real
  rs_logEntries :: real
  rs_leaderId :: string
  rs_clusterState :: string

definition raft_num :: "string option \<Rightarrow> real" where
  "raft_num v = (case v of None \<Rightarrow> 0 | Some s \<Rightarrow> (case js_Number s of Num x \<Rightarrow> x | _ \<Rightarrow> 0))"

definition or_empty :: "string option \<Rightarrow> string" where
  "or_empty v = (case v of None \<Rightarrow> '''' | Some s \<Rightarrow> s)"

definition parseRaftState :: "info_str \<Rightarrow> RaftState option" where
  "parseRaftState clusterInfo =
     (if clusterInfo ''cluster_raft_role'' = None then None
      else Some \<lparr>rs_role = or_empty (clusterInfo ''cluster_raft_role''),
                 rs_currentTerm = raft_num (clusterInfo ''cluster_raft_current_term''),
                 rs_commitIndex = raft_num (clusterInfo ''cluster_raft_commit_index''),
                 rs_lastApplied = raft_num (clusterInfo ''cluster_raft_last_applied''),
                 rs_logEntries = raft_num (clusterInfo ''cluster_raft_log_entries''),
                 rs_leaderId = or_empty (clusterInfo ''cluster_raft_leader''),
                 rs_clusterState = or_empty (clusterInfo ''cluster_state'')\<rparr>)"

definition RAFT_SEEKING_ROLES :: "string list" where
  "RAFT_SEEKING_ROLES = [''candidate'', ''pre-candidate'']"

definition isRaftSeeking :: "RaftState \<Rightarrow> bool" where
  "isRaftSeeking s \<longleftrightarrow> rs_role s \<in> set RAFT_SEEKING_ROLES"

section \<open>The windows\<close>

definition RAFT_CHURN_WINDOW_MS :: int where "RAFT_CHURN_WINDOW_MS = 60000"
definition RAFT_CHURN_MIN_ELECTIONS :: nat where "RAFT_CHURN_MIN_ELECTIONS = 3"
definition RAFT_DEFAULT_NODE_TIMEOUT_MS :: int where "RAFT_DEFAULT_NODE_TIMEOUT_MS = 15000"
definition RAFT_RECOVERED_FLOOR_MS :: int where "RAFT_RECOVERED_FLOOR_MS = 30000"
definition RAFT_MAX_NODE_TIMEOUT_MS :: int where "RAFT_MAX_NODE_TIMEOUT_MS = 300000"
definition RAFT_FIRE_MARGIN_MS :: int where "RAFT_FIRE_MARGIN_MS = 10000"
definition RAFT_NODE_TIMEOUT_RECHECK_POLLS :: int where "RAFT_NODE_TIMEOUT_RECHECK_POLLS = 60"

lemmas raft_consts = RAFT_CHURN_WINDOW_MS_def RAFT_CHURN_MIN_ELECTIONS_def RAFT_DEFAULT_NODE_TIMEOUT_MS_def
  RAFT_RECOVERED_FLOOR_MS_def RAFT_MAX_NODE_TIMEOUT_MS_def RAFT_FIRE_MARGIN_MS_def RAFT_NODE_TIMEOUT_RECHECK_POLLS_def

record raft_conn =
  rc_prevTerm :: "real option"
  rc_termChanges :: "int list"
  rc_leaderlessSince :: "int option"
  rc_watchCommit :: "real option"
  rc_lastSeeking :: "int option"
  rc_leaderlessActive :: bool
  rc_nodeTimeout :: "int option"
  rc_recheck :: "int option"

definition new_raft_conn :: raft_conn where
  "new_raft_conn = \<lparr>rc_prevTerm = None, rc_termChanges = [], rc_leaderlessSince = None, rc_watchCommit = None,
     rc_lastSeeking = None, rc_leaderlessActive = False, rc_nodeTimeout = None, rc_recheck = None\<rparr>"

definition read_node_timeout :: "string option option \<Rightarrow> int option" where
  "read_node_timeout configRead =
     (case configRead of
        Some (Some raw) \<Rightarrow> (case parseInt raw of Some n \<Rightarrow> if n > 0 then Some n else None | None \<Rightarrow> None)
      | _ \<Rightarrow> None)"

definition recheck_node_timeout :: "string option option \<Rightarrow> raft_conn \<Rightarrow> raft_conn" where
  "recheck_node_timeout configRead rc =
     (case rc_nodeTimeout rc of
        Some _ \<Rightarrow> rc
      | None \<Rightarrow>
          let countdown = (case rc_recheck rc of None \<Rightarrow> 0 | Some n \<Rightarrow> n)
          in if countdown > 0 then rc\<lparr>rc_recheck := Some (countdown - 1)\<rparr>
             else case read_node_timeout configRead of
                 Some fetched \<Rightarrow> rc\<lparr>rc_nodeTimeout := Some fetched, rc_recheck := None\<rparr>
               | None \<Rightarrow> rc\<lparr>rc_recheck := Some RAFT_NODE_TIMEOUT_RECHECK_POLLS\<rparr>)"

definition raftLeaderlessWindows :: "string option option \<Rightarrow> raft_conn \<Rightarrow> raft_conn \<times> int \<times> int" where
  "raftLeaderlessWindows configRead rc =
     (let rc' = recheck_node_timeout configRead rc;
          effective = min RAFT_MAX_NODE_TIMEOUT_MS (case rc_nodeTimeout rc' of None \<Rightarrow> RAFT_DEFAULT_NODE_TIMEOUT_MS | Some n \<Rightarrow> n);
          recoveredMs = max RAFT_RECOVERED_FLOOR_MS (3 * effective);
          fireMs = recoveredMs + max RAFT_FIRE_MARGIN_MS effective
      in (rc', recoveredMs, fireMs))"

section \<open>The pinned incident\<close>

text \<open>What a handler needs of its surroundings: storage, the clock, the cache's time to live and the connection.\<close>

record 'st raft_env =
  re_port :: "'st StoragePort"
  re_now :: int
  re_cacheTtlMs :: int
  re_conn :: string

definition raft_query :: "string \<Rightarrow> feed_query" where
  "raft_query connectionId = \<lparr>fq_startTime = None, fq_endTime = None, fq_severity = Some CRITICAL,
     fq_metricType = Some RAFT_HEALTH, fq_limit = 100, fq_connectionId = Some connectionId, fq_activeOnly = True\<rparr>"

definition getActiveRaftOutages :: "'st raft_env \<Rightarrow> feed \<times> 'st \<Rightarrow> AnomalyEvent list" where
  "getActiveRaftOutages env fs =
     (case getRecentAnomalies (re_port env) (re_now env) (re_cacheTtlMs env) (raft_query (re_conn env)) fs of
        Some es \<Rightarrow> es
      | None \<Rightarrow> filter (\<lambda>e. \<not> ev_resolved e \<and> ev_severity e = CRITICAL \<and> ev_metricType e = RAFT_HEALTH \<and>
                           ev_connectionId e = Some (re_conn env)) (cached (fst fs)))"

fun resolve_each :: "'st raft_env \<Rightarrow> AnomalyEvent list \<Rightarrow> bool \<Rightarrow> feed \<times> 'st \<Rightarrow> (feed \<times> 'st) \<times> bool" where
  "resolve_each env [] allResolved fs = (fs, allResolved)"
| "resolve_each env (ev # evs) allResolved fs =
     (let r = resolveAnomaly (re_port env) (re_now env) (ev_id ev) fs
      in resolve_each env evs (allResolved \<and> snd r) (fst r))"

definition resolveRaftOutages :: "'st raft_env \<Rightarrow> feed \<times> 'st \<Rightarrow> (feed \<times> 'st) \<times> bool" where
  "resolveRaftOutages env fs = resolve_each env (getActiveRaftOutages env fs) True fs"

definition close_outage :: "'st raft_env \<Rightarrow> raft_conn \<times> feed \<times> 'st \<Rightarrow> raft_conn \<times> feed \<times> 'st" where
  "close_outage env s =
     (if rc_leaderlessActive (fst s)
      then let r = resolveRaftOutages env (snd s)
           in (if snd r then (fst s)\<lparr>rc_leaderlessActive := False\<rparr> else fst s, fst r)
      else s)"

section \<open>The handler\<close>

definition close_watch :: "raft_conn \<Rightarrow> raft_conn" where
  "close_watch rc = rc\<lparr>rc_leaderlessSince := None, rc_watchCommit := None, rc_lastSeeking := None\<rparr>"

definition churn_event :: "string \<Rightarrow> string \<Rightarrow> int \<Rightarrow> RaftState \<Rightarrow> AnomalyEvent" where
  "churn_event uuid connectionId timestamp state =
     state_event uuid timestamp RAFT_HEALTH SPIKE WARNING (rs_currentTerm state) 0 (real RAFT_CHURN_MIN_ELECTIONS) connectionId"

definition outage_event :: "string \<Rightarrow> string \<Rightarrow> int \<Rightarrow> AnomalyEvent" where
  "outage_event uuid connectionId timestamp = state_event uuid timestamp RAFT_HEALTH DROP CRITICAL 0 1 0 connectionId"

definition raft_elections :: "int \<Rightarrow> RaftState \<Rightarrow> raft_conn \<Rightarrow> raft_conn" where
  "raft_elections timestamp state rc =
     (let isNewElection = (case rc_prevTerm rc of None \<Rightarrow> False | Some prevTerm \<Rightarrow> rs_currentTerm state > prevTerm);
          churnCutoff = timestamp - RAFT_CHURN_WINDOW_MS
      in rc\<lparr>rc_prevTerm := Some (rs_currentTerm state),
            rc_termChanges := filter (\<lambda>t. t \<ge> churnCutoff) (rc_termChanges rc @ (if isNewElection then [timestamp] else []))\<rparr>)"

definition raft_churn ::
  "'st raft_env \<Rightarrow> string \<Rightarrow> int \<Rightarrow> RaftState \<Rightarrow> raft_conn \<times> feed \<times> 'st \<Rightarrow> (raft_conn \<times> feed \<times> 'st) \<times> AnomalyEvent list" where
  "raft_churn env uuid timestamp state s =
     (let rc = raft_elections timestamp state (fst s)
      in if length (rc_termChanges rc) \<ge> RAFT_CHURN_MIN_ELECTIONS
         then let event = churn_event uuid (re_conn env) timestamp state
              in ((rc\<lparr>rc_termChanges := []\<rparr>, addAnomaly (re_port env) (Some (re_conn env)) event (snd s)), [event])
         else ((rc, snd s), []))"

definition note_seeking :: "int \<Rightarrow> RaftState \<Rightarrow> raft_conn \<Rightarrow> raft_conn" where
  "note_seeking timestamp state rc = (if isRaftSeeking state then rc\<lparr>rc_lastSeeking := Some timestamp\<rparr> else rc)"

definition raft_recovered :: "int \<Rightarrow> int \<Rightarrow> RaftState \<Rightarrow> raft_conn \<Rightarrow> bool" where
  "raft_recovered recoveredMs timestamp state rc =
     (let watching = (rc_leaderlessSince rc \<noteq> None);
          madeProgress = (watching \<and> (case rc_watchCommit rc of None \<Rightarrow> False | Some c \<Rightarrow> rs_commitIndex state > c));
          settled = (watching \<and> \<not> isRaftSeeking state \<and>
                     (case rc_lastSeeking rc of None \<Rightarrow> False | Some t \<Rightarrow> timestamp - t \<ge> recoveredMs))
      in rs_role state = ''leader'' \<or> madeProgress \<or> settled)"

definition open_watch :: "int \<Rightarrow> RaftState \<Rightarrow> raft_conn \<Rightarrow> raft_conn" where
  "open_watch timestamp state rc =
     (case rc_leaderlessSince rc of
        Some _ \<Rightarrow> rc
      | None \<Rightarrow> rc\<lparr>rc_leaderlessSince := Some timestamp, rc_watchCommit := Some (rs_commitIndex state)\<rparr>)"

definition raft_pin ::
  "'st raft_env \<Rightarrow> string \<Rightarrow> int \<Rightarrow> raft_conn \<times> feed \<times> 'st \<Rightarrow> (raft_conn \<times> feed \<times> 'st) \<times> AnomalyEvent list" where
  "raft_pin env uuid timestamp s =
     (let active = getActiveRaftOutages env (snd s); rc = (fst s)\<lparr>rc_leaderlessActive := True\<rparr>
      in if length active = 0
         then let event = outage_event uuid (re_conn env) timestamp
              in ((rc, addAnomaly (re_port env) (Some (re_conn env)) event (snd s)), [event])
         else ((rc, snd s), []))"

definition raft_leaderless ::
  "'st raft_env \<Rightarrow> string \<Rightarrow> int \<Rightarrow> int \<Rightarrow> int \<Rightarrow> RaftState \<Rightarrow> raft_conn \<times> feed \<times> 'st
   \<Rightarrow> (raft_conn \<times> feed \<times> 'st) \<times> AnomalyEvent list" where
  "raft_leaderless env uuid recoveredMs fireMs timestamp state s =
     (let rc = note_seeking timestamp state (fst s); seeking = isRaftSeeking state
      in if \<not> raft_recovered recoveredMs timestamp state rc \<and> (seeking \<or> rc_leaderlessSince rc \<noteq> None)
         then let rc' = open_watch timestamp state rc;
                  since = (case rc_leaderlessSince rc' of Some t \<Rightarrow> t | None \<Rightarrow> timestamp)
              in if timestamp - since \<ge> fireMs \<and> (seeking \<or> rc_leaderlessActive rc')
                 then raft_pin env uuid timestamp (rc', snd s)
                 else ((rc', snd s), [])
         else (close_outage env (close_watch rc, snd s), []))"

definition detectRaftHealth ::
  "'st raft_env \<Rightarrow> (nat \<Rightarrow> string) \<Rightarrow> string option option \<Rightarrow> int \<Rightarrow> info_str \<Rightarrow> raft_conn \<times> feed \<times> 'st
   \<Rightarrow> (raft_conn \<times> feed \<times> 'st) \<times> AnomalyEvent list" where
  "detectRaftHealth env uuid configRead timestamp clusterInfo s =
     (case parseRaftState clusterInfo of
        None \<Rightarrow> (close_outage env (close_watch ((fst s)\<lparr>rc_prevTerm := None, rc_termChanges := []\<rparr>), snd s), [])
      | Some state \<Rightarrow>
          let r = raft_churn env (uuid 0) timestamp state s;
              w = raftLeaderlessWindows configRead (fst (fst r));
              r' = raft_leaderless env (uuid 1) (fst (snd w)) (snd (snd w)) timestamp state (fst w, snd (fst r))
          in (fst r', snd r @ snd r'))"

section \<open>The watch\<close>

text \<open>What one poll does to the watch: it is closed, kept by a node that made no progress, or opened by a seeking node.\<close>

definition watch_kept :: "RaftState \<Rightarrow> raft_conn \<Rightarrow> raft_conn \<Rightarrow> bool" where
  "watch_kept state rc rc' \<longleftrightarrow> rc_leaderlessSince rc \<noteq> None \<and> rc_leaderlessSince rc' = rc_leaderlessSince rc \<and>
     rc_watchCommit rc' = rc_watchCommit rc \<and> rs_role state \<noteq> ''leader'' \<and>
     (\<forall>c. rc_watchCommit rc = Some c \<longrightarrow> rs_commitIndex state \<le> c)"

definition watch_opened :: "int \<Rightarrow> RaftState \<Rightarrow> raft_conn \<Rightarrow> bool" where
  "watch_opened timestamp state rc' \<longleftrightarrow> isRaftSeeking state \<and> rc_leaderlessSince rc' = Some timestamp \<and>
     rc_watchCommit rc' = Some (rs_commitIndex state)"

lemma seeking_not_leader: "isRaftSeeking state \<Longrightarrow> rs_role state \<noteq> ''leader''"
  by (auto simp: isRaftSeeking_def RAFT_SEEKING_ROLES_def)

lemma recheck_watch [simp]:
  "rc_leaderlessSince (recheck_node_timeout configRead rc) = rc_leaderlessSince rc"
  "rc_watchCommit (recheck_node_timeout configRead rc) = rc_watchCommit rc"
  "rc_leaderlessActive (recheck_node_timeout configRead rc) = rc_leaderlessActive rc"
  by (simp_all add: recheck_node_timeout_def Let_def split: option.split)

lemma windows_conn [simp]: "fst (raftLeaderlessWindows configRead rc) = recheck_node_timeout configRead rc"
  by (simp add: raftLeaderlessWindows_def Let_def)

lemma churn_watch [simp]:
  "rc_leaderlessSince (fst (fst (raft_churn env uuid timestamp state s))) = rc_leaderlessSince (fst s)"
  "rc_watchCommit (fst (fst (raft_churn env uuid timestamp state s))) = rc_watchCommit (fst s)"
  "rc_leaderlessActive (fst (fst (raft_churn env uuid timestamp state s))) = rc_leaderlessActive (fst s)"
  "rc_nodeTimeout (fst (fst (raft_churn env uuid timestamp state s))) = rc_nodeTimeout (fst s)"
  "rc_recheck (fst (fst (raft_churn env uuid timestamp state s))) = rc_recheck (fst s)"
  by (simp_all add: raft_churn_def raft_elections_def Let_def)

lemma close_outage_watch [simp]:
  "rc_leaderlessSince (fst (close_outage env s)) = rc_leaderlessSince (fst s)"
  "rc_watchCommit (fst (close_outage env s)) = rc_watchCommit (fst s)"
  by (simp_all add: close_outage_def Let_def)

lemma raft_pin_watch [simp]:
  "rc_leaderlessSince (fst (fst (raft_pin env uuid timestamp s))) = rc_leaderlessSince (fst s)"
  "rc_watchCommit (fst (fst (raft_pin env uuid timestamp s))) = rc_watchCommit (fst s)"
  by (simp_all add: raft_pin_def Let_def)

lemma note_seeking_watch [simp]:
  "rc_leaderlessSince (note_seeking timestamp state rc) = rc_leaderlessSince rc"
  "rc_watchCommit (note_seeking timestamp state rc) = rc_watchCommit rc"
  "rc_leaderlessActive (note_seeking timestamp state rc) = rc_leaderlessActive rc"
  by (simp_all add: note_seeking_def)

lemma open_watch_active [simp]: "rc_leaderlessActive (open_watch timestamp state rc) = rc_leaderlessActive rc"
  by (simp add: open_watch_def split: option.split)

lemma leaderless_watch:
  assumes "raft_leaderless env uuid recoveredMs fireMs timestamp state s = (s', emitted)"
  shows "rc_leaderlessSince (fst s') = None \<or> watch_kept state (fst s) (fst s') \<or> watch_opened timestamp state (fst s')"
proof -
  define rc where "rc = note_seeking timestamp state (fst s)"
  show ?thesis
  proof (cases "\<not> raft_recovered recoveredMs timestamp state rc \<and> (isRaftSeeking state \<or> rc_leaderlessSince rc \<noteq> None)")
    case False
    with assms have "s' = close_outage env (close_watch rc, snd s)" by (auto simp: raft_leaderless_def rc_def Let_def split: if_splits)
    then show ?thesis by (simp add: close_watch_def)
  next
    case True
    have "rc_leaderlessSince (fst s') = rc_leaderlessSince (open_watch timestamp state rc) \<and>
        rc_watchCommit (fst s') = rc_watchCommit (open_watch timestamp state rc)"
      using assms True by (auto simp: raft_leaderless_def raft_pin_def rc_def Let_def split: if_splits)
    with True show ?thesis
      by (cases "rc_leaderlessSince (fst s)")
         (auto simp: rc_def open_watch_def watch_kept_def watch_opened_def raft_recovered_def Let_def split: option.splits)
  qed
qed

lemma leaderless_log:
  assumes "raft_leaderless env uuid recoveredMs fireMs timestamp state s = (s', emitted)" and "emitted \<noteq> []"
  shows "\<exists>since. rc_leaderlessSince (fst s') = Some since \<and> fireMs \<le> timestamp - since"
    and "isRaftSeeking state \<or> rc_leaderlessActive (fst s)"
  using assms by (auto simp: raft_leaderless_def Let_def raft_pin_def open_watch_def split: if_splits option.splits)

lemma churn_not_critical: "e \<in> set (snd (raft_churn env uuid timestamp state s)) \<Longrightarrow> ev_severity e = WARNING"
  by (auto simp: raft_churn_def Let_def churn_event_def state_event_def split: if_splits)

lemma windows_bounds:
  assumes "raftLeaderlessWindows configRead rc = (rc', recoveredMs, fireMs)"
  shows "RAFT_RECOVERED_FLOOR_MS \<le> recoveredMs" and "recoveredMs + RAFT_FIRE_MARGIN_MS \<le> fireMs"
    and "fireMs \<le> 4 * RAFT_MAX_NODE_TIMEOUT_MS"
    and "rc_nodeTimeout rc' = Some n \<Longrightarrow> n \<le> RAFT_MAX_NODE_TIMEOUT_MS \<Longrightarrow> 3 * n \<le> recoveredMs \<and> recoveredMs + n \<le> fireMs"
  using assms
  by (auto simp: raftLeaderlessWindows_def Let_def raft_consts min_def max_def split: option.splits if_splits)

text \<open>
  the two windows of the leaderless watch keep their order however the node is configured and
  whatever the configuration read returns: the recovery window is at least 30 s and ends at least
  10 s before the fire window, which never exceeds 20 minutes; and with a known timeout of up to
  five minutes the recovery window spans three timeouts and the fire window one more, so a single
  election blip settles before it could fire.
\<close>

theorem raft_windows_ordered:
  assumes "raftLeaderlessWindows configRead rc = (rc', recoveredMs, fireMs)"
  shows "30000 \<le> recoveredMs \<and> recoveredMs + 10000 \<le> fireMs \<and> fireMs \<le> 1200000 \<and>
    (\<forall>n. rc_nodeTimeout rc' = Some n \<and> n \<le> 300000 \<longrightarrow> 3 * n \<le> recoveredMs \<and> recoveredMs + n \<le> fireMs)"
  using windows_bounds [OF assms] by (auto simp: raft_consts)

theorem raft_windows_ordered_witness:
  "(30000 :: int) \<le> 60000 \<and> (60000 :: int) + 10000 \<le> 80000 \<and>
   raftLeaderlessWindows (Some (Some ''20000'')) new_raft_conn = (new_raft_conn\<lparr>rc_nodeTimeout := Some 20000\<rparr>, 60000, 80000)"
proof -
  have "raftLeaderlessWindows (Some (Some ''20000'')) new_raft_conn = (new_raft_conn\<lparr>rc_nodeTimeout := Some 20000\<rparr>, 60000, 80000)"
    by code_simp
  with raft_windows_ordered [OF this] show ?thesis by simp
qed

section \<open>Runs\<close>

record raft_poll =
  rp_now :: int
  rp_uuid :: "nat \<Rightarrow> string"
  rp_config :: "string option option"
  rp_timestamp :: int
  rp_info :: info_str

definition raft_env_at :: "'st StoragePort \<Rightarrow> int \<Rightarrow> string \<Rightarrow> raft_poll \<Rightarrow> 'st raft_env" where
  "raft_env_at port ttl c p = \<lparr>re_port = port, re_now = rp_now p, re_cacheTtlMs = ttl, re_conn = c\<rparr>"

definition raft_step ::
  "'st StoragePort \<Rightarrow> int \<Rightarrow> string \<Rightarrow> raft_conn \<times> feed \<times> 'st \<Rightarrow> raft_poll \<Rightarrow> (raft_conn \<times> feed \<times> 'st) \<times> AnomalyEvent list" where
  "raft_step port ttl c s p = detectRaftHealth (raft_env_at port ttl c p) (rp_uuid p) (rp_config p) (rp_timestamp p) (rp_info p) s"

definition raft_run :: "'st StoragePort \<Rightarrow> int \<Rightarrow> string \<Rightarrow> feed \<times> 'st \<Rightarrow> raft_poll list \<Rightarrow> raft_conn \<times> feed \<times> 'st" where
  "raft_run port ttl c fs ps = foldl (\<lambda>s p. fst (raft_step port ttl c s p)) (new_raft_conn, fs) ps"

lemma raft_run_snoc: "raft_run port ttl c fs (ps @ [p]) = fst (raft_step port ttl c (raft_run port ttl c fs ps) p)"
  by (simp add: raft_run_def)

text \<open>A stretch of polls from \<open>w\<close>, where the node sought a leader, in which it never led and never committed past \<open>w\<close>.\<close>

definition frozen_since :: "raft_poll \<Rightarrow> raft_poll list \<Rightarrow> bool" where
  "frozen_since w ps \<longleftrightarrow>
     (\<exists>sw. parseRaftState (rp_info w) = Some sw \<and> isRaftSeeking sw \<and>
        (\<forall>p \<in> set (w # ps). \<exists>state. parseRaftState (rp_info p) = Some state \<and> rs_role state \<noteq> ''leader'' \<and>
           rs_commitIndex state \<le> rs_commitIndex sw))"

definition watch_inv :: "raft_poll list \<Rightarrow> raft_conn \<Rightarrow> bool" where
  "watch_inv ps rc \<longleftrightarrow> (\<forall>since. rc_leaderlessSince rc = Some since \<longrightarrow>
     (\<exists>pre w rest sw. ps = pre @ w # rest \<and> rp_timestamp w = since \<and> frozen_since w rest \<and>
        parseRaftState (rp_info w) = Some sw \<and> rc_watchCommit rc = Some (rs_commitIndex sw)))"

lemma frozen_since_Nil:
  "parseRaftState (rp_info w) = Some sw \<Longrightarrow> isRaftSeeking sw \<Longrightarrow> frozen_since w []"
  by (simp add: frozen_since_def seeking_not_leader)

lemma frozen_since_snoc:
  assumes "frozen_since w ps" and "parseRaftState (rp_info w) = Some sw" and "parseRaftState (rp_info p) = Some state"
    and "rs_role state \<noteq> ''leader''" and "rs_commitIndex state \<le> rs_commitIndex sw"
  shows "frozen_since w (ps @ [p])"
  using assms by (auto simp: frozen_since_def)

lemma raft_step_watch:
  assumes "raft_step port ttl c s p = (s', emitted)"
  shows "rc_leaderlessSince (fst s') = None \<or>
    (\<exists>state. parseRaftState (rp_info p) = Some state \<and> (watch_kept state (fst s) (fst s') \<or> watch_opened (rp_timestamp p) state (fst s')))"
proof (cases "parseRaftState (rp_info p)")
  case None
  with assms have "fst s' = fst (close_outage (raft_env_at port ttl c p) (close_watch ((fst s)\<lparr>rc_prevTerm := None, rc_termChanges := []\<rparr>), snd s))"
    by (auto simp: raft_step_def detectRaftHealth_def)
  then show ?thesis by (simp add: close_watch_def)
next
  case (Some state)
  define r where "r = raft_churn (raft_env_at port ttl c p) (rp_uuid p 0) (rp_timestamp p) state s"
  define w where "w = raftLeaderlessWindows (rp_config p) (fst (fst r))"
  obtain emitted' where l: "raft_leaderless (raft_env_at port ttl c p) (rp_uuid p 1) (fst (snd w)) (snd (snd w)) (rp_timestamp p) state
      (fst w, snd (fst r)) = (s', emitted')"
    using assms Some by (auto simp: raft_step_def detectRaftHealth_def Let_def r_def w_def prod_eq_iff)
  have "rc_leaderlessSince (fst w) = rc_leaderlessSince (fst s)" "rc_watchCommit (fst w) = rc_watchCommit (fst s)"
    by (simp_all add: w_def r_def)
  with leaderless_watch [OF l] Some show ?thesis by (auto simp: watch_kept_def)
qed

lemma raft_run_inv: "watch_inv ps (fst (raft_run port ttl c fs ps))"
proof (induction ps rule: rev_induct)
  case Nil
  show ?case by (simp add: raft_run_def watch_inv_def new_raft_conn_def)
next
  case (snoc p ps)
  let ?s = "raft_run port ttl c fs ps" and ?s' = "raft_run port ttl c fs (ps @ [p])"
  obtain emitted where "raft_step port ttl c ?s p = (?s', emitted)" by (metis prod.collapse raft_run_snoc)
  from raft_step_watch [OF this] consider "rc_leaderlessSince (fst ?s') = None"
    | state where "parseRaftState (rp_info p) = Some state" "watch_kept state (fst ?s) (fst ?s')"
    | state where "parseRaftState (rp_info p) = Some state" "watch_opened (rp_timestamp p) state (fst ?s')" by (elim disjE exE conjE) simp_all
  then show ?case
  proof cases
    case 1
    then show ?thesis by (simp add: watch_inv_def)
  next
    case (2 state)
    then obtain since where since: "rc_leaderlessSince (fst ?s) = Some since" by (auto simp: watch_kept_def)
    with snoc obtain pre w rest sw where *: "ps = pre @ w # rest" "rp_timestamp w = since" "frozen_since w rest"
      "parseRaftState (rp_info w) = Some sw" "rc_watchCommit (fst ?s) = Some (rs_commitIndex sw)" unfolding watch_inv_def by blast
    have "frozen_since w (rest @ [p])" using * 2 by (intro frozen_since_snoc) (auto simp: watch_kept_def)
    with * 2 since show ?thesis unfolding watch_inv_def watch_kept_def by (metis append.assoc append_Cons option.inject)
  next
    case (3 state)
    have "frozen_since p []" using 3 by (intro frozen_since_Nil) (auto simp: watch_opened_def)
    with 3 show ?thesis unfolding watch_inv_def watch_opened_def by (metis option.inject)
  qed
qed

section \<open>The incident\<close>

lemma raft_step_critical:
  assumes "raft_step port ttl c s p = (s', emitted)" and "e \<in> set emitted" and "ev_severity e = CRITICAL"
  obtains state since where "parseRaftState (rp_info p) = Some state"
    and "rc_leaderlessSince (fst s') = Some since" and "RAFT_RECOVERED_FLOOR_MS + RAFT_FIRE_MARGIN_MS \<le> rp_timestamp p - since"
    and "isRaftSeeking state \<or> rc_leaderlessActive (fst s)"
proof (cases "parseRaftState (rp_info p)")
  case None
  with assms(1,2) show thesis by (simp add: raft_step_def detectRaftHealth_def)
next
  case (Some state)
  define r where "r = raft_churn (raft_env_at port ttl c p) (rp_uuid p 0) (rp_timestamp p) state s"
  obtain rc' recoveredMs fireMs where w: "raftLeaderlessWindows (rp_config p) (fst (fst r)) = (rc', recoveredMs, fireMs)"
    by (metis prod.collapse)
  obtain emitted' where l: "raft_leaderless (raft_env_at port ttl c p) (rp_uuid p 1) recoveredMs fireMs (rp_timestamp p) state
      (rc', snd (fst r)) = (s', emitted')" and em: "emitted = snd r @ emitted'"
    using assms(1) Some w by (auto simp: raft_step_def detectRaftHealth_def Let_def r_def prod_eq_iff)
  have "e \<notin> set (snd r)" using churn_not_critical assms(3) unfolding r_def by fastforce
  with em assms(2) have "emitted' \<noteq> []" by auto
  note fired = leaderless_log [OF l this]
  from fired(1) obtain since where since: "rc_leaderlessSince (fst s') = Some since" "fireMs \<le> rp_timestamp p - since" by blast
  have "rc' = recheck_node_timeout (rp_config p) (fst (fst r))" by (metis w windows_conn fst_conv)
  then have "rc_leaderlessActive rc' = rc_leaderlessActive (fst s)" by (simp add: r_def)
  with fired(2) have act: "isRaftSeeking state \<or> rc_leaderlessActive (fst s)" by simp
  have "RAFT_RECOVERED_FLOOR_MS + RAFT_FIRE_MARGIN_MS \<le> rp_timestamp p - since"
    using windows_bounds(1,2) [OF w] since(2) by simp
  from that [OF Some since(1) this act] show thesis .
qed

text \<open>
  C31: a lost quorum is reported only after at least forty seconds of polls in which the node, from
  a poll at which it sought a leader on, never led and never committed past that poll, and only at
  a poll where it seeks or the outage was confirmed before: a failover that elects a leader, or
  any commit progress, never raises the CRITICAL incident.
\<close>

theorem raft_outage_needs_frozen_watch:
  assumes "e \<in> set (snd (raft_step port ttl c (raft_run port ttl c fs ps) p))" and "ev_severity e = CRITICAL"
  shows "\<exists>pre w rest. ps @ [p] = pre @ w # rest \<and> frozen_since w rest \<and> 40000 \<le> rp_timestamp p - rp_timestamp w \<and>
    ((\<exists>state. parseRaftState (rp_info p) = Some state \<and> isRaftSeeking state) \<or>
     rc_leaderlessActive (fst (raft_run port ttl c fs ps)))"
proof -
  obtain s' emitted where step: "raft_step port ttl c (raft_run port ttl c fs ps) p = (s', emitted)" by fastforce
  with assms(1) have e: "e \<in> set emitted" by simp
  from raft_step_critical [OF step e assms(2)] obtain state since where
    *: "parseRaftState (rp_info p) = Some state" "rc_leaderlessSince (fst s') = Some since"
      "RAFT_RECOVERED_FLOOR_MS + RAFT_FIRE_MARGIN_MS \<le> rp_timestamp p - since"
      "isRaftSeeking state \<or> rc_leaderlessActive (fst (raft_run port ttl c fs ps))" by metis
  have "s' = raft_run port ttl c fs (ps @ [p])" by (simp add: raft_run_snoc step)
  with raft_run_inv [of "ps @ [p]" port ttl c fs] *(2) obtain pre w rest where
    "ps @ [p] = pre @ w # rest" "rp_timestamp w = since" "frozen_since w rest" unfolding watch_inv_def by metis
  with * show ?thesis by (auto simp: raft_consts)
qed

lemma sort_key_Nil_iff: "sort_key f xs = [] \<longleftrightarrow> xs = []"
  by (metis length_0_conv length_sort)

lemma cached_remember:
  assumes "js_get (fd_objects f) i = Some e" and "recentAnomalies f = take_last maxRecentEvents (xs @ [i])"
  shows "e \<in> set (cached f)"
proof -
  have "i \<in> set (take_last maxRecentEvents (xs @ [i]))" by (simp add: take_last_def maxRecentEvents_def)
  with assms show ?thesis by (auto simp: cached_mem)
qed

lemma remember_cached:
  "recentAnomalies (remember e f) = take_last maxRecentEvents (recentAnomalies f @ [ev_id e])"
  "js_get (fd_objects (remember e f)) (ev_id e) = Some e"
  by (simp_all add: remember_def Let_def take_last_id js_get_set)

lemma addAnomaly_feed:
  "fst (addAnomaly port ctx e fs) = remember e (fst fs) \<or>
   fst (addAnomaly port ctx e fs) = (remember e (fst fs))\<lparr>fd_objects := js_set (ev_id e) (e\<lparr>ev_persisted := True\<rparr>) (fd_objects (remember e (fst fs)))\<rparr>"
  unfolding addAnomaly_def Let_def by (simp split: option.split)

lemma addAnomaly_cached:
  "\<exists>e'. e' \<in> set (cached (fst (addAnomaly port ctx e fs))) \<and> (e' = e \<or> e' = e\<lparr>ev_persisted := True\<rparr>)"
  using addAnomaly_feed [of port ctx e fs]
proof
  assume f: "fst (addAnomaly port ctx e fs) = remember e (fst fs)"
  have "e \<in> set (cached (remember e (fst fs)))" by (rule cached_remember [OF remember_cached(2) remember_cached(1)])
  then show ?thesis unfolding f by blast
next
  let ?f = "(remember e (fst fs))\<lparr>fd_objects := js_set (ev_id e) (e\<lparr>ev_persisted := True\<rparr>) (fd_objects (remember e (fst fs)))\<rparr>"
  assume f: "fst (addAnomaly port ctx e fs) = ?f"
  have "js_get (fd_objects ?f) (ev_id e) = Some (e\<lparr>ev_persisted := True\<rparr>)" by (simp add: js_get_set)
  then have "e\<lparr>ev_persisted := True\<rparr> \<in> set (cached ?f)" by (rule cached_remember) (simp add: remember_cached(1))
  then show ?thesis unfolding f by blast
qed

lemma cached_outage_active:
  assumes "e \<in> set (cached (fst fs))" and "\<not> ev_resolved e" and "ev_severity e = CRITICAL" and "ev_metricType e = RAFT_HEALTH"
    and "ev_connectionId e = Some (re_conn env)"
  shows "getActiveRaftOutages env fs \<noteq> []"
proof (cases "getAnomalyEvents (re_port env) (active_options (raft_query (re_conn env))) (snd fs)")
  case None
  with assms show ?thesis
    by (auto simp: getActiveRaftOutages_def getRecentAnomalies_def raft_query_def filter_empty_conv intro!: bexI [of _ e])
next
  case (Some rs)
  have m: "cache_matches (raft_query (re_conn env)) e"
    using assms by (auto simp: cache_matches_def raft_query_def opt_holds_def truthy_def)
  let ?stored = "map storedToAnomalyEvent rs"
  let ?mem = "filter (\<lambda>e. ev_id e \<notin> set (map ev_id ?stored) \<and> \<not> ev_resolved e \<and> cache_matches (raft_query (re_conn env)) e) (cached (fst fs))"
  have ne: "?stored @ ?mem \<noteq> []"
  proof (cases "ev_id e \<in> set (map ev_id ?stored)")
    case True
    then show ?thesis by auto
  next
    case False
    with assms(1,2) m have "e \<in> set ?mem" by simp
    then have "?mem \<noteq> []" by (metis empty_iff empty_set)
    then show ?thesis by simp
  qed
  have "getActiveRaftOutages env fs = take 100 (sort_key (\<lambda>e. - ev_timestamp e) (?stored @ ?mem))"
    using Some by (simp add: getActiveRaftOutages_def getRecentAnomalies_def merge_feed_def raft_query_def Let_def)
  moreover have "sort_key (\<lambda>e. - ev_timestamp e) (?stored @ ?mem) \<noteq> []" using ne by (simp only: sort_key_Nil_iff not_False_eq_True)
  ultimately show ?thesis by simp
qed

lemma raft_pin_active: "getActiveRaftOutages env (snd (fst (raft_pin env uuid timestamp s))) \<noteq> []"
proof (cases "getActiveRaftOutages env (snd s) = []")
  case True
  let ?e = "outage_event uuid (re_conn env) timestamp"
  obtain e' where e': "e' \<in> set (cached (fst (addAnomaly (re_port env) (Some (re_conn env)) ?e (snd s))))"
    "e' = ?e \<or> e' = ?e\<lparr>ev_persisted := True\<rparr>" using addAnomaly_cached by blast
  then have "getActiveRaftOutages env (addAnomaly (re_port env) (Some (re_conn env)) ?e (snd s)) \<noteq> []"
    by (intro cached_outage_active [OF e'(1)]) (auto simp: outage_event_def state_event_def)
  with True show ?thesis by (simp add: raft_pin_def Let_def)
qed (simp add: raft_pin_def Let_def)

text \<open>
  the incident stays pinned. At every poll that keeps the watch open past the fire window,
  with the node seeking or the outage confirmed, the active feed of the connection holds an
  incident afterwards, whatever storage does and whoever dismissed the previous one, and the poll
  adds at most one.
\<close>

theorem raft_outage_pinned:
  assumes "raft_step port ttl c s p = (s', emitted)" and "parseRaftState (rp_info p) = Some state"
    and "rc_leaderlessSince (fst s') = Some since"
    and "snd (snd (raftLeaderlessWindows (rp_config p) (fst s))) \<le> rp_timestamp p - since"
    and "isRaftSeeking state \<or> rc_leaderlessActive (fst s)"
  shows "getActiveRaftOutages (raft_env_at port ttl c p) (snd s') \<noteq> [] \<and> rc_leaderlessActive (fst s') \<and>
    length (filter (\<lambda>e. ev_severity e = CRITICAL) emitted) \<le> 1"
proof -
  let ?env = "raft_env_at port ttl c p" and ?t = "rp_timestamp p"
  define r where "r = raft_churn ?env (rp_uuid p 0) ?t state s"
  define w where "w = raftLeaderlessWindows (rp_config p) (fst (fst r))"
  have "snd w = snd (raftLeaderlessWindows (rp_config p) (fst s))"
    by (simp add: w_def r_def raftLeaderlessWindows_def recheck_node_timeout_def Let_def split: option.split)
  with assms(4) have fire: "snd (snd w) \<le> ?t - since" by simp
  obtain emitted' where l: "raft_leaderless ?env (rp_uuid p 1) (fst (snd w)) (snd (snd w)) ?t state (fst w, snd (fst r)) = (s', emitted')"
    and em: "emitted = snd r @ emitted'"
    using assms(1,2) by (auto simp: raft_step_def detectRaftHealth_def Let_def r_def w_def prod_eq_iff)
  define rc where "rc = note_seeking ?t state (fst w)"
  have act: "isRaftSeeking state \<or> rc_leaderlessActive (open_watch ?t state rc)" using assms(5) by (simp add: rc_def w_def r_def)
  have watch: "\<not> raft_recovered (fst (snd w)) ?t state rc \<and> (isRaftSeeking state \<or> rc_leaderlessSince rc \<noteq> None)"
  proof (rule ccontr)
    assume "\<not> ?thesis"
    with l have "s' = close_outage ?env (close_watch rc, snd (fst r))" by (auto simp: raft_leaderless_def rc_def Let_def split: if_splits)
    with assms(3) show False by (simp add: close_watch_def)
  qed
  have "rc_leaderlessSince (open_watch ?t state rc) = Some since"
    using l watch assms(3) by (auto simp: raft_leaderless_def raft_pin_def rc_def Let_def split: if_splits)
  with l watch fire act have pin: "raft_pin ?env (rp_uuid p 1) ?t (open_watch ?t state rc, snd (fst r)) = (s', emitted')"
    by (simp add: raft_leaderless_def rc_def Let_def)
  have "filter (\<lambda>e. ev_severity e = CRITICAL) (snd r) = []"
    using churn_not_critical unfolding r_def filter_empty_conv by fastforce
  moreover have "length emitted' \<le> 1" "rc_leaderlessActive (fst s')" using pin by (auto simp: raft_pin_def Let_def split: if_splits)
  moreover from this(1) have "length (filter (\<lambda>e. ev_severity e = CRITICAL) emitted') \<le> 1"
    using length_filter_le order_trans by blast
  ultimately show ?thesis using raft_pin_active [of ?env "rp_uuid p 1" ?t "(open_watch ?t state rc, snd (fst r))"] pin em by simp
qed

text \<open>A node that seeks for a minute, over an empty memory store.\<close>

definition demo_raft :: "string \<Rightarrow> int \<Rightarrow> raft_poll" where
  "demo_raft role t = \<lparr>rp_now = t, rp_uuid = (\<lambda>n. ''u'' @ show_int t @ show_nat n), rp_config = Some (Some ''10000''), rp_timestamp = t,
     rp_info = map_of [(''cluster_raft_role'', role), (''cluster_raft_current_term'', ''4''), (''cluster_raft_commit_index'', ''17'')]\<rparr>"

definition demo_raft_run :: "raft_conn \<times> feed \<times> StoredAnomalyEvent list" where
  "demo_raft_run = raft_run memory_port 60000 ''c1'' (empty_feed, []) (map (demo_raft ''candidate'') [1000, 31000])"

lemma demo_raft_fires:
  "map ev_severity (snd (raft_step memory_port 60000 ''c1'' demo_raft_run (demo_raft ''candidate'' 61000))) = [CRITICAL]"
  by code_simp

theorem raft_outage_needs_frozen_watch_witness:
  "\<exists>pre w rest. map (demo_raft ''candidate'') [1000, 31000] @ [demo_raft ''candidate'' 61000] = pre @ w # rest \<and> frozen_since w rest \<and>
    40000 \<le> rp_timestamp (demo_raft ''candidate'' 61000) - rp_timestamp w \<and>
    ((\<exists>state. parseRaftState (rp_info (demo_raft ''candidate'' 61000)) = Some state \<and> isRaftSeeking state) \<or>
     rc_leaderlessActive (fst demo_raft_run))"
proof -
  let ?es = "snd (raft_step memory_port 60000 ''c1'' demo_raft_run (demo_raft ''candidate'' 61000))"
  obtain e where "?es = [e]" "ev_severity e = CRITICAL" using demo_raft_fires by (cases ?es) auto
  then have "e \<in> set ?es" by simp
  from raft_outage_needs_frozen_watch [OF this [unfolded demo_raft_run_def] \<open>ev_severity e = CRITICAL\<close>]
  show ?thesis unfolding demo_raft_run_def .
qed

theorem raft_outage_pinned_witness:
  "getActiveRaftOutages (raft_env_at memory_port 60000 ''c1'' (demo_raft ''candidate'' 61000))
     (snd (fst (raft_step memory_port 60000 ''c1'' demo_raft_run (demo_raft ''candidate'' 61000)))) \<noteq> []"
proof -
  let ?r = "raft_step memory_port 60000 ''c1'' demo_raft_run (demo_raft ''candidate'' 61000)"
  obtain state where state: "parseRaftState (rp_info (demo_raft ''candidate'' 61000)) = Some state" "rs_role state = ''candidate''"
    by (simp add: parseRaftState_def demo_raft_def or_empty_def)
  have since: "rc_leaderlessSince (fst (fst ?r)) = Some 1000" by code_simp
  have fire: "snd (snd (raftLeaderlessWindows (rp_config (demo_raft ''candidate'' 61000)) (fst demo_raft_run)))
      \<le> rp_timestamp (demo_raft ''candidate'' 61000) - 1000" by code_simp
  have "isRaftSeeking state \<or> rc_leaderlessActive (fst demo_raft_run)" using state(2) by (simp add: isRaftSeeking_def RAFT_SEEKING_ROLES_def)
  from raft_outage_pinned [OF surjective_pairing state(1) since fire this] show ?thesis by simp
qed

end
