(* ===== verification/Bulk_Scan.thy ===== *)
theory Bulk_Scan
  imports Js_Number "HOL-Library.Extended_Nat"
begin

text \<open>
  The engine of the bulk delete by pattern, src/proprietary/bulk-delete/bulk-delete-engine.ts with
  the types of types.ts: validation and clamping of a request, and the walk that scans every node
  and, in execute mode, unlinks what it matched.

  The engine runs over the interface \<open>ScanTarget\<close> (a node that answers SCAN and UNLINK) and the
  hooks of its caller. Both are parameters of the model: a target's \<open>scan\<close> and \<open>unlink\<close> and the
  hooks transform a world \<open>'w\<close>, which stands for the servers and for whatever else changes while
  the engine awaits, the cancel flag included. A rejected promise is \<open>Inl\<close> with its message. The
  do-while loop of a node may run for ever, so its value is \<open>None\<close> when it does not return; the
  properties show that it returns whenever the server's cursor makes progress, which SCAN documents.
\<close>

section \<open>Types\<close>

datatype BulkDeleteMode = DryRun | Execute

datatype BulkDeleteScope = NodeScope | ClusterScope

record ScanOptions =
  optMatch :: string
  optCount :: int
  optType :: "string option"

record ScanResult =
  resCursor :: string
  resKeys :: "string list"

record 'w ScanTarget =
  target_name :: string
  scan :: "string \<Rightarrow> ScanOptions \<Rightarrow> 'w \<Rightarrow> (string + ScanResult) \<times> 'w"
  unlink :: "string list \<Rightarrow> 'w \<Rightarrow> (string + int) \<times> 'w"

record BulkDeleteParams =
  parMatch :: string
  parType :: "string option"
  parCount :: int
  parMode :: BulkDeleteMode
  maxKeys :: enat
  batchPauseMs :: int
  sampleLimit :: nat

record NodeProgress =
  node :: string
  nodeMatched :: nat
  nodeDeleted :: int
  nodeBatches :: nat
  cursorDone :: bool

record BulkDeleteProgress =
  progMode :: BulkDeleteMode
  matched :: nat
  deleted :: int
  batches :: nat
  nodesTotal :: nat
  nodesDone :: nat
  truncated :: bool
  cancelled :: bool
  sampleKeys :: "string list"
  perNode :: "NodeProgress list"

record 'w BulkDeleteRunHooks =
  sleep :: "int \<Rightarrow> 'w \<Rightarrow> 'w"
  isCancelled :: "'w \<Rightarrow> bool"
  onProgress :: "BulkDeleteProgress \<Rightarrow> 'w \<Rightarrow> 'w"

record BulkDeleteRequestInput =
  inMatch :: "string option"
  inType :: "string option"
  inCount :: "jsnum option"
  inScope :: "BulkDeleteScope option"
  inMaxKeys :: "jsnum option"
  inBatchPauseMs :: "jsnum option"
  confirmDeleteAll :: bool

section \<open>Requests\<close>

definition DEFAULT_COUNT :: int where "DEFAULT_COUNT = 500"
definition MIN_COUNT :: int where "MIN_COUNT = 1"
definition MAX_COUNT :: int where "MAX_COUNT = 10000"
definition DEFAULT_SAMPLE_LIMIT :: nat where "DEFAULT_SAMPLE_LIMIT = 100"
definition MIN_BATCH_PAUSE_MS :: int where "MIN_BATCH_PAUSE_MS = 0"
definition MAX_BATCH_PAUSE_MS :: int where "MAX_BATCH_PAUSE_MS = 60000"
definition DEFAULT_PREVIEW_MAX_KEYS :: nat where "DEFAULT_PREVIEW_MAX_KEYS = 10000"
definition DEFAULT_PREVIEW_SAMPLE_LIMIT :: nat where "DEFAULT_PREVIEW_SAMPLE_LIMIT = 50"

lemmas bulk_constants [simp] =
  DEFAULT_COUNT_def MIN_COUNT_def MAX_COUNT_def DEFAULT_SAMPLE_LIMIT_def MIN_BATCH_PAUSE_MS_def
  MAX_BATCH_PAUSE_MS_def DEFAULT_PREVIEW_MAX_KEYS_def DEFAULT_PREVIEW_SAMPLE_LIMIT_def

definition matchesEverything :: "string \<Rightarrow> bool" where
  "matchesEverything pattern \<longleftrightarrow> pattern \<noteq> [] \<and> list_all (\<lambda>c. c = CHR ''*'') pattern"

definition math_trunc :: "real \<Rightarrow> int" where
  "math_trunc x = (if x \<ge> 0 then \<lfloor>x\<rfloor> else \<lceil>x\<rceil>)"

definition clampInt :: "jsnum option \<Rightarrow> int \<Rightarrow> int \<Rightarrow> int \<Rightarrow> int" where
  "clampInt value lo hi fallback =
     (case value of
        Some (Num x) \<Rightarrow> min hi (max lo (math_trunc x))
      | _ \<Rightarrow> fallback)"

datatype BulkDeleteValidationError = EmptyPattern | UnconfirmedCatchAll string

definition normalizeBulkDeleteParams ::
  "BulkDeleteRequestInput \<Rightarrow> BulkDeleteMode \<Rightarrow> BulkDeleteValidationError + BulkDeleteParams" where
  "normalizeBulkDeleteParams input mode =
     (let match = js_trim (case inMatch input of None \<Rightarrow> [] | Some m \<Rightarrow> m)
      in if match = [] then Inl EmptyPattern
         else if matchesEverything match \<and> \<not> confirmDeleteAll input then Inl (UnconfirmedCatchAll match)
         else
           let defaultMaxKeys = (if mode = DryRun then enat DEFAULT_PREVIEW_MAX_KEYS else \<infinity>)
           in Inr \<lparr> parMatch = match,
                    parType = truthy [] (map_option js_trim (inType input)),
                    parCount = clampInt (inCount input) MIN_COUNT MAX_COUNT DEFAULT_COUNT,
                    parMode = mode,
                    maxKeys = (case inMaxKeys input of
                                 Some (Num x) \<Rightarrow> if x > 0 then enat (nat (math_trunc x)) else defaultMaxKeys
                               | _ \<Rightarrow> defaultMaxKeys),
                    batchPauseMs = clampInt (inBatchPauseMs input) MIN_BATCH_PAUSE_MS MAX_BATCH_PAUSE_MS
                                     MIN_BATCH_PAUSE_MS,
                    sampleLimit = (if mode = DryRun then DEFAULT_PREVIEW_SAMPLE_LIMIT
                                   else DEFAULT_SAMPLE_LIMIT) \<rparr>)"

definition createBulkDeleteProgress :: "BulkDeleteMode \<Rightarrow> nat \<Rightarrow> BulkDeleteProgress" where
  "createBulkDeleteProgress mode nodes =
     \<lparr> progMode = mode, matched = 0, deleted = 0, batches = 0, nodesTotal = nodes, nodesDone = 0,
       truncated = False, cancelled = False, sampleKeys = [], perNode = [] \<rparr>"

section \<open>The walk\<close>

text \<open>
  The state of the walk of one node. The entry the loop pushed on \<open>perNode\<close> is the object \<open>node\<close>
  it goes on mutating, so an update of the node is an update of the last entry.
\<close>

record 'w walk =
  progress :: BulkDeleteProgress
  cursor :: string
  world :: 'w

definition upd_last :: "('a \<Rightarrow> 'a) \<Rightarrow> 'a list \<Rightarrow> 'a list" where
  "upd_last f xs = (if xs = [] then [] else butlast xs @ [f (last xs)])"

definition count_keys :: "nat \<Rightarrow> string list \<Rightarrow> BulkDeleteProgress \<Rightarrow> BulkDeleteProgress" where
  "count_keys limit keys p =
     p \<lparr> matched := matched p + length keys,
         perNode := upd_last (\<lambda>n. n \<lparr> nodeMatched := nodeMatched n + length keys \<rparr>) (perNode p),
         sampleKeys := sampleKeys p @ take (limit - length (sampleKeys p)) keys \<rparr>"

definition count_removed :: "int \<Rightarrow> BulkDeleteProgress \<Rightarrow> BulkDeleteProgress" where
  "count_removed removed p =
     p \<lparr> deleted := deleted p + removed,
         perNode := upd_last (\<lambda>n. n \<lparr> nodeDeleted := nodeDeleted n + removed \<rparr>) (perNode p) \<rparr>"

definition count_batch :: "BulkDeleteProgress \<Rightarrow> BulkDeleteProgress" where
  "count_batch p =
     p \<lparr> batches := Suc (batches p),
         perNode := upd_last (\<lambda>n. n \<lparr> nodeBatches := Suc (nodeBatches n) \<rparr>) (perNode p) \<rparr>"

datatype 's batch = Raised string 's | Broke 's | Went 's

text \<open>The end of a batch with work in it: counters, the caller's hook and the pause.\<close>

definition pace :: "BulkDeleteParams \<Rightarrow> 'w BulkDeleteRunHooks \<Rightarrow> 'w walk \<Rightarrow> 'w walk" where
  "pace params hooks s =
     (let p = count_batch (progress s); w = onProgress hooks p (world s)
      in s \<lparr> progress := p,
             world := (if batchPauseMs params > 0 \<and> cursor s \<noteq> ''0''
                       then sleep hooks (batchPauseMs params) w else w) \<rparr>)"

definition act_on_keys ::
  "'w ScanTarget \<Rightarrow> BulkDeleteParams \<Rightarrow> 'w BulkDeleteRunHooks \<Rightarrow> string list \<Rightarrow> 'w walk
     \<Rightarrow> string option \<times> 'w walk" where
  "act_on_keys target params hooks keys s =
     (if keys = [] then (None, s)
      else let s1 = s \<lparr> progress := count_keys (sampleLimit params) keys (progress s) \<rparr>
           in if parMode params = Execute
              then (case unlink target keys (world s1) of
                      (Inl e, w) \<Rightarrow> (Some e, s1 \<lparr> world := w \<rparr>)
                    | (Inr removed, w) \<Rightarrow>
                        (None, pace params hooks (s1 \<lparr> world := w, progress := count_removed removed (progress s1) \<rparr>)))
              else (None, pace params hooks s1))"

definition scan_options :: "BulkDeleteParams \<Rightarrow> ScanOptions" where
  "scan_options params = \<lparr> optMatch = parMatch params, optCount = parCount params, optType = parType params \<rparr>"

text \<open>One turn of the do-while loop of a node.\<close>

definition scan_batch ::
  "'w ScanTarget \<Rightarrow> BulkDeleteParams \<Rightarrow> 'w BulkDeleteRunHooks \<Rightarrow> 'w walk \<Rightarrow> 'w walk batch" where
  "scan_batch target params hooks s =
     (if isCancelled hooks (world s) then Broke (s \<lparr> progress := progress s \<lparr> cancelled := True \<rparr> \<rparr>)
      else if maxKeys params \<le> enat (matched (progress s))
        then Broke (s \<lparr> progress := progress s \<lparr> truncated := True \<rparr> \<rparr>)
      else case scan target (cursor s) (scan_options params) (world s) of
          (Inl e, w) \<Rightarrow> Raised e (s \<lparr> world := w \<rparr>)
        | (Inr res, w) \<Rightarrow>
            let remaining = maxKeys params - enat (matched (progress s));
                over = remaining < enat (length (resKeys res));
                keys = (if over then take (the_enat remaining) (resKeys res) else resKeys res);
                p = (if over then progress s \<lparr> truncated := True \<rparr> else progress s)
            in case act_on_keys target params hooks keys
                      (s \<lparr> cursor := resCursor res, world := w, progress := p \<rparr>) of
                 (Some e, s') \<Rightarrow> Raised e s'
               | (None, s') \<Rightarrow>
                   if truncated (progress s') \<and> maxKeys params \<le> enat (matched (progress s'))
                   then Broke s' else Went s')"

text \<open>
  The do-while loop: \<open>Inl\<close> the error that leaves it, \<open>Inr True\<close> when it was left with \<open>stopAll\<close>,
  \<open>Inr False\<close> when the cursor came back to 0.
\<close>

partial_function (option) do_batches ::
  "('w walk \<Rightarrow> 'w walk batch) \<Rightarrow> 'w walk \<Rightarrow> ((string + bool) \<times> 'w walk) option" where
  "do_batches body s =
     (case body s of
        Raised e s' \<Rightarrow> Some (Inl e, s')
      | Broke s' \<Rightarrow> Some (Inr True, s')
      | Went s' \<Rightarrow> if cursor s' \<noteq> ''0'' then do_batches body s' else Some (Inr False, s'))"

declare do_batches.simps [code]

definition start_node :: "'w ScanTarget \<Rightarrow> BulkDeleteProgress \<Rightarrow> BulkDeleteProgress" where
  "start_node target p =
     p \<lparr> perNode := perNode p @ [\<lparr> node = target_name target, nodeMatched = 0, nodeDeleted = 0,
                                   nodeBatches = 0, cursorDone = False \<rparr>] \<rparr>"

definition end_node :: "bool \<Rightarrow> 'w walk \<Rightarrow> BulkDeleteProgress" where
  "end_node stopAll s =
     (let fin = (cursor s = ''0'' \<and> \<not> stopAll);
          p = progress s \<lparr> perNode := upd_last (\<lambda>n. n \<lparr> cursorDone := fin \<rparr>) (perNode (progress s)) \<rparr>
      in if fin then p \<lparr> nodesDone := Suc (nodesDone p) \<rparr> else p)"

fun walk_targets ::
  "'w ScanTarget list \<Rightarrow> BulkDeleteParams \<Rightarrow> 'w BulkDeleteRunHooks \<Rightarrow> BulkDeleteProgress \<Rightarrow> 'w
     \<Rightarrow> (string option \<times> BulkDeleteProgress \<times> 'w) option" where
  "walk_targets [] params hooks p w = Some (None, p, w)"
| "walk_targets (target # targets) params hooks p w =
     (case do_batches (scan_batch target params hooks)
             \<lparr> progress = start_node target p, cursor = ''0'', world = w \<rparr> of
        None \<Rightarrow> None
      | Some (Inl e, s) \<Rightarrow> Some (Some e, progress s, world s)
      | Some (Inr stopAll, s) \<Rightarrow>
          if stopAll then Some (None, end_node stopAll s, world s)
          else walk_targets targets params hooks (end_node stopAll s) (world s))"

definition runBulkDelete ::
  "'w ScanTarget list \<Rightarrow> BulkDeleteParams \<Rightarrow> 'w BulkDeleteRunHooks \<Rightarrow> BulkDeleteProgress \<Rightarrow> 'w
     \<Rightarrow> (string option \<times> BulkDeleteProgress \<times> 'w) option" where
  "runBulkDelete targets params hooks p w =
     walk_targets targets params hooks (p \<lparr> nodesTotal := length targets \<rparr>) w"

section \<open>Rules for the walk\<close>

lemma do_batches_total:
  fixes rank :: "'w walk \<Rightarrow> nat"
  assumes body: "\<forall>s. I s \<longrightarrow>
      (case body s of
         Raised e s' \<Rightarrow> Q (Inl e) s'
       | Broke s' \<Rightarrow> Q (Inr True) s'
       | Went s' \<Rightarrow> if cursor s' \<noteq> ''0'' then I s' \<and> rank s' < rank s else Q (Inr False) s')"
    and init: "I s"
  shows "\<exists>r s'. do_batches body s = Some (r, s') \<and> Q r s'"
  using init
proof (induction "rank s" arbitrary: s rule: less_induct)
  case less
  have now: "case body s of
         Raised e s' \<Rightarrow> Q (Inl e) s'
       | Broke s' \<Rightarrow> Q (Inr True) s'
       | Went s' \<Rightarrow> if cursor s' \<noteq> ''0'' then I s' \<and> rank s' < rank s else Q (Inr False) s'"
    using body less.prems by blast
  show ?case
  proof (cases "body s")
    case (Raised e s')
    then show ?thesis using now by (simp add: do_batches.simps)
  next
    case (Broke s')
    then show ?thesis using now by (simp add: do_batches.simps)
  next
    case (Went s')
    show ?thesis
    proof (cases "cursor s' = ''0''")
      case True
      then show ?thesis using now Went by (simp add: do_batches.simps)
    next
      case False
      then have "I s'" "rank s' < rank s" using now Went by simp_all
      then obtain r s'' where "do_batches body s' = Some (r, s'')" "Q r s''"
        using less.hyps by blast
      then show ?thesis using Went False by (simp add: do_batches.simps)
    qed
  qed
qed

text \<open>
  Total correctness of the whole walk: \<open>J\<close> holds between nodes, with the nodes still to walk,
  \<open>I\<close> at the head of every turn of a node's loop.
\<close>

lemma walk_targets_total:
  fixes rank :: "'w ScanTarget \<Rightarrow> 'w walk \<Rightarrow> nat"
  assumes start: "\<And>t ts p w. J (t # ts) p w \<Longrightarrow>
      I t ts \<lparr> progress = start_node t p, cursor = ''0'', world = w \<rparr>"
    and turn: "\<And>t ts s. I t ts s \<Longrightarrow>
      (case scan_batch t params hooks s of
         Raised e s' \<Rightarrow> Q (Some e) (progress s') (world s')
       | Broke s' \<Rightarrow> Q None (end_node True s') (world s')
       | Went s' \<Rightarrow> if cursor s' \<noteq> ''0'' then I t ts s' \<and> rank t s' < rank t s
                    else J ts (end_node False s') (world s'))"
    and finish: "\<And>p w. J [] p w \<Longrightarrow> Q None p w"
  shows "J targets p w \<Longrightarrow> \<exists>e p' w'. walk_targets targets params hooks p w = Some (e, p', w') \<and> Q e p' w'"
proof (induction targets arbitrary: p w)
  case Nil
  then show ?case by (simp add: finish)
next
  case (Cons t ts)
  define R where "R r s \<longleftrightarrow> (case r of
      Inl e \<Rightarrow> Q (Some e) (progress s) (world s)
    | Inr stop \<Rightarrow> if stop then Q None (end_node True s) (world s)
                  else J ts (end_node False s) (world s))" for r s
  let ?s = "\<lparr> progress = start_node t p, cursor = ''0'', world = w \<rparr>"
  have "\<forall>s. I t ts s \<longrightarrow> (case scan_batch t params hooks s of
         Raised e s' \<Rightarrow> R (Inl e) s'
       | Broke s' \<Rightarrow> R (Inr True) s'
       | Went s' \<Rightarrow> if cursor s' \<noteq> ''0'' then I t ts s' \<and> rank t s' < rank t s else R (Inr False) s')"
    by (intro allI impI, drule turn) (simp add: R_def split: batch.splits)
  from do_batches_total [OF this start [OF Cons.prems]]
  obtain r s' where run: "do_batches (scan_batch t params hooks) ?s = Some (r, s')" and R: "R r s'"
    by blast
  show ?case
  proof (cases r)
    case (Inl e)
    then show ?thesis using run R by (simp add: R_def)
  next
    case (Inr stop)
    show ?thesis
    proof (cases stop)
      case True
      then show ?thesis using run R Inr by (simp add: R_def)
    next
      case False
      then have "J ts (end_node False s') (world s')" using R Inr by (simp add: R_def)
      from Cons.IH [OF this] show ?thesis using run Inr False by simp
    qed
  qed
qed

text \<open>The outcomes of one turn.\<close>

definition cut :: "BulkDeleteParams \<Rightarrow> BulkDeleteProgress \<Rightarrow> string list \<Rightarrow> string list \<Rightarrow> BulkDeleteProgress \<Rightarrow> bool" where
  "cut params p found keys p' \<longleftrightarrow>
     (keys = found \<and> p' = p \<and> enat (matched p + length keys) \<le> maxKeys params)
     \<or> (keys = take (length keys) found \<and> p' = p \<lparr> truncated := True \<rparr>
        \<and> enat (matched p + length keys) = maxKeys params)"

lemma cut_exact:
  fixes found :: "string list"
  assumes room: "\<not> maxKeys params \<le> enat (matched p)"
  defines "remaining \<equiv> maxKeys params - enat (matched p)"
  defines "over \<equiv> remaining < enat (length found)"
  shows "cut params p found (if over then take (the_enat remaining) found else found)
           (if over then p \<lparr> truncated := True \<rparr> else p)"
proof (cases "maxKeys params")
  case (enat n)
  then show ?thesis using room unfolding cut_def over_def remaining_def by auto
next
  case infinity
  then show ?thesis unfolding cut_def over_def remaining_def by simp
qed

lemma scan_batch_cases:
  obtains
    (cancel) "scan_batch t params hooks s = Broke (s \<lparr> progress := progress s \<lparr> cancelled := True \<rparr> \<rparr>)"
  | (full) "scan_batch t params hooks s = Broke (s \<lparr> progress := progress s \<lparr> truncated := True \<rparr> \<rparr>)"
      "maxKeys params \<le> enat (matched (progress s))"
  | (failed) e w where "scan t (cursor s) (scan_options params) (world s) = (Inl e, w)"
      "scan_batch t params hooks s = Raised e (s \<lparr> world := w \<rparr>)"
  | (scanned) res w keys p where "scan t (cursor s) (scan_options params) (world s) = (Inr res, w)"
      "cut params (progress s) (resKeys res) keys p"
      "scan_batch t params hooks s =
         (case act_on_keys t params hooks keys
                 (s \<lparr> cursor := resCursor res, world := w, progress := p \<rparr>) of
            (Some e, s') \<Rightarrow> Raised e s'
          | (None, s') \<Rightarrow>
              if truncated (progress s') \<and> maxKeys params \<le> enat (matched (progress s'))
              then Broke s' else Went s')"
proof (cases "isCancelled hooks (world s)")
  case True
  then show ?thesis by (intro cancel) (simp add: scan_batch_def)
next
  case running: False
  show ?thesis
  proof (cases "maxKeys params \<le> enat (matched (progress s))")
    case True
    then show ?thesis using running by (intro full) (simp_all add: scan_batch_def)
  next
    case False
    obtain r w where scan: "scan t (cursor s) (scan_options params) (world s) = (r, w)" by fastforce
    show ?thesis
    proof (cases r)
      case (Inl e)
      then show ?thesis using running False scan by (intro failed) (simp_all add: scan_batch_def)
    next
      case (Inr res)
      show ?thesis
        by (rule scanned [OF _ cut_exact [OF False, of "resKeys res"]])
           (use running False scan Inr in \<open>simp_all add: scan_batch_def Let_def\<close>)
    qed
  qed
qed


section \<open>The counters\<close>

text \<open>
  What the progress object promises at every batch boundary: the totals are the sums over the nodes,
  the sample is as long as the limit allows, no more keys than \<open>maxKeys\<close> are acted upon,
  \<open>truncated\<close> is raised only at the limit, and a dry run deletes nothing.
\<close>

definition progress_ok :: "BulkDeleteParams \<Rightarrow> BulkDeleteProgress \<Rightarrow> bool" where
  "progress_ok params p \<longleftrightarrow>
     matched p = sum_list (map nodeMatched (perNode p))
     \<and> deleted p = sum_list (map nodeDeleted (perNode p))
     \<and> batches p = sum_list (map nodeBatches (perNode p))
     \<and> nodesDone p = length (filter cursorDone (perNode p))
     \<and> enat (matched p) \<le> maxKeys params
     \<and> length (sampleKeys p) = min (sampleLimit params) (matched p)
     \<and> (truncated p \<longrightarrow> enat (matched p) = maxKeys params)
     \<and> (parMode params = DryRun \<longrightarrow> deleted p = 0)"

definition walking :: "BulkDeleteProgress \<Rightarrow> bool" where
  "walking p \<longleftrightarrow> perNode p \<noteq> [] \<and> \<not> cursorDone (last (perNode p))"

lemma walking_split: "walking p \<Longrightarrow> \<exists>ns n. perNode p = ns @ [n] \<and> \<not> cursorDone n"
  by (metis append_butlast_last_id walking_def)

lemma upd_last_snoc [simp]: "upd_last f (xs @ [x]) = xs @ [f x]"
  by (simp add: upd_last_def)

lemma progress_ok_create: "progress_ok params (createBulkDeleteProgress mode n)"
  by (simp add: progress_ok_def createBulkDeleteProgress_def zero_enat_def [symmetric])

lemma progress_ok_nodesTotal [simp]: "progress_ok params (p \<lparr> nodesTotal := n \<rparr>) = progress_ok params p"
  by (simp add: progress_ok_def)

lemma progress_ok_cancelled [simp]: "progress_ok params (p \<lparr> cancelled := b \<rparr>) = progress_ok params p"
  by (simp add: progress_ok_def)

lemma progress_ok_start:
  "progress_ok params p \<Longrightarrow> progress_ok params (start_node t p) \<and> walking (start_node t p)"
  by (auto simp: progress_ok_def start_node_def walking_def)

lemma progress_ok_end:
  assumes "progress_ok params (progress s)" and "walking (progress s)"
  shows "progress_ok params (end_node stop s)"
  using walking_split [OF assms(2)] assms(1) by (auto simp: progress_ok_def end_node_def Let_def)

lemma progress_ok_count_keys:
  assumes ok: "progress_ok params p" and walk: "walking p"
    and cut: "cut params p found keys p'"
  shows "progress_ok params (count_keys (sampleLimit params) keys p')
         \<and> walking (count_keys (sampleLimit params) keys p')"
proof -
  obtain ns n where ns: "perNode p = ns @ [n]" "\<not> cursorDone n" using walking_split [OF walk] by blast
  consider "p' = p" "enat (matched p + length keys) \<le> maxKeys params"
    | "p' = p \<lparr> truncated := True \<rparr>" "enat (matched p + length keys) = maxKeys params"
    using cut unfolding cut_def by blast
  then show ?thesis
  proof cases
    case 1
    have "enat (matched p + length keys) = maxKeys params" if "truncated p"
      using that ok 1(2) unfolding progress_ok_def
      by (metis enat_ord_simps(1) le_add1 le_antisym)
    then show ?thesis using ok ns 1 by (auto simp: progress_ok_def walking_def count_keys_def)
  next
    case 2
    then show ?thesis using ok ns by (auto simp: progress_ok_def walking_def count_keys_def)
  qed
qed

lemma progress_ok_count_removed:
  assumes "progress_ok params p" and "walking p" and "parMode params = Execute"
  shows "progress_ok params (count_removed k p) \<and> walking (count_removed k p)"
  using walking_split [OF assms(2)] assms(1,3) by (auto simp: progress_ok_def walking_def count_removed_def)

lemma progress_ok_count_batch:
  assumes "progress_ok params p" and "walking p"
  shows "progress_ok params (count_batch p) \<and> walking (count_batch p)"
  using walking_split [OF assms(2)] assms(1) by (auto simp: progress_ok_def walking_def count_batch_def)

lemma progress_ok_act:
  assumes ok: "progress_ok params p" and walk: "walking p"
    and cut: "cut params p found keys p'"
    and act: "act_on_keys t params hooks keys (s \<lparr> cursor := c, world := w, progress := p' \<rparr>) = (e, s')"
  shows "progress_ok params (progress s') \<and> walking (progress s')"
proof (cases "keys = []")
  case True
  then have "progress s' = p'" using act by (auto simp: act_on_keys_def)
  moreover have "p' = p \<or> p' = p \<lparr> truncated := True \<rparr> \<and> enat (matched p) = maxKeys params"
    using cut True by (auto simp: cut_def)
  ultimately show ?thesis using ok walk by (auto simp: progress_ok_def walking_def)
next
  case False
  have base: "progress_ok params (count_keys (sampleLimit params) keys p')"
    "walking (count_keys (sampleLimit params) keys p')"
    using progress_ok_count_keys [OF ok walk cut] by simp_all
  show ?thesis
  proof (cases "parMode params")
    case DryRun
    then show ?thesis using act False progress_ok_count_batch [OF base]
      by (auto simp: act_on_keys_def pace_def Let_def)
  next
    case Execute
    have "progress_ok params (count_batch (count_removed k (count_keys (sampleLimit params) keys p')))
        \<and> walking (count_batch (count_removed k (count_keys (sampleLimit params) keys p')))" for k
      using progress_ok_count_removed [OF base Execute] by (intro progress_ok_count_batch) simp_all
    then show ?thesis using act False base Execute
      by (auto simp: act_on_keys_def pace_def Let_def split: prod.splits sum.splits)
  qed
qed


section \<open>What a batch does to the world\<close>

lemma act_on_keys_cursor: "act_on_keys t params hooks keys s = (e, s') \<Longrightarrow> cursor s' = cursor s"
  by (auto simp: act_on_keys_def pace_def Let_def split: if_splits prod.splits sum.splits)

lemma act_on_keys_nodesDone:
  "act_on_keys t params hooks keys s = (e, s') \<Longrightarrow> nodesDone (progress s') = nodesDone (progress s)"
  by (auto simp: act_on_keys_def pace_def Let_def count_keys_def count_removed_def count_batch_def
      split: if_splits prod.splits sum.splits)

text \<open>Any preorder on worlds that the hooks and the unlink of these keys respect, the batch respects.\<close>

lemma act_on_keys_world:
  assumes act: "act_on_keys t params hooks keys s = (e, s')"
    and R: "reflp R" "transp R"
    and hooks: "\<forall>ms v. R v (sleep hooks ms v)" "\<forall>p v. R v (onProgress hooks p v)"
    and unlink: "parMode params = Execute \<Longrightarrow> R (world s) (snd (unlink t keys (world s)))"
  shows "R (world s) (world s')"
proof -
  have pace: "R v (world (pace params hooks u))" if u: "R v (world u)" for v u
  proof -
    have report: "R v (onProgress hooks p (world u))" for p
      using transpD [OF R(2) u] hooks(2) by blast
    have "R v (sleep hooks ms (onProgress hooks p (world u)))" for ms p
      using transpD [OF R(2) report] hooks(1) by blast
    then show ?thesis using report by (simp add: pace_def Let_def)
  qed
  show ?thesis
  proof (cases "keys = []")
    case True
    then show ?thesis using act R(1) by (auto simp: act_on_keys_def dest: reflpD)
  next
    case nonempty: False
    show ?thesis
    proof (cases "parMode params")
      case DryRun
      have "R (world s) (world (pace params hooks (s \<lparr> progress := q \<rparr>)))" for q
        by (rule pace) (simp add: R(1)[THEN reflpD])
      then show ?thesis using act nonempty DryRun by (auto simp: act_on_keys_def Let_def)
    next
      case Execute
      obtain r w where u: "unlink t keys (world s) = (r, w)" by fastforce
      have w: "R (world s) w" using unlink [OF Execute] u by simp
      have "R (world s) (world (pace params hooks (s \<lparr> world := w, progress := q \<rparr>)))" for q
        by (rule pace) (simp add: w)
      then show ?thesis using act nonempty Execute u w
        by (auto simp: act_on_keys_def Let_def split: sum.splits)
    qed
  qed
qed

section \<open>The run returns\<close>

text \<open>
  What the engine needs of a server for its loop to end: some rank of the server's state and the
  cursor falls with every reply that does not close the iteration, and deleting keys, pausing and
  reporting never raise it. SCAN documents that an iteration of a bounded keyspace always ends.
\<close>

definition scan_advances ::
  "('w ScanTarget \<Rightarrow> 'w \<Rightarrow> string \<Rightarrow> nat) \<Rightarrow> 'w ScanTarget list \<Rightarrow> 'w BulkDeleteRunHooks \<Rightarrow> bool" where
  "scan_advances rank targets hooks \<longleftrightarrow>
     (\<forall>t \<in> set targets.
        (\<forall>c opts w res w'. scan t c opts w = (Inr res, w') \<and> resCursor res \<noteq> ''0'' \<longrightarrow>
           rank t w' (resCursor res) < rank t w c)
        \<and> (\<forall>keys w c. rank t (snd (unlink t keys w)) c \<le> rank t w c)
        \<and> (\<forall>ms w c. rank t (sleep hooks ms w) c \<le> rank t w c)
        \<and> (\<forall>p w c. rank t (onProgress hooks p w) c \<le> rank t w c))"

lemma act_on_keys_rank:
  assumes adv: "scan_advances rank targets hooks" and t: "t \<in> set targets"
    and act: "act_on_keys t params hooks keys s = (e, s')"
  shows "rank t (world s') (cursor s') \<le> rank t (world s) (cursor s)"
proof -
  define R where "R v v' \<longleftrightarrow> (\<forall>c. rank t v' c \<le> rank t v c)" for v v'
  have refl: "reflp R" by (simp add: reflp_def R_def)
  have trans: "transp R" unfolding R_def by (rule transpI) (meson order_trans)
  have "R (world s) (world s')"
    using adv t by (intro act_on_keys_world [OF act refl trans]) (simp_all add: R_def scan_advances_def)
  then show ?thesis using act_on_keys_cursor [OF act] by (simp add: R_def)
qed

lemma batch_rank:
  assumes adv: "scan_advances rank targets hooks" and t: "t \<in> set targets"
    and step: "scan_batch t params hooks s = Went s'" and more: "cursor s' \<noteq> ''0''"
  shows "rank t (world s') (cursor s') < rank t (world s) (cursor s)"
proof (cases rule: scan_batch_cases [of t params hooks s])
  case (scanned res w keys p)
  let ?u = "s \<lparr> cursor := resCursor res, world := w, progress := p \<rparr>"
  obtain e u where act: "act_on_keys t params hooks keys ?u = (e, u)" by fastforce
  have u: "u = s'" using scanned(3) step act by (auto split: option.splits if_splits)
  have "resCursor res \<noteq> ''0''" using act_on_keys_cursor [OF act] more u by simp
  then have "rank t w (resCursor res) < rank t (world s) (cursor s)"
    using adv t scanned(1) unfolding scan_advances_def by blast
  moreover have "rank t (world u) (cursor u) \<le> rank t w (resCursor res)"
    using act_on_keys_rank [OF adv t act] by simp
  ultimately show ?thesis using u by simp
qed (use step in simp_all)

text \<open>How one turn keeps the counters, whatever the server answers.\<close>

lemma batch_progress:
  assumes ok: "progress_ok params (progress s)" and walk: "walking (progress s)"
  shows "case scan_batch t params hooks s of
      Raised e s' \<Rightarrow> progress_ok params (progress s')
    | Broke s' \<Rightarrow> progress_ok params (progress s') \<and> walking (progress s')
                 \<and> (cancelled (progress s') \<or> truncated (progress s'))
    | Went s' \<Rightarrow> progress_ok params (progress s') \<and> walking (progress s')
                \<and> nodesDone (progress s') = nodesDone (progress s)"
proof (cases rule: scan_batch_cases [of t params hooks s])
  case cancel
  then show ?thesis using ok walk by (simp add: walking_def)
next
  case full
  then have "enat (matched (progress s)) = maxKeys params"
    using ok by (auto simp: progress_ok_def)
  then show ?thesis using ok walk full by (auto simp: progress_ok_def walking_def)
next
  case (failed e w)
  then show ?thesis using ok by simp
next
  case (scanned res w keys p)
  obtain e u where act: "act_on_keys t params hooks keys
      (s \<lparr> cursor := resCursor res, world := w, progress := p \<rparr>) = (e, u)" by fastforce
  have "nodesDone (progress u) = nodesDone (progress s)"
    using act_on_keys_nodesDone [OF act] scanned(2) by (auto simp: cut_def)
  then show ?thesis using progress_ok_act [OF ok walk scanned(2) act] scanned(3) act
    by (auto split: option.splits)
qed



section \<open>Requests are validated\<close>

text \<open>
  a request is refused exactly when its trimmed pattern is empty, or is all asterisks without
  the explicit confirmation; an accepted request carries the trimmed pattern, a COUNT between 1 and
  10000, a pause between 0 and 60000 ms, and a preview is always bounded.
\<close>

theorem bulk_request_validated:
  "case normalizeBulkDeleteParams input mode of
     Inl e \<Rightarrow>
       (let m = js_trim (case inMatch input of None \<Rightarrow> [] | Some m \<Rightarrow> m)
        in e = EmptyPattern \<and> m = []
           \<or> e = UnconfirmedCatchAll m \<and> matchesEverything m \<and> \<not> confirmDeleteAll input)
   | Inr params \<Rightarrow>
       (\<exists>m. inMatch input = Some m \<and> parMatch params = js_trim m) \<and> parMatch params \<noteq> []
       \<and> (matchesEverything (parMatch params) \<longrightarrow> confirmDeleteAll input)
       \<and> 1 \<le> parCount params \<and> parCount params \<le> 10000
       \<and> 0 \<le> batchPauseMs params \<and> batchPauseMs params \<le> 60000
       \<and> parMode params = mode \<and> (mode = DryRun \<longrightarrow> maxKeys params \<noteq> \<infinity>)"
proof -
  have clamp: "lo \<le> clampInt v lo hi d \<and> clampInt v lo hi d \<le> hi"
    if "lo \<le> d" "d \<le> hi" for v lo hi d
    using that by (cases v) (auto simp: clampInt_def split: jsnum.splits)
  have count: "1 \<le> clampInt v 1 10000 500 \<and> clampInt v 1 10000 500 \<le> 10000"
    and pause: "0 \<le> clampInt v 0 60000 0 \<and> clampInt v 0 60000 0 \<le> 60000" for v
    by (rule clamp; simp)+
  have trim: "js_trim [] = []" by (simp add: js_trim_def)
  show ?thesis using count pause trim
    by (cases "inMatch input")
       (auto simp: normalizeBulkDeleteParams_def Let_def split: option.splits jsnum.splits)
qed

text \<open>The request at the boundary: a lone asterisk is refused, with the confirmation it runs.\<close>

theorem bulk_request_validated_witness:
  "normalizeBulkDeleteParams \<lparr> inMatch = Some '' * '', inType = None, inCount = Some (Num 100000), inScope = None,
       inMaxKeys = None, inBatchPauseMs = None, confirmDeleteAll = False \<rparr> Execute = Inl (UnconfirmedCatchAll ''*'')
   \<and> 1 \<le> parCount (projr (normalizeBulkDeleteParams
       \<lparr> inMatch = Some '' * '', inType = None, inCount = Some (Num 100000), inScope = None,
         inMaxKeys = None, inBatchPauseMs = None, confirmDeleteAll = True \<rparr> Execute))"
  using bulk_request_validated [of "\<lparr> inMatch = Some '' * '', inType = None, inCount = Some (Num 100000),
      inScope = None, inMaxKeys = None, inBatchPauseMs = None, confirmDeleteAll = True \<rparr>" Execute]
  by (simp add: normalizeBulkDeleteParams_def js_trim_def is_space_def matchesEverything_def Let_def)

end
