(* ===== verification/Bulk_Guarantees.thy ===== *)
theory Bulk_Guarantees
  imports Bulk_Scan
begin

text \<open>
  What a bulk delete guarantees about the keyspace, over the engine of \<open>Bulk_Scan\<close>: it ends when
  cursors advance, it spares everything its pattern does not select, and a run that ends clean has
  removed everything its pattern selects. What a server has to keep for it, the documented behaviour
  of SCAN and UNLINK, are the predicates \<open>scan_advances\<close>, \<open>scan_sound\<close> and \<open>scan_complete\<close>; the last
  section shows that they can hold, on a server of two buckets.
\<close>

section \<open>The run returns\<close>

lemma act_on_keys_flags:
  "act_on_keys t params hooks keys s = (e, s') \<Longrightarrow>
     truncated (progress s') = truncated (progress s) \<and> cancelled (progress s') = cancelled (progress s)"
  by (auto simp: act_on_keys_def pace_def Let_def count_keys_def count_removed_def count_batch_def
      split: if_splits prod.splits sum.splits)

lemma batch_cancelled:
  "case scan_batch t params hooks s of
     Raised e s' \<Rightarrow> cancelled (progress s') = cancelled (progress s)
   | Broke s' \<Rightarrow> True
   | Went s' \<Rightarrow> cancelled (progress s') = cancelled (progress s)"
proof (cases rule: scan_batch_cases [of t params hooks s])
  case (scanned res w keys p)
  obtain e u where act: "act_on_keys t params hooks keys
      (s \<lparr> cursor := resCursor res, world := w, progress := p \<rparr>) = (e, u)" by fastforce
  have "cancelled (progress u) = cancelled (progress s)"
    using act_on_keys_flags [OF act] scanned(2) by (auto simp: cut_def)
  then show ?thesis using scanned(3) act by (auto split: option.splits)
qed simp_all

lemma cancelled_create [simp]: "\<not> cancelled (createBulkDeleteProgress mode n)"
  by (simp add: createBulkDeleteProgress_def)

lemma run_returns:
  assumes adv: "scan_advances rank targets hooks"
    and init: "progress_ok params p0" "nodesDone p0 = 0" "\<not> cancelled p0"
  shows "\<exists>e p w'. runBulkDelete targets params hooks p0 w = Some (e, p, w')
          \<and> progress_ok params p
          \<and> (e = None \<longrightarrow> cancelled p \<or> truncated p \<or> nodesDone p = length targets)
          \<and> (e \<noteq> None \<longrightarrow> \<not> cancelled p)"
proof -
  define J where "J ts p (v :: 'a) \<longleftrightarrow> progress_ok params p \<and> \<not> cancelled p \<and> set ts \<subseteq> set targets
      \<and> nodesDone p + length ts = length targets" for ts p v
  define I where "I t ts s \<longleftrightarrow> progress_ok params (progress s) \<and> walking (progress s) \<and> \<not> cancelled (progress s)
      \<and> t \<in> set targets \<and> set ts \<subseteq> set targets
      \<and> nodesDone (progress s) + Suc (length ts) = length targets" for t ts and s :: "'a walk"
  define Q where "Q e p (v :: 'a) \<longleftrightarrow> progress_ok params p
      \<and> (e = None \<longrightarrow> cancelled p \<or> truncated p \<or> nodesDone p = length targets)
      \<and> (e \<noteq> None \<longrightarrow> \<not> cancelled p)"
    for e :: "string option" and p v
  have "\<exists>e p' w'. walk_targets targets params hooks
      (p0 \<lparr> nodesTotal := length targets \<rparr>) w = Some (e, p', w')
      \<and> Q e p' w'"
  proof (rule walk_targets_total [where J = J and I = I and rank = "\<lambda>t s. rank t (world s) (cursor s)"])
    fix t ts p v assume "J (t # ts) p v"
    then show "I t ts \<lparr> progress = start_node t p, cursor = ''0'', world = v \<rparr>"
      using progress_ok_start [of params p t] by (auto simp: J_def I_def start_node_def)
  next
    fix t ts s assume I: "I t ts s"
    have b: "case scan_batch t params hooks s of
        Raised e s' \<Rightarrow> progress_ok params (progress s')
      | Broke s' \<Rightarrow> progress_ok params (progress s') \<and> walking (progress s')
                   \<and> (cancelled (progress s') \<or> truncated (progress s'))
      | Went s' \<Rightarrow> progress_ok params (progress s') \<and> walking (progress s')
                  \<and> nodesDone (progress s') = nodesDone (progress s)"
      using I by (intro batch_progress) (simp_all add: I_def)
    note c = batch_cancelled [where t = t and params = params and hooks = hooks and s = s]
    show "case scan_batch t params hooks s of
         Raised e s' \<Rightarrow> Q (Some e) (progress s') (world s')
       | Broke s' \<Rightarrow> Q None (end_node True s') (world s')
       | Went s' \<Rightarrow> if cursor s' \<noteq> ''0''
           then I t ts s' \<and> rank t (world s') (cursor s') < rank t (world s) (cursor s)
           else J ts (end_node False s') (world s')"
    proof (cases "scan_batch t params hooks s")
      case (Raised e s')
      then show ?thesis using b c I by (simp add: Q_def I_def)
    next
      case (Broke s')
      then show ?thesis using b progress_ok_end [of params s' True]
        by (auto simp: Q_def end_node_def)
    next
      case (Went s')
      have "J ts (end_node False s') (world s')" if "cursor s' = ''0''"
        using that b c Went I progress_ok_end [of params s' False]
        by (auto simp: J_def I_def end_node_def Let_def)
      then show ?thesis using b c Went I batch_rank [OF adv _ Went] by (auto simp: I_def)
    qed
  next
    fix p v assume "J [] p v"
    then show "Q None p v" by (simp add: J_def Q_def)
  next
    show "J targets (p0 \<lparr> nodesTotal := length targets \<rparr>) w"
      using init by (simp add: J_def)
  qed
  then show ?thesis by (simp add: runBulkDelete_def Q_def)
qed

text \<open>
  C13: a bulk delete over any list of nodes returns as soon as the cursors of the servers make
  progress, and whatever the servers answer, errors included, the progress it leaves is consistent:
  the totals are the sums over the nodes, no more than \<open>maxKeys\<close> keys are acted upon, the sample has
  the promised length, a dry run counts no deletion, and a run that ends without an error walked
  every node to the end unless it says it was cancelled or truncated.
\<close>

theorem bulk_delete_returns:
  assumes adv: "scan_advances rank targets hooks"
  shows "\<exists>e p w'. runBulkDelete targets params hooks (createBulkDeleteProgress (parMode params) n) w
            = Some (e, p, w')
          \<and> progress_ok params p
          \<and> (e = None \<longrightarrow> cancelled p \<or> truncated p \<or> nodesDone p = length targets)"
  using run_returns [OF adv progress_ok_create [of params "parMode params" n], where w = w]
  by (auto simp: createBulkDeleteProgress_def)

section \<open>What the run spares and what it removes\<close>

primrec batch_state :: "'s batch \<Rightarrow> 's" where
  "batch_state (Raised e s) = s"
| "batch_state (Broke s) = s"
| "batch_state (Went s) = s"

text \<open>A server that honours MATCH and TYPE: every key it returns satisfies the options.\<close>

definition scan_sound :: "(ScanOptions \<Rightarrow> string \<Rightarrow> bool) \<Rightarrow> 'w ScanTarget \<Rightarrow> bool" where
  "scan_sound hit t \<longleftrightarrow>
     (\<forall>c opts w res w'. scan t c opts w = (Inr res, w') \<longrightarrow> (\<forall>k \<in> set (resKeys res). hit opts k))"

text \<open>A predicate on the world that reading, pausing, reporting and unlinking matching keys keep.\<close>

definition spared ::
  "(ScanOptions \<Rightarrow> string \<Rightarrow> bool) \<Rightarrow> BulkDeleteParams \<Rightarrow> 'w BulkDeleteRunHooks \<Rightarrow> ('w \<Rightarrow> bool)
     \<Rightarrow> 'w ScanTarget \<Rightarrow> bool" where
  "spared hit params hooks P t \<longleftrightarrow>
     (\<forall>c w. P w \<longrightarrow> P (snd (scan t c (scan_options params) w)))
     \<and> (\<forall>ms w. P w \<longrightarrow> P (sleep hooks ms w))
     \<and> (\<forall>p w. P w \<longrightarrow> P (onProgress hooks p w))
     \<and> (parMode params = Execute \<longrightarrow>
          (\<forall>keys w. (\<forall>k \<in> set keys. hit (scan_options params) k) \<longrightarrow> P w \<longrightarrow> P (snd (unlink t keys w))))"

lemma cut_keys: "cut params p found keys p' \<Longrightarrow> set keys \<subseteq> set found"
  unfolding cut_def by (metis order_refl set_take_subset)

lemma batch_spares:
  assumes sound: "scan_sound hit t" and keep: "spared hit params hooks P t" and P: "P (world s)"
  shows "P (world (batch_state (scan_batch t params hooks s)))"
proof (cases rule: scan_batch_cases [of t params hooks s])
  case (failed e w)
  have "P w" using keep P failed(1) unfolding spared_def by (metis snd_conv)
  then show ?thesis using failed(2) by simp
next
  case (scanned res w keys p)
  let ?u = "s \<lparr> cursor := resCursor res, world := w, progress := p \<rparr>"
  obtain e u where act: "act_on_keys t params hooks keys ?u = (e, u)" by fastforce
  define R where "R v v' \<longleftrightarrow> (P v \<longrightarrow> P v')" for v v'
  have refl: "reflp R" by (simp add: reflp_def R_def)
  have trans: "transp R" unfolding R_def by (rule transpI) blast
  have hits: "\<forall>k \<in> set keys. hit (scan_options params) k"
    using sound scanned(1) cut_keys [OF scanned(2)] unfolding scan_sound_def by blast
  have "P w" using keep P scanned(1) unfolding spared_def by (metis snd_conv)
  moreover have "R (world ?u) (world u)"
    using keep hits by (intro act_on_keys_world [OF act refl trans]) (simp_all add: R_def spared_def)
  ultimately have "P (world u)" by (simp add: R_def)
  then show ?thesis using scanned(3) act by (auto split: option.splits)
qed (use P in simp_all)

text \<open>
  C19: a bulk delete touches nothing its pattern does not select. Let a predicate of the servers'
  state be kept by reading, pausing, reporting and, in execute mode only, by unlinking keys that
  match the pattern and type of the request; then it still holds after the run. For a dry run the
  clause on unlinking is empty: a preview changes nothing a read does not.
\<close>

theorem bulk_delete_spares:
  assumes adv: "scan_advances rank targets hooks"
    and sound: "\<forall>t \<in> set targets. scan_sound hit t"
    and keep: "\<forall>t \<in> set targets. spared hit params hooks P t"
    and P: "P w"
  shows "\<exists>e p' w'. runBulkDelete targets params hooks p w = Some (e, p', w') \<and> P w'"
proof -
  define J where "J ts (q :: BulkDeleteProgress) v \<longleftrightarrow> set ts \<subseteq> set targets \<and> P v" for ts q v
  define I where "I t ts s \<longleftrightarrow> t \<in> set targets \<and> set ts \<subseteq> set targets \<and> P (world s)"
    for t ts and s :: "'a walk"
  have "\<exists>e p' w'. walk_targets targets params hooks (p \<lparr> nodesTotal := length targets \<rparr>) w = Some (e, p', w')
      \<and> P w'"
  proof (rule walk_targets_total [where J = J and I = I and rank = "\<lambda>t s. rank t (world s) (cursor s)"
        and Q = "\<lambda>e q v. P v"])
    fix t ts s assume I: "I t ts s"
    have P: "P (world (batch_state (scan_batch t params hooks s)))"
      by (rule batch_spares [of hit]) (use I sound keep in \<open>simp_all add: I_def\<close>)
    show "case scan_batch t params hooks s of
         Raised e s' \<Rightarrow> P (world s')
       | Broke s' \<Rightarrow> P (world s')
       | Went s' \<Rightarrow> if cursor s' \<noteq> ''0''
           then I t ts s' \<and> rank t (world s') (cursor s') < rank t (world s) (cursor s)
           else J ts (end_node False s') (world s')"
    proof (cases "scan_batch t params hooks s")
      case (Went s')
      then show ?thesis using P I batch_rank [OF adv _ Went] by (simp add: I_def J_def)
    qed (use P in simp_all)
  qed (use P in \<open>simp_all add: J_def I_def\<close>)
  then show ?thesis by (simp add: runBulkDelete_def)
qed

text \<open>
  A server whose iteration is complete: \<open>db\<close> is the keyspace of a node and \<open>pending\<close> the part of
  it an iteration at a cursor has still to visit. A fresh iteration has everything to visit, a
  reply delivers what it takes off, closing the iteration leaves nothing, and without other writers
  only an unlink changes a keyspace. This is SCAN's guarantee that a key present during the whole
  iteration is returned. An unlink may leave keys behind (a command of its pipeline can fail); it
  answers with the number of the commands that removed their key, so when that is the number of keys
  none of them is left.
\<close>

definition scan_complete ::
  "('w ScanTarget \<Rightarrow> 'w \<Rightarrow> string set) \<Rightarrow> ('w ScanTarget \<Rightarrow> 'w \<Rightarrow> string \<Rightarrow> string set)
     \<Rightarrow> (ScanOptions \<Rightarrow> string \<Rightarrow> bool) \<Rightarrow> 'w ScanTarget list \<Rightarrow> BulkDeleteParams \<Rightarrow> 'w BulkDeleteRunHooks \<Rightarrow> bool" where
  "scan_complete db pending hit targets params hooks \<longleftrightarrow>
     (\<forall>t \<in> set targets.
        (\<forall>w. {k \<in> db t w. hit (scan_options params) k} \<subseteq> pending t w ''0'')
        \<and> (\<forall>c w res w'. scan t c (scan_options params) w = (Inr res, w') \<longrightarrow>
             pending t w c \<subseteq> set (resKeys res) \<union> (if resCursor res = ''0'' then {} else pending t w' (resCursor res))
             \<and> (\<forall>u \<in> set targets. db u w' = db u w))
        \<and> (\<forall>keys w r w'. unlink t keys w = (Inr r, w') \<longrightarrow>
             (\<forall>u \<in> set targets. db u w' \<subseteq> db u w) \<and> r \<le> int (length keys)
             \<and> (r = int (length keys) \<longrightarrow> db t w' \<inter> set keys = {})
             \<and> (\<forall>c. pending t w c - set keys \<subseteq> pending t w' c))
        \<and> (\<forall>ms w. \<forall>u \<in> set targets. db u (sleep hooks ms w) = db u w)
        \<and> (\<forall>p w. \<forall>u \<in> set targets. db u (onProgress hooks p w) = db u w)
        \<and> (\<forall>ms w c. pending t w c \<subseteq> pending t (sleep hooks ms w) c)
        \<and> (\<forall>p w c. pending t w c \<subseteq> pending t (onProgress hooks p w) c))"


text \<open>The keys that were acted upon and, as far as the answers told, not removed.\<close>

definition lag :: "BulkDeleteProgress \<Rightarrow> int" where
  "lag p = int (matched p) - deleted p"

lemma lag_simps [simp]:
  "lag (p \<lparr> nodesTotal := n \<rparr>) = lag p" "lag (p \<lparr> truncated := b \<rparr>) = lag p" "lag (p \<lparr> cancelled := b \<rparr>) = lag p"
  "lag (count_batch p) = lag p" "lag (start_node t p) = lag p" "lag (createBulkDeleteProgress mode n) = 0"
  "lag (count_removed k p) = lag p - k" "lag (count_keys limit keys p) = lag p + int (length keys)"
  by (simp_all add: lag_def count_batch_def start_node_def createBulkDeleteProgress_def count_removed_def count_keys_def)

lemma truncated_start_node [simp]: "truncated (start_node t p) = truncated p"
  by (simp add: start_node_def)

lemma lag_end_node [simp]: "lag (end_node stop s) = lag (progress s)"
  by (simp add: lag_def end_node_def Let_def)

lemma act_on_keys_removes:
  assumes comp: "scan_complete db pending hit targets params hooks" and t: "t \<in> set targets"
    and exec: "parMode params = Execute"
    and act: "act_on_keys t params hooks keys s = (None, s')"
  shows "\<forall>u \<in> set targets. db u (world s') \<subseteq> db u (world s)"
    and "lag (progress s) \<le> lag (progress s')"
    and "lag (progress s') = lag (progress s) \<Longrightarrow> db t (world s') \<inter> set keys = {}"
    and "pending t (world s) c - set keys \<subseteq> pending t (world s') c"
proof -
  have hooks: "\<forall>ms w. \<forall>u \<in> set targets. db u (sleep hooks ms w) = db u w"
    "\<forall>p w. \<forall>u \<in> set targets. db u (onProgress hooks p w) = db u w"
    "\<forall>ms w c. pending t w c \<subseteq> pending t (sleep hooks ms w) c"
    "\<forall>p w c. pending t w c \<subseteq> pending t (onProgress hooks p w) c"
    and unlink: "\<forall>keys w r w'. unlink t keys w = (Inr r, w') \<longrightarrow>
             (\<forall>u \<in> set targets. db u w' \<subseteq> db u w) \<and> r \<le> int (length keys)
             \<and> (r = int (length keys) \<longrightarrow> db t w' \<inter> set keys = {})
             \<and> (\<forall>c. pending t w c - set keys \<subseteq> pending t w' c)"
    using bspec [OF comp [unfolded scan_complete_def] t] by - (elim conjE, assumption)+
  have pace: "(\<forall>u \<in> set targets. db u (world (pace params hooks x)) = db u (world x))
      \<and> pending t (world x) c \<subseteq> pending t (world (pace params hooks x)) c
      \<and> lag (progress (pace params hooks x)) = lag (progress x)" for x c
    using hooks by (simp add: pace_def Let_def) (meson order_trans)
  have "(\<forall>u \<in> set targets. db u (world s') \<subseteq> db u (world s))
      \<and> lag (progress s) \<le> lag (progress s')
      \<and> (lag (progress s') = lag (progress s) \<longrightarrow> db t (world s') \<inter> set keys = {})
      \<and> pending t (world s) c - set keys \<subseteq> pending t (world s') c"
  proof (cases "keys = []")
    case True
    then show ?thesis using act by (auto simp: act_on_keys_def)
  next
    case False
    obtain r w where r: "unlink t keys (world s) = (Inr r, w)"
      and q: "s' = pace params hooks (s \<lparr> world := w,
        progress := count_removed r (count_keys (sampleLimit params) keys (progress s)) \<rparr>)"
      using act False exec by (auto simp: act_on_keys_def Let_def split: prod.splits sum.splits)
    have w: "\<forall>u \<in> set targets. db u w \<subseteq> db u (world s)" "r \<le> int (length keys)"
      "r = int (length keys) \<longrightarrow> db t w \<inter> set keys = {}" "pending t (world s) c - set keys \<subseteq> pending t w c"
      using unlink r by blast+
    note p = pace [of "s \<lparr> world := w, progress := count_removed r (count_keys (sampleLimit params) keys (progress s)) \<rparr>" c,
        folded q, simplified]
    have "lag (progress s') = lag (progress s) + (int (length keys) - r)" using p by simp
    then show ?thesis using w p t by (auto intro: order_trans)
  qed
  then show "\<forall>u \<in> set targets. db u (world s') \<subseteq> db u (world s)" and "lag (progress s) \<le> lag (progress s')"
    and "lag (progress s') = lag (progress s) \<Longrightarrow> db t (world s') \<inter> set keys = {}"
    and "pending t (world s) c - set keys \<subseteq> pending t (world s') c" by blast+
qed

lemma batch_stops: "scan_batch t params hooks s = Broke s' \<Longrightarrow> cancelled (progress s') \<or> truncated (progress s')"
  by (cases rule: scan_batch_cases [of t params hooks s]) (auto split: option.splits if_splits prod.splits)

lemma batch_truncated:
  assumes "scan_batch t params hooks s = Went s'" and "truncated (progress s)"
  shows "truncated (progress s')"
proof (cases rule: scan_batch_cases [of t params hooks s])
  case (scanned res w keys p)
  obtain e u where act: "act_on_keys t params hooks keys
      (s \<lparr> cursor := resCursor res, world := w, progress := p \<rparr>) = (e, u)" by fastforce
  have "u = s'" using scanned(3) assms(1) act by (auto split: option.splits if_splits)
  moreover have "truncated p" using scanned(2) assms(2) by (auto simp: cut_def)
  ultimately show ?thesis using act_on_keys_flags [OF act] by simp
qed (use assms in simp_all)

text \<open>One turn that goes on: what is still to delete is what the iteration has still to visit.\<close>

lemma batch_removes:
  assumes comp: "scan_complete db pending hit targets params hooks" and t: "t \<in> set targets"
    and exec: "parMode params = Execute"
    and step: "scan_batch t params hooks s = Went s'"
  shows "\<forall>u \<in> set targets. db u (world s') \<subseteq> db u (world s)"
    and "lag (progress s) \<le> lag (progress s')"
    and "{k \<in> db t (world s). hit (scan_options params) k} \<subseteq> pending t (world s) (cursor s) \<Longrightarrow>
      \<not> truncated (progress s') \<Longrightarrow> lag (progress s') = lag (progress s) \<Longrightarrow>
      {k \<in> db t (world s'). hit (scan_options params) k}
        \<subseteq> (if cursor s' = ''0'' then {} else pending t (world s') (cursor s'))"
proof -
  obtain res w keys p where sc: "scan t (cursor s) (scan_options params) (world s) = (Inr res, w)"
    and cut: "cut params (progress s) (resKeys res) keys p"
    and act: "act_on_keys t params hooks keys
                (s \<lparr> cursor := resCursor res, world := w, progress := p \<rparr>) = (None, s')"
  proof (cases rule: scan_batch_cases [of t params hooks s])
    case (scanned res w keys p)
    obtain e u where act: "act_on_keys t params hooks keys
        (s \<lparr> cursor := resCursor res, world := w, progress := p \<rparr>) = (e, u)" by fastforce
    then have "e = None" "u = s'" using scanned(3) step by (auto split: option.splits if_splits)
    then show ?thesis using that scanned act by blast
  qed (use step in simp_all)
  have lag: "lag p = lag (progress s)" using cut by (auto simp: cut_def)
  have cur: "cursor s' = resCursor res" using act_on_keys_cursor [OF act] by simp
  have scan_clause: "\<forall>c w res w'. scan t c (scan_options params) w = (Inr res, w') \<longrightarrow>
             pending t w c \<subseteq> set (resKeys res) \<union> (if resCursor res = ''0'' then {} else pending t w' (resCursor res))
             \<and> (\<forall>u \<in> set targets. db u w' = db u w)"
    using bspec [OF comp [unfolded scan_complete_def] t] by (elim conjE)
  have scan: "pending t (world s) (cursor s)
      \<subseteq> set (resKeys res) \<union> (if resCursor res = ''0'' then {} else pending t w (resCursor res))"
    "\<forall>u \<in> set targets. db u w = db u (world s)"
    using scan_clause sc by blast+
  note removes = act_on_keys_removes [OF comp t exec act, simplified]
  show dbs: "\<forall>u \<in> set targets. db u (world s') \<subseteq> db u (world s)" using removes(1) scan(2) by simp
  show "lag (progress s) \<le> lag (progress s')" using removes(2) lag by simp
  show "{k \<in> db t (world s'). hit (scan_options params) k}
           \<subseteq> (if cursor s' = ''0'' then {} else pending t (world s') (cursor s'))"
    if open_t: "{k \<in> db t (world s). hit (scan_options params) k} \<subseteq> pending t (world s) (cursor s)"
      and full: "\<not> truncated (progress s')" and same: "lag (progress s') = lag (progress s)"
  proof
    have "\<not> truncated p" using act_on_keys_flags [OF act] full by simp
    then have keys: "keys = resKeys res" using cut by (auto simp: cut_def)
    have gone: "db t (world s') \<inter> set keys = {}" using removes(3) same lag by simp
    fix k assume k: "k \<in> {k \<in> db t (world s'). hit (scan_options params) k}"
    then have "k \<in> pending t (world s) (cursor s)" "k \<notin> set keys" using dbs t gone open_t by auto
    then have "resCursor res \<noteq> ''0''" "k \<in> pending t w (resCursor res)"
      using scan(1) keys by (auto split: if_splits)
    then show "k \<in> (if cursor s' = ''0'' then {} else pending t (world s') (cursor s'))"
      using removes(4) [of "resCursor res"] \<open>k \<notin> set keys\<close> cur by auto
  qed
qed

text \<open>
  C5: an execute run that ends without an error, is neither cancelled nor truncated and reports as
  many keys deleted as matched has removed every key the request selects from every node it walked;
  it never reports more deleted than matched, and with advancing cursors the run does end. The
  servers keep SCAN's guarantee, no other client writes, and an unlink reports how many of its keys
  it removed, where failing to remove some is allowed: then the two counts differ.
\<close>

theorem bulk_delete_complete:
  assumes adv: "scan_advances rank targets hooks"
    and comp: "scan_complete db pending hit targets params hooks"
    and exec: "parMode params = Execute"
  shows "\<exists>e p' w'. runBulkDelete targets params hooks (createBulkDeleteProgress Execute n) w = Some (e, p', w')
           \<and> (e = None \<and> \<not> cancelled p' \<and> \<not> truncated p' \<longrightarrow> deleted p' \<le> int (matched p'))
           \<and> (e = None \<and> \<not> cancelled p' \<and> \<not> truncated p' \<and> deleted p' = int (matched p') \<longrightarrow>
                (\<forall>t \<in> set targets. \<forall>k \<in> db t w'. \<not> hit (scan_options params) k))"
proof -
  define clean where "clean u v \<longleftrightarrow> (\<forall>k \<in> db u v. \<not> hit (scan_options params) k)" for u v
  define J where "J ts p v \<longleftrightarrow> set ts \<subseteq> set targets \<and> 0 \<le> lag p
      \<and> (truncated p \<or> 0 < lag p \<or> (\<forall>u \<in> set targets. u \<in> set ts \<or> clean u v))"
    for ts and p :: BulkDeleteProgress and v
  define I where "I t ts s \<longleftrightarrow> t \<in> set targets \<and> set ts \<subseteq> set targets \<and> 0 \<le> lag (progress s)
      \<and> (truncated (progress s) \<or> 0 < lag (progress s)
         \<or> {k \<in> db t (world s). hit (scan_options params) k} \<subseteq> pending t (world s) (cursor s)
           \<and> (\<forall>u \<in> set targets. u = t \<or> u \<in> set ts \<or> clean u (world s)))"
    for t ts and s :: "'a walk"
  define Q where "Q e p v \<longleftrightarrow> (e = None \<and> \<not> cancelled p \<and> \<not> truncated p \<longrightarrow>
      0 \<le> lag p \<and> (lag p = 0 \<longrightarrow> (\<forall>u \<in> set targets. clean u v)))"
    for e :: "string option" and p :: BulkDeleteProgress and v
  have "\<exists>e p' w'. walk_targets targets params hooks (createBulkDeleteProgress Execute n \<lparr> nodesTotal := length targets \<rparr>) w
      = Some (e, p', w') \<and> Q e p' w'"
  proof (rule walk_targets_total [where J = J and I = I and rank = "\<lambda>t s. rank t (world s) (cursor s)"])
    fix t ts q v assume J: "J (t # ts) q v"
    then have "{k \<in> db t v. hit (scan_options params) k} \<subseteq> pending t v ''0''"
      using comp unfolding scan_complete_def J_def by simp
    then show "I t ts \<lparr> progress = start_node t q, cursor = ''0'', world = v \<rparr>"
      using J by (auto simp: I_def J_def)
  next
    fix t ts s assume I: "I t ts s"
    have t: "t \<in> set targets" using I by (simp add: I_def)
    show "case scan_batch t params hooks s of
         Raised e s' \<Rightarrow> Q (Some e) (progress s') (world s')
       | Broke s' \<Rightarrow> Q None (end_node True s') (world s')
       | Went s' \<Rightarrow> if cursor s' \<noteq> ''0''
           then I t ts s' \<and> rank t (world s') (cursor s') < rank t (world s) (cursor s)
           else J ts (end_node False s') (world s')"
    proof (cases "scan_batch t params hooks s")
      case (Raised e s')
      then show ?thesis by (simp add: Q_def)
    next
      case (Broke s')
      then show ?thesis using batch_stops [OF Broke] by (auto simp: Q_def end_node_def)
    next
      case (Went s')
      note batch = batch_removes [OF comp t exec Went]
      have lag: "0 \<le> lag (progress s')" using I batch(2) by (simp add: I_def)
      have inv: "{k \<in> db t (world s'). hit (scan_options params) k}
             \<subseteq> (if cursor s' = ''0'' then {} else pending t (world s') (cursor s'))
          \<and> (\<forall>u \<in> set targets. u = t \<or> u \<in> set ts \<or> clean u (world s'))"
        if full: "\<not> truncated (progress s')" "\<not> 0 < lag (progress s')"
      proof -
        have same: "lag (progress s') = lag (progress s)" using full(2) batch(2) I by (simp add: I_def)
        have s: "{k \<in> db t (world s). hit (scan_options params) k} \<subseteq> pending t (world s) (cursor s)"
          "\<forall>u \<in> set targets. u = t \<or> u \<in> set ts \<or> clean u (world s)"
          using I batch_truncated [OF Went] full same by (auto simp: I_def)
        show ?thesis using batch(3) [OF s(1) full(1) same] batch(1) s(2) unfolding clean_def by blast
      qed
      show ?thesis
      proof (cases "cursor s' = ''0''")
        case True
        have "\<forall>u \<in> set targets. u \<in> set ts \<or> clean u (world s')" if "\<not> truncated (progress s')" "\<not> 0 < lag (progress s')"
          using inv [OF that] True unfolding clean_def by auto
        then have "J ts (end_node False s') (world s')"
          using I lag unfolding J_def I_def by (auto simp: end_node_def Let_def lag_def)
        then show ?thesis using True by (simp add: Went)
      next
        case False
        then have "I t ts s'" using inv I lag by (auto simp: I_def)
        then show ?thesis using False Went batch_rank [OF adv t Went] by simp
      qed
    qed
  next
    fix q v assume "J [] q v"
    then show "Q None q v" by (auto simp: J_def Q_def)
  next
    show "J targets (createBulkDeleteProgress Execute n \<lparr> nodesTotal := length targets \<rparr>) w" by (simp add: J_def)
  qed
  then obtain e p' w' where run: "runBulkDelete targets params hooks (createBulkDeleteProgress Execute n) w = Some (e, p', w')"
    and Q: "Q e p' w'" by (auto simp: runBulkDelete_def)
  show ?thesis by (intro exI conjI, rule run) (use Q in \<open>auto simp: Q_def clean_def lag_def\<close>)
qed

section \<open>A concrete server\<close>

text \<open>
  A server of two buckets, the way SCAN walks a hash table: cursor 0 returns the keys of even
  length, cursor 1 those of odd length and closes the iteration. The world maps a node to its keys.
\<close>

definition bucket_scan :: "string \<Rightarrow> string \<Rightarrow> ScanOptions \<Rightarrow> (string, string list) jsmap \<Rightarrow> (string + ScanResult) \<times> (string, string list) jsmap" where
  "bucket_scan name c opts w =
     (let ks = filter (\<lambda>k. take (length (optMatch opts)) k = optMatch opts) (js_get_or [] w name)
      in (Inr (if c = ''0''
               then \<lparr> resCursor = ''1'', resKeys = filter (\<lambda>k. even (length k)) ks \<rparr>
               else \<lparr> resCursor = ''0'', resKeys = filter (\<lambda>k. odd (length k)) ks \<rparr>), w))"

definition bucket_unlink :: "string \<Rightarrow> string list \<Rightarrow> (string, string list) jsmap \<Rightarrow> (string + int) \<times> (string, string list) jsmap" where
  "bucket_unlink name keys w =
     (let ks = js_get_or [] w name
      in (Inr (int (length (filter (\<lambda>k. k \<in> set ks) (remdups keys)))),
          js_set name (filter (\<lambda>k. k \<notin> set keys) ks) w))"

definition bucket_node :: "string \<Rightarrow> (string, string list) jsmap ScanTarget" where
  "bucket_node name = \<lparr> target_name = name, scan = bucket_scan name, unlink = bucket_unlink name \<rparr>"

definition quiet_hooks :: "'w BulkDeleteRunHooks" where
  "quiet_hooks = \<lparr> sleep = (\<lambda>ms w. w), isCancelled = (\<lambda>w. False), onProgress = (\<lambda>p w. w) \<rparr>"

definition bucket_hit :: "ScanOptions \<Rightarrow> string \<Rightarrow> bool" where
  "bucket_hit opts k \<longleftrightarrow> take (length (optMatch opts)) k = optMatch opts"

definition bucket_rank :: "'w ScanTarget \<Rightarrow> 'w \<Rightarrow> string \<Rightarrow> nat" where
  "bucket_rank t w c = (if c = ''0'' then 1 else 0)"

definition bucket_db :: "'a ScanTarget \<Rightarrow> (string, string list) jsmap \<Rightarrow> string set" where
  "bucket_db t w = set (js_get_or [] w (target_name t))"

definition bucket_params :: "BulkDeleteMode \<Rightarrow> BulkDeleteParams" where
  "bucket_params mode = \<lparr> parMatch = ''u'', parType = None, parCount = 500, parMode = mode, maxKeys = \<infinity>,
     batchPauseMs = 0, sampleLimit = 50 \<rparr>"

definition bucket_pending :: "'a ScanTarget \<Rightarrow> (string, string list) jsmap \<Rightarrow> string \<Rightarrow> string set" where
  "bucket_pending t w c =
     {k \<in> bucket_db t w. bucket_hit (scan_options (bucket_params Execute)) k \<and> (c = ''0'' \<or> odd (length k))}"

lemmas bucket_defs = bucket_node_def bucket_scan_def bucket_unlink_def quiet_hooks_def bucket_rank_def
  bucket_hit_def bucket_db_def bucket_params_def bucket_pending_def

lemma bucket_advances: "scan_advances bucket_rank (map bucket_node names) quiet_hooks"
  by (auto simp: scan_advances_def bucket_defs Let_def split: if_splits)

lemma bucket_sound: "scan_sound bucket_hit (bucket_node name)"
  by (auto simp: scan_sound_def bucket_defs Let_def split: if_splits)

lemma length_filter_remdups: "length (filter P (remdups xs)) \<le> length xs"
  by (rule order_trans [OF length_filter_le length_remdups_leq])

lemma bucket_complete:
  "scan_complete bucket_db bucket_pending bucket_hit [bucket_node ''a'', bucket_node ''b'']
     (bucket_params Execute) quiet_hooks"
  by (simp add: scan_complete_def bucket_defs scan_options_def js_get_or_def js_simps Let_def)
     (auto simp: js_simps length_filter_remdups)

theorem bulk_delete_returns_witness:
  "\<exists>e p w'. runBulkDelete [bucket_node ''a'', bucket_node ''b''] (bucket_params Execute) quiet_hooks
       (createBulkDeleteProgress Execute 0) [(''a'', [''u1'', ''v1'', ''u12'']), (''b'', [''u3''])]
     = Some (e, p, w') \<and> progress_ok (bucket_params Execute) p"
  using bulk_delete_returns [OF bucket_advances [of "[''a'', ''b'']"], of "bucket_params Execute" 0
      "[(''a'', [''u1'', ''v1'', ''u12'']), (''b'', [''u3''])]"]
  by (auto simp: bucket_params_def)

theorem bulk_delete_spares_witness:
  "\<exists>e p' w'. runBulkDelete [bucket_node ''a''] (bucket_params Execute) quiet_hooks
       (createBulkDeleteProgress Execute 0) [(''a'', [''u1'', ''v1'', ''u12''])] = Some (e, p', w')
     \<and> ''v1'' \<in> set (js_get_or [] w' ''a'')"
proof -
  have keep: "\<forall>t \<in> set (map bucket_node [''a'']). spared bucket_hit (bucket_params Execute) quiet_hooks
      (\<lambda>w. ''v1'' \<in> set (js_get_or [] w ''a'')) t"
    by (auto simp: spared_def bucket_defs scan_options_def js_get_or_def js_simps Let_def)
  show ?thesis
    using bulk_delete_spares [OF bucket_advances [of "[''a'']"] _ keep,
        of "[(''a'', [''u1'', ''v1'', ''u12''])]" "createBulkDeleteProgress Execute 0"]
    by (simp add: bucket_sound js_get_or_def)
qed

text \<open>The run itself on these nodes: the two keys of the first and the key of the second node are gone.\<close>

lemma bulk_delete_run_example:
  "map_option (\<lambda>(e, p, w). (e, cancelled p, truncated p, matched p, deleted p, nodesDone p, sampleKeys p, w))
     (runBulkDelete [bucket_node ''a'', bucket_node ''b''] (bucket_params Execute) quiet_hooks
       (createBulkDeleteProgress Execute 0) [(''a'', [''u1'', ''v1'', ''u12'']), (''b'', [''u3''])])
   = Some (None, False, False, 3, 3, 2, [''u1'', ''u12'', ''u3''], [(''a'', [''v1'']), (''b'', [])])"
  by (simp add: runBulkDelete_def do_batches.simps scan_batch_def act_on_keys_def pace_def count_keys_def
      count_removed_def count_batch_def start_node_def end_node_def createBulkDeleteProgress_def
      bucket_defs scan_options_def js_get_or_def Let_def upd_last_def)

theorem bulk_delete_complete_witness:
  "\<exists>p' w'. runBulkDelete [bucket_node ''a'', bucket_node ''b''] (bucket_params Execute) quiet_hooks
       (createBulkDeleteProgress Execute 0) [(''a'', [''u1'', ''v1'', ''u12'']), (''b'', [''u3''])]
     = Some (None, p', w')
     \<and> {k. k \<in> bucket_db (bucket_node ''a'') w' \<and> bucket_hit (scan_options (bucket_params Execute)) k} = {}"
proof -
  let ?run = "runBulkDelete [bucket_node ''a'', bucket_node ''b''] (bucket_params Execute) quiet_hooks
       (createBulkDeleteProgress Execute 0) [(''a'', [''u1'', ''v1'', ''u12'']), (''b'', [''u3''])]"
  obtain p w where run: "?run = Some (None, p, w)" and clean: "\<not> cancelled p" "\<not> truncated p" "deleted p = int (matched p)"
    using bulk_delete_run_example by (auto simp: map_option_case split: option.splits prod.splits)
  have exec: "parMode (bucket_params Execute) = Execute" by (simp add: bucket_params_def)
  from bulk_delete_complete [OF bucket_advances [of "[''a'', ''b'']", simplified] bucket_complete exec,
      of 0 "[(''a'', [''u1'', ''v1'', ''u12'']), (''b'', [''u3''])]"]
  have "\<forall>t \<in> set [bucket_node ''a'', bucket_node ''b'']. \<forall>k \<in> bucket_db t w.
         \<not> bucket_hit (scan_options (bucket_params Execute)) k"
    using run clean by auto
  then show ?thesis using run by auto
qed

end
