(* ===== verification/Bulk_Jobs.thy ===== *)
theory Bulk_Jobs
  imports Bulk_Guarantees
begin

text \<open>
  The bulk delete service, src/proprietary/bulk-delete/bulk-delete.service.ts: the job map, starting,
  running, cancelling and pruning jobs, the scan target over a raw client (valkey-scan-target.ts),
  and the audit rows of the storage adapters.

  Several jobs run at the same time, and their writes are awaited, so the service is a step relation
  \<open>bulk_step\<close>: a request, a cancellation, the end of a run, each of the two audit writes with its
  outcome, and a restart of the process are separate steps in any order the code allows. The
  registry of connections, the discovery of the cluster and the clients are parameters; a run that
  the service starts is a run of the engine of \<open>Bulk_Scan\<close>.
\<close>

section \<open>The target over a raw client\<close>

text \<open>
  A SCAN reply is an array (a cursor and, when it is an array too, the keys) or something else; a
  pipeline replies per command with an error flag and, when it is a number, the result.
\<close>

datatype scan_reply = NotArray | ArrayReply string "string list option"

record 'w client =
  call_scan :: "string list \<Rightarrow> 'w \<Rightarrow> (string + scan_reply) \<times> 'w"
  exec_unlinks :: "string list \<Rightarrow> 'w \<Rightarrow> (string + (bool \<times> int option) list option) \<times> 'w"

definition valkey_scan ::
  "'w client \<Rightarrow> string \<Rightarrow> ScanOptions \<Rightarrow> 'w \<Rightarrow> (string + ScanResult) \<times> 'w" where
  "valkey_scan cl c opts w =
     (let args = [c, ''MATCH'', optMatch opts, ''COUNT'', show_int (optCount opts)]
                 @ (case truthy [] (optType opts) of None \<Rightarrow> [] | Some ty \<Rightarrow> [''TYPE'', ty])
      in case call_scan cl args w of
           (Inl e, w') \<Rightarrow> (Inl e, w')
         | (Inr NotArray, w') \<Rightarrow> (Inr \<lparr> resCursor = ''0'', resKeys = [] \<rparr>, w')
         | (Inr (ArrayReply c' ks), w') \<Rightarrow>
             (Inr \<lparr> resCursor = c', resKeys = (case ks of None \<Rightarrow> [] | Some ks \<Rightarrow> ks) \<rparr>, w'))"

definition valkey_unlink :: "'w client \<Rightarrow> string list \<Rightarrow> 'w \<Rightarrow> (string + int) \<times> 'w" where
  "valkey_unlink cl keys w =
     (if keys = [] then (Inr 0, w)
      else case exec_unlinks cl keys w of
          (Inl e, w') \<Rightarrow> (Inl e, w')
        | (Inr None, w') \<Rightarrow> (Inr 0, w')
        | (Inr (Some results), w') \<Rightarrow>
            (Inr (sum_list (List.map_filter (\<lambda>(err, res). if err then None else res) results)), w'))"

definition createValkeyScanTarget :: "string \<Rightarrow> 'w client \<Rightarrow> 'w ScanTarget" where
  "createValkeyScanTarget name cl =
     \<lparr> target_name = name, scan = valkey_scan cl, unlink = valkey_unlink cl \<rparr>"

section \<open>Jobs\<close>

datatype BulkDeleteJobStatus = Running | Completed | Failed | Cancelled

record SkippedNode =
  skNode :: string
  skError :: string

record BulkDeleteJob =
  jobId :: string
  jobConnection :: string
  jobMode :: BulkDeleteMode
  jobScope :: BulkDeleteScope
  jobParams :: BulkDeleteParams
  jobProgress :: BulkDeleteProgress
  jobStatus :: BulkDeleteJobStatus
  startedAt :: int
  completedAt :: "int option"
  jobError :: "string option"
  cancelRequested :: bool
  jobHost :: "string option"
  jobPort :: "int option"
  jobSkipped :: "SkippedNode list"

record StoredBulkDeleteAudit =
  auId :: string
  auConnection :: string
  auTimestamp :: int
  auCompletedAt :: "int option"
  auStatus :: BulkDeleteJobStatus
  auMatch :: string
  auType :: "string option"
  auScope :: BulkDeleteScope
  auMatched :: nat
  auDeleted :: int
  auBatches :: nat
  auNodes :: nat
  auTruncated :: bool
  auSkipped :: "string list"
  auError :: "string option"
  auHost :: "string option"
  auPort :: "int option"

text \<open>
  The service: the job map; per execute job the audit record whose initial write is in flight
  (\<open>auditWrite\<close>); the jobs whose run has ended and whose \<open>finally\<close> still awaits its writes, held by
  the run even when the map has dropped them; the stored rows.
\<close>

record bulk_service =
  jobs :: "(string, BulkDeleteJob) jsmap"
  auditWrites :: "(string, StoredBulkDeleteAudit) jsmap"
  ending :: "(string, BulkDeleteJob) jsmap"
  audits :: "StoredBulkDeleteAudit list"

definition JOB_TTL_MS :: int where "JOB_TTL_MS = 60 * 60 * 1000"
definition MAX_JOBS :: nat where "MAX_JOBS = 200"

subsection \<open>Audit rows\<close>

definition audit_record :: "BulkDeleteJob \<Rightarrow> StoredBulkDeleteAudit" where
  "audit_record job =
     \<lparr> auId = jobId job, auConnection = jobConnection job, auTimestamp = startedAt job,
       auCompletedAt = completedAt job, auStatus = jobStatus job, auMatch = parMatch (jobParams job),
       auType = parType (jobParams job), auScope = jobScope job, auMatched = matched (jobProgress job),
       auDeleted = deleted (jobProgress job), auBatches = batches (jobProgress job),
       auNodes = length (perNode (jobProgress job)), auTruncated = truncated (jobProgress job),
       auSkipped = map skNode (jobSkipped job), auError = jobError job, auHost = jobHost job,
       auPort = jobPort job \<rparr>"

text \<open>The memory adapter replaces the row of the same id, the SQL adapters update some columns of it.\<close>

fun mem_saveBulkDeleteAudit ::
  "StoredBulkDeleteAudit \<Rightarrow> StoredBulkDeleteAudit list \<Rightarrow> StoredBulkDeleteAudit list" where
  "mem_saveBulkDeleteAudit rec [] = [rec]"
| "mem_saveBulkDeleteAudit rec (r # rs) =
     (if auId r = auId rec then rec # rs else r # mem_saveBulkDeleteAudit rec rs)"

definition audit_on_conflict :: "StoredBulkDeleteAudit \<Rightarrow> StoredBulkDeleteAudit \<Rightarrow> StoredBulkDeleteAudit" where
  "audit_on_conflict rec r =
     r \<lparr> auCompletedAt := auCompletedAt rec, auStatus := auStatus rec, auMatched := auMatched rec,
         auDeleted := auDeleted rec, auBatches := auBatches rec, auNodes := auNodes rec,
         auTruncated := auTruncated rec, auSkipped := auSkipped rec, auError := auError rec \<rparr>"

fun sql_saveBulkDeleteAudit ::
  "StoredBulkDeleteAudit \<Rightarrow> StoredBulkDeleteAudit list \<Rightarrow> StoredBulkDeleteAudit list" where
  "sql_saveBulkDeleteAudit rec [] = [rec]"
| "sql_saveBulkDeleteAudit rec (r # rs) =
     (if auId r = auId rec then audit_on_conflict rec r # rs else r # sql_saveBulkDeleteAudit rec rs)"

definition interrupt_row :: "string \<Rightarrow> int \<Rightarrow> StoredBulkDeleteAudit \<Rightarrow> StoredBulkDeleteAudit" where
  "interrupt_row err now r =
     (if auStatus r = Running
      then r \<lparr> auStatus := Failed, auError := Some err, auCompletedAt := Some now \<rparr> else r)"

definition markInterruptedBulkDeleteRuns ::
  "string \<Rightarrow> int \<Rightarrow> StoredBulkDeleteAudit list \<Rightarrow> nat \<times> StoredBulkDeleteAudit list" where
  "markInterruptedBulkDeleteRuns err now rows =
     (length (filter (\<lambda>r. auStatus r = Running) rows), map (interrupt_row err now) rows)"

record BulkDeleteAuditQueryOptions =
  qConnection :: "string option"
  qStart :: "int option"
  qEnd :: "int option"
  qLimit :: "nat option"

definition getBulkDeleteAudits ::
  "BulkDeleteAuditQueryOptions \<Rightarrow> StoredBulkDeleteAudit list \<Rightarrow> StoredBulkDeleteAudit list" where
  "getBulkDeleteAudits options rows =
     (let f1 = (case truthy [] (qConnection options) of None \<Rightarrow> rows
                | Some c \<Rightarrow> filter (\<lambda>r. auConnection r = c) rows);
          f2 = (case truthy 0 (qStart options) of None \<Rightarrow> f1 | Some t \<Rightarrow> filter (\<lambda>r. t \<le> auTimestamp r) f1);
          f3 = (case truthy 0 (qEnd options) of None \<Rightarrow> f2 | Some t \<Rightarrow> filter (\<lambda>r. auTimestamp r \<le> t) f2)
      in take (case qLimit options of None \<Rightarrow> 100 | Some n \<Rightarrow> n) (sort_key (\<lambda>r. - auTimestamp r) f3))"

subsection \<open>The job map\<close>

definition findActiveJob :: "string \<Rightarrow> (string, BulkDeleteJob) jsmap \<Rightarrow> BulkDeleteJob option" where
  "findActiveJob conn js =
     find (\<lambda>job. jobConnection job = conn \<and> jobStatus job = Running) (map snd js)"

definition getJob :: "string \<Rightarrow> string \<Rightarrow> (string, BulkDeleteJob) jsmap \<Rightarrow> BulkDeleteJob option" where
  "getJob jid conn js =
     (case js_get js jid of
        None \<Rightarrow> None
      | Some job \<Rightarrow> if jobConnection job \<noteq> conn then None else Some job)"

definition cancelJob ::
  "string \<Rightarrow> string \<Rightarrow> (string, BulkDeleteJob) jsmap \<Rightarrow> bool option \<times> (string, BulkDeleteJob) jsmap" where
  "cancelJob jid conn js =
     (case js_get js jid of
        None \<Rightarrow> (None, js)
      | Some job \<Rightarrow>
          if jobConnection job \<noteq> conn then (None, js)
          else if jobStatus job \<noteq> Running then (Some False, js)
          else (Some True, js_set jid (job \<lparr> cancelRequested := True \<rparr>) js))"

definition expired :: "int \<Rightarrow> BulkDeleteJob \<Rightarrow> bool" where
  "expired now job = (case completedAt job of None \<Rightarrow> False | Some t \<Rightarrow> now - t > JOB_TTL_MS)"

fun drop_oldest :: "BulkDeleteJob list \<Rightarrow> (string, BulkDeleteJob) jsmap \<Rightarrow> (string, BulkDeleteJob) jsmap" where
  "drop_oldest [] js = js"
| "drop_oldest (job # finished) js =
     (if length js \<le> MAX_JOBS then js else drop_oldest finished (js_delete (jobId job) js))"

definition pruneJobs :: "int \<Rightarrow> (string, BulkDeleteJob) jsmap \<Rightarrow> (string, BulkDeleteJob) jsmap" where
  "pruneJobs now js =
     (let kept = filter (\<lambda>(jid, job). \<not> expired now job) js
      in if length kept > MAX_JOBS
         then drop_oldest
                (sort_key (\<lambda>j. case completedAt j of None \<Rightarrow> 0 | Some t \<Rightarrow> t)
                   (filter (\<lambda>j. completedAt j \<noteq> None) (map snd kept))) kept
         else kept)"

subsection \<open>Starting a job\<close>

datatype bulk_error = Invalid BulkDeleteValidationError | NoConnection string | Conflict string

definition startJob ::
  "(string \<Rightarrow> string option) \<Rightarrow> (string \<Rightarrow> (string \<times> int) option) \<Rightarrow> string \<Rightarrow> int
     \<Rightarrow> string \<Rightarrow> BulkDeleteRequestInput \<Rightarrow> BulkDeleteMode \<Rightarrow> bulk_service \<Rightarrow> (bulk_error + string) \<times> bulk_service" where
  "startJob registryGet getConfig uuid now conn input mode s =
     (case normalizeBulkDeleteParams input mode of
        Inl e \<Rightarrow> (Inl (Invalid e), s)
      | Inr params \<Rightarrow>
          case registryGet conn of
            Some e \<Rightarrow> (Inl (NoConnection e), s)
          | None \<Rightarrow>
              case findActiveJob conn (jobs s) of
                Some active \<Rightarrow> (Inl (Conflict (jobId active)), s)
              | None \<Rightarrow>
                  let job = \<lparr> jobId = uuid, jobConnection = conn, jobMode = mode,
                              jobScope = (case inScope input of None \<Rightarrow> NodeScope | Some sc \<Rightarrow> sc),
                              jobParams = params, jobProgress = createBulkDeleteProgress mode 0,
                              jobStatus = Running, startedAt = now, completedAt = None, jobError = None,
                              cancelRequested = False, jobHost = map_option fst (getConfig conn),
                              jobPort = map_option snd (getConfig conn), jobSkipped = [] \<rparr>
                  in (Inr uuid,
                      s \<lparr> jobs := pruneJobs now (js_set uuid job (jobs s)),
                          auditWrites := (if mode = Execute then js_set uuid (audit_record job) (auditWrites s)
                                          else auditWrites s) \<rparr>))"

subsection \<open>Running a job\<close>

record DiscoveredNode =
  dnId :: string
  dnRole :: string
  dnAddress :: string

definition discoverPrimaries ::
  "(string \<Rightarrow> 'w \<Rightarrow> (string + DiscoveredNode list) \<times> 'w) \<Rightarrow> string \<Rightarrow> 'w \<Rightarrow> DiscoveredNode list \<times> 'w" where
  "discoverPrimaries discoverNodes conn w =
     (case discoverNodes conn w of
        (Inl e, w') \<Rightarrow> ([], w')
      | (Inr nodes, w') \<Rightarrow> (filter (\<lambda>n. dnRole n = ''master'') nodes, w'))"

fun connect_primaries ::
  "(string \<Rightarrow> string \<Rightarrow> 'w \<Rightarrow> (string + 'w client) \<times> 'w) \<Rightarrow> string \<Rightarrow> DiscoveredNode list \<Rightarrow> 'w
     \<Rightarrow> ('w ScanTarget list \<times> SkippedNode list) \<times> 'w" where
  "connect_primaries getNodeConnection conn [] w = (([], []), w)"
| "connect_primaries getNodeConnection conn (primary # ps) w =
     (let label = takeWhile (\<lambda>c. c \<noteq> CHR ''@'') (dnAddress primary);
          (r, w1) = getNodeConnection (dnId primary) conn w;
          ((ts, sk), w2) = connect_primaries getNodeConnection conn ps w1
      in case r of
           Inr cl \<Rightarrow> ((createValkeyScanTarget label cl # ts, sk), w2)
         | Inl e \<Rightarrow> ((ts, \<lparr> skNode = label, skError = e \<rparr> # sk), w2))"

record 'w bulk_env =
  envGet :: "string \<Rightarrow> 'w \<Rightarrow> string + 'w client"
  envDiscover :: "string \<Rightarrow> 'w \<Rightarrow> (string + DiscoveredNode list) \<times> 'w"
  envNode :: "string \<Rightarrow> string \<Rightarrow> 'w \<Rightarrow> (string + 'w client) \<times> 'w"
  envSleep :: "int \<Rightarrow> 'w \<Rightarrow> 'w"
  envCancelled :: "string \<Rightarrow> 'w \<Rightarrow> bool"

definition buildTargets ::
  "'w bulk_env \<Rightarrow> string \<Rightarrow> BulkDeleteScope \<Rightarrow> 'w \<Rightarrow> (string + 'w ScanTarget list \<times> SkippedNode list) \<times> 'w" where
  "buildTargets env conn scope w =
     (case envGet env conn w of
        Inl e \<Rightarrow> (Inl e, w)
      | Inr db \<Rightarrow>
          let (primaries, w') = (if scope = ClusterScope then discoverPrimaries (envDiscover env) conn w else ([], w))
          in if primaries \<noteq> []
             then (case connect_primaries (envNode env) conn primaries w' of (r, w'') \<Rightarrow> (Inr r, w''))
             else (Inr ([createValkeyScanTarget ''primary'' db], []), w'))"

definition run_hooks :: "'w bulk_env \<Rightarrow> string \<Rightarrow> 'w BulkDeleteRunHooks" where
  "run_hooks env jid =
     \<lparr> sleep = envSleep env, isCancelled = envCancelled env jid, onProgress = (\<lambda>p w. w) \<rparr>"

text \<open>
  The run of a job up to its \<open>finally\<close>: \<open>None\<close> when the engine does not return. The progress object
  is the engine's, so what it counted before an error stays.
\<close>

definition no_nodes_error :: "SkippedNode list \<Rightarrow> string" where
  "no_nodes_error skip =
     ''No reachable nodes to scan ('' @ show_nat (length skip) @ '' primary node(s) unreachable)''"

definition runJob :: "'w bulk_env \<Rightarrow> BulkDeleteJob \<Rightarrow> 'w \<Rightarrow> (BulkDeleteJob \<times> 'w) option" where
  "runJob env job w =
     (case buildTargets env (jobConnection job) (jobScope job) w of
        (Inl e, w') \<Rightarrow> Some (job \<lparr> jobStatus := Failed, jobError := Some e \<rparr>, w')
      | (Inr (targets, skip), w') \<Rightarrow>
          let job1 = job \<lparr> jobSkipped := skip, jobProgress := jobProgress job \<lparr> nodesTotal := length targets \<rparr> \<rparr>
          in if targets = [] then Some (job1 \<lparr> jobStatus := Failed, jobError := Some (no_nodes_error skip) \<rparr>, w')
             else case runBulkDelete targets (jobParams job) (run_hooks env (jobId job)) (jobProgress job1) w' of
                 None \<Rightarrow> None
               | Some (Some e, p, w'') \<Rightarrow>
                   Some (job1 \<lparr> jobProgress := p, jobStatus := Failed, jobError := Some e \<rparr>, w'')
               | Some (None, p, w'') \<Rightarrow>
                   Some (job1 \<lparr> jobProgress := p, jobStatus := (if cancelled p then Cancelled else Completed) \<rparr>, w''))"


section \<open>The service as a step relation\<close>

type_synonym audit_save = "StoredBulkDeleteAudit \<Rightarrow> StoredBulkDeleteAudit list \<Rightarrow> StoredBulkDeleteAudit list"

definition fresh_id :: "string \<Rightarrow> bulk_service \<Rightarrow> bool" where
  "fresh_id uuid s \<longleftrightarrow> \<not> js_has (jobs s) uuid \<and> \<not> js_has (auditWrites s) uuid \<and> \<not> js_has (ending s) uuid
     \<and> uuid \<notin> auId ` set (audits s)"

text \<open>
  The end of a run enters \<open>finally\<close>, which sets \<open>completedAt\<close>; the final write waits for the initial
  one of the same job. Each write may fail, which persistAudit logs and ignores. A restart loses
  everything in memory and reconciles the rows, when the storage answers.
\<close>

definition enter_finally :: "int \<Rightarrow> string \<Rightarrow> BulkDeleteJob \<Rightarrow> bulk_service \<Rightarrow> bulk_service" where
  "enter_finally now jid job s =
     (let done_job = job \<lparr> completedAt := Some now \<rparr>
      in s \<lparr> jobs := js_set jid done_job (jobs s), ending := js_set jid done_job (ending s) \<rparr>)"

definition initial_write :: "audit_save \<Rightarrow> bool \<Rightarrow> string \<Rightarrow> StoredBulkDeleteAudit \<Rightarrow> bulk_service \<Rightarrow> bulk_service" where
  "initial_write save ok jid rec s =
     s \<lparr> auditWrites := js_delete jid (auditWrites s), audits := (if ok then save rec (audits s) else audits s) \<rparr>"

definition final_write :: "audit_save \<Rightarrow> bool \<Rightarrow> int \<Rightarrow> string \<Rightarrow> BulkDeleteJob \<Rightarrow> bulk_service \<Rightarrow> bulk_service" where
  "final_write save ok now jid job s =
     s \<lparr> ending := js_delete jid (ending s), jobs := pruneJobs now (jobs s),
         audits := (if jobMode job = Execute \<and> ok then save (audit_record job) (audits s) else audits s) \<rparr>"

definition onModuleInit :: "bool \<Rightarrow> int \<Rightarrow> StoredBulkDeleteAudit list \<Rightarrow> bulk_service" where
  "onModuleInit ok now rows =
     \<lparr> jobs = [], auditWrites = [], ending = [],
       audits = (if ok then snd (markInterruptedBulkDeleteRuns ''Interrupted by monitor restart'' now rows)
                 else rows) \<rparr>"

inductive bulk_step :: "audit_save \<Rightarrow> 'w bulk_env \<Rightarrow> bulk_service \<Rightarrow> bulk_service \<Rightarrow> bool"
  for save env where
  request: "fresh_id uuid s \<Longrightarrow> startJob registryGet getConfig uuid now conn input mode s = (r, s') \<Longrightarrow>
    bulk_step save env s s'"
| cancel: "bulk_step save env s (s \<lparr> jobs := snd (cancelJob jid conn (jobs s)) \<rparr>)"
| run_ends: "js_get (jobs s) jid = Some job \<Longrightarrow> jobStatus job = Running \<Longrightarrow>
    runJob env job w = Some (job', w') \<Longrightarrow> bulk_step save env s (enter_finally now jid job' s)"
| first_audit: "js_get (auditWrites s) jid = Some rec \<Longrightarrow>
    bulk_step save env s (initial_write save ok jid rec s)"
| last_audit: "js_get (ending s) jid = Some job \<Longrightarrow> js_get (auditWrites s) jid = None \<Longrightarrow>
    bulk_step save env s (final_write save ok now jid job s)"
| restart: "bulk_step save env s (onModuleInit ok now (audits s))"

inductive bulk_reach :: "audit_save \<Rightarrow> 'w bulk_env \<Rightarrow> bulk_service \<Rightarrow> bool" for save env where
  boot: "bulk_reach save env (onModuleInit ok now rows)"
| step: "bulk_reach save env s \<Longrightarrow> bulk_step save env s s' \<Longrightarrow> bulk_reach save env s'"

inductive_cases bulk_stepE: "bulk_step save env s s'"

section \<open>Pruning\<close>

definition jobs_ok :: "(string, BulkDeleteJob) jsmap \<Rightarrow> bool" where
  "jobs_ok js \<longleftrightarrow> wf_map js \<and> (\<forall>(jid, job) \<in> set js. jobId job = jid
     \<and> (jobStatus job = Running \<longleftrightarrow> completedAt job = None))"

lemma jobs_ok_delete [simp]: "jobs_ok js \<Longrightarrow> jobs_ok (js_delete jid js)"
  by (auto simp: jobs_ok_def AList.delete_eq)

lemma jobs_ok_filter [simp]: "jobs_ok js \<Longrightarrow> jobs_ok (filter P js)"
  by (auto simp: jobs_ok_def)

lemma jobs_ok_get: "jobs_ok js \<Longrightarrow> js_get js jid = Some job \<Longrightarrow>
    jobId job = jid \<and> (jobStatus job = Running \<longleftrightarrow> completedAt job = None)"
  by (auto simp: jobs_ok_def dest: map_of_SomeD)

lemma drop_oldest_keeps:
  "js_get js jid = Some job \<Longrightarrow> \<forall>j \<in> set finished. jobId j \<noteq> jid \<Longrightarrow>
     js_get (drop_oldest finished js) jid = Some job"
  by (induction finished js rule: drop_oldest.induct) (auto simp: js_simps)

lemma drop_oldest_subset: "set (drop_oldest finished js) \<subseteq> set js"
proof (induction finished js rule: drop_oldest.induct)
  case (2 job finished js)
  have "set (js_delete (jobId job) js) \<subseteq> set js" by (auto simp: AList.delete_eq)
  then show ?case using 2 by auto
qed simp

lemma drop_oldest_ok: "jobs_ok js \<Longrightarrow> jobs_ok (drop_oldest finished js)"
  by (induction finished js rule: drop_oldest.induct) auto

lemma drop_oldest_bound:
  "MAX_JOBS < length (drop_oldest finished js) \<Longrightarrow> j \<in> set finished \<Longrightarrow>
     jobId j \<notin> fst ` set (drop_oldest finished js)"
proof (induction finished js rule: drop_oldest.induct)
  case (2 job finished js)
  have big: "\<not> length js \<le> MAX_JOBS" using 2(2) by (auto split: if_splits)
  show ?case
  proof (cases "j = job")
    case True
    have "jobId job \<notin> fst ` set (js_delete (jobId job) js)" by (simp add: js_simps)
    then show ?thesis using True big drop_oldest_subset [of finished "js_delete (jobId job) js"] by auto
  next
    case False
    then show ?thesis using 2 big by simp
  qed
qed simp

lemma pruneJobs_subset: "set (pruneJobs now js) \<subseteq> set js"
proof -
  have "set (drop_oldest old (filter P js)) \<subseteq> set js" for old P
    using drop_oldest_subset [of old "filter P js"] by auto
  then show ?thesis by (simp add: pruneJobs_def Let_def)
qed

lemma pruneJobs_ok: "jobs_ok js \<Longrightarrow> jobs_ok (pruneJobs now js)"
  by (simp add: pruneJobs_def Let_def drop_oldest_ok)

text \<open>A running job is never dropped, and more than 200 jobs remain only when all of them are running.\<close>

lemma pruneJobs_keeps_running:
  assumes ok: "jobs_ok js" and get: "js_get js jid = Some job" and run: "jobStatus job = Running"
  shows "js_get (pruneJobs now js) jid = Some job"
proof -
  let ?kept = "filter (\<lambda>(jid, job). \<not> expired now job) js"
  have c: "completedAt job = None" using jobs_ok_get [OF ok get] run by simp
  have kept: "js_get ?kept jid = Some job"
    using get c ok js_get_in_set [of js jid job] js_get_in_set [of ?kept jid job]
    by (auto simp: jobs_ok_def expired_def)
  have "jobId j \<noteq> jid" if j: "j \<in> set (filter (\<lambda>j. completedAt j \<noteq> None) (map snd ?kept))" for j
  proof
    assume jid: "jobId j = jid"
    have fin: "completedAt j \<noteq> None" using j by simp
    obtain k where k: "(k, j) \<in> set js" using j by auto
    then have "jobId j = k" "js_get js k = Some j"
      using ok js_get_in_set [of js k j] by (auto simp: jobs_ok_def)
    then have "js_get js (jobId j) = Some j" by simp
    then show False using jid get fin c by simp
  qed
  then show ?thesis using kept drop_oldest_keeps [OF kept] by (simp add: pruneJobs_def Let_def)
qed

lemma pruneJobs_bound:
  assumes ok: "jobs_ok js" and big: "MAX_JOBS < length (pruneJobs now js)"
    and job: "(jid, job) \<in> set (pruneJobs now js)"
  shows "jobStatus job = Running"
proof (rule ccontr)
  assume fin: "jobStatus job \<noteq> Running"
  let ?kept = "filter (\<lambda>(jid, job). \<not> expired now job) js"
  let ?old = "sort_key (\<lambda>j. case completedAt j of None \<Rightarrow> 0 | Some t \<Rightarrow> t)
                   (filter (\<lambda>j. completedAt j \<noteq> None) (map snd ?kept))"
  have pr: "pruneJobs now js = drop_oldest ?old ?kept"
    using big by (auto simp: pruneJobs_def Let_def split: if_splits)
  have in_kept: "(jid, job) \<in> set ?kept" using job drop_oldest_subset [of ?old ?kept] unfolding pr by blast
  then have facts: "jobId job = jid" "completedAt job \<noteq> None" using ok fin by (auto simp: jobs_ok_def)
  have "job \<in> set ?old" using in_kept facts by force
  then have "jobId job \<notin> fst ` set (drop_oldest ?old ?kept)" using big unfolding pr by (rule drop_oldest_bound [rotated])
  then show False using job facts(1) unfolding pr by force
qed


section \<open>The storage of audit rows, as an interface\<close>

locale audit_store =
  fixes save :: audit_save
  assumes others_stay: "r \<in> set rows \<Longrightarrow> auId r \<noteq> auId rec \<Longrightarrow> r \<in> set (save rec rows)"
    and saved_row: "\<exists>r \<in> set (save rec rows). auId r = auId rec \<and> auStatus r = auStatus rec
          \<and> auDeleted r = auDeleted rec \<and> auError r = auError rec"
    and rows_from: "r \<in> set (save rec rows) \<Longrightarrow>
          r \<in> set rows \<or> auId r = auId rec \<and> auStatus r = auStatus rec"

lemma mem_save_others:
  "r \<in> set rows \<Longrightarrow> auId r \<noteq> auId rec \<Longrightarrow> r \<in> set (mem_saveBulkDeleteAudit rec rows)"
  by (induction rows) auto

lemma sql_save_others:
  "r \<in> set rows \<Longrightarrow> auId r \<noteq> auId rec \<Longrightarrow> r \<in> set (sql_saveBulkDeleteAudit rec rows)"
  by (induction rows) auto

interpretation mem_audits: audit_store mem_saveBulkDeleteAudit
proof unfold_locales
  fix rec :: StoredBulkDeleteAudit and rows
  show "\<exists>r \<in> set (mem_saveBulkDeleteAudit rec rows). auId r = auId rec \<and> auStatus r = auStatus rec
      \<and> auDeleted r = auDeleted rec \<and> auError r = auError rec"
    by (induction rows) auto
  show "r \<in> set rows \<or> auId r = auId rec \<and> auStatus r = auStatus rec"
    if "r \<in> set (mem_saveBulkDeleteAudit rec rows)" for r
    using that by (induction rows) (auto split: if_splits)
qed (rule mem_save_others)

interpretation sql_audits: audit_store sql_saveBulkDeleteAudit
proof unfold_locales
  fix rec :: StoredBulkDeleteAudit and rows
  show "\<exists>r \<in> set (sql_saveBulkDeleteAudit rec rows). auId r = auId rec \<and> auStatus r = auStatus rec
      \<and> auDeleted r = auDeleted rec \<and> auError r = auError rec"
    by (induction rows) (auto simp: audit_on_conflict_def)
  show "r \<in> set rows \<or> auId r = auId rec \<and> auStatus r = auStatus rec"
    if "r \<in> set (sql_saveBulkDeleteAudit rec rows)" for r
    using that by (induction rows) (auto simp: audit_on_conflict_def split: if_splits)
qed (rule sql_save_others)

section \<open>The invariant of the service\<close>

definition running :: "bulk_service \<Rightarrow> string \<Rightarrow> BulkDeleteJob \<Rightarrow> bool" where
  "running s jid job \<longleftrightarrow> js_get (jobs s) jid = Some job \<and> jobStatus job = Running"

definition one_walk :: "bulk_service \<Rightarrow> bool" where
  "one_walk s \<longleftrightarrow> (\<forall>i a j b. running s i a \<and> running s j b \<and> jobConnection a = jobConnection b \<longrightarrow> i = j)"

definition writes_ok :: "bulk_service \<Rightarrow> bool" where
  "writes_ok s \<longleftrightarrow>
     (\<forall>jid rec. js_get (auditWrites s) jid = Some rec \<longrightarrow> auId rec = jid \<and> auStatus rec = Running)
     \<and> (\<forall>jid job. js_get (ending s) jid = Some job \<longrightarrow> jobId job = jid \<and> jobStatus job \<noteq> Running)
     \<and> (\<forall>jid job. running s jid job \<longrightarrow> js_get (ending s) jid = None)"

text \<open>A row that has left the status running: its job is neither running nor has a write to come.\<close>

definition rows_ok :: "bulk_service \<Rightarrow> bool" where
  "rows_ok s \<longleftrightarrow> (\<forall>r \<in> set (audits s). auStatus r \<noteq> Running \<longrightarrow>
     js_get (auditWrites s) (auId r) = None \<and> js_get (ending s) (auId r) = None
     \<and> (\<forall>job. \<not> running s (auId r) job))"

definition bulk_inv :: "bulk_service \<Rightarrow> bool" where
  "bulk_inv s \<longleftrightarrow> jobs_ok (jobs s) \<and> one_walk s \<and> writes_ok s \<and> rows_ok s"

lemma runJob_facts:
  "runJob env job w = Some (job', w') \<Longrightarrow>
     jobId job' = jobId job \<and> jobConnection job' = jobConnection job \<and> jobMode job' = jobMode job
     \<and> (jobStatus job' = Failed \<or> jobStatus job' = Completed \<or> jobStatus job' = Cancelled)"
  by (auto simp: runJob_def Let_def split: prod.splits sum.splits option.splits if_splits)

lemma findActiveJob_None:
  "findActiveJob conn js = None \<Longrightarrow> js_get js jid = Some job \<Longrightarrow> jobStatus job = Running \<Longrightarrow> jobConnection job \<noteq> conn"
  by (force simp: findActiveJob_def find_None_iff dest: map_of_SomeD)

lemma bulk_inv_boot: "bulk_inv (onModuleInit ok now rows)"
  by (auto simp: bulk_inv_def onModuleInit_def jobs_ok_def one_walk_def writes_ok_def rows_ok_def running_def)

lemma jobs_ok_set:
  assumes "jobs_ok js" and "jobId job = jid" and "jobStatus job = Running \<longleftrightarrow> completedAt job = None"
  shows "jobs_ok (js_set jid job js)"
proof -
  have wf: "wf_map (js_set jid job js)" using assms(1) by (simp add: jobs_ok_def)
  have "jobId b = a \<and> (jobStatus b = Running \<longleftrightarrow> completedAt b = None)"
    if "(a, b) \<in> set (js_set jid job js)" for a b
  proof -
    have "js_get (js_set jid job js) a = Some b" using that js_get_in_set [OF wf] by blast
    then show ?thesis using assms jobs_ok_get [OF assms(1), of a b] by (auto simp: js_simps split: if_splits)
  qed
  then show ?thesis using wf by (auto simp: jobs_ok_def)
qed

lemma pruned_get:
  assumes ok: "jobs_ok js" and get: "js_get (pruneJobs now js) jid = Some job"
  shows "js_get js jid = Some job"
proof -
  have "(jid, job) \<in> set js" using get pruneJobs_subset [of now js] by (auto dest: map_of_SomeD)
  then show ?thesis using ok js_get_in_set [of js jid job] by (simp add: jobs_ok_def)
qed

lemma startJob_cases:
  assumes "startJob registryGet getConfig uuid now conn input mode s = (r, s')"
  obtains (refused) "s' = s" "\<exists>e. r = Inl e"
  | (started) job where "findActiveJob conn (jobs s) = None" "r = Inr uuid" "jobId job = uuid"
      "jobConnection job = conn" "jobMode job = mode" "jobStatus job = Running" "completedAt job = None"
      "s' = s \<lparr> jobs := pruneJobs now (js_set uuid job (jobs s)),
                auditWrites := (if mode = Execute then js_set uuid (audit_record job) (auditWrites s)
                                else auditWrites s) \<rparr>"
proof (cases "normalizeBulkDeleteParams input mode")
  case (Inl e)
  then show ?thesis using assms by (intro refused) (auto simp: startJob_def)
next
  case params: (Inr params)
  show ?thesis
  proof (cases "registryGet conn")
    case (Some e)
    then show ?thesis using assms params by (intro refused) (auto simp: startJob_def)
  next
    case known: None
    show ?thesis
    proof (cases "findActiveJob conn (jobs s)")
      case (Some active)
      then show ?thesis using assms params known by (intro refused) (auto simp: startJob_def)
    next
      case None
      show ?thesis using assms None
        by (intro started [where job = "\<lparr> jobId = uuid, jobConnection = conn, jobMode = mode,
              jobScope = (case inScope input of None \<Rightarrow> NodeScope | Some sc \<Rightarrow> sc),
              jobParams = params, jobProgress = createBulkDeleteProgress mode 0,
              jobStatus = Running, startedAt = now, completedAt = None, jobError = None,
              cancelRequested = False, jobHost = map_option fst (getConfig conn),
              jobPort = map_option snd (getConfig conn), jobSkipped = [] \<rparr>"])
           (simp_all add: startJob_def params known Let_def)
    qed
  qed
qed

lemma bulk_inv_request:
  assumes inv: "bulk_inv s" and fresh: "fresh_id uuid s"
    and start: "startJob registryGet getConfig uuid now conn input mode s = (r, s')"
  shows "bulk_inv s'"
  using start
proof (cases rule: startJob_cases)
  case refused
  then show ?thesis using inv by simp
next
  case (started job)
  have ok: "jobs_ok (js_set uuid job (jobs s))"
    using inv started by (intro jobs_ok_set) (simp_all add: bulk_inv_def)
  have run: "i = uuid \<and> a = job \<or> i \<noteq> uuid \<and> running s i a" if "running s' i a" for i a
    using that pruned_get [OF ok, of now i a] started(8) by (auto simp: running_def js_simps split: if_splits)
  have parts: "ending s' = ending s" "audits s' = audits s"
    "js_get (auditWrites s') i = (if i = uuid \<and> mode = Execute then Some (audit_record job)
       else js_get (auditWrites s) i)" for i
    using started(8) by (simp_all add: js_simps)
  have old: "jobConnection a \<noteq> conn" if "running s i a" for i a
    using that findActiveJob_None [OF started(1)] by (auto simp: running_def)
  have "one_walk s'"
    using inv run old started(4) unfolding one_walk_def bulk_inv_def by metis
  moreover have "writes_ok s'" unfolding writes_ok_def
  proof (intro conjI allI impI)
    fix jid rec assume "js_get (auditWrites s') jid = Some rec"
    then show "auId rec = jid" "auStatus rec = Running" using inv started(3,6) parts(3) [of jid]
      by (auto simp: bulk_inv_def writes_ok_def audit_record_def split: if_splits)
  next
    fix jid j assume "js_get (ending s') jid = Some j"
    then show "jobId j = jid" "jobStatus j \<noteq> Running" using inv parts(1)
      by (auto simp: bulk_inv_def writes_ok_def)
  next
    fix jid j assume "running s' jid j"
    then show "js_get (ending s') jid = None"
      using run [of jid j] fresh inv unfolding parts(1) bulk_inv_def writes_ok_def
      by (auto simp: fresh_id_def js_has_def)
  qed
  moreover have "rows_ok s'" unfolding rows_ok_def
  proof (intro ballI impI)
    fix row assume row: "row \<in> set (audits s')" "auStatus row \<noteq> Running"
    then have ids: "auId row \<noteq> uuid" using fresh parts(2) by (auto simp: fresh_id_def)
    have "js_get (auditWrites s) (auId row) = None" "js_get (ending s) (auId row) = None"
      "\<forall>j. \<not> running s (auId row) j"
      using inv row unfolding bulk_inv_def rows_ok_def parts(2) by blast+
    then show "js_get (auditWrites s') (auId row) = None \<and> js_get (ending s') (auId row) = None
        \<and> (\<forall>j. \<not> running s' (auId row) j)"
      using ids run [of "auId row"] parts(1) parts(3) [of "auId row"] by auto
  qed
  ultimately show ?thesis using pruneJobs_ok [OF ok] started(8) by (simp add: bulk_inv_def)
qed

text \<open>A step that only drops or relabels jobs without waking any keeps the invariant.\<close>

lemma bulk_inv_shrink:
  assumes inv: "bulk_inv s" and ok: "jobs_ok (jobs s')"
    and run: "\<forall>i a. running s' i a \<longrightarrow> (\<exists>b. running s i b \<and> jobConnection b = jobConnection a)"
    and same: "auditWrites s' = auditWrites s" "ending s' = ending s" "audits s' = audits s"
  shows "bulk_inv s'"
proof -
  have "one_walk s'" using inv run unfolding bulk_inv_def one_walk_def by metis
  moreover have "writes_ok s'" using inv run same unfolding bulk_inv_def writes_ok_def by metis
  moreover have "rows_ok s'" using inv run same unfolding bulk_inv_def rows_ok_def by metis
  ultimately show ?thesis using ok by (simp add: bulk_inv_def)
qed

lemma bulk_inv_cancel:
  assumes inv: "bulk_inv s"
  shows "bulk_inv (s \<lparr> jobs := snd (cancelJob jid conn (jobs s)) \<rparr>)"
proof -
  have ok: "jobs_ok (jobs s)" using inv by (simp add: bulk_inv_def)
  have "jobs_ok (snd (cancelJob jid conn (jobs s)))"
    using ok jobs_ok_get [OF ok] by (auto simp: cancelJob_def intro!: jobs_ok_set split: option.splits)
  moreover have "\<exists>b. running s i b \<and> jobConnection b = jobConnection a"
    if "running (s \<lparr> jobs := snd (cancelJob jid conn (jobs s)) \<rparr>) i a" for i a
    using that by (auto simp: running_def cancelJob_def js_simps split: option.splits if_splits)
  ultimately show ?thesis by (intro bulk_inv_shrink [OF inv]) auto
qed

lemma bulk_inv_run_ends:
  assumes inv: "bulk_inv s" and job: "running s jid job" and run: "runJob env job w = Some (job', w')"
  shows "bulk_inv (enter_finally now jid job' s)"
proof -
  let ?d = "job' \<lparr> completedAt := Some now \<rparr>" and ?s = "enter_finally now jid job' s"
  have ok: "jobs_ok (jobs s)" and get: "js_get (jobs s) jid = Some job"
    using inv job by (simp_all add: bulk_inv_def running_def)
  have d: "jobId ?d = jid" "jobStatus ?d \<noteq> Running"
    using runJob_facts [OF run] jobs_ok_get [OF ok get] by auto
  have "jobs_ok (jobs ?s)"
    using ok d by (auto simp: enter_finally_def Let_def intro!: jobs_ok_set)
  moreover have r: "i \<noteq> jid \<and> running s i a" if "running ?s i a" for i a
    using that d(2) by (auto simp: running_def enter_finally_def js_simps Let_def split: if_splits)
  have parts: "auditWrites ?s = auditWrites s" "audits ?s = audits s"
    "js_get (ending ?s) i = (if i = jid then Some ?d else js_get (ending s) i)" for i
    by (simp_all add: enter_finally_def Let_def js_simps)
  have "one_walk ?s" using inv r unfolding bulk_inv_def one_walk_def by metis
  moreover have "writes_ok ?s" unfolding writes_ok_def parts
  proof (intro conjI allI impI)
    fix i j assume "(if i = jid then Some ?d else js_get (ending s) i) = Some j"
    then show "jobId j = i" "jobStatus j \<noteq> Running"
      using inv d unfolding bulk_inv_def writes_ok_def by (auto split: if_splits)
  next
    fix i j assume "running ?s i j"
    then show "(if i = jid then Some ?d else js_get (ending s) i) = None"
      using inv r [of i j] unfolding bulk_inv_def writes_ok_def by auto
  qed (use inv in \<open>auto simp: bulk_inv_def writes_ok_def\<close>)
  moreover have "rows_ok ?s" unfolding rows_ok_def parts
  proof (intro ballI impI)
    fix row assume "row \<in> set (audits s)" "auStatus row \<noteq> Running"
    then have row: "js_get (auditWrites s) (auId row) = None" "js_get (ending s) (auId row) = None"
      "\<forall>j. \<not> running s (auId row) j"
      using inv unfolding bulk_inv_def rows_ok_def by blast+
    then show "js_get (auditWrites s) (auId row) = None
        \<and> (if auId row = jid then Some ?d else js_get (ending s) (auId row)) = None
        \<and> (\<forall>j. \<not> running ?s (auId row) j)"
      using job r by auto
  qed
  ultimately show ?thesis by (simp add: bulk_inv_def)
qed


context audit_store
begin

lemma bulk_inv_first_audit:
  assumes inv: "bulk_inv s" and rec: "js_get (auditWrites s) jid = Some rec"
  shows "bulk_inv (initial_write save ok jid rec s)"
proof -
  let ?s = "initial_write save ok jid rec s"
  have rec_id: "auId rec = jid" "auStatus rec = Running"
    using inv rec by (auto simp: bulk_inv_def writes_ok_def)
  have run: "running ?s = running s" by (simp add: fun_eq_iff running_def initial_write_def)
  have parts: "jobs ?s = jobs s" "ending ?s = ending s"
    "js_get (auditWrites ?s) i = (if i = jid then None else js_get (auditWrites s) i)" for i
    by (simp_all add: initial_write_def js_simps)
  have rows: "row \<in> set (audits s) \<or> auStatus row = Running" if "row \<in> set (audits ?s)" for row
    using that rows_from [of row rec "audits s"] rec_id by (auto simp: initial_write_def split: if_splits)
  have "one_walk ?s" using inv by (simp add: bulk_inv_def one_walk_def run)
  moreover have "writes_ok ?s"
    using inv unfolding bulk_inv_def writes_ok_def run parts by auto
  moreover have "rows_ok ?s" unfolding rows_ok_def run parts
  proof (intro ballI impI)
    fix row assume "row \<in> set (audits ?s)" "auStatus row \<noteq> Running"
    then have "row \<in> set (audits s)" "auStatus row \<noteq> Running" using rows by auto
    then show "(if auId row = jid then None else js_get (auditWrites s) (auId row)) = None
        \<and> js_get (ending s) (auId row) = None \<and> (\<forall>j. \<not> running s (auId row) j)"
      using inv unfolding bulk_inv_def rows_ok_def by auto
  qed
  ultimately show ?thesis using inv parts(1) by (simp add: bulk_inv_def)
qed

lemma bulk_inv_last_audit:
  assumes inv: "bulk_inv s" and job: "js_get (ending s) jid = Some job"
    and none: "js_get (auditWrites s) jid = None"
  shows "bulk_inv (final_write save ok now jid job s)"
proof -
  let ?s = "final_write save ok now jid job s"
  have ok: "jobs_ok (jobs s)" using inv by (simp add: bulk_inv_def)
  have run: "running s i a" if "running ?s i a" for i a
    using that pruned_get [OF ok] by (auto simp: running_def final_write_def)
  have parts: "auditWrites ?s = auditWrites s"
    "js_get (ending ?s) i = (if i = jid then None else js_get (ending s) i)" for i
    by (simp_all add: final_write_def js_simps)
  have job_id: "jobId job = jid" using inv job by (auto simp: bulk_inv_def writes_ok_def)
  have idle: "\<not> running s jid j" for j using inv job by (auto simp: bulk_inv_def writes_ok_def)
  have rows: "row \<in> set (audits s) \<or> auId row = jid" if "row \<in> set (audits ?s)" for row
    using that rows_from [of row "audit_record job" "audits s"] job_id
    by (auto simp: final_write_def audit_record_def split: if_splits)
  have "jobs_ok (jobs ?s)" using pruneJobs_ok [OF ok] by (simp add: final_write_def)
  moreover have "one_walk ?s" using inv run unfolding bulk_inv_def one_walk_def by metis
  moreover have "writes_ok ?s"
  proof -
    have "\<forall>i. (\<exists>a. running ?s i a) \<longrightarrow> (\<exists>a. running s i a)" using run by blast
    then show ?thesis using inv unfolding bulk_inv_def writes_ok_def parts by simp
  qed
  moreover have "rows_ok ?s" unfolding rows_ok_def parts
  proof (intro ballI impI)
    fix row assume row: "row \<in> set (audits ?s)" "auStatus row \<noteq> Running"
    show "js_get (auditWrites s) (auId row) = None
        \<and> (if auId row = jid then None else js_get (ending s) (auId row)) = None
        \<and> (\<forall>j. \<not> running ?s (auId row) j)"
    proof (cases "auId row = jid")
      case True
      then show ?thesis using none idle run by auto
    next
      case False
      then have "row \<in> set (audits s)" using rows row by blast
      then show ?thesis using inv row(2) run unfolding bulk_inv_def rows_ok_def by auto
    qed
  qed
  ultimately show ?thesis by (simp add: bulk_inv_def)
qed

lemma bulk_inv_step:
  assumes "bulk_step save env s s'" and "bulk_inv s"
  shows "bulk_inv s'"
  using assms
proof (cases rule: bulk_step.cases)
  case request
  then show ?thesis using assms(2) bulk_inv_request by blast
next
  case cancel
  then show ?thesis using assms(2) bulk_inv_cancel by simp
next
  case (run_ends jid job w job' w' now)
  then show ?thesis using assms(2) bulk_inv_run_ends [of s jid job] by (simp add: running_def)
next
  case first_audit
  then show ?thesis using assms(2) bulk_inv_first_audit by simp
next
  case last_audit
  then show ?thesis using assms(2) bulk_inv_last_audit by simp
next
  case restart
  then show ?thesis using bulk_inv_boot by simp
qed

lemma bulk_inv_reach: "bulk_reach save env s \<Longrightarrow> bulk_inv s"
  by (induction rule: bulk_reach.induct) (auto simp: bulk_inv_boot intro: bulk_inv_step)

lemma final_row_stays:
  assumes inv: "bulk_inv s" and step: "bulk_step save env s s'"
    and row: "r \<in> set (audits s)" "auStatus r \<noteq> Running"
  shows "r \<in> set (audits s')"
proof -
  have idle: "js_get (auditWrites s) (auId r) = None" "js_get (ending s) (auId r) = None"
    using inv row unfolding bulk_inv_def rows_ok_def by blast+
  from step show ?thesis
  proof (cases rule: bulk_step.cases)
    case (request uuid registryGet getConfig now conn input mode e)
    from request(2) have "audits s' = audits s" by (cases rule: startJob_cases) auto
    then show ?thesis using row by simp
  next
    case cancel
    then show ?thesis using row by simp
  next
    case run_ends
    then show ?thesis using row by (simp add: enter_finally_def Let_def)
  next
    case (first_audit jid rec ok)
    then have "auId r \<noteq> auId rec" using inv idle(1) by (auto simp: bulk_inv_def writes_ok_def)
    then show ?thesis using row others_stay first_audit by (simp add: initial_write_def)
  next
    case (last_audit jid job ok now)
    then have "auId r \<noteq> auId (audit_record job)"
      using inv idle(2) by (auto simp: bulk_inv_def writes_ok_def audit_record_def)
    then show ?thesis using row others_stay last_audit by (simp add: final_write_def)
  next
    case (restart ok now)
    have "interrupt_row e t r = r" for e t using row(2) by (simp add: interrupt_row_def)
    then have "r \<in> interrupt_row e t ` set (audits s)" for e t
      using row(1) by (intro image_eqI [of _ _ r]) simp_all
    then show ?thesis using restart row(1)
      by (simp add: onModuleInit_def markInterruptedBulkDeleteRuns_def)
  qed
qed

end

section \<open>Properties\<close>

definition audit_saves :: "audit_save list" where
  "audit_saves = [mem_saveBulkDeleteAudit, sql_saveBulkDeleteAudit]"

lemma audit_saves_store: "save \<in> set audit_saves \<Longrightarrow> audit_store save"
  using mem_audits.audit_store_axioms sql_audits.audit_store_axioms by (auto simp: audit_saves_def)

text \<open>
  C24: at every moment of the service, whatever requests, cancellations, endings, writes and restarts
  came before, a connection has at most one running job, and a request for a connection with a
  running job is refused and changes nothing.
\<close>

theorem bulk_one_walk_per_connection:
  assumes reach: "bulk_reach save env s" and save: "save \<in> set audit_saves"
    and job: "js_get (jobs s) jid = Some job" "jobStatus job = Running" "jobConnection job = conn"
  shows "(\<forall>jid' job'. js_get (jobs s) jid' = Some job' \<and> jobStatus job' = Running
            \<and> jobConnection job' = conn \<longrightarrow> jid' = jid)
         \<and> (\<exists>e. startJob registryGet getConfig uuid now conn input mode s = (Inl e, s))"
proof
  have inv: "bulk_inv s" using audit_store.bulk_inv_reach [OF audit_saves_store [OF save] reach] .
  then show "\<forall>jid' job'. js_get (jobs s) jid' = Some job' \<and> jobStatus job' = Running
      \<and> jobConnection job' = conn \<longrightarrow> jid' = jid"
    using job unfolding bulk_inv_def one_walk_def running_def by blast
  obtain r s' where start: "startJob registryGet getConfig uuid now conn input mode s = (r, s')" by fastforce
  then show "\<exists>e. startJob registryGet getConfig uuid now conn input mode s = (Inl e, s)"
  proof (cases rule: startJob_cases)
    case refused
    then show ?thesis using start by auto
  next
    case started
    then show ?thesis using findActiveJob_None [OF started(1) job(1,2)] job(3) by simp
  qed
qed

text \<open>
  C23: the audit of a run is final. Once the row of a job has left the status running, no later step
  changes it, in either storage adapter: not the initial write of the job, which the final write
  waits for, not another job, not the reconciliation at the next start. (The order of the two writes
  is what the code's comments ask for.)
\<close>

theorem bulk_audit_final:
  assumes reach: "bulk_reach save env s" and save: "save \<in> set audit_saves"
    and step: "bulk_step save env s s'"
    and row: "r \<in> set (audits s)" "auStatus r \<noteq> Running"
  shows "r \<in> set (audits s')"
  using audit_store.final_row_stays [OF audit_saves_store [OF save] _ step row]
    audit_store.bulk_inv_reach [OF audit_saves_store [OF save] reach] by blast

text \<open>
  C25: the run of a fresh job always comes to an end when the cursors of its nodes advance, and what
  it reports is the truth: failed exactly when an error is recorded, cancelled exactly when the
  engine stopped on the cancel flag, and otherwise completed, with every node it could reach walked
  to the end or the key limit hit; the counters are consistent in all cases.
\<close>

theorem bulk_job_settles:
  assumes fresh: "jobProgress job = createBulkDeleteProgress (parMode (jobParams job)) 0"
      "jobStatus job = Running" "jobError job = None"
    and adv: "\<forall>targets skip v. buildTargets env (jobConnection job) (jobScope job) w = (Inr (targets, skip), v)
        \<longrightarrow> scan_advances rank targets (run_hooks env (jobId job))"
  shows "\<exists>job' w'. runJob env job w = Some (job', w')
      \<and> jobStatus job' \<noteq> Running \<and> progress_ok (jobParams job) (jobProgress job')
      \<and> (jobStatus job' = Failed \<longleftrightarrow> jobError job' \<noteq> None)
      \<and> (jobStatus job' = Cancelled \<longleftrightarrow> cancelled (jobProgress job'))
      \<and> (jobStatus job' = Completed \<longleftrightarrow> jobError job' = None \<and> \<not> cancelled (jobProgress job'))
      \<and> (jobStatus job' = Completed \<longrightarrow> (truncated (jobProgress job')
              \<or> (\<exists>targets v. buildTargets env (jobConnection job) (jobScope job) w = (Inr (targets, jobSkipped job'), v)
                   \<and> targets \<noteq> [] \<and> nodesDone (jobProgress job') = length targets)))"
proof -
  obtain r v where build: "buildTargets env (jobConnection job) (jobScope job) w = (r, v)" by fastforce
  have start: "progress_ok (jobParams job) (createBulkDeleteProgress m n)" for m n
    by (rule progress_ok_create)
  show ?thesis
  proof (cases r)
    case (Inl e)
    then show ?thesis using build fresh start by (simp add: runJob_def)
  next
    case (Inr ts)
    obtain targets skip where ts: "ts = (targets, skip)" by fastforce
    show ?thesis
    proof (cases "targets = []")
      case True
      then show ?thesis using build Inr ts fresh start by (simp add: runJob_def Let_def)
    next
      case False
      have "scan_advances rank targets (run_hooks env (jobId job))" using adv build Inr ts by blast
      from run_returns [OF this start, of "parMode (jobParams job)" "length targets" v]
      obtain e p w' where run: "runBulkDelete targets (jobParams job) (run_hooks env (jobId job))
          (createBulkDeleteProgress (parMode (jobParams job)) (length targets)) v = Some (e, p, w')"
        and p: "progress_ok (jobParams job) p"
        and fin: "e = None \<longrightarrow> cancelled p \<or> truncated p \<or> nodesDone p = length targets"
        and err: "e \<noteq> None \<longrightarrow> \<not> cancelled p"
        by (auto simp: createBulkDeleteProgress_def)
      have same: "createBulkDeleteProgress m 0 \<lparr> nodesTotal := k \<rparr> = createBulkDeleteProgress m k" for m k
        by (simp add: createBulkDeleteProgress_def)
      show ?thesis
        using build Inr ts False run p fin err fresh
        by (cases e) (auto simp: runJob_def Let_def same)
    qed
  qed
qed


section \<open>The properties on concrete runs\<close>

definition demo_input :: BulkDeleteRequestInput where
  "demo_input = \<lparr> inMatch = Some ''u*'', inType = None, inCount = None, inScope = None, inMaxKeys = None,
     inBatchPauseMs = None, confirmDeleteAll = False \<rparr>"

text \<open>A client whose server answers every SCAN with its whole keyspace and the cursor 0.\<close>

definition demo_client :: "string list client" where
  "demo_client = \<lparr> call_scan = (\<lambda>args w. (Inr (ArrayReply ''0'' (Some w)), w)),
     exec_unlinks = (\<lambda>keys w. (Inr (Some (map (\<lambda>k. (False, Some (if k \<in> set w then 1 else 0))) keys)),
                                filter (\<lambda>k. k \<notin> set keys) w)) \<rparr>"

definition demo_env :: "string list bulk_env" where
  "demo_env = \<lparr> envGet = (\<lambda>conn w. Inr demo_client), envDiscover = (\<lambda>conn w. (Inl ''no cluster'', w)),
     envNode = (\<lambda>n conn w. (Inl ''unreachable'', w)), envSleep = (\<lambda>ms w. w), envCancelled = (\<lambda>jid w. False) \<rparr>"

definition demo_boot :: bulk_service where
  "demo_boot = onModuleInit True 0 []"

definition demo_started :: bulk_service where
  "demo_started = snd (startJob (\<lambda>c. None) (\<lambda>c. None) ''j1'' 5 ''c1'' demo_input Execute demo_boot)"

definition demo_job :: BulkDeleteJob where
  "demo_job = the (js_get (jobs demo_started) ''j1'')"

lemma demo_reach: "bulk_reach mem_saveBulkDeleteAudit demo_env demo_started"
proof -
  have "fresh_id ''j1'' demo_boot" by code_simp
  then have "bulk_step mem_saveBulkDeleteAudit demo_env demo_boot demo_started"
    unfolding demo_started_def by (rule bulk_step.request) (simp add: prod_eq_iff)
  moreover have "bulk_reach mem_saveBulkDeleteAudit demo_env demo_boot"
    unfolding demo_boot_def by (rule bulk_reach.boot)
  ultimately show ?thesis by (rule bulk_reach.step [rotated])
qed

lemma demo_job_facts:
  "js_get (jobs demo_started) ''j1'' = Some demo_job" "jobStatus demo_job = Running"
  "jobConnection demo_job = ''c1''" "jobError demo_job = None"
  "jobProgress demo_job = createBulkDeleteProgress Execute 0" "parMode (jobParams demo_job) = Execute"
  "jobScope demo_job = NodeScope"
  by code_simp+

theorem bulk_one_walk_per_connection_witness:
  "\<exists>e. startJob (\<lambda>c. None) (\<lambda>c. None) ''j2'' 6 ''c1'' demo_input DryRun demo_started = (Inl e, demo_started)"
  by (rule bulk_one_walk_per_connection [OF demo_reach _ demo_job_facts(1-3), THEN conjunct2])
     (simp add: audit_saves_def)

definition demo_row :: StoredBulkDeleteAudit where
  "demo_row = (audit_record demo_job) \<lparr> auStatus := Completed, auCompletedAt := Some 9 \<rparr>"

theorem bulk_audit_final_witness:
  "demo_row \<in> set (audits (onModuleInit True 20 [demo_row]))"
proof -
  have s: "audits (onModuleInit True 9 [demo_row]) = [demo_row]" by code_simp
  have step: "bulk_step mem_saveBulkDeleteAudit demo_env (onModuleInit True 9 [demo_row]) (onModuleInit True 20 [demo_row])"
    using bulk_step.restart [of mem_saveBulkDeleteAudit demo_env "onModuleInit True 9 [demo_row]" True 20]
    unfolding s .
  show ?thesis
    by (rule bulk_audit_final [OF bulk_reach.boot _ step])
       (simp_all add: audit_saves_def s, simp add: demo_row_def)
qed

theorem bulk_job_settles_witness:
  "\<exists>job' w'. runJob demo_env demo_job [''u1'', ''u2''] = Some (job', w') \<and> jobStatus job' \<noteq> Running
     \<and> progress_ok (jobParams demo_job) (jobProgress job')"
proof -
  have "scan_advances (\<lambda>t v c. 0) [createValkeyScanTarget ''primary'' demo_client] (run_hooks demo_env jid)" for jid
    by (auto simp: scan_advances_def createValkeyScanTarget_def valkey_scan_def demo_client_def Let_def)
  then show ?thesis
    using bulk_job_settles [of demo_job demo_env "[''u1'', ''u2'']" "\<lambda>t v c. 0"] demo_job_facts
    by (auto simp: buildTargets_def demo_env_def)
qed

text \<open>The same run in full: both keys are unlinked and the job completes.\<close>

lemma bulk_job_example:
  "map_option (\<lambda>(job, w). (jobStatus job, deleted (jobProgress job), w)) (runJob demo_env demo_job [''u1'', ''u2''])
   = Some (Completed, 2, [])"
  by code_simp

end
