(* ===== verification/Webhook_Types.thy ===== *)
theory Webhook_Types
  imports Prelude
begin

text \<open>
  Webhook event types, licence tiers and the records of a webhook and a delivery
  (src/packages/shared/src/webhooks/types.ts), the defaults merged into a webhook's configuration
  (defaults.ts), and what the webhooks service decides about a webhook before it is stored: the
  licence tier of its events, its URL and the redaction of its secret
  (src/apps/api/src/webhooks/webhooks.service.ts).
\<close>

section \<open>Events and tiers\<close>

datatype WebhookEventType =
    INSTANCE_DOWN | INSTANCE_UP | MEMORY_CRITICAL | CONNECTION_CRITICAL | ANOMALY_DETECTED
  | SLOWLOG_THRESHOLD | LATENCY_SPIKE | CONNECTION_SPIKE | CLIENT_BLOCKED | ACL_VIOLATION
  | ACL_MODIFIED | CONFIG_CHANGED | REPLICATION_LAG | CLUSTER_FAILOVER | FAILOVER_STARTED
  | FAILOVER_COMPLETED | DATA_LOSS_DETECTED | LATENCY_REGRESSION_DETECTED | AUDIT_POLICY_VIOLATION
  | COMPLIANCE_ALERT | METRIC_FORECAST_LIMIT | INFERENCE_SLA_BREACH | MONITOR_SESSION_STARTED
  | MONITOR_SESSION_COMPLETED | MONITOR_SESSION_TRUNCATED | MONITOR_SESSION_SKIPPED
  | MONITOR_TRIGGER_CREATED

datatype Tier = community | pro | enterprise

definition all_events :: "WebhookEventType list" where
  "all_events =
     [INSTANCE_DOWN, INSTANCE_UP, MEMORY_CRITICAL, CONNECTION_CRITICAL, ANOMALY_DETECTED,
      SLOWLOG_THRESHOLD, LATENCY_SPIKE, CONNECTION_SPIKE, CLIENT_BLOCKED, ACL_VIOLATION,
      ACL_MODIFIED, CONFIG_CHANGED, REPLICATION_LAG, CLUSTER_FAILOVER, FAILOVER_STARTED,
      FAILOVER_COMPLETED, DATA_LOSS_DETECTED, LATENCY_REGRESSION_DETECTED, AUDIT_POLICY_VIOLATION,
      COMPLIANCE_ALERT, METRIC_FORECAST_LIMIT, INFERENCE_SLA_BREACH, MONITOR_SESSION_STARTED,
      MONITOR_SESSION_COMPLETED, MONITOR_SESSION_TRUNCATED, MONITOR_SESSION_SKIPPED,
      MONITOR_TRIGGER_CREATED]"

definition FREE_EVENTS :: "WebhookEventType list" where
  "FREE_EVENTS =
     [INSTANCE_DOWN, INSTANCE_UP, MEMORY_CRITICAL, CONNECTION_CRITICAL, CLIENT_BLOCKED,
      MONITOR_SESSION_STARTED, MONITOR_SESSION_COMPLETED, MONITOR_SESSION_TRUNCATED,
      MONITOR_SESSION_SKIPPED]"

definition PRO_EVENTS :: "WebhookEventType list" where
  "PRO_EVENTS = FREE_EVENTS @
     [ANOMALY_DETECTED, SLOWLOG_THRESHOLD, REPLICATION_LAG, CLUSTER_FAILOVER, LATENCY_SPIKE,
      CONNECTION_SPIKE, METRIC_FORECAST_LIMIT, FAILOVER_STARTED, FAILOVER_COMPLETED,
      DATA_LOSS_DETECTED, LATENCY_REGRESSION_DETECTED, INFERENCE_SLA_BREACH, MONITOR_TRIGGER_CREATED]"

definition ENTERPRISE_EVENTS :: "WebhookEventType list" where
  "ENTERPRISE_EVENTS = PRO_EVENTS @
     [AUDIT_POLICY_VIOLATION, COMPLIANCE_ALERT, ACL_VIOLATION, ACL_MODIFIED, CONFIG_CHANGED]"

fun WEBHOOK_EVENT_TIERS :: "WebhookEventType \<Rightarrow> Tier" where
  "WEBHOOK_EVENT_TIERS INSTANCE_DOWN = community"
| "WEBHOOK_EVENT_TIERS INSTANCE_UP = community"
| "WEBHOOK_EVENT_TIERS MEMORY_CRITICAL = community"
| "WEBHOOK_EVENT_TIERS CONNECTION_CRITICAL = community"
| "WEBHOOK_EVENT_TIERS CLIENT_BLOCKED = community"
| "WEBHOOK_EVENT_TIERS MONITOR_SESSION_STARTED = community"
| "WEBHOOK_EVENT_TIERS MONITOR_SESSION_COMPLETED = community"
| "WEBHOOK_EVENT_TIERS MONITOR_SESSION_TRUNCATED = community"
| "WEBHOOK_EVENT_TIERS MONITOR_SESSION_SKIPPED = community"
| "WEBHOOK_EVENT_TIERS ANOMALY_DETECTED = pro"
| "WEBHOOK_EVENT_TIERS SLOWLOG_THRESHOLD = pro"
| "WEBHOOK_EVENT_TIERS REPLICATION_LAG = pro"
| "WEBHOOK_EVENT_TIERS CLUSTER_FAILOVER = pro"
| "WEBHOOK_EVENT_TIERS LATENCY_SPIKE = pro"
| "WEBHOOK_EVENT_TIERS CONNECTION_SPIKE = pro"
| "WEBHOOK_EVENT_TIERS METRIC_FORECAST_LIMIT = pro"
| "WEBHOOK_EVENT_TIERS FAILOVER_STARTED = pro"
| "WEBHOOK_EVENT_TIERS FAILOVER_COMPLETED = pro"
| "WEBHOOK_EVENT_TIERS DATA_LOSS_DETECTED = pro"
| "WEBHOOK_EVENT_TIERS LATENCY_REGRESSION_DETECTED = pro"
| "WEBHOOK_EVENT_TIERS INFERENCE_SLA_BREACH = pro"
| "WEBHOOK_EVENT_TIERS MONITOR_TRIGGER_CREATED = pro"
| "WEBHOOK_EVENT_TIERS AUDIT_POLICY_VIOLATION = enterprise"
| "WEBHOOK_EVENT_TIERS COMPLIANCE_ALERT = enterprise"
| "WEBHOOK_EVENT_TIERS ACL_VIOLATION = enterprise"
| "WEBHOOK_EVENT_TIERS ACL_MODIFIED = enterprise"
| "WEBHOOK_EVENT_TIERS CONFIG_CHANGED = enterprise"

primrec TIER_HIERARCHY :: "Tier \<Rightarrow> nat" where
  "TIER_HIERARCHY community = 0"
| "TIER_HIERARCHY pro = 1"
| "TIER_HIERARCHY enterprise = 2"

definition isEventAllowedForTier :: "WebhookEventType \<Rightarrow> Tier \<Rightarrow> bool" where
  "isEventAllowedForTier event userTier \<longleftrightarrow> TIER_HIERARCHY (WEBHOOK_EVENT_TIERS event) \<le> TIER_HIERARCHY userTier"

primrec getEventsForTier :: "Tier \<Rightarrow> WebhookEventType list" where
  "getEventsForTier community = FREE_EVENTS"
| "getEventsForTier pro = PRO_EVENTS"
| "getEventsForTier enterprise = ENTERPRISE_EVENTS"

definition getLockedEventsForTier :: "Tier \<Rightarrow> WebhookEventType list" where
  "getLockedEventsForTier tier = filter (\<lambda>event. event \<notin> set (getEventsForTier tier)) all_events"

definition getEventsByTierCategory :: "Tier \<Rightarrow> WebhookEventType list" where
  "getEventsByTierCategory tier =
     (case tier of
        community \<Rightarrow> FREE_EVENTS
      | pro \<Rightarrow> filter (\<lambda>e. e \<notin> set FREE_EVENTS) PRO_EVENTS
      | enterprise \<Rightarrow> filter (\<lambda>e. e \<notin> set PRO_EVENTS) ENTERPRISE_EVENTS)"

definition validateEventsForTier :: "WebhookEventType list \<Rightarrow> Tier \<Rightarrow> WebhookEventType list" where
  "validateEventsForTier events userTier = filter (\<lambda>event. \<not> isEventAllowedForTier event userTier) events"

text \<open>
  the two descriptions of the licence tiers agree. The lists an upgrade page shows (allowed,
  locked and per category) are exactly what the tier table grants: an event is listed for a tier iff
  a subscription to it passes validation under that tier, it is locked iff validation reports it,
  and its category is its minimum tier.
\<close>

theorem webhook_tier_lists_agree:
  "(event \<in> set (getEventsForTier tier)) = isEventAllowedForTier event tier
   \<and> (event \<in> set (getLockedEventsForTier tier)) = (validateEventsForTier [event] tier = [event])
   \<and> (event \<in> set (getEventsByTierCategory tier)) = (WEBHOOK_EVENT_TIERS event = tier)
   \<and> distinct (getEventsForTier tier)"
  by (cases tier; cases event)
     (simp_all add: FREE_EVENTS_def PRO_EVENTS_def ENTERPRISE_EVENTS_def all_events_def
       isEventAllowedForTier_def getLockedEventsForTier_def getEventsByTierCategory_def
       validateEventsForTier_def)

section \<open>Webhooks and deliveries\<close>

datatype DeliveryStatus = PENDING | SUCCESS | FAILED | RETRYING | DEAD_LETTER

record RetryPolicy =
  maxRetries :: int
  backoffMultiplier :: real
  initialDelayMs :: real
  maxDelayMs :: real

definition DEFAULT_RETRY_POLICY :: RetryPolicy where
  "DEFAULT_RETRY_POLICY = \<lparr> maxRetries = 3, backoffMultiplier = 2, initialDelayMs = 1000, maxDelayMs = 60000 \<rparr>"

record WebhookDeliveryConfig =
  cfgTimeoutMs :: "int option"
  cfgMaxResponseBodyBytes :: "nat option"

datatype WebhookThresholdKey =
    memoryCriticalPercent | connectionCriticalPercent | complianceMemoryPercent | slowlogCount
  | replicationLagSeconds | latencySpikeMs | connectionSpikeCount

record Webhook =
  whId :: string
  whName :: string
  whUrl :: string
  whSecret :: "string option"
  whEnabled :: bool
  whEvents :: "WebhookEventType list"
  whHeaders :: "(string, string) jsmap"
  whRetryPolicy :: RetryPolicy
  whDeliveryConfig :: "WebhookDeliveryConfig option"
  whHysteresisFactor :: "real option"
  whThresholds :: "(WebhookThresholdKey, real) jsmap"
  whConnectionId :: "string option"
  whCreatedAt :: int
  whUpdatedAt :: int

record WebhookPayload =
  plId :: string
  plEvent :: WebhookEventType
  plTimestamp :: int
  plHost :: string
  plPort :: int
  plConnectionId :: "string option"
  plData :: "(string, string) jsmap"

record WebhookDelivery =
  dlId :: string
  dlWebhookId :: string
  dlEventType :: WebhookEventType
  dlPayload :: WebhookPayload
  dlStatus :: DeliveryStatus
  dlStatusCode :: "int option"
  dlResponseBody :: "string option"
  dlAttempts :: int
  dlNextRetryAt :: "real option"
  dlConnectionId :: "string option"
  dlCreatedAt :: int
  dlCompletedAt :: "int option"
  dlDurationMs :: "int option"

subsection \<open>Defaults\<close>

definition getDeliveryConfig :: "Webhook \<Rightarrow> int \<times> nat" where
  "getDeliveryConfig webhook =
     (case whDeliveryConfig webhook of
        None \<Rightarrow> (30000, 10000)
      | Some c \<Rightarrow> (case cfgTimeoutMs c of None \<Rightarrow> 30000 | Some t \<Rightarrow> t,
                   case cfgMaxResponseBodyBytes c of None \<Rightarrow> 10000 | Some n \<Rightarrow> n))"

definition getAlertConfig :: "Webhook \<Rightarrow> real" where
  "getAlertConfig webhook = (case whHysteresisFactor webhook of None \<Rightarrow> 9 / 10 | Some h \<Rightarrow> h)"

primrec DEFAULT_THRESHOLDS :: "WebhookThresholdKey \<Rightarrow> real" where
  "DEFAULT_THRESHOLDS memoryCriticalPercent = 90"
| "DEFAULT_THRESHOLDS connectionCriticalPercent = 90"
| "DEFAULT_THRESHOLDS complianceMemoryPercent = 80"
| "DEFAULT_THRESHOLDS slowlogCount = 100"
| "DEFAULT_THRESHOLDS replicationLagSeconds = 10"
| "DEFAULT_THRESHOLDS latencySpikeMs = 0"
| "DEFAULT_THRESHOLDS connectionSpikeCount = 0"

definition getThreshold :: "Webhook \<Rightarrow> WebhookThresholdKey \<Rightarrow> real" where
  "getThreshold webhook key = js_get_or (DEFAULT_THRESHOLDS key) (whThresholds webhook) key"

section \<open>The URL of a webhook\<close>

text \<open>The patterns of \<open>BLOCKED_IP_PATTERNS\<close>: prefixes, one range of second octets, and \<open>::1\<close> exactly.\<close>

definition starts_with :: "string \<Rightarrow> string \<Rightarrow> bool" where
  "starts_with pre s \<longleftrightarrow> take (length pre) s = pre"

fun str_includes :: "string \<Rightarrow> string \<Rightarrow> bool" where
  "str_includes pat [] = (pat = [])"
| "str_includes pat (c # cs) = (starts_with pat (c # cs) \<or> str_includes pat cs)"

definition isBlockedIp :: "string \<Rightarrow> bool" where
  "isBlockedIp ip \<longleftrightarrow>
     starts_with ''127.'' ip \<or> starts_with ''10.'' ip
     \<or> list_ex (\<lambda>p. starts_with (''172.'' @ p @ ''.'') ip)
         [''16'', ''17'', ''18'', ''19'', ''20'', ''21'', ''22'', ''23'', ''24'', ''25'', ''26'', ''27'',
          ''28'', ''29'', ''30'', ''31'']
     \<or> starts_with ''192.168.'' ip \<or> starts_with ''169.254.'' ip \<or> ip = ''::1''
     \<or> starts_with ''fe80:'' ip \<or> starts_with ''fc00:'' ip"

datatype url_error = InvalidUrl | BadProtocol | LocalhostInProduction | PrivateAddress | SuspiciousHost
  | ResolvesToBlocked string | CannotResolve

text \<open>
  \<open>parse\<close> is \<open>new URL\<close>, with the protocol and host name of a parsed URL; \<open>resolve\<close> is the resolver.
\<close>

definition validateUrl ::
  "(string \<Rightarrow> (string \<times> string) option) \<Rightarrow> (string \<Rightarrow> string list option) \<Rightarrow> bool \<Rightarrow> string \<Rightarrow> url_error option" where
  "validateUrl parse resolve isProduction url =
     (case parse url of
        None \<Rightarrow> Some InvalidUrl
      | Some (protocol, host) \<Rightarrow>
          let isLocalhost = (host = ''localhost'' \<or> host = ''0.0.0.0'' \<or> host = ''127.0.0.1''
                             \<or> starts_with ''127.'' host)
          in if protocol \<notin> {''http:'', ''https:''} then Some BadProtocol
             else if isLocalhost \<and> \<not> isProduction then None
             else if host = ''localhost'' \<or> host = ''0.0.0.0'' then Some LocalhostInProduction
             else if isBlockedIp host then Some PrivateAddress
             else if str_includes ''127.'' host \<or> str_includes ''localhost'' host then Some SuspiciousHost
             else if isProduction
               then (case resolve host of
                       None \<Rightarrow> Some CannotResolve
                     | Some addrs \<Rightarrow> (case find isBlockedIp addrs of
                           Some a \<Rightarrow> Some (ResolvesToBlocked a)
                         | None \<Rightarrow> None))
             else None)"

text \<open>
  an accepted webhook URL is http or https, and in production its host is neither a local name
  nor a blocked address, it resolves, and no address it resolves to is blocked.
\<close>

theorem webhook_url_accepted_safe:
  assumes "validateUrl parse resolve True url = None"
  shows "\<exists>protocol host addrs. parse url = Some (protocol, host) \<and> protocol \<in> {''http:'', ''https:''}
     \<and> host \<noteq> ''localhost'' \<and> host \<noteq> ''0.0.0.0'' \<and> \<not> isBlockedIp host
     \<and> resolve host = Some addrs \<and> (\<forall>a \<in> set addrs. \<not> isBlockedIp a)"
proof (cases "parse url")
  case None
  then show ?thesis using assms by (simp add: validateUrl_def)
next
  case (Some u)
  obtain protocol host where u: "u = (protocol, host)" by (cases u)
  show ?thesis
  proof (cases "resolve host")
    case None
    then show ?thesis using assms Some u by (simp add: validateUrl_def Let_def split: if_splits)
  next
    case addrs: (Some addrs)
    then show ?thesis using assms Some u
      by (auto simp: validateUrl_def Let_def find_None_iff split: if_splits option.splits)
  qed
qed

theorem webhook_url_accepted_safe_witness:
  "\<not> isBlockedIp ''hooks.example.com'' \<and> \<not> isBlockedIp ''93.184.216.34''"
proof -
  have "validateUrl (\<lambda>u. Some (''https:'', ''hooks.example.com''))
      (\<lambda>h. if h = ''hooks.example.com'' then Some [''93.184.216.34''] else None) True
      ''https://hooks.example.com/x'' = None"
    by code_simp
  from webhook_url_accepted_safe [OF this] show ?thesis by auto
qed

text \<open>
  The IPv6 patterns miss addresses they are meant for: a unique local address outside \<open>fc00\<close> and the
  bracketed form in which a parsed URL has its host name.
\<close>

lemma blocked_ip_misses_ipv6:
  "\<not> isBlockedIp ''fd12:3456:789a::1''" "\<not> isBlockedIp ''[::1]''" "\<not> isBlockedIp ''[fe80::1]''"
  by code_simp+

section \<open>Creating a webhook\<close>

definition redact_text :: "string \<Rightarrow> string" where
  "redact_text secret =
     (if starts_with ''whsec_'' secret
      then let rest = drop 6 secret in ''whsec_'' @ take (min 4 (length rest)) rest @ ''***''
      else let visibleChars = (if length secret < 8 then 2 else 4)
           in take (min visibleChars (length secret)) secret @ ''***'')"

definition redactSecret :: "Webhook \<Rightarrow> Webhook" where
  "redactSecret webhook =
     (case truthy [] (whSecret webhook) of
        None \<Rightarrow> webhook
      | Some secret \<Rightarrow> webhook \<lparr> whSecret := Some (redact_text secret) \<rparr>)"

lemma redact_text_prefixed: "length rest \<ge> 4 \<Longrightarrow> redact_text (''whsec_'' @ rest) = ''whsec_'' @ take 4 rest @ ''***''"
  by (simp add: redact_text_def starts_with_def)

lemma redact_text_plain:
  "length secret \<ge> 8 \<Longrightarrow> \<not> starts_with ''whsec_'' secret \<Longrightarrow> redact_text secret = take 4 secret @ ''***''"
  by (simp add: redact_text_def)

text \<open>
  a redacted webhook differs from the stored one in its secret alone, and two secrets with the
  same kind and the same first four characters after the prefix, of eight characters or more, look
  the same: nothing else of the secret leaves the API.
\<close>

theorem redacted_secret_hides_rest:
  assumes "length tail \<ge> 8" and "length tail' \<ge> 8" and "take 4 tail = take 4 tail'"
    and "pre \<in> {[], ''whsec_''}"
    and "\<not> starts_with ''whsec_'' tail" and "\<not> starts_with ''whsec_'' tail'"
  shows "redactSecret (webhook \<lparr> whSecret := Some (pre @ tail) \<rparr>)
       = redactSecret (webhook \<lparr> whSecret := Some (pre @ tail') \<rparr>)
     \<and> redactSecret webhook \<lparr> whSecret := s \<rparr> = webhook \<lparr> whSecret := s \<rparr>"
proof
  have "redact_text (pre @ tail) = redact_text (pre @ tail')"
  proof (cases "pre = []")
    case True
    then show ?thesis using assms by (simp add: redact_text_plain)
  next
    case False
    then have "pre = ''whsec_''" using assms(4) by blast
    moreover have "length tail \<ge> 4" "length tail' \<ge> 4" using assms(1,2) by linarith+
    ultimately show ?thesis using assms(3) redact_text_prefixed [of tail] redact_text_prefixed [of tail'] by simp
  qed
  moreover have "tail \<noteq> []" "tail' \<noteq> []" using assms(1,2) by auto
  ultimately show "redactSecret (webhook \<lparr> whSecret := Some (pre @ tail) \<rparr>)
      = redactSecret (webhook \<lparr> whSecret := Some (pre @ tail') \<rparr>)"
    by (simp add: redactSecret_def truthy_def)
  show "redactSecret webhook \<lparr> whSecret := s \<rparr> = webhook \<lparr> whSecret := s \<rparr>"
    by (simp add: redactSecret_def split: option.split)
qed

theorem redacted_secret_hides_rest_witness:
  "redactSecret (\<lparr> whId = ''w'', whName = ''n'', whUrl = ''u'', whSecret = None, whEnabled = True, whEvents = [],
       whHeaders = [], whRetryPolicy = DEFAULT_RETRY_POLICY, whDeliveryConfig = None, whHysteresisFactor = None,
       whThresholds = [], whConnectionId = None, whCreatedAt = 0, whUpdatedAt = 0 \<rparr>
       \<lparr> whSecret := Some (''whsec_'' @ ''abcd1234'') \<rparr>)
   = redactSecret (\<lparr> whId = ''w'', whName = ''n'', whUrl = ''u'', whSecret = None, whEnabled = True, whEvents = [],
       whHeaders = [], whRetryPolicy = DEFAULT_RETRY_POLICY, whDeliveryConfig = None, whHysteresisFactor = None,
       whThresholds = [], whConnectionId = None, whCreatedAt = 0, whUpdatedAt = 0 \<rparr>
       \<lparr> whSecret := Some (''whsec_'' @ ''abcd5678'') \<rparr>)"
  by (rule redacted_secret_hides_rest [THEN conjunct1]) (simp_all add: starts_with_def)

end
