(* ===== verification/Webhook_Store.thy ===== *)
theory Webhook_Store
  imports Webhook_Types
begin

text \<open>
  The two webhook repositories, src/apps/api/src/storage/adapters/repositories/
  webhook.memory.repository.ts and webhook.sqlite.repository.ts, over one state: the webhooks and the
  deliveries by id, in insertion order. The schema of sqlite.adapter.ts belongs to the second: its
  connection_id columns are NOT NULL and deleting a webhook cascades to its deliveries, so an insert
  without a connection raises.

  The interface \<open>delivery_store\<close> is what the delivery machine needs of either; both are instances.
\<close>

record webhook_store =
  webhooks :: "(string, Webhook) jsmap"
  deliveries :: "(string, WebhookDelivery) jsmap"

definition MAX_DELIVERIES_PER_WEBHOOK :: nat where "MAX_DELIVERIES_PER_WEBHOOK = 1000"

section \<open>Webhooks\<close>

text \<open>Creating: the id and the two time stamps are the repository's.\<close>

definition mem_createWebhook :: "string \<Rightarrow> int \<Rightarrow> Webhook \<Rightarrow> webhook_store \<Rightarrow> Webhook \<times> webhook_store" where
  "mem_createWebhook uuid now w s =
     (let new = w \<lparr> whId := uuid, whCreatedAt := now, whUpdatedAt := now \<rparr>
      in (new, s \<lparr> webhooks := js_set uuid new (webhooks s) \<rparr>))"

definition sql_createWebhook ::
  "string \<Rightarrow> int \<Rightarrow> Webhook \<Rightarrow> webhook_store \<Rightarrow> (string + Webhook) \<times> webhook_store" where
  "sql_createWebhook uuid now w s =
     (case truthy [] (whConnectionId w) of
        None \<Rightarrow> (Inl ''NOT NULL constraint failed: webhooks.connection_id'', s)
      | Some c \<Rightarrow>
          let new = w \<lparr> whId := uuid, whCreatedAt := now, whUpdatedAt := now \<rparr>
          in (Inr new, s \<lparr> webhooks := js_set uuid new (webhooks s) \<rparr>))"

definition getWebhook :: "string \<Rightarrow> webhook_store \<Rightarrow> Webhook option" where
  "getWebhook wid s = js_get (webhooks s) wid"

definition in_scope :: "string option \<Rightarrow> Webhook \<Rightarrow> bool" where
  "in_scope conn w =
     (case truthy [] conn of
        Some c \<Rightarrow> whConnectionId w = Some c \<or> truthy [] (whConnectionId w) = None
      | None \<Rightarrow> truthy [] (whConnectionId w) = None)"

definition mem_getWebhooksByInstance :: "string option \<Rightarrow> webhook_store \<Rightarrow> Webhook list" where
  "mem_getWebhooksByInstance conn s =
     sort_key (\<lambda>w. - whCreatedAt w) (filter (in_scope conn) (map snd (webhooks s)))"

definition sql_in_scope :: "string option \<Rightarrow> Webhook \<Rightarrow> bool" where
  "sql_in_scope conn w =
     (case truthy [] conn of
        Some c \<Rightarrow> whConnectionId w = Some c \<or> whConnectionId w = None
      | None \<Rightarrow> whConnectionId w = None)"

definition sql_getWebhooksByInstance :: "string option \<Rightarrow> webhook_store \<Rightarrow> Webhook list" where
  "sql_getWebhooksByInstance conn s =
     sort_key (\<lambda>w. - whCreatedAt w) (filter (sql_in_scope conn) (map snd (webhooks s)))"

definition mem_getWebhooksByEvent :: "WebhookEventType \<Rightarrow> string option \<Rightarrow> webhook_store \<Rightarrow> Webhook list" where
  "mem_getWebhooksByEvent event conn s =
     filter (in_scope conn) (filter (\<lambda>w. whEnabled w \<and> event \<in> set (whEvents w)) (map snd (webhooks s)))"

definition sql_getWebhooksByEvent :: "WebhookEventType \<Rightarrow> string option \<Rightarrow> webhook_store \<Rightarrow> Webhook list" where
  "sql_getWebhooksByEvent event conn s =
     filter (\<lambda>w. event \<in> set (whEvents w)) (filter (\<lambda>w. whEnabled w \<and> sql_in_scope conn w) (map snd (webhooks s)))"

text \<open>An update: a field that is absent or undefined keeps its value in both repositories.\<close>

record WebhookUpdates =
  uwName :: "string option"
  uwUrl :: "string option"
  uwSecret :: "string option"
  uwEnabled :: "bool option"
  uwEvents :: "WebhookEventType list option"
  uwHeaders :: "(string, string) jsmap option"
  uwRetryPolicy :: "RetryPolicy option"
  uwDeliveryConfig :: "WebhookDeliveryConfig option"
  uwHysteresisFactor :: "real option"
  uwThresholds :: "(WebhookThresholdKey, real) jsmap option"
  uwConnectionId :: "string option"

definition upd :: "'a option \<Rightarrow> 'a \<Rightarrow> 'a" where
  "upd new old = (case new of None \<Rightarrow> old | Some x \<Rightarrow> x)"

definition apply_webhook :: "WebhookUpdates \<Rightarrow> Webhook \<Rightarrow> Webhook" where
  "apply_webhook u w =
     w \<lparr> whName := upd (uwName u) (whName w), whUrl := upd (uwUrl u) (whUrl w),
         whSecret := upd (map_option Some (uwSecret u)) (whSecret w),
         whEnabled := upd (uwEnabled u) (whEnabled w), whEvents := upd (uwEvents u) (whEvents w),
         whHeaders := upd (uwHeaders u) (whHeaders w),
         whRetryPolicy := upd (uwRetryPolicy u) (whRetryPolicy w),
         whDeliveryConfig := upd (map_option Some (uwDeliveryConfig u)) (whDeliveryConfig w),
         whHysteresisFactor := upd (map_option Some (uwHysteresisFactor u)) (whHysteresisFactor w),
         whThresholds := upd (uwThresholds u) (whThresholds w),
         whConnectionId := upd (map_option Some (uwConnectionId u)) (whConnectionId w) \<rparr>"

definition mem_updateWebhook ::
  "int \<Rightarrow> string \<Rightarrow> WebhookUpdates \<Rightarrow> webhook_store \<Rightarrow> Webhook option \<times> webhook_store" where
  "mem_updateWebhook now wid u s =
     (case js_get (webhooks s) wid of
        None \<Rightarrow> (None, s)
      | Some w \<Rightarrow>
          let new = apply_webhook u w \<lparr> whUpdatedAt := now \<rparr>
          in (Some new, s \<lparr> webhooks := js_set wid new (webhooks s) \<rparr>))"

definition no_updates :: WebhookUpdates where
  "no_updates = \<lparr> uwName = None, uwUrl = None, uwSecret = None, uwEnabled = None, uwEvents = None,
     uwHeaders = None, uwRetryPolicy = None, uwDeliveryConfig = None, uwHysteresisFactor = None,
     uwThresholds = None, uwConnectionId = None \<rparr>"

definition sql_updateWebhook ::
  "int \<Rightarrow> string \<Rightarrow> WebhookUpdates \<Rightarrow> webhook_store \<Rightarrow> Webhook option \<times> webhook_store" where
  "sql_updateWebhook now wid u s =
     (if u = no_updates then (getWebhook wid s, s)
      else case js_get (webhooks s) wid of
          None \<Rightarrow> (None, s)
        | Some w \<Rightarrow>
            let new = apply_webhook u w \<lparr> whUpdatedAt := now \<rparr>
            in (Some new, s \<lparr> webhooks := js_set wid new (webhooks s) \<rparr>))"

text \<open>The memory repository deletes the deliveries itself, the schema of the other cascades.\<close>

definition deleteWebhook :: "string \<Rightarrow> webhook_store \<Rightarrow> bool \<times> webhook_store" where
  "deleteWebhook wid s =
     (if js_has (webhooks s) wid
      then (True, s \<lparr> webhooks := js_delete wid (webhooks s),
                      deliveries := filter (\<lambda>(did, d). dlWebhookId d \<noteq> wid) (deliveries s) \<rparr>)
      else (False, s))"

section \<open>Deliveries\<close>

text \<open>
  The memory repository keeps the newest 1000 deliveries of a webhook, by creation time with later
  insertions last among equals; the other keeps all.
\<close>

definition cap_deliveries :: "string \<Rightarrow> (string, WebhookDelivery) jsmap \<Rightarrow> (string, WebhookDelivery) jsmap" where
  "cap_deliveries wid ds =
     (let own = sort_key (\<lambda>d. - dlCreatedAt d) (filter (\<lambda>d. dlWebhookId d = wid) (map snd ds));
          old = map dlId (drop MAX_DELIVERIES_PER_WEBHOOK own)
      in filter (\<lambda>(did, d). did \<notin> set old) ds)"

definition mem_createDelivery ::
  "string \<Rightarrow> int \<Rightarrow> WebhookDelivery \<Rightarrow> webhook_store \<Rightarrow> (string + WebhookDelivery) \<times> webhook_store" where
  "mem_createDelivery uuid now d s =
     (let new = d \<lparr> dlId := uuid, dlCreatedAt := now \<rparr>
      in (Inr new, s \<lparr> deliveries := cap_deliveries (dlWebhookId d) (js_set uuid new (deliveries s)) \<rparr>))"

definition sql_createDelivery ::
  "string \<Rightarrow> int \<Rightarrow> WebhookDelivery \<Rightarrow> webhook_store \<Rightarrow> (string + WebhookDelivery) \<times> webhook_store" where
  "sql_createDelivery uuid now d s =
     (case truthy [] (dlConnectionId d) of
        None \<Rightarrow> (Inl ''NOT NULL constraint failed: webhook_deliveries.connection_id'', s)
      | Some c \<Rightarrow>
          let new = d \<lparr> dlId := uuid, dlCreatedAt := now \<rparr>
          in (Inr new, s \<lparr> deliveries := js_set uuid new (deliveries s) \<rparr>))"

definition getDelivery :: "string \<Rightarrow> webhook_store \<Rightarrow> WebhookDelivery option" where
  "getDelivery did s = js_get (deliveries s) did"

definition getDeliveriesByWebhook :: "string \<Rightarrow> nat \<Rightarrow> nat \<Rightarrow> webhook_store \<Rightarrow> WebhookDelivery list" where
  "getDeliveriesByWebhook wid cnt off s =
     take cnt (drop off (sort_key (\<lambda>d. - dlCreatedAt d)
       (filter (\<lambda>d. dlWebhookId d = wid) (map snd (deliveries s)))))"

text \<open>
  A partial update. \<open>Some None\<close> is a key that is present with the value undefined, which the
  dispatcher writes for the status code of a request that got no response: the spread of the memory
  repository clears the field, the SQL repository leaves it.
\<close>

record DeliveryUpdates =
  udStatus :: "DeliveryStatus option"
  udStatusCode :: "int option option"
  udResponseBody :: "string option option"
  udAttempts :: "int option"
  udNextRetryAt :: "real option"
  udCompletedAt :: "int option"
  udDurationMs :: "int option"

definition mem_apply :: "DeliveryUpdates \<Rightarrow> WebhookDelivery \<Rightarrow> WebhookDelivery" where
  "mem_apply u d =
     d \<lparr> dlStatus := upd (udStatus u) (dlStatus d),
         dlStatusCode := upd (udStatusCode u) (dlStatusCode d),
         dlResponseBody := upd (udResponseBody u) (dlResponseBody d),
         dlAttempts := upd (udAttempts u) (dlAttempts d),
         dlNextRetryAt := upd (map_option Some (udNextRetryAt u)) (dlNextRetryAt d),
         dlCompletedAt := upd (map_option Some (udCompletedAt u)) (dlCompletedAt d),
         dlDurationMs := upd (map_option Some (udDurationMs u)) (dlDurationMs d) \<rparr>"

definition keep_undefined :: "'a option option \<Rightarrow> 'a option \<Rightarrow> 'a option" where
  "keep_undefined new old = (case new of Some (Some x) \<Rightarrow> Some x | _ \<Rightarrow> old)"

definition sql_apply :: "DeliveryUpdates \<Rightarrow> WebhookDelivery \<Rightarrow> WebhookDelivery" where
  "sql_apply u d =
     d \<lparr> dlStatus := upd (udStatus u) (dlStatus d),
         dlStatusCode := keep_undefined (udStatusCode u) (dlStatusCode d),
         dlResponseBody := keep_undefined (udResponseBody u) (dlResponseBody d),
         dlAttempts := upd (udAttempts u) (dlAttempts d),
         dlNextRetryAt := upd (map_option Some (udNextRetryAt u)) (dlNextRetryAt d),
         dlCompletedAt := upd (map_option Some (udCompletedAt u)) (dlCompletedAt d),
         dlDurationMs := upd (map_option Some (udDurationMs u)) (dlDurationMs d) \<rparr>"

type_synonym apply_update = "DeliveryUpdates \<Rightarrow> WebhookDelivery \<Rightarrow> WebhookDelivery"

definition store_updateDelivery ::
  "apply_update \<Rightarrow> string \<Rightarrow> DeliveryUpdates \<Rightarrow> webhook_store \<Rightarrow> bool \<times> webhook_store" where
  "store_updateDelivery app did u s =
     (case js_get (deliveries s) did of
        None \<Rightarrow> (False, s)
      | Some d \<Rightarrow> (True, s \<lparr> deliveries := js_set did (app u d) (deliveries s) \<rparr>))"

text \<open>Due for retry, the earliest first. The memory repository's truthiness test drops a retry time of 0.\<close>

definition due :: "real \<Rightarrow> WebhookDelivery \<Rightarrow> bool" where
  "due now d \<longleftrightarrow> dlStatus d = RETRYING \<and>
     (case truthy 0 (dlNextRetryAt d) of None \<Rightarrow> False | Some t \<Rightarrow> t \<le> now)"

definition getRetriableDeliveries :: "nat \<Rightarrow> string option \<Rightarrow> real \<Rightarrow> webhook_store \<Rightarrow> WebhookDelivery list" where
  "getRetriableDeliveries cnt conn now s =
     take cnt (sort_key (\<lambda>d. case dlNextRetryAt d of None \<Rightarrow> 0 | Some t \<Rightarrow> t)
       (filter (\<lambda>d. case truthy [] conn of None \<Rightarrow> True | Some c \<Rightarrow> dlConnectionId d = Some c)
         (filter (due now) (map snd (deliveries s)))))"

definition pruneOldDeliveries :: "int \<Rightarrow> string option \<Rightarrow> webhook_store \<Rightarrow> nat \<times> webhook_store" where
  "pruneOldDeliveries cutoff conn s =
     (let old = (\<lambda>(did, d). dlCreatedAt d < cutoff
                   \<and> (case truthy [] conn of None \<Rightarrow> True | Some c \<Rightarrow> dlConnectionId d = Some c))
      in (length (filter old (deliveries s)), s \<lparr> deliveries := filter (\<lambda>x. \<not> old x) (deliveries s) \<rparr>))"

section \<open>The interface\<close>

locale delivery_store =
  fixes app :: apply_update
  assumes app_status: "dlStatus (app u d) = upd (udStatus u) (dlStatus d)"
    and app_attempts: "dlAttempts (app u d) = upd (udAttempts u) (dlAttempts d)"
    and app_next: "dlNextRetryAt (app u d) = upd (map_option Some (udNextRetryAt u)) (dlNextRetryAt d)"
    and app_completed: "dlCompletedAt (app u d) = upd (map_option Some (udCompletedAt u)) (dlCompletedAt d)"
    and app_identity: "dlId (app u d) = dlId d" "dlWebhookId (app u d) = dlWebhookId d"
      "dlPayload (app u d) = dlPayload d" "dlCreatedAt (app u d) = dlCreatedAt d"

interpretation mem_deliveries: delivery_store mem_apply
  by unfold_locales (simp_all add: mem_apply_def)

interpretation sql_deliveries: delivery_store sql_apply
  by unfold_locales (simp_all add: sql_apply_def)

definition delivery_applies :: "apply_update list" where
  "delivery_applies = [mem_apply, sql_apply]"

lemma delivery_applies_store: "app \<in> set delivery_applies \<Longrightarrow> delivery_store app"
  using mem_deliveries.delivery_store_axioms sql_deliveries.delivery_store_axioms
  by (auto simp: delivery_applies_def)

text \<open>The repositories differ on a request without a response: SQL keeps the earlier status code.\<close>

lemma repositories_differ_on_undefined:
  "udStatusCode u = Some None \<Longrightarrow> dlStatusCode d = Some 503 \<Longrightarrow>
     dlStatusCode (mem_apply u d) = None \<and> dlStatusCode (sql_apply u d) = Some 503"
  by (simp add: mem_apply_def sql_apply_def upd_def keep_undefined_def)

section \<open>Scoping and capacity\<close>

text \<open>
  Every webhook of an SQL store belongs to a connection, so a query without a connection, which
  means the global webhooks, finds nothing there.
\<close>

definition scoped :: "webhook_store \<Rightarrow> bool" where
  "scoped s \<longleftrightarrow> (\<forall>(wid, w) \<in> set (webhooks s). truthy [] (whConnectionId w) \<noteq> None)"

lemma truthy_cases [simp]: "truthy z (Some x) = (if x = z then None else Some x)" "truthy z None = None"
  by (simp_all add: truthy_def)

lemma sql_create_scoped: "scoped s \<Longrightarrow> scoped (snd (sql_createWebhook uuid now w s))"
proof (cases "truthy [] (whConnectionId w)")
  case None
  then show "scoped s \<Longrightarrow> scoped (snd (sql_createWebhook uuid now w s))" by (simp add: sql_createWebhook_def)
next
  case (Some c)
  let ?new = "w \<lparr> whId := uuid, whCreatedAt := now, whUpdatedAt := now \<rparr>"
  assume s: "scoped s"
  have "set (js_set uuid ?new (webhooks s)) \<subseteq> insert (uuid, ?new) (set (webhooks s))"
    by (rule set_js_set)
  then show "scoped (snd (sql_createWebhook uuid now w s))"
    using s Some by (auto simp: scoped_def sql_createWebhook_def Let_def)
qed

lemma scoped_no_global: "scoped s \<Longrightarrow> sql_getWebhooksByInstance None s = []"
proof -
  assume s: "scoped s"
  have "\<not> sql_in_scope None w" if "w \<in> set (map snd (webhooks s))" for w
    using that s by (auto simp: scoped_def sql_in_scope_def)
  then have "filter (sql_in_scope None) (map snd (webhooks s)) = []" by (simp add: filter_empty_conv)
  then show ?thesis by (simp add: sql_getWebhooksByInstance_def)
qed

end
