(* ===== verification/Webhook_Alerts.thy ===== *)
theory Webhook_Alerts
  imports Webhook_Store
begin

text \<open>
  Threshold alerts of the webhook dispatcher (src/apps/api/src/webhooks/webhook-dispatcher.service.ts):
  \<open>shouldFireAlert\<close> with its hysteresis, and the per-webhook variant that keeps one state per
  webhook and connection. The state map is an LRU cache of 1000 entries with a time to live of a
  day; when an entry disappears is the cache's business, so it is an event of its own here.
\<close>

record AlertState =
  fired :: bool
  firedAt :: int
  alertValue :: real

definition condition_met :: "bool \<Rightarrow> real \<Rightarrow> real \<Rightarrow> bool" where
  "condition_met isAbove threshold v = (if isAbove then v \<ge> threshold else v \<le> threshold)"

definition recovered :: "bool \<Rightarrow> real \<Rightarrow> real \<Rightarrow> real \<Rightarrow> bool" where
  "recovered isAbove threshold h v =
     (if isAbove then v < threshold * h else v > threshold * (2 - h))"

definition shouldFireAlert ::
  "string \<Rightarrow> real \<Rightarrow> real \<Rightarrow> bool \<Rightarrow> real \<Rightarrow> int \<Rightarrow> (string, AlertState) jsmap \<Rightarrow> bool \<times> (string, AlertState) jsmap" where
  "shouldFireAlert alertKey currentValue threshold isAbove h now states =
     (case js_get states alertKey of
        None \<Rightarrow>
          if condition_met isAbove threshold currentValue
          then (True, js_set alertKey \<lparr> fired = True, firedAt = now, alertValue = currentValue \<rparr> states)
          else (False, states)
      | Some st \<Rightarrow>
          if recovered isAbove threshold h currentValue then (False, js_delete alertKey states)
          else (False, states))"

text \<open>
  \<open>dispatchThresholdAlertPerWebhook\<close>: every subscribed webhook is asked with its own threshold,
  factor and key; the webhooks whose alert fires are sent the event. The state changes of the loop
  are synchronous, in the order of the webhooks.
\<close>

definition alert_key :: "string \<Rightarrow> string option \<Rightarrow> Webhook \<Rightarrow> string" where
  "alert_key prefix conn w =
     (case truthy [] conn of
        Some c \<Rightarrow> prefix @ '':'' @ c @ '':'' @ whId w
      | None \<Rightarrow> prefix @ '':'' @ whId w)"

fun fire_per_webhook ::
  "string \<Rightarrow> real \<Rightarrow> WebhookThresholdKey \<Rightarrow> bool \<Rightarrow> string option \<Rightarrow> int \<Rightarrow> Webhook list
     \<Rightarrow> (string, AlertState) jsmap \<Rightarrow> Webhook list \<times> (string, AlertState) jsmap" where
  "fire_per_webhook prefix v key isAbove conn now [] states = ([], states)"
| "fire_per_webhook prefix v key isAbove conn now (w # ws) states =
     (let (fire, states') = shouldFireAlert (alert_key prefix conn w) v (getThreshold w key) isAbove
                              (getAlertConfig w) now states;
          (hooks, states'') = fire_per_webhook prefix v key isAbove conn now ws states'
      in ((if fire then w # hooks else hooks), states''))"

definition dispatchThresholdAlertPerWebhook ::
  "(WebhookEventType \<Rightarrow> string option \<Rightarrow> webhook_store \<Rightarrow> Webhook list) \<Rightarrow> WebhookEventType \<Rightarrow> string \<Rightarrow> real
     \<Rightarrow> WebhookThresholdKey \<Rightarrow> bool \<Rightarrow> string option \<Rightarrow> int \<Rightarrow> webhook_store \<Rightarrow> (string, AlertState) jsmap
     \<Rightarrow> Webhook list \<times> (string, AlertState) jsmap" where
  "dispatchThresholdAlertPerWebhook byEvent event prefix v key isAbove conn now s states =
     fire_per_webhook prefix v key isAbove conn now (byEvent event conn s) states"

section \<open>The life of one alert\<close>

datatype alert_event = Observed real int | Evicted

definition alert_step ::
  "string \<Rightarrow> real \<Rightarrow> bool \<Rightarrow> real \<Rightarrow> (string, AlertState) jsmap \<Rightarrow> alert_event \<Rightarrow> bool \<times> (string, AlertState) jsmap" where
  "alert_step key threshold isAbove h states e =
     (case e of
        Observed v now \<Rightarrow> shouldFireAlert key v threshold isAbove h now states
      | Evicted \<Rightarrow> (False, js_delete key states))"

definition alert_states_after ::
  "string \<Rightarrow> real \<Rightarrow> bool \<Rightarrow> real \<Rightarrow> alert_event list \<Rightarrow> (string, AlertState) jsmap" where
  "alert_states_after key threshold isAbove h es =
     foldl (\<lambda>states e. snd (alert_step key threshold isAbove h states e)) [] es"

definition fires_at :: "string \<Rightarrow> real \<Rightarrow> bool \<Rightarrow> real \<Rightarrow> alert_event list \<Rightarrow> nat \<Rightarrow> bool" where
  "fires_at key threshold isAbove h es j =
     fst (alert_step key threshold isAbove h (alert_states_after key threshold isAbove h (take j es)) (es ! j))"

primrec breaches :: "bool \<Rightarrow> real \<Rightarrow> alert_event \<Rightarrow> bool" where
  "breaches isAbove threshold (Observed v now) = condition_met isAbove threshold v"
| "breaches isAbove threshold Evicted = False"

primrec rearms :: "bool \<Rightarrow> real \<Rightarrow> real \<Rightarrow> alert_event \<Rightarrow> bool" where
  "rearms isAbove threshold h (Observed v now) = recovered isAbove threshold h v"
| "rearms isAbove threshold h Evicted = True"

lemma alert_step_fires:
  "fst (alert_step key threshold isAbove h states e)
     \<longleftrightarrow> js_get states key = None \<and> breaches isAbove threshold e"
  by (cases e) (auto simp: alert_step_def shouldFireAlert_def split: option.splits)

lemma alert_step_state:
  "js_get (snd (alert_step key threshold isAbove h states e)) key = None
     \<longleftrightarrow> (if js_get states key = None then \<not> breaches isAbove threshold e else rearms isAbove threshold h e)"
  by (cases e) (auto simp: alert_step_def shouldFireAlert_def js_simps split: option.splits)

lemma alert_states_after_Suc:
  "j < length es \<Longrightarrow> alert_states_after key threshold isAbove h (take (Suc j) es)
     = snd (alert_step key threshold isAbove h (alert_states_after key threshold isAbove h (take j es)) (es ! j))"
  by (simp add: alert_states_after_def take_Suc_conv_app_nth)

text \<open>The alert is held after \<open>j\<close> events iff it fired at one of them and nothing re-armed it since.\<close>

lemma alert_held:
  "j \<le> length es \<Longrightarrow>
     js_get (alert_states_after key threshold isAbove h (take j es)) key \<noteq> None
     \<longleftrightarrow> (\<exists>i < j. fires_at key threshold isAbove h es i \<and> (\<forall>k. i < k \<and> k < j \<longrightarrow> \<not> rearms isAbove threshold h (es ! k)))"
proof (induction j)
  case 0
  then show ?case by (simp add: alert_states_after_def)
next
  case (Suc j)
  let ?S = "\<lambda>n. alert_states_after key threshold isAbove h (take n es)"
  let ?F = "fires_at key threshold isAbove h es" and ?R = "\<lambda>k. rearms isAbove threshold h (es ! k)"
  have fires: "?F j \<longleftrightarrow> js_get (?S j) key = None \<and> breaches isAbove threshold (es ! j)"
    unfolding fires_at_def by (rule alert_step_fires)
  have held: "js_get (?S (Suc j)) key = None
      \<longleftrightarrow> (if js_get (?S j) key = None then \<not> breaches isAbove threshold (es ! j) else ?R j)"
    using Suc.prems by (simp add: alert_states_after_Suc alert_step_state)
  show ?case
  proof (cases "js_get (?S j) key = None")
    case True
    have "(\<exists>i < Suc j. ?F i \<and> (\<forall>k. i < k \<and> k < Suc j \<longrightarrow> \<not> ?R k)) \<longleftrightarrow> ?F j"
    proof
      assume "\<exists>i < Suc j. ?F i \<and> (\<forall>k. i < k \<and> k < Suc j \<longrightarrow> \<not> ?R k)"
      then obtain i where i: "i < Suc j" "?F i" "\<forall>k. i < k \<and> k < Suc j \<longrightarrow> \<not> ?R k" by blast
      have "\<not> i < j" using Suc True i by auto
      then show "?F j" using i by (metis less_SucE)
    qed auto
    then show ?thesis using held fires True by simp
  next
    case False
    then obtain i where i: "i < j" "?F i" "\<forall>k. i < k \<and> k < j \<longrightarrow> \<not> ?R k" using Suc by auto
    have "(\<exists>i < Suc j. ?F i \<and> (\<forall>k. i < k \<and> k < Suc j \<longrightarrow> \<not> ?R k)) \<longleftrightarrow> \<not> ?R j"
    proof
      assume "\<exists>i < Suc j. ?F i \<and> (\<forall>k. i < k \<and> k < Suc j \<longrightarrow> \<not> ?R k)"
      then obtain i' where i': "i' < Suc j" "?F i'" "\<forall>k. i' < k \<and> k < Suc j \<longrightarrow> \<not> ?R k" by blast
      then have "i' \<noteq> j" using False fires by auto
      then show "\<not> ?R j" using i' by auto
    next
      assume "\<not> ?R j"
      then have "\<forall>k. i < k \<and> k < Suc j \<longrightarrow> \<not> ?R k" using i(3) by (metis less_SucE)
      then show "\<exists>i < Suc j. ?F i \<and> (\<forall>k. i < k \<and> k < Suc j \<longrightarrow> \<not> ?R k)"
        using i(1,2) less_SucI by blast
    qed
    then show ?thesis using held False by simp
  qed
qed

text \<open>
  C22: over any history of observations and cache evictions, an alert fires at an observation exactly
  when the threshold is breached there and, since every earlier firing, a value has recovered past
  the hysteresis band or the cached state was evicted. So an alert never repeats while its value
  stays inside the band, and a fresh breach after a recovery is never lost.
\<close>

theorem webhook_alert_hysteresis:
  assumes "j < length es"
  shows "fires_at key threshold isAbove h es j \<longleftrightarrow>
    breaches isAbove threshold (es ! j)
    \<and> (\<forall>i < j. fires_at key threshold isAbove h es i \<longrightarrow>
         (\<exists>k. i < k \<and> k < j \<and> rearms isAbove threshold h (es ! k)))"
proof -
  have "fires_at key threshold isAbove h es j \<longleftrightarrow>
      js_get (alert_states_after key threshold isAbove h (take j es)) key = None
      \<and> breaches isAbove threshold (es ! j)"
    unfolding fires_at_def by (rule alert_step_fires)
  then show ?thesis using alert_held [of j es key threshold isAbove h] assms by auto
qed

theorem webhook_alert_hysteresis_witness:
  "fires_at ''k'' 90 True (9 / 10) [Observed 95 0, Observed 85 1, Observed 92 2] 0
   \<and> \<not> fires_at ''k'' 90 True (9 / 10) [Observed 95 0, Observed 85 1, Observed 92 2] 2"
proof
  let ?es = "[Observed 95 0, Observed 85 1, Observed 92 2]"
  show first: "fires_at ''k'' 90 True (9 / 10) ?es 0"
    using webhook_alert_hysteresis [of 0 ?es "''k''" 90 True "9 / 10"] by (simp add: condition_met_def)
  have "\<not> rearms True 90 (9 / 10) (?es ! 1)" by (simp add: recovered_def)
  then have none: "\<not> (\<exists>k. 0 < k \<and> k < 2 \<and> rearms True 90 (9 / 10) (?es ! k))"
    by (metis One_nat_def Suc_1 less_Suc_eq less_one not_less_eq)
  have len: "2 < length ?es" and pos: "(0 :: nat) < 2" by simp_all
  show "\<not> fires_at ''k'' 90 True (9 / 10) ?es 2"
  proof
    assume "fires_at ''k'' 90 True (9 / 10) ?es 2"
    then have "\<forall>i < 2. fires_at ''k'' 90 True (9 / 10) ?es i \<longrightarrow>
        (\<exists>k. i < k \<and> k < 2 \<and> rearms True 90 (9 / 10) (?es ! k))"
      unfolding webhook_alert_hysteresis [OF len] by (rule conjunct2)
    then show False using pos first none by blast
  qed
qed

text \<open>On that history the alert fires at the first and the last observation only.\<close>

lemma webhook_alert_example:
  "map (fires_at ''k'' 90 True (9 / 10) [Observed 95 0, Observed 85 1, Observed 92 2, Observed 80 3, Observed 91 4])
     [0, 1, 2, 3, 4] = [True, False, False, False, True]"
  by code_simp

text \<open>A threshold of zero on values that are never negative: the alert fires once and never recovers.\<close>

lemma zero_threshold_never_recovers: "v \<ge> 0 \<Longrightarrow> \<not> recovered True 0 h v"
  by (simp add: recovered_def)

end
