(* ===== verification/Webhook_Delivery.thy ===== *)
theory Webhook_Delivery
  imports Webhook_Alerts
begin

text \<open>
  The delivery of webhooks: \<open>dispatchToWebhook\<close>, \<open>sendWebhook\<close> and \<open>updateDelivery\<close> of
  src/apps/api/src/webhooks/webhook-dispatcher.service.ts, the retry loop and the manual retry of
  webhook-processor.service.ts and the dead letter queue of
  src/proprietary/webhook-pro/webhook-dlq.service.ts, over either repository of \<open>Webhook_Store\<close>.

  A request is in flight between the moment it is sent and the moment its outcome is recorded, and
  many can be, so the machine is a step relation over the store and the requests in flight. What the
  network answers is the outcome of a request, any of them. Signing is a parameter of the network
  and does not appear.
\<close>

section \<open>One attempt\<close>

text \<open>
  The end of a request: a response with its status and body, a timeout, a network error with its
  message (empty when it has none), or a failure before the request was sent.
\<close>

datatype http_outcome = Responded int string | TimedOut | NetworkError string | PrepareError string

definition send_status :: "http_outcome \<Rightarrow> DeliveryStatus" where
  "send_status out =
     (case out of
        Responded code body \<Rightarrow>
          if 200 \<le> code \<and> code \<le> 299 then SUCCESS
          else if 400 \<le> code \<and> code < 500 then FAILED
          else RETRYING
      | TimedOut \<Rightarrow> RETRYING
      | NetworkError msg \<Rightarrow> RETRYING
      | PrepareError msg \<Rightarrow> FAILED)"

definition send_code :: "http_outcome \<Rightarrow> int option" where
  "send_code out = (case out of Responded code body \<Rightarrow> Some code | _ \<Rightarrow> None)"

definition send_body :: "nat \<Rightarrow> http_outcome \<Rightarrow> string" where
  "send_body maxBytes out =
     take maxBytes (case out of
        Responded code body \<Rightarrow> body
      | TimedOut \<Rightarrow> ''Request timeout''
      | NetworkError msg \<Rightarrow> if msg = [] then ''Network error'' else msg
      | PrepareError msg \<Rightarrow> if msg = [] then ''Unknown error'' else msg)"

definition BLOCKED_HEADERS :: "string list" where
  "BLOCKED_HEADERS = [''host'', ''content-length'', ''transfer-encoding'', ''connection'', ''upgrade'']"

definition to_lower :: "string \<Rightarrow> string" where
  "to_lower s = map (\<lambda>c. let n = (of_char c :: nat) in if 65 \<le> n \<and> n \<le> 90 then char_of (n + 32) else c) s"

definition sanitizeHeaders :: "(string, string) jsmap \<Rightarrow> (string, string) jsmap" where
  "sanitizeHeaders headers = filter (\<lambda>(key, value). to_lower key \<notin> set BLOCKED_HEADERS) headers"

text \<open>The retry delay after attempt number \<open>attempts\<close>.\<close>

definition retry_delay :: "RetryPolicy \<Rightarrow> int \<Rightarrow> real" where
  "retry_delay policy attempts =
     min (initialDelayMs policy * backoffMultiplier policy ^ nat (attempts - 1)) (maxDelayMs policy)"

text \<open>\<open>updateDelivery\<close>: what an attempt writes into the delivery it belongs to.\<close>

definition attempt_updates :: "Webhook \<Rightarrow> http_outcome \<Rightarrow> int \<Rightarrow> int \<Rightarrow> WebhookDelivery \<Rightarrow> DeliveryUpdates" where
  "attempt_updates w out dur now d =
     (let status = send_status out; attempts = dlAttempts d + 1;
          base = \<lparr> udStatus = Some status, udStatusCode = Some (send_code out),
                   udResponseBody = Some (Some (send_body (snd (getDeliveryConfig w)) out)),
                   udAttempts = Some attempts, udNextRetryAt = None,
                   udCompletedAt = (if status = SUCCESS then Some now else None), udDurationMs = Some dur \<rparr>
      in if status = RETRYING \<and> attempts < maxRetries (whRetryPolicy w)
         then base \<lparr> udNextRetryAt := Some (real_of_int now + retry_delay (whRetryPolicy w) attempts) \<rparr>
         else if status = RETRYING
         then base \<lparr> udStatus := Some DEAD_LETTER, udCompletedAt := Some now \<rparr>
         else base)"

definition record_attempt ::
  "apply_update \<Rightarrow> Webhook \<Rightarrow> http_outcome \<Rightarrow> int \<Rightarrow> int \<Rightarrow> string \<Rightarrow> webhook_store \<Rightarrow> webhook_store" where
  "record_attempt app w out dur now did s =
     (case getDelivery did s of
        None \<Rightarrow> s
      | Some d \<Rightarrow> snd (store_updateDelivery app did (attempt_updates w out dur now d) s))"

section \<open>The machine\<close>

record in_flight =
  flId :: string
  flHook :: Webhook
  flPoll :: bool

record delivery_machine =
  dmStore :: webhook_store
  sending :: "in_flight list"

definition getInstanceInfo ::
  "(string \<Rightarrow> (string \<times> int) option) \<Rightarrow> string \<times> int \<Rightarrow> string option \<Rightarrow> string \<times> int" where
  "getInstanceInfo getConfig source conn =
     (case truthy [] conn of
        None \<Rightarrow> source
      | Some c \<Rightarrow> (case getConfig c of None \<Rightarrow> source | Some hp \<Rightarrow> hp))"

definition new_delivery ::
  "string \<times> int \<Rightarrow> string \<Rightarrow> int \<Rightarrow> Webhook \<Rightarrow> WebhookEventType \<Rightarrow> (string, string) jsmap \<Rightarrow> string option \<Rightarrow> WebhookDelivery" where
  "new_delivery inst pid now w event datum conn =
     \<lparr> dlId = [], dlWebhookId = whId w, dlEventType = event,
       dlPayload = \<lparr> plId = pid, plEvent = event, plTimestamp = now, plHost = fst inst, plPort = snd inst,
                     plConnectionId = conn, plData = datum \<rparr>,
       dlStatus = PENDING, dlStatusCode = None, dlResponseBody = None, dlAttempts = 0, dlNextRetryAt = None,
       dlConnectionId = conn, dlCreatedAt = 0, dlCompletedAt = None, dlDurationMs = None \<rparr>"

type_synonym create_delivery =
  "string \<Rightarrow> int \<Rightarrow> WebhookDelivery \<Rightarrow> webhook_store \<Rightarrow> (string + WebhookDelivery) \<times> webhook_store"

definition dispatchToWebhook ::
  "create_delivery \<Rightarrow> (string \<Rightarrow> (string \<times> int) option) \<Rightarrow> string \<times> int \<Rightarrow> string \<Rightarrow> string \<Rightarrow> int \<Rightarrow> Webhook
     \<Rightarrow> WebhookEventType \<Rightarrow> (string, string) jsmap \<Rightarrow> string option \<Rightarrow> delivery_machine \<Rightarrow> delivery_machine" where
  "dispatchToWebhook create getConfig source pid uuid now w event datum conn m =
     (if \<not> whEnabled w then m
      else case create uuid now (new_delivery (getInstanceInfo getConfig source conn) pid now w event datum conn) (dmStore m) of
          (Inl e, s) \<Rightarrow> m \<lparr> dmStore := s \<rparr>
        | (Inr d, s) \<Rightarrow>
            m \<lparr> dmStore := s, sending := sending m @ [\<lparr> flId = dlId d, flHook = w, flPoll = False \<rparr>] \<rparr>)"

definition failed_update :: "string \<Rightarrow> int \<Rightarrow> DeliveryUpdates" where
  "failed_update body now =
     \<lparr> udStatus = Some FAILED, udStatusCode = None, udResponseBody = Some (Some body), udAttempts = None,
       udNextRetryAt = None, udCompletedAt = Some now, udDurationMs = None \<rparr>"

text \<open>A retry up to its request: a webhook that is gone or disabled fails the delivery.\<close>

definition retryDelivery ::
  "apply_update \<Rightarrow> bool \<Rightarrow> int \<Rightarrow> delivery_machine \<Rightarrow> WebhookDelivery \<Rightarrow> delivery_machine" where
  "retryDelivery app poll now m d =
     (case getWebhook (dlWebhookId d) (dmStore m) of
        None \<Rightarrow> m \<lparr> dmStore := snd (store_updateDelivery app (dlId d)
                   (failed_update (''Webhook with ID '' @ dlWebhookId d @ '' not found'') now) (dmStore m)) \<rparr>
      | Some w \<Rightarrow>
          if \<not> whEnabled w
          then m \<lparr> dmStore := snd (store_updateDelivery app (dlId d)
                   (failed_update ''Webhook disabled'' now) (dmStore m)) \<rparr>
          else m \<lparr> sending := sending m @ [\<lparr> flId = dlId d, flHook = w, flPoll = poll \<rparr>] \<rparr>)"

definition MAX_CONCURRENT_RETRIES :: nat where "MAX_CONCURRENT_RETRIES = 10"

text \<open>One cycle of the processor; the flag isProcessing is up while a request of a cycle is in flight.\<close>

definition processRetries :: "apply_update \<Rightarrow> int \<Rightarrow> delivery_machine \<Rightarrow> bool \<times> delivery_machine" where
  "processRetries app now m =
     (if list_ex flPoll (sending m) then (False, m)
      else let batch = getRetriableDeliveries MAX_CONCURRENT_RETRIES None (real_of_int now) (dmStore m)
           in (batch \<noteq> [], foldl (retryDelivery app True now) m batch))"

datatype retry_error = DeliveryNotFound | AlreadyDelivered | WebhookNotFound | MaxAttemptsReached

definition manualRetry ::
  "apply_update \<Rightarrow> int \<Rightarrow> string \<Rightarrow> delivery_machine \<Rightarrow> retry_error + delivery_machine" where
  "manualRetry app now did m =
     (case getDelivery did (dmStore m) of
        None \<Rightarrow> Inl DeliveryNotFound
      | Some d \<Rightarrow>
          if dlStatus d = SUCCESS then Inl AlreadyDelivered
          else case getWebhook (dlWebhookId d) (dmStore m) of
              None \<Rightarrow> Inl WebhookNotFound
            | Some w \<Rightarrow>
                if dlAttempts d \<ge> maxRetries (whRetryPolicy w) then Inl MaxAttemptsReached
                else Inr (retryDelivery app False now
                       (m \<lparr> dmStore := snd (store_updateDelivery app did
                          \<lparr> udStatus = Some RETRYING, udStatusCode = None, udResponseBody = None, udAttempts = None,
                            udNextRetryAt = Some (real_of_int now), udCompletedAt = None, udDurationMs = None \<rparr>
                          (dmStore m)) \<rparr>) d))"

text \<open>The outcome of a request arrives and is recorded with the webhook the request was sent for.\<close>

definition answer :: "apply_update \<Rightarrow> in_flight \<Rightarrow> http_outcome \<Rightarrow> int \<Rightarrow> int \<Rightarrow> delivery_machine \<Rightarrow> delivery_machine" where
  "answer app f out dur now m =
     m \<lparr> dmStore := record_attempt app (flHook f) out dur now (flId f) (dmStore m),
         sending := remove1 f (sending m) \<rparr>"

section \<open>A delivery that keeps failing\<close>

fun failing_attempts ::
  "apply_update \<Rightarrow> Webhook \<Rightarrow> string \<Rightarrow> (http_outcome \<times> int \<times> int) list \<Rightarrow> webhook_store \<Rightarrow> webhook_store" where
  "failing_attempts app w did [] s = s"
| "failing_attempts app w did ((out, dur, now) # outs) s =
     failing_attempts app w did outs (record_attempt app w out dur now did s)"

context delivery_store
begin

lemma record_attempt_get:
  assumes "getDelivery did s = Some d"
  shows "\<exists>d'. getDelivery did (record_attempt app w out dur now did s) = Some d'
    \<and> d' = app (attempt_updates w out dur now d) d"
  using assms by (simp add: record_attempt_def getDelivery_def store_updateDelivery_def js_simps)

lemma retrying_attempt:
  assumes d: "getDelivery did s = Some d" and out: "send_status out = RETRYING"
  shows "\<exists>d'. getDelivery did (record_attempt app w out dur now did s) = Some d'
    \<and> dlAttempts d' = dlAttempts d + 1
    \<and> (if dlAttempts d + 1 < maxRetries (whRetryPolicy w)
       then dlStatus d' = RETRYING
         \<and> dlNextRetryAt d' = Some (real_of_int now + retry_delay (whRetryPolicy w) (dlAttempts d + 1))
       else dlStatus d' = DEAD_LETTER \<and> dlCompletedAt d' = Some now)"
  using record_attempt_get [OF d, of w out dur now] out
  by (auto simp: attempt_updates_def app_status app_attempts app_next app_completed upd_def Let_def)

lemma failing_attempts_count:
  assumes "getDelivery did s = Some d" and "\<forall>(out, dur, now) \<in> set outs. send_status out = RETRYING"
  shows "\<exists>d'. getDelivery did (failing_attempts app w did outs s) = Some d'
    \<and> dlAttempts d' = dlAttempts d + int (length outs)
    \<and> (outs \<noteq> [] \<longrightarrow> dlStatus d' = (if dlAttempts d' < maxRetries (whRetryPolicy w) then RETRYING else DEAD_LETTER))"
  using assms
proof (induction outs arbitrary: s d)
  case (Cons o1 outs)
  obtain out dur now where o1: "o1 = (out, dur, now)" by (cases o1)
  obtain d1 where d1: "getDelivery did (record_attempt app w out dur now did s) = Some d1"
    "dlAttempts d1 = dlAttempts d + 1"
    "dlStatus d1 = (if dlAttempts d1 < maxRetries (whRetryPolicy w) then RETRYING else DEAD_LETTER)"
    using retrying_attempt [OF Cons.prems(1), of out w dur now] Cons.prems(2) o1 by (auto split: if_splits)
  show ?case
  proof (cases "outs = []")
    case True
    then show ?thesis using d1 o1 by simp
  next
    case False
    then show ?thesis using Cons.IH [OF d1(1)] Cons.prems(2) d1(2) o1 by auto
  qed
qed simp

end

text \<open>
  C20: a delivery whose every attempt fails with a retriable outcome is dead-lettered by attempt
  number \<open>max 1 maxRetries\<close>, the first attempt included, and not before: after \<open>n\<close> attempts it has
  counted \<open>n\<close> and is still retrying iff \<open>n\<close> is below the limit of its policy. (The retry table of
  docs/webhooks.md counts the retries only: four attempts for the default limit of 3, where the code
  makes three.) The backoff before a retry never exceeds the
  policy's maximum. So the retry loop of a delivery ends, in both repositories.
\<close>

theorem webhook_retries_end:
  assumes app: "app \<in> set delivery_applies"
    and d: "getDelivery did s = Some d" "dlAttempts d = 0"
    and outs: "\<forall>(out, dur, now) \<in> set outs. send_status out = RETRYING" "outs \<noteq> []"
  shows "(\<exists>d'. getDelivery did (failing_attempts app w did outs s) = Some d'
      \<and> dlAttempts d' = int (length outs)
      \<and> dlStatus d' = (if int (length outs) < maxRetries (whRetryPolicy w) then RETRYING else DEAD_LETTER))
    \<and> retry_delay (whRetryPolicy w) n \<le> maxDelayMs (whRetryPolicy w)"
  using delivery_store.failing_attempts_count [OF delivery_applies_store [OF app] d(1) outs(1), of w] d(2) outs(2)
  by (auto simp: retry_delay_def)

definition demo_hook :: Webhook where
  "demo_hook = \<lparr> whId = ''w1'', whName = ''n'', whUrl = ''u'', whSecret = None, whEnabled = True,
     whEvents = [INSTANCE_DOWN], whHeaders = [], whRetryPolicy = DEFAULT_RETRY_POLICY, whDeliveryConfig = None,
     whHysteresisFactor = None, whThresholds = [], whConnectionId = Some ''c1'', whCreatedAt = 0, whUpdatedAt = 0 \<rparr>"

definition demo_delivery :: WebhookDelivery where
  "demo_delivery = new_delivery (''h'', 1) ''p'' 0 demo_hook INSTANCE_DOWN [] (Some ''c1'') \<lparr> dlId := ''d1'' \<rparr>"

definition demo_store :: webhook_store where
  "demo_store = \<lparr> webhooks = [(''w1'', demo_hook)], deliveries = [(''d1'', demo_delivery)] \<rparr>"

theorem webhook_retries_end_witness:
  "(\<exists>d'. getDelivery ''d1'' (failing_attempts sql_apply demo_hook ''d1''
        [(TimedOut, 1, 10), (Responded 503 ''busy'', 1, 2000), (NetworkError [], 1, 5000)] demo_store) = Some d'
      \<and> dlAttempts d' = 3 \<and> dlStatus d' = DEAD_LETTER)
   \<and> retry_delay DEFAULT_RETRY_POLICY 9 \<le> 60000"
proof -
  let ?outs = "[(TimedOut, 1, 10), (Responded 503 ''busy'', 1, 2000), (NetworkError [], 1, 5000)]"
  have repo: "sql_apply \<in> set delivery_applies" by (simp add: delivery_applies_def)
  have d: "getDelivery ''d1'' demo_store = Some demo_delivery" by (simp add: getDelivery_def demo_store_def)
  have zero: "dlAttempts demo_delivery = 0" by (simp add: demo_delivery_def new_delivery_def)
  have outs: "\<forall>(out, dur, now) \<in> set ?outs. send_status out = RETRYING" by (simp add: send_status_def)
  have policy: "whRetryPolicy demo_hook = DEFAULT_RETRY_POLICY" by (simp add: demo_hook_def)
  show ?thesis
    using webhook_retries_end [OF repo d zero outs, of demo_hook 9] unfolding policy
    by (simp add: DEFAULT_RETRY_POLICY_def)
qed

end
