(* ===== verification/Webhook_Machine.thy ===== *)
theory Webhook_Machine
  imports Webhook_Delivery
begin

text \<open>
  The delivery machine in motion: dispatches, answers, cycles of the retry processor, changes of the
  webhooks, pruning and restarts, in any order. The invariant says that a delivery is never in
  flight twice and that its attempts stay within the policies; settled deliveries stay settled.
  Then the dead letter queue and the manual retry, and what they miss.
\<close>

section \<open>Steps\<close>

text \<open>\<open>bound\<close> is an upper bound of the retry limits of the webhooks that ever exist.\<close>

definition policies_within :: "int \<Rightarrow> webhook_store \<Rightarrow> bool" where
  "policies_within bound s \<longleftrightarrow> (\<forall>(wid, w) \<in> set (webhooks s). maxRetries (whRetryPolicy w) \<le> bound)"

definition unused_id :: "string \<Rightarrow> delivery_machine \<Rightarrow> bool" where
  "unused_id uuid m \<longleftrightarrow> \<not> js_has (deliveries (dmStore m)) uuid \<and> uuid \<notin> flId ` set (sending m)"

inductive delivery_step ::
  "apply_update \<Rightarrow> create_delivery \<Rightarrow> int \<Rightarrow> delivery_machine \<Rightarrow> delivery_machine \<Rightarrow> bool"
  for app create bound where
  dispatched: "unused_id uuid m \<Longrightarrow> maxRetries (whRetryPolicy w) \<le> bound \<Longrightarrow>
    delivery_step app create bound m (dispatchToWebhook create getConfig source pid uuid now w event datum conn m)"
| answered: "f \<in> set (sending m) \<Longrightarrow> delivery_step app create bound m (answer app f out dur now m)"
| polled: "delivery_step app create bound m (snd (processRetries app now m))"
| webhooks_changed: "policies_within bound \<lparr> webhooks = ws, deliveries = [] \<rparr> \<Longrightarrow>
    delivery_step app create bound m (m \<lparr> dmStore := \<lparr> webhooks = ws,
      deliveries = filter (\<lambda>(did, d). P (dlWebhookId d)) (deliveries (dmStore m)) \<rparr> \<rparr>)"
| pruned: "delivery_step app create bound m (m \<lparr> dmStore := snd (pruneOldDeliveries cutoff conn (dmStore m)) \<rparr>)"
| restarted: "delivery_step app create bound m (m \<lparr> sending := [] \<rparr>)"

section \<open>The invariant\<close>

definition delivery_ok :: "int \<Rightarrow> WebhookDelivery \<Rightarrow> bool" where
  "delivery_ok bound d \<longleftrightarrow> 0 \<le> dlAttempts d \<and> dlAttempts d \<le> max 1 bound
     \<and> (dlStatus d = PENDING \<longrightarrow> dlAttempts d = 0)
     \<and> (dlStatus d = RETRYING \<longrightarrow> dlAttempts d < bound)"

definition flight_ok :: "int \<Rightarrow> webhook_store \<Rightarrow> in_flight \<Rightarrow> bool" where
  "flight_ok bound s f \<longleftrightarrow> maxRetries (whRetryPolicy (flHook f)) \<le> bound
     \<and> (\<forall>d. getDelivery (flId f) s = Some d \<longrightarrow> dlStatus d = (if flPoll f then RETRYING else PENDING))"

definition store_ok :: "int \<Rightarrow> webhook_store \<Rightarrow> bool" where
  "store_ok bound s \<longleftrightarrow> wf_map (deliveries s) \<and> policies_within bound s
     \<and> (\<forall>(did, d) \<in> set (deliveries s). dlId d = did \<and> delivery_ok bound d)"

definition machine_ok :: "int \<Rightarrow> delivery_machine \<Rightarrow> bool" where
  "machine_ok bound m \<longleftrightarrow> store_ok bound (dmStore m) \<and> distinct (map flId (sending m))
     \<and> (\<forall>f \<in> set (sending m). flight_ok bound (dmStore m) f)"

lemma store_ok_get:
  "store_ok bound s \<Longrightarrow> getDelivery did s = Some d \<Longrightarrow> dlId d = did \<and> delivery_ok bound d"
  by (auto simp: store_ok_def getDelivery_def dest: map_of_SomeD)

lemma store_ok_sub:
  assumes s: "store_ok bound s" and sub: "set (deliveries s') \<subseteq> set (deliveries s)"
    and wf: "wf_map (deliveries s')" and pol: "policies_within bound s'"
  shows "store_ok bound s'"
  using assms by (auto simp: store_ok_def)

lemma flight_ok_sub:
  assumes f: "flight_ok bound s f" and s: "store_ok bound s"
    and sub: "set (deliveries s') \<subseteq> set (deliveries s)"
  shows "flight_ok bound s' f"
proof -
  have "getDelivery (flId f) s = Some d" if "getDelivery (flId f) s' = Some d" for d
  proof -
    have "(flId f, d) \<in> set (deliveries s)"
      using that sub by (auto simp: getDelivery_def dest: map_of_SomeD)
    moreover have wf: "wf_map (deliveries s)" using s by (simp add: store_ok_def)
    ultimately show ?thesis using js_get_in_set [OF wf] by (simp add: getDelivery_def)
  qed
  then show ?thesis using f by (auto simp: flight_ok_def)
qed

lemma machine_ok_sub:
  assumes m: "machine_ok bound m" and sub: "set (deliveries s') \<subseteq> set (deliveries (dmStore m))"
    and wf: "wf_map (deliveries s')" and pol: "policies_within bound s'"
  shows "machine_ok bound (m \<lparr> dmStore := s' \<rparr>)"
  using m store_ok_sub [OF _ sub wf pol] flight_ok_sub [OF _ _ sub]
  by (auto simp: machine_ok_def)

lemma get_update:
  "getDelivery did (snd (store_updateDelivery app did' u s))
     = (if did = did' then map_option (app u) (getDelivery did s) else getDelivery did s)"
  by (auto simp: getDelivery_def store_updateDelivery_def js_simps split: option.splits)

lemma wf_update: "wf_map (deliveries s) \<Longrightarrow> wf_map (deliveries (snd (store_updateDelivery app did u s)))"
  by (simp add: store_updateDelivery_def split: option.splits)

lemma webhooks_update [simp]: "webhooks (snd (store_updateDelivery app did u s)) = webhooks s"
  by (simp add: store_updateDelivery_def split: option.splits)

text \<open>An update of one delivery that keeps its identity and its bounds keeps the store in order.\<close>

lemma store_ok_update:
  assumes s: "store_ok bound s"
    and new: "\<And>d. getDelivery did s = Some d \<Longrightarrow> dlId (app u d) = dlId d \<and> delivery_ok bound (app u d)"
  shows "store_ok bound (snd (store_updateDelivery app did u s))"
proof -
  let ?s = "snd (store_updateDelivery app did u s)"
  have wf: "wf_map (deliveries ?s)" using s wf_update by (simp add: store_ok_def)
  have "dlId d = k \<and> delivery_ok bound d" if "(k, d) \<in> set (deliveries ?s)" for k d
  proof -
    have "getDelivery k ?s = Some d" using that js_get_in_set [OF wf] by (simp add: getDelivery_def)
    then show ?thesis using new store_ok_get [OF s, of k] by (auto simp: get_update split: if_splits)
  qed
  then show ?thesis using wf s by (auto simp: store_ok_def policies_within_def)
qed

locale delivery_repo = delivery_store app for app +
  fixes create :: create_delivery
  assumes create_new: "create uuid now d s = (Inr new, s') \<Longrightarrow> new = d \<lparr> dlId := uuid, dlCreatedAt := now \<rparr>"
    and create_webhooks: "create uuid now d s = (r, s') \<Longrightarrow> webhooks s' = webhooks s"
    and create_wf: "create uuid now d s = (r, s') \<Longrightarrow> wf_map (deliveries s) \<Longrightarrow> wf_map (deliveries s')"
    and create_sub: "create uuid now d s = (Inr new, s') \<Longrightarrow>
        set (deliveries s') \<subseteq> insert (uuid, new) (set (deliveries s))"
    and create_error: "create uuid now d s = (Inl e, s') \<Longrightarrow> s' = s"

interpretation mem_repo: delivery_repo mem_apply mem_createDelivery
proof unfold_locales
  fix uuid now d s new s'
  assume "mem_createDelivery uuid now d s = (Inr new, s')"
  then show "set (deliveries s') \<subseteq> insert (uuid, new) (set (deliveries s))"
    using set_js_set [of uuid new "deliveries s"] by (auto simp: mem_createDelivery_def cap_deliveries_def Let_def)
qed (auto simp: mem_createDelivery_def cap_deliveries_def Let_def)

interpretation sql_repo: delivery_repo sql_apply sql_createDelivery
proof unfold_locales
  fix uuid now d s new s'
  assume "sql_createDelivery uuid now d s = (Inr new, s')"
  then show "set (deliveries s') \<subseteq> insert (uuid, new) (set (deliveries s))"
    using set_js_set [of uuid new "deliveries s"] by (auto simp: sql_createDelivery_def Let_def split: option.splits)
qed (auto simp: sql_createDelivery_def Let_def split: option.splits)


text \<open>A delivery with its final status.\<close>

definition settled :: "WebhookDelivery \<Rightarrow> bool" where
  "settled d \<longleftrightarrow> dlStatus d \<in> {SUCCESS, FAILED, DEAD_LETTER}"

section \<open>Every step keeps the invariant\<close>

text \<open>The batch of a poll: retrying deliveries, none of them in flight, each once.\<close>

definition batch_ok :: "delivery_machine \<Rightarrow> WebhookDelivery list \<Rightarrow> bool" where
  "batch_ok m batch \<longleftrightarrow> distinct (map dlId batch)
     \<and> (\<forall>d \<in> set batch. getDelivery (dlId d) (dmStore m) = Some d \<and> dlStatus d = RETRYING
          \<and> dlId d \<notin> flId ` set (sending m))"

context delivery_repo
begin

lemma attempt_ok:
  assumes d: "delivery_ok bound d" "dlStatus d = PENDING \<or> dlStatus d = RETRYING"
    and w: "maxRetries (whRetryPolicy w) \<le> bound"
  shows "dlId (app (attempt_updates w out dur now d) d) = dlId d
    \<and> delivery_ok bound (app (attempt_updates w out dur now d) d)"
proof -
  let ?d = "app (attempt_updates w out dur now d) d"
  have attempts: "dlAttempts ?d = dlAttempts d + 1"
    by (simp add: app_attempts attempt_updates_def Let_def upd_def)
  have status: "dlStatus ?d \<noteq> PENDING"
    "dlStatus ?d = RETRYING \<Longrightarrow> dlAttempts d + 1 < maxRetries (whRetryPolicy w)"
    by (auto simp: app_status attempt_updates_def Let_def upd_def send_status_def
        split: http_outcome.splits if_splits)
  show ?thesis using d w attempts status by (auto simp: delivery_ok_def app_identity)
qed

lemma failed_ok: "delivery_ok bound d \<Longrightarrow> dlId (app (failed_update b now) d) = dlId d
    \<and> delivery_ok bound (app (failed_update b now) d)"
  by (simp add: delivery_ok_def app_status app_attempts app_identity failed_update_def upd_def)

lemma machine_ok_answered:
  assumes m: "machine_ok bound m" and f: "f \<in> set (sending m)"
  shows "machine_ok bound (answer app f out dur now m)"
proof -
  let ?s = "record_attempt app (flHook f) out dur now (flId f) (dmStore m)"
  have fo: "flight_ok bound (dmStore m) f" and so: "store_ok bound (dmStore m)"
    and dist: "distinct (map flId (sending m))"
    using m f by (simp_all add: machine_ok_def)
  have get: "getDelivery i ?s = (if i = flId f then map_option (\<lambda>d. app (attempt_updates (flHook f) out dur now d) d)
      (getDelivery i (dmStore m)) else getDelivery i (dmStore m))" for i
    by (auto simp: record_attempt_def get_update split: option.splits)
  have store: "store_ok bound ?s"
  proof (cases "getDelivery (flId f) (dmStore m)")
    case None
    then show ?thesis using so by (simp add: record_attempt_def)
  next
    case (Some d)
    have "dlStatus d = PENDING \<or> dlStatus d = RETRYING" "maxRetries (whRetryPolicy (flHook f)) \<le> bound"
      using fo Some by (auto simp: flight_ok_def)
    then show ?thesis using Some so store_ok_get [OF so Some] attempt_ok [of bound d]
      by (auto simp: record_attempt_def intro!: store_ok_update)
  qed
  have other: "flight_ok bound ?s g" if g: "g \<in> set (remove1 f (sending m))" for g
  proof -
    have gm: "g \<in> set (sending m)" using g notin_set_remove1 by fast
    have "flId g \<noteq> flId f"
    proof
      assume "flId g = flId f"
      moreover have "distinct (sending m)" using dist by (simp add: distinct_map)
      then have "g \<noteq> f" using g by simp
      ultimately show False using gm f dist by (auto simp: distinct_map inj_on_def)
    qed
    then show ?thesis using m gm by (simp add: machine_ok_def flight_ok_def get)
  qed
  have "distinct (map flId (remove1 f (sending m)))"
    using dist f by (auto simp: distinct_map distinct_remove1 inj_on_def dest: notin_set_remove1 [of _ _ f])
  then show ?thesis using store other by (simp add: machine_ok_def answer_def)
qed

lemma retry_step_ok:
  assumes m: "machine_ok bound m" and b: "batch_ok m (d # batch)"
  shows "machine_ok bound (retryDelivery app True now m d) \<and> batch_ok (retryDelivery app True now m d) batch"
proof -
  have so: "store_ok bound (dmStore m)" using m by (simp add: machine_ok_def)
  have all: "\<forall>x \<in> set (d # batch). getDelivery (dlId x) (dmStore m) = Some x \<and> dlStatus x = RETRYING
      \<and> dlId x \<notin> flId ` set (sending m)"
    and dist: "distinct (map dlId (d # batch))"
    by (rule conjunct2 [OF b [unfolded batch_ok_def]], rule conjunct1 [OF b [unfolded batch_ok_def]])
  have d: "getDelivery (dlId d) (dmStore m) = Some d" "dlStatus d = RETRYING" "dlId d \<notin> flId ` set (sending m)"
    using bspec [OF all, of d] by simp_all
  have rest: "distinct (map dlId batch)" "dlId d \<notin> dlId ` set batch" using dist by simp_all
  have each: "getDelivery (dlId x) (dmStore m) = Some x" "dlStatus x = RETRYING"
    "dlId x \<notin> flId ` set (sending m)" if x: "x \<in> set batch" for x
    using bspec [OF all, of x] x by simp_all
  have other: "dlId x \<noteq> dlId d" if x: "x \<in> set batch" for x
  proof
    assume "dlId x = dlId d"
    then show False using rest(2) imageI [OF x, of dlId] by simp
  qed
  have failed: "machine_ok bound (m \<lparr> dmStore := snd (store_updateDelivery app (dlId d) (failed_update msg now) (dmStore m)) \<rparr>)
      \<and> batch_ok (m \<lparr> dmStore := snd (store_updateDelivery app (dlId d) (failed_update msg now) (dmStore m)) \<rparr>) batch" for msg
  proof
    let ?s = "snd (store_updateDelivery app (dlId d) (failed_update msg now) (dmStore m))"
    have "store_ok bound ?s"
    proof (rule store_ok_update [OF so])
      fix x assume "getDelivery (dlId d) (dmStore m) = Some x"
      then have "delivery_ok bound x" using store_ok_get [OF so] by blast
      then show "dlId (app (failed_update msg now) x) = dlId x \<and> delivery_ok bound (app (failed_update msg now) x)"
        by (rule failed_ok)
    qed
    moreover have "flight_ok bound ?s f" if f: "f \<in> set (sending m)" for f
    proof -
      have "flId f \<in> flId ` set (sending m)" using f by (rule imageI)
      then have "flId f \<noteq> dlId d" using d(3) by auto
      then show ?thesis using f m by (simp add: machine_ok_def flight_ok_def get_update)
    qed
    ultimately show "machine_ok bound (m \<lparr> dmStore := ?s \<rparr>)" using m by (simp add: machine_ok_def)
    show "batch_ok (m \<lparr> dmStore := ?s \<rparr>) batch"
      unfolding batch_ok_def by (auto simp: get_update each other rest(1))
  qed
  show ?thesis
  proof (cases "getWebhook (dlWebhookId d) (dmStore m)")
    case None
    then show ?thesis using failed by (simp add: retryDelivery_def)
  next
    case (Some w)
    show ?thesis
    proof (cases "whEnabled w")
      case False
      then show ?thesis using failed Some by (simp add: retryDelivery_def)
    next
      case True
      let ?f = "\<lparr> flId = dlId d, flHook = w, flPoll = True \<rparr>"
      have "maxRetries (whRetryPolicy w) \<le> bound"
        using so Some by (auto simp: store_ok_def policies_within_def getWebhook_def dest: map_of_SomeD)
      then have "flight_ok bound (dmStore m) ?f" using d by (simp add: flight_ok_def)
      moreover have "distinct (map flId (sending m @ [?f]))" using m d(3) by (auto simp: machine_ok_def)
      ultimately have "machine_ok bound (m \<lparr> sending := sending m @ [?f] \<rparr>)"
        using m by (auto simp: machine_ok_def)
      moreover have "batch_ok (m \<lparr> sending := sending m @ [?f] \<rparr>) batch"
        unfolding batch_ok_def by (auto simp: each rest(1) dest: other)
      ultimately show ?thesis using Some True by (simp add: retryDelivery_def)
    qed
  qed
qed

lemma retry_fold_ok:
  "machine_ok bound m \<Longrightarrow> batch_ok m batch \<Longrightarrow> machine_ok bound (foldl (retryDelivery app True now) m batch)"
proof (induction batch arbitrary: m)
  case (Cons d batch)
  show ?case using Cons.IH retry_step_ok [OF Cons.prems] by simp
qed simp


lemma poll_batch_ok:
  assumes m: "machine_ok bound m" and idle: "\<not> list_ex flPoll (sending m)"
  shows "batch_ok m (getRetriableDeliveries n None now (dmStore m))"
proof -
  let ?due = "filter (due now) (map snd (deliveries (dmStore m)))"
  let ?sorted = "sort_key (\<lambda>d. case dlNextRetryAt d of None \<Rightarrow> 0 | Some t \<Rightarrow> t) ?due"
  have batch: "getRetriableDeliveries n None now (dmStore m) = take n ?sorted"
    by (simp add: getRetriableDeliveries_def)
  have so: "store_ok bound (dmStore m)" using m by (simp add: machine_ok_def)
  have ids: "map dlId (map snd (deliveries (dmStore m))) = map fst (deliveries (dmStore m))"
    using so by (auto simp: store_ok_def)
  have "distinct (map dlId (map snd (deliveries (dmStore m))))"
    unfolding ids using so by (simp add: store_ok_def wf_map_def)
  then have "distinct (map dlId ?due)" by (rule distinct_map_filter)
  then have "distinct (map dlId ?sorted)" by (simp add: distinct_map)
  then have dist: "distinct (map dlId (take n ?sorted))" by (simp add: distinct_take flip: take_map)
  have each: "getDelivery (dlId d) (dmStore m) = Some d \<and> dlStatus d = RETRYING \<and> dlId d \<notin> flId ` set (sending m)"
    if d: "d \<in> set (take n ?sorted)" for d
  proof -
    have d': "d \<in> snd ` set (deliveries (dmStore m))" and retrying: "dlStatus d = RETRYING"
      using in_set_takeD [OF d] by (auto simp: due_def)
    obtain k where k: "(k, d) \<in> set (deliveries (dmStore m))" using d' by auto
    have wf: "wf_map (deliveries (dmStore m))" and kd: "k = dlId d" using so k by (auto simp: store_ok_def)
    have get: "getDelivery (dlId d) (dmStore m) = Some d"
      using k kd js_get_in_set [OF wf] by (simp add: getDelivery_def)
    have "dlId d \<notin> flId ` set (sending m)"
    proof
      assume "dlId d \<in> flId ` set (sending m)"
      then obtain f where f: "f \<in> set (sending m)" "flId f = dlId d" by auto
      then have "flight_ok bound (dmStore m) f" "\<not> flPoll f" using m idle by (auto simp: machine_ok_def list_ex_iff)
      then show False using get f(2) retrying by (auto simp: flight_ok_def)
    qed
    then show ?thesis using get retrying by simp
  qed
  show ?thesis unfolding batch batch_ok_def using dist each by blast
qed

lemma machine_ok_polled:
  assumes m: "machine_ok bound m"
  shows "machine_ok bound (snd (processRetries app now m))"
  using m retry_fold_ok [OF m poll_batch_ok [OF m]] by (simp add: processRetries_def Let_def)

lemma create_get:
  assumes c: "create uuid now d0 s = (Inr new, s')" and wf: "wf_map (deliveries s)"
    and get: "getDelivery i s' = Some d"
  shows "d = new \<and> i = uuid \<or> getDelivery i s = Some d"
proof -
  have "(i, d) \<in> insert (uuid, new) (set (deliveries s))"
    using get create_sub [OF c] by (auto simp: getDelivery_def dest: map_of_SomeD)
  then show ?thesis using js_get_in_set [OF wf, of i d] by (auto simp: getDelivery_def)
qed

lemma machine_ok_dispatched:
  assumes m: "machine_ok bound m" and id: "unused_id uuid m"
    and w: "maxRetries (whRetryPolicy w) \<le> bound"
  shows "machine_ok bound (dispatchToWebhook create getConfig source pid uuid now w event datum conn m)"
proof (cases "whEnabled w")
  case True
  let ?d = "new_delivery (getInstanceInfo getConfig source conn) pid now w event datum conn"
  obtain r s where c: "create uuid now ?d (dmStore m) = (r, s)" by fastforce
  have so: "store_ok bound (dmStore m)" using m by (simp add: machine_ok_def)
  show ?thesis
  proof (cases r)
    case (Inl e)
    then have "s = dmStore m" using create_error c by simp
    then show ?thesis using True c Inl m by (simp add: dispatchToWebhook_def)
  next
    case (Inr new)
    have new: "new = ?d \<lparr> dlId := uuid, dlCreatedAt := now \<rparr>" using create_new c Inr by simp
    have sub: "set (deliveries s) \<subseteq> insert (uuid, new) (set (deliveries (dmStore m)))"
      using create_sub c Inr by simp
    have wf: "wf_map (deliveries s)" using create_wf [OF c] so by (simp add: store_ok_def)
    have nok: "dlId new = uuid" "delivery_ok bound new" "dlStatus new = PENDING"
      by (simp_all add: new new_delivery_def delivery_ok_def)
    have store: "store_ok bound s"
      using so sub wf nok create_webhooks [OF c] by (auto simp: store_ok_def policies_within_def)
    have get: "d = new \<and> i = uuid \<or> getDelivery i (dmStore m) = Some d" if "getDelivery i s = Some d" for i d
      using create_get c Inr so that by (simp add: store_ok_def)
    let ?f = "\<lparr> flId = dlId new, flHook = w, flPoll = False \<rparr>"
    have "\<forall>d. getDelivery uuid s = Some d \<longrightarrow> d = new"
      using get [of uuid] id by (auto simp: unused_id_def js_has_def getDelivery_def)
    then have f: "flight_ok bound s ?f" using w nok by (auto simp: flight_ok_def)
    have others: "flight_ok bound s g" if g: "g \<in> set (sending m)" for g
    proof -
      have "flId g \<noteq> uuid" using id g by (auto simp: unused_id_def)
      then show ?thesis using g m get by (fastforce simp: machine_ok_def flight_ok_def)
    qed
    have "distinct (map flId (sending m @ [?f]))"
      using m id nok(1) by (auto simp: machine_ok_def unused_id_def)
    then have "machine_ok bound (m \<lparr> dmStore := s, sending := sending m @ [?f] \<rparr>)"
      using store f others by (auto simp: machine_ok_def)
    then show ?thesis using True c Inr by (simp add: dispatchToWebhook_def)
  qed
qed (use m in \<open>simp add: dispatchToWebhook_def\<close>)

lemma machine_ok_step: "delivery_step app create bound m m' \<Longrightarrow> machine_ok bound m \<Longrightarrow> machine_ok bound m'"
proof (induction rule: delivery_step.induct)
  case (webhooks_changed ws m P)
  then show ?case
    by (intro machine_ok_sub) (auto simp: machine_ok_def store_ok_def policies_within_def)
next
  case (pruned m cutoff conn)
  then show ?case
    by (intro machine_ok_sub)
       (auto simp: machine_ok_def store_ok_def policies_within_def pruneOldDeliveries_def Let_def)
next
  case (restarted m)
  then show ?case by (simp add: machine_ok_def)
qed (auto intro: machine_ok_dispatched machine_ok_answered machine_ok_polled)


lemma retry_frame:
  assumes "did \<noteq> dlId d"
  shows "getDelivery did (dmStore (retryDelivery app poll now m d)) = getDelivery did (dmStore m)
    \<and> (did \<in> flId ` set (sending (retryDelivery app poll now m d)) \<longleftrightarrow> did \<in> flId ` set (sending m))"
proof (cases "getWebhook (dlWebhookId d) (dmStore m)")
  case None
  then show ?thesis using assms by (simp add: retryDelivery_def get_update)
next
  case (Some w)
  then show ?thesis using assms by (cases "whEnabled w") (simp_all add: retryDelivery_def get_update)
qed

lemma retry_fold_frame:
  "did \<notin> dlId ` set batch \<Longrightarrow>
     getDelivery did (dmStore (foldl (retryDelivery app poll now) m batch)) = getDelivery did (dmStore m)
     \<and> (did \<in> flId ` set (sending (foldl (retryDelivery app poll now) m batch)) \<longleftrightarrow> did \<in> flId ` set (sending m))"
proof (induction batch arbitrary: m)
  case (Cons d batch)
  then show ?case using retry_frame [of did d poll now m] by simp
qed simp

lemma settled_not_sending:
  assumes m: "machine_ok bound m" and d: "getDelivery did (dmStore m) = Some d" "settled d"
  shows "did \<notin> flId ` set (sending m)"
proof
  assume "did \<in> flId ` set (sending m)"
  then obtain f where "f \<in> set (sending m)" "flId f = did" by auto
  then show False using m d by (auto simp: machine_ok_def flight_ok_def settled_def split: if_splits)
qed

lemma settled_stays:
  assumes step: "delivery_step app create bound m m'" and m: "machine_ok bound m"
    and d: "getDelivery did (dmStore m) = Some d" "settled d"
  shows "(\<forall>d'. getDelivery did (dmStore m') = Some d' \<longrightarrow> d' = d) \<and> did \<notin> flId ` set (sending m')"
proof -
  have idle: "did \<notin> flId ` set (sending m)" by (rule settled_not_sending [OF m d])
  have wf: "wf_map (deliveries (dmStore m))" using m by (simp add: machine_ok_def store_ok_def)
  have sub: "d' = d" if "set (deliveries s') \<subseteq> set (deliveries (dmStore m))" "getDelivery did s' = Some d'" for s' d'
  proof -
    have "(did, d') \<in> set (deliveries (dmStore m))"
      using that by (auto simp: getDelivery_def dest: map_of_SomeD)
    then show ?thesis using d(1) js_get_in_set [OF wf] by (simp add: getDelivery_def)
  qed
  from step show ?thesis
  proof cases
    case (dispatched uuid w getConfig source pid now event datum conn)
    have ne: "did \<noteq> uuid" using dispatched(2) d(1) by (auto simp: unused_id_def js_has_def getDelivery_def)
    obtain r s where c: "create uuid now (new_delivery (getInstanceInfo getConfig source conn) pid now w event datum conn)
        (dmStore m) = (r, s)" by fastforce
    show ?thesis
    proof (cases "whEnabled w")
      case False
      then show ?thesis using dispatched(1) d(1) idle by (simp add: dispatchToWebhook_def)
    next
      case True
      show ?thesis
      proof (cases r)
        case (Inl e)
        then have "s = dmStore m" using create_error c by blast
        then show ?thesis using Inl dispatched(1) True c d(1) idle by (simp add: dispatchToWebhook_def)
      next
        case (Inr new)
        have "dlId new = uuid" using create_new [OF c [unfolded Inr]] by simp
        moreover have "\<forall>d'. getDelivery did s = Some d' \<longrightarrow> d' = d"
          using create_get [OF c [unfolded Inr] wf, of did] ne d(1) by auto
        ultimately show ?thesis using dispatched(1) True c Inr ne idle by (simp add: dispatchToWebhook_def)
      qed
    qed
  next
    case (answered f out dur now)
    have "flId f \<noteq> did" using answered(2) idle by auto
    then have "getDelivery did (dmStore m') = getDelivery did (dmStore m)"
      unfolding answered(1) answer_def by (simp add: record_attempt_def get_update split: option.split)
    moreover have "did \<notin> flId ` set (sending m')"
      using idle image_mono [OF set_remove1_subset, of flId f "sending m"]
      unfolding answered(1) answer_def by auto
    ultimately show ?thesis using d(1) by simp
  next
    case (polled now)
    let ?b = "getRetriableDeliveries MAX_CONCURRENT_RETRIES None (real_of_int now) (dmStore m)"
    have "did \<notin> dlId ` set ?b" if "\<not> list_ex flPoll (sending m)"
    proof
      assume "did \<in> dlId ` set ?b"
      then obtain x where x: "x \<in> set ?b" "dlId x = did" by auto
      then have "getDelivery did (dmStore m) = Some x \<and> dlStatus x = RETRYING"
        using poll_batch_ok [OF m that, of MAX_CONCURRENT_RETRIES "real_of_int now"] unfolding batch_ok_def by blast
      then show False using d by (auto simp: settled_def)
    qed
    then show ?thesis
      using polled d(1) idle retry_fold_frame [of did ?b True now m] by (auto simp: processRetries_def Let_def)
  next
    case (webhooks_changed ws P)
    then have "set (deliveries (dmStore m')) \<subseteq> set (deliveries (dmStore m))" "sending m' = sending m" by auto
    then show ?thesis using sub idle by simp
  next
    case (pruned cutoff conn)
    then have "set (deliveries (dmStore m')) \<subseteq> set (deliveries (dmStore m))" "sending m' = sending m"
      by (auto simp: pruneOldDeliveries_def Let_def)
    then show ?thesis using sub idle by simp
  next
    case restarted
    then show ?thesis using d(1) by simp
  qed
qed

end


section \<open>Properties of the machine\<close>

inductive delivery_reach ::
  "apply_update \<Rightarrow> create_delivery \<Rightarrow> int \<Rightarrow> delivery_machine \<Rightarrow> bool" for app create bound where
  first_start: "policies_within bound \<lparr> webhooks = ws, deliveries = [] \<rparr> \<Longrightarrow>
    delivery_reach app create bound \<lparr> dmStore = \<lparr> webhooks = ws, deliveries = [] \<rparr>, sending = [] \<rparr>"
| later: "delivery_reach app create bound m \<Longrightarrow> delivery_step app create bound m m' \<Longrightarrow>
    delivery_reach app create bound m'"

definition delivery_repos :: "(apply_update \<times> create_delivery) list" where
  "delivery_repos = [(mem_apply, mem_createDelivery), (sql_apply, sql_createDelivery)]"

lemma delivery_repos_repo: "(app, create) \<in> set delivery_repos \<Longrightarrow> delivery_repo app create"
  using mem_repo.delivery_repo_axioms sql_repo.delivery_repo_axioms
    mem_deliveries.delivery_store_axioms sql_deliveries.delivery_store_axioms
  by (auto simp: delivery_repos_def delivery_repo_def)

lemma reach_ok:
  assumes "(app, create) \<in> set delivery_repos" and "delivery_reach app create bound m"
  shows "machine_ok bound m"
  using assms(2)
proof induction
  case (first_start ws)
  then show ?case by (simp add: machine_ok_def store_ok_def)
next
  case (later m m')
  then show ?case using delivery_repo.machine_ok_step [OF delivery_repos_repo [OF assms(1)]] by blast
qed

text \<open>
  C6: through any interleaving of dispatches, answers, retry cycles, webhook changes, pruning and
  restarts, a delivery is never in flight twice, one that is in flight is pending or retrying, and
  the attempts of a delivery, the first one included, never exceed \<open>maxRetries\<close> of the policies (one for
  a limit below one). The code counts the first attempt against the limit, where the retry table of
  docs/webhooks.md has it as an attempt before the retries.
\<close>

theorem webhook_in_flight_once:
  assumes repo: "(app, create) \<in> set delivery_repos" and reach: "delivery_reach app create bound m"
  shows "distinct (map flId (sending m))
    \<and> (\<forall>did d. getDelivery did (dmStore m) = Some d \<longrightarrow> dlAttempts d \<le> max 1 bound
         \<and> (did \<in> flId ` set (sending m) \<longrightarrow> dlStatus d \<in> {PENDING, RETRYING}))"
proof -
  have m: "machine_ok bound m" by (rule reach_ok [OF repo reach])
  have "dlAttempts d \<le> max 1 bound" if "getDelivery did (dmStore m) = Some d" for did d
    using that m store_ok_get [of bound "dmStore m" did d] by (simp add: machine_ok_def delivery_ok_def)
  moreover have "dlStatus d \<in> {PENDING, RETRYING}"
    if get: "getDelivery did (dmStore m) = Some d" and did: "did \<in> flId ` set (sending m)" for did d
  proof -
    obtain f where "f \<in> set (sending m)" "flId f = did" using did by auto
    then show ?thesis using m get by (auto simp: machine_ok_def flight_ok_def)
  qed
  moreover have "distinct (map flId (sending m))" using m by (simp add: machine_ok_def)
  ultimately show ?thesis by blast
qed

text \<open>
  C21: a delivery that has succeeded, failed or been dead-lettered is settled: no later step of the
  automatic machine sends it again or changes it, until it is pruned or its webhook deleted.
\<close>

theorem webhook_settled_stays:
  assumes repo: "(app, create) \<in> set delivery_repos" and reach: "delivery_reach app create bound m"
    and step: "delivery_step app create bound m m'"
    and d: "getDelivery did (dmStore m) = Some d" "settled d"
  shows "(\<forall>d'. getDelivery did (dmStore m') = Some d' \<longrightarrow> d' = d) \<and> did \<notin> flId ` set (sending m')"
  by (rule delivery_repo.settled_stays [OF delivery_repos_repo [OF repo] step reach_ok [OF repo reach] d])

section \<open>The dead letter queue\<close>

definition getMaxRetriesForWebhook ::
  "(string, Webhook option) jsmap \<Rightarrow> webhook_store \<Rightarrow> string \<Rightarrow> int" where
  "getMaxRetriesForWebhook cache s wid =
     (case js_get cache wid of
        Some cached \<Rightarrow> (case cached of None \<Rightarrow> 3 | Some w \<Rightarrow> maxRetries (whRetryPolicy w))
      | None \<Rightarrow> (case getWebhook wid s of None \<Rightarrow> 3 | Some w \<Rightarrow> maxRetries (whRetryPolicy w)))"

definition isDeadLettered :: "(string, Webhook option) jsmap \<Rightarrow> webhook_store \<Rightarrow> WebhookDelivery \<Rightarrow> bool" where
  "isDeadLettered cache s d \<longleftrightarrow>
     dlStatus d = FAILED \<and> getMaxRetriesForWebhook cache s (dlWebhookId d) \<le> dlAttempts d"

definition getRecentFailedDeliveries ::
  "(string option \<Rightarrow> webhook_store \<Rightarrow> Webhook list) \<Rightarrow> nat \<Rightarrow> webhook_store \<Rightarrow> WebhookDelivery list" where
  "getRecentFailedDeliveries byInstance n s =
     take n (sort_key (\<lambda>d. - dlCreatedAt d)
       (concat (map (\<lambda>w. filter (\<lambda>d. dlStatus d = FAILED) (getDeliveriesByWebhook (whId w) n 0 s))
          (byInstance None s))))"

definition getDeadLetteredDeliveries ::
  "(string option \<Rightarrow> webhook_store \<Rightarrow> Webhook list) \<Rightarrow> (string, Webhook option) jsmap \<Rightarrow> nat \<Rightarrow> webhook_store
     \<Rightarrow> WebhookDelivery list" where
  "getDeadLetteredDeliveries byInstance cache n s =
     take n (filter (isDeadLettered cache s) (getRecentFailedDeliveries byInstance (n * 2) s))"

definition getDeadLetteredDeliveriesForWebhook ::
  "(string, Webhook option) jsmap \<Rightarrow> string \<Rightarrow> nat \<Rightarrow> webhook_store \<Rightarrow> WebhookDelivery list" where
  "getDeadLetteredDeliveriesForWebhook cache wid n s =
     take n (filter (\<lambda>d. dlStatus d = FAILED \<and> getMaxRetriesForWebhook cache s wid \<le> dlAttempts d)
       (getDeliveriesByWebhook wid (n * 2) 0 s))"

datatype requeue_error = RequeueNotFound | NotInFailedState

definition requeueDelivery ::
  "apply_update \<Rightarrow> int \<Rightarrow> string \<Rightarrow> webhook_store \<Rightarrow> requeue_error + webhook_store" where
  "requeueDelivery app now did s =
     (case getDelivery did s of
        None \<Rightarrow> Inl RequeueNotFound
      | Some d \<Rightarrow>
          if dlStatus d \<noteq> FAILED then Inl NotInFailedState
          else Inr (snd (store_updateDelivery app did
                 \<lparr> udStatus = Some RETRYING, udStatusCode = None, udResponseBody = None, udAttempts = Some 0,
                   udNextRetryAt = Some (real_of_int now), udCompletedAt = None, udDurationMs = None \<rparr> s)))"

text \<open>
  C39: the dead letter queue never shows what the dispatcher dead-letters. A delivery with the status
  the dispatcher writes after the last retry is in neither listing of the queue, whatever the limits
  and the cache; requeuing it is refused because it is not in the failed state, and a manual retry is
  refused because its attempts are used up. And in an SQL store, where every webhook has a
  connection, the listing over all webhooks is always empty.
\<close>

theorem dead_letter_queue_misses_dead_letters:
  assumes d: "getDelivery did s = Some d" "dlStatus d = DEAD_LETTER"
    and w: "getWebhook (dlWebhookId d) s = Some w" "maxRetries (whRetryPolicy w) \<le> dlAttempts d"
  shows "d \<notin> set (getDeadLetteredDeliveries byInstance cache n s)
    \<and> d \<notin> set (getDeadLetteredDeliveriesForWebhook cache wid n s)
    \<and> requeueDelivery app now did s = Inl NotInFailedState
    \<and> manualRetry app now did \<lparr> dmStore = s, sending = fs \<rparr> = Inl MaxAttemptsReached
    \<and> (scoped s \<longrightarrow> getDeadLetteredDeliveries sql_getWebhooksByInstance cache n s = [])"
proof (intro conjI impI)
  show "d \<notin> set (getDeadLetteredDeliveries byInstance cache n s)"
    using d(2) by (auto simp: getDeadLetteredDeliveries_def isDeadLettered_def dest!: in_set_takeD)
  show "d \<notin> set (getDeadLetteredDeliveriesForWebhook cache wid n s)"
    using d(2) by (auto simp: getDeadLetteredDeliveriesForWebhook_def dest!: in_set_takeD)
  show "requeueDelivery app now did s = Inl NotInFailedState"
    using d by (simp add: requeueDelivery_def)
  show "manualRetry app now did \<lparr> dmStore = s, sending = fs \<rparr> = Inl MaxAttemptsReached"
    using d w by (simp add: manualRetry_def)
  show "getDeadLetteredDeliveries sql_getWebhooksByInstance cache n s = []" if "scoped s"
    using scoped_no_global [OF that] by (simp add: getDeadLetteredDeliveries_def getRecentFailedDeliveries_def)
qed

section \<open>Concrete runs\<close>

definition demo_machine :: delivery_machine where
  "demo_machine = \<lparr> dmStore = \<lparr> webhooks = [(''w1'', demo_hook)], deliveries = [] \<rparr>, sending = [] \<rparr>"

definition demo_sent :: delivery_machine where
  "demo_sent = dispatchToWebhook sql_createDelivery (\<lambda>c. None) (''h'', 1) ''p'' ''d1'' 5 demo_hook INSTANCE_DOWN [] (Some ''c1'') demo_machine"

definition demo_settled :: delivery_machine where
  "demo_settled = answer sql_apply (hd (sending demo_sent)) (Responded 404 ''gone'') 7 9 demo_sent"

lemma demo_machine_reach: "delivery_reach sql_apply sql_createDelivery 3 demo_machine"
  unfolding demo_machine_def
  by (rule delivery_reach.first_start) (simp add: policies_within_def demo_hook_def DEFAULT_RETRY_POLICY_def)

lemma demo_sent_reach: "delivery_reach sql_apply sql_createDelivery 3 demo_sent"
proof (rule delivery_reach.later [OF demo_machine_reach])
  show "delivery_step sql_apply sql_createDelivery 3 demo_machine demo_sent"
    unfolding demo_sent_def
    by (rule delivery_step.dispatched)
       (simp_all add: unused_id_def js_has_def demo_machine_def demo_hook_def DEFAULT_RETRY_POLICY_def)
qed

lemma demo_sent_flight: "map flId (sending demo_sent) = [''d1'']"
  by code_simp

lemma demo_sent_found: "\<not> Option.is_none (getDelivery ''d1'' (dmStore demo_sent))"
  by code_simp

lemma demo_settled_reach: "delivery_reach sql_apply sql_createDelivery 3 demo_settled"
proof (rule delivery_reach.later [OF demo_sent_reach])
  have "sending demo_sent \<noteq> []" using demo_sent_flight by auto
  then show "delivery_step sql_apply sql_createDelivery 3 demo_sent demo_settled"
    unfolding demo_settled_def by (intro delivery_step.answered) simp
qed

theorem webhook_in_flight_once_witness:
  "distinct (map flId (sending demo_sent))
    \<and> dlAttempts (the (getDelivery ''d1'' (dmStore demo_sent))) \<le> 3
    \<and> dlStatus (the (getDelivery ''d1'' (dmStore demo_sent))) \<in> {PENDING, RETRYING}"
proof -
  have d: "getDelivery ''d1'' (dmStore demo_sent) = Some (the (getDelivery ''d1'' (dmStore demo_sent)))"
    using demo_sent_found by (simp add: Option.is_none_def)
  have f: "''d1'' \<in> flId ` set (sending demo_sent)"
    using demo_sent_flight by (metis list.set_intros(1) list.set_map)
  have "distinct (map flId (sending demo_sent))
    \<and> (\<forall>did d. getDelivery did (dmStore demo_sent) = Some d \<longrightarrow> dlAttempts d \<le> max 1 3
         \<and> (did \<in> flId ` set (sending demo_sent) \<longrightarrow> dlStatus d \<in> {PENDING, RETRYING}))"
    by (rule webhook_in_flight_once [OF _ demo_sent_reach]) (simp add: delivery_repos_def)
  then show ?thesis using d f by (metis max.absorb2 one_le_numeral)
qed

lemma demo_settled_found: "\<not> Option.is_none (getDelivery ''d1'' (dmStore demo_settled))"
  by code_simp

lemma demo_settled_status: "settled (the (getDelivery ''d1'' (dmStore demo_settled)))"
  by code_simp

theorem webhook_settled_stays_witness:
  "''d1'' \<notin> flId ` set (sending (snd (processRetries sql_apply 99 demo_settled)))"
proof -
  have d: "getDelivery ''d1'' (dmStore demo_settled) = Some (the (getDelivery ''d1'' (dmStore demo_settled)))"
    using demo_settled_found by (simp add: Option.is_none_def)
  show ?thesis
    using webhook_settled_stays [OF _ demo_settled_reach delivery_step.polled d demo_settled_status, of 99]
    by (simp add: delivery_repos_def)
qed

definition demo_dead :: WebhookDelivery where
  "demo_dead = demo_delivery \<lparr> dlStatus := DEAD_LETTER, dlAttempts := 3 \<rparr>"

theorem dead_letter_queue_misses_dead_letters_witness:
  "demo_dead \<notin> set (getDeadLetteredDeliveries mem_getWebhooksByInstance [] 100
       \<lparr> webhooks = [(''w1'', demo_hook)], deliveries = [(''d1'', demo_dead)] \<rparr>)
   \<and> requeueDelivery mem_apply 50 ''d1''
       \<lparr> webhooks = [(''w1'', demo_hook)], deliveries = [(''d1'', demo_dead)] \<rparr> = Inl NotInFailedState"
  using dead_letter_queue_misses_dead_letters [of "''d1''"
      "\<lparr> webhooks = [(''w1'', demo_hook)], deliveries = [(''d1'', demo_dead)] \<rparr>" demo_dead demo_hook
      mem_getWebhooksByInstance "[]" 100 "''w1''" mem_apply 50 "[]"]
  by (simp add: getDelivery_def getWebhook_def demo_dead_def demo_delivery_def new_delivery_def demo_hook_def
      DEFAULT_RETRY_POLICY_def)

text \<open>
  A manual retry marks the delivery due before it sends it, so a cycle of the processor that runs
  while the request is in flight sends it a second time.
\<close>

definition demo_failed :: delivery_machine where
  "demo_failed = \<lparr> dmStore = \<lparr> webhooks = [(''w1'', demo_hook)],
       deliveries = [(''d1'', demo_delivery \<lparr> dlStatus := FAILED, dlAttempts := 1 \<rparr>)] \<rparr>, sending = [] \<rparr>"

lemma manual_retry_sends_twice:
  "case manualRetry mem_apply 50 ''d1'' demo_failed of
     Inl e \<Rightarrow> False
   | Inr m \<Rightarrow> map flId (sending (snd (processRetries mem_apply 60 m))) = [''d1'', ''d1'']"
  by code_simp

text \<open>A delivery whose first request was lost in a restart stays pending: no cycle ever takes it up.\<close>

lemma pending_never_due: "dlStatus d = PENDING \<Longrightarrow> \<not> due now d"
  by (simp add: due_def)

lemma lost_dispatch_stays_pending:
  "processRetries sql_apply 1000000 (demo_sent \<lparr> sending := [] \<rparr>) = (False, demo_sent \<lparr> sending := [] \<rparr>)"
  by (simp add: demo_sent_def dispatchToWebhook_def sql_createDelivery_def new_delivery_def demo_machine_def
      demo_hook_def processRetries_def getRetriableDeliveries_def due_def Let_def)

end
