(* ===== verification/Webhook_Service.thy ===== *)
theory Webhook_Service
  imports Webhook_Machine
begin

text \<open>
  The entry points of the webhook component: creating and updating a webhook
  (src/apps/api/src/webhooks/webhooks.service.ts) and dispatching an event to every subscribed
  webhook (\<open>dispatchEvent\<close> and \<open>dispatchThresholdAlert\<close> of webhook-dispatcher.service.ts).
\<close>

section \<open>Creating and updating\<close>

definition resolveConnectionId :: "string option \<Rightarrow> string option \<Rightarrow> string option" where
  "resolveConnectionId defaultId conn =
     (case truthy [] conn of Some c \<Rightarrow> Some c | None \<Rightarrow> truthy [] defaultId)"

datatype webhook_error = BadUrl url_error | TierForbidden "WebhookEventType list" | WebhookMissing | StorageError string

definition validateEventTiers :: "Tier option \<Rightarrow> WebhookEventType list \<Rightarrow> webhook_error option" where
  "validateEventTiers licence events =
     (let userTier = (case licence of None \<Rightarrow> community | Some t \<Rightarrow> t);
          disallowed = validateEventsForTier events userTier
      in if disallowed \<noteq> [] then Some (TierForbidden disallowed) else None)"

record CreateWebhookDto =
  cwName :: string
  cwUrl :: string
  cwSecret :: "string option"
  cwEnabled :: "bool option"
  cwEvents :: "WebhookEventType list"
  cwHeaders :: "(string, string) jsmap option"
  cwRetryPolicy :: "RetryPolicy option"
  cwDeliveryConfig :: "WebhookDeliveryConfig option"
  cwHysteresisFactor :: "real option"
  cwThresholds :: "(WebhookThresholdKey, real) jsmap"
  cwConnectionId :: "string option"

text \<open>The environment of the service: URL parser, resolver, mode, licence and default connection.\<close>

record webhook_env =
  weParse :: "string \<Rightarrow> (string \<times> string) option"
  weResolve :: "string \<Rightarrow> string list option"
  weProduction :: bool
  weLicence :: "Tier option"
  weDefaultId :: "string option"

definition webhook_of_dto :: "webhook_env \<Rightarrow> string \<Rightarrow> CreateWebhookDto \<Rightarrow> Webhook" where
  "webhook_of_dto env generated dto =
     \<lparr> whId = [], whName = cwName dto, whUrl = cwUrl dto,
       whSecret = (case truthy [] (cwSecret dto) of None \<Rightarrow> Some generated | Some s \<Rightarrow> Some s),
       whEnabled = (case cwEnabled dto of None \<Rightarrow> True | Some b \<Rightarrow> b), whEvents = cwEvents dto,
       whHeaders = (case cwHeaders dto of None \<Rightarrow> [] | Some h \<Rightarrow> h),
       whRetryPolicy = (case cwRetryPolicy dto of None \<Rightarrow> DEFAULT_RETRY_POLICY | Some p \<Rightarrow> p),
       whDeliveryConfig = cwDeliveryConfig dto, whHysteresisFactor = cwHysteresisFactor dto,
       whThresholds = cwThresholds dto,
       whConnectionId = resolveConnectionId (weDefaultId env) (cwConnectionId dto),
       whCreatedAt = 0, whUpdatedAt = 0 \<rparr>"

definition createWebhook ::
  "(string \<Rightarrow> int \<Rightarrow> Webhook \<Rightarrow> webhook_store \<Rightarrow> (string + Webhook) \<times> webhook_store) \<Rightarrow> webhook_env \<Rightarrow> string
     \<Rightarrow> string \<Rightarrow> int \<Rightarrow> CreateWebhookDto \<Rightarrow> webhook_store \<Rightarrow> (webhook_error + Webhook) \<times> webhook_store" where
  "createWebhook store_create env generated uuid now dto s =
     (case validateUrl (weParse env) (weResolve env) (weProduction env) (cwUrl dto) of
        Some e \<Rightarrow> (Inl (BadUrl e), s)
      | None \<Rightarrow>
          case validateEventTiers (weLicence env) (cwEvents dto) of
            Some e \<Rightarrow> (Inl e, s)
          | None \<Rightarrow>
              case store_create uuid now (webhook_of_dto env generated dto) s of
                (Inl e, s') \<Rightarrow> (Inl (StorageError e), s')
              | (Inr w, s') \<Rightarrow> (Inr w, s'))"

definition mem_create :: "string \<Rightarrow> int \<Rightarrow> Webhook \<Rightarrow> webhook_store \<Rightarrow> (string + Webhook) \<times> webhook_store" where
  "mem_create uuid now w s = (case mem_createWebhook uuid now w s of (w', s') \<Rightarrow> (Inr w', s'))"

definition updateWebhook ::
  "(int \<Rightarrow> string \<Rightarrow> WebhookUpdates \<Rightarrow> webhook_store \<Rightarrow> Webhook option \<times> webhook_store) \<Rightarrow> webhook_env
     \<Rightarrow> int \<Rightarrow> string \<Rightarrow> WebhookUpdates \<Rightarrow> webhook_store \<Rightarrow> (webhook_error + Webhook) \<times> webhook_store" where
  "updateWebhook store_update env now wid dto s =
     (let badUrl = (case truthy [] (uwUrl dto) of
                      None \<Rightarrow> None
                    | Some u \<Rightarrow> validateUrl (weParse env) (weResolve env) (weProduction env) u);
          badEvents = (case uwEvents dto of None \<Rightarrow> None | Some es \<Rightarrow> validateEventTiers (weLicence env) es)
      in case badUrl of
           Some e \<Rightarrow> (Inl (BadUrl e), s)
         | None \<Rightarrow>
             case badEvents of
               Some e \<Rightarrow> (Inl e, s)
             | None \<Rightarrow>
                 case store_update now wid dto s of
                   (None, s') \<Rightarrow> (Inl WebhookMissing, s')
                 | (Some w, s') \<Rightarrow> (Inr w, s'))"

text \<open>
  what is subscribed is licensed. A webhook that the service creates, in either repository,
  subscribes only to events of the licence's tier, passed the URL check, has a secret, and belongs
  to the requested connection or the default one; and when the tier or the URL is refused the store
  is unchanged.
\<close>

theorem created_webhook_licensed:
  assumes "createWebhook store_create env generated uuid now dto s = (r, s')"
    and "store_create \<in> {mem_create, sql_createWebhook}"
    and "generated \<noteq> []"
  shows "case r of
      Inl e \<Rightarrow> s' = s
    | Inr w \<Rightarrow> (\<forall>event \<in> set (whEvents w).
                 isEventAllowedForTier event (case weLicence env of None \<Rightarrow> community | Some t \<Rightarrow> t))
        \<and> validateUrl (weParse env) (weResolve env) (weProduction env) (whUrl w) = None
        \<and> (\<exists>secret. whSecret w = Some secret \<and> secret \<noteq> [])
        \<and> whConnectionId w = resolveConnectionId (weDefaultId env) (cwConnectionId dto)
        \<and> getWebhook uuid s' = Some w"
proof (cases "validateUrl (weParse env) (weResolve env) (weProduction env) (cwUrl dto)")
  case (Some e)
  then show ?thesis using assms(1) by (auto simp: createWebhook_def)
next
  case url: None
  show ?thesis
  proof (cases "validateEventTiers (weLicence env) (cwEvents dto)")
    case (Some e)
    then show ?thesis using assms(1) url by (auto simp: createWebhook_def)
  next
    case None
    let ?w = "webhook_of_dto env generated dto \<lparr> whId := uuid, whCreatedAt := now, whUpdatedAt := now \<rparr>"
    have tier: "\<forall>event \<in> set (cwEvents dto).
        isEventAllowedForTier event (case weLicence env of None \<Rightarrow> community | Some t \<Rightarrow> t)"
      using None by (auto simp: validateEventTiers_def validateEventsForTier_def Let_def filter_empty_conv
          split: if_splits)
    have "r = Inr ?w \<and> s' = s \<lparr> webhooks := js_set uuid ?w (webhooks s) \<rparr> \<or> (\<exists>e. r = Inl e \<and> s' = s)"
      using assms(1,2) url None
      by (auto simp: createWebhook_def mem_create_def mem_createWebhook_def sql_createWebhook_def Let_def
          split: option.splits)
    then show ?thesis
    proof
      assume stored: "r = Inr ?w \<and> s' = s \<lparr> webhooks := js_set uuid ?w (webhooks s) \<rparr>"
      have "\<exists>secret. whSecret ?w = Some secret \<and> secret \<noteq> []"
        using assms(3) by (auto simp: webhook_of_dto_def split: option.split)
      then show ?thesis using stored tier url
        by (simp add: webhook_of_dto_def getWebhook_def js_simps)
    qed auto
  qed
qed

definition demo_webhook_env :: webhook_env where
  "demo_webhook_env = \<lparr> weParse = (\<lambda>u. Some (''https:'', ''hooks.example.com'')), weResolve = (\<lambda>h. Some [''93.184.216.34'']),
     weProduction = True, weLicence = Some pro, weDefaultId = Some ''c1'' \<rparr>"

definition demo_dto :: CreateWebhookDto where
  "demo_dto = \<lparr> cwName = ''n'', cwUrl = ''https://hooks.example.com/x'', cwSecret = None, cwEnabled = None,
     cwEvents = [ANOMALY_DETECTED], cwHeaders = None, cwRetryPolicy = None, cwDeliveryConfig = None,
     cwHysteresisFactor = None, cwThresholds = [], cwConnectionId = None \<rparr>"

definition demo_empty :: webhook_store where
  "demo_empty = \<lparr> webhooks = [], deliveries = [] \<rparr>"

theorem created_webhook_licensed_witness:
  "\<exists>w. fst (createWebhook sql_createWebhook demo_webhook_env ''whsec_00'' ''w9'' 7 demo_dto demo_empty) = Inr w
     \<and> getWebhook ''w9'' (snd (createWebhook sql_createWebhook demo_webhook_env ''whsec_00'' ''w9'' 7 demo_dto demo_empty)) = Some w
     \<and> whConnectionId w = Some ''c1''"
proof -
  let ?c = "createWebhook sql_createWebhook demo_webhook_env ''whsec_00'' ''w9'' 7 demo_dto demo_empty"
  have "\<not> isl (fst ?c)" by code_simp
  then obtain w where w: "fst ?c = Inr w" by (cases "fst ?c") auto
  have "resolveConnectionId (weDefaultId demo_webhook_env) (cwConnectionId demo_dto) = Some ''c1''" by code_simp
  then show ?thesis
    using created_webhook_licensed [of sql_createWebhook demo_webhook_env "''whsec_00''" "''w9''" 7 demo_dto
        demo_empty "fst ?c" "snd ?c", OF prod.collapse [symmetric]] w by simp
qed

section \<open>Dispatching an event\<close>

text \<open>
  Every subscribed webhook gets its own delivery; \<open>ids\<close> are the fresh ids of payload and delivery. The dispatches run in
  parallel and settle independently, an insert that fails loses that webhook's delivery alone.
\<close>

fun dispatch_all ::
  "create_delivery \<Rightarrow> (string \<Rightarrow> (string \<times> int) option) \<Rightarrow> string \<times> int \<Rightarrow> int \<Rightarrow> WebhookEventType
     \<Rightarrow> (string, string) jsmap \<Rightarrow> string option \<Rightarrow> (Webhook \<times> string \<times> string) list \<Rightarrow> delivery_machine
     \<Rightarrow> delivery_machine" where
  "dispatch_all create getConfig source now event datum conn [] m = m"
| "dispatch_all create getConfig source now event datum conn ((w, pid, uuid) # ws) m =
     dispatch_all create getConfig source now event datum conn ws
       (dispatchToWebhook create getConfig source pid uuid now w event datum conn m)"

definition dispatchEvent ::
  "create_delivery \<Rightarrow> (WebhookEventType \<Rightarrow> string option \<Rightarrow> webhook_store \<Rightarrow> Webhook list) \<Rightarrow> webhook_env
     \<Rightarrow> (string \<Rightarrow> (string \<times> int) option) \<Rightarrow> string \<times> int \<Rightarrow> (nat \<Rightarrow> string \<times> string) \<Rightarrow> int \<Rightarrow> WebhookEventType
     \<Rightarrow> (string, string) jsmap \<Rightarrow> string option \<Rightarrow> delivery_machine \<Rightarrow> delivery_machine" where
  "dispatchEvent create byEvent env getConfig source ids now event datum conn m =
     (let ws = byEvent event (resolveConnectionId (weDefaultId env) conn) (dmStore m);
          enriched = (case truthy [] conn of None \<Rightarrow> datum | Some c \<Rightarrow> js_set ''connectionId'' c datum)
      in dispatch_all create getConfig source now event enriched conn
           (zip ws (map ids [0..<length ws])) m)"

definition dispatchThresholdAlert ::
  "create_delivery \<Rightarrow> (WebhookEventType \<Rightarrow> string option \<Rightarrow> webhook_store \<Rightarrow> Webhook list) \<Rightarrow> webhook_env
     \<Rightarrow> (string \<Rightarrow> (string \<times> int) option) \<Rightarrow> string \<times> int \<Rightarrow> (nat \<Rightarrow> string \<times> string) \<Rightarrow> int \<Rightarrow> WebhookEventType \<Rightarrow> string
     \<Rightarrow> real \<Rightarrow> real \<Rightarrow> bool \<Rightarrow> (string, string) jsmap \<Rightarrow> string option \<Rightarrow> (string, AlertState) jsmap \<Rightarrow> delivery_machine
     \<Rightarrow> bool \<times> (string, AlertState) jsmap \<times> delivery_machine" where
  "dispatchThresholdAlert create byEvent env getConfig source ids now event alertKey v threshold isAbove datum conn states m =
     (case shouldFireAlert alertKey v threshold isAbove (9 / 10) now states of
        (False, states') \<Rightarrow> (False, states', m)
      | (True, states') \<Rightarrow>
          (True, states', dispatchEvent create byEvent env getConfig source ids now event datum conn m))"

lemma mem_byEvent_sound: "w \<in> set (mem_getWebhooksByEvent event conn s) \<Longrightarrow>
    whEnabled w \<and> event \<in> set (whEvents w) \<and> in_scope conn w"
  by (simp add: mem_getWebhooksByEvent_def)

lemma sql_byEvent_sound: "w \<in> set (sql_getWebhooksByEvent event conn s) \<Longrightarrow>
    whEnabled w \<and> event \<in> set (whEvents w) \<and> in_scope conn w"
  by (auto simp: sql_getWebhooksByEvent_def sql_in_scope_def in_scope_def split: option.splits)

lemma dispatch_all_sends:
  assumes "f \<in> set (sending (dispatch_all create getConfig source now event datum conn ws m))"
  shows "f \<in> set (sending m) \<or> (\<exists>(w, i) \<in> set ws. flHook f = w \<and> whEnabled w \<and> \<not> flPoll f)"
  using assms
proof (induction ws arbitrary: m)
  case (Cons x ws)
  obtain w pid uuid where x: "x = (w, pid, uuid)" by (cases x)
  let ?m = "dispatchToWebhook create getConfig source pid uuid now w event datum conn m"
  have step: "f \<in> set (sending m) \<or> flHook f = w \<and> whEnabled w \<and> \<not> flPoll f" if "f \<in> set (sending ?m)"
  proof (cases "whEnabled w")
    case True
    let ?d = "new_delivery (getInstanceInfo getConfig source conn) pid now w event datum conn"
    obtain r s where "create uuid now ?d (dmStore m) = (r, s)" by fastforce
    then show ?thesis using that True by (cases r) (auto simp: dispatchToWebhook_def)
  qed (use that in \<open>simp add: dispatchToWebhook_def\<close>)
  have "f \<in> set (sending ?m) \<or> (\<exists>(w, i) \<in> set ws. flHook f = w \<and> whEnabled w \<and> \<not> flPoll f)"
    using Cons.IH [of ?m] Cons.prems x by simp
  then show ?case using step x by auto
qed simp

text \<open>
  an event goes to its subscribers alone. Every request that dispatching an event puts in flight
  is for an enabled webhook that subscribes to the event and whose scope is the event's connection
  (or the default connection when the event has none) or global, in both repositories.
\<close>

theorem webhook_event_scoped:
  assumes "byEvent \<in> {mem_getWebhooksByEvent, sql_getWebhooksByEvent}"
    and "f \<in> set (sending (dispatchEvent create byEvent env getConfig source ids now event datum conn m))"
    and "f \<notin> set (sending m)"
  shows "whEnabled (flHook f) \<and> event \<in> set (whEvents (flHook f))
    \<and> in_scope (resolveConnectionId (weDefaultId env) conn) (flHook f)"
proof -
  let ?ws = "byEvent event (resolveConnectionId (weDefaultId env) conn) (dmStore m)"
  obtain x where x: "x \<in> set (zip ?ws (map ids [0..<length ?ws]))" "flHook f = fst x"
    using assms(2,3) dispatch_all_sends [of f] unfolding dispatchEvent_def Let_def by fastforce
  obtain w i where "x = (w, i)" by (rule prod.exhaust)
  then have "flHook f \<in> set ?ws" using x set_zip_leftD [of w i ?ws] by simp
  then show ?thesis using assms(1) mem_byEvent_sound sql_byEvent_sound by auto
qed

definition demo_dispatched :: delivery_machine where
  "demo_dispatched = dispatchEvent mem_createDelivery mem_getWebhooksByEvent demo_webhook_env (\<lambda>c. None) (''h'', 1)
     (\<lambda>i. (''p'', show_nat i)) 5 INSTANCE_DOWN [] (Some ''c1'') demo_machine"

lemma webhook_event_example: "map flId (sending demo_dispatched) = [''0'']"
  by code_simp

theorem webhook_event_scoped_witness:
  "whEnabled (flHook (hd (sending demo_dispatched))) \<and> INSTANCE_DOWN \<in> set (whEvents (flHook (hd (sending demo_dispatched))))"
proof -
  have "sending demo_dispatched \<noteq> []" using webhook_event_example by auto
  then have "hd (sending demo_dispatched) \<in> set (sending demo_dispatched)" by simp
  then show ?thesis
    using webhook_event_scoped [of mem_getWebhooksByEvent "hd (sending demo_dispatched)" mem_createDelivery
        demo_webhook_env "\<lambda>c. None" "(''h'', 1)" "\<lambda>i. (''p'', show_nat i)" 5 INSTANCE_DOWN "[]" "Some ''c1''" demo_machine]
    unfolding demo_dispatched_def by (simp add: demo_machine_def)
qed

text \<open>An event without a connection reaches nobody in an SQL store: its delivery cannot be inserted.\<close>

lemma sql_unscoped_event_lost:
  "sending (dispatchEvent sql_createDelivery sql_getWebhooksByEvent demo_webhook_env (\<lambda>c. None) (''h'', 1)
       (\<lambda>i. (''p'', show_nat i)) 5 INSTANCE_DOWN [] None demo_machine) = []"
  by (simp add: dispatchEvent_def sql_getWebhooksByEvent_def resolveConnectionId_def demo_webhook_env_def demo_machine_def
      demo_hook_def sql_in_scope_def dispatchToWebhook_def sql_createDelivery_def new_delivery_def Let_def)

end
