(* ===== verification/Capture_Store.thy ===== *)
theory Capture_Store
  imports Prelude
begin

text \<open>
  The rows of the MONITOR captures: the types of src/packages/shared/src/types/monitor.ts and the tables
  of the memory and SQLite adapters (sessions and chunks; the triggers and schedules are not modelled).
  The two adapters differ in what they refuse and remove: SQLite has a primary key on the chunks of a
  session and a foreign key to it.
\<close>

section \<open>Rows\<close>

datatype CaptureSessionStatus = SessionRunning | SessionCompleted | SessionTruncated | SessionFailed | SessionSkipped

datatype CaptureSessionSource = SourceManual | SourceTrigger | SourceSchedule

record CaptureNodeSegment =
  sgNodeId :: string
  sgAddress :: string
  sgStatus :: CaptureSessionStatus
  sgByteCount :: int
  sgLineCount :: int
  sgEndedAt :: "int option"
  sgTerminationReason :: "string option"

record StoredCaptureSession =
  csId :: string
  csConnectionId :: string
  csStatus :: CaptureSessionStatus
  csSource :: CaptureSessionSource
  csTriggerId :: "string option"
  csScheduleId :: "string option"
  csRequestedBy :: "string option"
  csStartedAt :: int
  csEndedAt :: "int option"
  csDurationMs :: "int option"
  csByteCount :: int
  csLineCount :: int
  csByteCap :: int
  csLineCap :: int
  csTerminationReason :: "string option"
  csTargetNode :: "string option"
  csNodeSegments :: "CaptureNodeSegment list option"

record CaptureSessionPatch =
  spStatus :: "CaptureSessionStatus option"
  spEndedAt :: "int option"
  spDurationMs :: "int option"
  spByteCount :: "int option"
  spLineCount :: "int option"
  spTerminationReason :: "string option"
  spNodeSegments :: "CaptureNodeSegment list option"

text \<open>The bytes of a chunk are read as the text they encode.\<close>

record StoredCaptureChunk =
  ckSessionId :: string
  ckChunkIndex :: int
  ckText :: string
  ckLineCount :: int
  ckFirstTs :: int
  ckLastTs :: int
  ckNodeId :: "string option"

definition no_session_patch :: CaptureSessionPatch where
  "no_session_patch = \<lparr> spStatus = None, spEndedAt = None, spDurationMs = None, spByteCount = None,
     spLineCount = None, spTerminationReason = None, spNodeSegments = None \<rparr>"

record capture_store =
  captureSessions :: "(string, StoredCaptureSession) jsmap"
  captureChunks :: "StoredCaptureChunk list"

definition empty_captures :: capture_store where
  "empty_captures = \<lparr> captureSessions = [], captureChunks = [] \<rparr>"

text \<open>A field of a row that is kept when the patch leaves it out.\<close>

definition patched :: "'a option \<Rightarrow> 'a \<Rightarrow> 'a" where
  "patched new old = (case new of None \<Rightarrow> old | Some x \<Rightarrow> x)"

definition patched_opt :: "'a option \<Rightarrow> 'a option \<Rightarrow> 'a option" where
  "patched_opt new old = (case new of None \<Rightarrow> old | Some x \<Rightarrow> Some x)"

section \<open>Sessions and chunks\<close>

definition saveCaptureSession :: "StoredCaptureSession \<Rightarrow> capture_store \<Rightarrow> capture_store" where
  "saveCaptureSession session s = s \<lparr> captureSessions := js_set (csId session) session (captureSessions s) \<rparr>"

definition getCaptureSession :: "string \<Rightarrow> capture_store \<Rightarrow> StoredCaptureSession option" where
  "getCaptureSession sid s = js_get (captureSessions s) sid"

definition patch_session :: "CaptureSessionPatch \<Rightarrow> StoredCaptureSession \<Rightarrow> StoredCaptureSession" where
  "patch_session p session =
     session \<lparr> csStatus := patched (spStatus p) (csStatus session),
       csEndedAt := patched_opt (spEndedAt p) (csEndedAt session),
       csDurationMs := patched_opt (spDurationMs p) (csDurationMs session),
       csByteCount := patched (spByteCount p) (csByteCount session),
       csLineCount := patched (spLineCount p) (csLineCount session),
       csTerminationReason := patched_opt (spTerminationReason p) (csTerminationReason session),
       csNodeSegments := patched_opt (spNodeSegments p) (csNodeSegments session) \<rparr>"

definition updateCaptureSession :: "string \<Rightarrow> CaptureSessionPatch \<Rightarrow> capture_store \<Rightarrow> bool \<times> capture_store" where
  "updateCaptureSession sid p s =
     (case js_get (captureSessions s) sid of
        None \<Rightarrow> (False, s)
      | Some session \<Rightarrow> (True, s \<lparr> captureSessions := js_set sid (patch_session p session) (captureSessions s) \<rparr>))"

definition mem_saveCaptureChunk :: "StoredCaptureChunk \<Rightarrow> capture_store \<Rightarrow> capture_store option" where
  "mem_saveCaptureChunk c s = Some (s \<lparr> captureChunks := captureChunks s @ [c] \<rparr>)"

text \<open>The insert of SQLite is rejected by the primary key and by the foreign key.\<close>

definition sql_saveCaptureChunk :: "StoredCaptureChunk \<Rightarrow> capture_store \<Rightarrow> capture_store option" where
  "sql_saveCaptureChunk c s =
     (if js_has (captureSessions s) (ckSessionId c)
        \<and> \<not> list_ex (\<lambda>c'. ckSessionId c' = ckSessionId c \<and> ckChunkIndex c' = ckChunkIndex c) (captureChunks s)
      then Some (s \<lparr> captureChunks := captureChunks s @ [c] \<rparr>)
      else None)"

definition getCaptureChunks :: "string \<Rightarrow> capture_store \<Rightarrow> StoredCaptureChunk list" where
  "getCaptureChunks sid s = sort_key ckChunkIndex (filter (\<lambda>c. ckSessionId c = sid) (captureChunks s))"

definition old_session :: "int \<Rightarrow> StoredCaptureSession \<Rightarrow> bool" where
  "old_session cutoff session \<longleftrightarrow> csStatus session \<noteq> SessionRunning
     \<and> (case csEndedAt session of None \<Rightarrow> False | Some t \<Rightarrow> t < cutoff)"

definition mem_pruneOldCaptureSessions :: "int \<Rightarrow> capture_store \<Rightarrow> nat \<times> capture_store" where
  "mem_pruneOldCaptureSessions cutoff s =
     (let kept = filter (\<lambda>(sid, session). \<not> old_session cutoff session) (captureSessions s)
      in (length (captureSessions s) - length kept, s \<lparr> captureSessions := kept \<rparr>))"

text \<open>Deleting a session cascades to its chunks in SQLite.\<close>

definition sql_pruneOldCaptureSessions :: "int \<Rightarrow> capture_store \<Rightarrow> nat \<times> capture_store" where
  "sql_pruneOldCaptureSessions cutoff s =
     (case mem_pruneOldCaptureSessions cutoff s of
        (n, s1) \<Rightarrow> (n, s1 \<lparr> captureChunks := filter (\<lambda>c. js_has (captureSessions s1) (ckSessionId c)) (captureChunks s1) \<rparr>))"

definition pruneOldCaptureChunks :: "int \<Rightarrow> capture_store \<Rightarrow> nat \<times> capture_store" where
  "pruneOldCaptureChunks cutoff s =
     (let kept = filter (\<lambda>c. cutoff \<le> ckLastTs c) (captureChunks s)
      in (length (captureChunks s) - length kept, s \<lparr> captureChunks := kept \<rparr>))"

end
