(* ===== verification/Capture_Writer.thy ===== *)
theory Capture_Writer
  imports Capture_Store
begin

text \<open>
  The writer of a MONITOR capture, src/apps/api/src/monitor/capture-writer.ts: lines go into a buffer that
  is flushed as chunks, into a ring buffer for viewers and to the subscribers; a cap, the duration, an
  error, the end of the source or a stop terminates it once. The writer waits in one place only, for
  its queue of chunk writes to drain after the termination, so its life is a sequence of events; each
  event is one callback or timer of the class.

  Shown: the chunks hold exactly the lines received up to the termination, in order and without a
  gap; the caps are exceeded by the last line only, and a capture is truncated exactly when a cap was
  reached; the writers of one session use disjoint chunk indexes.
\<close>

section \<open>State\<close>

datatype CaptureWriterStatus = WriterCompleted | WriterTruncated | WriterFailed

record CaptureWriterResult =
  rsStatus :: CaptureWriterStatus
  rsTerminationReason :: string
  rsByteCount :: int
  rsLineCount :: int
  rsEndedAt :: int

record CaptureWriterOptions =
  woSessionId :: string
  woByteCap :: int
  woLineCap :: int
  woFlushLineThreshold :: "nat option"
  woRingBufferSize :: "nat option"
  woNodeId :: "string option"
  woStartChunkIndex :: "int option"
  woSkipSessionFinalize :: "bool option"

definition DEFAULT_FLUSH_LINE_THRESHOLD :: nat where "DEFAULT_FLUSH_LINE_THRESHOLD = 5000"

definition DEFAULT_RING_BUFFER_SIZE :: nat where "DEFAULT_RING_BUFFER_SIZE = 10000"

text \<open>
  The fields of the class. A timer is armed or not; \<open>writeQueue\<close> holds the chunk writes that have not
  settled, \<open>writerResult\<close> the value the done promise was resolved with.
\<close>

record CaptureWriter =
  sessionId :: string
  byteCap :: int
  lineCap :: int
  flushLineThreshold :: nat
  ringBufferSize :: nat
  writerNodeId :: "string option"
  skipSessionFinalize :: bool
  buffer :: "string list"
  bufferBytes :: int
  bufferFirstTs :: int
  byteCount :: int
  lineCount :: int
  chunkIndex :: int
  ringBuffer :: "string list"
  lineSubscribers :: "nat list"
  endSubscribers :: "nat list"
  writerStatus :: CaptureWriterStatus
  terminationReason :: string
  stopped :: bool
  flushTimer :: bool
  durationTimer :: bool
  writeQueue :: "StoredCaptureChunk list"
  writerResult :: "CaptureWriterResult option"

text \<open>The constructor, and \<open>start\<close>, which arms the duration timer.\<close>

definition new_writer :: "CaptureWriterOptions \<Rightarrow> CaptureWriter" where
  "new_writer opts =
     \<lparr> sessionId = woSessionId opts, byteCap = woByteCap opts, lineCap = woLineCap opts,
       flushLineThreshold = patched (woFlushLineThreshold opts) DEFAULT_FLUSH_LINE_THRESHOLD,
       ringBufferSize = patched (woRingBufferSize opts) DEFAULT_RING_BUFFER_SIZE,
       writerNodeId = woNodeId opts, skipSessionFinalize = patched (woSkipSessionFinalize opts) False,
       buffer = [], bufferBytes = 0, bufferFirstTs = 0, byteCount = 0, lineCount = 0,
       chunkIndex = patched (woStartChunkIndex opts) 0, ringBuffer = [], lineSubscribers = [], endSubscribers = [],
       writerStatus = WriterCompleted, terminationReason = ''source_ended'', stopped = False,
       flushTimer = False, durationTimer = False, writeQueue = [], writerResult = None \<rparr>"

definition start_writer :: "CaptureWriter \<Rightarrow> CaptureWriter" where
  "start_writer w = w \<lparr> durationTimer := True \<rparr>"

section \<open>Operations\<close>

text \<open>\<open>Buffer.byteLength(line, 'utf-8')\<close>, for the characters up to 255 that a HOL string has.\<close>

definition byteLength :: "string \<Rightarrow> int" where
  "byteLength line = sum_list (map (\<lambda>c. if (of_char c :: nat) < 128 then 1 else 2) line)"

definition newline :: string where "newline = [CHR 0x0A]"

definition flush :: "int \<Rightarrow> CaptureWriter \<Rightarrow> CaptureWriter" where
  "flush now w =
     (let w1 = w \<lparr> flushTimer := False \<rparr>
      in if buffer w1 = [] then w1
         else w1 \<lparr> buffer := [], bufferBytes := 0, bufferFirstTs := 0, chunkIndex := chunkIndex w1 + 1,
                writeQueue := writeQueue w1 @
                  [\<lparr> ckSessionId = sessionId w1, ckChunkIndex = chunkIndex w1, ckText = js_join newline (buffer w1),
                     ckLineCount = int (length (buffer w1)), ckFirstTs = bufferFirstTs w1, ckLastTs = now,
                     ckNodeId = writerNodeId w1 \<rparr>] \<rparr>)"

text \<open>\<open>terminate\<close> up to the await of the write queue; the source is stopped with the first call.\<close>

definition terminate :: "int \<Rightarrow> CaptureWriterStatus \<Rightarrow> string \<Rightarrow> CaptureWriter \<Rightarrow> CaptureWriter" where
  "terminate now status reason w =
     (if stopped w then w
      else flush now (w \<lparr> stopped := True, writerStatus := status, terminationReason := reason, durationTimer := False \<rparr>))"

definition pushRingBuffer :: "string \<Rightarrow> CaptureWriter \<Rightarrow> CaptureWriter" where
  "pushRingBuffer line w =
     (let pushed = ringBuffer w @ [line]
      in w \<lparr> ringBuffer := (if length pushed > ringBufferSize w then drop (length pushed - ringBufferSize w) pushed
                           else pushed) \<rparr>)"

definition count_line :: "string \<Rightarrow> int \<Rightarrow> CaptureWriter \<Rightarrow> CaptureWriter" where
  "count_line line now w =
     (let lineBytes = byteLength line + 1;
          w1 = w \<lparr> byteCount := byteCount w + lineBytes, lineCount := lineCount w + 1,
                 buffer := buffer w @ [line], bufferBytes := bufferBytes w + lineBytes \<rparr>
      in if length (buffer w1) = 1 then w1 \<lparr> bufferFirstTs := now, flushTimer := True \<rparr> else w1)"

text \<open>Second come the lines handed to the subscribers.\<close>

definition handleLine :: "string \<Rightarrow> int \<Rightarrow> int \<Rightarrow> CaptureWriter \<Rightarrow> CaptureWriter \<times> (nat \<times> string) list" where
  "handleLine line now now' w =
     (if stopped w then (w, [])
      else
        let w1 = pushRingBuffer line (count_line line now w);
            notified = map (\<lambda>v. (v, line)) (lineSubscribers w1)
        in if byteCount w1 \<ge> byteCap w1 then (terminate now' WriterTruncated ''byte_cap'' w1, notified)
           else if lineCount w1 \<ge> lineCap w1 then (terminate now' WriterTruncated ''line_cap'' w1, notified)
           else if length (buffer w1) \<ge> flushLineThreshold w1 then (flush now' w1, notified)
           else (w1, notified))"

definition subscribe :: "nat \<Rightarrow> CaptureWriter \<Rightarrow> CaptureWriter" where
  "subscribe v w = (if stopped w then w else w \<lparr> lineSubscribers := set_add v (lineSubscribers w) \<rparr>)"

definition unsubscribe :: "nat \<Rightarrow> CaptureWriter \<Rightarrow> CaptureWriter" where
  "unsubscribe v w = w \<lparr> lineSubscribers := removeAll v (lineSubscribers w) \<rparr>"

definition onEnd :: "nat \<Rightarrow> CaptureWriter \<Rightarrow> CaptureWriter" where
  "onEnd v w = (if stopped w then w else w \<lparr> endSubscribers := set_add v (endSubscribers w) \<rparr>)"

fun session_status :: "CaptureWriterStatus \<Rightarrow> CaptureSessionStatus" where
  "session_status WriterCompleted = SessionCompleted"
| "session_status WriterTruncated = SessionTruncated"
| "session_status WriterFailed = SessionFailed"

text \<open>
  The rest of \<open>terminate\<close>: the patch of the session row, unless another party writes it, the end
  callbacks and the result.
\<close>

definition finish_patch :: "int \<Rightarrow> CaptureWriter \<Rightarrow> CaptureSessionPatch option" where
  "finish_patch endedAt w =
     (if skipSessionFinalize w then None
      else Some (no_session_patch \<lparr> spStatus := Some (session_status (writerStatus w)), spEndedAt := Some endedAt,
             spByteCount := Some (byteCount w), spLineCount := Some (lineCount w),
             spTerminationReason := Some (terminationReason w) \<rparr>))"

definition finish :: "int \<Rightarrow> CaptureWriter \<Rightarrow> CaptureWriter" where
  "finish endedAt w =
     w \<lparr> endSubscribers := [], lineSubscribers := [],
         writerResult := Some \<lparr> rsStatus = writerStatus w, rsTerminationReason = terminationReason w,
           rsByteCount = byteCount w, rsLineCount = lineCount w, rsEndedAt = endedAt \<rparr> \<rparr>"

section \<open>The life of a writer\<close>

datatype capture_event =
  LineReceived string int int
| SourceError string int
| SourceEnd int
| DurationElapsed int
| FlushElapsed int
| StopRequested string int
| WriteSettled bool
| QueueDrained int
| Subscribed nat
| Unsubscribed nat
| EndWatched nat

text \<open>
  What happened outside the writer: the settled chunk writes with their success, the patches of the
  session row, the lines the subscribers got.
\<close>

record capture =
  writer :: CaptureWriter
  settled :: "(StoredCaptureChunk \<times> bool) list"
  patches :: "CaptureSessionPatch list"
  notified :: "(nat \<times> string) list"

fun capture_step :: "capture_event \<Rightarrow> capture \<Rightarrow> capture option" where
  "capture_step (LineReceived line now now') c =
     (case handleLine line now now' (writer c) of (w, ns) \<Rightarrow> Some (c \<lparr> writer := w, notified := notified c @ ns \<rparr>))"
| "capture_step (SourceError message now) c =
     Some (c \<lparr> writer := terminate now WriterFailed (''source_error: '' @ message) (writer c) \<rparr>)"
| "capture_step (SourceEnd now) c =
     Some (c \<lparr> writer := terminate now (writerStatus (writer c)) (terminationReason (writer c)) (writer c) \<rparr>)"
| "capture_step (DurationElapsed now) c =
     (if durationTimer (writer c)
      then Some (c \<lparr> writer := terminate now WriterCompleted ''duration_cap'' (writer c) \<rparr>) else None)"
| "capture_step (FlushElapsed now) c =
     (if flushTimer (writer c) then Some (c \<lparr> writer := flush now (writer c) \<rparr>) else None)"
| "capture_step (StopRequested reason now) c = Some (c \<lparr> writer := terminate now WriterCompleted reason (writer c) \<rparr>)"
| "capture_step (WriteSettled success) c =
     (case writeQueue (writer c) of
        [] \<Rightarrow> None
      | chunk # rest \<Rightarrow>
          Some (c \<lparr> writer := (writer c) \<lparr> writeQueue := rest \<rparr>, settled := settled c @ [(chunk, success)] \<rparr>))"
| "capture_step (QueueDrained now) c =
     (if stopped (writer c) \<and> writeQueue (writer c) = [] \<and> writerResult (writer c) = None
      then Some (c \<lparr> writer := finish now (writer c),
             patches := patches c @ (case finish_patch now (writer c) of None \<Rightarrow> [] | Some p \<Rightarrow> [p]) \<rparr>)
      else None)"
| "capture_step (Subscribed v) c = Some (c \<lparr> writer := subscribe v (writer c) \<rparr>)"
| "capture_step (Unsubscribed v) c = Some (c \<lparr> writer := unsubscribe v (writer c) \<rparr>)"
| "capture_step (EndWatched v) c = Some (c \<lparr> writer := onEnd v (writer c) \<rparr>)"

fun run_capture :: "capture_event list \<Rightarrow> capture \<Rightarrow> capture option" where
  "run_capture [] c = Some c"
| "run_capture (e # es) c = (case capture_step e c of None \<Rightarrow> None | Some c' \<Rightarrow> run_capture es c')"

definition started :: "CaptureWriterOptions \<Rightarrow> capture" where
  "started opts = \<lparr> writer = start_writer (new_writer opts), settled = [], patches = [], notified = [] \<rparr>"

fun heard :: "capture_event list \<Rightarrow> string list" where
  "heard [] = []"
| "heard (LineReceived line now now' # es) = line # heard es"
| "heard (e # es) = heard es"

text \<open>The lines that arrive before the writer has stopped; it ignores the later ones.\<close>

fun heard_running :: "capture_event list \<Rightarrow> capture \<Rightarrow> string list" where
  "heard_running [] c = []"
| "heard_running (e # es) c =
     (if stopped (writer c) then []
      else heard [e] @ (case capture_step e c of None \<Rightarrow> [] | Some c' \<Rightarrow> heard_running es c'))"

text \<open>Every chunk the writer has handed to the storage, answered or still queued.\<close>

definition all_chunks :: "capture \<Rightarrow> StoredCaptureChunk list" where
  "all_chunks c = map fst (settled c) @ writeQueue (writer c)"

section \<open>What the writer keeps\<close>

definition lines_bytes :: "string list \<Rightarrow> int" where
  "lines_bytes ls = sum_list (map (\<lambda>l. byteLength l + 1) ls)"

definition threshold_of :: "CaptureWriterOptions \<Rightarrow> nat" where
  "threshold_of opts = patched (woFlushLineThreshold opts) DEFAULT_FLUSH_LINE_THRESHOLD"

definition chunk_max :: "CaptureWriterOptions \<Rightarrow> nat" where
  "chunk_max opts = (if threshold_of opts = 0 then 1 else threshold_of opts)"

definition ring_of :: "CaptureWriterOptions \<Rightarrow> nat" where
  "ring_of opts = patched (woRingBufferSize opts) DEFAULT_RING_BUFFER_SIZE"

definition start_of :: "CaptureWriterOptions \<Rightarrow> int" where
  "start_of opts = patched (woStartChunkIndex opts) 0"

definition configured_as :: "CaptureWriterOptions \<Rightarrow> CaptureWriter \<Rightarrow> bool" where
  "configured_as opts w \<longleftrightarrow> sessionId w = woSessionId opts \<and> byteCap w = woByteCap opts \<and> lineCap w = woLineCap opts
     \<and> flushLineThreshold w = threshold_of opts \<and> ringBufferSize w = ring_of opts \<and> writerNodeId w = woNodeId opts
     \<and> skipSessionFinalize w = patched (woSkipSessionFinalize opts) False"

text \<open>The chunks \<open>cks\<close> are consecutive pieces of the lines.\<close>

definition chunked :: "CaptureWriterOptions \<Rightarrow> string list list \<Rightarrow> StoredCaptureChunk list \<Rightarrow> bool" where
  "chunked opts parts cks \<longleftrightarrow> map ckText cks = map (js_join newline) parts
     \<and> map ckLineCount cks = map (\<lambda>p. int (length p)) parts
     \<and> map ckChunkIndex cks = map (\<lambda>i. start_of opts + int i) [0..<length cks]
     \<and> (\<forall>p \<in> set parts. p \<noteq> [] \<and> length p \<le> chunk_max opts)
     \<and> (\<forall>c \<in> set cks. ckSessionId c = woSessionId opts \<and> ckNodeId c = woNodeId opts)"

definition keeps :: "CaptureWriterOptions \<Rightarrow> string list \<Rightarrow> StoredCaptureChunk list \<Rightarrow> CaptureWriter \<Rightarrow> bool" where
  "keeps opts ls done w \<longleftrightarrow> configured_as opts w
     \<and> (\<exists>parts. concat parts @ buffer w = ls \<and> chunked opts parts (done @ writeQueue w))
     \<and> chunkIndex w = start_of opts + int (length (done @ writeQueue w))
     \<and> lineCount w = int (length ls) \<and> byteCount w = lines_bytes ls \<and> bufferBytes w = lines_bytes (buffer w)
     \<and> ringBuffer w = take_last (ring_of opts) ls"

definition below_caps :: "CaptureWriterOptions \<Rightarrow> string list \<Rightarrow> bool" where
  "below_caps opts ls \<longleftrightarrow> lines_bytes ls < woByteCap opts \<and> int (length ls) < woLineCap opts"

text \<open>Before the termination, and after it.\<close>

definition phase_ok :: "CaptureWriterOptions \<Rightarrow> string list \<Rightarrow> CaptureWriter \<Rightarrow> bool" where
  "phase_ok opts ls w \<longleftrightarrow>
     (if stopped w
      then buffer w = [] \<and> \<not> flushTimer w \<and> \<not> durationTimer w
        \<and> (writerStatus w = WriterTruncated \<longleftrightarrow> ls \<noteq> [] \<and> \<not> below_caps opts ls)
        \<and> (\<forall>r. writerResult w = Some r \<longrightarrow> writeQueue w = [] \<and> rsStatus r = writerStatus w
             \<and> rsTerminationReason r = terminationReason w \<and> rsByteCount r = byteCount w \<and> rsLineCount r = lineCount w)
      else (ls = [] \<or> below_caps opts ls) \<and> length (buffer w) < chunk_max opts
        \<and> (flushTimer w \<longleftrightarrow> buffer w \<noteq> []) \<and> durationTimer w \<and> writerResult w = None
        \<and> writerStatus w = WriterCompleted \<and> terminationReason w = ''source_ended'')
     \<and> (butlast ls = [] \<or> below_caps opts (butlast ls))"

definition capture_ok :: "CaptureWriterOptions \<Rightarrow> string list \<Rightarrow> capture \<Rightarrow> bool" where
  "capture_ok opts ls c \<longleftrightarrow> keeps opts ls (map fst (settled c)) (writer c) \<and> phase_ok opts ls (writer c)"

lemma lines_bytes_simps [simp]:
  "lines_bytes [] = 0" "lines_bytes (l # ls) = byteLength l + 1 + lines_bytes ls"
  "lines_bytes (ls @ ls') = lines_bytes ls + lines_bytes ls'"
  by (simp_all add: lines_bytes_def)

lemma chunk_max_pos [simp]: "0 < chunk_max opts"
  by (simp add: chunk_max_def)

lemma byteLength_nonneg [simp]: "0 \<le> byteLength l"
  by (auto simp: byteLength_def intro!: sum_list_nonneg)

lemma flush_simps [simp]:
  "stopped (flush now w) = stopped w" "byteCount (flush now w) = byteCount w" "lineCount (flush now w) = lineCount w"
  "ringBuffer (flush now w) = ringBuffer w" "buffer (flush now w) = []" "flushTimer (flush now w) = False"
  "durationTimer (flush now w) = durationTimer w" "writerStatus (flush now w) = writerStatus w"
  "terminationReason (flush now w) = terminationReason w" "writerResult (flush now w) = writerResult w"
  "sessionId (flush now w) = sessionId w" "byteCap (flush now w) = byteCap w" "lineCap (flush now w) = lineCap w"
  "flushLineThreshold (flush now w) = flushLineThreshold w" "ringBufferSize (flush now w) = ringBufferSize w"
  "writerNodeId (flush now w) = writerNodeId w" "skipSessionFinalize (flush now w) = skipSessionFinalize w"
  by (simp_all add: flush_def Let_def)

lemma chunked_snoc:
  assumes "chunked opts parts cks" and "p \<noteq> []" and "length p \<le> chunk_max opts"
    and "ckText c = js_join newline p" and "ckLineCount c = int (length p)"
    and "ckChunkIndex c = start_of opts + int (length cks)" and "ckSessionId c = woSessionId opts" and "ckNodeId c = woNodeId opts"
  shows "chunked opts (parts @ [p]) (cks @ [c])"
  using assms by (auto simp: chunked_def)

lemma flush_keeps:
  assumes "keeps opts ls done w" and "length (buffer w) \<le> chunk_max opts"
  shows "keeps opts ls done (flush now w)"
proof (cases "buffer w = []")
  case True
  with assms(1) show ?thesis by (simp add: flush_def Let_def keeps_def configured_as_def)
next
  case False
  from assms(1) obtain parts where parts: "concat parts @ buffer w = ls" "chunked opts parts (done @ writeQueue w)"
    by (auto simp: keeps_def)
  define c where "c = \<lparr> ckSessionId = sessionId w, ckChunkIndex = chunkIndex w, ckText = js_join newline (buffer w),
    ckLineCount = int (length (buffer w)), ckFirstTs = bufferFirstTs w, ckLastTs = now, ckNodeId = writerNodeId w \<rparr>"
  have fw: "flush now w = w \<lparr> flushTimer := False, buffer := [], bufferBytes := 0, bufferFirstTs := 0,
      chunkIndex := chunkIndex w + 1, writeQueue := writeQueue w @ [c] \<rparr>"
    using False by (simp add: flush_def Let_def c_def)
  have "chunked opts (parts @ [buffer w]) ((done @ writeQueue w) @ [c])"
    by (rule chunked_snoc [OF parts(2) False assms(2)])
      (use assms(1) in \<open>simp_all add: c_def keeps_def configured_as_def\<close>)
  then have "\<exists>parts'. concat parts' @ [] = ls \<and> chunked opts parts' (done @ writeQueue w @ [c])"
    using parts(1) by (intro exI [of _ "parts @ [buffer w]"]) simp
  with assms(1) show ?thesis by (simp add: fw keeps_def configured_as_def)
qed

lemma terminate_ok:
  assumes keeps: "keeps opts ls done w" and phase: "phase_ok opts ls w"
    and st: "status \<noteq> WriterTruncated"
  shows "keeps opts ls done (terminate now status reason w)" "phase_ok opts ls (terminate now status reason w)"
proof -
  let ?w = "w \<lparr> stopped := True, writerStatus := status, terminationReason := reason, durationTimer := False \<rparr>"
  have "keeps opts ls done ?w" using keeps by (simp add: keeps_def configured_as_def)
  moreover have "\<not> stopped w \<Longrightarrow> length (buffer ?w) \<le> chunk_max opts" using phase by (simp add: phase_ok_def)
  ultimately show "keeps opts ls done (terminate now status reason w)"
    using keeps flush_keeps by (auto simp: terminate_def)
  show "phase_ok opts ls (terminate now status reason w)"
    using phase st by (auto simp: terminate_def phase_ok_def)
qed

lemma push_ring: "(let pushed = take_last n xs @ [x] in if length pushed > n then drop (length pushed - n) pushed else pushed)
    = take_last n (xs @ [x])"
proof -
  have "drop (Suc (length xs - n)) xs = drop (Suc (length xs) - n) xs" if "n < Suc (length xs - (length xs - n))"
    using that by (intro arg_cong [where f = "\<lambda>k. drop k xs"]) linarith
  then show ?thesis by (auto simp: Let_def take_last_def min_def)
qed

lemma pushRingBuffer_simps [simp]:
  "sessionId (pushRingBuffer line w) = sessionId w" "byteCap (pushRingBuffer line w) = byteCap w" 
  "lineCap (pushRingBuffer line w) = lineCap w" 
  "flushLineThreshold (pushRingBuffer line w) = flushLineThreshold w" 
  "ringBufferSize (pushRingBuffer line w) = ringBufferSize w" 
  "writerNodeId (pushRingBuffer line w) = writerNodeId w" 
  "skipSessionFinalize (pushRingBuffer line w) = skipSessionFinalize w" 
  "chunkIndex (pushRingBuffer line w) = chunkIndex w" 
  "lineSubscribers (pushRingBuffer line w) = lineSubscribers w" 
  "endSubscribers (pushRingBuffer line w) = endSubscribers w" 
  "writerStatus (pushRingBuffer line w) = writerStatus w" 
  "terminationReason (pushRingBuffer line w) = terminationReason w" "stopped (pushRingBuffer line w) = stopped w" 
  "durationTimer (pushRingBuffer line w) = durationTimer w" "writeQueue (pushRingBuffer line w) = writeQueue w" 
  "writerResult (pushRingBuffer line w) = writerResult w" "buffer (pushRingBuffer line w) = buffer w" 
  "bufferBytes (pushRingBuffer line w) = bufferBytes w" "bufferFirstTs (pushRingBuffer line w) = bufferFirstTs w" 
  "byteCount (pushRingBuffer line w) = byteCount w" "lineCount (pushRingBuffer line w) = lineCount w" 
  "flushTimer (pushRingBuffer line w) = flushTimer w"
  by (simp_all add: pushRingBuffer_def Let_def)

lemma count_line_simps [simp]:
  "sessionId (count_line line now w) = sessionId w" "byteCap (count_line line now w) = byteCap w" 
  "lineCap (count_line line now w) = lineCap w" 
  "flushLineThreshold (count_line line now w) = flushLineThreshold w" 
  "ringBufferSize (count_line line now w) = ringBufferSize w" 
  "writerNodeId (count_line line now w) = writerNodeId w" 
  "skipSessionFinalize (count_line line now w) = skipSessionFinalize w" 
  "chunkIndex (count_line line now w) = chunkIndex w" 
  "lineSubscribers (count_line line now w) = lineSubscribers w" 
  "endSubscribers (count_line line now w) = endSubscribers w" 
  "writerStatus (count_line line now w) = writerStatus w" 
  "terminationReason (count_line line now w) = terminationReason w" "stopped (count_line line now w) = stopped w" 
  "durationTimer (count_line line now w) = durationTimer w" "writeQueue (count_line line now w) = writeQueue w" 
  "writerResult (count_line line now w) = writerResult w" "ringBuffer (count_line line now w) = ringBuffer w" 
  "buffer (count_line line now w) = buffer w @ [line]" 
  "bufferBytes (count_line line now w) = bufferBytes w + (byteLength line + 1)" 
  "byteCount (count_line line now w) = byteCount w + (byteLength line + 1)" 
  "lineCount (count_line line now w) = lineCount w + 1" 
  "flushTimer (count_line line now w) \<longleftrightarrow> buffer w = [] \<or> flushTimer w"
  by (simp_all add: count_line_def Let_def)

text \<open>A line is taken in; then a cap, the threshold or nothing acts.\<close>

lemma taken_in:
  fixes line :: string and now :: int
  assumes "keeps opts ls done w" and "phase_ok opts ls w" and "\<not> stopped w"
  defines "w1 \<equiv> pushRingBuffer line (count_line line now w)"
  shows "keeps opts (ls @ [line]) done w1" and "length (buffer w1) \<le> chunk_max opts" and "\<not> stopped w1"
    and "buffer w1 \<noteq> []" and "flushTimer w1" and "durationTimer w1" and "writerResult w1 = None"
    and "writerStatus w1 = WriterCompleted" and "terminationReason w1 = ''source_ended''"
    and "lineSubscribers w1 = lineSubscribers w"
proof -
  have cfg: "ringBufferSize w = ring_of opts" and ring: "ringBuffer w = take_last (ring_of opts) ls"
    using assms(1) by (simp_all add: keeps_def configured_as_def)
  have "ringBuffer w1 = take_last (ring_of opts) (ls @ [line])"
    unfolding push_ring [of "ring_of opts" ls line, symmetric]
    by (simp add: w1_def pushRingBuffer_def Let_def cfg ring)
  moreover have "\<exists>parts. concat parts @ buffer w @ [line] = ls @ [line] \<and> chunked opts parts (done @ writeQueue w)"
    using assms(1) by (auto simp: keeps_def)
  ultimately show "keeps opts (ls @ [line]) done w1"
    using assms(1) by (simp add: w1_def keeps_def configured_as_def)
  show "length (buffer w1) \<le> chunk_max opts" "\<not> stopped w1" "buffer w1 \<noteq> []" "flushTimer w1" "durationTimer w1"
    "writerResult w1 = None" "writerStatus w1 = WriterCompleted" "terminationReason w1 = ''source_ended''"
    "lineSubscribers w1 = lineSubscribers w"
    using assms(2,3) by (auto simp: w1_def phase_ok_def)
qed

lemma handleLine_ok:
  assumes keeps: "keeps opts ls done w" and phase: "phase_ok opts ls w" and run: "\<not> stopped w"
    and h: "handleLine line now now' w = (w', ns)"
  shows "keeps opts (ls @ [line]) done w' \<and> phase_ok opts (ls @ [line]) w'"
proof -
  define w1 where "w1 = pushRingBuffer line (count_line line now w)"
  note w1 = taken_in [OF keeps phase run, where line = line and now = now, folded w1_def]
  have cnt: "byteCount w1 = lines_bytes (ls @ [line])" "lineCount w1 = int (length (ls @ [line]))"
    "byteCap w1 = woByteCap opts" "lineCap w1 = woLineCap opts" "flushLineThreshold w1 = threshold_of opts"
    using w1(1) by (simp_all add: keeps_def configured_as_def)
  have before: "butlast (ls @ [line]) = [] \<or> below_caps opts (butlast (ls @ [line]))"
    using phase run by (simp add: phase_ok_def)
  define capped where "capped = (\<lambda>reason. w1 \<lparr> stopped := True, writerStatus := WriterTruncated, terminationReason := reason,
    durationTimer := False \<rparr>)"
  have trunc: "keeps opts (ls @ [line]) done (flush now' (capped reason))
      \<and> (\<not> below_caps opts (ls @ [line]) \<longrightarrow> phase_ok opts (ls @ [line]) (flush now' (capped reason)))" for reason
  proof
    have "keeps opts (ls @ [line]) done (capped reason)" using w1(1) by (simp add: capped_def keeps_def configured_as_def)
    then show "keeps opts (ls @ [line]) done (flush now' (capped reason))"
      by (rule flush_keeps) (use w1(2) in \<open>simp add: capped_def\<close>)
    show "\<not> below_caps opts (ls @ [line]) \<longrightarrow> phase_ok opts (ls @ [line]) (flush now' (capped reason))"
      using w1(7) before by (simp add: phase_ok_def capped_def)
  qed
  have term_eq: "terminate now' WriterTruncated reason w1 = flush now' (capped reason)" for reason
    using w1(3) by (simp add: terminate_def capped_def)
  have w': "w' = (if byteCount w1 \<ge> byteCap w1 then flush now' (capped ''byte_cap'')
      else if lineCount w1 \<ge> lineCap w1 then flush now' (capped ''line_cap'')
      else if length (buffer w1) \<ge> flushLineThreshold w1 then flush now' w1 else w1)"
    using h run by (simp add: handleLine_def Let_def term_eq flip: w1_def split: if_splits)
  show ?thesis
  proof (cases "below_caps opts (ls @ [line])")
    case False
    then have "w' = flush now' (capped ''byte_cap'') \<or> w' = flush now' (capped ''line_cap'')"
      by (auto simp: w' below_caps_def cnt)
    with trunc False show ?thesis by blast
  next
    case True
    then have "w' = (if length (buffer w1) \<ge> threshold_of opts then flush now' w1 else w1)"
      by (simp add: w' below_caps_def cnt)
    moreover have "keeps opts (ls @ [line]) done (flush now' w1)" by (rule flush_keeps [OF w1(1,2)])
    moreover have "phase_ok opts (ls @ [line]) (flush now' w1)"
      using w1 True before by (simp add: phase_ok_def)
    moreover have "length (buffer w1) < threshold_of opts \<Longrightarrow> phase_ok opts (ls @ [line]) w1"
      using w1 True before by (auto simp: phase_ok_def chunk_max_def)
    ultimately show ?thesis using w1(1) by (auto simp: not_le)
  qed
qed

definition heard_by :: "capture_event \<Rightarrow> capture \<Rightarrow> string list" where
  "heard_by e c = (if stopped (writer c) then [] else heard [e])"

lemma subscribers_ok [simp]:
  "capture_ok opts ls (c \<lparr> writer := (writer c) \<lparr> lineSubscribers := subs \<rparr> \<rparr>) = capture_ok opts ls c"
  "capture_ok opts ls (c \<lparr> writer := (writer c) \<lparr> endSubscribers := subs \<rparr> \<rparr>) = capture_ok opts ls c"
  by (simp_all add: capture_ok_def keeps_def configured_as_def phase_ok_def)

lemma terminated_ok:
  assumes "capture_ok opts ls c" and "status \<noteq> WriterTruncated" and "settled c' = settled c"
    and "writer c' = terminate now status reason (writer c)"
  shows "capture_ok opts ls c'"
  using assms(1) terminate_ok [OF _ _ assms(2), of opts ls "map fst (settled c)" "writer c"]
  by (simp add: capture_ok_def assms(3,4))

lemma capture_step_ok:
  assumes ok: "capture_ok opts ls c" and step: "capture_step e c = Some c'"
  shows "capture_ok opts (ls @ heard_by e c) c'"
proof (cases e)
  case (LineReceived line now now')
  obtain w ns where h: "handleLine line now now' (writer c) = (w, ns)" by (cases "handleLine line now now' (writer c)")
  then have c': "c' = c \<lparr> writer := w, notified := notified c @ ns \<rparr>" using step LineReceived by simp
  show ?thesis
  proof (cases "stopped (writer c)")
    case True
    then have "w = writer c" using h by (simp add: handleLine_def)
    with ok show ?thesis by (simp add: c' heard_by_def True capture_ok_def)
  next
    case False
    with handleLine_ok [OF _ _ False h, of opts ls "map fst (settled c)"] ok show ?thesis
      by (simp add: c' heard_by_def LineReceived capture_ok_def)
  qed
next
  case (SourceError message now)
  then show ?thesis using step by (auto simp: heard_by_def intro: terminated_ok [OF ok, of WriterFailed])
next
  case (SourceEnd now)
  show ?thesis
  proof (cases "stopped (writer c)")
    case True
    then have "c' = c" using step SourceEnd by (simp add: terminate_def)
    with ok show ?thesis by (simp add: heard_by_def True)
  next
    case False
    then have "writerStatus (writer c) = WriterCompleted" using ok by (simp add: capture_ok_def phase_ok_def)
    with step SourceEnd show ?thesis by (auto simp: heard_by_def intro: terminated_ok [OF ok, of WriterCompleted])
  qed
next
  case (DurationElapsed now)
  then show ?thesis using step by (auto simp: heard_by_def split: if_splits intro: terminated_ok [OF ok, of WriterCompleted])
next
  case (FlushElapsed now)
  then have c': "c' = c \<lparr> writer := flush now (writer c) \<rparr>" and ft: "flushTimer (writer c)" using step by (auto split: if_splits)
  have "\<not> stopped (writer c)" "length (buffer (writer c)) < chunk_max opts"
    using ok ft by (auto simp: capture_ok_def phase_ok_def split: if_splits)
  moreover have "keeps opts ls (map fst (settled c)) (flush now (writer c))"
    by (rule flush_keeps) (use ok calculation in \<open>simp_all add: capture_ok_def\<close>)
  ultimately show ?thesis using ok by (simp add: c' heard_by_def FlushElapsed capture_ok_def phase_ok_def)
next
  case (StopRequested reason now)
  then show ?thesis using step by (auto simp: heard_by_def intro: terminated_ok [OF ok, of WriterCompleted])
next
  case (WriteSettled success)
  then obtain chunk rest where q: "writeQueue (writer c) = chunk # rest"
    and c': "c' = c \<lparr> writer := (writer c) \<lparr> writeQueue := rest \<rparr>, settled := settled c @ [(chunk, success)] \<rparr>"
    using step by (auto split: list.splits)
  have "keeps opts ls (map fst (settled c')) (writer c')"
    using ok q by (simp add: c' capture_ok_def keeps_def configured_as_def)
  moreover have "phase_ok opts ls (writer c')" using ok q by (auto simp: c' capture_ok_def phase_ok_def)
  ultimately show ?thesis by (simp add: heard_by_def WriteSettled capture_ok_def)
next
  case (QueueDrained now)
  then have c': "settled c' = settled c" "writer c' = finish now (writer c)"
    and st: "stopped (writer c)" "writeQueue (writer c) = []" using step by (auto split: if_splits)
  have "keeps opts ls (map fst (settled c')) (writer c')"
    using ok st by (simp add: c' capture_ok_def keeps_def configured_as_def finish_def)
  moreover have "phase_ok opts ls (writer c')" using ok st by (auto simp: c' capture_ok_def phase_ok_def finish_def)
  ultimately show ?thesis by (simp add: heard_by_def QueueDrained capture_ok_def)
next
  case (Subscribed v)
  with step have "c' = c \<or> (\<exists>subs. c' = c \<lparr> writer := (writer c) \<lparr> lineSubscribers := subs \<rparr> \<rparr>)"
    by (auto simp: subscribe_def split: if_splits)
  with ok Subscribed show ?thesis by (auto simp: heard_by_def)
next
  case (Unsubscribed v)
  with step ok show ?thesis by (auto simp: heard_by_def unsubscribe_def)
next
  case (EndWatched v)
  with step have "c' = c \<or> (\<exists>subs. c' = c \<lparr> writer := (writer c) \<lparr> endSubscribers := subs \<rparr> \<rparr>)"
    by (auto simp: onEnd_def split: if_splits)
  with ok EndWatched show ?thesis by (auto simp: heard_by_def)
qed

lemma started_ok: "capture_ok opts [] (started opts)"
  by (simp add: capture_ok_def started_def start_writer_def new_writer_def keeps_def configured_as_def phase_ok_def
      chunked_def threshold_of_def ring_of_def start_of_def take_last_def)

lemma stopped_step:
  assumes "capture_step e c = Some c'" and "stopped (writer c)"
  shows "stopped (writer c')"
  using assms by (cases e) (auto simp: handleLine_def terminate_def subscribe_def unsubscribe_def onEnd_def finish_def
      split: if_splits list.splits option.splits)

lemma stopped_run:
  assumes "capture_ok opts ls c" and "stopped (writer c)" and "run_capture es c = Some c'"
  shows "capture_ok opts ls c' \<and> stopped (writer c')"
  using assms
proof (induction es arbitrary: c)
  case (Cons e es)
  then obtain c1 where c1: "capture_step e c = Some c1" and rest: "run_capture es c1 = Some c'" by (auto split: option.splits)
  have "capture_ok opts ls c1" using capture_step_ok [OF Cons.prems(1) c1] Cons.prems(2) by (simp add: heard_by_def)
  with Cons.IH stopped_step [OF c1 Cons.prems(2)] rest show ?case by blast
qed simp

lemma capture_run_ok:
  assumes "capture_ok opts ls c" and "run_capture es c = Some c'"
  shows "\<exists>n \<le> length (heard es). capture_ok opts (ls @ take n (heard es)) c'
    \<and> (\<not> stopped (writer c') \<longrightarrow> n = length (heard es))"
  using assms
proof (induction es arbitrary: c ls)
  case (Cons e es)
  then obtain c1 where c1: "capture_step e c = Some c1" and rest: "run_capture es c1 = Some c'" by (auto split: option.splits)
  show ?case
  proof (cases "stopped (writer c)")
    case True
    with stopped_run [OF Cons.prems(1) _ Cons.prems(2)] show ?thesis by (intro exI [of _ 0]) simp
  next
    case False
    have hb: "heard (e # es) = heard_by e c @ heard es" using False by (cases e) (simp_all add: heard_by_def)
    obtain n where "n \<le> length (heard es)" "capture_ok opts ((ls @ heard_by e c) @ take n (heard es)) c'"
      "\<not> stopped (writer c') \<longrightarrow> n = length (heard es)"
      using Cons.IH [OF capture_step_ok [OF Cons.prems(1) c1] rest] by blast
    then show ?thesis unfolding hb by (intro exI [of _ "length (heard_by e c) + n"]) simp
  qed
qed simp

lemma running_ok:
  assumes "capture_ok opts ls c" and "run_capture es c = Some c'"
  shows "capture_ok opts (ls @ heard_running es c) c' \<and> (\<exists>rest. heard es = heard_running es c @ rest)
    \<and> (\<not> stopped (writer c') \<longrightarrow> heard_running es c = heard es)"
  using assms
proof (induction es arbitrary: c ls)
  case (Cons e es)
  then obtain c1 where c1: "capture_step e c = Some c1" and rest: "run_capture es c1 = Some c'" by (auto split: option.splits)
  show ?case
  proof (cases "stopped (writer c)")
    case True
    with stopped_run [OF Cons.prems(1) _ Cons.prems(2)] show ?thesis by simp
  next
    case False
    then have hb: "heard_by e c = heard [e]" and hs: "heard (e # es) = heard [e] @ heard es"
      by (simp_all add: heard_by_def) (cases e; simp)
    from Cons.IH [OF capture_step_ok [OF Cons.prems(1) c1] rest] show ?thesis
      using False by (auto simp: c1 hb hs simp del: heard.simps)
  qed
qed simp

lemma reached_ok:
  assumes "run_capture es (started opts) = Some c"
  obtains n where "n \<le> length (heard es)" "capture_ok opts (take n (heard es)) c"
    "\<not> stopped (writer c) \<Longrightarrow> n = length (heard es)"
  using capture_run_ok [OF started_ok assms] by auto

lemma run_snoc:
  "run_capture es c = Some c1 \<Longrightarrow> capture_step e c1 = Some c2 \<Longrightarrow> run_capture (es @ [e]) c = Some c2"
  by (induction es arbitrary: c) (auto split: option.splits)

lemma line_bound:
  assumes "capture_ok opts ls c"
  shows "lineCount (writer c) \<le> max 1 (woLineCap opts)"
proof -
  have "lineCount (writer c) = int (length ls)" and "butlast ls = [] \<or> below_caps opts (butlast ls)"
    using assms by (simp_all add: capture_ok_def keeps_def phase_ok_def)
  then show ?thesis by (cases ls rule: rev_cases) (auto simp: below_caps_def)
qed

section \<open>Reading the chunks\<close>

text \<open>\<open>text.split(c)\<close>, and what the readers of a session do with a chunk: they skip empty pieces.\<close>

fun split_at :: "char \<Rightarrow> string \<Rightarrow> string list" where
  "split_at c [] = [[]]"
| "split_at c (x # xs) = (if x = c then [] # split_at c xs else (x # hd (split_at c xs)) # tl (split_at c xs))"

definition chunk_lines :: "StoredCaptureChunk \<Rightarrow> string list" where
  "chunk_lines c = filter (\<lambda>l. l \<noteq> []) (split_at (CHR 0x0A) (ckText c))"

lemma split_at_plain: "c \<notin> set x \<Longrightarrow> split_at c (x @ xs) = (x @ hd (split_at c xs)) # tl (split_at c xs)"
proof (induction x)
  case Nil
  then show ?case by (cases xs) simp_all
qed auto

lemma split_join:
  assumes "p \<noteq> []" and "\<forall>l \<in> set p. c \<notin> set l"
  shows "split_at c (js_join [c] p) = p"
  using assms
proof (induction p)
  case (Cons l p)
  show ?case
  proof (cases "p = []")
    case True
    with Cons.prems split_at_plain [of c l "[]"] show ?thesis by simp
  next
    case False
    with Cons split_at_plain [of c l "c # js_join [c] p"] show ?thesis by (simp add: js_join_Cons)
  qed
qed simp

lemma chunked_lines:
  assumes "chunked opts parts cks" and "\<forall>l \<in> set (concat parts). l \<noteq> [] \<and> CHR 0x0A \<notin> set l"
  shows "concat (map chunk_lines cks) = concat parts"
proof -
  have "chunk_lines ck = p" if "ckText ck = js_join newline p" "p \<in> set parts" for ck p
  proof -
    have "split_at (CHR 0x0A) (js_join [CHR 0x0A] p) = p"
      using assms that(2) by (intro split_join) (auto simp: chunked_def)
    moreover have "filter (\<lambda>l. l \<noteq> []) p = p" using assms(2) that(2) by (intro filter_True) auto
    ultimately show ?thesis by (simp add: chunk_lines_def that(1) newline_def)
  qed
  moreover have "map ckText cks = map (js_join newline) parts" using assms(1) by (simp add: chunked_def)
  ultimately have "map chunk_lines cks = parts"
    by (intro nth_equalityI) (auto simp: list_eq_iff_nth_eq)
  then show ?thesis by simp
qed

section \<open>What a capture gives\<close>

text \<open>
  C7: whatever lines, timers, stops and storage answers follow each other, the chunks handed to the
  storage, read back as the readers of a session do, and the lines still in the buffer are together
  exactly the lines that arrived while the writer ran, in order: none is lost, doubled or reordered.
  These are a first part of all lines received, and all of them as long as the writer runs; once it has
  stopped, its buffer is empty. The line and byte counters and the ring buffer are those of the same
  lines. The lines are not empty and hold no line feed, as lines of the MONITOR protocol. (A chunk that
  the storage refuses is logged and not written again.)
\<close>

theorem capture_is_lossless:
  assumes "run_capture es (started opts) = Some c" and "\<forall>l \<in> set (heard es). l \<noteq> [] \<and> CHR 0x0A \<notin> set l"
  shows "concat (map chunk_lines (all_chunks c)) @ buffer (writer c) = heard_running es (started opts)
    \<and> lineCount (writer c) = int (length (heard_running es (started opts)))
    \<and> byteCount (writer c) = lines_bytes (heard_running es (started opts))
    \<and> ringBuffer (writer c) = take_last (ring_of opts) (heard_running es (started opts))
    \<and> (\<exists>later. heard es = heard_running es (started opts) @ later)
    \<and> (if stopped (writer c) then buffer (writer c) = [] else heard_running es (started opts) = heard es)"
proof -
  define ls where "ls = heard_running es (started opts)"
  have ok: "capture_ok opts ls c" and pre: "\<exists>later. heard es = ls @ later"
    and run: "\<not> stopped (writer c) \<longrightarrow> ls = heard es"
    using running_ok [OF started_ok assms(1)] by (simp_all add: ls_def)
  from ok obtain parts where parts: "concat parts @ buffer (writer c) = ls" "chunked opts parts (all_chunks c)"
    by (auto simp: capture_ok_def keeps_def all_chunks_def)
  have "set (concat parts) \<subseteq> set ls" unfolding parts(1) [symmetric] by simp
  moreover have "set ls \<subseteq> set (heard es)" using pre by auto
  ultimately have "\<forall>l \<in> set (concat parts). l \<noteq> [] \<and> CHR 0x0A \<notin> set l" using assms(2) by blast
  from chunked_lines [OF parts(2) this] parts(1) ok pre run show ?thesis
    unfolding ls_def [symmetric] by (simp add: capture_ok_def keeps_def phase_ok_def)
qed

text \<open>
  a capture passes its caps with its last line only, and it ends as truncated exactly when a cap was
  reached, whatever else asks for its end.
\<close>

theorem capture_truncated_at_caps:
  assumes "run_capture es (started opts) = Some c"
  shows "(0 \<le> lineCount (writer c) \<and> lineCount (writer c) \<le> max 1 (woLineCap opts))
    \<and> (\<exists>last before. byteCount (writer c) = before + last \<and> (before = 0 \<or> before < woByteCap opts)
         \<and> last \<in> insert 0 ((\<lambda>l. byteLength l + 1) ` set (heard es)))
    \<and> ((stopped (writer c) \<and> writerStatus (writer c) = WriterTruncated) =
         (0 < lineCount (writer c) \<and> (woByteCap opts \<le> byteCount (writer c) \<or> woLineCap opts \<le> lineCount (writer c))))"
proof -
  obtain n where n: "n \<le> length (heard es)" and ok: "capture_ok opts (take n (heard es)) c"
    using reached_ok [OF assms] by blast
  define ls where "ls = take n (heard es)"
  have cnt: "lineCount (writer c) = int (length ls)" "byteCount (writer c) = lines_bytes ls"
    using ok by (simp_all add: capture_ok_def keeps_def ls_def)
  have phase: "phase_ok opts ls (writer c)" using ok by (simp add: capture_ok_def ls_def)
  then have before: "butlast ls = [] \<or> below_caps opts (butlast ls)" by (simp add: phase_ok_def)
  have sub: "set ls \<subseteq> set (heard es)" using set_take_subset by (simp add: ls_def)
  have lines: "lineCount (writer c) \<le> max 1 (woLineCap opts)" by (rule line_bound [OF ok])
  have bytes: "\<exists>last before. byteCount (writer c) = before + last \<and> (before = 0 \<or> before < woByteCap opts)
      \<and> last \<in> insert 0 ((\<lambda>l. byteLength l + 1) ` set (heard es))"
  proof (cases ls rule: rev_cases)
    case Nil
    then show ?thesis by (intro exI [of _ 0]) (simp add: cnt)
  next
    case (snoc ls' l)
    then have "ls' = [] \<or> lines_bytes ls' < woByteCap opts" using before by (auto simp: below_caps_def)
    moreover have "byteLength l + 1 \<in> (\<lambda>l. byteLength l + 1) ` set (heard es)" using sub snoc by auto
    ultimately show ?thesis using snoc
      by (intro exI [of _ "byteLength l + 1"] exI [of _ "lines_bytes ls'"]) (auto simp: cnt)
  qed
  have "(stopped (writer c) \<and> writerStatus (writer c) = WriterTruncated) = (ls \<noteq> [] \<and> \<not> below_caps opts ls)"
    using phase by (auto simp: phase_ok_def split: if_splits)
  then show ?thesis using lines bytes by (auto simp: cnt below_caps_def not_less)
qed

text \<open>The events that end a capture: the duration timer, the settling of its writes, the drained queue.\<close>

definition ending :: "int \<Rightarrow> bool list \<Rightarrow> capture \<Rightarrow> capture_event list" where
  "ending now answers c = (if stopped (writer c) then [] else [DurationElapsed now]) @ map WriteSettled answers @ [QueueDrained now]"

lemma settle_all:
  assumes "stopped (writer c)" and "writerResult (writer c) = None" and "length answers = length (writeQueue (writer c))"
  shows "\<exists>c'. run_capture (map WriteSettled answers @ [QueueDrained now]) c = Some c'
    \<and> writeQueue (writer c') = [] \<and> map fst (settled c') = map fst (settled c) @ writeQueue (writer c)
    \<and> writerResult (writer c') = Some \<lparr> rsStatus = writerStatus (writer c), rsTerminationReason = terminationReason (writer c),
         rsByteCount = byteCount (writer c), rsLineCount = lineCount (writer c), rsEndedAt = now \<rparr>"
  using assms
proof (induction answers arbitrary: c)
  case Nil
  then show ?case by (simp add: finish_def)
next
  case (Cons a as)
  then obtain ck rest where q: "writeQueue (writer c) = ck # rest" by (cases "writeQueue (writer c)") auto
  define c1 where "c1 = c \<lparr> writer := (writer c) \<lparr> writeQueue := rest \<rparr>, settled := settled c @ [(ck, a)] \<rparr>"
  have "capture_step (WriteSettled a) c = Some c1" by (simp add: q c1_def)
  moreover have "stopped (writer c1)" "writerResult (writer c1) = None" "length as = length (writeQueue (writer c1))"
    using Cons.prems by (simp_all add: c1_def q)
  note Cons.IH [OF this]
  ultimately show ?case by (simp add: c1_def q)
qed

text \<open>
  a capture ends. From every state a writer can reach before its promise is resolved, its duration
  timer (unless it has stopped already), one answer of the storage for each chunk write, good or bad,
  and the drained queue resolve the promise, and no write is left behind.
\<close>

theorem capture_ends:
  assumes "run_capture es (started opts) = Some c" and "writerResult (writer c) = None"
  shows "\<exists>k. \<forall>answers now. length answers = k \<longrightarrow>
    (\<exists>c' r. run_capture (ending now answers c) c = Some c' \<and> writerResult (writer c') = Some r
       \<and> writeQueue (writer c') = [] \<and> buffer (writer c') = []
       \<and> rsLineCount r = lineCount (writer c) \<and> rsByteCount r = byteCount (writer c))"
proof -
  obtain n where ok: "capture_ok opts (take n (heard es)) c" using reached_ok [OF assms(1)] by blast
  have end_ok: "buffer (writer c') = []" if run: "run_capture es' c = Some c'" and st: "stopped (writer c')" for es' c'
  proof -
    obtain m where "capture_ok opts (take n (heard es) @ take m (heard es')) c'" using capture_run_ok [OF ok run] by blast
    with st show ?thesis by (simp add: capture_ok_def phase_ok_def)
  qed
  define c1 where "c1 now = (if stopped (writer c) then c else c \<lparr> writer := terminate now WriterCompleted ''duration_cap'' (writer c) \<rparr>)"
    for now
  have c1: "stopped (writer (c1 now))" "writerResult (writer (c1 now)) = None"
    "lineCount (writer (c1 now)) = lineCount (writer c)" "byteCount (writer (c1 now)) = byteCount (writer c)"
    "length (writeQueue (writer (c1 now))) = length (writeQueue (writer c)) + of_bool (\<not> stopped (writer c) \<and> buffer (writer c) \<noteq> [])" for now
    using assms(2) by (simp_all add: c1_def terminate_def) (simp add: flush_def Let_def)
  have steps: "run_capture (ending now answers c) c = run_capture (map WriteSettled answers @ [QueueDrained now]) (c1 now)" for now answers
    using ok by (auto simp: ending_def c1_def capture_ok_def phase_ok_def split: if_splits)
  have "\<exists>c' r. run_capture (ending now answers c) c = Some c' \<and> writerResult (writer c') = Some r
      \<and> writeQueue (writer c') = [] \<and> buffer (writer c') = []
      \<and> rsLineCount r = lineCount (writer c) \<and> rsByteCount r = byteCount (writer c)"
    if len: "length answers = length (writeQueue (writer (c1 now)))" for answers now
  proof -
    obtain c' where c': "run_capture (ending now answers c) c = Some c'" "writeQueue (writer c') = []"
      "writerResult (writer c') = Some \<lparr> rsStatus = writerStatus (writer (c1 now)),
         rsTerminationReason = terminationReason (writer (c1 now)), rsByteCount = byteCount (writer (c1 now)),
         rsLineCount = lineCount (writer (c1 now)), rsEndedAt = now \<rparr>"
      using settle_all [OF c1(1,2) len, of now] unfolding steps by blast
    obtain m where "capture_ok opts (take n (heard es) @ take m (heard (ending now answers c))) c'"
      using capture_run_ok [OF ok c'(1)] by blast
    then have "stopped (writer c')" using c'(3) by (auto simp: capture_ok_def phase_ok_def split: if_splits)
    from end_ok [OF c'(1) this] c' c1(3,4) show ?thesis by auto
  qed
  with c1(5) show ?thesis
    by (intro exI [of _ "length (writeQueue (writer c)) + of_bool (\<not> stopped (writer c) \<and> buffer (writer c) \<noteq> [])"]) metis
qed

text \<open>Every chunk holds a line, so there are no more chunks than lines.\<close>

lemma concat_length: "\<forall>p \<in> set parts. p \<noteq> [] \<Longrightarrow> length parts \<le> length (concat parts)"
proof (induction parts)
  case (Cons p parts)
  then have "1 \<le> length p" and "length parts \<le> length (concat parts)" by (simp_all add: Suc_le_eq)
  from add_mono [OF this] show ?case by simp
qed simp

lemma chunk_indexes:
  assumes "run_capture es (started opts) = Some c"
  shows "map ckChunkIndex (all_chunks c) = map (\<lambda>i. start_of opts + int i) [0..<length (all_chunks c)]"
    and "int (length (all_chunks c)) \<le> max 1 (woLineCap opts)"
    and "\<forall>ck \<in> set (all_chunks c). ckSessionId ck = woSessionId opts"
proof -
  obtain ls where ok: "capture_ok opts ls c" using reached_ok [OF assms] by blast
  then obtain parts where parts: "concat parts @ buffer (writer c) = ls" "chunked opts parts (all_chunks c)"
    by (auto simp: capture_ok_def keeps_def all_chunks_def)
  from parts(2) show "map ckChunkIndex (all_chunks c) = map (\<lambda>i. start_of opts + int i) [0..<length (all_chunks c)]"
    by (simp add: chunked_def)
  have "length (all_chunks c) = length parts" using parts(2) by (metis chunked_def length_map)
  also have "\<dots> \<le> length (concat parts)" using parts(2) by (intro concat_length) (simp add: chunked_def)
  also have "\<dots> \<le> length ls" using parts(1) by auto
  finally have "int (length (all_chunks c)) \<le> lineCount (writer c)" using ok by (simp add: capture_ok_def keeps_def)
  with line_bound [OF ok] show "int (length (all_chunks c)) \<le> max 1 (woLineCap opts)" by (rule order_trans [rotated])
  show "\<forall>ck \<in> set (all_chunks c). ckSessionId ck = woSessionId opts" using parts(2) by (simp add: chunked_def)
qed

section \<open>Runs\<close>

definition demo_options :: "int \<Rightarrow> CaptureWriterOptions" where
  "demo_options start = \<lparr> woSessionId = ''s1'', woByteCap = 100, woLineCap = 3, woFlushLineThreshold = Some 2,
     woRingBufferSize = Some 2, woNodeId = None, woStartChunkIndex = Some start, woSkipSessionFinalize = None \<rparr>"

definition demo_lines :: "capture_event list" where
  "demo_lines = [LineReceived ''one'' 1 1, LineReceived ''two'' 2 2, WriteSettled True, LineReceived ''three'' 3 3,
     LineReceived ''four'' 4 4]"

definition demo_capture :: capture where
  "demo_capture = (case run_capture demo_lines (started (demo_options 0)) of Some c \<Rightarrow> c | None \<Rightarrow> started (demo_options 0))"

lemma demo_capture_run: "run_capture demo_lines (started (demo_options 0)) = Some demo_capture"
proof -
  have "run_capture demo_lines (started (demo_options 0)) \<noteq> None" by code_simp
  then show ?thesis by (auto simp: demo_capture_def)
qed

lemma capture_is_lossless_witness:
  "heard_running demo_lines (started (demo_options 0)) = [''one'', ''two'', ''three'']
    \<and> concat (map chunk_lines (all_chunks demo_capture)) @ buffer (writer demo_capture) = [''one'', ''two'', ''three'']
    \<and> lineCount (writer demo_capture) = 3"
proof -
  have plain: "\<forall>l \<in> set (heard demo_lines). l \<noteq> [] \<and> CHR 0x0A \<notin> set l" by code_simp
  have ran: "heard_running demo_lines (started (demo_options 0)) = [''one'', ''two'', ''three'']" by code_simp
  from capture_is_lossless [OF demo_capture_run plain] show ?thesis unfolding ran by simp
qed

lemma capture_truncated_at_caps_witness:
  "writerStatus (writer demo_capture) = WriterTruncated \<and> lineCount (writer demo_capture) \<le> 3"
proof
  show "writerStatus (writer demo_capture) = WriterTruncated" by code_simp
  have "lineCount (writer demo_capture) \<le> max 1 (woLineCap (demo_options 0))"
    using capture_truncated_at_caps [OF demo_capture_run] by blast
  then show "lineCount (writer demo_capture) \<le> 3" by (simp add: demo_options_def)
qed

lemma capture_ends_witness:
  "\<exists>k answers now c'. length answers = k \<and> run_capture (ending now answers demo_capture) demo_capture = Some c'
    \<and> buffer (writer c') = []"
proof -
  have "writerResult (writer demo_capture) = None" by code_simp
  from capture_ends [OF demo_capture_run this] obtain k where k: "\<And>answers now. length answers = k \<Longrightarrow>
    \<exists>c' r. run_capture (ending now answers demo_capture) demo_capture = Some c' \<and> writerResult (writer c') = Some r
       \<and> writeQueue (writer c') = [] \<and> buffer (writer c') = []
       \<and> rsLineCount r = lineCount (writer demo_capture) \<and> rsByteCount r = byteCount (writer demo_capture)" by blast
  from k [of "replicate k True" 9] show ?thesis by (metis length_replicate)
qed

end
