(* ===== verification/Capture_Session.thy ===== *)
theory Capture_Session
  imports Capture_Writer
begin

text \<open>
  Starting and ending a capture session, src/apps/api/src/monitor/monitor-capture.service.ts: a session
  has one writer, or one per primary of a cluster. This theory has the pieces of the handlers; the
  next one lets them interleave. The discovery of nodes and the opening of a MONITOR connection
  answer from outside.
\<close>

section \<open>Inputs\<close>

definition COMMUNITY_BYTE_CAP :: int where "COMMUNITY_BYTE_CAP = 50 * 1024 * 1024"

definition COMMUNITY_LINE_CAP :: int where "COMMUNITY_LINE_CAP = 5000000"

definition CHUNK_INDEX_NAMESPACE :: int where "CHUNK_INDEX_NAMESPACE = 10000000"

definition parsePositiveInt :: "string option \<Rightarrow> int \<Rightarrow> int" where
  "parsePositiveInt raw fallback =
     (case truthy [] raw of
        None \<Rightarrow> fallback
      | Some s \<Rightarrow> (case parseInt s of None \<Rightarrow> fallback | Some n \<Rightarrow> if n \<le> 0 then fallback else n))"

text \<open>The caps of the process, read from its environment.\<close>

record capture_config =
  envByteCap :: "string option"
  envLineCap :: "string option"

definition DEFAULT_BYTE_CAP :: "capture_config \<Rightarrow> int" where
  "DEFAULT_BYTE_CAP cfg = parsePositiveInt (envByteCap cfg) COMMUNITY_BYTE_CAP"

definition DEFAULT_LINE_CAP :: "capture_config \<Rightarrow> int" where
  "DEFAULT_LINE_CAP cfg = parsePositiveInt (envLineCap cfg) COMMUNITY_LINE_CAP"

record StartSessionInput =
  siConnectionId :: string
  siByteCap :: "int option"
  siLineCap :: "int option"
  siSource :: "CaptureSessionSource option"
  siTriggerId :: "string option"
  siScheduleId :: "string option"
  siRequestedBy :: "string option"
  siTargetNodeId :: "string option"
  siFanOut :: bool

record discovered_node =
  dnId :: string
  dnAddress :: string
  dnMaster :: bool
  dnHealthy :: bool

text \<open>\<open>None\<close>: the discovery rejected.\<close>

definition resolveFanOutNodes :: "discovered_node list option \<Rightarrow> (string \<times> string) list" where
  "resolveFanOutNodes nodes =
     (case nodes of
        None \<Rightarrow> []
      | Some ns \<Rightarrow> map (\<lambda>n. (dnId n, dnAddress n)) (filter (\<lambda>n. dnMaster n \<and> dnHealthy n) ns))"

definition resolveTargetNodeAddress :: "discovered_node list option \<Rightarrow> string option \<Rightarrow> string option" where
  "resolveTargetNodeAddress nodes targetNodeId =
     (case truthy [] targetNodeId of
        None \<Rightarrow> None
      | Some target \<Rightarrow>
          (case nodes of
             None \<Rightarrow> Some target
           | Some ns \<Rightarrow> (case find (\<lambda>n. dnId n = target) ns of None \<Rightarrow> Some target | Some n \<Rightarrow> Some (dnAddress n))))"

definition running_segment :: "string \<times> string \<Rightarrow> CaptureNodeSegment" where
  "running_segment n = \<lparr> sgNodeId = fst n, sgAddress = snd n, sgStatus = SessionRunning, sgByteCount = 0, sgLineCount = 0,
     sgEndedAt = None, sgTerminationReason = None \<rparr>"

definition new_session ::
  "capture_config \<Rightarrow> string \<Rightarrow> int \<Rightarrow> StartSessionInput \<Rightarrow> (string \<times> string) list \<Rightarrow> string option \<Rightarrow> StoredCaptureSession" where
  "new_session cfg uuid now i fanOutNodes targetNode =
     \<lparr> csId = uuid, csConnectionId = siConnectionId i, csStatus = SessionRunning,
       csSource = patched (siSource i) SourceManual, csTriggerId = siTriggerId i, csScheduleId = siScheduleId i,
       csRequestedBy = siRequestedBy i, csStartedAt = now, csEndedAt = None, csDurationMs = None,
       csByteCount = 0, csLineCount = 0, csByteCap = patched (siByteCap i) (DEFAULT_BYTE_CAP cfg),
       csLineCap = patched (siLineCap i) (DEFAULT_LINE_CAP cfg), csTerminationReason = None, csTargetNode = targetNode,
       csNodeSegments = (if fanOutNodes = [] then None else Some (map running_segment fanOutNodes)) \<rparr>"

section \<open>Writers and segments\<close>

definition single_options :: "StoredCaptureSession \<Rightarrow> CaptureWriterOptions" where
  "single_options session =
     \<lparr> woSessionId = csId session, woByteCap = csByteCap session, woLineCap = csLineCap session,
       woFlushLineThreshold = None, woRingBufferSize = None, woNodeId = None, woStartChunkIndex = None,
       woSkipSessionFinalize = None \<rparr>"

definition fan_out_options :: "StoredCaptureSession \<Rightarrow> nat \<Rightarrow> string \<Rightarrow> CaptureWriterOptions" where
  "fan_out_options session i nodeId =
     (single_options session) \<lparr> woNodeId := Some nodeId, woStartChunkIndex := Some (int i * CHUNK_INDEX_NAMESPACE),
       woSkipSessionFinalize := Some True \<rparr>"

definition open_failed :: "string \<Rightarrow> string" where
  "open_failed message = ''monitor_open_failed: '' @ message"

definition open_failed_patch :: "int \<Rightarrow> string \<Rightarrow> CaptureSessionPatch" where
  "open_failed_patch now message =
     no_session_patch \<lparr> spStatus := Some SessionFailed, spEndedAt := Some now, spTerminationReason := Some (open_failed message) \<rparr>"

type_synonym segments = "(string, CaptureNodeSegment) jsmap"

definition initial_segments :: "StoredCaptureSession \<Rightarrow> segments" where
  "initial_segments session = foldl (\<lambda>m seg. js_set (sgNodeId seg) seg m) [] (patched (csNodeSegments session) [])"

definition update_segment :: "string \<Rightarrow> (CaptureNodeSegment \<Rightarrow> CaptureNodeSegment) \<Rightarrow> segments \<Rightarrow> segments" where
  "update_segment nodeId f m = (case js_get m nodeId of None \<Rightarrow> m | Some seg \<Rightarrow> js_set nodeId (f seg) m)"

definition fail_segment :: "int \<Rightarrow> string \<Rightarrow> CaptureNodeSegment \<Rightarrow> CaptureNodeSegment" where
  "fail_segment now message seg =
     seg \<lparr> sgStatus := SessionFailed, sgEndedAt := Some now, sgTerminationReason := Some (open_failed message) \<rparr>"

definition settle_segment :: "CaptureWriterResult \<Rightarrow> CaptureNodeSegment \<Rightarrow> CaptureNodeSegment" where
  "settle_segment r seg =
     seg \<lparr> sgStatus := session_status (rsStatus r), sgEndedAt := Some (rsEndedAt r), sgByteCount := rsByteCount r,
           sgLineCount := rsLineCount r, sgTerminationReason := Some (rsTerminationReason r) \<rparr>"

section \<open>The end of a fan-out session\<close>

definition aggregateSegmentStatus :: "CaptureNodeSegment list \<Rightarrow> CaptureSessionStatus" where
  "aggregateSegmentStatus segs =
     (if segs = [] then SessionCompleted
      else if list_ex (\<lambda>s. sgStatus s = SessionFailed) segs then SessionFailed
      else if list_ex (\<lambda>s. sgStatus s = SessionTruncated) segs then SessionTruncated
      else SessionCompleted)"

definition aggregateTerminationReason :: "CaptureNodeSegment list \<Rightarrow> CaptureSessionStatus \<Rightarrow> string" where
  "aggregateTerminationReason segs status =
     (if status = SessionFailed
      then (case find (\<lambda>s. sgStatus s = SessionFailed) segs of
              None \<Rightarrow> ''fan_out_node_failed''
            | Some failed \<Rightarrow> patched (sgTerminationReason failed) ''fan_out_node_failed'')
      else if status = SessionTruncated
      then ''fan_out_truncated: '' @ js_join '', ''
             (js_uniq (map (\<lambda>s. patched (sgTerminationReason s) ''truncated'')
               (filter (\<lambda>s. sgStatus s = SessionTruncated) segs)))
      else ''fan_out_complete'')"

definition segment_total :: "(CaptureNodeSegment \<Rightarrow> int) \<Rightarrow> CaptureNodeSegment list \<Rightarrow> int" where
  "segment_total f segs = sum_list (map f segs)"

definition finalize_patch :: "int \<Rightarrow> StoredCaptureSession \<Rightarrow> CaptureNodeSegment list \<Rightarrow> CaptureSessionPatch" where
  "finalize_patch now session segs =
     (let endedAt = Max (set (csStartedAt session # map (\<lambda>s. patched (sgEndedAt s) now) segs));
          status = aggregateSegmentStatus segs
      in \<lparr> spStatus = Some status, spEndedAt = Some endedAt, spDurationMs = None,
           spByteCount = Some (segment_total sgByteCount segs), spLineCount = Some (segment_total sgLineCount segs),
           spTerminationReason = Some (aggregateTerminationReason segs status), spNodeSegments = Some segs \<rparr>)"

text \<open>The webhook of the end of a session: none for a failed one.\<close>

datatype session_event = MonitorSessionTruncated | MonitorSessionCompleted

definition ended_event :: "CaptureSessionStatus \<Rightarrow> session_event option" where
  "ended_event status =
     (if status = SessionFailed then None
      else if status = SessionTruncated then Some MonitorSessionTruncated else Some MonitorSessionCompleted)"

section \<open>What the segments say of the session\<close>

fun severity :: "CaptureSessionStatus \<Rightarrow> nat" where
  "severity SessionFailed = 2"
| "severity SessionTruncated = 1"
| "severity _ = 0"

text \<open>
  the status of a fan-out session is that of its worst segment: failed when one node failed,
  else truncated when one was truncated, else completed; its counters are the sums over the nodes.
\<close>

theorem fan_out_status_is_worst:
  "severity (aggregateSegmentStatus segs) = Max (insert 0 (severity ` sgStatus ` set segs))
    \<and> aggregateSegmentStatus segs \<in> {SessionCompleted, SessionTruncated, SessionFailed}
    \<and> spLineCount (finalize_patch now session segs) = Some (sum_list (map sgLineCount segs))
    \<and> spByteCount (finalize_patch now session segs) = Some (sum_list (map sgByteCount segs))"
proof -
  have le: "severity st \<le> 2" for st by (cases st) simp_all
  have "severity (aggregateSegmentStatus segs) = Max (insert 0 (severity ` sgStatus ` set segs))"
  proof (rule Max_eqI [symmetric])
    show "y \<le> severity (aggregateSegmentStatus segs)" if "y \<in> insert 0 (severity ` sgStatus ` set segs)" for y
    proof -
      have "severity (sgStatus s) \<le> severity (aggregateSegmentStatus segs)" if "s \<in> set segs" for s
        using that by (cases "sgStatus s") (auto simp: aggregateSegmentStatus_def list_ex_iff)
      with that show ?thesis by auto
    qed
    show "severity (aggregateSegmentStatus segs) \<in> insert 0 (severity ` sgStatus ` set segs)"
      by (auto simp: aggregateSegmentStatus_def list_ex_iff image_iff intro: bexI [rotated])
  qed simp
  moreover have "aggregateSegmentStatus segs \<in> {SessionCompleted, SessionTruncated, SessionFailed}"
    by (simp add: aggregateSegmentStatus_def)
  ultimately show ?thesis by (simp add: finalize_patch_def Let_def segment_total_def)
qed

end
