(* ===== verification/Capture_Machine.thy ===== *)
theory Capture_Machine
  imports Capture_Session
begin

text \<open>
  The capture service as a system: the calls of startSession, each suspended at its awaits, the writers
  of the sessions that were opened, and the finalisation that follows them. A call checks the map of
  active sessions first and enters its own session last, after four awaits.

  Shown: the chunks of all writers have distinct keys, so the primary key of the SQLite table refuses
  no chunk; when no two starts of one connection overlap, a connection has at most one session at a
  time and the map of active sessions names it; and a run in which two starts do overlap, with two
  sessions on one connection and one entry in the map.
\<close>

section \<open>Calls and sessions\<close>

text \<open>The answers a call meets: discovery twice, a new id, the clock, the store, the MONITOR connections.\<close>

record start_env =
  stFanOutDiscovery :: "discovered_node list option"
  stTargetDiscovery :: "discovered_node list option"
  stNewId :: string
  stNow :: int
  stSaved :: "string option"
  stOpened :: "string option"

datatype start_call =
  Checking StartSessionInput
| Resolving StartSessionInput
| Saving StoredCaptureSession "(string \<times> string) list"
| OpeningOne StoredCaptureSession
| OpeningNodes StoredCaptureSession "(string \<times> string) list" nat
| Returned "string + StoredCaptureSession"

record live_session =
  lvSession :: StoredCaptureSession
  lvSegments :: segments
  lvFanOut :: bool
  lvWriters :: "(nat \<times> string option \<times> capture) list"
  lvRegistered :: bool
  lvFinalized :: bool
  lvReleased :: bool

record capture_service =
  activeSessions :: "(string, string) jsmap"
  sessions :: "(string, live_session) jsmap"
  captures :: capture_store
  calls :: "start_call list"
  events :: "(string \<times> session_event) list"

definition hasActiveSessionOn :: "string \<Rightarrow> capture_service \<Rightarrow> bool" where
  "hasActiveSessionOn conn sv = js_has (activeSessions sv) conn"

definition new_live :: "StoredCaptureSession \<Rightarrow> bool \<Rightarrow> live_session" where
  "new_live session fanOut =
     \<lparr> lvSession = session, lvSegments = initial_segments session, lvFanOut = fanOut, lvWriters = [],
       lvRegistered = False, lvFinalized = False, lvReleased = False \<rparr>"

definition set_live :: "live_session \<Rightarrow> capture_service \<Rightarrow> capture_service" where
  "set_live lv sv = sv \<lparr> sessions := js_set (csId (lvSession lv)) lv (sessions sv) \<rparr>"

text \<open>\<open>this.active.set(connectionId, ...)\<close>.\<close>

definition register :: "live_session \<Rightarrow> capture_service \<Rightarrow> capture_service" where
  "register lv sv =
     (set_live (lv \<lparr> lvRegistered := True \<rparr>) sv)
       \<lparr> activeSessions := js_set (csConnectionId (lvSession lv)) (csId (lvSession lv)) (activeSessions sv) \<rparr>"

definition add_writer :: "nat \<Rightarrow> string option \<Rightarrow> CaptureWriterOptions \<Rightarrow> live_session \<Rightarrow> live_session" where
  "add_writer i nodeId opts lv = lv \<lparr> lvWriters := lvWriters lv @ [(i, nodeId, started opts)] \<rparr>"

definition open_node :: "start_env \<Rightarrow> nat \<Rightarrow> string \<Rightarrow> live_session \<Rightarrow> live_session" where
  "open_node env i nodeId lv =
     (case stOpened env of
        Some message \<Rightarrow> lv \<lparr> lvSegments := update_segment nodeId (fail_segment (stNow env) message) (lvSegments lv) \<rparr>
      | None \<Rightarrow> add_writer i (Some nodeId) (fan_out_options (lvSession lv) i nodeId) lv)"

fun start_step :: "capture_config \<Rightarrow> start_env \<Rightarrow> start_call \<Rightarrow> capture_service \<Rightarrow> start_call \<times> capture_service" where
  "start_step cfg env (Checking i) sv =
     (if hasActiveSessionOn (siConnectionId i) sv
      then (Returned (Inl (''A capture session is already active on connection '' @ siConnectionId i)), sv)
      else (Resolving i, sv))"
| "start_step cfg env (Resolving i) sv =
     (let nodes = (if siFanOut i then resolveFanOutNodes (stFanOutDiscovery env) else []);
          target = (if nodes \<noteq> [] then None else resolveTargetNodeAddress (stTargetDiscovery env) (siTargetNodeId i))
      in (Saving (new_session cfg (stNewId env) (stNow env) i nodes target) nodes, sv))"
| "start_step cfg env (Saving session nodes) sv =
     (case stSaved env of
        Some message \<Rightarrow> (Returned (Inl message), sv)
      | None \<Rightarrow>
          let sv1 = sv \<lparr> captures := saveCaptureSession session (captures sv) \<rparr>
          in if nodes = [] then (OpeningOne session, set_live (new_live session False) sv1)
             else (OpeningNodes session nodes 0, set_live (new_live session True) sv1))"
| "start_step cfg env (OpeningOne session) sv =
     (case stOpened env of
        Some message \<Rightarrow>
          (Returned (Inl message),
           (set_live ((new_live session False) \<lparr> lvFinalized := True, lvReleased := True \<rparr>) sv)
             \<lparr> captures := snd (updateCaptureSession (csId session) (open_failed_patch (stNow env) message) (captures sv)) \<rparr>)
      | None \<Rightarrow>
          (Returned (Inr session), register (add_writer 0 None (single_options session) (new_live session False)) sv))"
| "start_step cfg env (OpeningNodes session nodes k) sv =
     (case js_get (sessions sv) (csId session) of
        None \<Rightarrow> (OpeningNodes session nodes k, sv)
      | Some lv \<Rightarrow>
          let lv1 = open_node env k (fst (nodes ! k)) lv
          in if Suc k < length nodes then (OpeningNodes session nodes (Suc k), set_live lv1 sv)
             else (Returned (Inr session), register lv1 sv))"
| "start_step cfg env (Returned r) sv = (Returned r, sv)"

section \<open>Writers and the end of a session\<close>

type_synonym save_chunk = "StoredCaptureChunk \<Rightarrow> capture_store \<Rightarrow> capture_store option"

text \<open>
  An event of a writer. A chunk write that does not fail has the answer of the store; the patch of a finished writer goes
  to the row of its session, and the result of a writer of a fan-out session into its segment.
\<close>

definition write_answer :: "save_chunk \<Rightarrow> capture_event \<Rightarrow> capture \<Rightarrow> capture_store \<Rightarrow> capture_event \<times> capture_store" where
  "write_answer save e c s =
     (case e of
        WriteSettled True \<Rightarrow>
          (case writeQueue (writer c) of
             [] \<Rightarrow> (e, s)
           | ck # rest \<Rightarrow> (case save ck s of None \<Rightarrow> (WriteSettled False, s) | Some s1 \<Rightarrow> (e, s1)))
      | _ \<Rightarrow> (e, s))"

definition settle_writer :: "string option \<Rightarrow> capture \<Rightarrow> segments \<Rightarrow> segments" where
  "settle_writer nodeId c m =
     (case (nodeId, writerResult (writer c)) of
        (Some n, Some r) \<Rightarrow> update_segment n (settle_segment r) m
      | _ \<Rightarrow> m)"

definition writer_step :: "save_chunk \<Rightarrow> capture_event \<Rightarrow> nat \<Rightarrow> live_session \<Rightarrow> capture_store \<Rightarrow> (live_session \<times> capture_store) option" where
  "writer_step save e k lv s =
     (case lvWriters lv ! k of
        (i, nodeId, c) \<Rightarrow>
          (case write_answer save e c s of
             (e1, s1) \<Rightarrow>
               (case capture_step e1 c of
                  None \<Rightarrow> None
                | Some c1 \<Rightarrow>
                    Some (lv \<lparr> lvWriters := (lvWriters lv)[k := (i, nodeId, c1)],
                            lvSegments := (if writerResult (writer c) = None then settle_writer nodeId c1 (lvSegments lv)
                                           else lvSegments lv) \<rparr>,
                          foldl (\<lambda>st p. snd (updateCaptureSession (csId (lvSession lv)) p st)) s1
                            (drop (length (patches c)) (patches c1))))))"

definition all_done :: "live_session \<Rightarrow> bool" where
  "all_done lv \<longleftrightarrow> list_all (\<lambda>(i, nodeId, c). writerResult (writer c) \<noteq> None) (lvWriters lv)"

text \<open>After the writers: the row of a fan-out session and the webhook, then the entry of the map.\<close>

definition finalize :: "int \<Rightarrow> live_session \<Rightarrow> capture_service \<Rightarrow> capture_service" where
  "finalize now lv sv =
     (let segs = map snd (lvSegments lv);
          sid = csId (lvSession lv);
          sv1 = set_live (lv \<lparr> lvFinalized := True \<rparr>) sv
      in if lvFanOut lv
         then sv1 \<lparr> captures := snd (updateCaptureSession sid (finalize_patch now (lvSession lv) segs) (captures sv1)),
                events := events sv1 @ (case ended_event (aggregateSegmentStatus segs) of None \<Rightarrow> [] | Some e \<Rightarrow> [(sid, e)]) \<rparr>
         else sv1 \<lparr> events := events sv1 @ List.map_filter (\<lambda>(i, nodeId, c). case writerResult (writer c) of None \<Rightarrow> None
                | Some r \<Rightarrow> map_option (\<lambda>e. (sid, e)) (ended_event (session_status (rsStatus r)))) (lvWriters lv) \<rparr>)"

definition unregister :: "live_session \<Rightarrow> capture_service \<Rightarrow> capture_service" where
  "unregister lv sv =
     (set_live (lv \<lparr> lvReleased := True \<rparr>) sv) \<lparr> activeSessions := js_delete (csConnectionId (lvSession lv)) (activeSessions sv) \<rparr>"

text \<open>\<open>stopSession\<close>: the writers of the session, when the map has it.\<close>

definition stop_writers :: "int \<Rightarrow> live_session \<Rightarrow> live_session" where
  "stop_writers now lv =
     lv \<lparr> lvWriters := map (\<lambda>(i, nodeId, c). (i, nodeId, c \<lparr> writer := terminate now WriterCompleted ''manual_stop'' (writer c) \<rparr>))
          (lvWriters lv) \<rparr>"

definition start_in_flight :: "start_call \<Rightarrow> string option" where
  "start_in_flight t =
     (case t of
        Resolving i \<Rightarrow> Some (siConnectionId i)
      | Saving s nodes \<Rightarrow> Some (csConnectionId s)
      | OpeningOne s \<Rightarrow> Some (csConnectionId s)
      | OpeningNodes s nodes k \<Rightarrow> Some (csConnectionId s)
      | _ \<Rightarrow> None)"

section \<open>The system\<close>

text \<open>
  \<open>calm\<close> restricts the runs to those in which no start of a connection passes its check while another
  start of it is under way. A new id is one no row has and no other call has drawn.
\<close>

definition fresh_session_id :: "string \<Rightarrow> capture_service \<Rightarrow> bool" where
  "fresh_session_id sid sv \<longleftrightarrow> \<not> js_has (sessions sv) sid \<and> \<not> js_has (captureSessions (captures sv)) sid
     \<and> (\<forall>s nodes. Saving s nodes \<in> set (calls sv) \<longrightarrow> csId s \<noteq> sid)"

inductive service_step :: "save_chunk \<Rightarrow> capture_config \<Rightarrow> bool \<Rightarrow> capture_service \<Rightarrow> capture_service \<Rightarrow> bool"
  for save cfg calm where
  called: "service_step save cfg calm sv (sv \<lparr> calls := calls sv @ [Checking i] \<rparr>)"
| stepped: "k < length (calls sv) \<Longrightarrow> start_step cfg env (calls sv ! k) sv = (t', sv') \<Longrightarrow>
    (\<forall>i. calls sv ! k = Resolving i \<longrightarrow> fresh_session_id (stNewId env) sv) \<Longrightarrow>
    (\<forall>i. calm \<longrightarrow> calls sv ! k = Checking i \<longrightarrow> (\<forall>t \<in> set (calls sv). start_in_flight t \<noteq> Some (siConnectionId i))) \<Longrightarrow>
    service_step save cfg calm sv (sv' \<lparr> calls := (calls sv)[k := t'] \<rparr>)"
| wrote: "js_get (sessions sv) sid = Some lv \<Longrightarrow> k < length (lvWriters lv) \<Longrightarrow>
    writer_step save e k lv (captures sv) = Some (lv', s') \<Longrightarrow>
    service_step save cfg calm sv ((set_live lv' sv) \<lparr> captures := s' \<rparr>)"
| stopped_session: "js_get (activeSessions sv) conn = Some sid \<Longrightarrow> js_get (sessions sv) sid = Some lv \<Longrightarrow>
    service_step save cfg calm sv (set_live (stop_writers now lv) sv)"
| finalized: "js_get (sessions sv) sid = Some lv \<Longrightarrow> lvRegistered lv \<Longrightarrow> \<not> lvFinalized lv \<Longrightarrow> all_done lv \<Longrightarrow>
    service_step save cfg calm sv (finalize now lv sv)"
| released: "js_get (sessions sv) sid = Some lv \<Longrightarrow> lvFinalized lv \<Longrightarrow> lvRegistered lv \<Longrightarrow> \<not> lvReleased lv \<Longrightarrow>
    service_step save cfg calm sv (unregister lv sv)"

definition initial_service :: capture_service where
  "initial_service = \<lparr> activeSessions = [], sessions = [], captures = empty_captures, calls = [], events = [] \<rparr>"

definition service_reach :: "save_chunk \<Rightarrow> capture_config \<Rightarrow> bool \<Rightarrow> capture_service \<Rightarrow> bool" where
  "service_reach save cfg calm sv \<longleftrightarrow> (service_step save cfg calm)\<^sup>*\<^sup>* initial_service sv"

section \<open>Keys of the chunks\<close>

definition writer_of :: "string \<Rightarrow> int \<Rightarrow> nat \<Rightarrow> capture \<Rightarrow> bool" where
  "writer_of sid cap i c \<longleftrightarrow> (\<exists>opts es. run_capture es (started opts) = Some c \<and> woSessionId opts = sid
     \<and> start_of opts = int i * CHUNK_INDEX_NAMESPACE \<and> woLineCap opts = cap)"

definition live_ok :: "string \<Rightarrow> live_session \<Rightarrow> bool" where
  "live_ok sid lv \<longleftrightarrow> csId (lvSession lv) = sid \<and> distinct (map fst (lvWriters lv))
     \<and> (\<forall>(i, nodeId, c) \<in> set (lvWriters lv). writer_of sid (csLineCap (lvSession lv)) i c)"

fun call_sid :: "start_call \<Rightarrow> string option" where
  "call_sid (Saving s nodes) = Some (csId s)"
| "call_sid (OpeningOne s) = Some (csId s)"
| "call_sid (OpeningNodes s nodes k) = Some (csId s)"
| "call_sid _ = None"

text \<open>What a call relies on for the session it is opening.\<close>

fun call_ok :: "capture_service \<Rightarrow> start_call \<Rightarrow> bool" where
  "call_ok sv (Saving s nodes) \<longleftrightarrow> \<not> js_has (sessions sv) (csId s)"
| "call_ok sv (OpeningOne s) \<longleftrightarrow> js_get (sessions sv) (csId s) = Some (new_live s False)"
| "call_ok sv (OpeningNodes s nodes k) \<longleftrightarrow> k < length nodes \<and> (\<exists>lv. js_get (sessions sv) (csId s) = Some lv
     \<and> lvSession lv = s \<and> \<not> lvRegistered lv \<and> \<not> lvReleased lv \<and> (\<forall>w \<in> set (lvWriters lv). fst w < k))"
| "call_ok sv _ \<longleftrightarrow> True"

definition stored_ok :: "capture_service \<Rightarrow> bool" where
  "stored_ok sv \<longleftrightarrow> (\<forall>ck \<in> set (captureChunks (captures sv)). \<exists>lv i nodeId c. js_get (sessions sv) (ckSessionId ck) = Some lv
     \<and> (i, nodeId, c) \<in> set (lvWriters lv) \<and> ck \<in> fst ` set (settled c))"

text \<open>No two calls work on one session, or on one connection.\<close>

definition own_by :: "(start_call \<Rightarrow> string option) \<Rightarrow> start_call list \<Rightarrow> bool" where
  "own_by f ts \<longleftrightarrow> (\<forall>j k. j < length ts \<longrightarrow> k < length ts \<longrightarrow> j \<noteq> k \<longrightarrow> f (ts ! j) \<noteq> None \<longrightarrow> f (ts ! j) \<noteq> f (ts ! k))"

abbreviation own_ids :: "start_call list \<Rightarrow> bool" where
  "own_ids \<equiv> own_by call_sid"

definition service_ok :: "capture_service \<Rightarrow> bool" where
  "service_ok sv \<longleftrightarrow> (\<forall>sid lv. js_get (sessions sv) sid = Some lv \<longrightarrow> live_ok sid lv \<and> js_has (captureSessions (captures sv)) sid)
     \<and> stored_ok sv \<and> (\<forall>t \<in> set (calls sv). call_ok sv t) \<and> own_ids (calls sv)"

lemma update_session_simps [simp]:
  "captureChunks (snd (updateCaptureSession sid p s)) = captureChunks s"
  "js_has (captureSessions (snd (updateCaptureSession sid p s))) i = js_has (captureSessions s) i"
  by (auto simp: updateCaptureSession_def js_get_set js_has_def split: option.splits)

lemma update_fold_simps [simp]:
  "captureChunks (foldl (\<lambda>st p. snd (updateCaptureSession sid p st)) s ps) = captureChunks s"
  "js_has (captureSessions (foldl (\<lambda>st p. snd (updateCaptureSession sid p st)) s ps)) i = js_has (captureSessions s) i"
  by (induction ps arbitrary: s) simp_all

lemma settled_writer_step:
  assumes "capture_step e c = Some c1"
  shows "settled c1 = settled c \<or> (\<exists>ck rest b. e = WriteSettled b \<and> writeQueue (writer c) = ck # rest \<and> settled c1 = settled c @ [(ck, b)])"
  using assms by (cases e) (auto split: if_splits list.splits prod.splits)

text \<open>A step of a writer: one capture moves on, and the store gains at most the chunk whose write settled.\<close>

lemma writer_step_effect:
  assumes save: "save = mem_saveCaptureChunk \<or> save = sql_saveCaptureChunk"
    and k: "k < length (lvWriters lv)" and step: "writer_step save e k lv s = Some (lv', s')"
  obtains i nodeId c c1 e1 where "lvWriters lv ! k = (i, nodeId, c)" "capture_step e1 c = Some c1"
    "lvWriters lv' = (lvWriters lv)[k := (i, nodeId, c1)]" "lvSession lv' = lvSession lv" "lvRegistered lv' = lvRegistered lv"
    "lvReleased lv' = lvReleased lv" "\<And>j. js_has (captureSessions s') j = js_has (captureSessions s) j"
    "set (captureChunks s') \<subseteq> set (captureChunks s) \<union> fst ` set (settled c1)"
proof -
  obtain i nodeId c where w: "lvWriters lv ! k = (i, nodeId, c)" by (cases "lvWriters lv ! k")
  obtain e1 s1 where a: "write_answer save e c s = (e1, s1)" by (cases "write_answer save e c s")
  obtain c1 where c1: "capture_step e1 c = Some c1" using step by (auto simp: writer_step_def w a split: option.splits)
  have s': "s' = foldl (\<lambda>st p. snd (updateCaptureSession (csId (lvSession lv)) p st)) s1 (drop (length (patches c)) (patches c1))"
    and lv': "lvWriters lv' = (lvWriters lv)[k := (i, nodeId, c1)]" "lvSession lv' = lvSession lv"
      "lvRegistered lv' = lvRegistered lv" "lvReleased lv' = lvReleased lv"
    using step by (auto simp: writer_step_def w a c1)
  have "captureSessions s1 = captureSessions s \<and> (s1 = s \<or> e1 = WriteSettled True \<and> (\<exists>ck rest. writeQueue (writer c) = ck # rest
      \<and> captureChunks s1 = captureChunks s @ [ck]))"
    using a save
    by (auto simp: write_answer_def mem_saveCaptureChunk_def sql_saveCaptureChunk_def
        split: capture_event.splits bool.splits list.splits option.splits if_splits)
  then have keys: "captureSessions s1 = captureSessions s" and chunks: "set (captureChunks s1) \<subseteq> set (captureChunks s) \<union> fst ` set (settled c1)"
    using c1 by auto
  show ?thesis by (rule that [OF w c1 lv']) (use keys chunks in \<open>simp_all add: s'\<close>)
qed

text \<open>A change of one session: the other sessions, and the calls that open others, do not see it.\<close>

definition grown :: "live_session \<Rightarrow> live_session \<Rightarrow> bool" where
  "grown lv lv' \<longleftrightarrow> (\<forall>(i, nodeId, c) \<in> set (lvWriters lv). \<exists>c'. (i, nodeId, c') \<in> set (lvWriters lv') \<and> set (settled c) \<subseteq> set (settled c'))"

lemma grown_same: "lvWriters lv' = lvWriters lv \<Longrightarrow> grown lv lv'"
  by (auto simp: grown_def)

lemma sessions_change:
  assumes all: "\<And>i l. js_get (sessions sv) i = Some l \<Longrightarrow> live_ok i l \<and> js_has (captureSessions (captures sv)) i"
    and st: "stored_ok sv" and live: "live_ok sid lv'" and has: "js_has (captureSessions (captures sv')) sid"
    and sv': "sessions sv' = js_set sid lv' (sessions sv)"
    and keys: "\<And>j. js_has (captureSessions (captures sv)) j \<Longrightarrow> js_has (captureSessions (captures sv')) j"
    and grow: "\<And>lv. js_get (sessions sv) sid = Some lv \<Longrightarrow> grown lv lv'"
    and chunks: "\<And>ck. ck \<in> set (captureChunks (captures sv')) \<Longrightarrow> ck \<in> set (captureChunks (captures sv))
      \<or> ckSessionId ck = sid \<and> (\<exists>i nodeId c. (i, nodeId, c) \<in> set (lvWriters lv') \<and> ck \<in> fst ` set (settled c))"
  shows "(\<forall>i l. js_get (sessions sv') i = Some l \<longrightarrow> live_ok i l \<and> js_has (captureSessions (captures sv')) i) \<and> stored_ok sv'"
proof (intro conjI allI impI)
  fix i l assume "js_get (sessions sv') i = Some l"
  then have "(i = sid \<and> l = lv') \<or> js_get (sessions sv) i = Some l" by (simp add: sv' js_get_set split: if_splits)
  with live has all keys show "live_ok i l" "js_has (captureSessions (captures sv')) i" by blast+
next
  have "\<exists>l i nodeId c. js_get (sessions sv') (ckSessionId ck) = Some l \<and> (i, nodeId, c) \<in> set (lvWriters l) \<and> ck \<in> fst ` set (settled c)"
    if ck: "ck \<in> set (captureChunks (captures sv'))" for ck
  proof (cases "ck \<in> set (captureChunks (captures sv))")
    case True
    then obtain l i nodeId c where l: "js_get (sessions sv) (ckSessionId ck) = Some l" "(i, nodeId, c) \<in> set (lvWriters l)"
      "ck \<in> fst ` set (settled c)" using st unfolding stored_ok_def by blast
    show ?thesis
    proof (cases "ckSessionId ck = sid")
      case True
      with grow l obtain c' where "(i, nodeId, c') \<in> set (lvWriters lv')" "set (settled c) \<subseteq> set (settled c')"
        unfolding grown_def by blast
      with True l(3) show ?thesis by (intro exI [of _ lv'] exI [of _ i] exI [of _ nodeId] exI [of _ c']) (auto simp: sv' js_get_set)
    next
      case False
      with l show ?thesis by (intro exI [of _ l] exI [of _ i] exI [of _ nodeId] exI [of _ c]) (simp add: sv' js_get_set)
    qed
  next
    case False
    with chunks [OF ck] obtain i nodeId c where "ckSessionId ck = sid" "(i, nodeId, c) \<in> set (lvWriters lv')" "ck \<in> fst ` set (settled c)"
      by blast
    then show ?thesis by (intro exI [of _ lv'] exI [of _ i] exI [of _ nodeId] exI [of _ c]) (simp add: sv' js_get_set)
  qed
  then show "stored_ok sv'" unfolding stored_ok_def by blast
qed

lemma call_ok_other:
  assumes "call_ok sv t" and "sessions sv' = js_set sid lv' (sessions sv)" and "call_sid t \<noteq> Some sid"
  shows "call_ok sv' t"
  using assms by (cases t) (auto simp: js_get_set js_has_def)

lemma call_ok_cong: "call_ok sv t \<Longrightarrow> sessions sv' = sessions sv \<Longrightarrow> call_ok sv' t"
  by (cases t) auto

lemma live_grows:
  assumes "live_ok sid lv" and "lvSession lv' = lvSession lv" and "lvWriters lv ! k = (i, nodeId, c)" and "k < length (lvWriters lv)"
    and "lvWriters lv' = (lvWriters lv)[k := (i, nodeId, c1)]" and "capture_step e c = Some c1"
  shows "live_ok sid lv'" and "grown lv lv'" and "fst ` set (lvWriters lv') = fst ` set (lvWriters lv)"
proof -
  have mem: "(i, nodeId, c) \<in> set (lvWriters lv)" using nth_mem [OF assms(4)] assms(3) by simp
  have fsts: "map fst (lvWriters lv') = map fst (lvWriters lv)"
    using assms(3-5) by (simp add: map_update) (metis fst_conv list_update_id nth_map)
  then show "fst ` set (lvWriters lv') = fst ` set (lvWriters lv)" by (metis list.set_map)
  have "writer_of sid (csLineCap (lvSession lv)) i c" using assms(1) mem by (auto simp: live_ok_def)
  then have "writer_of sid (csLineCap (lvSession lv)) i c1" unfolding writer_of_def using run_snoc [OF _ assms(6)] by blast
  then have "writer_of sid (csLineCap (lvSession lv)) j c'" if "(j, n, c') \<in> set (lvWriters lv')" for j n c'
    using that assms(1) set_update_subset_insert [of "lvWriters lv" k "(i, nodeId, c1)"] unfolding assms(5) live_ok_def by blast
  then show "live_ok sid lv'" using assms(1,2) fsts by (auto simp: live_ok_def)
  have "set (settled c) \<subseteq> set (settled c1)" using settled_writer_step [OF assms(6)] by auto
  moreover have "(i, nodeId, c1) \<in> set (lvWriters lv')" using assms(4) unfolding assms(5) by (simp add: set_update_memI)
  moreover have "w \<in> set (lvWriters lv')" if "w \<in> set (lvWriters lv)" "w \<noteq> (i, nodeId, c)" for w
  proof -
    obtain j where "j < length (lvWriters lv)" "lvWriters lv ! j = w" using \<open>w \<in> set (lvWriters lv)\<close> by (metis in_set_conv_nth)
    with that(2) assms(3) show ?thesis unfolding assms(5) by (metis length_list_update nth_list_update_neq nth_mem)
  qed
  ultimately show "grown lv lv'" unfolding grown_def by blast
qed

lemma service_okD:
  assumes "service_ok sv"
  shows "js_get (sessions sv) sid = Some lv \<Longrightarrow> live_ok sid lv \<and> js_has (captureSessions (captures sv)) sid"
    and "stored_ok sv" and "t \<in> set (calls sv) \<Longrightarrow> call_ok sv t" and "own_ids (calls sv)"
  using assms by (simp_all add: service_ok_def)

lemma own_by_update:
  assumes own: "own_by f ts" and k: "k < length ts"
    and new: "f t' = None \<or> f t' = f (ts ! k) \<or> (\<forall>t \<in> set ts. f t \<noteq> f t')"
  shows "own_by f (ts[k := t'])"
  unfolding own_by_def
proof (intro allI impI)
  fix i j assume ij: "i < length (ts[k := t'])" "j < length (ts[k := t'])" "i \<noteq> j" "f (ts[k := t'] ! i) \<noteq> None"
  have old: "f (ts ! i) \<noteq> f (ts ! j)"
    if "i < length ts" "j < length ts" "i \<noteq> j" "f (ts ! i) \<noteq> None" for i j
    using own that unfolding own_by_def by blast
  consider "i = k" "j \<noteq> k" | "i \<noteq> k" "j = k" | "i \<noteq> k" "j \<noteq> k" using ij(3) by blast
  then show "f (ts[k := t'] ! i) \<noteq> f (ts[k := t'] ! j)"
  proof cases
    case 1
    then have t': "f t' \<noteq> None" using ij k by simp
    with new consider "f t' = f (ts ! k)" | "f (ts ! j) \<noteq> f t'" using ij(2) by auto
    then show ?thesis using 1 ij k t' old [of k j] by cases auto
  next
    case 2
    then have i: "f (ts ! i) \<noteq> None" using ij by simp
    with new consider "f t' = None" | "f t' = f (ts ! k)" | "f (ts ! i) \<noteq> f t'"
      using nth_mem [of i ts] ij(1) by (metis length_list_update)
    then show ?thesis using 2 ij k i old [of i k] by cases auto
  next
    case 3
    with ij old [of i j] show ?thesis by simp
  qed
qed

lemma others_after_update:
  assumes "own_by f ts" and "k < length ts" and "t \<in> set (ts[k := t'])" and "t \<noteq> t'"
  shows "t \<in> set ts" and "f (ts ! k) \<noteq> None \<Longrightarrow> f t \<noteq> f (ts ! k)"
proof -
  obtain j where j: "j < length ts" "j \<noteq> k" "t = ts ! j"
    using assms(3,4) by (metis in_set_conv_nth length_list_update nth_list_update_eq nth_list_update_neq assms(2))
  then show "t \<in> set ts" by simp
  show "f t \<noteq> f (ts ! k)" if "f (ts ! k) \<noteq> None"
  proof -
    have "f (ts ! k) \<noteq> f (ts ! j)" using assms(1,2) j(1,2) that unfolding own_by_def by metis
    with j(3) show ?thesis by simp
  qed
qed

text \<open>The two ways a service changes: with one session, or in its calls only.\<close>

lemma service_change:
  assumes ok: "service_ok sv" and live: "live_ok sid lv'" and has: "js_has (captureSessions (captures sv')) sid"
    and sv': "sessions sv' = js_set sid lv' (sessions sv)"
    and keys: "\<And>j. js_has (captureSessions (captures sv)) j \<Longrightarrow> js_has (captureSessions (captures sv')) j"
    and grow: "\<And>lv. js_get (sessions sv) sid = Some lv \<Longrightarrow> grown lv lv'"
    and chunks: "\<And>ck. ck \<in> set (captureChunks (captures sv')) \<Longrightarrow> ck \<in> set (captureChunks (captures sv))
      \<or> ckSessionId ck = sid \<and> (\<exists>i nodeId c. (i, nodeId, c) \<in> set (lvWriters lv') \<and> ck \<in> fst ` set (settled c))"
    and own: "own_ids (calls sv')"
    and calls: "\<And>t. t \<in> set (calls sv') \<Longrightarrow> t \<in> set (calls sv) \<and> call_sid t \<noteq> Some sid \<or> call_ok sv' t"
  shows "service_ok sv'"
proof -
  have "(\<forall>i l. js_get (sessions sv') i = Some l \<longrightarrow> live_ok i l \<and> js_has (captureSessions (captures sv')) i) \<and> stored_ok sv'"
    by (rule sessions_change [OF service_okD(1,2) [OF ok] live has sv' keys grow chunks])
  moreover have "call_ok sv' t" if "t \<in> set (calls sv')" for t
    using calls [OF that] call_ok_other [OF service_okD(3) [OF ok] sv', of t] by blast
  ultimately show ?thesis using own unfolding service_ok_def by blast
qed

lemma service_calls_only:
  assumes ok: "service_ok sv" and same: "sessions sv' = sessions sv" "captures sv' = captures sv"
    and own: "own_ids (calls sv')" and calls: "\<And>t. t \<in> set (calls sv') \<Longrightarrow> t \<in> set (calls sv) \<or> call_ok sv' t"
  shows "service_ok sv'"
proof -
  have "call_ok sv' t" if "t \<in> set (calls sv')" for t
    using calls [OF that] call_ok_cong [OF service_okD(3) [OF ok] same(1)] by blast
  moreover have "stored_ok sv'" using service_okD(2) [OF ok] by (simp add: stored_ok_def same)
  ultimately show ?thesis using ok own by (simp add: service_ok_def same)
qed

section \<open>Every step keeps the keys\<close>

lemma new_live_ok: "live_ok (csId s) (new_live s fanOut)"
  by (simp add: live_ok_def new_live_def)

lemma new_live_eqD: "lv = new_live s fanOut \<Longrightarrow> lvWriters lv = [] \<and> \<not> lvRegistered lv \<and> \<not> lvFinalized lv \<and> \<not> lvReleased lv"
  by (simp add: new_live_def)

lemma live_ok_cong:
  "live_ok sid lv \<Longrightarrow> lvSession lv' = lvSession lv \<Longrightarrow> lvWriters lv' = lvWriters lv \<Longrightarrow> live_ok sid lv'"
  by (simp add: live_ok_def)

lemma writer_of_start:
  assumes "woSessionId opts = sid" "start_of opts = int i * CHUNK_INDEX_NAMESPACE" "woLineCap opts = cap"
  shows "writer_of sid cap i (started opts)"
  unfolding writer_of_def using assms by (intro exI [of _ opts] exI [of _ "[]"]) simp

lemma writer_of_single: "writer_of (csId s) (csLineCap s) 0 (started (single_options s))"
  by (rule writer_of_start) (simp_all add: single_options_def start_of_def patched_def)

lemma writer_of_fan_out: "writer_of (csId s) (csLineCap s) i (started (fan_out_options s i n))"
  by (rule writer_of_start) (simp_all add: fan_out_options_def single_options_def start_of_def patched_def)

lemma open_node_ok:
  assumes "live_ok sid lv" and "\<forall>w \<in> set (lvWriters lv). fst w < k"
  shows "live_ok sid (open_node env k n lv)" and "grown lv (open_node env k n lv)"
    and "\<forall>w \<in> set (lvWriters (open_node env k n lv)). fst w < Suc k"
    and "lvSession (open_node env k n lv) = lvSession lv" and "lvRegistered (open_node env k n lv) = lvRegistered lv"
    and "lvReleased (open_node env k n lv) = lvReleased lv"
proof -
  have sid: "csId (lvSession lv) = sid" using assms(1) by (simp add: live_ok_def)
  have "k \<notin> fst ` set (lvWriters lv)" using assms(2) by force
  then show "live_ok sid (open_node env k n lv)"
    using assms(1) writer_of_fan_out [of "lvSession lv" k n] sid
    by (auto simp: live_ok_def open_node_def add_writer_def split: option.splits)
  show "\<forall>w \<in> set (lvWriters (open_node env k n lv)). fst w < Suc k"
    using assms(2) by (auto simp: open_node_def add_writer_def split: option.splits)
  show "grown lv (open_node env k n lv)" by (auto simp: grown_def open_node_def add_writer_def split: option.splits)
qed (simp_all add: open_node_def add_writer_def split: option.splits)

lemma call_step_calls:
  assumes ok: "service_ok sv" and k: "k < length (calls sv)"
    and new: "call_sid t' = None \<or> call_sid t' = call_sid (calls sv ! k)
      \<or> (\<forall>t \<in> set (calls sv). call_sid t \<noteq> call_sid t')"
  shows "own_ids ((calls sv)[k := t'])"
    and "call_sid (calls sv ! k) = Some sid \<Longrightarrow> t \<in> set ((calls sv)[k := t']) \<Longrightarrow> t = t' \<or> t \<in> set (calls sv) \<and> call_sid t \<noteq> Some sid"
proof -
  show own: "own_ids ((calls sv)[k := t'])" by (rule own_by_update [OF service_okD(4) [OF ok] k new])
  show "t = t' \<or> t \<in> set (calls sv) \<and> call_sid t \<noteq> Some sid"
    if "call_sid (calls sv ! k) = Some sid" "t \<in> set ((calls sv)[k := t'])"
    using others_after_update [OF service_okD(4) [OF ok] k that(2)] that(1) by (cases "t = t'") auto
qed

lemma start_step_ok:
  assumes ok: "service_ok sv" and k: "k < length (calls sv)" and step: "start_step cfg env (calls sv ! k) sv = (t', sv')"
    and fresh: "\<And>i. calls sv ! k = Resolving i \<Longrightarrow> fresh_session_id (stNewId env) sv"
  shows "service_ok (sv' \<lparr> calls := (calls sv)[k := t'] \<rparr>)"
proof -
  have t: "call_ok sv (calls sv ! k)" using service_okD(3) [OF ok nth_mem [OF k]] .
  note upd = call_step_calls [OF ok k, of t']
  have quiet: ?thesis if "sv' = sv" "call_sid t' = None"
  proof (rule service_calls_only [OF ok])
    have "call_ok sv'' t'" for sv'' using that(2) by (cases t') auto
    then show "t \<in> set (calls sv) \<or> call_ok (sv' \<lparr> calls := (calls sv)[k := t'] \<rparr>) t"
      if "t \<in> set (calls (sv' \<lparr> calls := (calls sv)[k := t'] \<rparr>))" for t
      using that set_update_subset_insert [of "calls sv" k t'] by auto
  qed (use that upd(1) in simp_all)
  show ?thesis
  proof (cases "calls sv ! k")
    case (Checking i)
    with step show ?thesis by (intro quiet) (auto split: if_splits)
  next
    case (Returned r)
    with step have "t' = Returned r" "sv' = sv" by simp_all
    then show ?thesis by (intro quiet) simp_all
  next
    case (Resolving i)
    define nodes where "nodes = (if siFanOut i then resolveFanOutNodes (stFanOutDiscovery env) else [])"
    define session where "session = new_session cfg (stNewId env) (stNow env) i nodes
      (if nodes \<noteq> [] then None else resolveTargetNodeAddress (stTargetDiscovery env) (siTargetNodeId i))"
    have t': "t' = Saving session nodes" and sv': "sv' = sv"
      using step Resolving by (auto simp: Let_def nodes_def session_def)
    have sid: "csId session = stNewId env" by (simp add: session_def new_session_def)
    have fr: "\<not> js_has (sessions sv) (csId session)" "\<And>s ns. Saving s ns \<in> set (calls sv) \<Longrightarrow> csId s \<noteq> csId session"
      using fresh [OF Resolving] unfolding fresh_session_id_def sid by blast+
    have "call_sid t \<noteq> call_sid t'" if "t \<in> set (calls sv)" for t
      using service_okD(3) [OF ok that] that fr by (cases t) (auto simp: t' js_has_def)
    with upd(1) have own: "own_ids ((calls sv)[k := t'])" by blast
    show ?thesis
    proof (rule service_calls_only [OF ok])
      show "t \<in> set (calls sv) \<or> call_ok (sv' \<lparr> calls := (calls sv)[k := t'] \<rparr>) t"
        if "t \<in> set (calls (sv' \<lparr> calls := (calls sv)[k := t'] \<rparr>))" for t
        using that set_update_subset_insert [of "calls sv" k t'] fr(1) by (auto simp: t' sv')
    qed (use own in \<open>simp_all add: sv'\<close>)
  next
    case (Saving session nodes)
    show ?thesis
    proof (cases "stSaved env")
      case (Some message)
      with step Saving show ?thesis by (intro quiet) auto
    next
      case None
      define fan where "fan = (nodes \<noteq> [])"
      have t': "t' = (if fan then OpeningNodes session nodes 0 else OpeningOne session)"
        and sv': "sv' = set_live (new_live session fan) (sv \<lparr> captures := saveCaptureSession session (captures sv) \<rparr>)"
        using step Saving None by (auto simp: Let_def fan_def split: if_splits)
      have new: "js_get (sessions sv) (csId session) = None" using t Saving by (simp add: js_has_def)
      have sid: "call_sid (calls sv ! k) = Some (csId session)" "call_sid t' = Some (csId session)"
        by (simp_all add: Saving t')
      show ?thesis
      proof (rule service_change [OF ok new_live_ok [of session fan]])
        show "own_ids (calls (sv' \<lparr> calls := (calls sv)[k := t'] \<rparr>))" using upd(1) sid by simp
        show "t \<in> set (calls sv) \<and> call_sid t \<noteq> Some (csId session) \<or> call_ok (sv' \<lparr> calls := (calls sv)[k := t'] \<rparr>) t"
          if "t \<in> set (calls (sv' \<lparr> calls := (calls sv)[k := t'] \<rparr>))" for t
          using upd(2) [OF _ sid(1), of t] sid that by (auto simp: t' sv' set_live_def js_get_set new_live_def fan_def)
      qed (use new in \<open>auto simp: sv' set_live_def new_live_def saveCaptureSession_def js_has_iff js_keys_set\<close>)
    qed
  next
    case (OpeningOne session)
    have live: "js_get (sessions sv) (csId session) = Some (new_live session False)" using t OpeningOne by simp
    then have has: "js_has (captureSessions (captures sv)) (csId session)" using service_okD(1) [OF ok] by blast
    have sid: "call_sid (calls sv ! k) = Some (csId session)" by (simp add: OpeningOne)
    have t'_none: "call_sid t' = None" using step OpeningOne by (auto split: option.splits)
    then have tok: "call_ok sv'' t'" for sv'' by (cases t') auto
    have rest: "t \<in> set (calls sv) \<and> call_sid t \<noteq> Some (csId session) \<or> call_ok sv'' t"
      if "t \<in> set ((calls sv)[k := t'])" for t sv''
      using upd(2) [OF _ sid that] t'_none tok by blast
    show ?thesis
    proof (cases "stOpened env")
      case (Some message)
      define lv' where "lv' = (new_live session False) \<lparr> lvFinalized := True, lvReleased := True \<rparr>"
      have sv': "sessions sv' = js_set (csId session) lv' (sessions sv)"
        "captures sv' = snd (updateCaptureSession (csId session) (open_failed_patch (stNow env) message) (captures sv))"
        using step OpeningOne Some by (auto simp: set_live_def new_live_def lv'_def)
      have lv'_ok: "live_ok (csId session) lv'" by (rule live_ok_cong [OF new_live_ok]) (simp_all add: lv'_def)
      show ?thesis
        by (rule service_change [OF ok lv'_ok])
          (use has live rest upd(1) t'_none in \<open>auto simp: sv' lv'_def new_live_def grown_def\<close>)
    next
      case None
      define lv' where "lv' = (add_writer 0 None (single_options session) (new_live session False)) \<lparr> lvRegistered := True \<rparr>"
      have sv': "sessions sv' = js_set (csId session) lv' (sessions sv)" "captures sv' = captures sv"
        using step OpeningOne None by (auto simp: register_def set_live_def new_live_def add_writer_def lv'_def)
      have lv'_ok: "live_ok (csId session) lv'"
        using writer_of_single [of session] by (simp add: live_ok_def lv'_def add_writer_def new_live_def)
      show ?thesis
        by (rule service_change [OF ok lv'_ok])
          (use has live rest upd(1) t'_none in \<open>auto simp: sv' lv'_def new_live_def grown_def\<close>)
    qed
  next
    case (OpeningNodes session nodes n)
    then obtain lv where n: "n < length nodes" and live: "js_get (sessions sv) (csId session) = Some lv"
      and lv: "lvSession lv = session" "\<not> lvRegistered lv" "\<not> lvReleased lv" "\<forall>w \<in> set (lvWriters lv). fst w < n"
      using t by auto
    have lv_ok: "live_ok (csId session) lv" and has: "js_has (captureSessions (captures sv)) (csId session)"
      using service_okD(1) [OF ok live] by simp_all
    note new = open_node_ok [OF lv_ok lv(4), of env "fst (nodes ! n)"]
    define lv1 where "lv1 = open_node env n (fst (nodes ! n)) lv"
    have sid: "call_sid (calls sv ! k) = Some (csId session)" by (simp add: OpeningNodes)
    show ?thesis
    proof (cases "Suc n < length nodes")
      case True
      have t': "t' = OpeningNodes session nodes (Suc n)" and sv': "sessions sv' = js_set (csId session) lv1 (sessions sv)"
        "captures sv' = captures sv"
        using step OpeningNodes live True new(4) lv(1) by (auto simp: Let_def set_live_def lv1_def)
      have tok: "call_ok (sv' \<lparr> calls := (calls sv)[k := t'] \<rparr>) t'"
        using True new lv by (simp add: t' sv' js_get_set lv1_def)
      have own: "own_ids ((calls sv)[k := t'])" using upd(1) sid by (simp add: t')
      have rest: "t \<in> set (calls sv) \<and> call_sid t \<noteq> Some (csId session) \<or> call_ok (sv' \<lparr> calls := (calls sv)[k := t'] \<rparr>) t"
        if "t \<in> set ((calls sv)[k := t'])" for t
        using upd(2) [OF _ sid that] sid tok by (auto simp: t')
      show ?thesis
        by (rule service_change [OF ok new(1)])
          (use has live own rest new(2) in \<open>simp_all add: sv' lv1_def\<close>)
    next
      case False
      have t': "call_sid t' = None" and sv': "sessions sv' = js_set (csId session) (lv1 \<lparr> lvRegistered := True \<rparr>) (sessions sv)"
        "captures sv' = captures sv"
        using step OpeningNodes live False new(4) lv(1) by (auto simp: Let_def register_def set_live_def lv1_def)
      then have tok: "call_ok sv'' t'" for sv'' by (cases t') auto
      have rest: "t \<in> set (calls sv) \<and> call_sid t \<noteq> Some (csId session) \<or> call_ok sv'' t"
        if "t \<in> set ((calls sv)[k := t'])" for t sv''
        using upd(2) [OF _ sid that] t' tok by blast
      have lv'_ok: "live_ok (csId session) (lv1 \<lparr> lvRegistered := True \<rparr>)"
        by (rule live_ok_cong [OF new(1)]) (simp_all add: lv1_def)
      show ?thesis
        by (rule service_change [OF ok lv'_ok])
          (use has live rest upd(1) t' new(2) in \<open>simp_all add: sv' lv1_def grown_def\<close>)
    qed
  qed
qed

text \<open>A step of a session that is already there; the calls stay as they are.\<close>

lemma session_step_ok:
  assumes ok: "service_ok sv" and live: "js_get (sessions sv) sid = Some lv"
    and lv': "live_ok sid lv'" "grown lv lv'" "lvSession lv' = lvSession lv" "lvRegistered lv' = lvRegistered lv"
    and kept: "\<And>s nodes k. OpeningNodes s nodes k \<in> set (calls sv) \<Longrightarrow> csId s = sid
      \<Longrightarrow> fst ` set (lvWriters lv') = fst ` set (lvWriters lv) \<and> lvReleased lv' = lvReleased lv"
    and unopened: "lv = new_live (lvSession lv) False \<Longrightarrow> lv' = lv"
    and sv': "sessions sv' = js_set sid lv' (sessions sv)" "calls sv' = calls sv"
    and keys: "\<And>j. js_has (captureSessions (captures sv')) j = js_has (captureSessions (captures sv)) j"
    and chunks: "\<And>ck. ck \<in> set (captureChunks (captures sv')) \<Longrightarrow> ck \<in> set (captureChunks (captures sv))
      \<or> ckSessionId ck = sid \<and> (\<exists>i nodeId c. (i, nodeId, c) \<in> set (lvWriters lv') \<and> ck \<in> fst ` set (settled c))"
  shows "service_ok sv'"
proof (rule service_change [OF ok lv'(1) _ sv'(1)])
  have has: "js_has (captureSessions (captures sv)) sid" using service_okD(1) [OF ok live] by blast
  then show "js_has (captureSessions (captures sv')) sid" by (simp add: keys)
  show "own_ids (calls sv')" using service_okD(4) [OF ok] by (simp add: sv'(2))
  show "t \<in> set (calls sv) \<and> call_sid t \<noteq> Some sid \<or> call_ok sv' t" if "t \<in> set (calls sv')" for t
  proof -
    have mem: "t \<in> set (calls sv)" and t: "call_ok sv t" using that service_okD(3) [OF ok] by (simp_all add: sv'(2))
    show ?thesis
    proof (cases t)
      case (OpeningOne s)
      show ?thesis
      proof (cases "csId s = sid")
        case True
        then have "lv = new_live s False" using t live OpeningOne by simp
        moreover from this have "lv' = lv" using unopened by (simp add: new_live_def)
        ultimately show ?thesis using True by (simp add: OpeningOne sv'(1) js_get_set)
      qed (use mem OpeningOne in simp)
    next
      case (OpeningNodes s nodes k)
      show ?thesis
      proof (cases "csId s = sid")
        case True
        then have k: "k < length nodes" "lvSession lv = s" "\<not> lvRegistered lv" "\<not> lvReleased lv" "\<forall>w \<in> set (lvWriters lv). fst w < k"
          using t live OpeningNodes by auto
        have same: "fst ` set (lvWriters lv') = fst ` set (lvWriters lv)" "lvReleased lv' = lvReleased lv"
          using kept [of s nodes k] mem True OpeningNodes by auto
        have "fst w < k" if "w \<in> set (lvWriters lv')" for w
        proof -
          have "fst w \<in> fst ` set (lvWriters lv)" using that same(1) by (metis image_eqI)
          with k(5) show ?thesis by auto
        qed
        with k lv'(3,4) same(2) True show ?thesis by (simp add: OpeningNodes sv'(1) js_get_set)
      qed (use mem OpeningNodes in simp)
    next
      case (Saving s nodes)
      then have "csId s \<noteq> sid" using t live by (auto simp: js_has_def)
      with mem Saving show ?thesis by simp
    qed (use mem in auto)
  qed
qed (use live lv'(2) keys chunks in auto)

lemma stop_writers_ok:
  assumes "live_ok sid lv"
  shows "live_ok sid (stop_writers now lv)" "grown lv (stop_writers now lv)"
    "map fst (lvWriters (stop_writers now lv)) = map fst (lvWriters lv)"
proof -
  show fsts: "map fst (lvWriters (stop_writers now lv)) = map fst (lvWriters lv)"
    by (simp add: stop_writers_def case_prod_beta comp_def)
  have "writer_of sid cap i (c \<lparr> writer := terminate now WriterCompleted ''manual_stop'' (writer c) \<rparr>)"
    if "writer_of sid cap i c" for cap i c
  proof -
    have "capture_step (StopRequested ''manual_stop'' now) c
        = Some (c \<lparr> writer := terminate now WriterCompleted ''manual_stop'' (writer c) \<rparr>)" by simp
    from run_snoc [OF _ this] that show ?thesis unfolding writer_of_def by blast
  qed
  then have "\<forall>(i, nodeId, c) \<in> set (lvWriters (stop_writers now lv)). writer_of sid (csLineCap (lvSession lv)) i c"
    using assms by (auto simp: live_ok_def stop_writers_def)
  moreover have "distinct (map fst (lvWriters (stop_writers now lv)))" using assms unfolding fsts live_ok_def by blast
  moreover have "lvSession (stop_writers now lv) = lvSession lv" by (simp add: stop_writers_def)
  ultimately show "live_ok sid (stop_writers now lv)" using assms unfolding live_ok_def by simp
  show "grown lv (stop_writers now lv)" by (force simp: grown_def stop_writers_def)
qed

lemma finalize_simps [simp]:
  "sessions (finalize now lv sv) = js_set (csId (lvSession lv)) (lv \<lparr> lvFinalized := True \<rparr>) (sessions sv)"
  "calls (finalize now lv sv) = calls sv" "activeSessions (finalize now lv sv) = activeSessions sv"
  "captureChunks (captures (finalize now lv sv)) = captureChunks (captures sv)"
  "js_has (captureSessions (captures (finalize now lv sv))) j = js_has (captureSessions (captures sv)) j"
  by (cases "lvFanOut lv"; simp add: finalize_def Let_def set_live_def)+

lemma service_step_ok:
  assumes save: "save = mem_saveCaptureChunk \<or> save = sql_saveCaptureChunk"
    and ok: "service_ok sv" and step: "service_step save cfg calm sv sv'"
  shows "service_ok sv'"
  using step
proof cases
  case (called i)
  show ?thesis
  proof (rule service_calls_only [OF ok])
    have "own_ids (calls sv @ [Checking i])"
      using service_okD(4) [OF ok] by (auto simp: own_by_def nth_append less_Suc_eq)
    then show "own_ids (calls sv')" by (simp add: called)
  qed (auto simp: called)
next
  case (stepped k env t' sv1)
  from start_step_ok [OF ok stepped(2,3)] stepped(4) show ?thesis by (simp add: stepped(1))
next
  case (wrote sid lv k e lv' s')
  have lv_ok: "live_ok sid lv" using service_okD(1) [OF ok wrote(2)] by blast
  obtain i nodeId c c1 e1 where w: "lvWriters lv ! k = (i, nodeId, c)" "capture_step e1 c = Some c1"
    "lvWriters lv' = (lvWriters lv)[k := (i, nodeId, c1)]" "lvSession lv' = lvSession lv" "lvRegistered lv' = lvRegistered lv"
    "lvReleased lv' = lvReleased lv" "\<And>j. js_has (captureSessions s') j = js_has (captureSessions (captures sv)) j"
    "set (captureChunks s') \<subseteq> set (captureChunks (captures sv)) \<union> fst ` set (settled c1)"
    by (rule writer_step_effect [OF save wrote(3,4)]) (rule that)
  note lv' = live_grows [OF lv_ok w(4,1) wrote(3) w(3,2)]
  have sid: "csId (lvSession lv') = sid" using lv_ok w(4) by (simp add: live_ok_def)
  have mem: "(i, nodeId, c1) \<in> set (lvWriters lv')" using wrote(3) unfolding w(3) by (simp add: set_update_memI)
  have own: "ckSessionId ck = sid" if "ck \<in> fst ` set (settled c1)" for ck
  proof -
    have "writer_of sid (csLineCap (lvSession lv')) i c1" using lv'(1) mem unfolding live_ok_def by auto
    then obtain opts es where run: "run_capture es (started opts) = Some c1" and o: "woSessionId opts = sid"
      unfolding writer_of_def by auto
    have "ck \<in> set (all_chunks c1)" using that by (auto simp: all_chunks_def)
    with chunk_indexes(3) [OF run] o show ?thesis by simp
  qed
  show ?thesis
  proof (rule session_step_ok [OF ok wrote(2) lv'(1,2) w(4,5)])
    show "lv = new_live (lvSession lv) False \<Longrightarrow> lv' = lv" using wrote(3) new_live_eqD by fastforce
    show "ck \<in> set (captureChunks (captures sv)) \<or> ckSessionId ck = sid
        \<and> (\<exists>i nodeId c. (i, nodeId, c) \<in> set (lvWriters lv') \<and> ck \<in> fst ` set (settled c))"
      if "ck \<in> set (captureChunks (captures sv'))" for ck
    proof -
      have "ck \<in> set (captureChunks s')" using that by (simp add: wrote(1))
      then consider "ck \<in> set (captureChunks (captures sv))" | "ck \<in> fst ` set (settled c1)" using w(8) by (elim subsetD [THEN UnE])
      then show ?thesis
      proof cases
        case 2
        with own [OF 2] mem show ?thesis by (intro disjI2 conjI exI [of _ i] exI [of _ nodeId] exI [of _ c1])
      qed (rule disjI1)
    qed
  qed (use w(6,7) lv'(3) sid in \<open>simp_all add: wrote(1) set_live_def\<close>)
next
  case (stopped_session conn sid lv now)
  have lv_ok: "live_ok sid lv" using service_okD(1) [OF ok stopped_session(3)] by blast
  note lv' = stop_writers_ok [OF lv_ok, of now]
  have same: "fst ` set (lvWriters (stop_writers now lv)) = fst ` set (lvWriters lv)" using lv'(3) by (metis list.set_map)
  have sid: "csId (lvSession lv) = sid" using lv_ok by (simp add: live_ok_def)
  have opened: "lv = new_live (lvSession lv) False \<Longrightarrow> stop_writers now lv = lv"
    by (drule new_live_eqD) (simp add: stop_writers_def)
  have fields: "lvSession (stop_writers now lv) = lvSession lv" "lvRegistered (stop_writers now lv) = lvRegistered lv"
    "lvReleased (stop_writers now lv) = lvReleased lv" by (simp_all add: stop_writers_def)
  show ?thesis
    by (rule session_step_ok [OF ok stopped_session(3) lv'(1,2) fields(1,2) _ opened])
      (simp_all add: stopped_session(1) set_live_def same sid fields)
next
  case (finalized sid lv now)
  have lv_ok: "live_ok sid lv" using service_okD(1) [OF ok finalized(2)] by blast
  then have sid: "csId (lvSession lv) = sid" by (simp add: live_ok_def)
  have lv'_ok: "live_ok sid (lv \<lparr> lvFinalized := True \<rparr>)" by (rule live_ok_cong [OF lv_ok]) simp_all
  have grown: "grown lv (lv \<lparr> lvFinalized := True \<rparr>)" by (rule grown_same) simp
  have opened: "lv = new_live (lvSession lv) False \<Longrightarrow> lv \<lparr> lvFinalized := True \<rparr> = lv"
    using finalized(3) new_live_eqD by blast
  show ?thesis
    by (rule session_step_ok [OF ok finalized(2) lv'_ok grown _ _ _ opened])
      (simp_all add: finalized(1) sid)
next
  case (released sid lv)
  have lv_ok: "live_ok sid lv" using service_okD(1) [OF ok released(2)] by blast
  then have sid: "csId (lvSession lv) = sid" by (simp add: live_ok_def)
  have lv'_ok: "live_ok sid (lv \<lparr> lvReleased := True \<rparr>)" by (rule live_ok_cong [OF lv_ok]) simp_all
  have grown: "grown lv (lv \<lparr> lvReleased := True \<rparr>)" by (rule grown_same) simp
  have opened: "lv = new_live (lvSession lv) False \<Longrightarrow> lv \<lparr> lvReleased := True \<rparr> = lv"
    using released(4) new_live_eqD by blast
  have kept: "fst ` set (lvWriters (lv \<lparr> lvReleased := True \<rparr>)) = fst ` set (lvWriters lv)
      \<and> lvReleased (lv \<lparr> lvReleased := True \<rparr>) = lvReleased lv"
    if "OpeningNodes s nodes k \<in> set (calls sv)" "csId s = sid" for s nodes k
    using service_okD(3) [OF ok that(1)] that(2) released(2,4) by simp
  show ?thesis
    by (rule session_step_ok [OF ok released(2) lv'_ok grown _ _ kept opened])
      (simp_all add: released(1) unregister_def set_live_def sid)
qed

lemma service_ok_reach:
  assumes save: "save = mem_saveCaptureChunk \<or> save = sql_saveCaptureChunk" and "service_reach save cfg calm sv"
  shows "service_ok sv"
  using assms(2) unfolding service_reach_def
proof (induction rule: rtranclp_induct)
  case base
  show ?case by (simp add: service_ok_def initial_service_def stored_ok_def empty_captures_def own_by_def)
next
  case (step sv sv')
  then show ?case using service_step_ok [OF save] by blast
qed

section \<open>What the service guarantees\<close>

lemma namespaces:
  assumes "x \<in> set (map (\<lambda>k. int i * CHUNK_INDEX_NAMESPACE + int k) [0..<n])"
    and "x \<in> set (map (\<lambda>k. int j * CHUNK_INDEX_NAMESPACE + int k) [0..<m])"
    and "int n \<le> CHUNK_INDEX_NAMESPACE" and "int m \<le> CHUNK_INDEX_NAMESPACE"
  shows "i = j"
proof -
  obtain a b where ab: "a < n" "b < m" "int i * CHUNK_INDEX_NAMESPACE + int a = int j * CHUNK_INDEX_NAMESPACE + int b"
    using assms(1,2) by auto
  have pos: "0 < CHUNK_INDEX_NAMESPACE" by (simp add: CHUNK_INDEX_NAMESPACE_def)
  have lt: "int a < CHUNK_INDEX_NAMESPACE" "int b < CHUNK_INDEX_NAMESPACE" using ab(1,2) assms(3,4) by linarith+
  have "(int i * CHUNK_INDEX_NAMESPACE + int a) div CHUNK_INDEX_NAMESPACE = int i"
    using pos lt(1) by (simp add: div_add1_eq)
  moreover have "(int j * CHUNK_INDEX_NAMESPACE + int b) div CHUNK_INDEX_NAMESPACE = int j"
    using pos lt(2) by (simp add: div_add1_eq)
  ultimately show ?thesis using ab(3) by simp
qed

lemma writer_indexes:
  assumes "writer_of sid cap i c" and "cap \<le> CHUNK_INDEX_NAMESPACE"
  shows "map ckChunkIndex (all_chunks c) = map (\<lambda>k. int i * CHUNK_INDEX_NAMESPACE + int k) [0..<length (all_chunks c)]"
    and "int (length (all_chunks c)) \<le> CHUNK_INDEX_NAMESPACE" and "\<forall>ck \<in> set (all_chunks c). ckSessionId ck = sid"
proof -
  obtain opts es where run: "run_capture es (started opts) = Some c"
    and o: "woSessionId opts = sid" "start_of opts = int i * CHUNK_INDEX_NAMESPACE" "woLineCap opts = cap"
    using assms(1) unfolding writer_of_def by blast
  show "map ckChunkIndex (all_chunks c) = map (\<lambda>k. int i * CHUNK_INDEX_NAMESPACE + int k) [0..<length (all_chunks c)]"
    using chunk_indexes(1) [OF run] by (simp add: o)
  have "int (length (all_chunks c)) \<le> max 1 cap" using chunk_indexes(2) [OF run] by (simp add: o)
  then show "int (length (all_chunks c)) \<le> CHUNK_INDEX_NAMESPACE" using assms(2) by (simp add: CHUNK_INDEX_NAMESPACE_def)
  show "\<forall>ck \<in> set (all_chunks c). ckSessionId ck = sid" using chunk_indexes(3) [OF run] by (simp add: o)
qed

text \<open>
  C40: the chunks of a session never clash, however many writers it has and whatever overlaps: the
  primary key of the SQLite table refuses no chunk of a session whose line cap is within the namespace
  of a writer.
\<close>

theorem chunk_write_never_refused:
  assumes reach: "service_reach sql_saveCaptureChunk cfg calm sv" and live: "js_get (sessions sv) sid = Some lv"
    and w: "(i, nodeId, c) \<in> set (lvWriters lv)" and cap: "csLineCap (lvSession lv) \<le> CHUNK_INDEX_NAMESPACE"
    and q: "writeQueue (writer c) = ck # rest"
  shows "sql_saveCaptureChunk ck (captures sv) \<noteq> None"
proof -
  have ok: "service_ok sv" by (rule service_ok_reach [OF _ reach]) simp
  have lv_ok: "live_ok sid lv" and has: "js_has (captureSessions (captures sv)) sid" using service_okD(1) [OF ok live] by simp_all
  have writers: "writer_of sid (csLineCap (lvSession lv)) j c'" if "(j, n, c') \<in> set (lvWriters lv)" for j n c'
    using lv_ok that by (auto simp: live_ok_def)
  note own = writer_indexes [OF writers [OF w] cap]
  have split: "all_chunks c = map fst (settled c) @ ck # rest" by (simp add: all_chunks_def q)
  have sid: "ckSessionId ck = sid" using own(3) by (simp add: split)
  have "ckChunkIndex ck' \<noteq> ckChunkIndex ck" if stored: "ck' \<in> set (captureChunks (captures sv))" and same: "ckSessionId ck' = sid" for ck'
  proof
    assume eq: "ckChunkIndex ck' = ckChunkIndex ck"
    obtain lv' j n c' where l: "js_get (sessions sv) (ckSessionId ck') = Some lv'" "(j, n, c') \<in> set (lvWriters lv')"
      and mem: "ck' \<in> fst ` set (settled c')" using service_okD(2) [OF ok] stored unfolding stored_ok_def by blast
    have j: "(j, n, c') \<in> set (lvWriters lv)" using l live same by simp
    note other = writer_indexes [OF writers [OF j] cap]
    have in_c: "ckChunkIndex ck \<in> set (map ckChunkIndex (all_chunks c))" by (simp add: split)
    have in_c': "ckChunkIndex ck \<in> set (map ckChunkIndex (all_chunks c'))" using mem eq by (force simp: all_chunks_def)
    have "i = j" by (rule namespaces [OF in_c [unfolded own(1)] in_c' [unfolded other(1)] own(2) other(2)])
    moreover have "distinct (map fst (lvWriters lv))" using lv_ok by (simp add: live_ok_def)
    ultimately have "c' = c" using w j by (metis eq_key_imp_eq_value prod.inject)
    have "distinct (map ckChunkIndex (all_chunks c))" unfolding own(1) by (simp add: distinct_map inj_on_def)
    then have "ckChunkIndex ck \<notin> ckChunkIndex ` fst ` set (settled c)" by (auto simp: split)
    with mem eq \<open>c' = c\<close> show False by (metis image_eqI)
  qed
  then have "\<not> list_ex (\<lambda>c'. ckSessionId c' = ckSessionId ck \<and> ckChunkIndex c' = ckChunkIndex ck) (captureChunks (captures sv))"
    by (auto simp: list_ex_iff sid)
  with has show ?thesis by (simp add: sql_saveCaptureChunk_def sid)
qed

section \<open>One session per connection\<close>

definition holds_connection :: "live_session \<Rightarrow> string \<Rightarrow> bool" where
  "holds_connection lv conn \<longleftrightarrow> lvRegistered lv \<and> \<not> lvReleased lv \<and> csConnectionId (lvSession lv) = conn"

text \<open>The map of active sessions is exact, and a call past its check has its connection to itself.\<close>

definition map_exact :: "capture_service \<Rightarrow> bool" where
  "map_exact sv \<longleftrightarrow> (\<forall>conn sid. js_get (activeSessions sv) conn = Some sid
     \<longleftrightarrow> (\<exists>lv. js_get (sessions sv) sid = Some lv \<and> holds_connection lv conn))"

definition calm_ok :: "capture_service \<Rightarrow> bool" where
  "calm_ok sv \<longleftrightarrow> map_exact sv \<and> own_by start_in_flight (calls sv)
     \<and> (\<forall>t \<in> set (calls sv). \<forall>conn. start_in_flight t = Some conn \<longrightarrow> \<not> hasActiveSessionOn conn sv)"

lemma map_exact_same:
  assumes "map_exact sv" and "js_get (sessions sv) sid = Some lv" and "\<And>conn. holds_connection lv' conn = holds_connection lv conn"
    and "sessions sv' = js_set sid lv' (sessions sv)" and "activeSessions sv' = activeSessions sv"
  shows "map_exact sv'"
  unfolding map_exact_def
proof (intro allI)
  fix conn i
  have "(\<exists>l. js_get (sessions sv') i = Some l \<and> holds_connection l conn) = (\<exists>l. js_get (sessions sv) i = Some l \<and> holds_connection l conn)"
    using assms(2-4) by (cases "i = sid") (auto simp: js_get_set)
  with assms(1,5) show "(js_get (activeSessions sv') conn = Some i) = (\<exists>l. js_get (sessions sv') i = Some l \<and> holds_connection l conn)"
    by (simp add: map_exact_def)
qed

lemma map_exact_unheld:
  assumes "map_exact sv" and "\<And>l. js_get (sessions sv) sid = Some l \<Longrightarrow> \<forall>conn. \<not> holds_connection l conn"
    and "\<forall>conn. \<not> holds_connection lv' conn" and "sessions sv' = js_set sid lv' (sessions sv)" and "activeSessions sv' = activeSessions sv"
  shows "map_exact sv'"
  unfolding map_exact_def
proof (intro allI)
  fix conn i
  have "(\<exists>l. js_get (sessions sv') i = Some l \<and> holds_connection l conn) = (\<exists>l. js_get (sessions sv) i = Some l \<and> holds_connection l conn)"
    using assms(2-4) by (cases "i = sid") (auto simp: js_get_set)
  with assms(1,5) show "(js_get (activeSessions sv') conn = Some i) = (\<exists>l. js_get (sessions sv') i = Some l \<and> holds_connection l conn)"
    by (simp add: map_exact_def)
qed

lemma map_exact_register:
  assumes exact: "map_exact sv" and unheld: "\<And>l. js_get (sessions sv) sid = Some l \<Longrightarrow> \<not> lvRegistered l"
    and free: "\<not> hasActiveSessionOn conn sv" and lv': "holds_connection lv' conn"
    and sv': "sessions sv' = js_set sid lv' (sessions sv)" "activeSessions sv' = js_set conn sid (activeSessions sv)"
  shows "map_exact sv'"
  unfolding map_exact_def
proof (intro allI)
  fix c i
  have none: "\<not> (\<exists>l. js_get (sessions sv) j = Some l \<and> holds_connection l conn)" for j
    using exact free by (metis hasActiveSessionOn_def js_has_def map_exact_def option.distinct(1))
  have other: "holds_connection lv' c \<longleftrightarrow> c = conn" for c using lv' by (auto simp: holds_connection_def)
  have sid: "js_get (activeSessions sv) c \<noteq> Some sid" for c
    using exact unheld by (auto simp: map_exact_def holds_connection_def)
  have old: "(js_get (activeSessions sv) c = Some i) = (\<exists>l. js_get (sessions sv) i = Some l \<and> holds_connection l c)"
    using exact by (simp add: map_exact_def)
  show "(js_get (activeSessions sv') c = Some i) = (\<exists>l. js_get (sessions sv') i = Some l \<and> holds_connection l c)"
  proof (cases "c = conn")
    case True
    with none [of i] other show ?thesis by (auto simp: sv' js_get_set)
  next
    case False
    with sid [of c] old other [of c] show ?thesis by (auto simp: sv' js_get_set)
  qed
qed

lemma map_exact_unregister:
  assumes exact: "map_exact sv" and live: "js_get (sessions sv) sid = Some lv" and held: "holds_connection lv conn"
    and lv': "\<forall>c. \<not> holds_connection lv' c"
    and sv': "sessions sv' = js_set sid lv' (sessions sv)" "activeSessions sv' = js_delete conn (activeSessions sv)"
  shows "map_exact sv'"
  unfolding map_exact_def
proof (intro allI)
  fix c i
  have entry: "js_get (activeSessions sv) conn = Some sid" using exact live held by (auto simp: map_exact_def)
  have old: "(js_get (activeSessions sv) c = Some i) = (\<exists>l. js_get (sessions sv) i = Some l \<and> holds_connection l c)" for c i
    using exact by (simp add: map_exact_def)
  have only: "c = conn" if "js_get (activeSessions sv) c = Some sid" for c
    using old [of c sid] that live held by (auto simp: holds_connection_def)
  show "(js_get (activeSessions sv') c = Some i) = (\<exists>l. js_get (sessions sv') i = Some l \<and> holds_connection l c)"
  proof (cases "c = conn")
    case True
    then have "\<not> (\<exists>l. js_get (sessions sv') i = Some l \<and> holds_connection l c)"
      using old [of conn i] entry lv' by (auto simp: sv' js_get_set)
    with True show ?thesis by (simp add: sv' js_get_delete)
  next
    case False
    then have "js_get (activeSessions sv) c \<noteq> Some sid" using only by blast
    with False old [of c i] lv' show ?thesis by (auto simp: sv' js_get_set js_get_delete)
  qed
qed

lemma calm_calls:
  assumes own: "own_by start_in_flight (calls sv)" and k: "k < length (calls sv)"
    and flight: "start_in_flight t' = None \<or> start_in_flight t' = start_in_flight (calls sv ! k)"
    and free: "\<forall>t \<in> set (calls sv). \<forall>conn. start_in_flight t = Some conn \<longrightarrow> \<not> hasActiveSessionOn conn sv"
    and active: "\<And>conn. hasActiveSessionOn conn sv' \<Longrightarrow> hasActiveSessionOn conn sv
      \<or> start_in_flight t' = None \<and> start_in_flight (calls sv ! k) = Some conn"
  shows "own_by start_in_flight ((calls sv)[k := t'])"
    and "\<forall>t \<in> set ((calls sv)[k := t']). \<forall>conn. start_in_flight t = Some conn \<longrightarrow> \<not> hasActiveSessionOn conn sv'"
proof -
  show "own_by start_in_flight ((calls sv)[k := t'])" by (rule own_by_update [OF own k]) (use flight in blast)
  have "\<not> hasActiveSessionOn conn sv'" if t: "t \<in> set ((calls sv)[k := t'])" "start_in_flight t = Some conn" for t conn
  proof
    assume act: "hasActiveSessionOn conn sv'"
    show False
    proof (cases "t = t'")
      case True
      then have "start_in_flight (calls sv ! k) = Some conn" using flight t(2) by auto
      then have "\<not> hasActiveSessionOn conn sv" using free nth_mem [OF k] by blast
      with active [OF act] True t(2) show False by auto
    next
      case False
      note other = others_after_update [OF own k t(1) False]
      have "\<not> hasActiveSessionOn conn sv" using free other(1) t(2) by blast
      with active [OF act] have "start_in_flight (calls sv ! k) = Some conn" by blast
      with other(2) t(2) show False by simp
    qed
  qed
  then show "\<forall>t \<in> set ((calls sv)[k := t']). \<forall>conn. start_in_flight t = Some conn \<longrightarrow> \<not> hasActiveSessionOn conn sv'" by blast
qed

lemma map_exact_cong: "map_exact sv \<Longrightarrow> sessions sv' = sessions sv \<Longrightarrow> activeSessions sv' = activeSessions sv \<Longrightarrow> map_exact sv'"
  by (simp add: map_exact_def)

lemma start_step_calm:
  assumes ok: "service_ok sv" and calm: "calm_ok sv" and k: "k < length (calls sv)"
    and step: "start_step cfg env (calls sv ! k) sv = (t', sv')"
    and alone: "\<And>i. calls sv ! k = Checking i \<Longrightarrow> \<forall>t \<in> set (calls sv). start_in_flight t \<noteq> Some (siConnectionId i)"
  shows "calm_ok (sv' \<lparr> calls := (calls sv)[k := t'] \<rparr>)"
proof -
  let ?sv = "sv' \<lparr> calls := (calls sv)[k := t'] \<rparr>"
  have t: "call_ok sv (calls sv ! k)" using service_okD(3) [OF ok nth_mem [OF k]] .
  have exact: "map_exact sv" and own: "own_by start_in_flight (calls sv)"
    and free: "\<forall>t \<in> set (calls sv). \<forall>conn. start_in_flight t = Some conn \<longrightarrow> \<not> hasActiveSessionOn conn sv"
    using calm by (simp_all add: calm_ok_def)
  note calls_ok = calm_calls [OF own k _ free, of t' ?sv]
  have same_map: ?thesis
    if "activeSessions sv' = activeSessions sv" "start_in_flight t' = None \<or> start_in_flight t' = start_in_flight (calls sv ! k)" "map_exact ?sv"
    using calls_ok that by (simp add: calm_ok_def hasActiveSessionOn_def)
  have entered: ?thesis
    if "activeSessions sv' = js_set c sid (activeSessions sv)" "start_in_flight t' = None" "start_in_flight (calls sv ! k) = Some c" "map_exact ?sv"
    for c sid
  proof -
    have "hasActiveSessionOn conn sv \<or> start_in_flight t' = None \<and> start_in_flight (calls sv ! k) = Some conn"
      if "hasActiveSessionOn conn ?sv" for conn
      using that \<open>activeSessions sv' = _\<close> \<open>start_in_flight t' = None\<close> \<open>start_in_flight (calls sv ! k) = Some c\<close>
      by (auto simp: hasActiveSessionOn_def js_has_def js_get_set split: if_splits)
    from calls_ok [OF disjI1 [OF that(2)] this] that(4) show ?thesis by (simp add: calm_ok_def)
  qed
  show ?thesis
  proof (cases "calls sv ! k")
    case (Returned r)
    with step have "t' = Returned r" "sv' = sv" by simp_all
    then show ?thesis by (intro same_map map_exact_cong [OF exact]) (simp_all add: start_in_flight_def)
  next
    case (Checking i)
    show ?thesis
    proof (cases "hasActiveSessionOn (siConnectionId i) sv")
      case True
      with step Checking have "\<exists>e. t' = Returned (Inl e)" "sv' = sv" by auto
      then show ?thesis by (intro same_map map_exact_cong [OF exact]) (auto simp: start_in_flight_def)
    next
      case False
      with step Checking have t': "t' = Resolving i" and sv': "sv' = sv" by auto
      have "own_by start_in_flight ((calls sv)[k := t'])"
        by (rule own_by_update [OF own k]) (use alone [OF Checking] in \<open>simp add: t' start_in_flight_def\<close>)
      moreover have "\<not> hasActiveSessionOn conn ?sv" if "u \<in> set ((calls sv)[k := t'])" "start_in_flight u = Some conn" for u conn
      proof (cases "u = t'")
        case True
        with that(2) have "conn = siConnectionId i" by (simp add: t' start_in_flight_def)
        with False show ?thesis by (simp add: sv' hasActiveSessionOn_def)
      next
        case False
        with that free set_update_subset_insert [of "calls sv" k t'] show ?thesis by (auto simp: sv' hasActiveSessionOn_def)
      qed
      ultimately show ?thesis using exact by (simp add: calm_ok_def sv' map_exact_def)
    qed
  next
    case (Resolving i)
    with step have "sv' = sv" "start_in_flight t' = start_in_flight (calls sv ! k)"
      by (auto simp: Let_def start_in_flight_def new_session_def)
    then show ?thesis by (intro same_map map_exact_cong [OF exact]) simp_all
  next
    case (Saving session nodes)
    then have new: "js_get (sessions sv) (csId session) = None" using t by (simp add: js_has_def)
    show ?thesis
    proof (cases "stSaved env")
      case (Some message)
      with step Saving have "t' = Returned (Inl message)" "sv' = sv" by auto
      then show ?thesis by (intro same_map map_exact_cong [OF exact]) (simp_all add: start_in_flight_def)
    next
      case None
      then obtain fan where sv': "sessions sv' = js_set (csId session) (new_live session fan) (sessions sv)"
        "activeSessions sv' = activeSessions sv" and fl: "start_in_flight t' = start_in_flight (calls sv ! k)"
        using step Saving by (auto simp: Let_def set_live_def new_live_def start_in_flight_def split: if_splits)
      have "map_exact ?sv"
        by (rule map_exact_unheld [OF exact, of "csId session" "new_live session fan"])
          (use new sv' in \<open>simp_all add: new_live_def holds_connection_def\<close>)
      then show ?thesis by (rule same_map [OF sv'(2) disjI2 [OF fl]])
    qed
  next
    case (OpeningOne session)
    have live: "js_get (sessions sv) (csId session) = Some (new_live session False)" using t OpeningOne by simp
    then have unreg: "\<And>l. js_get (sessions sv) (csId session) = Some l \<Longrightarrow> \<not> lvRegistered l" by (auto simp: new_live_def)
    show ?thesis
    proof (cases "stOpened env")
      case (Some message)
      define lv' where "lv' = (new_live session False) \<lparr> lvFinalized := True, lvReleased := True \<rparr>"
      have sv': "sessions sv' = js_set (csId session) lv' (sessions sv)" "activeSessions sv' = activeSessions sv"
        and fl: "start_in_flight t' = None"
        using step OpeningOne Some by (auto simp: set_live_def new_live_def lv'_def start_in_flight_def)
      have "map_exact ?sv"
        by (rule map_exact_unheld [OF exact, of "csId session" lv'])
          (use unreg sv' in \<open>auto simp: lv'_def new_live_def holds_connection_def\<close>)
      then show ?thesis by (rule same_map [OF sv'(2) disjI1 [OF fl]])
    next
      case None
      define lv' where "lv' = (add_writer 0 None (single_options session) (new_live session False)) \<lparr> lvRegistered := True \<rparr>"
      have sv': "sessions sv' = js_set (csId session) lv' (sessions sv)"
        "activeSessions sv' = js_set (csConnectionId session) (csId session) (activeSessions sv)" and fl: "start_in_flight t' = None"
        using step OpeningOne None by (auto simp: register_def set_live_def new_live_def add_writer_def lv'_def start_in_flight_def)
      have was: "start_in_flight (calls sv ! k) = Some (csConnectionId session)" by (simp add: OpeningOne start_in_flight_def)
      have "map_exact ?sv"
      proof (rule map_exact_register [OF exact unreg])
        show "\<not> hasActiveSessionOn (csConnectionId session) sv" using free nth_mem [OF k] was by blast
        show "holds_connection lv' (csConnectionId session)"
          by (simp add: lv'_def add_writer_def new_live_def holds_connection_def)
      qed (simp_all add: sv')
      then show ?thesis by (rule entered [OF sv'(2) fl was])
    qed
  next
    case (OpeningNodes session nodes n)
    then obtain lv where live: "js_get (sessions sv) (csId session) = Some lv"
      and lv: "lvSession lv = session" "\<not> lvRegistered lv" "\<not> lvReleased lv" using t by auto
    then have unreg: "\<And>l. js_get (sessions sv) (csId session) = Some l \<Longrightarrow> \<not> lvRegistered l" by simp
    define lv1 where "lv1 = open_node env n (fst (nodes ! n)) lv"
    have lv1: "lvSession lv1 = session" "\<not> lvRegistered lv1" "\<not> lvReleased lv1"
      using lv by (simp_all add: lv1_def open_node_def add_writer_def split: option.splits)
    have was: "start_in_flight (calls sv ! k) = Some (csConnectionId session)" by (simp add: OpeningNodes start_in_flight_def)
    show ?thesis
    proof (cases "Suc n < length nodes")
      case True
      have sv': "sessions sv' = js_set (csId session) lv1 (sessions sv)" "activeSessions sv' = activeSessions sv"
        and fl: "start_in_flight t' = start_in_flight (calls sv ! k)"
        using step OpeningNodes live True lv1(1) by (auto simp: Let_def set_live_def start_in_flight_def simp flip: lv1_def)
      have "map_exact ?sv"
        by (rule map_exact_unheld [OF exact, of "csId session" lv1])
          (use unreg sv' lv1 in \<open>auto simp: holds_connection_def\<close>)
      then show ?thesis by (rule same_map [OF sv'(2) disjI2 [OF fl]])
    next
      case False
      have sv': "sessions sv' = js_set (csId session) (lv1 \<lparr> lvRegistered := True \<rparr>) (sessions sv)"
        "activeSessions sv' = js_set (csConnectionId session) (csId session) (activeSessions sv)" and fl: "start_in_flight t' = None"
        using step OpeningNodes live False lv1(1)
        by (auto simp: Let_def register_def set_live_def start_in_flight_def simp flip: lv1_def)
      have "map_exact ?sv"
      proof (rule map_exact_register [OF exact unreg])
        show "\<not> hasActiveSessionOn (csConnectionId session) sv" using free nth_mem [OF k] was by blast
        show "holds_connection (lv1 \<lparr> lvRegistered := True \<rparr>) (csConnectionId session)" using lv1 by (simp add: holds_connection_def)
      qed (simp_all add: sv')
      then show ?thesis by (rule entered [OF sv'(2) fl was])
    qed
  qed
qed

lemma service_step_calm:
  assumes ok: "service_ok sv" and calm: "calm_ok sv" and step: "service_step save cfg True sv sv'"
  shows "calm_ok sv'"
proof -
  have exact: "map_exact sv" and own: "own_by start_in_flight (calls sv)"
    and free: "\<forall>t \<in> set (calls sv). \<forall>conn. start_in_flight t = Some conn \<longrightarrow> \<not> hasActiveSessionOn conn sv"
    using calm by (simp_all add: calm_ok_def)
  have sid: "csId (lvSession lv) = sid" if "js_get (sessions sv) sid = Some lv" for sid lv
    using service_okD(1) [OF ok that] by (simp add: live_ok_def)
  have unmoved: ?thesis
    if "js_get (sessions sv) sid = Some lv" "\<And>conn. holds_connection lv' conn = holds_connection lv conn"
      "sessions sv' = js_set sid lv' (sessions sv)" "activeSessions sv' = activeSessions sv" "calls sv' = calls sv" for sid lv lv'
    using map_exact_same [OF exact that(1,2,3,4)] own free that(4,5) by (simp add: calm_ok_def hasActiveSessionOn_def)
  from step show ?thesis
  proof cases
    case (called i)
    have "own_by start_in_flight (calls sv @ [Checking i])"
      using own by (auto simp: own_by_def nth_append less_Suc_eq start_in_flight_def)
    moreover have "map_exact sv'" by (rule map_exact_cong [OF exact]) (simp_all add: called)
    ultimately show ?thesis using free by (simp add: called calm_ok_def hasActiveSessionOn_def start_in_flight_def)
  next
    case (stepped k env t' sv1)
    from start_step_calm [OF ok calm stepped(2,3)] stepped(5) show ?thesis by (simp add: stepped(1))
  next
    case (wrote sid lv k e lv' s')
    have same: "lvSession lv' = lvSession lv" "lvRegistered lv' = lvRegistered lv" "lvReleased lv' = lvReleased lv"
      using wrote(4) by (auto simp: writer_step_def split: prod.splits option.splits)
    show ?thesis
      by (rule unmoved [OF wrote(2), of lv'])
        (use same sid [OF wrote(2)] in \<open>simp_all add: holds_connection_def wrote(1) set_live_def\<close>)
  next
    case (stopped_session conn sid lv now)
    show ?thesis
      by (rule unmoved [OF stopped_session(3), of "stop_writers now lv"])
        (use sid [OF stopped_session(3)] in \<open>simp_all add: stopped_session(1) holds_connection_def set_live_def stop_writers_def\<close>)
  next
    case (finalized sid lv now)
    show ?thesis
      by (rule unmoved [OF finalized(2), of "lv \<lparr> lvFinalized := True \<rparr>"])
        (use sid [OF finalized(2)] in \<open>simp_all add: finalized(1) holds_connection_def\<close>)
  next
    case (released sid lv)
    let ?conn = "csConnectionId (lvSession lv)"
    have sv': "sessions sv' = js_set sid (lv \<lparr> lvReleased := True \<rparr>) (sessions sv)"
      "activeSessions sv' = js_delete ?conn (activeSessions sv)" "calls sv' = calls sv"
      using sid [OF released(2)] by (simp_all add: released(1) unregister_def set_live_def)
    have "map_exact sv'"
      by (rule map_exact_unregister [OF exact released(2) _ _ sv'(1,2)])
        (use released in \<open>simp_all add: holds_connection_def\<close>)
    moreover have "hasActiveSessionOn conn sv' \<Longrightarrow> hasActiveSessionOn conn sv" for conn
      by (auto simp: hasActiveSessionOn_def js_has_def sv'(2) js_get_delete split: if_splits)
    ultimately show ?thesis using own free by (auto simp: calm_ok_def sv'(3))
  qed
qed

lemma calm_reach:
  assumes save: "save = mem_saveCaptureChunk \<or> save = sql_saveCaptureChunk" and "service_reach save cfg True sv"
  shows "calm_ok sv"
proof -
  have "service_ok sv \<and> calm_ok sv"
    using assms(2) unfolding service_reach_def
  proof (induction rule: rtranclp_induct)
    case base
    show ?case
      by (simp add: service_ok_def calm_ok_def initial_service_def stored_ok_def empty_captures_def own_by_def map_exact_def)
  next
    case (step sv sv')
    then show ?case using service_step_ok [OF save] service_step_calm by blast
  qed
  then show ?thesis by blast
qed

text \<open>
  one session per connection. When no start of a connection passes its check while another start
  of it is under way, the map of active sessions is exact: its entry for a connection names a session
  that is registered on the connection and not yet released, and every such session is the one named.
\<close>

theorem one_session_per_connection:
  assumes "save = mem_saveCaptureChunk \<or> save = sql_saveCaptureChunk" and "service_reach save cfg True sv"
    and "js_get (sessions sv) a = Some lv" and "holds_connection lv conn"
  shows "js_get (activeSessions sv) conn = Some a
    \<and> (\<forall>b lv'. js_get (sessions sv) b = Some lv' \<and> holds_connection lv' conn \<longrightarrow> b = a \<and> lv' = lv)"
proof -
  have exact: "map_exact sv" using calm_reach [OF assms(1,2)] by (simp add: calm_ok_def)
  then have entry: "js_get (activeSessions sv) conn = Some a" using assms(3,4) by (auto simp: map_exact_def)
  moreover have "b = a \<and> lv' = lv" if "js_get (sessions sv) b = Some lv'" "holds_connection lv' conn" for b lv'
  proof -
    have "js_get (activeSessions sv) conn = Some b" using exact that by (auto simp: map_exact_def)
    with entry that(1) assms(3) show ?thesis by simp
  qed
  ultimately show ?thesis by blast
qed

section \<open>Runs\<close>

datatype service_move =
  CallStart StartSessionInput
| AdvanceStart nat start_env
| WriterEvent string nat capture_event
| StopSession string int
| FinalizeSession string int
| ReleaseSession string

definition fresh_session_check :: "string \<Rightarrow> capture_service \<Rightarrow> bool" where
  "fresh_session_check sid sv \<longleftrightarrow> \<not> js_has (sessions sv) sid \<and> \<not> js_has (captureSessions (captures sv)) sid
     \<and> list_all (\<lambda>t. case t of Saving s nodes \<Rightarrow> csId s \<noteq> sid | _ \<Rightarrow> True) (calls sv)"

definition may_advance :: "bool \<Rightarrow> start_env \<Rightarrow> start_call \<Rightarrow> capture_service \<Rightarrow> bool" where
  "may_advance calm env t sv =
     (case t of
        Resolving i \<Rightarrow> fresh_session_check (stNewId env) sv
      | Checking i \<Rightarrow> \<not> calm \<or> list_all (\<lambda>u. start_in_flight u \<noteq> Some (siConnectionId i)) (calls sv)
      | _ \<Rightarrow> True)"

fun do_service_move :: "save_chunk \<Rightarrow> capture_config \<Rightarrow> bool \<Rightarrow> service_move \<Rightarrow> capture_service \<Rightarrow> capture_service option" where
  "do_service_move save cfg calm (CallStart i) sv = Some (sv \<lparr> calls := calls sv @ [Checking i] \<rparr>)"
| "do_service_move save cfg calm (AdvanceStart k env) sv =
     (if k < length (calls sv) \<and> may_advance calm env (calls sv ! k) sv
      then (case start_step cfg env (calls sv ! k) sv of (t', sv') \<Rightarrow> Some (sv' \<lparr> calls := (calls sv)[k := t'] \<rparr>)) else None)"
| "do_service_move save cfg calm (WriterEvent sid k e) sv =
     (case js_get (sessions sv) sid of
        None \<Rightarrow> None
      | Some lv \<Rightarrow>
          if k < length (lvWriters lv)
          then (case writer_step save e k lv (captures sv) of
                  None \<Rightarrow> None
                | Some (lv', s') \<Rightarrow> Some ((set_live lv' sv) \<lparr> captures := s' \<rparr>))
          else None)"
| "do_service_move save cfg calm (StopSession conn now) sv =
     (case js_get (activeSessions sv) conn of
        None \<Rightarrow> None
      | Some sid \<Rightarrow> (case js_get (sessions sv) sid of None \<Rightarrow> None | Some lv \<Rightarrow> Some (set_live (stop_writers now lv) sv)))"
| "do_service_move save cfg calm (FinalizeSession sid now) sv =
     (case js_get (sessions sv) sid of
        None \<Rightarrow> None
      | Some lv \<Rightarrow> if lvRegistered lv \<and> \<not> lvFinalized lv \<and> all_done lv then Some (finalize now lv sv) else None)"
| "do_service_move save cfg calm (ReleaseSession sid) sv =
     (case js_get (sessions sv) sid of
        None \<Rightarrow> None
      | Some lv \<Rightarrow> if lvFinalized lv \<and> lvRegistered lv \<and> \<not> lvReleased lv then Some (unregister lv sv) else None)"

fun do_service_moves :: "save_chunk \<Rightarrow> capture_config \<Rightarrow> bool \<Rightarrow> service_move list \<Rightarrow> capture_service \<Rightarrow> capture_service option" where
  "do_service_moves save cfg calm [] sv = Some sv"
| "do_service_moves save cfg calm (m # ms) sv =
     (case do_service_move save cfg calm m sv of None \<Rightarrow> None | Some sv' \<Rightarrow> do_service_moves save cfg calm ms sv')"

lemma fresh_session_checked: "fresh_session_check sid sv \<Longrightarrow> fresh_session_id sid sv"
  by (auto simp: fresh_session_check_def fresh_session_id_def list_all_iff split: start_call.splits)

lemma do_service_move_step:
  assumes "do_service_move save cfg calm m sv = Some sv'"
  shows "service_step save cfg calm sv sv'"
proof (cases m)
  case (AdvanceStart k env)
  obtain t' sv1 where st: "start_step cfg env (calls sv ! k) sv = (t', sv1)" by fastforce
  with assms AdvanceStart have k: "k < length (calls sv)" "may_advance calm env (calls sv ! k) sv"
    and sv': "sv' = sv1 \<lparr> calls := (calls sv)[k := t'] \<rparr>" by (auto split: if_splits)
  show ?thesis
    unfolding sv'
    by (rule stepped [OF k(1) st]) (use k(2) fresh_session_checked in \<open>auto simp: may_advance_def list_all_iff\<close>)
qed (use assms in \<open>auto simp: called split: option.splits if_splits intro: wrote stopped_session finalized released\<close>)

lemma do_service_moves_reach:
  assumes "service_reach save cfg calm sv" and "do_service_moves save cfg calm ms sv = Some sv'"
  shows "service_reach save cfg calm sv'"
  using assms
proof (induction ms arbitrary: sv)
  case (Cons m ms)
  then obtain sv1 where m: "do_service_move save cfg calm m sv = Some sv1" and rest: "do_service_moves save cfg calm ms sv1 = Some sv'"
    by (auto split: option.splits)
  have "service_reach save cfg calm sv1"
    using Cons.prems(1) do_service_move_step [OF m] unfolding service_reach_def by simp
  from Cons.IH [OF this rest] show ?case .
qed simp

definition demo_config :: capture_config where "demo_config = \<lparr> envByteCap = None, envLineCap = None \<rparr>"

definition demo_start :: StartSessionInput where
  "demo_start = \<lparr> siConnectionId = ''conn'', siByteCap = None, siLineCap = Some 100, siSource = None, siTriggerId = None,
     siScheduleId = None, siRequestedBy = None, siTargetNodeId = None, siFanOut = False \<rparr>"

definition demo_answers :: "string \<Rightarrow> start_env" where
  "demo_answers sid = \<lparr> stFanOutDiscovery = None, stTargetDiscovery = None, stNewId = sid, stNow = 1, stSaved = None, stOpened = None \<rparr>"

text \<open>One session with a line that is flushed and not yet written.\<close>

definition one_capture :: "service_move list" where
  "one_capture = [CallStart demo_start] @ replicate 4 (AdvanceStart 0 (demo_answers ''s1''))
     @ [WriterEvent ''s1'' 0 (LineReceived ''get a'' 2 2), WriterEvent ''s1'' 0 (FlushElapsed 3)]"

definition after_moves :: "bool \<Rightarrow> service_move list \<Rightarrow> capture_service" where
  "after_moves calm ms =
     (case do_service_moves sql_saveCaptureChunk demo_config calm ms initial_service of None \<Rightarrow> initial_service | Some sv \<Rightarrow> sv)"

lemma after_moves_reach: "service_reach sql_saveCaptureChunk demo_config calm (after_moves calm ms)"
proof -
  have init: "service_reach sql_saveCaptureChunk demo_config calm initial_service" by (simp add: service_reach_def)
  then show ?thesis
    using do_service_moves_reach [OF init, of ms] by (auto simp: after_moves_def split: option.split)
qed

lemma chunk_write_never_refused_witness:
  "\<exists>ck. sql_saveCaptureChunk ck (captures (after_moves False one_capture)) \<noteq> None \<and> ckText ck = ''get a''"
proof -
  let ?sv = "after_moves False one_capture"
  have shape: "map_option (\<lambda>lv. (csLineCap (lvSession lv), map (\<lambda>(i, n, c). map ckText (writeQueue (writer c))) (lvWriters lv)))
      (js_get (sessions ?sv) ''s1'') = Some (100, [[''get a'']])" by code_simp
  then obtain lv where lv: "js_get (sessions ?sv) ''s1'' = Some lv" "csLineCap (lvSession lv) = 100"
    "map (\<lambda>(i, n, c). map ckText (writeQueue (writer c))) (lvWriters lv) = [[''get a'']]" by auto
  then obtain i n c ck where w: "lvWriters lv = [(i, n, c)]" "writeQueue (writer c) = [ck]" "ckText ck = ''get a''" by auto
  have cap: "csLineCap (lvSession lv) \<le> CHUNK_INDEX_NAMESPACE" by (simp add: lv(2) CHUNK_INDEX_NAMESPACE_def)
  have mem: "(i, n, c) \<in> set (lvWriters lv)" by (simp add: w(1))
  from chunk_write_never_refused [OF after_moves_reach lv(1) mem cap w(2)] w(3) show ?thesis by blast
qed

lemma one_session_per_connection_witness:
  "js_get (activeSessions (after_moves True one_capture)) ''conn'' = Some ''s1''"
proof -
  let ?sv = "after_moves True one_capture"
  have shape: "map_option (\<lambda>lv. holds_connection lv ''conn'') (js_get (sessions ?sv) ''s1'') = Some True" by code_simp
  then obtain lv where lv: "js_get (sessions ?sv) ''s1'' = Some lv" "holds_connection lv ''conn''" by auto
  from one_session_per_connection [OF disjI2 [OF refl] after_moves_reach lv] show ?thesis by blast
qed

text \<open>
  Two starts of one connection that overlap: both pass the check and both sessions hold the connection,
  of which the map names the second. The end of either removes the entry of the connection, whichever
  session it names, so the service then takes the connection to be free.
\<close>

definition overlapping_starts :: "service_move list" where
  "overlapping_starts = [CallStart demo_start, CallStart demo_start,
     AdvanceStart 0 (demo_answers ''s1''), AdvanceStart 1 (demo_answers ''s2'')]
     @ replicate 3 (AdvanceStart 0 (demo_answers ''s1'')) @ replicate 3 (AdvanceStart 1 (demo_answers ''s2''))"

lemma overlapping_starts_active: "js_get (activeSessions (after_moves False overlapping_starts)) ''conn'' = Some ''s2''"
  by code_simp

lemma overlapping_starts_first:
  "map_option (\<lambda>lv. holds_connection lv ''conn'') (js_get (sessions (after_moves False overlapping_starts)) ''s1'') = Some True"
  by code_simp

lemma released_connection_is_free: "\<not> hasActiveSessionOn (csConnectionId (lvSession lv)) (unregister lv sv)"
  by (simp add: hasActiveSessionOn_def unregister_def js_has_def js_get_delete)

end
