(* ===== verification/Load_Saturation.thy ===== *)
theory Load_Saturation
  imports Alert_Contract Anomaly_Types
begin

text \<open>
  The event-loop load saturation detector, load-saturation-detector.ts: the busy fraction of
  the event loop is classified into bands, a band must hold for three polls before it
  fires, and the alert level is subject to the escalate-acknowledge-re-arm hysteresis.

  The message is kept as the values it interpolates and the branch that selects its CPU
  clause; the English text around them is not modelled.
\<close>

definition LOAD_WARN_FRACTION :: real where "LOAD_WARN_FRACTION = 8 / 10"
definition LOAD_CRIT_FRACTION :: real where "LOAD_CRIT_FRACTION = 95 / 100"
definition LOAD_CONSECUTIVE_REQUIRED :: nat where "LOAD_CONSECUTIVE_REQUIRED = 3"
definition LOAD_CPU_UNDERSTATE_GAP :: real where "LOAD_CPU_UNDERSTATE_GAP = 15"

lemmas load_consts = LOAD_WARN_FRACTION_def LOAD_CRIT_FRACTION_def
  LOAD_CONSECUTIVE_REQUIRED_def LOAD_CPU_UNDERSTATE_GAP_def

record load_input =
  li_duration :: "jsnum option"
  li_cycles :: "jsnum option"
  li_cpu :: "real option"
  li_ops :: "real option"
  li_timestamp :: int

record load_state =
  ls_ackedLevel :: level
  ls_lastLevel :: level
  ls_consecutive :: nat

datatype load_cpu_part = CpuUnderstates real | CpuReads real | CpuUnknown

record load_message =
  lm_level :: level
  lm_busyPct :: real
  lm_cycles :: "jsnum option"
  lm_ops :: "real option"
  lm_cpu :: load_cpu_part

record load_finding =
  lf_level :: level
  lf_busyFraction :: real
  lf_message :: load_message
  lf_timestamp :: int

definition createLoadSaturationState :: load_state where
  "createLoadSaturationState = \<lparr>ls_ackedLevel = LNone, ls_lastLevel = LNone, ls_consecutive = 0\<rparr>"

definition load_classify :: "real \<Rightarrow> level" where
  "load_classify busyFraction =
     (if busyFraction \<ge> LOAD_CRIT_FRACTION then LCritical
      else if busyFraction \<ge> LOAD_WARN_FRACTION then LWarning
      else LNone)"

definition load_buildMessage :: "level \<Rightarrow> real \<Rightarrow> load_input \<Rightarrow> load_message" where
  "load_buildMessage level busyFraction input =
     (let busyPct = busyFraction * 100 in
      \<lparr>lm_level = level, lm_busyPct = busyPct, lm_cycles = li_cycles input, lm_ops = li_ops input,
       lm_cpu = (case li_cpu input of
                   Some cpu \<Rightarrow> if cpu < busyPct - LOAD_CPU_UNDERSTATE_GAP
                               then CpuUnderstates cpu else CpuReads cpu
                 | None \<Rightarrow> CpuUnknown)\<rparr>)"

text \<open>
  The guard at the head of the evaluator and the clamped fraction: \<open>None\<close> is the early
  return on a missing, non-finite or negative field.
\<close>

definition load_busyFraction :: "load_input \<Rightarrow> real option" where
  "load_busyFraction input =
     (case (li_duration input, li_cycles input) of
        (Some (Num duration), Some (Num cycles)) \<Rightarrow>
          if duration < 0 \<or> cycles < 0 then None
          else Some (max 0 (min 1 (duration * cycles / 1000000)))
      | _ \<Rightarrow> None)"

definition evaluateLoadSaturation ::
  "load_state \<Rightarrow> load_input \<Rightarrow> load_state \<times> load_finding option" where
  "evaluateLoadSaturation state input =
     (case load_busyFraction input of
        None \<Rightarrow> (state, None)
      | Some busyFraction \<Rightarrow>
          let level = load_classify busyFraction in
          if level = LNone
          then (state\<lparr>ls_consecutive := 0, ls_lastLevel := LNone, ls_ackedLevel := LNone\<rparr>, None)
          else
            let s1 = (if level \<noteq> ls_lastLevel state then state\<lparr>ls_consecutive := 0\<rparr> else state);
                s2 = s1\<lparr>ls_lastLevel := level, ls_consecutive := ls_consecutive s1 + 1\<rparr>;
                s3 = (if level_rank level < level_rank (ls_ackedLevel s2)
                      then s2\<lparr>ls_ackedLevel := level\<rparr> else s2)
            in if ls_consecutive s3 < LOAD_CONSECUTIVE_REQUIRED then (s3, None)
               else if \<not> level_rank level > level_rank (ls_ackedLevel s3) then (s3, None)
               else (s3, Some \<lparr>lf_level = level, lf_busyFraction = busyFraction,
                              lf_message = load_buildMessage level busyFraction input,
                              lf_timestamp = li_timestamp input\<rparr>))"

definition acknowledgeLoadSaturationFinding :: "load_state \<Rightarrow> load_finding \<Rightarrow> load_state" where
  "acknowledgeLoadSaturationFinding state finding = state\<lparr>ls_ackedLevel := lf_level finding\<rparr>"

text \<open>
  The service's handler, detectLoadSaturation: the per-connection state is created on first
  use, the finding becomes an event, and only a successful emit is acknowledged.
\<close>

definition detectLoadSaturation ::
  "(string, load_state) jsmap \<Rightarrow> info_num \<Rightarrow> string \<Rightarrow> int \<Rightarrow> real option \<Rightarrow> string \<Rightarrow> bool
   \<Rightarrow> (string, load_state) jsmap \<times> AnomalyEvent option" where
  "detectLoadSaturation states info connectionId timestamp cpuUtilization uuid emitted =
     (let state = js_get_or createLoadSaturationState states connectionId;
          (state', r) = evaluateLoadSaturation state
             \<lparr>li_duration = map_option Num (info ''instantaneous_eventloop_duration_usec''),
              li_cycles = map_option Num (info ''instantaneous_eventloop_cycles_per_sec''),
              li_cpu = cpuUtilization,
              li_ops = info ''instantaneous_ops_per_sec'',
              li_timestamp = timestamp\<rparr>
      in case r of
           None \<Rightarrow> (js_set connectionId state' states, None)
         | Some finding \<Rightarrow>
             (js_set connectionId
                (if emitted then acknowledgeLoadSaturationFinding state' finding else state') states,
              if emitted then
                Some (state_event uuid timestamp LOAD_SATURATION SPIKE
                  (level_severity (lf_level finding)) (lf_busyFraction finding * 100)
                  (LOAD_WARN_FRACTION * 100)
                  ((if lf_level finding = LCritical then LOAD_CRIT_FRACTION else LOAD_WARN_FRACTION) * 100)
                  connectionId)
              else None))"

section \<open>The band of a poll and the shape of one evaluation\<close>

definition load_level :: "load_input \<Rightarrow> level option" where
  "load_level input = map_option load_classify (load_busyFraction input)"

text \<open>Two polls are steady when they fall in the same band (or are both unreadable).\<close>

definition load_steady :: "load_input \<Rightarrow> load_input \<Rightarrow> bool" where
  "load_steady i j \<longleftrightarrow> load_level i = load_level j"

definition load_covered :: "load_state \<Rightarrow> load_input \<Rightarrow> bool" where
  "load_covered s i \<longleftrightarrow> (\<forall>l. load_level i = Some l \<longrightarrow> level_rank l \<le> level_rank (ls_ackedLevel s))"

lemma eval_load_gap: "load_level i = None \<Longrightarrow> evaluateLoadSaturation s i = (s, None)"
  by (simp add: load_level_def evaluateLoadSaturation_def)

lemma eval_load_state:
  assumes "load_level i = Some l"
  shows "fst (evaluateLoadSaturation s i) =
           s\<lparr>ls_lastLevel := l,
             ls_consecutive := (if l = LNone then 0 else if l = ls_lastLevel s then Suc (ls_consecutive s) else 1),
             ls_ackedLevel := min l (ls_ackedLevel s)\<rparr>"
  using assms
  by (cases l; cases "ls_ackedLevel s"; cases s)
    (auto simp: load_level_def evaluateLoadSaturation_def Let_def min_def js_simps)

lemma eval_load_result:
  assumes "load_level i = Some l"
  shows "(\<exists>f. snd (evaluateLoadSaturation s i) = Some f) \<longleftrightarrow>
           LOAD_CONSECUTIVE_REQUIRED \<le> ls_consecutive (fst (evaluateLoadSaturation s i)) \<and>
           level_rank (ls_ackedLevel s) < level_rank l"
  using assms
  by (cases l) (auto simp: load_level_def evaluateLoadSaturation_def Let_def load_consts split: if_splits)

lemma eval_load_finding:
  assumes "evaluateLoadSaturation s i = (s', Some f)"
  shows "load_level i = Some (lf_level f)" and "lf_level f \<noteq> LNone"
    and "ls_lastLevel s' = lf_level f" and "LOAD_CONSECUTIVE_REQUIRED \<le> ls_consecutive s'"
    and "level_rank (ls_ackedLevel s') < level_rank (lf_level f)"
  using assms
  by (auto simp: load_level_def evaluateLoadSaturation_def Let_def
      split: option.splits if_splits intro: level_rank_neq)

section \<open>The alert contract\<close>

interpretation load: alert_budget evaluateLoadSaturation acknowledgeLoadSaturationFinding
  "\<lambda>s. level_rank (ls_ackedLevel s)" 2
proof unfold_locales
  show "level_rank (ls_ackedLevel (fst (evaluateLoadSaturation s i))) \<le> level_rank (ls_ackedLevel s)" for s i
    by (cases "load_level i") (auto simp: eval_load_gap eval_load_state min_def js_simps)
  show "level_rank (ls_ackedLevel s') < level_rank (ls_ackedLevel (acknowledgeLoadSaturationFinding s' f))"
    if "evaluateLoadSaturation s i = (s', Some f)" for s i s' f
    using eval_load_finding(5) [OF that] by (simp add: acknowledgeLoadSaturationFinding_def)
qed simp

lemma load_retry:
  assumes ev: "evaluateLoadSaturation s i = (s', Some f)" and st: "load_steady i j"
  shows "\<exists>s'' f'. evaluateLoadSaturation s' j = (s'', Some f')"
proof -
  note found = eval_load_finding [OF ev]
  have l: "load_level j = Some (lf_level f)" using found(1) st by (simp add: load_steady_def)
  have "LOAD_CONSECUTIVE_REQUIRED \<le> ls_consecutive (fst (evaluateLoadSaturation s' j))"
    using found by (simp add: eval_load_state [OF l])
  with found eval_load_result [OF l, of s'] show ?thesis
    by (metis prod.collapse)
qed

interpretation load: alert_delivery evaluateLoadSaturation acknowledgeLoadSaturationFinding
  "\<lambda>s. level_rank (ls_ackedLevel s)" 2 load_steady load_covered
proof unfold_locales
  show "load_covered (acknowledgeLoadSaturationFinding s' f) j"
    if "evaluateLoadSaturation s i = (s', Some f)" "load_steady i j" for s i s' f j
    using eval_load_finding(1) [OF that(1)] that(2)
    by (auto simp: load_covered_def load_steady_def acknowledgeLoadSaturationFinding_def)
  show "snd (evaluateLoadSaturation s i) = None" if "load_covered s i" for s i
    using that eval_load_result [of i _ s]
    by (cases "load_level i") (fastforce simp: eval_load_gap load_covered_def)+
  show "load_covered (fst (evaluateLoadSaturation s i)) j"
    if "load_covered s i" "load_steady i j" for s i j
    using that
    by (cases "load_level i")
      (auto simp: eval_load_gap eval_load_state load_covered_def load_steady_def min_def js_simps)
qed (rule load_retry)

section \<open>Burst suppression\<close>

text \<open>The readable bands of a sequence of polls, in order.\<close>

definition load_bands :: "(load_input \<times> bool) list \<Rightarrow> level list" where
  "load_bands ps = List.map_filter (\<lambda>(i, _). load_level i) ps"

lemma load_bands_snoc [simp]:
  "load_bands [] = []"
  "load_bands (ps @ [(i, e)]) = load_bands ps @ (case load_level i of None \<Rightarrow> [] | Some l \<Rightarrow> [l])"
  by (simp_all add: load_bands_def map_filter_def split: option.split)

definition load_hold_inv :: "load_state \<Rightarrow> level list \<Rightarrow> bool" where
  "load_hold_inv s bands \<longleftrightarrow> (\<exists>pre. bands = pre @ replicate (ls_consecutive s) (ls_lastLevel s))"

lemma load_hold_eval:
  assumes "load_hold_inv s bands"
  shows "load_hold_inv (fst (evaluateLoadSaturation s i))
           (bands @ (case load_level i of None \<Rightarrow> [] | Some l \<Rightarrow> [l]))"
proof (cases "load_level i")
  case None
  with assms show ?thesis by (simp add: eval_load_gap)
next
  case (Some l)
  from assms obtain pre where "bands = pre @ replicate (ls_consecutive s) (ls_lastLevel s)"
    by (auto simp: load_hold_inv_def)
  with Some show ?thesis
    by (auto simp: load_hold_inv_def eval_load_state replicate_append_same [symmetric])
qed

lemma load_hold_ack [simp]:
  "load_hold_inv (acknowledgeLoadSaturationFinding s f) bands = load_hold_inv s bands"
  by (simp add: load_hold_inv_def acknowledgeLoadSaturationFinding_def)

lemma load_hold_poll:
  assumes "load_hold_inv s (load_bands ps)"
  shows "load_hold_inv (fst (poll_step evaluateLoadSaturation acknowledgeLoadSaturationFinding s i e))
           (load_bands (ps @ [(i, e)]))"
  using load_hold_eval [OF assms, of i]
  by (auto simp: poll_step_def split: prod.splits option.splits)

lemma load_hold_run:
  "load_hold_inv
     (fst (run_polls evaluateLoadSaturation acknowledgeLoadSaturationFinding createLoadSaturationState ps))
     (load_bands ps)"
proof (induction ps rule: rev_induct)
  case Nil
  show ?case by (simp add: load_hold_inv_def createLoadSaturationState_def)
next
  case (snoc p ps)
  obtain i e where p: "p = (i, e)" by (cases p)
  from load_hold_poll [OF snoc.IH, of i e] show ?case
    by (simp add: p run_polls_snoc_state)
qed

section \<open>Properties\<close>

definition load_at :: "real \<Rightarrow> int \<Rightarrow> load_input" where
  "load_at duration t = \<lparr>li_duration = Some (Num duration), li_cycles = Some (Num 1000), li_cpu = None, li_ops = None,
     li_timestamp = t\<rparr>"

definition load_armed :: load_state where
  "load_armed = fst (run_polls evaluateLoadSaturation acknowledgeLoadSaturationFinding createLoadSaturationState
     [(load_at 900 1, True), (load_at 910 2, True)])"

lemmas load_exec = load_at_def load_armed_def evaluateLoadSaturation_def load_busyFraction_def load_classify_def
  createLoadSaturationState_def load_consts poll_step_def Let_def

text \<open>
  Burst suppression: a load finding is produced only when the last three readable polls, this one
  included, all fall in the finding's band, whatever was emitted before.
\<close>

theorem load_fires_only_after_hold:
  assumes "evaluateLoadSaturation
      (fst (run_polls evaluateLoadSaturation acknowledgeLoadSaturationFinding createLoadSaturationState ps)) i = (s', Some f)"
  shows "\<exists>pre. load_bands (ps @ [(i, e)]) = pre @ [lf_level f, lf_level f, lf_level f]"
proof -
  note found = eval_load_finding [OF assms]
  from load_hold_eval [OF load_hold_run [of ps], of i] assms obtain pre where
    "load_bands ps @ (case load_level i of None \<Rightarrow> [] | Some l \<Rightarrow> [l]) = pre @ replicate (ls_consecutive s') (lf_level f)"
    using found(3) by (auto simp: load_hold_inv_def)
  moreover obtain n where "ls_consecutive s' = n + 3"
    using found(4) by (metis LOAD_CONSECUTIVE_REQUIRED_def le_Suc_ex add.commute)
  moreover have "replicate (n + 3) (lf_level f) = replicate n (lf_level f) @ [lf_level f, lf_level f, lf_level f]"
    by (simp only: replicate_add) (simp add: numeral_3_eq_3)
  ultimately have "load_bands (ps @ [(i, e)]) = (pre @ replicate n (lf_level f)) @ [lf_level f, lf_level f, lf_level f]"
    by simp
  then show ?thesis by blast
qed

theorem load_fires_only_after_hold_witness:
  "\<exists>s' f pre. evaluateLoadSaturation load_armed (load_at 920 3) = (s', Some f) \<and>
     load_bands [(load_at 900 1, True), (load_at 910 2, True), (load_at 920 3, True)] = pre @ [lf_level f, lf_level f, lf_level f]"
proof -
  have "snd (evaluateLoadSaturation load_armed (load_at 920 3)) \<noteq> None" by (simp add: load_exec)
  then obtain s' f where f: "evaluateLoadSaturation load_armed (load_at 920 3) = (s', Some f)"
    by (metis not_Some_eq prod.collapse)
  from load_fires_only_after_hold [OF f [unfolded load_armed_def], of True] f show ?thesis by auto
qed

text \<open>
  C29: Load saturation is delivered exactly once per condition: while the band stays the same, however
  many emits fail, the first successful one delivers one alert and no later poll another; over any
  run the alerts number at most twice one more than the polls that lowered the acknowledged level.
\<close>

theorem load_delivered_once:
  assumes "evaluateLoadSaturation s i = (s1, Some f)" and "steady_run load_steady i (js @ j # ks)"
  shows "length (snd (run_polls evaluateLoadSaturation acknowledgeLoadSaturationFinding s
           (zip (i # js) (replicate (Suc (length js)) False) @ (j, True) # zip ks oks))) = 1
       \<and> length (snd (run_polls evaluateLoadSaturation acknowledgeLoadSaturationFinding s ps)) \<le>
           2 * (1 + rearms (\<lambda>s. level_rank (ls_ackedLevel s)) evaluateLoadSaturation acknowledgeLoadSaturationFinding s ps)"
  using load.delivered_once [OF assms] load.alerts_bounded by blast

theorem load_delivered_once_witness:
  "length (snd (run_polls evaluateLoadSaturation acknowledgeLoadSaturationFinding load_armed
     [(load_at 920 3, False), (load_at 930 4, True), (load_at 940 5, True)])) = 1"
proof -
  have "snd (evaluateLoadSaturation load_armed (load_at 920 3)) \<noteq> None" by (simp add: load_exec)
  then obtain s1 f where "evaluateLoadSaturation load_armed (load_at 920 3) = (s1, Some f)"
    by (metis not_Some_eq prod.collapse)
  from load_delivered_once [OF this, of "[]" "load_at 930 4" "[load_at 940 5]" "[True]" "[]"]
  show ?thesis by (simp add: load_steady_def load_level_def load_exec)
qed

end
