(* ===== verification/Memory_Overhead.thy ===== *)
theory Memory_Overhead
  imports Alert_Contract Anomaly_Types
begin

text \<open>
  The non-dataset memory overhead detector, memory-overhead-detector.ts, and the service
  handler that feeds it the per-poll eviction delta. Samples whose accounting underflowed
  are skipped and only a long run of them is noted; consistent samples are classified
  against maxmemory and go through the alert hysteresis.
\<close>

definition OVERHEAD_WARN_FRACTION :: real where "OVERHEAD_WARN_FRACTION = 3 / 10"
definition OVERHEAD_CRIT_FRACTION :: real where "OVERHEAD_CRIT_FRACTION = 5 / 10"
definition EVICTION_OVERHEAD_MIN_FRACTION :: real where
  "EVICTION_OVERHEAD_MIN_FRACTION = OVERHEAD_WARN_FRACTION"
definition INVALID_SAMPLE_NOTE_STREAK :: nat where "INVALID_SAMPLE_NOTE_STREAK = 10"

lemmas mem_consts = OVERHEAD_WARN_FRACTION_def OVERHEAD_CRIT_FRACTION_def
  EVICTION_OVERHEAD_MIN_FRACTION_def INVALID_SAMPLE_NOTE_STREAK_def

datatype overhead_component =
  ClientsNormal | ClientsSlaves | ReplBacklog | ReplBuffers | AofBuffer | ScriptsFunctions | ClusterLinks

text \<open>\<open>OverheadComponents\<close> as the bytes of each key; \<open>Object.keys\<close> gives the literal's order.\<close>

type_synonym overhead_components = "overhead_component \<Rightarrow> real"

definition component_keys :: "overhead_component list" where
  "component_keys = [ClientsNormal, ClientsSlaves, ReplBacklog, ReplBuffers, AofBuffer,
                     ScriptsFunctions, ClusterLinks]"

record mem_input =
  mi_usedMemory :: real
  mi_usedMemoryOverhead :: real
  mi_usedMemoryStartup :: real
  mi_usedMemoryDataset :: real
  mi_usedMemoryDatasetPerc :: "real option"
  mi_maxmemory :: real
  mi_maxmemoryPolicy :: string
  mi_components :: overhead_components
  mi_evictedKeysDelta :: real
  mi_timestamp :: int

record mem_state =
  mst_ackedLevel :: level
  mst_invalidSampleStreak :: nat
  mst_inconsistencyNoted :: bool

datatype mem_finding_level = MInfo | MLevel level

record mem_finding =
  mf_level :: mem_finding_level
  mf_overheadBytes :: real
  mf_overheadFraction :: real
  mf_thresholdFraction :: real
  mf_dominantComponent :: "overhead_component option"
  mf_squeezing :: bool
  mf_timestamp :: int

definition createMemoryOverheadState :: mem_state where
  "createMemoryOverheadState =
     \<lparr>mst_ackedLevel = LNone, mst_invalidSampleStreak = 0, mst_inconsistencyNoted = False\<rparr>"

fun dominant_loop ::
  "overhead_components \<Rightarrow> overhead_component list \<Rightarrow> overhead_component \<Rightarrow> real
   \<Rightarrow> overhead_component \<times> real" where
  "dominant_loop comps [] bestKey bestBytes = (bestKey, bestBytes)"
| "dominant_loop comps (key # keys) bestKey bestBytes =
     (if comps key > bestBytes then dominant_loop comps keys key (comps key)
      else dominant_loop comps keys bestKey bestBytes)"

definition dominantComponent :: "overhead_components \<Rightarrow> overhead_component option \<times> real" where
  "dominantComponent comps =
     (let (bestKey, bestBytes) =
            dominant_loop comps component_keys (hd component_keys) (comps (hd component_keys))
      in if bestBytes \<le> 0 then (None, 0) else (Some bestKey, bestBytes))"

definition mem_sampleInconsistent :: "mem_input \<Rightarrow> bool" where
  "mem_sampleInconsistent input \<longleftrightarrow>
     mi_usedMemoryOverhead input > mi_usedMemory input \<or>
     mi_usedMemoryDataset input > mi_usedMemory input \<or>
     (case mi_usedMemoryDatasetPerc input of None \<Rightarrow> False | Some p \<Rightarrow> p > 100)"

definition mem_operationalOverhead :: "mem_input \<Rightarrow> real" where
  "mem_operationalOverhead input = max 0 (mi_usedMemoryOverhead input - mi_usedMemoryStartup input)"

definition mem_overheadFraction :: "mem_input \<Rightarrow> real" where
  "mem_overheadFraction input = mem_operationalOverhead input / mi_maxmemory input"

definition mem_overheadSqueezingData :: "mem_input \<Rightarrow> bool" where
  "mem_overheadSqueezingData input \<longleftrightarrow>
     (mi_maxmemoryPolicy input \<noteq> ''noeviction'' \<and> mi_evictedKeysDelta input > 0) \<and>
     mem_overheadFraction input \<ge> EVICTION_OVERHEAD_MIN_FRACTION \<and>
     mem_operationalOverhead input > mi_usedMemoryDataset input"

definition mem_level :: "mem_input \<Rightarrow> level" where
  "mem_level input =
     (if mem_overheadFraction input \<ge> OVERHEAD_CRIT_FRACTION \<or> mem_overheadSqueezingData input
      then LCritical
      else if mem_overheadFraction input \<ge> OVERHEAD_WARN_FRACTION then LWarning
      else LNone)"

definition mem_thresholdFraction :: "mem_input \<Rightarrow> real" where
  "mem_thresholdFraction input =
     (if mem_level input = LCritical
      then (if mem_overheadFraction input \<ge> OVERHEAD_CRIT_FRACTION
            then OVERHEAD_CRIT_FRACTION else EVICTION_OVERHEAD_MIN_FRACTION)
      else OVERHEAD_WARN_FRACTION)"

definition evaluateMemoryOverhead ::
  "mem_state \<Rightarrow> mem_input \<Rightarrow> mem_state \<times> mem_finding option" where
  "evaluateMemoryOverhead state input =
     (if mem_sampleInconsistent input then
        let s1 = state\<lparr>mst_invalidSampleStreak := mst_invalidSampleStreak state + 1\<rparr>;
            noteDue = (mst_invalidSampleStreak s1 \<ge> INVALID_SAMPLE_NOTE_STREAK \<and>
                       mst_inconsistencyNoted s1 = False)
        in if \<not> noteDue then (s1, None)
           else (s1, Some \<lparr>mf_level = MInfo, mf_overheadBytes = 0, mf_overheadFraction = 0,
                          mf_thresholdFraction = 0, mf_dominantComponent = None,
                          mf_squeezing = False, mf_timestamp = mi_timestamp input\<rparr>)
      else
        let s1 = state\<lparr>mst_invalidSampleStreak := 0, mst_inconsistencyNoted := False\<rparr> in
        if mi_maxmemory input \<le> 0 then (s1, None)
        else
          let level = mem_level input;
              s2 = (if level_rank level < level_rank (mst_ackedLevel s1)
                    then s1\<lparr>mst_ackedLevel := level\<rparr> else s1)
          in if level_rank level \<le> level_rank (mst_ackedLevel s2) \<or> level = LNone then (s2, None)
             else (s2, Some \<lparr>mf_level = MLevel level,
                            mf_overheadBytes = mem_operationalOverhead input,
                            mf_overheadFraction = mem_overheadFraction input,
                            mf_thresholdFraction = mem_thresholdFraction input,
                            mf_dominantComponent = fst (dominantComponent (mi_components input)),
                            mf_squeezing = mem_overheadSqueezingData input,
                            mf_timestamp = mi_timestamp input\<rparr>))"

definition acknowledgeMemoryOverheadFinding :: "mem_state \<Rightarrow> mem_finding \<Rightarrow> mem_state" where
  "acknowledgeMemoryOverheadFinding state finding =
     (case mf_level finding of
        MInfo \<Rightarrow> state\<lparr>mst_inconsistencyNoted := True\<rparr>
      | MLevel l \<Rightarrow> state\<lparr>mst_ackedLevel := l\<rparr>)"

text \<open>
  The service handler detectMemoryOverhead, over the per-connection detector states and the
  last seen \<open>evicted_keys\<close> counters.
\<close>

definition evicted_delta ::
  "(string, real) jsmap \<Rightarrow> string \<Rightarrow> real option \<Rightarrow> (string, real) jsmap \<times> real" where
  "evicted_delta lastEvicted connectionId current =
     (case current of
        None \<Rightarrow> (lastEvicted, 0)
      | Some c \<Rightarrow> (js_set connectionId c lastEvicted, max 0 (c - js_get_or c lastEvicted connectionId)))"

definition or0 :: "real option \<Rightarrow> real" where
  "or0 x = (case x of None \<Rightarrow> 0 | Some v \<Rightarrow> v)"

definition mem_components_of :: "info_num \<Rightarrow> overhead_components" where
  "mem_components_of info k =
     (case k of
        ClientsNormal \<Rightarrow> or0 (info ''mem_clients_normal'')
      | ClientsSlaves \<Rightarrow> or0 (info ''mem_clients_slaves'')
      | ReplBacklog \<Rightarrow> or0 (info ''mem_replication_backlog'')
      | ReplBuffers \<Rightarrow> or0 (info ''mem_total_replication_buffers'')
      | AofBuffer \<Rightarrow> or0 (info ''mem_aof_buffer'')
      | ScriptsFunctions \<Rightarrow> or0 (info ''used_memory_scripts'') + or0 (info ''used_memory_functions'')
      | ClusterLinks \<Rightarrow> or0 (info ''mem_cluster_links''))"

definition mem_severity :: "mem_finding_level \<Rightarrow> AnomalySeverity" where
  "mem_severity l = (case l of MLevel LCritical \<Rightarrow> CRITICAL | MLevel LWarning \<Rightarrow> WARNING | _ \<Rightarrow> INFO)"

record mem_service =
  ms_states :: "(string, mem_state) jsmap"
  ms_lastEvicted :: "(string, real) jsmap"

definition detectMemoryOverhead ::
  "mem_service \<Rightarrow> info_num \<Rightarrow> info_str \<Rightarrow> string \<Rightarrow> int \<Rightarrow> string \<Rightarrow> bool
   \<Rightarrow> mem_service \<times> AnomalyEvent option" where
  "detectMemoryOverhead sv info infos connectionId timestamp uuid emitted =
     (let (lastEvicted', delta) = evicted_delta (ms_lastEvicted sv) connectionId (info ''evicted_keys'');
          sv1 = sv\<lparr>ms_lastEvicted := lastEvicted'\<rparr>
      in case (info ''maxmemory'', info ''used_memory'', info ''used_memory_overhead'', info ''used_memory_startup'') of
           (Some maxmemory, Some used, Some overhead, Some startup) \<Rightarrow>
             if maxmemory \<le> 0 then (sv1, None)
             else
               let state = js_get_or createMemoryOverheadState (ms_states sv1) connectionId;
                   (state', r) = evaluateMemoryOverhead state
                      \<lparr>mi_usedMemory = used, mi_usedMemoryOverhead = overhead,
                       mi_usedMemoryStartup = startup,
                       mi_usedMemoryDataset = or0 (info ''used_memory_dataset''),
                       mi_usedMemoryDatasetPerc = info ''used_memory_dataset_perc'',
                       mi_maxmemory = maxmemory,
                       mi_maxmemoryPolicy = (case infos ''maxmemory_policy'' of None \<Rightarrow> ''noeviction'' | Some p \<Rightarrow> p),
                       mi_components = mem_components_of info,
                       mi_evictedKeysDelta = delta, mi_timestamp = timestamp\<rparr>
               in (case r of
                     None \<Rightarrow> (sv1\<lparr>ms_states := js_set connectionId state' (ms_states sv1)\<rparr>, None)
                   | Some f \<Rightarrow>
                       if emitted then
                         (sv1\<lparr>ms_states := js_set connectionId (acknowledgeMemoryOverheadFinding state' f) (ms_states sv1)\<rparr>,
                          Some (state_event uuid timestamp MEMORY_OVERHEAD SPIKE (mem_severity (mf_level f))
                            (mf_overheadBytes f) maxmemory
                            (of_int (round (maxmemory * mf_thresholdFraction f))) connectionId))
                       else (sv1\<lparr>ms_states := js_set connectionId state' (ms_states sv1)\<rparr>, None))
         | _ \<Rightarrow> (sv1, None))"

section \<open>What a poll observes\<close>

datatype mem_observation = MUnderflow | MNoBudget | MBand level

definition mem_observe :: "mem_input \<Rightarrow> mem_observation" where
  "mem_observe i = (if mem_sampleInconsistent i then MUnderflow
                    else if mi_maxmemory i \<le> 0 then MNoBudget else MBand (mem_level i))"

definition mem_steady :: "mem_input \<Rightarrow> mem_input \<Rightarrow> bool" where
  "mem_steady i j \<longleftrightarrow> mem_observe j = mem_observe i"

definition mem_covered :: "mem_state \<Rightarrow> mem_input \<Rightarrow> bool" where
  "mem_covered s i \<longleftrightarrow> (case mem_observe i of MUnderflow \<Rightarrow> mst_inconsistencyNoted s
      | MNoBudget \<Rightarrow> True | MBand l \<Rightarrow> level_rank l \<le> level_rank (mst_ackedLevel s))"

definition mem_acked :: "mem_state \<Rightarrow> nat" where
  "mem_acked s = level_rank (mst_ackedLevel s) + (if mst_inconsistencyNoted s then 1 else 0)"

lemmas mem_eval_simps = evaluateMemoryOverhead_def mem_observe_def Let_def

lemma eval_mem_underflow:
  assumes "mem_observe i = MUnderflow"
  shows "fst (evaluateMemoryOverhead s i) = s\<lparr>mst_invalidSampleStreak := Suc (mst_invalidSampleStreak s)\<rparr>"
    and "(snd (evaluateMemoryOverhead s i) \<noteq> None) \<longleftrightarrow>
           INVALID_SAMPLE_NOTE_STREAK \<le> Suc (mst_invalidSampleStreak s) \<and> \<not> mst_inconsistencyNoted s"
    and "snd (evaluateMemoryOverhead s i) = Some f \<Longrightarrow> mf_level f = MInfo"
  using assms by (auto simp: mem_eval_simps split: if_splits)

lemma eval_mem_nobudget:
  assumes "mem_observe i = MNoBudget"
  shows "evaluateMemoryOverhead s i = (s\<lparr>mst_invalidSampleStreak := 0, mst_inconsistencyNoted := False\<rparr>, None)"
  using assms by (auto simp: mem_eval_simps split: if_splits)

lemma eval_mem_band:
  assumes "mem_observe i = MBand l"
  shows "fst (evaluateMemoryOverhead s i) =
           s\<lparr>mst_invalidSampleStreak := 0, mst_inconsistencyNoted := False,
             mst_ackedLevel := min l (mst_ackedLevel s)\<rparr>"
    and "(snd (evaluateMemoryOverhead s i) \<noteq> None) \<longleftrightarrow> level_rank (mst_ackedLevel s) < level_rank l"
    and "snd (evaluateMemoryOverhead s i) = Some f \<Longrightarrow> mf_level f = MLevel l"
  using assms
  by (cases l; cases "mst_ackedLevel s"; auto simp: mem_eval_simps min_def js_simps split: if_splits)+

lemma eval_mem_acked: "mem_acked (fst (evaluateMemoryOverhead s i)) \<le> mem_acked s"
  by (cases "mem_observe i")
    (auto simp: mem_acked_def eval_mem_underflow eval_mem_nobudget eval_mem_band min_def js_simps)

lemma eval_mem_finding:
  assumes "evaluateMemoryOverhead s i = (s', Some f)"
  shows "(mf_level f = MInfo \<and> mem_observe i = MUnderflow \<and> \<not> mst_inconsistencyNoted s' \<and>
           INVALID_SAMPLE_NOTE_STREAK \<le> mst_invalidSampleStreak s') \<or>
         (\<exists>l. mf_level f = MLevel l \<and> mem_observe i = MBand l \<and> \<not> mst_inconsistencyNoted s' \<and>
           level_rank (mst_ackedLevel s') < level_rank l)"
proof (cases "mem_observe i")
  case MUnderflow
  with eval_mem_underflow [OF this, where s = s] assms show ?thesis by auto
next
  case MNoBudget
  with eval_mem_nobudget [OF this, of s] assms show ?thesis by simp
next
  case (MBand l)
  with eval_mem_band [OF this, where s = s] assms show ?thesis by (auto simp: min_def js_simps)
qed

interpretation mem: alert_budget evaluateMemoryOverhead acknowledgeMemoryOverheadFinding mem_acked 3
proof unfold_locales
  show "mem_acked s' < mem_acked (acknowledgeMemoryOverheadFinding s' f)"
    if "evaluateMemoryOverhead s i = (s', Some f)" for s i s' f
    using eval_mem_finding [OF that]
    by (auto simp: mem_acked_def acknowledgeMemoryOverheadFinding_def)
  show "mem_acked s \<le> 3" for s
    by (cases "mst_ackedLevel s") (simp_all add: mem_acked_def)
qed (rule eval_mem_acked)

lemma mem_retry:
  assumes "evaluateMemoryOverhead s i = (s', Some f)" and "mem_steady i j"
  shows "\<exists>s'' f'. evaluateMemoryOverhead s' j = (s'', Some f')"
proof -
  have "snd (evaluateMemoryOverhead s' j) \<noteq> None"
    using eval_mem_finding [OF assms(1)] assms(2)
      eval_mem_underflow(2) [of j s'] eval_mem_band(2) [of j _ s']
    by (auto simp: mem_steady_def)
  then show ?thesis by (metis not_Some_eq prod.collapse)
qed

interpretation mem: alert_delivery evaluateMemoryOverhead acknowledgeMemoryOverheadFinding mem_acked 3
  mem_steady mem_covered
proof unfold_locales
  show "mem_covered (acknowledgeMemoryOverheadFinding s' f) j"
    if "evaluateMemoryOverhead s i = (s', Some f)" "mem_steady i j" for s i s' f j
    using eval_mem_finding [OF that(1)] that(2)
    by (auto simp: mem_covered_def mem_steady_def acknowledgeMemoryOverheadFinding_def)
  show "snd (evaluateMemoryOverhead s i) = None" if "mem_covered s i" for s i
    using that eval_mem_underflow(2) [of i s] eval_mem_nobudget [of i s] eval_mem_band(2) [of i _ s]
    by (cases "mem_observe i") (auto simp: mem_covered_def)
  show "mem_covered (fst (evaluateMemoryOverhead s i)) j" if "mem_covered s i" "mem_steady i j" for s i j
    using that
    by (cases "mem_observe i")
      (auto simp: mem_covered_def mem_steady_def eval_mem_underflow eval_mem_nobudget eval_mem_band
        min_def js_simps)
qed (rule mem_retry)

section \<open>The dominant component\<close>

lemma dominant_loop_max:
  assumes "dominant_loop comps keys k b = (k', b')" and "comps k = b"
  shows "comps k' = b' \<and> b \<le> b' \<and> (\<forall>x \<in> set keys. comps x \<le> b') \<and> (k' = k \<or> k' \<in> set keys)"
  using assms
  by (induction comps keys k b rule: dominant_loop.induct) (force split: if_splits)+

lemma component_keys_all: "c \<in> set component_keys"
  by (cases c) (simp_all add: component_keys_def)

lemma dominantComponent_spec:
  "dominantComponent comps = (None, 0) \<and> (\<forall>c. comps c \<le> 0) \<or>
   (\<exists>k. dominantComponent comps = (Some k, comps k) \<and> 0 < comps k \<and> (\<forall>c. comps c \<le> comps k))"
proof -
  obtain k b where d: "dominant_loop comps component_keys (hd component_keys) (comps (hd component_keys)) = (k, b)"
    by fastforce
  from dominant_loop_max [OF d refl] component_keys_all
  have "comps k = b" and "\<forall>c. comps c \<le> b" by auto
  then show ?thesis
    by (cases "b \<le> 0") (auto simp: dominantComponent_def d intro: order_trans)
qed

section \<open>Properties\<close>

text \<open>
  A memory-overhead alert states a threshold it really crossed: the overhead share of maxmemory is
  at or above the reported threshold, which is at least 30 percent, and the reported dominant
  component has the largest share of all components, if any is positive.
\<close>

theorem mem_alert_crosses_threshold:
  assumes "evaluateMemoryOverhead s i = (s', Some f)" and "mf_level f = MLevel l"
  shows "mf_thresholdFraction f \<le> mf_overheadFraction f \<and> 3 / 10 \<le> mf_thresholdFraction f \<and>
     (case mf_dominantComponent f of None \<Rightarrow> \<forall>c. mi_components i c \<le> 0
      | Some k \<Rightarrow> 0 < mi_components i k \<and> (\<forall>c. mi_components i c \<le> mi_components i k))"
proof -
  have obs: "mem_observe i = MBand l" using eval_mem_finding [OF assms(1)] assms(2) by auto
  then have fields: "mf_thresholdFraction f = mem_thresholdFraction i" "mf_overheadFraction f = mem_overheadFraction i"
      "mf_dominantComponent f = fst (dominantComponent (mi_components i))" "l = mem_level i" "l \<noteq> LNone"
    using assms by (auto simp: mem_eval_simps split: if_splits)
  have "mem_thresholdFraction i \<le> mem_overheadFraction i \<and> 3 / 10 \<le> mem_thresholdFraction i"
    using fields(4,5)
    by (auto simp: mem_thresholdFraction_def mem_level_def mem_overheadSqueezingData_def
        OVERHEAD_WARN_FRACTION_def OVERHEAD_CRIT_FRACTION_def EVICTION_OVERHEAD_MIN_FRACTION_def Let_def split: if_splits)
  with fields dominantComponent_spec [of "mi_components i"] show ?thesis by auto
qed

definition mem_at :: "real \<Rightarrow> mem_input" where
  "mem_at overhead = \<lparr>mi_usedMemory = 60, mi_usedMemoryOverhead = overhead, mi_usedMemoryStartup = 1,
     mi_usedMemoryDataset = 20, mi_usedMemoryDatasetPerc = None, mi_maxmemory = 100, mi_maxmemoryPolicy = ''noeviction'',
     mi_components = (\<lambda>c. if c = ReplBacklog then 20 else 1), mi_evictedKeysDelta = 0, mi_timestamp = 1\<rparr>"

theorem mem_alert_crosses_threshold_witness:
  "\<exists>s' f. evaluateMemoryOverhead createMemoryOverheadState (mem_at 40) = (s', Some f) \<and>
     mf_thresholdFraction f \<le> mf_overheadFraction f"
proof -
  obtain s' f where f: "evaluateMemoryOverhead createMemoryOverheadState (mem_at 40) = (s', Some f)"
    and l: "mf_level f = MLevel LWarning"
    by (simp add: evaluateMemoryOverhead_def mem_at_def createMemoryOverheadState_def mem_sampleInconsistent_def
        mem_level_def mem_overheadFraction_def mem_operationalOverhead_def mem_overheadSqueezingData_def
        OVERHEAD_WARN_FRACTION_def OVERHEAD_CRIT_FRACTION_def Let_def)
  with mem_alert_crosses_threshold [OF f l] show ?thesis by blast
qed

end
