(* ===== verification/Fork_Memory.thy ===== *)
theory Fork_Memory
  imports Alert_Contract Anomaly_Types
begin

text \<open>
  The fork-memory (copy-on-write) risk detector, fork-memory-risk-detector.ts, and the
  service handler that derives the write rate it is gated on. Two assessments (a live one
  while a save runs, a projected one otherwise) feed one hysteresis whose severity combines
  level and kind, so that a live risk is not masked by an acknowledged projected one.
\<close>

definition FORK_OOM_WARN_FRACTION :: real where "FORK_OOM_WARN_FRACTION = 8 / 10"
definition FORK_OOM_CRIT_FRACTION :: real where "FORK_OOM_CRIT_FRACTION = 9 / 10"
definition SLOW_FORK_USEC :: real where "SLOW_FORK_USEC = 500000"
definition FORK_PROJECT_WRITE_RATE_PER_SEC :: real where "FORK_PROJECT_WRITE_RATE_PER_SEC = 1000"

lemmas fork_consts = FORK_OOM_WARN_FRACTION_def FORK_OOM_CRIT_FRACTION_def SLOW_FORK_USEC_def
  FORK_PROJECT_WRITE_RATE_PER_SEC_def

datatype fork_kind = LiveCowOom | ProjectedForkOom

record fork_input =
  fi_bgsaveInProgress :: bool
  fi_aofRewriteInProgress :: bool
  fi_currentCowSize :: "real option"
  fi_rdbLastCowSize :: "real option"
  fi_aofLastCowSize :: "real option"
  fi_latestForkUsec :: "real option"
  fi_usedMemory :: real
  fi_usedMemoryRss :: "real option"
  fi_totalSystemMemory :: "real option"
  fi_writeRatePerSec :: "real option"
  fi_timestamp :: int

record fork_state =
  fs_ackedLevel :: level
  fs_ackedKind :: fork_kind

datatype save_label = BgsaveAndAof | AofRewrite | Bgsave

datatype fork_message =
    NoForkMessage
  | LiveMessage save_label real real real real bool
      \<comment> \<open>save, projected peak, basis, COW, system memory, slow-fork note\<close>
  | ProjectedMessage real real real real real bool
      \<comment> \<open>write rate, projected peak, basis, last COW, system memory, slow-fork note\<close>

record fork_assessment =
  fa_level :: level
  fa_kind :: fork_kind
  fa_projectedFraction :: real
  fa_message :: fork_message

record fork_finding =
  ff_level :: level
  ff_kind :: fork_kind
  ff_projectedFraction :: real
  ff_message :: fork_message
  ff_timestamp :: int

definition severityScore :: "level \<Rightarrow> fork_kind \<Rightarrow> nat" where
  "severityScore level kind =
     (if level = LNone then 0
      else (if level = LCritical then 2 else 1) * 10 + (if kind = LiveCowOom then 1 else 0))"

definition createForkMemoryState :: fork_state where
  "createForkMemoryState = \<lparr>fs_ackedLevel = LNone, fs_ackedKind = ProjectedForkOom\<rparr>"

definition saveLabel :: "fork_input \<Rightarrow> save_label" where
  "saveLabel input =
     (if fi_bgsaveInProgress input \<and> fi_aofRewriteInProgress input then BgsaveAndAof
      else if fi_aofRewriteInProgress input then AofRewrite
      else Bgsave)"

definition slowForkNote :: "real option \<Rightarrow> bool" where
  "slowForkNote latestForkUsec = (case latestForkUsec of None \<Rightarrow> False | Some u \<Rightarrow> u > SLOW_FORK_USEC)"

definition NONE_LIVE :: fork_assessment where
  "NONE_LIVE = \<lparr>fa_level = LNone, fa_kind = LiveCowOom, fa_projectedFraction = 0, fa_message = NoForkMessage\<rparr>"

definition NONE_PROJECTED :: fork_assessment where
  "NONE_PROJECTED = \<lparr>fa_level = LNone, fa_kind = ProjectedForkOom, fa_projectedFraction = 0, fa_message = NoForkMessage\<rparr>"

definition fork_assess :: "fork_input \<Rightarrow> fork_assessment" where
  "fork_assess input =
     (let saveInProgress = (fi_bgsaveInProgress input \<or> fi_aofRewriteInProgress input);
          basis = (case fi_usedMemoryRss input of Some r \<Rightarrow> r | None \<Rightarrow> fi_usedMemory input)
      in case fi_totalSystemMemory input of
           None \<Rightarrow> if saveInProgress then NONE_LIVE else NONE_PROJECTED
         | Some systemMemory \<Rightarrow>
             if \<not> systemMemory > 0 then (if saveInProgress then NONE_LIVE else NONE_PROJECTED)
             else if saveInProgress then
               let cow = (case fi_currentCowSize input of Some c \<Rightarrow> c | None \<Rightarrow> 0);
                   projectedPeak = basis + cow;
                   fraction = projectedPeak / systemMemory;
                   level = (if fraction \<ge> FORK_OOM_CRIT_FRACTION then LCritical
                            else if fraction \<ge> FORK_OOM_WARN_FRACTION then LWarning else LNone)
               in if level = LNone then NONE_LIVE
                  else \<lparr>fa_level = level, fa_kind = LiveCowOom, fa_projectedFraction = fraction,
                        fa_message = LiveMessage (saveLabel input) projectedPeak basis cow systemMemory
                                       (slowForkNote (fi_latestForkUsec input))\<rparr>
             else
               let lastCow = max (case fi_rdbLastCowSize input of Some c \<Rightarrow> c | None \<Rightarrow> 0)
                                 (case fi_aofLastCowSize input of Some c \<Rightarrow> c | None \<Rightarrow> 0)
               in if lastCow \<le> 0 then NONE_PROJECTED
                  else case fi_writeRatePerSec input of
                         None \<Rightarrow> NONE_PROJECTED
                       | Some rate \<Rightarrow>
                           if \<not> rate \<ge> FORK_PROJECT_WRITE_RATE_PER_SEC then NONE_PROJECTED
                           else
                             let projectedPeak = basis + lastCow;
                                 fraction = projectedPeak / systemMemory
                             in if fraction < FORK_OOM_WARN_FRACTION then NONE_PROJECTED
                                else \<lparr>fa_level = LWarning, fa_kind = ProjectedForkOom,
                                      fa_projectedFraction = fraction,
                                      fa_message = ProjectedMessage rate projectedPeak basis lastCow
                                        systemMemory (slowForkNote (fi_latestForkUsec input))\<rparr>)"

definition evaluateForkMemoryRisk ::
  "fork_state \<Rightarrow> fork_input \<Rightarrow> fork_state \<times> fork_finding option" where
  "evaluateForkMemoryRisk state input =
     (let assessment = fork_assess input;
          currentScore = severityScore (fa_level assessment) (fa_kind assessment);
          s1 = (if currentScore < severityScore (fs_ackedLevel state) (fs_ackedKind state)
                then state\<lparr>fs_ackedLevel := fa_level assessment, fs_ackedKind := fa_kind assessment\<rparr>
                else state)
      in if \<not> currentScore > severityScore (fs_ackedLevel s1) (fs_ackedKind s1) then (s1, None)
         else (s1, Some \<lparr>ff_level = (if fa_level assessment = LCritical then LCritical else LWarning),
                        ff_kind = fa_kind assessment,
                        ff_projectedFraction = fa_projectedFraction assessment,
                        ff_message = fa_message assessment,
                        ff_timestamp = fi_timestamp input\<rparr>))"

definition acknowledgeForkMemoryFinding :: "fork_state \<Rightarrow> fork_finding \<Rightarrow> fork_state" where
  "acknowledgeForkMemoryFinding state finding =
     state\<lparr>fs_ackedLevel := ff_level finding, fs_ackedKind := ff_kind finding\<rparr>"

text \<open>
  The write rate of detectForkMemoryRisk: the per-poll growth of
  \<open>rdb_changes_since_last_save\<close> over the elapsed seconds, floored at 0 across a counter reset,
  and absent until a baseline exists.
\<close>

definition fork_writeRate ::
  "(string, real \<times> int) jsmap \<Rightarrow> string \<Rightarrow> real option \<Rightarrow> int \<Rightarrow> (string, real \<times> int) jsmap \<times> real option" where
  "fork_writeRate lastChanges connectionId currentChanges timestamp =
     (case currentChanges of
        None \<Rightarrow> (lastChanges, None)
      | Some changes \<Rightarrow>
          (js_set connectionId (changes, timestamp) lastChanges,
           case js_get lastChanges connectionId of
             None \<Rightarrow> None
           | Some (prevChanges, prevTs) \<Rightarrow>
               let dtSec = of_int (timestamp - prevTs) / 1000 in
               if dtSec > 0 then Some (max 0 (changes - prevChanges) / dtSec) else None))"

record fork_service =
  fsv_states :: "(string, fork_state) jsmap"
  fsv_lastChanges :: "(string, real \<times> int) jsmap"

definition detectForkMemoryRisk ::
  "fork_service \<Rightarrow> info_num \<Rightarrow> info_str \<Rightarrow> string \<Rightarrow> int \<Rightarrow> string \<Rightarrow> bool
   \<Rightarrow> fork_service \<times> AnomalyEvent option" where
  "detectForkMemoryRisk sv info infos connectionId timestamp uuid emitted =
     (let state = js_get_or createForkMemoryState (fsv_states sv) connectionId;
          (lastChanges', rate) =
            fork_writeRate (fsv_lastChanges sv) connectionId (info ''rdb_changes_since_last_save'') timestamp;
          (state', r) = evaluateForkMemoryRisk state
            \<lparr>fi_bgsaveInProgress = (infos ''rdb_bgsave_in_progress'' = Some ''1''),
             fi_aofRewriteInProgress = (infos ''aof_rewrite_in_progress'' = Some ''1''),
             fi_currentCowSize = info ''current_cow_size'',
             fi_rdbLastCowSize = info ''rdb_last_cow_size'',
             fi_aofLastCowSize = info ''aof_last_cow_size'',
             fi_latestForkUsec = info ''latest_fork_usec'',
             fi_usedMemory = (case info ''used_memory'' of None \<Rightarrow> 0 | Some v \<Rightarrow> v),
             fi_usedMemoryRss = info ''used_memory_rss'',
             fi_totalSystemMemory = info ''total_system_memory'',
             fi_writeRatePerSec = rate,
             fi_timestamp = timestamp\<rparr>;
          sv1 = sv\<lparr>fsv_lastChanges := lastChanges', fsv_states := js_set connectionId state' (fsv_states sv)\<rparr>
      in case r of
           None \<Rightarrow> (sv1, None)
         | Some f \<Rightarrow>
             if emitted then
               (sv1\<lparr>fsv_states := js_set connectionId (acknowledgeForkMemoryFinding state' f) (fsv_states sv1)\<rparr>,
                Some (state_event uuid timestamp FORK_MEMORY_RISK SPIKE (level_severity (ff_level f))
                  (of_int (round (ff_projectedFraction f * 100)))
                  (of_int (round (FORK_OOM_WARN_FRACTION * 100)))
                  (of_int (round ((if ff_level f = LCritical then FORK_OOM_CRIT_FRACTION
                                   else FORK_OOM_WARN_FRACTION) * 100))) connectionId))
             else (sv1, None))"

section \<open>The combined severity and the alert contract\<close>

definition fork_score :: "fork_input \<Rightarrow> nat" where
  "fork_score i = severityScore (fa_level (fork_assess i)) (fa_kind (fork_assess i))"

definition fork_acked :: "fork_state \<Rightarrow> nat" where
  "fork_acked s = severityScore (fs_ackedLevel s) (fs_ackedKind s)"

definition fork_steady :: "fork_input \<Rightarrow> fork_input \<Rightarrow> bool" where
  "fork_steady i j \<longleftrightarrow> fork_score j = fork_score i"

definition fork_covered :: "fork_state \<Rightarrow> fork_input \<Rightarrow> bool" where
  "fork_covered s i \<longleftrightarrow> fork_score i \<le> fork_acked s"

lemma severityScore_le: "severityScore l k \<le> 21"
  by (simp add: severityScore_def)

lemma severityScore_0 [simp]: "severityScore l k = 0 \<longleftrightarrow> l = LNone"
  by (simp add: severityScore_def)

lemma severityScore_order:
  "level_rank l < level_rank l' \<Longrightarrow> severityScore l k < severityScore l' k'"
  "l \<noteq> LNone \<Longrightarrow> severityScore l ProjectedForkOom < severityScore l LiveCowOom"
  by (cases l; cases l'; simp add: severityScore_def)+

lemma eval_fork_state: "fork_acked (fst (evaluateForkMemoryRisk s i)) = min (fork_score i) (fork_acked s)"
  by (auto simp: evaluateForkMemoryRisk_def fork_score_def fork_acked_def Let_def)

lemma eval_fork_result: "(snd (evaluateForkMemoryRisk s i) \<noteq> None) \<longleftrightarrow> fork_acked s < fork_score i"
  by (auto simp: evaluateForkMemoryRisk_def fork_score_def fork_acked_def Let_def)

lemma eval_fork_finding:
  assumes "evaluateForkMemoryRisk s i = (s', Some f)"
  shows "fork_acked (acknowledgeForkMemoryFinding s' f) = fork_score i" and "fork_acked s' < fork_score i"
proof -
  from assms have score: "fork_acked s < fork_score i" using eval_fork_result [of s i] by simp
  with assms eval_fork_state [of s i] show "fork_acked s' < fork_score i" by simp
  from score have "fa_level (fork_assess i) \<noteq> LNone" by (auto simp: fork_score_def severityScore_def)
  with assms show "fork_acked (acknowledgeForkMemoryFinding s' f) = fork_score i"
    by (cases "fa_level (fork_assess i)")
      (auto simp: evaluateForkMemoryRisk_def fork_score_def fork_acked_def Let_def
        acknowledgeForkMemoryFinding_def split: if_splits)
qed

interpretation fork: alert_budget evaluateForkMemoryRisk acknowledgeForkMemoryFinding fork_acked 21
proof unfold_locales
  show "fork_acked (fst (evaluateForkMemoryRisk s i)) \<le> fork_acked s" for s i
    by (simp add: eval_fork_state)
  show "fork_acked s' < fork_acked (acknowledgeForkMemoryFinding s' f)"
    if "evaluateForkMemoryRisk s i = (s', Some f)" for s i s' f
    using eval_fork_finding [OF that] by simp
qed (simp add: fork_acked_def severityScore_le)

interpretation fork: alert_delivery evaluateForkMemoryRisk acknowledgeForkMemoryFinding fork_acked 21
  fork_steady fork_covered
proof unfold_locales
  show "\<exists>s'' f'. evaluateForkMemoryRisk s' j = (s'', Some f')"
    if "evaluateForkMemoryRisk s i = (s', Some f)" "fork_steady i j" for s i s' f j
    using eval_fork_finding(2) [OF that(1)] that(2) eval_fork_result [of s' j]
    by (metis fork_steady_def not_Some_eq prod.collapse)
  show "fork_covered (acknowledgeForkMemoryFinding s' f) j"
    if "evaluateForkMemoryRisk s i = (s', Some f)" "fork_steady i j" for s i s' f j
    using eval_fork_finding(1) [OF that(1)] that(2) by (simp add: fork_covered_def fork_steady_def)
  show "snd (evaluateForkMemoryRisk s i) = None" if "fork_covered s i" for s i
    using that eval_fork_result [of s i] by (auto simp: fork_covered_def)
  show "fork_covered (fst (evaluateForkMemoryRisk s i)) j" if "fork_covered s i" "fork_steady i j" for s i j
    using that by (simp add: fork_covered_def fork_steady_def eval_fork_state)
qed

section \<open>What the assessment promises\<close>

lemma fork_assess_live:
  assumes "fi_bgsaveInProgress i \<or> fi_aofRewriteInProgress i" and "fa_level (fork_assess i) \<noteq> LNone"
  shows "fa_kind (fork_assess i) = LiveCowOom"
  using assms by (auto simp: fork_assess_def NONE_LIVE_def Let_def split: option.splits if_splits)

lemma fork_assess_projected:
  assumes "\<not> fi_bgsaveInProgress i" and "\<not> fi_aofRewriteInProgress i"
  shows "fa_kind (fork_assess i) = ProjectedForkOom" and "fa_level (fork_assess i) \<noteq> LCritical"
  using assms by (auto simp: fork_assess_def NONE_PROJECTED_def Let_def split: option.splits)

lemma fork_fractions_ordered: "FORK_OOM_CRIT_FRACTION \<le> x \<Longrightarrow> FORK_OOM_WARN_FRACTION \<le> x"
  by (simp add: fork_consts)

lemma fork_assess_none [simp]:
  "fa_level NONE_LIVE = LNone" "fa_level NONE_PROJECTED = LNone"
  by (simp_all add: NONE_LIVE_def NONE_PROJECTED_def)

lemma fork_assess_fraction_live:
  assumes "fi_bgsaveInProgress i \<or> fi_aofRewriteInProgress i"
  shows "(fa_level (fork_assess i) \<noteq> LNone \<longrightarrow> FORK_OOM_WARN_FRACTION \<le> fa_projectedFraction (fork_assess i)) \<and>
    (fa_level (fork_assess i) = LCritical \<longrightarrow> FORK_OOM_CRIT_FRACTION \<le> fa_projectedFraction (fork_assess i))"
  using assms by (simp add: fork_assess_def Let_def fork_fractions_ordered split: option.split)

lemma fork_assess_fraction_projected:
  assumes "\<not> (fi_bgsaveInProgress i \<or> fi_aofRewriteInProgress i)"
  shows "fa_level (fork_assess i) \<noteq> LNone \<longrightarrow> FORK_OOM_WARN_FRACTION \<le> fa_projectedFraction (fork_assess i)"
  using assms by (simp add: fork_assess_def Let_def split: option.split)

section \<open>Properties\<close>

definition fork_at :: "bool \<Rightarrow> real \<Rightarrow> real \<Rightarrow> fork_input" where
  "fork_at saving rss rate = \<lparr>fi_bgsaveInProgress = saving, fi_aofRewriteInProgress = False, fi_currentCowSize = Some 5,
     fi_rdbLastCowSize = Some 5, fi_aofLastCowSize = None, fi_latestForkUsec = None, fi_usedMemory = rss,
     fi_usedMemoryRss = Some rss, fi_totalSystemMemory = Some 100, fi_writeRatePerSec = Some rate, fi_timestamp = 1\<rparr>"

lemmas fork_exec = fork_at_def evaluateForkMemoryRisk_def fork_assess_def createForkMemoryState_def severityScore_def
  saveLabel_def slowForkNote_def NONE_LIVE_def NONE_PROJECTED_def acknowledgeForkMemoryFinding_def poll_step_def
  fork_consts Let_def

text \<open>
  A live fork risk is never masked: while a save runs, an assessment at warning or above produces
  a finding even when the projected risk was already acknowledged at the same level, and every
  alert states a projected peak at or above the fraction of its level.
\<close>

theorem fork_live_not_masked:
  assumes "fi_bgsaveInProgress i \<or> fi_aofRewriteInProgress i" and "fa_level (fork_assess i) \<noteq> LNone"
    and "fs_ackedKind s = ProjectedForkOom" and "fs_ackedLevel s = fa_level (fork_assess i)"
  shows "\<exists>s' f. evaluateForkMemoryRisk s i = (s', Some f) \<and> ff_kind f = LiveCowOom \<and>
     (if ff_level f = LCritical then 9 / 10 else 8 / 10) \<le> ff_projectedFraction f"
proof -
  have kind: "fa_kind (fork_assess i) = LiveCowOom" by (rule fork_assess_live [OF assms(1,2)])
  have "fork_acked s < fork_score i"
    using severityScore_order(2) [OF assms(2)] assms(3,4) kind by (simp add: fork_acked_def fork_score_def)
  then obtain s' f where f: "evaluateForkMemoryRisk s i = (s', Some f)"
    using eval_fork_result [of s i] by (metis not_Some_eq prod.collapse)
  then have "ff_kind f = fa_kind (fork_assess i)" "ff_projectedFraction f = fa_projectedFraction (fork_assess i)"
    "ff_level f = (if fa_level (fork_assess i) = LCritical then LCritical else LWarning)"
    by (auto simp: evaluateForkMemoryRisk_def Let_def split: if_splits)
  with f kind assms(2) fork_assess_fraction_live [OF assms(1)] show ?thesis
    by (auto simp: fork_consts)
qed

theorem fork_live_not_masked_witness:
  "\<exists>s' f. evaluateForkMemoryRisk \<lparr>fs_ackedLevel = LWarning, fs_ackedKind = ProjectedForkOom\<rparr> (fork_at True 80 0) = (s', Some f)
     \<and> ff_kind f = LiveCowOom"
proof -
  have "fa_level (fork_assess (fork_at True 80 0)) = LWarning" by (simp add: fork_exec)
  then have h: "fi_bgsaveInProgress (fork_at True 80 0) \<or> fi_aofRewriteInProgress (fork_at True 80 0)"
    "fa_level (fork_assess (fork_at True 80 0)) \<noteq> LNone"
    "fs_ackedKind \<lparr>fs_ackedLevel = LWarning, fs_ackedKind = ProjectedForkOom\<rparr> = ProjectedForkOom"
    "fs_ackedLevel \<lparr>fs_ackedLevel = LWarning, fs_ackedKind = ProjectedForkOom\<rparr> = fa_level (fork_assess (fork_at True 80 0))"
    by (simp_all add: fork_at_def)
  from fork_live_not_masked [OF h] show ?thesis by blast
qed

text \<open>
  A fork-memory risk is delivered exactly once: while the combined severity stays the same, the
  first successful emit after any number of failed ones delivers one alert and later polls none.
\<close>

theorem fork_delivered_once:
  assumes "evaluateForkMemoryRisk s i = (s1, Some f)" and "steady_run fork_steady i (js @ j # ks)"
  shows "length (snd (run_polls evaluateForkMemoryRisk acknowledgeForkMemoryFinding s
           (zip (i # js) (replicate (Suc (length js)) False) @ (j, True) # zip ks oks))) = 1"
  by (rule fork.delivered_once [OF assms])

theorem fork_delivered_once_witness:
  "length (snd (run_polls evaluateForkMemoryRisk acknowledgeForkMemoryFinding createForkMemoryState
     [(fork_at True 80 0, False), (fork_at True 82 0, True), (fork_at True 81 0, True)])) = 1"
proof -
  have "snd (evaluateForkMemoryRisk createForkMemoryState (fork_at True 80 0)) \<noteq> None" by (simp add: fork_exec)
  then obtain s1 f where "evaluateForkMemoryRisk createForkMemoryState (fork_at True 80 0) = (s1, Some f)"
    by (metis not_Some_eq prod.collapse)
  from fork_delivered_once [OF this, of "[]" "fork_at True 82 0" "[fork_at True 81 0]" "[True]"]
  show ?thesis by (simp add: fork_steady_def fork_score_def fork_exec)
qed

end
