(* ===== verification/Metric_Buffer.thy ===== *)
theory Metric_Buffer
  imports Anomaly_Types
begin

text \<open>
  The sliding window of samples behind every statistical detector, metric-buffer.ts: the
  samples kept, the readiness test and the statistics read from it. The arithmetic is over
  the reals.
\<close>

record MetricBuffer =
  mb_metricType :: MetricType
  mb_maxSamples :: nat
  mb_minSamples :: nat
  mb_samples :: "MetricSample list"

record BufferStats =
  bs_metricType :: MetricType
  bs_sampleCount :: nat
  bs_mean :: real
  bs_stdDev :: real
  bs_min :: real
  bs_max :: real
  bs_latest :: real
  bs_isReady :: bool

definition new_buffer :: "MetricType \<Rightarrow> nat \<Rightarrow> nat \<Rightarrow> MetricBuffer" where
  "new_buffer metricType maxSamples minSamples =
     \<lparr>mb_metricType = metricType, mb_maxSamples = maxSamples, mb_minSamples = minSamples, mb_samples = []\<rparr>"

definition addSample :: "MetricBuffer \<Rightarrow> real \<Rightarrow> int \<Rightarrow> MetricBuffer" where
  "addSample b value timestamp =
     b\<lparr>mb_samples := push_capped (mb_maxSamples b) \<lparr>ms_timestamp = timestamp, ms_value = value\<rparr> (mb_samples b)\<rparr>"

definition isReady :: "MetricBuffer \<Rightarrow> bool" where
  "isReady b \<longleftrightarrow> mb_minSamples b \<le> length (mb_samples b)"

definition getMean :: "MetricBuffer \<Rightarrow> real" where
  "getMean b = (if length (mb_samples b) = 0 then 0
     else foldl (\<lambda>acc sample. acc + ms_value sample) 0 (mb_samples b) / real (length (mb_samples b)))"

definition getStdDev :: "MetricBuffer \<Rightarrow> real" where
  "getStdDev b =
     (if length (mb_samples b) < 2 then 0
      else let mean = getMean b;
               squaredDiffs = map (\<lambda>sample. (ms_value sample - mean) ^ 2) (mb_samples b);
               variance = foldl (+) 0 squaredDiffs / real (length (mb_samples b))
           in sqrt variance)"

definition getZScore :: "MetricBuffer \<Rightarrow> real \<Rightarrow> real" where
  "getZScore b value =
     (let mean = getMean b; stdDev = getStdDev b in
      if stdDev = 0 then 0 else (value - mean) / stdDev)"

definition getLatest :: "MetricBuffer \<Rightarrow> real option" where
  "getLatest b = (if length (mb_samples b) = 0 then None
     else Some (ms_value (mb_samples b ! (length (mb_samples b) - 1))))"

definition getMin :: "MetricBuffer \<Rightarrow> real" where
  "getMin b = (if length (mb_samples b) = 0 then 0 else Min (set (map ms_value (mb_samples b))))"

definition getMax :: "MetricBuffer \<Rightarrow> real" where
  "getMax b = (if length (mb_samples b) = 0 then 0 else Max (set (map ms_value (mb_samples b))))"

definition getStats :: "MetricBuffer \<Rightarrow> BufferStats" where
  "getStats b =
     \<lparr>bs_metricType = mb_metricType b, bs_sampleCount = length (mb_samples b), bs_mean = getMean b,
      bs_stdDev = getStdDev b, bs_min = getMin b, bs_max = getMax b,
      bs_latest = (case getLatest b of Some latest \<Rightarrow> latest | None \<Rightarrow> 0), bs_isReady = isReady b\<rparr>"

definition getSampleCount :: "MetricBuffer \<Rightarrow> nat" where
  "getSampleCount b = length (mb_samples b)"

definition clear_buffer :: "MetricBuffer \<Rightarrow> MetricBuffer" where
  "clear_buffer b = b\<lparr>mb_samples := []\<rparr>"

text \<open>A whole feed of \<open>(value, timestamp)\<close> pairs.\<close>

definition addSamples :: "MetricBuffer \<Rightarrow> (real \<times> int) list \<Rightarrow> MetricBuffer" where
  "addSamples b xs = foldl (\<lambda>b (v, t). addSample b v t) b xs"

definition buffer_inv :: "MetricBuffer \<Rightarrow> bool" where
  "buffer_inv b \<longleftrightarrow> length (mb_samples b) \<le> mb_maxSamples b"

section \<open>The window\<close>

lemma addSample_inv [simp, intro]: "buffer_inv b \<Longrightarrow> buffer_inv (addSample b v t)"
  by (simp add: buffer_inv_def addSample_def length_push_capped)

lemma addSamples_window:
  "mb_samples (addSamples (new_buffer m n k) xs) =
     take_last n (map (\<lambda>(v, t). \<lparr>ms_timestamp = t, ms_value = v\<rparr>) xs)
   \<and> mb_maxSamples (addSamples (new_buffer m n k) xs) = n
   \<and> mb_minSamples (addSamples (new_buffer m n k) xs) = k"
proof (induction xs rule: rev_induct)
  case (snoc x xs)
  then show ?case
    by (cases x) (simp add: addSamples_def addSample_def push_capped_take_last)
qed (simp add: addSamples_def new_buffer_def take_last_def)

section \<open>The statistics\<close>

lemma foldl_sum: "foldl (\<lambda>acc x. acc + f x) (a::real) xs = a + sum_list (map f xs)"
  by (induction xs arbitrary: a) auto

lemma getMean_sum: "getMean b = sum_list (map ms_value (mb_samples b)) / real (length (mb_samples b))"
  by (simp add: getMean_def foldl_sum)

lemma getStdDev_nonneg [simp]: "0 \<le> getStdDev b"
proof -
  have "0 \<le> sum_list (map (\<lambda>s. (ms_value s - getMean b) ^ 2) (mb_samples b))"
    by (rule sum_list_nonneg) auto
  then show ?thesis
    by (simp add: getStdDev_def Let_def foldl_sum [where f = "\<lambda>x. x", simplified])
qed

lemma sum_list_between:
  fixes xs :: "real list"
  assumes "\<And>x. x \<in> set xs \<Longrightarrow> l \<le> x \<and> x \<le> u"
  shows "l * real (length xs) \<le> sum_list xs \<and> sum_list xs \<le> u * real (length xs)"
  using assms by (induction xs) (force simp: algebra_simps)+

lemma mean_between:
  assumes "mb_samples b \<noteq> []"
  shows "getMin b \<le> getMean b \<and> getMean b \<le> getMax b"
  using assms sum_list_between [of "map ms_value (mb_samples b)" "getMin b" "getMax b"]
  by (simp add: getMean_sum getMin_def getMax_def field_simps)

text \<open>A constant window has deviation 0 and scores every value 0.\<close>

lemma stdDev_constant:
  assumes "\<And>s. s \<in> set (mb_samples b) \<Longrightarrow> ms_value s = c"
  shows "getStdDev b = 0"
proof (cases "mb_samples b = []")
  case False
  have "map ms_value (mb_samples b) = replicate (length (mb_samples b)) c"
    using assms by (simp add: map_replicate_const [symmetric])
  then have "getMean b = c" using False by (simp add: getMean_sum sum_list_replicate)
  then have "map (\<lambda>s. (ms_value s - getMean b) ^ 2) (mb_samples b) = replicate (length (mb_samples b)) 0"
    using assms by (simp add: map_replicate_const [symmetric])
  then show ?thesis
    by (simp add: getStdDev_def Let_def foldl_sum [where f = "\<lambda>x. x", simplified] sum_list_replicate)
qed (simp add: getStdDev_def)

text \<open>
  After any feed of samples the buffer holds exactly the last \<open>maxSamples\<close> of them in
  order, its minimum, mean and maximum are ordered and its deviation is not negative (the
  feed is not empty and the limit is positive).
\<close>

theorem buffer_is_window:
  assumes "xs \<noteq> []" and "0 < n"
    and b: "b = addSamples (new_buffer m n k) xs"
  shows "mb_samples b = take_last n (map (\<lambda>(v, t). \<lparr>ms_timestamp = t, ms_value = v\<rparr>) xs)
       \<and> getMin b \<le> getMean b \<and> getMean b \<le> getMax b \<and> 0 \<le> getStdDev b"
proof -
  have w: "mb_samples b = take_last n (map (\<lambda>(v, t). \<lparr>ms_timestamp = t, ms_value = v\<rparr>) xs)"
    using addSamples_window unfolding b by blast
  then have "length (mb_samples b) = min n (length xs)" by simp
  with assms(1,2) have "mb_samples b \<noteq> []" by (auto simp: min_def split: if_splits)
  from w mean_between [OF this] show ?thesis by simp
qed

theorem buffer_is_window_witness:
  "getMean (addSamples (new_buffer CONNECTIONS 2 1) [(9, 1), (2, 2), (4, 3)]) \<le> 4"
proof -
  have "getMax (addSamples (new_buffer CONNECTIONS 2 1) [(9, 1), (2, 2), (4, 3)]) = 4"
    by (simp add: addSamples_def addSample_def new_buffer_def push_capped_def getMax_def)
  with buffer_is_window [OF _ _ refl, of "[(9, 1), (2, 2), (4, 3)]" 2 CONNECTIONS 1] show ?thesis by simp
qed

end
