(* ===== verification/Spike_Detector.thy ===== *)
theory Spike_Detector
  imports Metric_Buffer
begin

text \<open>
  The statistical detector, spike-detector.ts: z-score and absolute thresholds, a
  consecutive-sample requirement and a cooldown. The per-metric maps of the class are kept,
  keyed by metric type. An absolute threshold of \<open>None\<close> is the default
  \<open>Number.POSITIVE_INFINITY\<close>, which no measurement reaches. The test \<open>if (lastAlert && ...)\<close>
  is written out: a recorded time of 0 counts as no alert.
\<close>

record SpikeDetectorConfig =
  sc_warningZScore :: "real option"
  sc_criticalZScore :: "real option"
  sc_warningThreshold :: "real option"
  sc_criticalThreshold :: "real option"
  sc_consecutiveRequired :: "int option"
  sc_cooldownMs :: "int option"
  sc_detectDrops :: "bool option"

record RequiredConfig =
  rc_warningZScore :: real
  rc_criticalZScore :: real
  rc_warningThreshold :: "real option"
  rc_criticalThreshold :: "real option"
  rc_consecutiveRequired :: int
  rc_cooldownMs :: int
  rc_detectDrops :: bool

record ConsecutiveCounter =
  cc_count :: int
  cc_lastValue :: real
  cc_lastTimestamp :: int

record SpikeDetector =
  sd_metricType :: MetricType
  sd_config :: RequiredConfig
  sd_consecutiveCounts :: "(MetricType, ConsecutiveCounter) jsmap"
  sd_lastAlertTime :: "(MetricType, int) jsmap"

definition default_to :: "'a \<Rightarrow> 'a option \<Rightarrow> 'a" where
  "default_to d x = (case x of None \<Rightarrow> d | Some v \<Rightarrow> v)"

definition new_detector :: "MetricType \<Rightarrow> SpikeDetectorConfig \<Rightarrow> SpikeDetector" where
  "new_detector metricType config =
     \<lparr>sd_metricType = metricType,
      sd_config =
        \<lparr>rc_warningZScore = default_to 2 (sc_warningZScore config),
         rc_criticalZScore = default_to 3 (sc_criticalZScore config),
         rc_warningThreshold = sc_warningThreshold config,
         rc_criticalThreshold = sc_criticalThreshold config,
         rc_consecutiveRequired = default_to 3 (sc_consecutiveRequired config),
         rc_cooldownMs = default_to 60000 (sc_cooldownMs config),
         rc_detectDrops = default_to False (sc_detectDrops config)\<rparr>,
      sd_consecutiveCounts = [], sd_lastAlertTime = []\<rparr>"

definition reaches :: "real \<Rightarrow> real option \<Rightarrow> bool" where
  "reaches value threshold = (case threshold of None \<Rightarrow> False | Some t \<Rightarrow> t \<le> value)"

text \<open>The severity and threshold selected from the z-score, then from the absolute thresholds.\<close>

definition spike_severity :: "RequiredConfig \<Rightarrow> real \<Rightarrow> real \<Rightarrow> (AnomalySeverity \<times> real) option" where
  "spike_severity config absZScore currentValue =
     (let byZ = (if absZScore \<ge> rc_criticalZScore config then Some (CRITICAL, rc_criticalZScore config)
                 else if absZScore \<ge> rc_warningZScore config then Some (WARNING, rc_warningZScore config)
                 else None)
      in if reaches currentValue (rc_criticalThreshold config)
         then Some (CRITICAL, default_to 0 (rc_criticalThreshold config))
         else if reaches currentValue (rc_warningThreshold config) \<and> byZ = None
         then Some (WARNING, default_to 0 (rc_warningThreshold config))
         else byZ)"

definition spike_verdict :: "SpikeDetector \<Rightarrow> MetricBuffer \<Rightarrow> real \<Rightarrow> (AnomalySeverity \<times> real) option" where
  "spike_verdict d buffer currentValue =
     (let absZScore = \<bar>getZScore buffer currentValue\<bar>
      in spike_severity (sd_config d) absZScore currentValue)"

definition spike_count :: "SpikeDetector \<Rightarrow> real \<Rightarrow> int \<Rightarrow> SpikeDetector" where
  "spike_count d currentValue timestamp =
     d\<lparr>sd_consecutiveCounts := js_set (sd_metricType d)
        \<lparr>cc_count = (case js_get (sd_consecutiveCounts d) (sd_metricType d) of
                       Some counter \<Rightarrow> cc_count counter + 1 | None \<Rightarrow> 1),
         cc_lastValue = currentValue, cc_lastTimestamp = timestamp\<rparr> (sd_consecutiveCounts d)\<rparr>"

definition in_cooldown :: "SpikeDetector \<Rightarrow> int \<Rightarrow> bool" where
  "in_cooldown d timestamp =
     (case js_get (sd_lastAlertTime d) (sd_metricType d) of
        None \<Rightarrow> False
      | Some lastAlert \<Rightarrow> lastAlert \<noteq> 0 \<and> timestamp - lastAlert < rc_cooldownMs (sd_config d))"

definition detect ::
  "SpikeDetector \<Rightarrow> MetricBuffer \<Rightarrow> real \<Rightarrow> int \<Rightarrow> string \<Rightarrow> SpikeDetector \<times> AnomalyEvent option" where
  "detect d buffer currentValue timestamp uuid =
     (if \<not> isReady buffer then (d, None)
      else if in_cooldown d timestamp then (d, None)
      else
        let mean = getMean buffer; stdDev = getStdDev buffer; zScore = getZScore buffer currentValue;
            isSpike = (zScore > 0); isDrop = (zScore < 0)
        in if isDrop \<and> \<not> rc_detectDrops (sd_config d) then (d, None)
           else case spike_verdict d buffer currentValue of
             None \<Rightarrow> (d\<lparr>sd_consecutiveCounts := js_delete (sd_metricType d) (sd_consecutiveCounts d)\<rparr>, None)
           | Some (severity, threshold) \<Rightarrow>
               let d1 = spike_count d currentValue timestamp;
                   currentCounter = the (js_get (sd_consecutiveCounts d1) (sd_metricType d))
               in if cc_count currentCounter < rc_consecutiveRequired (sd_config d) then (d1, None)
                  else (d1\<lparr>sd_lastAlertTime := js_set (sd_metricType d) timestamp (sd_lastAlertTime d1),
                           sd_consecutiveCounts := js_delete (sd_metricType d) (sd_consecutiveCounts d1)\<rparr>,
                        Some \<lparr>ev_id = uuid, ev_timestamp = timestamp, ev_metricType = sd_metricType d,
                              ev_anomalyType = (if isSpike then SPIKE else DROP),
                              ev_severity = severity, ev_value = currentValue, ev_baseline = mean,
                              ev_stdDev = stdDev, ev_zScore = zScore, ev_threshold = threshold,
                              ev_correlationId = None, ev_relatedMetrics = None, ev_resolved = False,
                              ev_connectionId = None, ev_syntheticPattern = None, ev_persisted = False\<rparr>))"

definition getConfig :: "SpikeDetector \<Rightarrow> RequiredConfig" where
  "getConfig d = sd_config d"

text \<open>A sequence of calls, each with its buffer, value, timestamp and id.\<close>

fun run_detect ::
  "SpikeDetector \<Rightarrow> (MetricBuffer \<times> real \<times> int \<times> string) list \<Rightarrow> SpikeDetector \<times> AnomalyEvent list" where
  "run_detect d [] = (d, [])"
| "run_detect d ((b, v, t, u) # calls) =
     (let (d', r) = detect d b v t u; (d'', es) = run_detect d' calls
      in (d'', (case r of None \<Rightarrow> es | Some e \<Rightarrow> e # es)))"

section \<open>Cooldown\<close>

lemma detect_keeps [simp]:
  "sd_metricType (fst (detect d b v t u)) = sd_metricType d"
  "sd_config (fst (detect d b v t u)) = sd_config d"
  by (simp_all add: detect_def spike_count_def Let_def split: option.split)

lemma detect_quiet:
  "snd (detect d b v t u) = None \<Longrightarrow> sd_lastAlertTime (fst (detect d b v t u)) = sd_lastAlertTime d"
  by (auto simp: detect_def spike_count_def Let_def split: option.splits if_splits)

lemma detect_fires:
  assumes "detect d b v t u = (d', Some e)"
  shows "isReady b" and "\<not> in_cooldown d t" and "ev_timestamp e = t" and "ev_value e = v"
    and "js_get (sd_lastAlertTime d') (sd_metricType d) = Some t"
    and "js_get (sd_consecutiveCounts d') (sd_metricType d) = None"
    and "spike_verdict d b v = Some (ev_severity e, ev_threshold e)" and "ev_zScore e = getZScore b v"
    and "ev_anomalyType e = (if 0 < getZScore b v then SPIKE else DROP)"
    and "getZScore b v < 0 \<longrightarrow> rc_detectDrops (sd_config d)"
  using assms
  by (auto simp: detect_def spike_count_def Let_def js_simps split: option.splits if_splits)

text \<open>Adjacent alerts: consecutive elements of the emitted list, with the last alert before it.\<close>

fun spaced :: "int \<Rightarrow> int option \<Rightarrow> int list \<Rightarrow> bool" where
  "spaced gap prev [] = True"
| "spaced gap prev (t # ts) = ((case prev of None \<Rightarrow> True | Some p \<Rightarrow> p = 0 \<or> gap \<le> t - p) \<and> spaced gap (Some t) ts)"

lemma run_detect_spaced:
  "spaced (rc_cooldownMs (sd_config d)) (js_get (sd_lastAlertTime d) (sd_metricType d))
     (map ev_timestamp (snd (run_detect d calls)))"
proof (induction calls arbitrary: d)
  case (Cons c calls)
  obtain b v t u where c: "c = (b, v, t, u)" by (cases c)
  obtain d' r where det: "detect d b v t u = (d', r)" by (cases "detect d b v t u")
  have keeps: "sd_metricType d' = sd_metricType d" "sd_config d' = sd_config d"
    using detect_keeps [of d b v t u] det by simp_all
  show ?case
  proof (cases r)
    case None
    with detect_quiet [of d b v t u] det keeps Cons.IH [of d'] show ?thesis
      by (cases "run_detect d' calls") (simp add: c)
  next
    case (Some e)
    note fired = detect_fires [OF det [unfolded Some]]
    have "spaced (rc_cooldownMs (sd_config d)) (Some t) (map ev_timestamp (snd (run_detect d' calls)))"
      using Cons.IH [of d'] fired(5) keeps by simp
    moreover have "case js_get (sd_lastAlertTime d) (sd_metricType d) of None \<Rightarrow> True
                   | Some p \<Rightarrow> p = 0 \<or> rc_cooldownMs (sd_config d) \<le> t - p"
      using fired(2) by (auto simp: in_cooldown_def split: option.splits)
    ultimately show ?thesis using fired(3) det Some by (cases "run_detect d' calls") (simp add: c)
  qed
qed simp

lemma run_detect_times:
  assumes "\<forall>c \<in> set cs. fst (snd (snd c)) \<noteq> 0"
  shows "\<forall>e \<in> set (snd (run_detect d cs)). ev_timestamp e \<noteq> 0"
  using assms
proof (induction cs arbitrary: d)
  case (Cons c cs)
  obtain b v t u where c: "c = (b, v, t, u)" by (cases c)
  obtain d' r where det: "detect d b v t u = (d', r)" by (cases "detect d b v t u")
  from Cons.prems c have t: "t \<noteq> 0" and cs: "\<forall>c \<in> set cs. fst (snd (snd c)) \<noteq> 0" by auto
  show ?case
    using Cons.IH [OF cs, of d'] t det detect_fires(3) [of d b v t u d']
    by (cases "run_detect d' cs"; cases r) (auto simp: c)
qed simp

lemma spaced_nth:
  assumes "spaced g p ts" and "Suc j < length ts" and "\<forall>t \<in> set ts. t \<noteq> 0"
  shows "g \<le> ts ! Suc j - ts ! j"
  using assms
proof (induction ts arbitrary: p j)
  case (Cons a ts)
  show ?case
  proof (cases j)
    case 0
    with Cons.prems show ?thesis by (cases ts) auto
  next
    case (Suc k)
    with Cons.IH [of "Some a" k] Cons.prems show ?thesis by simp
  qed
qed simp

section \<open>The consecutive requirement\<close>

definition spike_streak :: "SpikeDetector \<Rightarrow> int" where
  "spike_streak d = (case js_get (sd_consecutiveCounts d) (sd_metricType d) of None \<Rightarrow> 0 | Some c \<Rightarrow> cc_count c)"

text \<open>A call that gets past the early returns; the early returns leave the detector unchanged.\<close>

definition spike_considered :: "SpikeDetector \<Rightarrow> MetricBuffer \<Rightarrow> real \<Rightarrow> int \<Rightarrow> bool" where
  "spike_considered d b v t \<longleftrightarrow> isReady b \<and> \<not> in_cooldown d t \<and> (getZScore b v < 0 \<longrightarrow> rc_detectDrops (sd_config d))"

lemma detect_skipped: "\<not> spike_considered d b v t \<Longrightarrow> detect d b v t u = (d, None)"
  by (auto simp: detect_def spike_considered_def Let_def)

lemma detect_streak:
  assumes "spike_considered d b v t"
  shows "spike_streak (fst (detect d b v t u)) =
           (if spike_verdict d b v = None \<or> rc_consecutiveRequired (sd_config d) \<le> spike_streak d + 1 then 0
            else spike_streak d + 1)"
    and "(snd (detect d b v t u) \<noteq> None) \<longleftrightarrow>
           spike_verdict d b v \<noteq> None \<and> rc_consecutiveRequired (sd_config d) \<le> spike_streak d + 1"
  using assms
  by (auto simp: detect_def spike_considered_def Let_def spike_count_def spike_streak_def js_simps
      split: option.splits)

section \<open>Properties\<close>

text \<open>
  Over any sequence of calls to a fresh detector, with non-zero timestamps, any two
  successive alerts are at least \<open>cooldownMs\<close> apart.
\<close>

theorem spike_alerts_spaced:
  assumes "\<forall>c \<in> set calls. fst (snd (snd c)) \<noteq> 0"
    and es: "snd (run_detect (new_detector m config) calls) = es" and "Suc i < length es"
  shows "rc_cooldownMs (sd_config (new_detector m config)) \<le> ev_timestamp (es ! Suc i) - ev_timestamp (es ! i)"
proof -
  have "spaced (rc_cooldownMs (sd_config (new_detector m config))) None (map ev_timestamp es)"
    using run_detect_spaced [of "new_detector m config" calls] es by (simp add: new_detector_def)
  from spaced_nth [OF this, of i] run_detect_times [OF assms(1)] es assms(3) show ?thesis by auto
qed

text \<open>
  An alert that names a threshold really crossed it: the value is at or above the named
  absolute threshold, or the absolute z-score is at or above the named z-score threshold, and
  a CRITICAL alert crossed a critical one.
\<close>

theorem spike_threshold_crossed:
  assumes "detect d b v t u = (d', Some e)"
  shows "(rc_criticalThreshold (sd_config d) = Some (ev_threshold e) \<and> ev_severity e = CRITICAL \<and> ev_threshold e \<le> v) \<or>
         (rc_warningThreshold (sd_config d) = Some (ev_threshold e) \<and> ev_severity e = WARNING \<and> ev_threshold e \<le> v) \<or>
         (rc_criticalZScore (sd_config d) = ev_threshold e \<and> ev_severity e = CRITICAL \<and> ev_threshold e \<le> \<bar>ev_zScore e\<bar>) \<or>
         (rc_warningZScore (sd_config d) = ev_threshold e \<and> ev_severity e = WARNING \<and> ev_threshold e \<le> \<bar>ev_zScore e\<bar>)"
  using detect_fires(7,8) [OF assms]
  by (auto simp: spike_verdict_def spike_severity_def reaches_def default_to_def Let_def
      split: if_splits option.splits)


text \<open>A one-sample buffer is enough to evaluate a detector with an absolute threshold.\<close>

definition sample_buffer :: "real \<Rightarrow> MetricBuffer" where
  "sample_buffer v = addSample (new_buffer CONNECTIONS 3 1) v 1"

definition sample_config :: SpikeDetectorConfig where
  "sample_config = \<lparr>sc_warningZScore = None, sc_criticalZScore = None, sc_warningThreshold = Some 5,
     sc_criticalThreshold = Some 25, sc_consecutiveRequired = Some 1, sc_cooldownMs = Some 30000,
     sc_detectDrops = None\<rparr>"

lemmas spike_eval = detect_def in_cooldown_def isReady_def getZScore_def getStdDev_def getMean_def
  spike_verdict_def spike_severity_def reaches_def default_to_def spike_count_def new_detector_def
  new_buffer_def addSample_def push_capped_def sample_buffer_def sample_config_def

theorem spike_alerts_spaced_witness:
  "30000 \<le> ev_timestamp (snd (run_detect (new_detector CONNECTIONS sample_config)
              [(sample_buffer 9, 9, 1000, ''a''), (sample_buffer 9, 9, 2000, ''b''), (sample_buffer 9, 9, 40000, ''c'')]) ! 1) - 1000"
  using spike_alerts_spaced [OF _ refl, of "[(sample_buffer 9, 9, 1000, ''a''), (sample_buffer 9, 9, 2000, ''b''), (sample_buffer 9, 9, 40000, ''c'')]" 0 CONNECTIONS sample_config]
  by (simp add: spike_eval)

theorem spike_threshold_crossed_witness:
  "\<exists>d' e. detect (new_detector CONNECTIONS sample_config) (sample_buffer 9) 9 1000 ''a'' = (d', Some e)
     \<and> ev_threshold e = 5 \<and> ev_severity e = WARNING \<and> ev_threshold e \<le> 9"
proof -
  obtain d' e where d: "detect (new_detector CONNECTIONS sample_config) (sample_buffer 9) 9 1000 ''a'' = (d', Some e)"
    and e: "ev_threshold e = 5" "ev_severity e = WARNING" "ev_zScore e = 0"
    by (simp add: spike_eval)
  from spike_threshold_crossed [OF d] e have "ev_threshold e \<le> 9"
    by (simp add: new_detector_def sample_config_def default_to_def)
  with d e show ?thesis by blast
qed

text \<open>
  The consecutive requirement, for a call that gets past the readiness, cooldown and
  skipped-drop returns: it alerts exactly when it breaches a threshold and the breaches counted
  since the last reset, this one included, reach \<open>consecutiveRequired\<close>; a call within the limits
  resets the count, an alert resets it too, and a skipped call changes nothing.
\<close>

theorem spike_consecutive:
  "(if \<not> spike_considered d b v t then detect d b v t u = (d, None)
    else (snd (detect d b v t u) \<noteq> None) =
           (spike_verdict d b v \<noteq> None \<and> rc_consecutiveRequired (sd_config d) \<le> spike_streak d + 1) \<and>
         spike_streak (fst (detect d b v t u)) =
           (if spike_verdict d b v = None \<or> rc_consecutiveRequired (sd_config d) \<le> spike_streak d + 1 then 0
            else spike_streak d + 1))"
  using detect_skipped [of d b v t u] detect_streak [of d b v t u] by simp

text \<open>
  A window of constant samples scores every value 0, so an absolute threshold that is
  reached there is reported as a DROP although the value is at or above the threshold, and
  even when the detector is configured not to detect drops.
\<close>

theorem spike_constant_window_reports_drop:
  assumes "\<And>s. s \<in> set (mb_samples b) \<Longrightarrow> ms_value s = c"
    and "detect d b v t u = (d', Some e)"
    and "0 < rc_warningZScore (sd_config d)" and "0 < rc_criticalZScore (sd_config d)"
  shows "ev_anomalyType e = DROP \<and> ev_threshold e \<le> ev_value e"
proof -
  have "getZScore b v = 0" using stdDev_constant [OF assms(1)] by (simp add: getZScore_def)
  with detect_fires [OF assms(2)] assms(3,4) show ?thesis
    by (auto simp: spike_verdict_def spike_severity_def reaches_def default_to_def Let_def
        split: if_splits option.splits)
qed

theorem spike_constant_window_reports_drop_witness:
  "\<exists>d' e. detect (new_detector CONNECTIONS sample_config) (sample_buffer 30) 30 1000 ''a'' = (d', Some e)
     \<and> \<not> rc_detectDrops (sd_config (new_detector CONNECTIONS sample_config))
     \<and> ev_severity e = CRITICAL \<and> ev_anomalyType e = DROP \<and> ev_threshold e \<le> ev_value e"
proof -
  obtain d' e where d: "detect (new_detector CONNECTIONS sample_config) (sample_buffer 30) 30 1000 ''a'' = (d', Some e)"
    and e: "ev_severity e = CRITICAL"
    by (simp add: spike_eval)
  have "ev_anomalyType e = DROP \<and> ev_threshold e \<le> ev_value e"
    by (rule spike_constant_window_reports_drop [OF _ d, of 30])
      (auto simp: new_detector_def sample_config_def default_to_def sample_buffer_def
        addSample_def new_buffer_def push_capped_def)
  with d e show ?thesis by (simp add: new_detector_def sample_config_def default_to_def)
qed

end
