(* ===== verification/Metric_Pipeline.thy ===== *)
theory Metric_Pipeline
  imports Spike_Detector
begin

text \<open>
  The statistical part of one poll of a connection, pollConnection of anomaly.service.ts: the
  INFO extractors and the per-metric detector configuration, then the rate-of-change feeds
  (CPU utilization, slowlog ids, rejected connections, evicted clients), each of which adds a
  sample to its buffer and runs its detector. The record \<open>conn_metrics\<close> is what the service's
  maps hold under one connection id. The events are returned in the order they are added.
\<close>

section \<open>Extractors and configuration\<close>

text \<open>\<open>a || b\<close> on the results of parseNumber: 0 and null fall through to the second.\<close>

definition num_or :: "real option \<Rightarrow> real option \<Rightarrow> real option" where
  "num_or a b = (case a of None \<Rightarrow> b | Some x \<Rightarrow> if x = 0 then b else Some x)"

definition metricExtractors :: "(MetricType \<times> (info_num \<Rightarrow> real option)) list" where
  "metricExtractors =
     [(CONNECTIONS, \<lambda>info. info ''connected_clients''),
      (OPS_PER_SEC, \<lambda>info. info ''instantaneous_ops_per_sec''),
      (MEMORY_USED, \<lambda>info. info ''used_memory''),
      (INPUT_KBPS, \<lambda>info. info ''instantaneous_input_kbps''),
      (OUTPUT_KBPS, \<lambda>info. info ''instantaneous_output_kbps''),
      (ACL_DENIED, \<lambda>info. info ''acl_access_denied_auth''),
      (EVICTED_KEYS, \<lambda>info. info ''evicted_keys''),
      (BLOCKED_CLIENTS, \<lambda>info. info ''blocked_clients''),
      (KEYSPACE_MISSES, \<lambda>info. info ''keyspace_misses''),
      (FRAGMENTATION_RATIO, \<lambda>info. num_or (info ''allocator_frag_ratio'') (info ''mem_fragmentation_ratio''))]"

definition empty_config :: SpikeDetectorConfig where
  "empty_config = \<lparr>sc_warningZScore = None, sc_criticalZScore = None, sc_warningThreshold = None,
     sc_criticalThreshold = None, sc_consecutiveRequired = None, sc_cooldownMs = None, sc_detectDrops = None\<rparr>"

definition z_config :: "real \<Rightarrow> real \<Rightarrow> int \<Rightarrow> int \<Rightarrow> SpikeDetectorConfig" where
  "z_config warningZ criticalZ consecutive cooldown =
     empty_config\<lparr>sc_warningZScore := Some warningZ, sc_criticalZScore := Some criticalZ,
                  sc_consecutiveRequired := Some consecutive, sc_cooldownMs := Some cooldown\<rparr>"

definition with_thresholds :: "real \<Rightarrow> real \<Rightarrow> SpikeDetectorConfig \<Rightarrow> SpikeDetectorConfig" where
  "with_thresholds warning critical c =
     c\<lparr>sc_warningThreshold := Some warning, sc_criticalThreshold := Some critical\<rparr>"

definition detector_config :: "MetricType \<Rightarrow> SpikeDetectorConfig" where
  "detector_config metricType =
     (case metricType of
        ACL_DENIED \<Rightarrow> with_thresholds 10 50 (z_config (3 / 2) (5 / 2) 2 30000)
      | MEMORY_USED \<Rightarrow> z_config (5 / 2) (7 / 2) 3 60000
      | EVICTED_KEYS \<Rightarrow> z_config 2 3 2 30000
      | FRAGMENTATION_RATIO \<Rightarrow> with_thresholds (3 / 2) 2 (z_config 2 3 5 120000)
      | CPU_UTILIZATION \<Rightarrow> (z_config 2 3 3 60000)\<lparr>sc_detectDrops := Some True\<rparr>
      | _ \<Rightarrow> empty_config)"

definition slowlog_config :: SpikeDetectorConfig where
  "slowlog_config = z_config (3 / 2) (5 / 2) 1 30000"

definition rejected_config :: SpikeDetectorConfig where
  "rejected_config = with_thresholds 5 25 (z_config (3 / 2) (5 / 2) 1 30000)"

definition evicted_config :: SpikeDetectorConfig where
  "evicted_config = with_thresholds 1 10 (z_config (3 / 2) (5 / 2) 1 30000)"

definition all_metric_types :: "MetricType list" where
  "all_metric_types =
     [CONNECTIONS, OPS_PER_SEC, MEMORY_USED, INPUT_KBPS, OUTPUT_KBPS, SLOWLOG_LAST_ID, ACL_DENIED,
      AUTH_FAILURE_BURST, REJECTED_CONNECTIONS, CLIENT_SATURATION, CLIENT_LOCKOUT_RISK,
      EVICTED_CLIENTS, RAFT_HEALTH, FAILOVER_CHURN, REPL_BUFFER_PRESSURE, MEMORY_OVERHEAD,
      LOAD_SATURATION, FORK_MEMORY_RISK, EVICTED_KEYS, BLOCKED_CLIENTS, KEYSPACE_MISSES,
      FRAGMENTATION_RATIO, CPU_UTILIZATION, REPLICATION_ROLE, CLUSTER_STATE, RESYNC_LOOP,
      REPLICA_SLOT_STATE, ORPHANED_SLOT_KEYS, GHOST_MEMBERSHIP, LAGGING_PROMOTION, DATASET_KEYS,
      COMMAND_P99, PERSISTENCE_CHILD, CLUSTER_TOPOLOGY, HOSTNAME_STALENESS, LARGE_REPLY_PRESSURE,
      SLOWLOG_COUNT, CONFIG_DRIFT, ACL_DRIFT, SENTINEL_ENDPOINT_DRIFT]"

section \<open>State of one connection\<close>

record cpu_sample =
  cs_sys :: real
  cs_user :: real
  cs_ts :: int

record conn_metrics =
  cm_buffers :: "(MetricType, MetricBuffer) jsmap"
  cm_detectors :: "(MetricType, SpikeDetector) jsmap"
  cm_prevCpu :: "cpu_sample option"
  cm_lastSlowlogId :: "real option"
  cm_lastRejected :: "real option"
  cm_lastEvictedClients :: "real option"

definition default_maxSamples :: nat where "default_maxSamples = 300"
definition default_minSamples :: nat where "default_minSamples = 30"

definition initializeBuffersAndDetectors :: conn_metrics where
  "initializeBuffersAndDetectors =
     (let handled = filter (\<lambda>m. m \<notin> set METRICS_HANDLED_OUTSIDE_EXTRACTOR) all_metric_types in
      \<lparr>cm_buffers = map (\<lambda>m. (m, new_buffer m default_maxSamples default_minSamples)) handled,
       cm_detectors = map (\<lambda>m. (m, new_detector m (detector_config m))) handled,
       cm_prevCpu = None, cm_lastSlowlogId = None, cm_lastRejected = None, cm_lastEvictedClients = None\<rparr>)"

text \<open>Add the sample, run the detector, stamp the event with the connection.\<close>

definition feed_metric ::
  "string \<Rightarrow> int \<Rightarrow> (MetricType \<Rightarrow> string) \<Rightarrow> conn_metrics \<Rightarrow> MetricType \<Rightarrow> real
   \<Rightarrow> conn_metrics \<times> AnomalyEvent list" where
  "feed_metric connectionId timestamp uuid cm metricType value =
     (case (js_get (cm_buffers cm) metricType, js_get (cm_detectors cm) metricType) of
        (Some buffer, Some detector) \<Rightarrow>
          let buffer' = addSample buffer value timestamp;
              (detector', anomaly) = detect detector buffer' value timestamp (uuid metricType)
          in (cm\<lparr>cm_buffers := js_set metricType buffer' (cm_buffers cm),
                 cm_detectors := js_set metricType detector' (cm_detectors cm)\<rparr>,
              case anomaly of None \<Rightarrow> [] | Some a \<Rightarrow> [a\<lparr>ev_connectionId := Some connectionId\<rparr>])
      | _ \<Rightarrow> (cm, []))"

fun poll_extractors ::
  "string \<Rightarrow> int \<Rightarrow> (MetricType \<Rightarrow> string) \<Rightarrow> info_num \<Rightarrow> (MetricType \<times> (info_num \<Rightarrow> real option)) list
   \<Rightarrow> conn_metrics \<Rightarrow> conn_metrics \<times> AnomalyEvent list" where
  "poll_extractors connectionId timestamp uuid info [] cm = (cm, [])"
| "poll_extractors connectionId timestamp uuid info ((metricType, extractor) # es) cm =
     (let (cm1, ev1) = (case extractor info of None \<Rightarrow> (cm, [])
                        | Some value \<Rightarrow> feed_metric connectionId timestamp uuid cm metricType value);
          (cm2, ev2) = poll_extractors connectionId timestamp uuid info es cm1
      in (cm2, ev1 @ ev2))"

text \<open>
  The CPU utilization sample: cumulative counters over the elapsed seconds, as a percentage.
  The second component says a counter reset was seen (a negative rate), which yields no sample.
\<close>

definition cpu_utilization :: "cpu_sample option \<Rightarrow> real \<Rightarrow> real \<Rightarrow> int \<Rightarrow> real option \<times> bool" where
  "cpu_utilization prev cpuSys cpuUser timestamp =
     (case prev of
        None \<Rightarrow> (None, False)
      | Some p \<Rightarrow>
          let dtSec = of_int (timestamp - cs_ts p) / 1000 in
          if dtSec > 0 then
            let prevTotal = cs_sys p + cs_user p;
                utilization = ((cpuSys + cpuUser - prevTotal) / dtSec) * 100
            in if utilization < 0 then (None, True) else (Some utilization, False)
          else (None, False))"

definition poll_cpu ::
  "string \<Rightarrow> int \<Rightarrow> (MetricType \<Rightarrow> string) \<Rightarrow> info_num \<Rightarrow> conn_metrics
   \<Rightarrow> conn_metrics \<times> AnomalyEvent list \<times> real option \<times> bool" where
  "poll_cpu connectionId timestamp uuid info cm =
     (case (info ''used_cpu_sys'', info ''used_cpu_user'') of
        (Some cpuSys, Some cpuUser) \<Rightarrow>
          let (sample, reset) = cpu_utilization (cm_prevCpu cm) cpuSys cpuUser timestamp;
              (cm1, evs) = (case sample of None \<Rightarrow> (cm, [])
                            | Some utilization \<Rightarrow>
                                feed_metric connectionId timestamp uuid cm CPU_UTILIZATION utilization)
          in (cm1\<lparr>cm_prevCpu := Some \<lparr>cs_sys = cpuSys, cs_user = cpuUser, cs_ts = timestamp\<rparr>\<rparr>, evs, sample, reset)
      | _ \<Rightarrow> (cm, [], None, False))"

text \<open>The rate-of-change feeds: a per-poll delta of a lifetime counter, 0 on first sight and on a reset.\<close>

definition counter_delta :: "real option \<Rightarrow> real \<Rightarrow> real" where
  "counter_delta prev current = max 0 (current - default_to current prev)"

definition ensure_metric :: "MetricType \<Rightarrow> SpikeDetectorConfig \<Rightarrow> conn_metrics \<Rightarrow> conn_metrics" where
  "ensure_metric m config cm =
     (if js_has (cm_buffers cm) m then cm
      else cm\<lparr>cm_buffers := js_set m (new_buffer m default_maxSamples default_minSamples) (cm_buffers cm),
              cm_detectors := js_set m (new_detector m config) (cm_detectors cm)\<rparr>)"

definition poll_slowlog ::
  "string \<Rightarrow> int \<Rightarrow> (MetricType \<Rightarrow> string) \<Rightarrow> real option \<Rightarrow> conn_metrics \<Rightarrow> conn_metrics \<times> AnomalyEvent list" where
  "poll_slowlog connectionId timestamp uuid currentSlowlogId cm =
     (case currentSlowlogId of
        None \<Rightarrow> (cm, [])
      | Some current \<Rightarrow>
          let delta = counter_delta (cm_lastSlowlogId cm) current;
              cm1 = ensure_metric SLOWLOG_LAST_ID slowlog_config (cm\<lparr>cm_lastSlowlogId := Some current\<rparr>)
          in feed_metric connectionId timestamp uuid cm1 SLOWLOG_LAST_ID delta)"

definition poll_rejected ::
  "string \<Rightarrow> int \<Rightarrow> (MetricType \<Rightarrow> string) \<Rightarrow> info_num \<Rightarrow> conn_metrics \<Rightarrow> conn_metrics \<times> AnomalyEvent list" where
  "poll_rejected connectionId timestamp uuid info cm =
     (case info ''rejected_connections'' of
        None \<Rightarrow> (cm, [])
      | Some current \<Rightarrow>
          let delta = counter_delta (cm_lastRejected cm) current;
              cm1 = ensure_metric REJECTED_CONNECTIONS rejected_config (cm\<lparr>cm_lastRejected := Some current\<rparr>)
          in feed_metric connectionId timestamp uuid cm1 REJECTED_CONNECTIONS delta)"

text \<open>The result of clientEvictionEnabled (a cached CONFIG GET) is an argument.\<close>

definition poll_evicted ::
  "string \<Rightarrow> int \<Rightarrow> (MetricType \<Rightarrow> string) \<Rightarrow> info_num \<Rightarrow> bool \<Rightarrow> conn_metrics \<Rightarrow> conn_metrics \<times> AnomalyEvent list" where
  "poll_evicted connectionId timestamp uuid info evictionEnabled cm =
     (case info ''evicted_clients'' of
        None \<Rightarrow> (cm, [])
      | Some current \<Rightarrow>
          if \<not> evictionEnabled then (cm, [])
          else
            let delta = counter_delta (cm_lastEvictedClients cm) current;
                cm1 = ensure_metric EVICTED_CLIENTS evicted_config (cm\<lparr>cm_lastEvictedClients := Some current\<rparr>)
            in feed_metric connectionId timestamp uuid cm1 EVICTED_CLIENTS delta)"

definition poll_metrics ::
  "string \<Rightarrow> int \<Rightarrow> (MetricType \<Rightarrow> string) \<Rightarrow> info_num \<Rightarrow> real option \<Rightarrow> bool \<Rightarrow> conn_metrics
   \<Rightarrow> conn_metrics \<times> AnomalyEvent list" where
  "poll_metrics connectionId timestamp uuid info slowlogId evictionEnabled cm =
     (let (cm1, e1) = poll_extractors connectionId timestamp uuid info metricExtractors cm;
          (cm2, e2, _, _) = poll_cpu connectionId timestamp uuid info cm1;
          (cm3, e3) = poll_slowlog connectionId timestamp uuid slowlogId cm2;
          (cm4, e4) = poll_rejected connectionId timestamp uuid info cm3;
          (cm5, e5) = poll_evicted connectionId timestamp uuid info evictionEnabled cm4
      in (cm5, e1 @ e2 @ e3 @ e4 @ e5))"

section \<open>The invariant of a connection's metrics\<close>

text \<open>
  Buffers and detectors are held for the same metrics, each detector is the one of its metric,
  and no buffer exceeds its window.
\<close>

definition pipeline_inv :: "conn_metrics \<Rightarrow> bool" where
  "pipeline_inv cm \<longleftrightarrow>
     wf_map (cm_buffers cm) \<and> wf_map (cm_detectors cm) \<and>
     fst ` set (cm_buffers cm) = fst ` set (cm_detectors cm) \<and>
     (\<forall>m b. js_get (cm_buffers cm) m = Some b \<longrightarrow> buffer_inv b \<and> mb_maxSamples b = default_maxSamples) \<and>
     (\<forall>m d. js_get (cm_detectors cm) m = Some d \<longrightarrow> sd_metricType d = m)"

lemma pipeline_inv_frame [simp]:
  "pipeline_inv (cm\<lparr>cm_prevCpu := a\<rparr>) = pipeline_inv cm"
  "pipeline_inv (cm\<lparr>cm_lastSlowlogId := b\<rparr>) = pipeline_inv cm"
  "pipeline_inv (cm\<lparr>cm_lastRejected := b\<rparr>) = pipeline_inv cm"
  "pipeline_inv (cm\<lparr>cm_lastEvictedClients := b\<rparr>) = pipeline_inv cm"
  by (simp_all add: pipeline_inv_def)

lemma pipeline_inv_set:
  assumes "pipeline_inv cm" and "buffer_inv b" and "mb_maxSamples b = default_maxSamples" and "sd_metricType d = m"
  shows "pipeline_inv (cm\<lparr>cm_buffers := js_set m b (cm_buffers cm), cm_detectors := js_set m d (cm_detectors cm)\<rparr>)"
  using assms by (auto simp: pipeline_inv_def js_simps split: if_splits)

lemma addSample_maxSamples [simp]: "mb_maxSamples (addSample b v t) = mb_maxSamples b"
  by (simp add: addSample_def)

lemma feed_metric_inv:
  assumes "pipeline_inv cm"
  shows "pipeline_inv (fst (feed_metric c t uuid cm m v))"
proof (cases "\<exists>b d. js_get (cm_buffers cm) m = Some b \<and> js_get (cm_detectors cm) m = Some d")
  case True
  then obtain b d where bd: "js_get (cm_buffers cm) m = Some b" "js_get (cm_detectors cm) m = Some d" by blast
  with assms have "buffer_inv b" "mb_maxSamples b = default_maxSamples" "sd_metricType d = m"
    by (auto simp: pipeline_inv_def)
  with detect_keeps(1) [of d "addSample b v t" v t "uuid m"] bd
  show ?thesis
    by (cases "detect d (addSample b v t) v t (uuid m)")
      (auto simp: feed_metric_def intro!: pipeline_inv_set [OF assms])
next
  case False
  with assms show ?thesis by (auto simp: feed_metric_def split: option.splits)
qed

lemma ensure_metric_inv: "pipeline_inv cm \<Longrightarrow> pipeline_inv (ensure_metric m config cm)"
  by (auto simp: ensure_metric_def new_buffer_def new_detector_def buffer_inv_def intro!: pipeline_inv_set)

lemma poll_extractors_inv: "pipeline_inv cm \<Longrightarrow> pipeline_inv (fst (poll_extractors c t uuid info es cm))"
proof (induction c t uuid info es cm rule: poll_extractors.induct)
  case (2 c t uuid info m ex es cm)
  obtain cm1 ev1 where step: "(case ex info of None \<Rightarrow> (cm, []) | Some v \<Rightarrow> feed_metric c t uuid cm m v) = (cm1, ev1)"
    by fastforce
  then have "pipeline_inv cm1"
    using feed_metric_inv [OF 2(2), of c t uuid m] 2(2) by (auto split: option.splits) (metis fst_conv)
  with 2(1) [OF step [symmetric] refl] step show ?case
    by (cases "poll_extractors c t uuid info es cm1") simp
qed simp

lemma poll_cpu_inv: "pipeline_inv cm \<Longrightarrow> pipeline_inv (fst (poll_cpu c t uuid info cm))"
  using feed_metric_inv [of cm c t uuid CPU_UTILIZATION]
  by (auto simp: poll_cpu_def Let_def split: option.splits prod.splits)
    (metis fst_conv)+

lemmas poll_delta_defs = poll_slowlog_def poll_rejected_def poll_evicted_def

lemma poll_delta_inv:
  assumes "pipeline_inv cm"
  shows "pipeline_inv (fst (poll_slowlog c t uuid sid cm))"
    and "pipeline_inv (fst (poll_rejected c t uuid info cm))"
    and "pipeline_inv (fst (poll_evicted c t uuid info enabled cm))"
  using assms by (auto simp: poll_delta_defs Let_def split: option.split intro!: feed_metric_inv ensure_metric_inv)

lemma poll_metrics_inv: "pipeline_inv cm \<Longrightarrow> pipeline_inv (fst (poll_metrics c t uuid info sid enabled cm))"
  using poll_extractors_inv [of cm c t uuid info metricExtractors]
  by (auto simp: poll_metrics_def Let_def split: prod.splits)
    (metis fst_conv poll_cpu_inv poll_delta_inv)

lemma initial_metrics_inv: "pipeline_inv initializeBuffersAndDetectors"
  by (simp add: pipeline_inv_def initializeBuffersAndDetectors_def wf_map_def buffer_inv_def Let_def
      METRICS_HANDLED_OUTSIDE_EXTRACTOR_def all_metric_types_def new_buffer_def new_detector_def)

section \<open>Events\<close>

lemma feed_metric_events: "e \<in> set (snd (feed_metric c t uuid cm m v)) \<Longrightarrow> ev_connectionId e = Some c"
  by (auto simp: feed_metric_def Let_def split: option.splits prod.splits)

lemma feed_metric_eventsD: "feed_metric c t uuid cm m v = (cm', es) \<Longrightarrow> e \<in> set es \<Longrightarrow> ev_connectionId e = Some c"
  using feed_metric_events [of e c t uuid cm m v] by simp

lemma poll_extractors_events:
  "e \<in> set (snd (poll_extractors c t uuid info es cm)) \<Longrightarrow> ev_connectionId e = Some c"
proof (induction c t uuid info es cm rule: poll_extractors.induct)
  case (2 c t uuid info m ex es cm)
  then show ?case
    by (cases "ex info") (auto simp: Let_def split: prod.splits dest: feed_metric_eventsD)
qed simp

lemma poll_metrics_events:
  "e \<in> set (snd (poll_metrics c t uuid info sid enabled cm)) \<Longrightarrow> ev_connectionId e = Some c"
proof -
  have cpu: "ev_connectionId e = Some c" if "e \<in> set (fst (snd (poll_cpu c t uuid info cm)))" for cm
    using that
    by (auto simp: poll_cpu_def Let_def split: option.splits prod.splits dest: feed_metric_eventsD)
  have delta: "ev_connectionId e = Some c"
    if "e \<in> set (snd (poll_slowlog c t uuid sid cm)) \<or> e \<in> set (snd (poll_rejected c t uuid info cm))
      \<or> e \<in> set (snd (poll_evicted c t uuid info enabled cm))" for cm
    using that by (auto simp: poll_delta_defs Let_def split: option.splits if_splits dest: feed_metric_events)
  assume "e \<in> set (snd (poll_metrics c t uuid info sid enabled cm))"
  then show ?thesis
    using poll_extractors_events [of e c t uuid info metricExtractors cm]
    by (auto simp: poll_metrics_def Let_def split: prod.splits) (metis cpu delta fst_conv snd_conv)+
qed

section \<open>The counter feeds\<close>

fun counter_deltas :: "real option \<Rightarrow> real list \<Rightarrow> real list" where
  "counter_deltas prev [] = []"
| "counter_deltas prev (x # xs) = counter_delta prev x # counter_deltas (Some x) xs"

lemma counter_deltas_snoc:
  "counter_deltas prev (xs @ [x]) =
     counter_deltas prev xs @ [counter_delta (if xs = [] then prev else Some (last xs)) x]"
  by (induction prev xs rule: counter_deltas.induct) auto

lemma counter_deltas_nonneg: "d \<in> set (counter_deltas prev xs) \<Longrightarrow> 0 \<le> d"
  by (induction prev xs rule: counter_deltas.induct) (auto simp: counter_delta_def)

lemma counter_deltas_telescope:
  "sorted (p # xs) \<Longrightarrow> sum_list (counter_deltas (Some p) xs) = last (p # xs) - p"
  by (induction xs arbitrary: p) (auto simp: counter_delta_def default_to_def)

text \<open>A run of polls of the rejected-connections counter alone: \<open>(timestamp, counter)\<close> pairs.\<close>

definition run_rejected :: "string \<Rightarrow> (MetricType \<Rightarrow> string) \<Rightarrow> (int \<times> real) list \<Rightarrow> conn_metrics" where
  "run_rejected c uuid ps =
     foldl (\<lambda>cm (t, x). fst (poll_rejected c t uuid (\<lambda>k. if k = ''rejected_connections'' then Some x else None) cm))
       initializeBuffersAndDetectors ps"

definition rejected_samples :: "conn_metrics \<Rightarrow> real list" where
  "rejected_samples cm = (case js_get (cm_buffers cm) REJECTED_CONNECTIONS of None \<Rightarrow> []
     | Some b \<Rightarrow> map ms_value (mb_samples b))"

lemma feed_metric_buffer:
  assumes "js_get (cm_buffers cm) m = Some b" and "pipeline_inv cm"
  shows "js_get (cm_buffers (fst (feed_metric c t uuid cm m v))) m = Some (addSample b v t)"
proof -
  have "m \<in> fst ` set (cm_detectors cm)"
    using assms by (metis map_of_eq_None_iff option.distinct(1) pipeline_inv_def)
  then obtain d where "js_get (cm_detectors cm) m = Some d" by (metis map_of_eq_None_iff not_None_eq)
  with assms(1) show ?thesis by (simp add: feed_metric_def Let_def js_simps split: prod.split)
qed

lemma feed_metric_keeps [simp]: "cm_lastRejected (fst (feed_metric c t uuid cm m v)) = cm_lastRejected cm"
  by (simp add: feed_metric_def Let_def split: option.split prod.split)

lemma run_rejected_state:
  "pipeline_inv (run_rejected c uuid ps) \<and>
   cm_lastRejected (run_rejected c uuid ps) = (if ps = [] then None else Some (snd (last ps))) \<and>
   rejected_samples (run_rejected c uuid ps) = take_last default_maxSamples (counter_deltas None (map snd ps)) \<and>
   (ps \<noteq> [] \<longrightarrow> js_has (cm_buffers (run_rejected c uuid ps)) REJECTED_CONNECTIONS) \<and>
   (ps = [] \<longrightarrow> \<not> js_has (cm_buffers (run_rejected c uuid ps)) REJECTED_CONNECTIONS)"
proof (induction ps rule: rev_induct)
  case Nil
  show ?case
    using initial_metrics_inv
    by (simp add: run_rejected_def rejected_samples_def take_last_def js_has_def)
      (simp add: initializeBuffersAndDetectors_def Let_def METRICS_HANDLED_OUTSIDE_EXTRACTOR_def all_metric_types_def)
next
  case (snoc p ps)
  obtain t x where p: "p = (t, x)" by (cases p)
  define cm where "cm = run_rejected c uuid ps"
  define cm1 where "cm1 = ensure_metric REJECTED_CONNECTIONS rejected_config (cm\<lparr>cm_lastRejected := Some x\<rparr>)"
  define v where "v = counter_delta (cm_lastRejected cm) x"
  have run: "run_rejected c uuid (ps @ [p]) = fst (feed_metric c t uuid cm1 REJECTED_CONNECTIONS v)"
    by (simp add: run_rejected_def p cm_def cm1_def v_def poll_rejected_def Let_def)
  have inv1: "pipeline_inv cm1" using snoc.IH by (simp add: cm1_def cm_def ensure_metric_inv)
  obtain b where b: "js_get (cm_buffers cm1) REJECTED_CONNECTIONS = Some b"
    and samples: "map ms_value (mb_samples b) = rejected_samples cm" and cap: "mb_maxSamples b = default_maxSamples"
  proof (cases "js_get (cm_buffers cm) REJECTED_CONNECTIONS")
    case None
    then show ?thesis
      by (intro that [of "new_buffer REJECTED_CONNECTIONS default_maxSamples default_minSamples"])
        (simp_all add: cm1_def ensure_metric_def js_has_def js_simps rejected_samples_def new_buffer_def)
  next
    case (Some b)
    with snoc.IH have "mb_maxSamples b = default_maxSamples" by (simp add: cm_def pipeline_inv_def)
    with Some show ?thesis
      by (intro that [of b]) (simp_all add: cm1_def ensure_metric_def js_has_def rejected_samples_def)
  qed
  have "rejected_samples (run_rejected c uuid (ps @ [p])) = push_capped default_maxSamples v (rejected_samples cm)"
    using feed_metric_buffer [OF b inv1, of c t uuid v] cap
    by (simp add: run rejected_samples_def [of "fst _"] addSample_def map_push_capped samples)
  moreover have "counter_deltas None (map snd (ps @ [p])) = counter_deltas None (map snd ps) @ [v]"
    using snoc.IH by (simp add: counter_deltas_snoc v_def cm_def p last_map)
  moreover have "cm_lastRejected cm1 = Some x" by (simp add: cm1_def ensure_metric_def)
  ultimately show ?case
    using snoc.IH feed_metric_inv [OF inv1] feed_metric_buffer [OF b inv1, of c t uuid v]
    by (simp add: run [unfolded p] cm_def push_capped_take_last p js_has_def)
qed

section \<open>Properties\<close>

definition poll_many ::
  "string \<Rightarrow> (int \<times> (MetricType \<Rightarrow> string) \<times> info_num \<times> real option \<times> bool) list \<Rightarrow> conn_metrics" where
  "poll_many c ps = foldl (\<lambda>cm (t, uuid, info, sid, enabled). fst (poll_metrics c t uuid info sid enabled cm))
     initializeBuffersAndDetectors ps"

text \<open>
  However a connection is polled, its buffers stay within the window of 300 samples, each
  metric that has a buffer has a detector of that metric, and every event of the next poll
  carries the connection's id.
\<close>

theorem pipeline_bounded:
  "(\<forall>m \<in> fst ` set (cm_buffers (poll_many c ps)).
      \<exists>b d. js_get (cm_buffers (poll_many c ps)) m = Some b \<and> length (mb_samples b) \<le> 300 \<and>
            js_get (cm_detectors (poll_many c ps)) m = Some d \<and> sd_metricType d = m) \<and>
   (\<forall>e \<in> set (snd (poll_metrics c t uuid info sid enabled (poll_many c ps))). ev_connectionId e = Some c)"
proof -
  have inv: "pipeline_inv (poll_many c ps)"
  proof (induction ps rule: rev_induct)
    case (snoc p ps)
    then show ?case by (cases p) (simp add: poll_many_def poll_metrics_inv)
  qed (simp add: poll_many_def initial_metrics_inv)
  have "\<exists>b d. js_get (cm_buffers (poll_many c ps)) m = Some b \<and> length (mb_samples b) \<le> 300 \<and>
            js_get (cm_detectors (poll_many c ps)) m = Some d \<and> sd_metricType d = m"
    if "m \<in> fst ` set (cm_buffers (poll_many c ps))" for m
  proof -
    from that obtain b where b: "js_get (cm_buffers (poll_many c ps)) m = Some b" by (metis map_of_eq_None_iff not_None_eq)
    from that inv obtain d where d: "js_get (cm_detectors (poll_many c ps)) m = Some d"
      by (metis map_of_eq_None_iff not_None_eq pipeline_inv_def)
    from b inv have "buffer_inv b" and "mb_maxSamples b = 300" by (auto simp: pipeline_inv_def default_maxSamples_def)
    with b d inv show ?thesis by (simp add: pipeline_inv_def buffer_inv_def)
  qed
  then show ?thesis by (blast dest: poll_metrics_events)
qed

theorem pipeline_bounded_witness:
  "CONNECTIONS \<in> fst ` set (cm_buffers (poll_many ''c'' [])) \<and>
   (\<exists>b. js_get (cm_buffers (poll_many ''c'' [])) CONNECTIONS = Some b \<and> length (mb_samples b) \<le> 300)"
proof -
  have "CONNECTIONS \<in> fst ` set (cm_buffers (poll_many ''c'' []))"
    by (simp add: poll_many_def initializeBuffersAndDetectors_def Let_def all_metric_types_def
        METRICS_HANDLED_OUTSIDE_EXTRACTOR_def)
  with pipeline_bounded [of "''c''" "[]"] show ?thesis by blast
qed

text \<open>
  The rejected-connections feed: the buffer holds the last 300 per-poll increments of the
  counter, none is negative (a server restart counts as 0), and while the counter only grows
  the increments add up to its total growth since the first poll.
\<close>

theorem rejected_feed_is_increments:
  assumes "sorted (map snd ps)" and "ps \<noteq> []"
  shows "rejected_samples (run_rejected c uuid ps) = take_last 300 (counter_deltas None (map snd ps))
       \<and> (\<forall>x \<in> set (rejected_samples (run_rejected c uuid ps)). 0 \<le> x)
       \<and> sum_list (counter_deltas None (map snd ps)) = snd (last ps) - snd (hd ps)"
proof -
  have eq: "rejected_samples (run_rejected c uuid ps) = take_last 300 (counter_deltas None (map snd ps))"
    using run_rejected_state [of c uuid ps] by (simp add: default_maxSamples_def)
  moreover have "sum_list (counter_deltas None (map snd ps)) = snd (last ps) - snd (hd ps)"
    using assms counter_deltas_telescope [of "snd (hd ps)" "map snd (tl ps)"]
    by (cases ps) (auto simp: counter_delta_def default_to_def last_map)
  ultimately show ?thesis using set_take_last_subset counter_deltas_nonneg by (metis subsetD)
qed

theorem rejected_feed_is_increments_witness:
  "rejected_samples (run_rejected ''c'' (\<lambda>_. ''u'') [(1, 5), (2, 5), (3, 12)]) = [0, 0, 7]"
  using rejected_feed_is_increments [of "[(1, 5), (2, 5), (3, 12)]" "''c''" "\<lambda>_. ''u''"]
  by (simp add: take_last_def counter_delta_def default_to_def)

text \<open>
  ACL_DENIED is fed the lifetime counter itself, so a counter that stands still at 10 or
  more keeps alerting: on a ready window that holds nothing but the value c, a detector outside
  its cooldown that has counted one breach alerts again without any new denial.
\<close>

theorem acl_denied_standing_counter_alerts:
  assumes "\<And>s. s \<in> set (mb_samples b) \<Longrightarrow> ms_value s = c" and "10 \<le> c" and "isReady b"
    and "sd_config d = sd_config (new_detector ACL_DENIED (detector_config ACL_DENIED))"
    and "\<not> in_cooldown d t" and "1 \<le> spike_streak d"
  shows "snd (detect d b c t u) \<noteq> None"
proof -
  have z: "getZScore b c = 0" using stdDev_constant [OF assms(1)] by (simp add: getZScore_def)
  then have "spike_considered d b c t" using assms by (simp add: spike_considered_def)
  moreover have "spike_verdict d b c \<noteq> None"
    using z assms(2,4) by (simp add: spike_verdict_def spike_severity_def reaches_def default_to_def
        new_detector_def detector_config_def with_thresholds_def z_config_def empty_config_def)
  moreover have "rc_consecutiveRequired (sd_config d) = 2"
    using assms(4) by (simp add: default_to_def new_detector_def detector_config_def with_thresholds_def
        z_config_def empty_config_def)
  ultimately show ?thesis using detect_streak(2) [of d b c t u] assms(6) by simp
qed

definition standing_window :: MetricBuffer where
  "standing_window = addSamples (new_buffer ACL_DENIED 300 30) (replicate 30 (60, 1))"

lemma standing_window_samples:
  "mb_samples standing_window = replicate 30 \<lparr>ms_timestamp = 1, ms_value = 60\<rparr>"
  using addSamples_window [of ACL_DENIED 300 30 "replicate 30 (60, 1)"]
  by (simp add: standing_window_def take_last_id)

theorem acl_denied_standing_counter_alerts_witness:
  "let d = fst (detect (new_detector ACL_DENIED (detector_config ACL_DENIED)) standing_window 60 1000 ''a'')
   in snd (detect d standing_window 60 2000 ''b'') \<noteq> None"
proof -
  let ?d0 = "new_detector ACL_DENIED (detector_config ACL_DENIED)"
  let ?d = "fst (detect ?d0 standing_window 60 1000 ''a'')"
  have const: "\<And>s. s \<in> set (mb_samples standing_window) \<Longrightarrow> ms_value s = 60"
    by (simp add: standing_window_samples)
  have ready: "isReady standing_window"
    using addSamples_window [of ACL_DENIED 300 30 "replicate 30 (60, 1)"]
    by (simp add: isReady_def standing_window_samples) (simp add: standing_window_def)
  have z: "getZScore standing_window 60 = 0"
    using stdDev_constant [OF const] by (simp add: getZScore_def)
  have d: "sd_consecutiveCounts ?d = [(ACL_DENIED, \<lparr>cc_count = 1, cc_lastValue = 60, cc_lastTimestamp = 1000\<rparr>)]"
    and la: "sd_lastAlertTime ?d = []"
    using ready z
    by (simp_all add: detect_def in_cooldown_def spike_verdict_def spike_severity_def reaches_def
        default_to_def spike_count_def new_detector_def detector_config_def with_thresholds_def
        z_config_def empty_config_def Let_def)
  have "snd (detect ?d standing_window 60 2000 ''b'') \<noteq> None"
  proof (rule acl_denied_standing_counter_alerts [OF const])
    show "\<not> in_cooldown ?d 2000" by (simp add: in_cooldown_def la)
    show "1 \<le> spike_streak ?d" by (simp add: spike_streak_def d) (simp add: new_detector_def)
  qed (use ready in simp_all)
  then show ?thesis by (simp add: Let_def)
qed

end
