(* ===== verification/Client_Lockout.thy ===== *)
theory Client_Lockout
  imports Alert_Contract Anomaly_Types
begin

text \<open>
  Two detectors on the client pool: the admin-lockout advisory, client-lockout-detector.ts with
  its service handler, and the raw saturation detector detectClientSaturation of
  anomaly.service.ts. Both alert on escalation only. The lockout advisory stages the refusal
  counter of an escalation and commits it with the level once the event is stored, so that a
  failed save does not consume the refusals that caused it.
\<close>

definition LOCKOUT_UTILIZATION_PCT :: real where "LOCKOUT_UTILIZATION_PCT = 85"
definition LOCKOUT_MIN_STREAK :: nat where "LOCKOUT_MIN_STREAK = 3"

record lockout_state =
  cl_highUtilStreak :: nat
  cl_level :: level
  cl_lastRejected :: "real option"
  cl_pendingRejected :: "real option"
  cl_lastConnected :: "real option"

record lockout_input =
  ci_connectedClients :: "real option"
  ci_maxClients :: "real option"
  ci_rejectedConnections :: "real option"
  ci_blockedClients :: "real option"

record lockout_finding =
  cf_level :: level
  cf_connectedClients :: real
  cf_maxClients :: real
  cf_utilizationPct :: real
  cf_rejectedDelta :: real
  cf_blockedClients :: "real option"
  cf_rising :: bool
  cf_streak :: nat

definition createClientLockoutState :: lockout_state where
  "createClientLockoutState = \<lparr>cl_highUtilStreak = 0, cl_level = LNone, cl_lastRejected = None,
     cl_pendingRejected = None, cl_lastConnected = None\<rparr>"

definition lockout_rejectedDelta :: "lockout_state \<Rightarrow> lockout_input \<Rightarrow> real" where
  "lockout_rejectedDelta state input =
     (case (ci_rejectedConnections input, cl_lastRejected state) of
        (Some now, Some before) \<Rightarrow> max 0 (now - before)
      | _ \<Rightarrow> 0)"

definition lockout_usable :: "lockout_input \<Rightarrow> (real \<times> real) option" where
  "lockout_usable input =
     (case (ci_connectedClients input, ci_maxClients input) of
        (Some connectedClients, Some maxClients) \<Rightarrow>
          if maxClients \<le> 0 then None else Some (connectedClients, maxClients)
      | _ \<Rightarrow> None)"

definition lockout_assess :: "bool \<Rightarrow> bool \<Rightarrow> level" where
  "lockout_assess refusing sustained =
     (if refusing \<and> sustained then LCritical else if refusing \<or> sustained then LWarning else LNone)"

definition evaluateClientLockout ::
  "lockout_state \<Rightarrow> lockout_input \<Rightarrow> lockout_state \<times> lockout_finding option" where
  "evaluateClientLockout state input =
     (let rejectedDelta = lockout_rejectedDelta state input in
      case lockout_usable input of
        None \<Rightarrow> (state, None)
      | Some (connectedClients, maxClients) \<Rightarrow>
          let nextRejected = (case ci_rejectedConnections input of None \<Rightarrow> cl_lastRejected state | Some r \<Rightarrow> Some r);
              previousConnected = cl_lastConnected state;
              s1 = state\<lparr>cl_lastConnected := Some connectedClients\<rparr>;
              utilizationPct = (connectedClients / maxClients) * 100;
              s2 = (if utilizationPct \<ge> LOCKOUT_UTILIZATION_PCT
                    then s1\<lparr>cl_highUtilStreak := cl_highUtilStreak s1 + 1\<rparr>
                    else s1\<lparr>cl_highUtilStreak := 0\<rparr>);
              sustained = (cl_highUtilStreak s2 \<ge> LOCKOUT_MIN_STREAK);
              refusing = (rejectedDelta > 0);
              level = lockout_assess refusing sustained;
              escalated = (level_rank level > level_rank (cl_level s2));
              s3 = (if level = LNone then s2\<lparr>cl_level := LNone\<rparr> else s2)
          in if \<not> escalated \<or> level = LNone then (s3\<lparr>cl_lastRejected := nextRejected\<rparr>, None)
             else (s3\<lparr>cl_pendingRejected := nextRejected\<rparr>,
                   Some \<lparr>cf_level = level, cf_connectedClients = connectedClients,
                         cf_maxClients = maxClients, cf_utilizationPct = utilizationPct,
                         cf_rejectedDelta = rejectedDelta, cf_blockedClients = ci_blockedClients input,
                         cf_rising = (case previousConnected of None \<Rightarrow> False | Some p \<Rightarrow> connectedClients > p),
                         cf_streak = cl_highUtilStreak s3\<rparr>))"

definition commitClientLockoutLevel :: "lockout_state \<Rightarrow> level \<Rightarrow> lockout_state" where
  "commitClientLockoutLevel state level =
     (let s1 = state\<lparr>cl_level := level\<rparr> in
      case cl_pendingRejected s1 of
        None \<Rightarrow> s1
      | Some r \<Rightarrow> s1\<lparr>cl_lastRejected := Some r, cl_pendingRejected := None\<rparr>)"

datatype lockout_headline = TurningAway | RefusedInBurst | HeldHigh

definition lockout_headline_of :: "lockout_finding \<Rightarrow> lockout_headline" where
  "lockout_headline_of f =
     (if cf_level f = LCritical then TurningAway
      else if cf_rejectedDelta f > 0 then RefusedInBurst else HeldHigh)"

definition buildClientLockoutEvent :: "string \<Rightarrow> int \<Rightarrow> string \<Rightarrow> lockout_finding \<Rightarrow> AnomalyEvent" where
  "buildClientLockoutEvent connectionId timestamp uuid f =
     state_event uuid timestamp CLIENT_LOCKOUT_RISK SPIKE
       (if cf_level f = LCritical then CRITICAL else WARNING) (cf_connectedClients f) (cf_maxClients f)
       (of_int \<lfloor>cf_maxClients f * LOCKOUT_UTILIZATION_PCT / 100\<rfloor>) connectionId"

text \<open>The handler: \<open>persisted\<close> is what addAnomaly leaves in the event.\<close>

definition detectClientLockoutRisk ::
  "(string, lockout_state) jsmap \<Rightarrow> info_num \<Rightarrow> string \<Rightarrow> int \<Rightarrow> string \<Rightarrow> bool
   \<Rightarrow> (string, lockout_state) jsmap \<times> AnomalyEvent option" where
  "detectClientLockoutRisk states info connectionId timestamp uuid persisted =
     (let state = js_get_or createClientLockoutState states connectionId;
          (state', r) = evaluateClientLockout state
            \<lparr>ci_connectedClients = info ''connected_clients'', ci_maxClients = info ''maxclients'',
             ci_rejectedConnections = info ''rejected_connections'', ci_blockedClients = info ''blocked_clients''\<rparr>
      in case r of
           None \<Rightarrow> (js_set connectionId state' states, None)
         | Some finding \<Rightarrow>
             let event = (buildClientLockoutEvent connectionId timestamp uuid finding)\<lparr>ev_persisted := persisted\<rparr>
             in (js_set connectionId
                   (if ev_persisted event then commitClientLockoutLevel state' (cf_level finding) else state') states,
                 Some event))"

section \<open>The raw saturation detector\<close>

definition CLIENT_SATURATION_WARN :: real where "CLIENT_SATURATION_WARN = 8 / 10"
definition CLIENT_SATURATION_CRIT :: real where "CLIENT_SATURATION_CRIT = 95 / 100"

definition saturation_level :: "real \<Rightarrow> level" where
  "saturation_level ratio =
     (if ratio \<ge> CLIENT_SATURATION_CRIT then LCritical
      else if ratio \<ge> CLIENT_SATURATION_WARN then LWarning else LNone)"

text \<open>\<open>emitted = False\<close> is an emit that throws: the level is then not advanced.\<close>

definition detectClientSaturation ::
  "(string, level) jsmap \<Rightarrow> info_num \<Rightarrow> string \<Rightarrow> int \<Rightarrow> string \<Rightarrow> bool
   \<Rightarrow> (string, level) jsmap \<times> AnomalyEvent option" where
  "detectClientSaturation levels info connectionId timestamp uuid emitted =
     (case (info ''connected_clients'', info ''maxclients'') of
        (Some clients, Some maxClients) \<Rightarrow>
          if maxClients \<le> 0 then (levels, None)
          else
            let level = saturation_level (clients / maxClients);
                prev = js_get_or LNone levels connectionId;
                escalated = (level_rank level > level_rank prev)
            in if escalated then
                 if emitted then
                   (js_set connectionId level levels,
                    Some (state_event uuid timestamp CLIENT_SATURATION SPIKE (level_severity level)
                      clients maxClients (of_int \<lfloor>maxClients * CLIENT_SATURATION_WARN\<rfloor>) connectionId))
                 else (levels, None)
               else (js_set connectionId level levels, None)
      | _ \<Rightarrow> (levels, None))"

section \<open>The shape of one lockout evaluation\<close>

definition lockout_high :: "lockout_input \<Rightarrow> bool" where
  "lockout_high i \<longleftrightarrow> (case lockout_usable i of None \<Rightarrow> False | Some (c, m) \<Rightarrow> LOCKOUT_UTILIZATION_PCT \<le> c / m * 100)"

definition lockout_streak :: "lockout_state \<Rightarrow> lockout_input \<Rightarrow> nat" where
  "lockout_streak s i = (if lockout_high i then cl_highUtilStreak s + 1 else 0)"

definition lockout_level :: "lockout_state \<Rightarrow> lockout_input \<Rightarrow> level" where
  "lockout_level s i = lockout_assess (0 < lockout_rejectedDelta s i) (LOCKOUT_MIN_STREAK \<le> lockout_streak s i)"

definition lockout_next :: "lockout_state \<Rightarrow> lockout_input \<Rightarrow> real option" where
  "lockout_next s i = (case ci_rejectedConnections i of None \<Rightarrow> cl_lastRejected s | Some r \<Rightarrow> Some r)"

lemma eval_lockout_gap: "lockout_usable i = None \<Longrightarrow> evaluateClientLockout s i = (s, None)"
  by (simp add: evaluateClientLockout_def Let_def)

lemma eval_lockout_quiet:
  assumes "lockout_usable i = Some (c, m)" and "level_rank (lockout_level s i) \<le> level_rank (cl_level s)"
  shows "evaluateClientLockout s i =
           (s\<lparr>cl_highUtilStreak := lockout_streak s i,
              cl_level := (if lockout_level s i = LNone then LNone else cl_level s),
              cl_lastRejected := lockout_next s i, cl_lastConnected := Some c\<rparr>, None)"
  using assms
  by (cases "lockout_high i"; cases s) (simp_all add: evaluateClientLockout_def lockout_level_def
      lockout_streak_def lockout_high_def lockout_next_def Let_def)

lemma eval_lockout_fires:
  assumes "lockout_usable i = Some (c, m)" and "level_rank (cl_level s) < level_rank (lockout_level s i)"
  shows "\<exists>f. evaluateClientLockout s i =
           (s\<lparr>cl_highUtilStreak := lockout_streak s i, cl_lastConnected := Some c,
              cl_pendingRejected := lockout_next s i\<rparr>, Some f) \<and>
         cf_level f = lockout_level s i \<and> cf_rejectedDelta f = lockout_rejectedDelta s i \<and>
         cf_streak f = lockout_streak s i"
proof -
  have "lockout_level s i \<noteq> LNone" using assms(2) by auto
  with assms show ?thesis
    by (cases "lockout_high i") (simp_all add: evaluateClientLockout_def lockout_level_def lockout_streak_def
        lockout_high_def lockout_next_def Let_def)
qed

lemma eval_lockout_finding:
  assumes "evaluateClientLockout s i = (s', Some f)"
  shows "lockout_usable i \<noteq> None" and "level_rank (cl_level s) < level_rank (lockout_level s i)"
    and "cf_level f = lockout_level s i" and "cl_level s' = cl_level s"
    and "cl_lastRejected s' = cl_lastRejected s" and "cl_pendingRejected s' = lockout_next s i"
    and "cl_highUtilStreak s' = lockout_streak s i"
    and "cf_rejectedDelta f = lockout_rejectedDelta s i" and "cf_streak f = lockout_streak s i"
proof -
  show u: "lockout_usable i \<noteq> None"
  proof
    assume "lockout_usable i = None"
    from eval_lockout_gap [OF this, of s] assms show False by simp
  qed
  then obtain c m where cm: "lockout_usable i = Some (c, m)" by (cases "lockout_usable i") auto
  show esc: "level_rank (cl_level s) < level_rank (lockout_level s i)"
  proof (rule ccontr)
    assume "\<not> ?thesis"
    with eval_lockout_quiet [OF cm, of s] assms show False by simp
  qed
  from eval_lockout_fires [OF cm esc] assms
  show "cf_level f = lockout_level s i" and "cl_level s' = cl_level s"
    and "cl_lastRejected s' = cl_lastRejected s" and "cl_pendingRejected s' = lockout_next s i"
    and "cl_highUtilStreak s' = lockout_streak s i"
    and "cf_rejectedDelta f = lockout_rejectedDelta s i" and "cf_streak f = lockout_streak s i"
    by auto
qed

section \<open>The alert contract\<close>

definition lockout_ack :: "lockout_state \<Rightarrow> lockout_finding \<Rightarrow> lockout_state" where
  "lockout_ack s f = commitClientLockoutLevel s (cf_level f)"

lemma lockout_ack_fields [simp]:
  "cl_level (lockout_ack s f) = cf_level f"
  "cl_highUtilStreak (lockout_ack s f) = cl_highUtilStreak s"
  "cl_lastRejected (lockout_ack s f) =
     (case cl_pendingRejected s of None \<Rightarrow> cl_lastRejected s | Some r \<Rightarrow> Some r)"
  by (simp_all add: lockout_ack_def commitClientLockoutLevel_def Let_def split: option.split)

text \<open>
  A steady continuation: readable as before, the same refusal counter and the same side of the
  utilization threshold.
\<close>

definition lockout_steady :: "lockout_input \<Rightarrow> lockout_input \<Rightarrow> bool" where
  "lockout_steady i j \<longleftrightarrow> (lockout_usable j = None) = (lockout_usable i = None) \<and>
     ci_rejectedConnections j = ci_rejectedConnections i \<and> lockout_high j = lockout_high i"

interpretation lockout: alert_budget evaluateClientLockout lockout_ack "\<lambda>s. level_rank (cl_level s)" 2
proof unfold_locales
  show "level_rank (cl_level (fst (evaluateClientLockout s i))) \<le> level_rank (cl_level s)" for s i
  proof (cases "lockout_usable i")
    case None
    then show ?thesis by (simp add: eval_lockout_gap)
  next
    case (Some cm)
    obtain c m where cm: "lockout_usable i = Some (c, m)" using Some by (cases cm) auto
    show ?thesis
    proof (cases "level_rank (cl_level s) < level_rank (lockout_level s i)")
      case True
      from eval_lockout_fires [OF cm True] show ?thesis by auto
    next
      case False
      then show ?thesis using eval_lockout_quiet [OF cm, of s] by simp
    qed
  qed
  show "level_rank (cl_level s') < level_rank (cl_level (lockout_ack s' f))"
    if "evaluateClientLockout s i = (s', Some f)" for s i s' f
    using eval_lockout_finding [OF that] by simp
qed simp

text \<open>
  The failed save keeps the refusals: after an escalation whose event was not stored, the next
  poll with the same refusal counter sees the same delta again.
\<close>

lemma lockout_failed_save_keeps_delta:
  assumes "evaluateClientLockout s i = (s', Some f)" and "ci_rejectedConnections j = ci_rejectedConnections i"
  shows "lockout_rejectedDelta s' j = lockout_rejectedDelta s i"
  using eval_lockout_finding(5) [OF assms(1)] assms(2) by (simp add: lockout_rejectedDelta_def)

lemma lockout_retry_level:
  assumes "evaluateClientLockout s i = (s', Some f)" and "lockout_steady i j"
  shows "level_rank (lockout_level s i) \<le> level_rank (lockout_level s' j)"
proof -
  have "lockout_rejectedDelta s' j = lockout_rejectedDelta s i"
    using lockout_failed_save_keeps_delta assms by (simp add: lockout_steady_def)
  moreover have "lockout_streak s i \<le> lockout_streak s' j"
    using eval_lockout_finding(7) [OF assms(1)] assms(2) by (simp add: lockout_streak_def lockout_steady_def)
  ultimately show ?thesis by (auto simp: lockout_level_def lockout_assess_def)
qed

lemma lockout_retry:
  assumes "evaluateClientLockout s i = (s', Some f)" and "lockout_steady i j"
  shows "\<exists>s'' f'. evaluateClientLockout s' j = (s'', Some f')"
proof -
  obtain c m where "lockout_usable j = Some (c, m)"
    using eval_lockout_finding(1) [OF assms(1)] assms(2) by (cases "lockout_usable j") (auto simp: lockout_steady_def)
  moreover have "level_rank (cl_level s') < level_rank (lockout_level s' j)"
    using lockout_retry_level [OF assms] eval_lockout_finding(2,4) [OF assms(1)] by simp
  ultimately show ?thesis using eval_lockout_fires [of j c m s'] by blast
qed

interpretation lockout: alert_retry evaluateClientLockout lockout_ack "\<lambda>s. level_rank (cl_level s)" 2
  lockout_steady
  by unfold_locales (rule lockout_retry)

section \<open>Properties\<close>

text \<open>
  A lockout escalation whose event is not stored is not lost: while the refusal counter and
  the side of the utilization threshold stay as they are, every later poll produces the finding
  again, however many saves fail in between, and none of the failed polls delivers an alert.
\<close>

theorem lockout_failed_saves_retry:
  assumes "evaluateClientLockout s i = (s1, Some f)" and "steady_run lockout_steady i (js @ [j])"
  shows "\<exists>s' f'. evaluateClientLockout
           (fst (run_polls evaluateClientLockout lockout_ack s (zip (i # js) (replicate (Suc (length js)) False)))) j
         = (s', Some f')"
  using lockout.failed_run(1) [OF assms] .

definition lockout_at :: "real \<Rightarrow> real \<Rightarrow> lockout_input" where
  "lockout_at clients rejected = \<lparr>ci_connectedClients = Some clients, ci_maxClients = Some 100,
     ci_rejectedConnections = Some rejected, ci_blockedClients = None\<rparr>"

definition lockout_base :: lockout_state where
  "lockout_base = fst (evaluateClientLockout createClientLockoutState (lockout_at 50 5))"

lemmas lockout_eval = evaluateClientLockout_def lockout_at_def lockout_base_def createClientLockoutState_def
  lockout_usable_def lockout_rejectedDelta_def lockout_assess_def LOCKOUT_UTILIZATION_PCT_def
  LOCKOUT_MIN_STREAK_def commitClientLockoutLevel_def lockout_ack_def Let_def

theorem lockout_failed_saves_retry_witness:
  "\<exists>s' f'. evaluateClientLockout (fst (run_polls evaluateClientLockout lockout_ack lockout_base
      [(lockout_at 90 6, False), (lockout_at 91 6, False)])) (lockout_at 92 6) = (s', Some f')"
proof -
  have "snd (evaluateClientLockout lockout_base (lockout_at 90 6)) \<noteq> None" by (simp add: lockout_eval)
  then obtain s1 f where "evaluateClientLockout lockout_base (lockout_at 90 6) = (s1, Some f)"
    by (metis not_Some_eq prod.collapse)
  from lockout_failed_saves_retry [OF this, of "[lockout_at 91 6]" "lockout_at 92 6"] show ?thesis
    by (simp add: lockout_steady_def lockout_at_def lockout_usable_def lockout_high_def LOCKOUT_UTILIZATION_PCT_def)
qed

text \<open>
  The two causes of a lockout finding: it is CRITICAL exactly when new refusals meet at least
  three consecutive polls at or above 85 percent, and a WARNING when only one of the two holds;
  a lone refusal at low utilization is therefore a WARNING.
\<close>

theorem lockout_finding_level:
  assumes "evaluateClientLockout s i = (s', Some f)"
  shows "(cf_level f = LCritical) = (0 < cf_rejectedDelta f \<and> 3 \<le> cf_streak f)
       \<and> (cf_level f = LWarning) = ((0 < cf_rejectedDelta f) \<noteq> (3 \<le> cf_streak f))
       \<and> level_rank (cl_level s) < level_rank (cf_level f)"
  using eval_lockout_finding [OF assms]
  by (auto simp: lockout_level_def lockout_assess_def LOCKOUT_MIN_STREAK_def)

theorem lockout_finding_level_witness:
  "\<exists>s' f. evaluateClientLockout lockout_base (lockout_at 10 6) = (s', Some f) \<and> cf_level f = LWarning"
proof -
  obtain s' f where f: "evaluateClientLockout lockout_base (lockout_at 10 6) = (s', Some f)"
    and "cf_rejectedDelta f = 1" and "cf_streak f = 0"
    by (simp add: lockout_eval)
  with lockout_finding_level [OF f] show ?thesis by simp
qed

text \<open>
  What re-arms the lockout advisory: the level is lowered only by a readable poll with no new
  refusals and a streak below three, and the alerts of any run number at most twice one more
  than the polls that lowered it.
\<close>

theorem lockout_rearm:
  "(if level_rank (cl_level (fst (evaluateClientLockout s i))) < level_rank (cl_level s)
    then lockout_usable i \<noteq> None \<and> lockout_rejectedDelta s i = 0 \<and> lockout_streak s i < 3
    else True) \<and>
   length (snd (run_polls evaluateClientLockout lockout_ack s ps))
     \<le> 2 * (1 + rearms (\<lambda>s. level_rank (cl_level s)) evaluateClientLockout lockout_ack s ps)"
proof -
  have "lockout_usable i \<noteq> None \<and> lockout_rejectedDelta s i = 0 \<and> lockout_streak s i < 3"
    if lower: "level_rank (cl_level (fst (evaluateClientLockout s i))) < level_rank (cl_level s)"
  proof -
    from lower obtain c m where cm: "lockout_usable i = Some (c, m)"
      by (cases "lockout_usable i") (auto simp: eval_lockout_gap)
    have "\<not> level_rank (cl_level s) < level_rank (lockout_level s i)"
      using eval_lockout_fires [OF cm, of s] lower by auto
    then have "lockout_level s i = LNone"
      using eval_lockout_quiet [OF cm, of s] lower by (auto split: if_splits)
    then have "\<not> 0 < lockout_rejectedDelta s i" and "lockout_streak s i < 3"
      by (auto simp: lockout_level_def lockout_assess_def LOCKOUT_MIN_STREAK_def split: if_splits)
    moreover have "0 \<le> lockout_rejectedDelta s i" by (simp add: lockout_rejectedDelta_def split: option.split)
    ultimately show ?thesis using cm by simp
  qed
  then show ?thesis using lockout.alerts_bounded by simp
qed

text \<open>
  Utilization need not fall below 85 percent for the advisory to re-arm: with every poll from
  the first refusal on at 90 percent, a refusal alert is followed by a second WARNING two polls
  later, because the level is none while the streak is still short.
\<close>

theorem lockout_rearms_at_high_utilization:
  "map cf_level (snd (run_polls evaluateClientLockout lockout_ack lockout_base
     [(lockout_at 90 6, True), (lockout_at 90 6, True), (lockout_at 90 6, True)])) = [LWarning, LWarning]"
  by (simp add: lockout_eval poll_step_def)

text \<open>
  Client saturation: after a poll whose event (if any) was emitted, the stored level is the
  level of the poll, an alert is raised exactly on escalation, and a failed emit leaves the
  stored level so the next poll escalates again.
\<close>

theorem saturation_escalation:
  assumes "info ''connected_clients'' = Some c" and "info ''maxclients'' = Some m" and "0 < m"
    and r: "detectClientSaturation levels info conn t u emitted = (levels', r)"
  shows "(if emitted \<or> level_rank (saturation_level (c / m)) \<le> level_rank (js_get_or LNone levels conn)
          then js_get levels' conn = Some (saturation_level (c / m)) else levels' = levels)
       \<and> (r \<noteq> None) = (emitted \<and> level_rank (js_get_or LNone levels conn) < level_rank (saturation_level (c / m)))"
  using r assms(1-3) by (auto simp: detectClientSaturation_def Let_def js_simps split: if_splits)

theorem saturation_escalation_witness:
  "js_get (fst (detectClientSaturation [] (\<lambda>k. if k = ''connected_clients'' then Some 96 else Some 100) ''c'' 1 ''u'' True)) ''c''
     = Some LCritical"
proof -
  let ?info = "\<lambda>k. if k = ''connected_clients'' then Some 96 else Some 100"
  have "?info ''connected_clients'' = Some 96" "?info ''maxclients'' = Some 100" "(0::real) < 100" by simp_all
  from saturation_escalation [OF this surjective_pairing, where levels = "[]" and conn = "''c''"
      and t = 1 and u = "''u''" and emitted = True] show ?thesis
    by (simp add: saturation_level_def CLIENT_SATURATION_CRIT_def)
qed

end
