(* ===== verification/Cluster_Types.thy ===== *)
theory Cluster_Types
  imports Prelude
begin

text \<open>
  The cluster views the topology detectors read, metrics.types.ts: a node of CLUSTER NODES, a
  shard of CLUSTER SHARDS and its nodes. Slot ranges are \<open>[start, end]\<close> pairs, as both parsers
  build them; an optional list (\<open>migratingSlots?\<close>) is an option.
\<close>

record ClusterNode =
  cn_id :: string
  cn_address :: string
  cn_flags :: "string list"
  cn_master :: string
  cn_pingSent :: int
  cn_pongReceived :: int
  cn_configEpoch :: int
  cn_linkState :: string
  cn_slots :: "(int \<times> int) list"
  cn_migratingSlots :: "(int \<times> string) list option"
  cn_importingSlots :: "(int \<times> string) list option"
  cn_hostname :: "string option"

record ClusterShardNode =
  sn_id :: string
  sn_role :: string
  sn_health :: "string option"
  sn_endpoint :: "string option"
  sn_hostname :: "string option"
  sn_port :: "int option"
  sn_replicationOffset :: "int option"

record ClusterShard =
  sh_slots :: "(int \<times> int) list"
  sh_nodes :: "ClusterShardNode list"

definition has_flag :: "ClusterNode \<Rightarrow> string \<Rightarrow> bool" where
  "has_flag node flag \<longleftrightarrow> flag \<in> set (cn_flags node)"

text \<open>\<open>new Map\<close> filled by node id, skipping nodes without one; a later node of the same id wins.\<close>

definition nodes_by_id :: "ClusterNode list \<Rightarrow> (string, ClusterNode) jsmap" where
  "nodes_by_id nodes = foldl (\<lambda>m n. if cn_id n \<noteq> '''' then js_set (cn_id n) n m else m) [] nodes"

lemma foldl_set_get:
  assumes "distinct (map key xs)" and "x \<in> set xs" and "P x"
  shows "js_get (foldl (\<lambda>m n. if P n then js_set (key n) n m else m) m0 xs) (key x) = Some x"
  using assms
proof (induction xs arbitrary: m0)
  case (Cons y ys)
  have other: "js_get (foldl (\<lambda>m n. if P n then js_set (key n) n m else m) m0 zs) k = js_get m0 k"
    if "k \<notin> key ` set zs" for zs m0 k
    using that by (induction zs arbitrary: m0) (auto simp: js_simps)
  show ?case
  proof (cases "x = y")
    case True
    with Cons.prems other [of "key x" ys] show ?thesis by (auto simp: js_simps)
  next
    case False
    with Cons show ?thesis by auto
  qed
qed simp

lemma foldl_set_value:
  assumes "js_get (foldl (\<lambda>m n. if P n then js_set (key n) n m else m) m0 xs) k = Some x"
  shows "js_get m0 k = Some x \<or> (x \<in> set xs \<and> P x \<and> key x = k)"
  using assms by (induction xs arbitrary: m0) (fastforce simp: js_simps split: if_splits)+

lemma nodes_by_id_get:
  assumes "distinct (map cn_id nodes)" and "n \<in> set nodes" and "cn_id n \<noteq> ''''"
  shows "js_get (nodes_by_id nodes) (cn_id n) = Some n"
  using foldl_set_get [where key = cn_id and P = "\<lambda>n. cn_id n \<noteq> ''''", OF assms] by (simp add: nodes_by_id_def)

lemma nodes_by_id_value:
  assumes "js_get (nodes_by_id nodes) k = Some n"
  shows "n \<in> set nodes \<and> cn_id n = k \<and> k \<noteq> ''''"
proof -
  have "js_get [] k = Some n \<or> (n \<in> set nodes \<and> cn_id n \<noteq> '''' \<and> cn_id n = k)"
    by (rule foldl_set_value) (use assms in \<open>simp only: nodes_by_id_def\<close>)
  then show ?thesis by auto
qed

lemma nodes_by_id_none:
  assumes "distinct (map cn_id nodes)" and "k \<noteq> ''''"
  shows "js_get (nodes_by_id nodes) k = None \<longleftrightarrow> k \<notin> cn_id ` set nodes"
proof
  assume none: "js_get (nodes_by_id nodes) k = None"
  show "k \<notin> cn_id ` set nodes"
  proof
    assume "k \<in> cn_id ` set nodes"
    then obtain n where "n \<in> set nodes" "k = cn_id n" by auto
    with nodes_by_id_get [OF assms(1)] assms(2) none show False by simp
  qed
next
  assume "k \<notin> cn_id ` set nodes"
  then show "js_get (nodes_by_id nodes) k = None"
    by (metis nodes_by_id_value image_eqI not_None_eq)
qed

end
