(* ===== verification/Stuck_Replica.thy ===== *)
theory Stuck_Replica
  imports Alert_Contract Anomaly_Types Cluster_Types
begin

text \<open>
  stuck-replica-detector.ts: replicas whose primary is dead or missing from a CLUSTER NODES view,
  and the full-resync failure loop that folds the INFO replication fields of one replica across
  polls, with its service handler detectResyncLoop.
\<close>

section \<open>Orphaned replicas of a view\<close>

definition DEAD_PRIMARY_FLAGS :: "string list" where
  "DEAD_PRIMARY_FLAGS = [''fail'', ''fail?'', ''noaddr'', ''handshake'']"

datatype StuckReplicaReason = primary_failed | primary_unknown

record StuckReplica =
  sr_replicaId :: string
  sr_replicaAddress :: string
  sr_primaryId :: string
  sr_primaryAddress :: "string option"
  sr_reason :: StuckReplicaReason

definition isReplica :: "ClusterNode \<Rightarrow> bool" where
  "isReplica node \<longleftrightarrow> (has_flag node ''slave'' \<or> has_flag node ''replica'') \<and>
     cn_master node \<noteq> '''' \<and> cn_master node \<noteq> ''-''"

definition isHealthyPrimary :: "ClusterNode \<Rightarrow> bool" where
  "isHealthyPrimary node \<longleftrightarrow> has_flag node ''master'' \<and> \<not> list_ex (has_flag node) DEAD_PRIMARY_FLAGS"

definition stuck_of :: "(string, ClusterNode) jsmap \<Rightarrow> ClusterNode \<Rightarrow> StuckReplica option" where
  "stuck_of byId replica =
     (if \<not> isReplica replica then None
      else case js_get byId (cn_master replica) of
        Some primary \<Rightarrow>
          if isHealthyPrimary primary then None
          else Some \<lparr>sr_replicaId = cn_id replica, sr_replicaAddress = cn_address replica,
                     sr_primaryId = cn_master replica, sr_primaryAddress = Some (cn_address primary),
                     sr_reason = primary_failed\<rparr>
      | None \<Rightarrow>
          Some \<lparr>sr_replicaId = cn_id replica, sr_replicaAddress = cn_address replica,
                sr_primaryId = cn_master replica, sr_primaryAddress = None,
                sr_reason = primary_unknown\<rparr>)"

definition detectStuckReplicas :: "ClusterNode list \<Rightarrow> StuckReplica list" where
  "detectStuckReplicas nodes = (let byId = nodes_by_id nodes in List.map_filter (stuck_of byId) nodes)"

definition stuckReplicaSignature :: "StuckReplica \<Rightarrow> string" where
  "stuckReplicaSignature s = sr_replicaId s @ ''|'' @ sr_primaryId s"

section \<open>The full-resync failure loop\<close>

definition RESYNC_LOOP_MIN_WINDOW_MS :: int where "RESYNC_LOOP_MIN_WINDOW_MS = 300000"
definition RESYNC_LOOP_MIN_CYCLES :: nat where "RESYNC_LOOP_MIN_CYCLES = 2"

record resync_input =
  ri_role :: string
  ri_masterLinkStatus :: "string option"
  ri_masterLinkDownSinceSeconds :: "real option"
  ri_masterSyncInProgress :: bool
  ri_timestamp :: int

record resync_state =
  rs_downWindowStart :: "int option"
  rs_lastDownSinceSeconds :: "real option"
  rs_syncWasInProgress :: bool
  rs_failedCycles :: nat
  rs_alerted :: bool

record resync_finding =
  rf_downSeconds :: real
  rf_failedCycles :: nat
  rf_timestamp :: int

definition createResyncLoopState :: resync_state where
  "createResyncLoopState = \<lparr>rs_downWindowStart = None, rs_lastDownSinceSeconds = None,
     rs_syncWasInProgress = False, rs_failedCycles = 0, rs_alerted = False\<rparr>"

definition resetResyncLoopState :: "resync_state \<Rightarrow> resync_state" where
  "resetResyncLoopState state = state\<lparr>rs_downWindowStart := None, rs_lastDownSinceSeconds := None,
     rs_syncWasInProgress := False, rs_failedCycles := 0, rs_alerted := False\<rparr>"

definition resync_linkDown :: "resync_input \<Rightarrow> bool" where
  "resync_linkDown input \<longleftrightarrow>
     (ri_role input = ''slave'' \<or> ri_role input = ''replica'') \<and> ri_masterLinkStatus input = Some ''down''"

definition downCounterDropped :: "resync_state \<Rightarrow> resync_input \<Rightarrow> bool" where
  "downCounterDropped state input \<longleftrightarrow>
     (case (rs_lastDownSinceSeconds state, ri_masterLinkDownSinceSeconds input) of
        (Some before, Some now) \<Rightarrow> now < before | _ \<Rightarrow> False)"

definition evaluateResyncLoop :: "resync_state \<Rightarrow> resync_input \<Rightarrow> resync_state \<times> resync_finding option" where
  "evaluateResyncLoop state input =
     (if \<not> resync_linkDown input then (resetResyncLoopState state, None)
      else
        let s1 = (if downCounterDropped state input then resetResyncLoopState state else state);
            s2 = (case ri_masterLinkDownSinceSeconds input of None \<Rightarrow> s1
                  | Some d \<Rightarrow> s1\<lparr>rs_lastDownSinceSeconds := Some d\<rparr>);
            start = (case rs_downWindowStart s2 of None \<Rightarrow> ri_timestamp input | Some t \<Rightarrow> t);
            s3 = s2\<lparr>rs_downWindowStart := Some start\<rparr>;
            attemptEnded = (rs_syncWasInProgress s3 \<and> \<not> ri_masterSyncInProgress input);
            s4 = (if attemptEnded then s3\<lparr>rs_failedCycles := rs_failedCycles s3 + 1\<rparr> else s3);
            s5 = s4\<lparr>rs_syncWasInProgress := ri_masterSyncInProgress input\<rparr>;
            windowElapsed = (ri_timestamp input - start \<ge> RESYNC_LOOP_MIN_WINDOW_MS)
        in if \<not> windowElapsed \<or> rs_failedCycles s5 < RESYNC_LOOP_MIN_CYCLES \<or> rs_alerted s5 then (s5, None)
           else (s5, Some \<lparr>rf_downSeconds = (case ri_masterLinkDownSinceSeconds input of Some d \<Rightarrow> d
                                            | None \<Rightarrow> of_int (round (real_of_int (ri_timestamp input - start) / 1000))),
                          rf_failedCycles = rs_failedCycles s5, rf_timestamp = ri_timestamp input\<rparr>))"

definition acknowledgeResyncLoopFinding :: "resync_state \<Rightarrow> resync_state" where
  "acknowledgeResyncLoopFinding state = state\<lparr>rs_alerted := True\<rparr>"

definition detectResyncLoop ::
  "(string, resync_state) jsmap \<Rightarrow> info_num \<Rightarrow> info_str \<Rightarrow> string \<Rightarrow> int \<Rightarrow> string \<Rightarrow> bool
   \<Rightarrow> (string, resync_state) jsmap \<times> AnomalyEvent option" where
  "detectResyncLoop states info infos connectionId timestamp uuid emitted =
     (let state = js_get_or createResyncLoopState states connectionId;
          (state', r) = evaluateResyncLoop state
            \<lparr>ri_role = (case infos ''role'' of None \<Rightarrow> '''' | Some x \<Rightarrow> x),
             ri_masterLinkStatus = infos ''master_link_status'',
             ri_masterLinkDownSinceSeconds = info ''master_link_down_since_seconds'',
             ri_masterSyncInProgress = (infos ''master_sync_in_progress'' = Some ''1''),
             ri_timestamp = timestamp\<rparr>
      in case r of
           None \<Rightarrow> (js_set connectionId state' states, None)
         | Some f \<Rightarrow>
             if emitted then
               (js_set connectionId (acknowledgeResyncLoopFinding state') states,
                Some (state_event uuid timestamp RESYNC_LOOP SPIKE WARNING (real (rf_failedCycles f)) 0
                  (real RESYNC_LOOP_MIN_CYCLES) connectionId))
             else (js_set connectionId state' states, None))"

section \<open>The alert contract of the resync loop\<close>

definition resync_ack :: "resync_state \<Rightarrow> resync_finding \<Rightarrow> resync_state" where
  "resync_ack s f = acknowledgeResyncLoopFinding s"

definition resync_acked :: "resync_state \<Rightarrow> nat" where
  "resync_acked s = (if rs_alerted s then 1 else 0)"

definition resync_steady :: "resync_input \<Rightarrow> resync_input \<Rightarrow> bool" where
  "resync_steady i j \<longleftrightarrow> resync_linkDown i \<and> resync_linkDown j \<and> ri_timestamp i \<le> ri_timestamp j \<and>
     (case ri_masterLinkDownSinceSeconds j of None \<Rightarrow> True
      | Some b \<Rightarrow> (case ri_masterLinkDownSinceSeconds i of None \<Rightarrow> False | Some a \<Rightarrow> a \<le> b))"

definition resync_covered :: "resync_state \<Rightarrow> resync_input \<Rightarrow> bool" where
  "resync_covered s i \<longleftrightarrow> resync_linkDown i \<and> rs_alerted s \<and> \<not> downCounterDropped s i"

lemma eval_resync_finding:
  assumes "evaluateResyncLoop s i = (s', Some f)"
  shows "resync_linkDown i" and "\<not> rs_alerted s'" and "RESYNC_LOOP_MIN_CYCLES \<le> rs_failedCycles s'"
    and "\<exists>start. rs_downWindowStart s' = Some start \<and> RESYNC_LOOP_MIN_WINDOW_MS \<le> ri_timestamp i - start"
    and "rf_failedCycles f = rs_failedCycles s'"
  using assms
  by (auto simp: evaluateResyncLoop_def Let_def split: if_splits option.splits)

lemma eval_resync_lastDown:
  assumes "resync_linkDown i"
  shows "\<not> downCounterDropped (fst (evaluateResyncLoop s i)) j \<longleftrightarrow>
     (case ri_masterLinkDownSinceSeconds j of None \<Rightarrow> True
      | Some b \<Rightarrow> (case ri_masterLinkDownSinceSeconds i of Some a \<Rightarrow> a \<le> b
                  | None \<Rightarrow> (case rs_lastDownSinceSeconds s of None \<Rightarrow> True | Some a \<Rightarrow> a \<le> b)))"
  using assms
  by (auto simp: evaluateResyncLoop_def downCounterDropped_def Let_def resetResyncLoopState_def
      split: option.splits)

lemma eval_resync_alerted:
  assumes "resync_linkDown i" and "\<not> downCounterDropped s i"
  shows "rs_alerted (fst (evaluateResyncLoop s i)) = rs_alerted s"
  using assms by (simp add: evaluateResyncLoop_def Let_def split: option.splits)

interpretation resync: alert_budget evaluateResyncLoop resync_ack resync_acked 1
proof unfold_locales
  show "resync_acked (fst (evaluateResyncLoop s i)) \<le> resync_acked s" for s i
    by (auto simp: evaluateResyncLoop_def resync_acked_def Let_def resetResyncLoopState_def split: option.splits)
  show "resync_acked s' < resync_acked (resync_ack s' f)"
    if "evaluateResyncLoop s i = (s', Some f)" for s i s' f
    using eval_resync_finding(2) [OF that]
    by (simp add: resync_acked_def resync_ack_def acknowledgeResyncLoopFinding_def)
qed (simp add: resync_acked_def)

lemma resync_steady_not_dropped:
  assumes "resync_steady i j"
  shows "\<not> downCounterDropped (fst (evaluateResyncLoop s i)) j"
  using assms eval_resync_lastDown [of i s j] by (auto simp: resync_steady_def split: option.splits)

lemma resync_retry:
  assumes ev: "evaluateResyncLoop s i = (s', Some f)" and st: "resync_steady i j"
  shows "\<exists>s'' f'. evaluateResyncLoop s' j = (s'', Some f')"
proof -
  obtain start where start: "rs_downWindowStart s' = Some start" "RESYNC_LOOP_MIN_WINDOW_MS \<le> ri_timestamp i - start"
    using eval_resync_finding(4) [OF ev] by blast
  have "\<not> downCounterDropped s' j" using resync_steady_not_dropped [OF st, of s] ev by simp
  moreover have "resync_linkDown j" "RESYNC_LOOP_MIN_WINDOW_MS \<le> ri_timestamp j - start"
    using st start by (auto simp: resync_steady_def)
  ultimately show ?thesis
    using eval_resync_finding(2,3) [OF ev] start(1)
    by (auto simp: evaluateResyncLoop_def Let_def split: option.splits)
qed

interpretation resync: alert_delivery evaluateResyncLoop resync_ack resync_acked 1 resync_steady resync_covered
proof unfold_locales
  show "resync_covered (resync_ack s' f) j"
    if "evaluateResyncLoop s i = (s', Some f)" "resync_steady i j" for s i s' f j
    using resync_steady_not_dropped [OF that(2), of s] that
    by (simp add: resync_covered_def resync_ack_def acknowledgeResyncLoopFinding_def downCounterDropped_def resync_steady_def)
  show "snd (evaluateResyncLoop s i) = None" if "resync_covered s i" for s i
    using that by (auto simp: evaluateResyncLoop_def resync_covered_def Let_def split: option.splits)
  show "resync_covered (fst (evaluateResyncLoop s i)) j" if "resync_covered s i" "resync_steady i j" for s i j
    using that resync_steady_not_dropped [OF that(2), of s]
    by (simp add: resync_covered_def eval_resync_alerted resync_steady_def)
qed (rule resync_retry)

section \<open>A single sync attempt is not a loop\<close>

fun falling_edges :: "bool \<Rightarrow> bool list \<Rightarrow> nat" where
  "falling_edges prev [] = 0"
| "falling_edges prev (b # bs) = (if prev \<and> \<not> b then 1 else 0) + falling_edges b bs"

lemma falling_edges_mono: "(p \<longrightarrow> q) \<Longrightarrow> falling_edges p bs \<le> falling_edges q bs"
  by (cases bs) auto

lemma eval_resync_cycles:
  "rs_failedCycles (fst (evaluateResyncLoop s i)) \<le>
     rs_failedCycles s + (if rs_syncWasInProgress s \<and> \<not> ri_masterSyncInProgress i then 1 else 0) \<and>
   (rs_syncWasInProgress (fst (evaluateResyncLoop s i)) \<longrightarrow> ri_masterSyncInProgress i)"
  by (auto simp: evaluateResyncLoop_def Let_def resetResyncLoopState_def split: option.splits)

lemma resync_ack_fields [simp]:
  "rs_failedCycles (resync_ack s f) = rs_failedCycles s"
  "rs_syncWasInProgress (resync_ack s f) = rs_syncWasInProgress s"
  by (simp_all add: resync_ack_def acknowledgeResyncLoopFinding_def)

lemma resync_run_quiet:
  assumes "rs_failedCycles s + falling_edges (rs_syncWasInProgress s) (map (\<lambda>p. ri_masterSyncInProgress (fst p)) ps) < RESYNC_LOOP_MIN_CYCLES"
  shows "snd (run_polls evaluateResyncLoop resync_ack s ps) = []"
  using assms
proof (induction ps arbitrary: s)
  case (Cons p ps)
  obtain i e where p: "p = (i, e)" by (cases p)
  obtain s' r where ev: "evaluateResyncLoop s i = (s', r)" by (cases "evaluateResyncLoop s i")
  let ?edges = "\<lambda>b. falling_edges b (map (\<lambda>p. ri_masterSyncInProgress (fst p)) ps)"
  have cyc: "rs_failedCycles s' \<le> rs_failedCycles s + (if rs_syncWasInProgress s \<and> \<not> ri_masterSyncInProgress i then 1 else 0)"
    and was: "rs_syncWasInProgress s' \<longrightarrow> ri_masterSyncInProgress i"
    using eval_resync_cycles [of s i] ev by auto
  have less: "rs_failedCycles s' + ?edges (rs_syncWasInProgress s') < RESYNC_LOOP_MIN_CYCLES"
    using Cons.prems cyc falling_edges_mono [OF was, of "map (\<lambda>p. ri_masterSyncInProgress (fst p)) ps"]
    by (simp add: p split: if_splits)
  have "r = None"
    using eval_resync_finding(3) [of s i s'] ev less by (cases r) auto
  with Cons.IH [OF less] ev show ?case by (simp add: p poll_step_def split: prod.splits)
qed simp

section \<open>Properties\<close>

lemma stuck_of_fields:
  assumes "stuck_of byId r = Some x"
  shows "isReplica r" and "sr_replicaId x = cn_id r" and "sr_primaryId x = cn_master r"
    and "sr_reason x = primary_unknown \<longleftrightarrow> js_get byId (cn_master r) = None"
  using assms by (auto simp: stuck_of_def split: if_splits option.splits)

lemma stuck_of_iff:
  assumes "distinct (map cn_id nodes)" and "isReplica r"
  shows "stuck_of (nodes_by_id nodes) r = None \<longleftrightarrow>
           (\<exists>p \<in> set nodes. cn_id p = cn_master r \<and> isHealthyPrimary p)"
proof (cases "js_get (nodes_by_id nodes) (cn_master r)")
  case None
  with nodes_by_id_none [OF assms(1), of "cn_master r"] assms(2) have "cn_master r \<notin> cn_id ` set nodes"
    by (simp add: isReplica_def)
  with None assms(2) show ?thesis by (auto simp: stuck_of_def image_iff)
next
  case (Some p)
  note p = nodes_by_id_value [OF Some]
  have "q = p" if "q \<in> set nodes" "cn_id q = cn_master r" for q
    using nodes_by_id_get [OF assms(1) that(1)] that(2) p Some by simp
  with p Some assms(2) show ?thesis by (auto simp: stuck_of_def)
qed

lemma stuck_members: "x \<in> set (detectStuckReplicas nodes) \<longleftrightarrow> (\<exists>r \<in> set nodes. stuck_of (nodes_by_id nodes) r = Some x)"
  by (force simp: detectStuckReplicas_def map_filter_def Let_def)

text \<open>
  Which replicas of a view are stuck: in a view with distinct node ids, a replica naming a
  primary is reported exactly when no healthy primary of that id is present, and every report is
  of such a replica, with reason \<open>primary_unknown\<close> exactly when the id is absent from the view.
\<close>

theorem stuck_replicas_exact:
  assumes "distinct (map cn_id nodes)" and "r \<in> set nodes" and "isReplica r"
  shows "(\<exists>x \<in> set (detectStuckReplicas nodes). sr_replicaId x = cn_id r) =
           (\<not> (\<exists>p \<in> set nodes. cn_id p = cn_master r \<and> isHealthyPrimary p))
       \<and> (\<forall>x \<in> set (detectStuckReplicas nodes). sr_replicaId x = cn_id r \<longrightarrow>
            sr_primaryId x = cn_master r \<and> (sr_reason x = primary_unknown) = (cn_master r \<notin> cn_id ` set nodes))"
proof -
  have same: "q = r" if "q \<in> set nodes" "cn_id q = cn_id r" for q
    using that assms(1,2) by (auto simp: distinct_map dest: inj_onD)
  have mem: "stuck_of (nodes_by_id nodes) r = Some x"
    if "x \<in> set (detectStuckReplicas nodes)" "sr_replicaId x = cn_id r" for x
    using that same stuck_of_fields(2) by (metis stuck_members)
  have "(\<exists>x \<in> set (detectStuckReplicas nodes). sr_replicaId x = cn_id r) = (stuck_of (nodes_by_id nodes) r \<noteq> None)"
    using mem assms(2) stuck_of_fields(2) by (metis not_None_eq option.distinct(1) stuck_members)
  moreover have "sr_primaryId x = cn_master r \<and> (sr_reason x = primary_unknown) = (cn_master r \<notin> cn_id ` set nodes)"
    if "x \<in> set (detectStuckReplicas nodes)" "sr_replicaId x = cn_id r" for x
    using stuck_of_fields [OF mem [OF that]] nodes_by_id_none [OF assms(1), of "cn_master r"] assms(3)
    by (simp add: isReplica_def)
  ultimately show ?thesis by (simp add: stuck_of_iff [OF assms(1,3)])
qed

definition plain_node :: "string \<Rightarrow> string list \<Rightarrow> string \<Rightarrow> ClusterNode" where
  "plain_node nid flags primary = \<lparr>cn_id = nid, cn_address = nid, cn_flags = flags, cn_master = primary,
     cn_pingSent = 0, cn_pongReceived = 0, cn_configEpoch = 1, cn_linkState = ''connected'',
     cn_slots = [], cn_migratingSlots = None, cn_importingSlots = None, cn_hostname = None\<rparr>"

theorem stuck_replicas_exact_witness:
  "\<exists>x \<in> set (detectStuckReplicas [plain_node ''a'' [''master'', ''fail''] ''-'', plain_node ''b'' [''slave''] ''a'']).
     sr_replicaId x = ''b''"
proof -
  let ?nodes = "[plain_node ''a'' [''master'', ''fail''] ''-'', plain_node ''b'' [''slave''] ''a'']"
  let ?r = "plain_node ''b'' [''slave''] ''a''"
  have "distinct (map cn_id ?nodes)" "?r \<in> set ?nodes" "isReplica ?r"
    by (simp_all add: plain_node_def isReplica_def has_flag_def)
  from stuck_replicas_exact [OF this] show ?thesis
    by (simp add: isHealthyPrimary_def DEAD_PRIMARY_FLAGS_def has_flag_def) (simp add: plain_node_def)
qed

text \<open>
  Signatures do not collide: two stuck replicas whose ids carry no bar have the same
  signature only if they are the same (replica, primary) pair.
\<close>

theorem stuck_signature_inject:
  assumes "CHR ''|'' \<notin> set (sr_replicaId x)" and "CHR ''|'' \<notin> set (sr_replicaId y)"
    and "stuckReplicaSignature x = stuckReplicaSignature y"
  shows "sr_replicaId x = sr_replicaId y \<and> sr_primaryId x = sr_primaryId y"
  using assms by (simp add: stuckReplicaSignature_def sep_inject)

theorem stuck_signature_inject_witness:
  "\<forall>y \<in> set (detectStuckReplicas [plain_node ''b'' [''slave''] ''a'']).
     stuckReplicaSignature y = ''b|a'' \<and> sr_primaryId y = ''a''"
proof
  fix y assume y: "y \<in> set (detectStuckReplicas [plain_node ''b'' [''slave''] ''a''])"
  define x where "x = \<lparr>sr_replicaId = ''b'', sr_replicaAddress = ''b'', sr_primaryId = ''a'',
    sr_primaryAddress = None, sr_reason = primary_unknown\<rparr>"
  have "detectStuckReplicas [plain_node ''b'' [''slave''] ''a''] = [x]"
    by (simp add: detectStuckReplicas_def stuck_of_def nodes_by_id_def plain_node_def isReplica_def
        has_flag_def x_def map_filter_def)
  with y have "y = x" by simp
  then show "stuckReplicaSignature y = ''b|a'' \<and> sr_primaryId y = ''a''"
    using stuck_signature_inject [of x y] by (simp add: x_def stuckReplicaSignature_def)
qed

text \<open>
  A resync loop is reported only after the link has been down for at least 300 seconds and
  at least two sync attempts died; in particular polls in which fewer than two attempts end never
  alert, however long the first sync takes.
\<close>

theorem resync_single_attempt_quiet:
  assumes "falling_edges False (map (\<lambda>p. ri_masterSyncInProgress (fst p)) ps) < 2"
  shows "snd (run_polls evaluateResyncLoop resync_ack createResyncLoopState ps) = []"
  by (rule resync_run_quiet) (use assms in \<open>simp add: createResyncLoopState_def RESYNC_LOOP_MIN_CYCLES_def\<close>)

definition resync_at :: "int \<Rightarrow> bool \<Rightarrow> resync_input" where
  "resync_at t sync = \<lparr>ri_role = ''slave'', ri_masterLinkStatus = Some ''down'',
     ri_masterLinkDownSinceSeconds = None, ri_masterSyncInProgress = sync, ri_timestamp = t\<rparr>"

theorem resync_single_attempt_quiet_witness:
  "snd (run_polls evaluateResyncLoop resync_ack createResyncLoopState
     [(resync_at 0 True, True), (resync_at 400000 True, True), (resync_at 800000 False, True)]) = []"
  by (rule resync_single_attempt_quiet) (simp add: resync_at_def)

text \<open>
  A resync loop that stays down is delivered exactly once: however many emits fail, the first
  successful one delivers one alert and the polls that follow, in whatever sync phase, none.
\<close>

theorem resync_delivered_once:
  assumes "evaluateResyncLoop s i = (s1, Some f)" and "steady_run resync_steady i (js @ j # ks)"
  shows "length (snd (run_polls evaluateResyncLoop resync_ack s
           (zip (i # js) (replicate (Suc (length js)) False) @ (j, True) # zip ks oks))) = 1"
  by (rule resync.delivered_once [OF assms])

lemmas resync_eval = evaluateResyncLoop_def resync_linkDown_def resync_at_def createResyncLoopState_def
  downCounterDropped_def RESYNC_LOOP_MIN_CYCLES_def RESYNC_LOOP_MIN_WINDOW_MS_def Let_def

definition resync_looping :: resync_state where
  "resync_looping = fst (run_polls evaluateResyncLoop resync_ack createResyncLoopState
     [(resync_at 0 True, True), (resync_at 1000 False, True), (resync_at 2000 True, True)])"

theorem resync_delivered_once_witness:
  "length (snd (run_polls evaluateResyncLoop resync_ack resync_looping
     [(resync_at 400000 False, False), (resync_at 401000 True, True), (resync_at 402000 False, True)])) = 1"
proof -
  have "snd (evaluateResyncLoop resync_looping (resync_at 400000 False)) \<noteq> None"
    by (simp add: resync_looping_def resync_eval poll_step_def)
  then obtain s1 f where "evaluateResyncLoop resync_looping (resync_at 400000 False) = (s1, Some f)"
    by (metis not_Some_eq prod.collapse)
  from resync_delivered_once [OF this, of "[]" "resync_at 401000 True" "[resync_at 402000 False]" "[True]"]
  show ?thesis by (simp add: resync_steady_def resync_at_def resync_linkDown_def)
qed

end
