(* ===== verification/Failover_Churn.thy ===== *)
theory Failover_Churn
  imports Anomaly_Types Cluster_Types
begin

text \<open>
  Failover churn, failover-churn-detector.ts, and its service handler: shard ownership is read
  from a CLUSTER NODES snapshot and folded into per-shard windows of epoch bumps and owner
  flips. A shard key is kept as the sorted list of its slot ranges (the source joins their
  decimal texts, which is injective); node ids are compared as strings.
\<close>

definition FAILOVER_CHURN_WINDOW_MS :: int where "FAILOVER_CHURN_WINDOW_MS = 60000"
definition FAILOVER_CHURN_MIN_CHANGES :: nat where "FAILOVER_CHURN_MIN_CHANGES = 3"
definition SHARD_STATE_TTL_MS :: int where "SHARD_STATE_TTL_MS = 2 * FAILOVER_CHURN_WINDOW_MS"
definition ESCALATION_HORIZON_MS :: int where "ESCALATION_HORIZON_MS = 2 * FAILOVER_CHURN_WINDOW_MS"
definition EPOCH_TRAIL_LIMIT :: nat where "EPOCH_TRAIL_LIMIT = 6"

definition UNHEALTHY_PRIMARY_FLAGS :: "string list" where
  "UNHEALTHY_PRIMARY_FLAGS = [''fail'', ''fail?'', ''handshake'', ''noaddr'']"

lemmas churn_consts = FAILOVER_CHURN_WINDOW_MS_def FAILOVER_CHURN_MIN_CHANGES_def SHARD_STATE_TTL_MS_def
  ESCALATION_HORIZON_MS_def EPOCH_TRAIL_LIMIT_def

type_synonym shard_key = "(int \<times> int) list"

record ShardObservation =
  ob_shardKey :: shard_key
  ob_ownerId :: string
  ob_configEpoch :: int
  ob_resharding :: bool

record ShardChurnState =
  sc_lastEpoch :: int
  sc_lastOwner :: string
  sc_epochBumpTimes :: "int list"
  sc_ownerFlipTimes :: "int list"
  sc_epochTrail :: "int list"
  sc_lastFireAt :: "int option"
  sc_lastSeenAt :: int

record FailoverChurnFinding =
  fc_shardKey :: shard_key
  fc_ownerId :: string
  fc_changes :: nat
  fc_windowMs :: int
  fc_epochTrail :: "int list"
  fc_critical :: bool

definition unhealthy :: "ClusterNode \<Rightarrow> bool" where
  "unhealthy node = list_ex (has_flag node) UNHEALTHY_PRIMARY_FLAGS"

definition isLivePrimary :: "ClusterNode \<Rightarrow> bool" where
  "isLivePrimary node \<longleftrightarrow> has_flag node ''master'' \<and> length (cn_slots node) > 0 \<and> \<not> unhealthy node"

definition canonicalSlotKey :: "(int \<times> int) list \<Rightarrow> shard_key" where
  "canonicalSlotKey slots = sort_key fst slots"

definition isResharding :: "ClusterNode \<Rightarrow> bool" where
  "isResharding node =
     (let migrating = (case cn_migratingSlots node of None \<Rightarrow> [] | Some xs \<Rightarrow> xs);
          importing = (case cn_importingSlots node of None \<Rightarrow> [] | Some xs \<Rightarrow> xs)
      in length migrating > 0 \<or> length importing > 0)"

definition observation_of :: "ClusterNode \<Rightarrow> ShardObservation" where
  "observation_of n = \<lparr>ob_shardKey = canonicalSlotKey (cn_slots n), ob_ownerId = cn_id n,
     ob_configEpoch = cn_configEpoch n, ob_resharding = isResharding n\<rparr>"

definition outranks :: "ShardObservation \<Rightarrow> ShardObservation \<Rightarrow> bool" where
  "outranks a b \<longleftrightarrow> ob_configEpoch a > ob_configEpoch b \<or>
     (ob_configEpoch a = ob_configEpoch b \<and> ob_ownerId a < ob_ownerId b)"

definition ownership_step ::
  "(shard_key, ShardObservation) jsmap \<Rightarrow> ClusterNode \<Rightarrow> (shard_key, ShardObservation) jsmap" where
  "ownership_step byShard candidate =
     (if \<not> isLivePrimary candidate then byShard
      else let observation = observation_of candidate;
               takesOwnership = (case js_get byShard (ob_shardKey observation) of
                                   None \<Rightarrow> True | Some existing \<Rightarrow> outranks observation existing)
           in if takesOwnership then js_set (ob_shardKey observation) observation byShard else byShard)"

definition extractShardOwnership :: "ClusterNode list \<Rightarrow> ShardObservation list" where
  "extractShardOwnership nodes = map snd (foldl ownership_step [] nodes)"

definition unhealthyClaimantIds :: "ClusterNode list \<Rightarrow> string list" where
  "unhealthyClaimantIds nodes =
     js_uniq (map cn_id (filter (\<lambda>n. has_flag n ''master'' \<and> length (cn_slots n) > 0 \<and> unhealthy n) nodes))"

definition inWindow :: "int list \<Rightarrow> int \<Rightarrow> int list" where
  "inWindow ts timestamp = within_ms FAILOVER_CHURN_WINDOW_MS timestamp ts"

text \<open>
  The body of the observation loop for a shard already known: \<open>churn_fold\<close> records a bump or a flip
  and trims the windows, after the guards of \<open>churn_step\<close>.
\<close>

definition churn_fold :: "int \<Rightarrow> ShardChurnState \<Rightarrow> ShardObservation \<Rightarrow> ShardChurnState" where
  "churn_fold timestamp e0 observation =
     (let e1 = (if ob_configEpoch observation > sc_lastEpoch e0
                then e0\<lparr>sc_epochBumpTimes := sc_epochBumpTimes e0 @ [timestamp],
                        sc_epochTrail := push_capped EPOCH_TRAIL_LIMIT (ob_configEpoch observation) (sc_epochTrail e0)\<rparr>
                else e0);
          e2 = (if ob_ownerId observation \<noteq> sc_lastOwner e1
                then e1\<lparr>sc_ownerFlipTimes := sc_ownerFlipTimes e1 @ [timestamp]\<rparr> else e1)
      in e2\<lparr>sc_lastEpoch := ob_configEpoch observation, sc_lastOwner := ob_ownerId observation,
            sc_epochBumpTimes := inWindow (sc_epochBumpTimes e2) timestamp,
            sc_ownerFlipTimes := inWindow (sc_ownerFlipTimes e2) timestamp\<rparr>)"

definition churn_step ::
  "string list \<Rightarrow> int \<Rightarrow> ShardChurnState \<Rightarrow> ShardObservation \<Rightarrow> ShardChurnState \<times> FailoverChurnFinding option" where
  "churn_step flappingClaimants timestamp existing observation =
     (let e0 = existing\<lparr>sc_lastSeenAt := timestamp\<rparr> in
      if ob_configEpoch observation < sc_lastEpoch e0 then (e0, None)
      else if ob_configEpoch observation = sc_lastEpoch e0 \<and> ob_ownerId observation \<noteq> sc_lastOwner e0 \<and>
              sc_lastOwner e0 \<in> set flappingClaimants then (e0, None)
      else if ob_resharding observation then
        (e0\<lparr>sc_lastEpoch := ob_configEpoch observation, sc_lastOwner := ob_ownerId observation\<rparr>, None)
      else
        let e3 = churn_fold timestamp e0 observation;
            changes = max (length (sc_epochBumpTimes e3)) (length (sc_ownerFlipTimes e3))
        in if changes < FAILOVER_CHURN_MIN_CHANGES then (e3, None)
           else
             let continued = (case sc_lastFireAt e3 of None \<Rightarrow> False
                              | Some t \<Rightarrow> timestamp - t \<le> ESCALATION_HORIZON_MS)
             in (e3, Some \<lparr>fc_shardKey = ob_shardKey observation, fc_ownerId = ob_ownerId observation,
                           fc_changes = changes, fc_windowMs = FAILOVER_CHURN_WINDOW_MS,
                           fc_epochTrail = sc_epochTrail e3, fc_critical = continued\<rparr>))"

definition new_shard :: "int \<Rightarrow> ShardObservation \<Rightarrow> ShardChurnState" where
  "new_shard timestamp observation =
     \<lparr>sc_lastEpoch = ob_configEpoch observation, sc_lastOwner = ob_ownerId observation,
      sc_epochBumpTimes = [], sc_ownerFlipTimes = [], sc_epochTrail = [ob_configEpoch observation],
      sc_lastFireAt = None, sc_lastSeenAt = timestamp\<rparr>"

fun churn_loop ::
  "string list \<Rightarrow> int \<Rightarrow> (shard_key, ShardChurnState) jsmap \<Rightarrow> ShardObservation list
   \<Rightarrow> (shard_key, ShardChurnState) jsmap \<times> FailoverChurnFinding list" where
  "churn_loop flapping timestamp state [] = (state, [])"
| "churn_loop flapping timestamp state (ob # obs) =
     (case js_get state (ob_shardKey ob) of
        None \<Rightarrow> churn_loop flapping timestamp (js_set (ob_shardKey ob) (new_shard timestamp ob) state) obs
      | Some existing \<Rightarrow>
          let (e, r) = churn_step flapping timestamp existing ob;
              (state', fs) = churn_loop flapping timestamp (js_set (ob_shardKey ob) e state) obs
          in (state', (case r of None \<Rightarrow> fs | Some f \<Rightarrow> f # fs)))"

definition evaluateFailoverChurn ::
  "(shard_key, ShardChurnState) jsmap \<Rightarrow> ClusterNode list \<Rightarrow> int
   \<Rightarrow> (shard_key, ShardChurnState) jsmap \<times> FailoverChurnFinding list" where
  "evaluateFailoverChurn state nodes timestamp =
     (let observations = extractShardOwnership nodes;
          flapping = unhealthyClaimantIds nodes;
          seenShards = map ob_shardKey observations;
          (state', findings) = churn_loop flapping timestamp state observations
      in (filter (\<lambda>(k, s). k \<in> set seenShards \<or> \<not> timestamp - sc_lastSeenAt s > SHARD_STATE_TTL_MS) state', findings))"

definition acknowledgeChurnFinding ::
  "(shard_key, ShardChurnState) jsmap \<Rightarrow> shard_key \<Rightarrow> int \<Rightarrow> (shard_key, ShardChurnState) jsmap" where
  "acknowledgeChurnFinding state shardKey timestamp =
     (case js_get state shardKey of
        None \<Rightarrow> state
      | Some s \<Rightarrow> js_set shardKey
          (s\<lparr>sc_epochBumpTimes := [], sc_ownerFlipTimes := [], sc_epochTrail := [sc_lastEpoch s],
             sc_lastFireAt := Some timestamp\<rparr>) state)"

text \<open>The handler: every finding becomes an event and is acknowledged after its emit.\<close>

definition detectFailoverChurn ::
  "(shard_key, ShardChurnState) jsmap \<Rightarrow> string \<Rightarrow> int \<Rightarrow> ClusterNode list \<Rightarrow> (nat \<Rightarrow> string)
   \<Rightarrow> (shard_key, ShardChurnState) jsmap \<times> AnomalyEvent list" where
  "detectFailoverChurn state connectionId timestamp nodes uuid =
     (let (state', findings) = evaluateFailoverChurn state nodes timestamp
      in (foldl (\<lambda>s f. acknowledgeChurnFinding s (fc_shardKey f) timestamp) state' findings,
          map (\<lambda>(n, f). state_event (uuid n) timestamp FAILOVER_CHURN SPIKE
                 (if fc_critical f then CRITICAL else WARNING) (real (fc_changes f)) 0
                 (real FAILOVER_CHURN_MIN_CHANGES) connectionId)
            (List.enumerate 0 findings)))"

section \<open>Ownership does not depend on the order of the view\<close>

definition shard_winner :: "ClusterNode list \<Rightarrow> ShardObservation \<Rightarrow> bool" where
  "shard_winner nodes ob \<longleftrightarrow> (\<exists>n \<in> set nodes. isLivePrimary n \<and> ob = observation_of n) \<and>
     (\<forall>n \<in> set nodes. isLivePrimary n \<longrightarrow> ob_shardKey (observation_of n) = ob_shardKey ob \<longrightarrow>
        \<not> outranks (observation_of n) ob)"

lemma outranks_trans: "outranks a b \<Longrightarrow> outranks b c \<Longrightarrow> outranks a c"
  by (auto simp: outranks_def)

lemma outranks_total: "ob_ownerId a \<noteq> ob_ownerId b \<Longrightarrow> outranks a b \<or> outranks b a"
  by (auto simp: outranks_def)

lemma outranks_irrefl [simp]: "\<not> outranks a a"
  by (simp add: outranks_def)

definition ownership_inv :: "ClusterNode list \<Rightarrow> (shard_key, ShardObservation) jsmap \<Rightarrow> bool" where
  "ownership_inv nodes m \<longleftrightarrow> wf_map m \<and>
     (\<forall>k ob. js_get m k = Some ob \<longrightarrow> ob_shardKey ob = k \<and> shard_winner nodes ob) \<and>
     (\<forall>n \<in> set nodes. isLivePrimary n \<longrightarrow> js_get m (ob_shardKey (observation_of n)) \<noteq> None)"

lemma ownership_inv_step:
  assumes inv: "ownership_inv nodes m"
  shows "ownership_inv (nodes @ [n]) (ownership_step m n)"
proof (cases "isLivePrimary n")
  case False
  with inv show ?thesis by (auto simp: ownership_inv_def ownership_step_def shard_winner_def)
next
  case True
  define ob where "ob = observation_of n"
  have winner_keep: "shard_winner (nodes @ [n]) w"
    if "shard_winner nodes w" "ob_shardKey w = ob_shardKey ob \<longrightarrow> \<not> outranks ob w" for w
    using that by (auto simp: shard_winner_def ob_def)
  show ?thesis
  proof (cases "js_get m (ob_shardKey ob)")
    case None
    have "shard_winner (nodes @ [n]) ob"
      using inv None True by (auto simp: shard_winner_def ob_def ownership_inv_def)
    with inv None True winner_keep show ?thesis
      by (auto simp: ownership_inv_def ownership_step_def ob_def [symmetric] js_simps)
  next
    case (Some old)
    with inv have old: "ob_shardKey old = ob_shardKey ob" "shard_winner nodes old" by (auto simp: ownership_inv_def)
    show ?thesis
    proof (cases "outranks ob old")
      case True2: True
      have "\<not> outranks (observation_of x) ob"
        if "x \<in> set nodes" "isLivePrimary x" "ob_shardKey (observation_of x) = ob_shardKey ob" for x
        using that old True2 outranks_trans by (fastforce simp: shard_winner_def)
      then have "shard_winner (nodes @ [n]) ob" using True by (auto simp: shard_winner_def ob_def)
      with inv Some True True2 winner_keep show ?thesis
        by (auto simp: ownership_inv_def ownership_step_def ob_def [symmetric] js_simps)
    next
      case False
      have "shard_winner (nodes @ [n]) w" if "js_get m k = Some w" for k w
        using that inv Some False by (intro winner_keep) (auto simp: ownership_inv_def)
      with inv Some True False show ?thesis
        by (auto simp: ownership_inv_def ownership_step_def ob_def [symmetric])
    qed
  qed
qed

lemma ownership_inv_all: "ownership_inv nodes (foldl ownership_step [] nodes)"
proof (induction nodes rule: rev_induct)
  case Nil
  show ?case by (simp add: ownership_inv_def)
next
  case (snoc n nodes)
  from ownership_inv_step [OF this] show ?case by simp
qed

lemma extract_are_winners:
  assumes "distinct (map cn_id nodes)"
  shows "ob \<in> set (extractShardOwnership nodes) \<longleftrightarrow> shard_winner nodes ob"
proof
  let ?m = "foldl ownership_step [] nodes"
  note inv = ownership_inv_all [of nodes, unfolded ownership_inv_def]
  {
    assume "ob \<in> set (extractShardOwnership nodes)"
    then obtain k where "(k, ob) \<in> set ?m" by (auto simp: extractShardOwnership_def)
    with inv show "shard_winner nodes ob" by (auto simp: js_get_in_set)
  next
    assume w: "shard_winner nodes ob"
    then obtain n where n: "n \<in> set nodes" "isLivePrimary n" "ob = observation_of n" by (auto simp: shard_winner_def)
    with inv obtain ob' where g: "js_get ?m (ob_shardKey ob) = Some ob'" by auto
    with inv have w': "shard_winner nodes ob'" "ob_shardKey ob' = ob_shardKey ob" by auto
    then obtain n' where n': "n' \<in> set nodes" "isLivePrimary n'" "ob' = observation_of n'" by (auto simp: shard_winner_def)
    have "ob_ownerId ob = ob_ownerId ob'"
      using w w' n n' outranks_total [of ob ob'] by (auto simp: shard_winner_def)
    then have "cn_id n = cn_id n'" using n n' by (simp add: observation_of_def)
    then have "n = n'" using assms n(1) n'(1) by (auto simp: distinct_map dest: inj_onD)
    with n n' g have "js_get ?m (ob_shardKey ob) = Some ob" by simp
    then have "(ob_shardKey ob, ob) \<in> set ?m" by (rule map_of_SomeD)
    then show "ob \<in> set (extractShardOwnership nodes)" by (force simp: extractShardOwnership_def)
  }
qed

lemma extract_one_owner:
  assumes "distinct (map cn_id nodes)" and "m \<in> set nodes" "isLivePrimary m"
  shows "\<exists>!ob. ob \<in> set (extractShardOwnership nodes) \<and> ob_shardKey ob = canonicalSlotKey (cn_slots m)"
proof -
  let ?m = "foldl ownership_step [] nodes" and ?k = "canonicalSlotKey (cn_slots m)"
  note inv = ownership_inv_all [of nodes, unfolded ownership_inv_def]
  have key: "ob_shardKey (observation_of m) = ?k" by (simp add: observation_of_def)
  have "js_get ?m ?k \<noteq> None" using inv assms(2,3) by (simp flip: key)
  then obtain ob where ob: "js_get ?m ?k = Some ob" by auto
  then have "(?k, ob) \<in> set ?m" by (rule map_of_SomeD)
  then have "ob \<in> set (extractShardOwnership nodes)" by (force simp: extractShardOwnership_def)
  moreover have "ob_shardKey ob = ?k" using inv ob by blast
  moreover have "ob' = ob" if "ob' \<in> set (extractShardOwnership nodes)" "ob_shardKey ob' = ?k" for ob'
  proof -
    from that(1) obtain k where "(k, ob') \<in> set ?m" by (auto simp: extractShardOwnership_def)
    with inv have get: "js_get ?m k = Some ob'" by (auto simp: js_get_in_set)
    with inv have "ob_shardKey ob' = k" by blast
    with that(2) get ob show ?thesis by simp
  qed
  ultimately show ?thesis by blast
qed

text \<open>
  C33: Shard ownership does not depend on the line order of CLUSTER NODES: two views with the same
  nodes (each id once) attribute every shard to the same primary, the one of highest config epoch
  and, among equals, of smallest id; every shard that a live primary claims has exactly one owner.
  So reordering alone never counts as an owner flip.
\<close>

theorem ownership_order_independent:
  assumes "distinct (map cn_id nodes)" and "mset nodes' = mset nodes"
  shows "set (extractShardOwnership nodes') = set (extractShardOwnership nodes)
    \<and> (\<forall>ob \<in> set (extractShardOwnership nodes). \<exists>n \<in> set nodes. isLivePrimary n \<and> ob = observation_of n \<and>
         (\<forall>m \<in> set nodes. isLivePrimary m \<and> canonicalSlotKey (cn_slots m) = canonicalSlotKey (cn_slots n) \<longrightarrow>
            cn_configEpoch m < cn_configEpoch n \<or> cn_configEpoch m = cn_configEpoch n \<and> cn_id n \<le> cn_id m))
    \<and> (\<forall>m \<in> set nodes. isLivePrimary m \<longrightarrow>
         (\<exists>!ob. ob \<in> set (extractShardOwnership nodes) \<and> ob_shardKey ob = canonicalSlotKey (cn_slots m)))"
proof -
  have "distinct (map cn_id nodes')"
    using assms by (metis mset_map mset_eq_imp_distinct_iff)
  moreover have "set nodes' = set nodes" using assms(2) by (metis set_mset_mset)
  ultimately have same: "set (extractShardOwnership nodes') = set (extractShardOwnership nodes)"
    using extract_are_winners [OF assms(1)] extract_are_winners [of nodes'] by (auto simp: shard_winner_def)
  have owner: "\<exists>n \<in> set nodes. isLivePrimary n \<and> ob = observation_of n \<and>
      (\<forall>m \<in> set nodes. isLivePrimary m \<and> canonicalSlotKey (cn_slots m) = canonicalSlotKey (cn_slots n) \<longrightarrow>
         cn_configEpoch m < cn_configEpoch n \<or> cn_configEpoch m = cn_configEpoch n \<and> cn_id n \<le> cn_id m)"
    if "ob \<in> set (extractShardOwnership nodes)" for ob
  proof -
    from that have w: "shard_winner nodes ob" by (simp add: extract_are_winners [OF assms(1)])
    then obtain n where n: "n \<in> set nodes" "isLivePrimary n" "ob = observation_of n" by (auto simp: shard_winner_def)
    have "cn_configEpoch m < cn_configEpoch n \<or> cn_configEpoch m = cn_configEpoch n \<and> cn_id n \<le> cn_id m"
      if "m \<in> set nodes" "isLivePrimary m" "canonicalSlotKey (cn_slots m) = canonicalSlotKey (cn_slots n)" for m
    proof -
      have "\<not> outranks (observation_of m) ob" using w that n(3) by (auto simp: shard_winner_def observation_of_def)
      then show ?thesis by (auto simp: outranks_def observation_of_def n(3) not_less)
    qed
    with n show ?thesis by blast
  qed
  have one: "\<exists>!ob. ob \<in> set (extractShardOwnership nodes) \<and> ob_shardKey ob = canonicalSlotKey (cn_slots m)"
    if m: "m \<in> set nodes" "isLivePrimary m" for m
    by (rule extract_one_owner [OF assms(1) m])
  from same owner one show ?thesis by blast
qed

definition primary_node :: "string \<Rightarrow> int \<Rightarrow> (int \<times> int) list \<Rightarrow> ClusterNode" where
  "primary_node nid epoch slots = \<lparr>cn_id = nid, cn_address = nid, cn_flags = [''master''], cn_master = ''-'',
     cn_pingSent = 0, cn_pongReceived = 0, cn_configEpoch = epoch, cn_linkState = ''connected'',
     cn_slots = slots, cn_migratingSlots = None, cn_importingSlots = None, cn_hostname = None\<rparr>"

theorem ownership_order_independent_witness:
  "set (extractShardOwnership [primary_node ''b'' 7 [(0, 9)], primary_node ''a'' 7 [(0, 9)]])
     = set (extractShardOwnership [primary_node ''a'' 7 [(0, 9)], primary_node ''b'' 7 [(0, 9)]])"
  by (rule conjunct1 [OF ownership_order_independent]) (simp_all add: primary_node_def add_mset_commute)

section \<open>The churn window of one shard\<close>

definition shard_ok :: "ShardChurnState \<Rightarrow> bool" where
  "shard_ok s \<longleftrightarrow> sc_epochTrail s \<noteq> [] \<and> length (sc_epochTrail s) \<le> EPOCH_TRAIL_LIMIT"

lemma push_capped_not_Nil: "0 < n \<Longrightarrow> push_capped n x xs \<noteq> []"
  by (cases xs) (auto simp: push_capped_def Let_def)

lemma churn_step_cases:
  assumes "churn_step fl t s ob = (s', r)"
  obtains (skip) "s' = s\<lparr>sc_lastSeenAt := t\<rparr>" and "r = None"
  | (reshard) "s' = s\<lparr>sc_lastSeenAt := t, sc_lastEpoch := ob_configEpoch ob, sc_lastOwner := ob_ownerId ob\<rparr>" and "r = None"
  | (fold) "s' = churn_fold t (s\<lparr>sc_lastSeenAt := t\<rparr>) ob"
      and "\<And>f. r = Some f \<Longrightarrow>
             fc_changes f = max (length (sc_epochBumpTimes s')) (length (sc_ownerFlipTimes s')) \<and>
             FAILOVER_CHURN_MIN_CHANGES \<le> fc_changes f"
  using assms that unfolding churn_step_def Let_def
  by (auto simp: not_less simp del: max_less_iff_conj split: if_split_asm)

lemma churn_fold_ok: "shard_ok s \<Longrightarrow> shard_ok (churn_fold t s ob)"
  by (simp add: churn_fold_def shard_ok_def Let_def length_push_capped push_capped_not_Nil EPOCH_TRAIL_LIMIT_def)

lemma churn_step_ok:
  assumes "shard_ok s" and "churn_step fl t s ob = (s', r)"
  shows "shard_ok s'"
  using assms(2)
  by (cases rule: churn_step_cases) (use assms(1) in \<open>simp_all add: churn_fold_ok shard_ok_def\<close>,
      use assms(1) in \<open>simp add: churn_fold_ok [unfolded shard_ok_def] shard_ok_def\<close>)

lemma new_shard_ok: "shard_ok (new_shard t ob)"
  by (simp add: shard_ok_def new_shard_def EPOCH_TRAIL_LIMIT_def)

text \<open>A poll at which the shard's epoch advances or its owner changes, for the shard's state.\<close>

definition change_poll :: "ShardChurnState \<Rightarrow> ShardObservation \<Rightarrow> bool" where
  "change_poll s ob \<longleftrightarrow> sc_lastEpoch s < ob_configEpoch ob \<or> sc_lastOwner s \<noteq> ob_ownerId ob"

fun shard_run ::
  "ShardChurnState \<Rightarrow> (string list \<times> int \<times> ShardObservation) list \<Rightarrow> FailoverChurnFinding list \<times> nat" where
  "shard_run s [] = ([], 0)"
| "shard_run s ((fl, t, ob) # ps) =
     (let (s', r) = churn_step fl t s ob; (fs, n) = shard_run s' ps
      in ((case r of None \<Rightarrow> fs | Some f \<Rightarrow> f # fs), (if change_poll s ob then Suc n else n)))"

lemma inWindow_length [simp]: "length (inWindow ts t) \<le> length ts"
  by (simp add: inWindow_def)

lemma inWindow_snoc_length: "length (inWindow (ts @ [x]) t) \<le> Suc (length ts)"
  using inWindow_length [of "ts @ [x]" t] by simp

lemma churn_fold_counts:
  assumes "length (sc_epochBumpTimes s) \<le> k" and "length (sc_ownerFlipTimes s) \<le> k"
    and "k' = (if change_poll s ob then Suc k else k)"
  shows "length (sc_epochBumpTimes (churn_fold t s ob)) \<le> k'" and "length (sc_ownerFlipTimes (churn_fold t s ob)) \<le> k'"
  using assms inWindow_snoc_length [of "sc_epochBumpTimes s" t t] inWindow_length [of "sc_epochBumpTimes s" t]
    inWindow_snoc_length [of "sc_ownerFlipTimes s" t t] inWindow_length [of "sc_ownerFlipTimes s" t]
  by (simp_all add: churn_fold_def change_poll_def Let_def del: inWindow_length)

lemma churn_step_counts:
  assumes "length (sc_epochBumpTimes s) \<le> k" and "length (sc_ownerFlipTimes s) \<le> k"
    and st: "churn_step fl t s ob = (s', r)" and k': "k' = (if change_poll s ob then Suc k else k)"
  shows "length (sc_epochBumpTimes s') \<le> k' \<and> length (sc_ownerFlipTimes s') \<le> k' \<and>
         (case r of None \<Rightarrow> True | Some f \<Rightarrow> FAILOVER_CHURN_MIN_CHANGES \<le> fc_changes f \<and> fc_changes f \<le> k')"
  using st
proof (cases rule: churn_step_cases)
  case fold
  have "change_poll (s\<lparr>sc_lastSeenAt := t\<rparr>) ob = change_poll s ob" by (simp add: change_poll_def)
  with churn_fold_counts [of "s\<lparr>sc_lastSeenAt := t\<rparr>" k k' ob t] assms fold show ?thesis
    by (cases r) auto
qed (use assms in auto)

lemma shard_run_counts:
  assumes "length (sc_epochBumpTimes s) \<le> k" and "length (sc_ownerFlipTimes s) \<le> k"
  shows "\<forall>f \<in> set (fst (shard_run s ps)). FAILOVER_CHURN_MIN_CHANGES \<le> fc_changes f \<and> fc_changes f \<le> k + snd (shard_run s ps)"
  using assms
proof (induction ps arbitrary: s k)
  case (Cons p ps)
  obtain fl t ob where p: "p = (fl, t, ob)" by (cases p)
  obtain s' r where st: "churn_step fl t s ob = (s', r)" by (cases "churn_step fl t s ob")
  define k' where "k' = (if change_poll s ob then Suc k else k)"
  note counts = churn_step_counts [OF Cons.prems st k'_def]
  obtain fs n where run: "shard_run s' ps = (fs, n)" by (cases "shard_run s' ps")
  have "\<forall>f \<in> set fs. FAILOVER_CHURN_MIN_CHANGES \<le> fc_changes f \<and> fc_changes f \<le> k' + n"
    using Cons.IH [of s' k'] counts run by simp
  with counts st run show ?case
    by (cases r) (auto simp: p k'_def split: if_splits)
qed simp

text \<open>
  C34: A single healthy failover never fires: from the first sight of a shard, as long as fewer than
  three polls saw its epoch advance or its owner change, no finding is produced; and every finding
  reports between three and that many changes.
\<close>

theorem churn_needs_three_changes:
  "(\<forall>f \<in> set (fst (shard_run (new_shard t0 ob0) ps)). 3 \<le> fc_changes f \<and> fc_changes f \<le> snd (shard_run (new_shard t0 ob0) ps)) \<and>
   (snd (shard_run (new_shard t0 ob0) ps) < 3 \<longrightarrow> fst (shard_run (new_shard t0 ob0) ps) = [])"
proof -
  have all: "\<forall>f \<in> set (fst (shard_run (new_shard t0 ob0) ps)). 3 \<le> fc_changes f \<and> fc_changes f \<le> snd (shard_run (new_shard t0 ob0) ps)"
    using shard_run_counts [of "new_shard t0 ob0" 0 ps] by (simp add: new_shard_def FAILOVER_CHURN_MIN_CHANGES_def)
  then have "snd (shard_run (new_shard t0 ob0) ps) < 3 \<longrightarrow> fst (shard_run (new_shard t0 ob0) ps) = []"
    by (cases "fst (shard_run (new_shard t0 ob0) ps)") auto
  with all show ?thesis by blast
qed

definition churn_ob :: "string \<Rightarrow> int \<Rightarrow> ShardObservation" where
  "churn_ob owner epoch = \<lparr>ob_shardKey = [(0, 5460)], ob_ownerId = owner, ob_configEpoch = epoch, ob_resharding = False\<rparr>"

lemmas churn_eval = churn_step_def churn_fold_def new_shard_def churn_ob_def change_poll_def churn_consts inWindow_def within_ms_def
  push_capped_def Let_def

theorem churn_needs_three_changes_witness:
  "fst (shard_run (new_shard 0 (churn_ob ''a'' 1)) [([], 1000, churn_ob ''b'' 2), ([], 2000, churn_ob ''b'' 2), ([], 3000, churn_ob ''a'' 3)]) = []"
  using churn_needs_three_changes [of 0 "churn_ob ''a'' 1"
      "[([], 1000, churn_ob ''b'' 2), ([], 2000, churn_ob ''b'' 2), ([], 3000, churn_ob ''a'' 3)]"]
  by (simp add: churn_eval)

text \<open>
  Health flaps are not elections: an observation at a lower epoch, or at the same epoch under
  another owner while the previous owner still claims the slots unhealthily, changes nothing of
  the shard's window but the time it was last seen.
\<close>

theorem churn_ignores_flaps:
  assumes "ob_configEpoch ob < sc_lastEpoch s \<or>
     (ob_configEpoch ob = sc_lastEpoch s \<and> ob_ownerId ob \<noteq> sc_lastOwner s \<and> sc_lastOwner s \<in> set flapping)"
  shows "churn_step flapping t s ob = (s\<lparr>sc_lastSeenAt := t\<rparr>, None)"
  using assms by (auto simp: churn_step_def Let_def)

theorem churn_ignores_flaps_witness:
  "churn_step [''a''] 5 (new_shard 0 (churn_ob ''a'' 4)) (churn_ob ''b'' 4) = ((new_shard 0 (churn_ob ''a'' 4))\<lparr>sc_lastSeenAt := 5\<rparr>, None)"
  by (rule churn_ignores_flaps) (simp add: churn_ob_def new_shard_def)

section \<open>The state map\<close>

definition churn_inv :: "(shard_key, ShardChurnState) jsmap \<Rightarrow> bool" where
  "churn_inv m \<longleftrightarrow> wf_map m \<and> (\<forall>k s. js_get m k = Some s \<longrightarrow> shard_ok s)"

lemma churn_inv_set: "churn_inv m \<Longrightarrow> shard_ok s \<Longrightarrow> churn_inv (js_set k s m)"
  by (auto simp: churn_inv_def js_simps split: if_splits)

lemma churn_loop_inv: "churn_inv m \<Longrightarrow> churn_inv (fst (churn_loop fl t m obs))"
proof (induction fl t m obs rule: churn_loop.induct)
  case (2 fl t m ob obs)
  show ?case
  proof (cases "js_get m (ob_shardKey ob)")
    case None
    with 2(1) [OF None] 2(3) show ?thesis by (simp add: churn_inv_set new_shard_ok)
  next
    case (Some s)
    then have "shard_ok (fst (churn_step fl t s ob))"
      using 2(3) by (auto simp: churn_inv_def intro: churn_step_ok [OF _ surjective_pairing])
    with 2(2) [OF Some] 2(3) Some show ?thesis
      by (cases "churn_step fl t s ob"; cases "churn_loop fl t (js_set (ob_shardKey ob) (fst (churn_step fl t s ob)) m) obs")
        (simp add: churn_inv_set)
  qed
qed simp

lemma evaluate_churn_inv: "churn_inv m \<Longrightarrow> churn_inv (fst (evaluateFailoverChurn m nodes t))"
  using churn_loop_inv [of m "unhealthyClaimantIds nodes" t "extractShardOwnership nodes"]
  by (auto simp: evaluateFailoverChurn_def Let_def churn_inv_def js_get_filter case_prod_beta
      split: option.splits if_splits)

lemma ack_churn_inv: "churn_inv m \<Longrightarrow> churn_inv (acknowledgeChurnFinding m k t)"
  by (auto simp: acknowledgeChurnFinding_def shard_ok_def EPOCH_TRAIL_LIMIT_def split: option.split intro!: churn_inv_set)

text \<open>
  The churn state stays bounded: a handler call keeps every shard's epoch trail between one and
  six entries, holds each shard once, and forgets a shard that is absent from the view and was last
  seen more than two windows ago.
\<close>

theorem churn_state_bounded:
  assumes "churn_inv m"
  shows "churn_inv (fst (detectFailoverChurn m c t nodes uuid)) \<and>
    (\<forall>k s. js_get (fst (evaluateFailoverChurn m nodes t)) k = Some s \<longrightarrow>
       k \<in> ob_shardKey ` set (extractShardOwnership nodes) \<or> t - sc_lastSeenAt s \<le> 120000)"
proof
  have fold: "churn_inv (foldl (\<lambda>s f. acknowledgeChurnFinding s (fc_shardKey f) t) m' fs)" if "churn_inv m'" for m' fs
    using that by (induction fs arbitrary: m') (auto intro: ack_churn_inv)
  from fold [OF evaluate_churn_inv [OF assms]] show "churn_inv (fst (detectFailoverChurn m c t nodes uuid))"
    by (simp add: detectFailoverChurn_def Let_def case_prod_beta)
  show "\<forall>k s. js_get (fst (evaluateFailoverChurn m nodes t)) k = Some s \<longrightarrow>
       k \<in> ob_shardKey ` set (extractShardOwnership nodes) \<or> t - sc_lastSeenAt s \<le> 120000"
    using churn_loop_inv [OF assms, of "unhealthyClaimantIds nodes" t "extractShardOwnership nodes"]
    by (auto simp: evaluateFailoverChurn_def Let_def churn_inv_def js_get_filter case_prod_beta churn_consts
        split: option.splits if_splits)
qed

theorem churn_state_bounded_witness:
  "churn_inv [] \<and> churn_inv (fst (detectFailoverChurn [] ''c'' 5 [] (\<lambda>n. ''u'')))"
  using churn_state_bounded [of "[]" "''c''" 5 "[]" "\<lambda>n. ''u''"] by (simp add: churn_inv_def)

end
