(* ===== verification/Duplicate_Primary.thy ===== *)
theory Duplicate_Primary
  imports Failover_Churn
begin

text \<open>
  Split-brain detection, duplicate-primary-detector.ts, and its service handler: every pair of live
  primaries that claim overlapping slots. The file repeats the liveness test of
  failover-churn-detector.ts, whose definition is shared here.
\<close>

record ConflictingPrimary =
  dp_id :: string
  dp_address :: string
  dp_configEpoch :: int

record DuplicatePrimaryConflict =
  dc_slotStart :: int
  dc_slotEnd :: int
  dc_first :: ConflictingPrimary
  dc_second :: ConflictingPrimary
  dc_phantomId :: string

text \<open>The two nested loops, each returning from inside on the first overlap.\<close>

fun overlap_with :: "int \<times> int \<Rightarrow> (int \<times> int) list \<Rightarrow> (int \<times> int) option" where
  "overlap_with a [] = None"
| "overlap_with (aStart, aEnd) ((bStart, bEnd) # bs) =
     (let start = max aStart bStart; end' = min aEnd bEnd
      in if start \<le> end' then Some (start, end') else overlap_with (aStart, aEnd) bs)"

fun firstOverlappingRange :: "(int \<times> int) list \<Rightarrow> (int \<times> int) list \<Rightarrow> (int \<times> int) option" where
  "firstOverlappingRange [] bs = None"
| "firstOverlappingRange (a # as) bs =
     (case overlap_with a bs of Some r \<Rightarrow> Some r | None \<Rightarrow> firstOverlappingRange as bs)"

definition conflicting :: "ClusterNode \<Rightarrow> ConflictingPrimary" where
  "conflicting n = \<lparr>dp_id = cn_id n, dp_address = cn_address n, dp_configEpoch = cn_configEpoch n\<rparr>"

text \<open>\<open>sort\<close> with \<open>y.configEpoch - x.configEpoch\<close> is stable and puts the higher epoch first.\<close>

definition conflict_of :: "ClusterNode \<Rightarrow> ClusterNode \<Rightarrow> DuplicatePrimaryConflict option" where
  "conflict_of m n =
     (case firstOverlappingRange (cn_slots m) (cn_slots n) of
        None \<Rightarrow> None
      | Some (s, e) \<Rightarrow>
          let pair = sort_key (\<lambda>x. - cn_configEpoch x) [m, n];
              authoritative = pair ! 0; phantom = pair ! 1
          in Some \<lparr>dc_slotStart = s, dc_slotEnd = e, dc_first = conflicting authoritative,
                   dc_second = conflicting phantom, dc_phantomId = cn_id phantom\<rparr>)"

fun pair_conflicts :: "ClusterNode list \<Rightarrow> DuplicatePrimaryConflict list" where
  "pair_conflicts [] = []"
| "pair_conflicts (m # ms) = List.map_filter (conflict_of m) ms @ pair_conflicts ms"

definition detectDuplicatePrimaries :: "ClusterNode list \<Rightarrow> DuplicatePrimaryConflict list" where
  "detectDuplicatePrimaries nodes = (let masters = filter isLivePrimary nodes in pair_conflicts masters)"

definition conflictSignature :: "DuplicatePrimaryConflict \<Rightarrow> string" where
  "conflictSignature c = (case sort [dp_id (dc_first c), dp_id (dc_second c)] of
     [x, y] \<Rightarrow> x @ ''|'' @ y | _ \<Rightarrow> '''')"

text \<open>
  The handler: one event per conflict not already active, then the active set becomes the current
  signatures. The event id embeds connection, signature and timestamp.
\<close>

definition duplicate_event :: "string \<Rightarrow> int \<Rightarrow> DuplicatePrimaryConflict \<Rightarrow> AnomalyEvent" where
  "duplicate_event connectionId timestamp c =
     (state_event (connectionId @ ''-dup-primary-'' @ conflictSignature c @ ''-'' @ show_int timestamp)
        timestamp CLUSTER_TOPOLOGY SPIKE CRITICAL 2 1 1 connectionId)"

definition handleDuplicatePrimaries ::
  "(string, string list) jsmap \<Rightarrow> string \<Rightarrow> int \<Rightarrow> ClusterNode list
   \<Rightarrow> (string, string list) jsmap \<times> AnomalyEvent list" where
  "handleDuplicatePrimaries activeTopologyConflicts connectionId timestamp nodes =
     (let conflicts = detectDuplicatePrimaries nodes;
          active = js_get_or [] activeTopologyConflicts connectionId;
          currentSignatures = js_uniq (map conflictSignature conflicts);
          fresh = filter (\<lambda>c. conflictSignature c \<notin> set active) conflicts
      in (js_set connectionId currentSignatures activeTopologyConflicts,
          map (duplicate_event connectionId timestamp) fresh))"

section \<open>Overlap\<close>

definition in_ranges :: "int \<Rightarrow> (int \<times> int) list \<Rightarrow> bool" where
  "in_ranges x rs = list_ex (\<lambda>(s, e). s \<le> x \<and> x \<le> e) rs"

text \<open>The common part of one range of each list.\<close>

definition common_range :: "int \<Rightarrow> int \<Rightarrow> (int \<times> int) list \<Rightarrow> (int \<times> int) list \<Rightarrow> bool" where
  "common_range s e as bs \<longleftrightarrow> s \<le> e \<and>
     (\<exists>(l, u) \<in> set as. \<exists>(l', u') \<in> set bs. s = max l l' \<and> e = min u u')"

lemma common_range_in:
  "common_range s e as bs \<Longrightarrow> s \<le> x \<Longrightarrow> x \<le> e \<Longrightarrow> in_ranges x as \<and> in_ranges x bs"
  by (fastforce simp: common_range_def in_ranges_def list_ex_iff)

lemma overlap_with_Some: "overlap_with (l, u) bs = Some (s, e) \<Longrightarrow> common_range s e [(l, u)] bs"
  by (induction "(l, u)" bs rule: overlap_with.induct) (auto simp: Let_def common_range_def split: if_splits)

lemma overlap_with_None: "overlap_with (l, u) bs = None \<Longrightarrow> l \<le> x \<Longrightarrow> x \<le> u \<Longrightarrow> \<not> in_ranges x bs"
  by (induction "(l, u)" bs rule: overlap_with.induct) (auto simp: Let_def in_ranges_def split: if_splits)

lemma overlap_Some: "firstOverlappingRange as bs = Some (s, e) \<Longrightarrow> common_range s e as bs"
proof (induction as bs rule: firstOverlappingRange.induct)
  case (2 a as bs)
  then show ?case
    by (cases a; cases "overlap_with a bs") (auto simp: common_range_def dest!: overlap_with_Some)
qed simp

lemma overlap_None: "firstOverlappingRange as bs = None \<Longrightarrow> in_ranges x as \<Longrightarrow> \<not> in_ranges x bs"
proof (induction as bs rule: firstOverlappingRange.induct)
  case (2 a as bs)
  then show ?case
    by (cases a) (auto simp: in_ranges_def dest: overlap_with_None [unfolded in_ranges_def] split: option.splits)
qed (simp add: in_ranges_def)

lemma overlap_iff: "(firstOverlappingRange as bs \<noteq> None) \<longleftrightarrow> (\<exists>x. in_ranges x as \<and> in_ranges x bs)"
proof
  assume "firstOverlappingRange as bs \<noteq> None"
  then obtain s e where o: "firstOverlappingRange as bs = Some (s, e)" by auto
  then have "common_range s e as bs" by (rule overlap_Some)
  then show "\<exists>x. in_ranges x as \<and> in_ranges x bs" using common_range_in [of s e as bs s] by (auto simp: common_range_def)
qed (use overlap_None in blast)

section \<open>Pairs\<close>

lemma conflict_of_fields:
  assumes "conflict_of m n = Some c"
  shows "{dp_id (dc_first c), dp_id (dc_second c)} = {cn_id m, cn_id n}"
    and "dp_configEpoch (dc_second c) \<le> dp_configEpoch (dc_first c)"
    and "dc_phantomId c = dp_id (dc_second c)"
    and "firstOverlappingRange (cn_slots m) (cn_slots n) = Some (dc_slotStart c, dc_slotEnd c)"
  using assms
  by (auto simp: conflict_of_def conflicting_def Let_def split: option.splits if_splits)

lemma pair_conflicts_mem:
  "c \<in> set (pair_conflicts ms) \<longleftrightarrow> (\<exists>i j. i < j \<and> j < length ms \<and> conflict_of (ms ! i) (ms ! j) = Some c)"
proof (induction ms)
  case (Cons m ms)
  show ?case (is "?l = ?r")
  proof
    assume ?l
    then consider (head) n where "n \<in> set ms" "conflict_of m n = Some c" | (tail) "c \<in> set (pair_conflicts ms)"
      by (auto simp: map_filter_def)
    then show ?r
    proof cases
      case head
      then obtain j where "j < length ms" "ms ! j = n" by (auto simp: in_set_conv_nth)
      with head show ?thesis by (intro exI [of _ 0] exI [of _ "Suc j"]) simp
    next
      case tail
      with Cons obtain i j where "i < j" "j < length ms" "conflict_of (ms ! i) (ms ! j) = Some c" by blast
      then show ?thesis by (intro exI [of _ "Suc i"] exI [of _ "Suc j"]) simp
    qed
  next
    assume ?r
    then obtain i j where ij: "i < j" "j < length (m # ms)" "conflict_of ((m # ms) ! i) ((m # ms) ! j) = Some c" by blast
    show ?l
    proof (cases i)
      case 0
      with ij show ?thesis by (cases j) (auto simp: map_filter_def intro!: image_eqI [where x = "ms ! (j - 1)"])
    next
      case (Suc i')
      with ij Cons show ?thesis by (cases j) auto
    qed
  qed
qed simp

section \<open>Properties\<close>

text \<open>
  C32: Split-brain detection is exact: a conflict is reported exactly when two different live primaries
  of the view (by position) both claim some slot. The reported range is the whole common part of one
  slot range of each, so both claim every slot of it, and the primary named as phantom has the lower
  config epoch (or an equal one).
\<close>

theorem duplicate_primaries_exact:
  "(detectDuplicatePrimaries nodes \<noteq> []) =
     (\<exists>i j x. i < j \<and> j < length (filter isLivePrimary nodes) \<and>
        in_ranges x (cn_slots (filter isLivePrimary nodes ! i)) \<and> in_ranges x (cn_slots (filter isLivePrimary nodes ! j))) \<and>
   (\<forall>c \<in> set (detectDuplicatePrimaries nodes).
      dc_slotStart c \<le> dc_slotEnd c \<and> dc_phantomId c = dp_id (dc_second c) \<and>
      dp_configEpoch (dc_second c) \<le> dp_configEpoch (dc_first c) \<and>
      (\<exists>m n. isLivePrimary m \<and> isLivePrimary n \<and> m \<in> set nodes \<and> n \<in> set nodes \<and>
         {dp_id (dc_first c), dp_id (dc_second c)} = {cn_id m, cn_id n} \<and>
         common_range (dc_slotStart c) (dc_slotEnd c) (cn_slots m) (cn_slots n) \<and>
         (\<forall>x. dc_slotStart c \<le> x \<and> x \<le> dc_slotEnd c \<longrightarrow> in_ranges x (cn_slots m) \<and> in_ranges x (cn_slots n))))"
proof -
  let ?ms = "filter isLivePrimary nodes"
  have iff: "(conflict_of m n \<noteq> None) \<longleftrightarrow> (\<exists>x. in_ranges x (cn_slots m) \<and> in_ranges x (cn_slots n))" for m n
    unfolding overlap_iff [symmetric] by (auto simp: conflict_of_def Let_def split: option.split)
  have "(detectDuplicatePrimaries nodes \<noteq> []) \<longleftrightarrow> (\<exists>c. c \<in> set (pair_conflicts ?ms))"
    by (cases "pair_conflicts ?ms") (auto simp: detectDuplicatePrimaries_def)
  also have "\<dots> \<longleftrightarrow> (\<exists>i j. i < j \<and> j < length ?ms \<and> conflict_of (?ms ! i) (?ms ! j) \<noteq> None)"
    by (auto simp: pair_conflicts_mem)
  finally have first: "(detectDuplicatePrimaries nodes \<noteq> []) = (\<exists>i j x. i < j \<and> j < length ?ms \<and>
      in_ranges x (cn_slots (?ms ! i)) \<and> in_ranges x (cn_slots (?ms ! j)))"
    by (simp only: iff ex_simps simp_thms)
  have "dc_slotStart c \<le> dc_slotEnd c \<and> dc_phantomId c = dp_id (dc_second c) \<and>
      dp_configEpoch (dc_second c) \<le> dp_configEpoch (dc_first c) \<and>
      (\<exists>m n. isLivePrimary m \<and> isLivePrimary n \<and> m \<in> set nodes \<and> n \<in> set nodes \<and>
         {dp_id (dc_first c), dp_id (dc_second c)} = {cn_id m, cn_id n} \<and>
         common_range (dc_slotStart c) (dc_slotEnd c) (cn_slots m) (cn_slots n) \<and>
         (\<forall>x. dc_slotStart c \<le> x \<and> x \<le> dc_slotEnd c \<longrightarrow> in_ranges x (cn_slots m) \<and> in_ranges x (cn_slots n)))"
    if "c \<in> set (detectDuplicatePrimaries nodes)" for c
  proof -
    from that obtain i j where ij: "i < j" "j < length ?ms" "conflict_of (?ms ! i) (?ms ! j) = Some c"
      by (auto simp: detectDuplicatePrimaries_def pair_conflicts_mem)
    have "?ms ! i \<in> set ?ms" "?ms ! j \<in> set ?ms" using ij by (simp_all only: nth_mem)
    then have mem: "isLivePrimary (?ms ! i)" "isLivePrimary (?ms ! j)" "?ms ! i \<in> set nodes" "?ms ! j \<in> set nodes" by auto
    have common: "common_range (dc_slotStart c) (dc_slotEnd c) (cn_slots (?ms ! i)) (cn_slots (?ms ! j))"
      by (rule overlap_Some [OF conflict_of_fields(4) [OF ij(3)]])
    then have "dc_slotStart c \<le> dc_slotEnd c" by (simp add: common_range_def)
    with conflict_of_fields [OF ij(3)] common common_range_in [OF common] mem show ?thesis by blast
  qed
  with first show ?thesis by blast
qed

theorem duplicate_primaries_exact_witness:
  "\<exists>c \<in> set (detectDuplicatePrimaries [primary_node ''a'' 2 [(0, 9)], primary_node ''b'' 1 [(5, 7)]]).
     dc_slotStart c \<le> dc_slotEnd c \<and> dp_configEpoch (dc_second c) \<le> dp_configEpoch (dc_first c)"
proof -
  let ?nodes = "[primary_node ''a'' 2 [(0, 9)], primary_node ''b'' 1 [(5, 7)]]"
  have "detectDuplicatePrimaries ?nodes \<noteq> []"
    by (simp add: detectDuplicatePrimaries_def isLivePrimary_def primary_node_def has_flag_def unhealthy_def
        UNHEALTHY_PRIMARY_FLAGS_def conflict_of_def map_filter_def Let_def)
  then obtain c where "c \<in> set (detectDuplicatePrimaries ?nodes)" by (meson last_in_set)
  with duplicate_primaries_exact [of ?nodes] show ?thesis by blast
qed

text \<open>
  Alerts follow the conflicts: after a poll the remembered signatures of the connection are
  exactly those in conflict, so a conflict that persists to the next poll raises nothing again and
  one that vanished and came back is alerted anew.
\<close>

theorem duplicate_primary_dedup:
  assumes "handleDuplicatePrimaries active c t nodes = (active', evs)"
  shows "set (js_get_or [] active' c) = conflictSignature ` set (detectDuplicatePrimaries nodes)
       \<and> snd (handleDuplicatePrimaries active' c t' nodes) = []
       \<and> length evs \<le> length (detectDuplicatePrimaries nodes)"
  using assms by (auto simp: handleDuplicatePrimaries_def js_get_or_def js_simps Let_def)

theorem duplicate_primary_dedup_witness:
  "\<exists>active' evs. handleDuplicatePrimaries [] ''c'' 1 [primary_node ''a'' 2 [(0, 9)], primary_node ''b'' 1 [(5, 7)]] = (active', evs)
     \<and> length evs = 1 \<and> snd (handleDuplicatePrimaries active' ''c'' 2 [primary_node ''a'' 2 [(0, 9)], primary_node ''b'' 1 [(5, 7)]]) = []"
proof -
  let ?h = "handleDuplicatePrimaries"
  let ?nodes = "[primary_node ''a'' 2 [(0, 9)], primary_node ''b'' 1 [(5, 7)]]"
  have "length (snd (?h [] ''c'' 1 ?nodes)) = 1"
    by (simp add: handleDuplicatePrimaries_def detectDuplicatePrimaries_def isLivePrimary_def primary_node_def
        has_flag_def unhealthy_def UNHEALTHY_PRIMARY_FLAGS_def conflict_of_def map_filter_def js_get_or_def Let_def)
  moreover obtain active' evs where h: "?h [] ''c'' 1 ?nodes = (active', evs)" by fastforce
  ultimately show ?thesis using duplicate_primary_dedup [OF h, where t' = 2] h by simp
qed

text \<open>
  The signature of a conflict does not depend on which primary the view lists first.
\<close>

theorem conflict_signature_symmetric:
  assumes "conflict_of m n = Some c" and "conflict_of n m = Some c'"
  shows "conflictSignature c = conflictSignature c'"
proof -
  have "mset [dp_id (dc_first c), dp_id (dc_second c)] = mset [dp_id (dc_first c'), dp_id (dc_second c')]"
    using assms by (auto simp: conflict_of_def conflicting_def Let_def split: option.splits if_splits)
  then have "sort [dp_id (dc_first c), dp_id (dc_second c)] = sort [dp_id (dc_first c'), dp_id (dc_second c')]"
    by (metis mset_sort properties_for_sort sorted_sort)
  then show ?thesis by (simp only: conflictSignature_def)
qed

theorem conflict_signature_symmetric_witness:
  "map_option conflictSignature (conflict_of (primary_node ''b'' 1 [(5, 7)]) (primary_node ''a'' 2 [(0, 9)]))
     = map_option conflictSignature (conflict_of (primary_node ''a'' 2 [(0, 9)]) (primary_node ''b'' 1 [(5, 7)]))"
proof -
  obtain c c' where "conflict_of (primary_node ''b'' 1 [(5, 7)]) (primary_node ''a'' 2 [(0, 9)]) = Some c"
    "conflict_of (primary_node ''a'' 2 [(0, 9)]) (primary_node ''b'' 1 [(5, 7)]) = Some c'"
    by (simp add: conflict_of_def primary_node_def Let_def)
  with conflict_signature_symmetric [OF this] show ?thesis by simp
qed

end
