(* ===== verification/Persistence_Gate.thy ===== *)
theory Persistence_Gate
  imports Anomaly_Feed
begin

text \<open>
  The persistence gate of the snapshot topology detectors, applyTopologyPersistenceGate of
  anomaly.service.ts, with the storage check of its dedupe. The gate's per-connection maps are one
  record; \<open>gp_tracked\<close> says whether the caller supplied \<open>eventIdsByConn\<close>. \<open>now\<close> is the clock the
  auto-resolve reads.

  The abstract specification is a machine per signature (when it was first seen, whether it is
  alerted). Without event tracking the gate over all findings refines it signature by signature,
  and the locale \<open>gated_detector\<close>, which asks of a handler that it runs the gate on its findings,
  carries over the properties of the machine's runs. With tracking the gate's relation to the feed
  is shown directly.
\<close>

record gate =
  gt_firstSeen :: "(string, int) jsmap"
  gt_active :: "string list"
  gt_eventIds :: "(string, string) jsmap"

definition new_gate :: gate where
  "new_gate = \<lparr>gt_firstSeen = [], gt_active = [], gt_eventIds = []\<rparr>"

record 'a gate_params =
  gp_connId :: string
  gp_timestamp :: int
  gp_findings :: "'a list"
  gp_signatureOf :: "'a \<Rightarrow> string"
  gp_minPersistMs :: int
  gp_buildEvent :: "'a \<Rightarrow> string \<Rightarrow> AnomalyEvent"
  gp_tracked :: bool
  gp_metricType :: "MetricType option"
  gp_preserve :: "string \<Rightarrow> bool"

text \<open>What a poll emitted, each event with the signature it was built for.\<close>

type_synonym gate_log = "(string \<times> AnomalyEvent) list"

definition isAnomalyUnresolvedInStorage :: "'st StoragePort \<Rightarrow> string \<Rightarrow> string \<Rightarrow> MetricType option \<Rightarrow> 'st \<Rightarrow> bool" where
  "isAnomalyUnresolvedInStorage port i connectionId metricType st =
     (case getAnomalyEvents port (no_options\<lparr>qo_connectionId := Some connectionId, qo_resolved := Some False,
              qo_metricType := metricType\<rparr>) st of
        None \<Rightarrow> True
      | Some open_rows \<Rightarrow> list_ex (\<lambda>e. se_id e = i) open_rows)"

definition current_signatures :: "'a gate_params \<Rightarrow> string list" where
  "current_signatures p = js_uniq (map (gp_signatureOf p) (gp_findings p))"

definition forget_recovered :: "'a gate_params \<Rightarrow> gate \<Rightarrow> gate" where
  "forget_recovered p g = g\<lparr>gt_firstSeen := filter (\<lambda>(sig, _). sig \<in> set (current_signatures p) \<or> gp_preserve p sig) (gt_firstSeen g)\<rparr>"

definition gate_emit ::
  "'st StoragePort \<Rightarrow> 'a gate_params \<Rightarrow> 'a \<Rightarrow> string \<Rightarrow> gate \<times> feed \<times> 'st \<Rightarrow> (gate \<times> feed \<times> 'st) \<times> gate_log" where
  "gate_emit port p finding signature s =
     (let event = gp_buildEvent p finding signature; g = fst s;
          fs = addAnomaly port (Some (gp_connId p)) event (snd s);
          g1 = g\<lparr>gt_active := set_add signature (gt_active g)\<rparr>
      in ((if gp_tracked p then g1\<lparr>gt_eventIds := js_set signature (ev_id event) (gt_eventIds g1)\<rparr> else g1, fs), [(signature, event)]))"

definition tracked_open :: "'st StoragePort \<Rightarrow> 'a gate_params \<Rightarrow> feed \<times> 'st \<Rightarrow> string \<Rightarrow> bool" where
  "tracked_open port p fs existingId =
     (case find_cached (fst fs) existingId of
        Some existing \<Rightarrow> \<not> ev_resolved existing
      | None \<Rightarrow> isAnomalyUnresolvedInStorage port existingId (gp_connId p) (gp_metricType p) (snd fs))"

definition note_seen :: "'a gate_params \<Rightarrow> string \<Rightarrow> gate \<Rightarrow> gate" where
  "note_seen p signature g =
     (if js_has (gt_firstSeen g) signature then g
      else g\<lparr>gt_firstSeen := js_set signature (gp_timestamp p) (gt_firstSeen g)\<rparr>)"

definition gate_finding ::
  "'st StoragePort \<Rightarrow> 'a gate_params \<Rightarrow> 'a \<Rightarrow> gate \<times> feed \<times> 'st \<Rightarrow> (gate \<times> feed \<times> 'st) \<times> gate_log" where
  "gate_finding port p finding s =
     (let signature = gp_signatureOf p finding;
          seenAt = js_get_or (gp_timestamp p) (gt_firstSeen (fst s)) signature;
          g = note_seen p signature (fst s); fs = snd s
      in if gp_timestamp p - seenAt < gp_minPersistMs p then ((g, fs), [])
         else if gp_tracked p then
           (case truthy '''' (js_get (gt_eventIds g) signature) of
              Some existingId \<Rightarrow>
                if tracked_open port p fs existingId then ((g\<lparr>gt_active := set_add signature (gt_active g)\<rparr>, fs), [])
                else gate_emit port p finding signature
                       (g\<lparr>gt_eventIds := js_delete signature (gt_eventIds g), gt_active := removeAll signature (gt_active g)\<rparr>, fs)
            | None \<Rightarrow> gate_emit port p finding signature (g, fs))
         else if signature \<in> set (gt_active g) then ((g, fs), [])
         else gate_emit port p finding signature (g, fs))"

fun gate_findings ::
  "'st StoragePort \<Rightarrow> 'a gate_params \<Rightarrow> 'a list \<Rightarrow> gate \<times> feed \<times> 'st \<Rightarrow> (gate \<times> feed \<times> 'st) \<times> gate_log" where
  "gate_findings port p [] s = (s, [])"
| "gate_findings port p (finding # rest) s =
     (let r = gate_finding port p finding s; r' = gate_findings port p rest (fst r)
      in (fst r', snd r @ snd r'))"

fun auto_resolve ::
  "'st StoragePort \<Rightarrow> int \<Rightarrow> 'a gate_params \<Rightarrow> (string \<times> string) list \<Rightarrow> gate \<times> feed \<times> 'st \<Rightarrow> gate \<times> feed \<times> 'st" where
  "auto_resolve port now p [] s = s"
| "auto_resolve port now p ((sig, i) # rest) s =
     (if sig \<in> set (current_signatures p) \<or> gp_preserve p sig then auto_resolve port now p rest s
      else let r = resolveAnomalyOutcome port now i (snd s)
           in auto_resolve port now p rest
                (if snd r = Retry then fst s else (fst s)\<lparr>gt_eventIds := js_delete sig (gt_eventIds (fst s))\<rparr>, fst r))"

definition keep_active :: "'a gate_params \<Rightarrow> gate \<Rightarrow> gate" where
  "keep_active p g = g\<lparr>gt_active := filter (\<lambda>sig. sig \<in> set (current_signatures p) \<or> gp_preserve p sig) (gt_active g)\<rparr>"

definition applyTopologyPersistenceGate ::
  "'st StoragePort \<Rightarrow> int \<Rightarrow> 'a gate_params \<Rightarrow> gate \<times> feed \<times> 'st \<Rightarrow> (gate \<times> feed \<times> 'st) \<times> gate_log" where
  "applyTopologyPersistenceGate port now p s =
     (let r = gate_findings port p (gp_findings p) (forget_recovered p (fst s), snd s);
          s1 = (if gp_tracked p then auto_resolve port now p (gt_eventIds (fst (fst r))) (fst r) else fst r)
      in ((keep_active p (fst s1), snd s1), snd r))"

section \<open>The machine of one signature\<close>

record sig_state =
  ss_seen :: "int option"
  ss_alerted :: bool

definition sig_init :: sig_state where
  "sig_init = \<lparr>ss_seen = None, ss_alerted = False\<rparr>"

text \<open>An observation: the poll's time, whether the signature is reported, whether it is an observation gap.\<close>

type_synonym sig_obs = "int \<times> bool \<times> bool"

fun sig_step :: "int \<Rightarrow> sig_state \<Rightarrow> sig_obs \<Rightarrow> sig_state \<times> bool" where
  "sig_step minPersist s (t, True, gap) =
     (let seen = (case ss_seen s of Some t0 \<Rightarrow> t0 | None \<Rightarrow> t);
          alert = (minPersist \<le> t - seen \<and> \<not> ss_alerted s)
      in (\<lparr>ss_seen = Some seen, ss_alerted = (ss_alerted s \<or> alert)\<rparr>, alert))"
| "sig_step minPersist s (t, False, gap) =
     (\<lparr>ss_seen = (if gap then ss_seen s else None), ss_alerted = (ss_alerted s \<and> gap)\<rparr>, False)"

fun sig_run :: "int \<Rightarrow> sig_state \<Rightarrow> sig_obs list \<Rightarrow> sig_state \<times> nat" where
  "sig_run minPersist s [] = (s, 0)"
| "sig_run minPersist s (x # xs) =
     (case sig_step minPersist s x of (s', alert) \<Rightarrow>
        case sig_run minPersist s' xs of (s'', n) \<Rightarrow> (s'', (if alert then 1 else 0) + n))"

lemma sig_run_snoc:
  "sig_run m s (xs @ [x]) =
     (fst (sig_step m (fst (sig_run m s xs)) x),
      snd (sig_run m s xs) + (if snd (sig_step m (fst (sig_run m s xs)) x) then 1 else 0))"
  by (induction xs arbitrary: s) (simp_all add: case_prod_beta)

lemma sig_step_again: "sig_step m (fst (sig_step m s (t, True, gap))) (t, True, gap') = (fst (sig_step m s (t, True, gap)), False)"
  by (auto simp: Let_def)

text \<open>Reported, or at least not observably recovered.\<close>

definition not_recovered :: "sig_obs \<Rightarrow> bool" where
  "not_recovered x \<longleftrightarrow> fst (snd x) \<or> snd (snd x)"

lemma sig_run_seen:
  assumes "ss_seen (fst (sig_run m sig_init xs)) = Some t0"
  shows "\<exists>before gap after. xs = before @ (t0, True, gap) # after \<and> list_all not_recovered after"
  using assms
proof (induction xs arbitrary: t0 rule: rev_induct)
  case (snoc x xs)
  obtain t present gap where x: "x = (t, present, gap)" by (cases x)
  let ?s = "fst (sig_run m sig_init xs)"
  show ?case
  proof (cases "ss_seen ?s")
    case None
    with snoc.prems x have "present" "t0 = t" by (cases present; simp add: sig_run_snoc Let_def split: if_splits)+
    with x show ?thesis by (intro exI [of _ xs] exI [of _ gap] exI [of _ "[]"]) simp
  next
    case (Some t1)
    with snoc.prems x have "t1 = t0" "not_recovered x"
      by (cases present; auto simp: sig_run_snoc not_recovered_def Let_def split: if_splits)+
    with snoc.IH [of t1] Some obtain before gap' after where
      "xs = before @ (t0, True, gap') # after" "list_all not_recovered after" by auto
    with \<open>not_recovered x\<close> show ?thesis
      by (intro exI [of _ before] exI [of _ gap'] exI [of _ "after @ [x]"]) simp
  qed
qed (simp add: sig_init_def)

lemma sig_alert_persisted:
  assumes "snd (sig_step m (fst (sig_run m sig_init xs)) (t, present, gap))" and "0 < m"
  shows "present \<and> (\<exists>before t0 gap0 after. xs = before @ (t0, True, gap0) # after \<and> list_all not_recovered after \<and> m \<le> t - t0)"
proof -
  have present: present using assms(1) by (cases present) simp_all
  with assms obtain t0 where seen: "ss_seen (fst (sig_run m sig_init xs)) = Some t0" and le: "m \<le> t - t0"
    by (auto simp: Let_def split: option.splits)
  from sig_run_seen [OF seen] le present show ?thesis by blast
qed

text \<open>Alerts are paid for by recoveries: one for the start and one for each observable recovery.\<close>

lemma sig_run_budget:
  "snd (sig_run m s xs) + (if ss_alerted s then 1 else 0)
     \<le> length (filter (\<lambda>x. \<not> not_recovered x) xs) + (if ss_alerted (fst (sig_run m s xs)) then 1 else 0)"
proof (induction xs rule: rev_induct)
  case (snoc x xs)
  obtain t present gap where x: "x = (t, present, gap)" by (cases x)
  with snoc show ?case by (cases present) (auto simp: sig_run_snoc not_recovered_def Let_def split: if_splits)
qed simp

lemma sig_run_steady:
  assumes "list_all (\<lambda>x. fst (snd x)) xs" and "ss_seen s = Some t0"
  shows "sig_run m s xs =
    (\<lparr>ss_seen = Some t0, ss_alerted = (ss_alerted s \<or> list_ex (\<lambda>x. m \<le> fst x - t0) xs)\<rparr>,
     if \<not> ss_alerted s \<and> list_ex (\<lambda>x. m \<le> fst x - t0) xs then 1 else 0)"
  using assms
proof (induction xs rule: rev_induct)
  case (snoc x xs)
  obtain t gap where x: "x = (t, True, gap)" using snoc.prems by (cases x) auto
  with snoc show ?case by (auto simp: sig_run_snoc Let_def)
qed (cases s, simp)

section \<open>The gate refines the machine, signature by signature\<close>

definition sig_of :: "string \<Rightarrow> gate \<Rightarrow> sig_state" where
  "sig_of sig g = \<lparr>ss_seen = js_get (gt_firstSeen g) sig, ss_alerted = (sig \<in> set (gt_active g))\<rparr>"

definition sig_obs_of :: "'a gate_params \<Rightarrow> string \<Rightarrow> sig_obs" where
  "sig_obs_of p sig = (gp_timestamp p, sig \<in> set (current_signatures p), gp_preserve p sig)"

text \<open>The findings with the repeated signatures left out.\<close>

fun first_by :: "('a \<Rightarrow> 'k) \<Rightarrow> 'a list \<Rightarrow> 'a list" where
  "first_by key [] = []"
| "first_by key (x # xs) = x # filter (\<lambda>y. key y \<noteq> key x) (first_by key xs)"

lemma set_first_by_subset: "set (first_by key xs) \<subseteq> set xs"
  by (induction xs) auto

lemma first_by_keys: "key ` set (first_by key xs) = key ` set xs"
proof (induction xs)
  case (Cons x xs)
  have "key ` set (first_by key (x # xs)) = insert (key x) (key ` set (first_by key xs))" by auto
  with Cons show ?case by simp
qed simp

lemma first_by_distinct: "distinct (map key (first_by key xs))"
proof (induction xs)
  case (Cons x xs)
  then show ?case by (auto simp: distinct_map_filter)
qed simp

lemma sig_of_init [simp]: "sig_of sig new_gate = sig_init"
  by (simp add: sig_of_def new_gate_def sig_init_def)

definition seen_now :: "'a gate_params \<Rightarrow> gate \<Rightarrow> string \<Rightarrow> sig_state \<times> bool" where
  "seen_now p g sig = sig_step (gp_minPersistMs p) (sig_of sig g) (gp_timestamp p, True, False)"

lemma gate_finding_untracked:
  assumes "\<not> gp_tracked p"
  shows "sig_of k (fst (fst (gate_finding port p f s))) =
           (if k = gp_signatureOf p f then fst (seen_now p (fst s) k) else sig_of k (fst s))"
    and "snd (gate_finding port p f s) =
           (if snd (seen_now p (fst s) (gp_signatureOf p f)) then [(gp_signatureOf p f, gp_buildEvent p f (gp_signatureOf p f))] else [])"
  using assms
  by (cases "js_get (gt_firstSeen (fst s)) (gp_signatureOf p f)";
      auto simp: gate_finding_def gate_emit_def note_seen_def seen_now_def sig_of_def js_get_or_def js_has_def js_get_set Let_def)+

lemma seen_now_cong: "sig_of k g = sig_of k g' \<Longrightarrow> seen_now p g k = seen_now p g' k"
  by (simp add: seen_now_def)

lemma seen_now_again: "sig_of k g' = fst (seen_now p g k) \<Longrightarrow> seen_now p g' k = (fst (seen_now p g k), False)"
  by (simp only: seen_now_def sig_step_again)

lemma gate_findings_untracked:
  assumes "\<not> gp_tracked p"
  shows "(\<forall>k. sig_of k (fst (fst (gate_findings port p xs s))) =
           (if k \<in> gp_signatureOf p ` set xs then fst (seen_now p (fst s) k) else sig_of k (fst s))) \<and>
         snd (gate_findings port p xs s) =
           map (\<lambda>f. (gp_signatureOf p f, gp_buildEvent p f (gp_signatureOf p f)))
             (filter (\<lambda>f. snd (seen_now p (fst s) (gp_signatureOf p f))) (first_by (gp_signatureOf p) xs))"
proof (induction xs arbitrary: s)
  case (Cons f xs)
  let ?sig = "gp_signatureOf p"
  let ?s' = "fst (gate_finding port p f s)"
  note one = gate_finding_untracked [OF assms, where port = port and f = f and s = s]
  have again: "seen_now p (fst ?s') (?sig f) = (fst (seen_now p (fst s) (?sig f)), False)"
    by (rule seen_now_again) (simp add: one(1))
  have other: "seen_now p (fst ?s') k = seen_now p (fst s) k" if "k \<noteq> ?sig f" for k
    by (rule seen_now_cong) (simp add: one(1) that)
  have rest: "filter (\<lambda>x. snd (seen_now p (fst ?s') (?sig x))) (first_by ?sig xs)
      = filter (\<lambda>x. snd (seen_now p (fst s) (?sig x))) (filter (\<lambda>x. ?sig x \<noteq> ?sig f) (first_by ?sig xs))"
    unfolding filter_filter by (rule filter_cong [OF refl]) (use again other in \<open>metis snd_conv\<close>)
  have states: "sig_of k (fst (fst (gate_findings port p xs ?s'))) =
      (if k \<in> ?sig ` set (f # xs) then fst (seen_now p (fst s) k) else sig_of k (fst s))" for k
  proof (cases "k = ?sig f")
    case True
    with Cons.IH [of ?s'] again one(1) [of k] show ?thesis by (simp add: True)
  next
    case False
    with Cons.IH [of ?s'] other [OF False] one(1) [of k] show ?thesis by simp
  qed
  moreover have "snd (gate_findings port p (f # xs) s) =
      snd (gate_finding port p f s) @ snd (gate_findings port p xs ?s')" by (simp add: Let_def)
  ultimately show ?case using Cons.IH [of ?s'] one(2) rest by (simp add: Let_def)
qed simp

lemma forget_recovered_sig:
  "sig_of k (forget_recovered p g) =
     (if k \<in> set (current_signatures p) \<or> gp_preserve p k then sig_of k g else (sig_of k g)\<lparr>ss_seen := None\<rparr>)"
proof -
  have "map_of (filter (\<lambda>(x, _). P x) m) k = (if P k then map_of m k else None)" for P and m :: "(string \<times> int) list"
    by (induction m) auto
  then show ?thesis by (simp add: sig_of_def forget_recovered_def)
qed

lemma keep_active_sig:
  "sig_of k (keep_active p g) =
     (if k \<in> set (current_signatures p) \<or> gp_preserve p k then sig_of k g else (sig_of k g)\<lparr>ss_alerted := False\<rparr>)"
  by (simp add: sig_of_def keep_active_def)

lemma set_current_signatures: "set (current_signatures p) = gp_signatureOf p ` set (gp_findings p)"
  by (simp add: current_signatures_def)

text \<open>The refinement: state and events of the gate are those of the machines.\<close>

lemma gate_refines:
  assumes "\<not> gp_tracked p"
  shows "sig_of k (fst (fst (applyTopologyPersistenceGate port now p s))) =
           fst (sig_step (gp_minPersistMs p) (sig_of k (fst s)) (sig_obs_of p k))"
    and "snd (applyTopologyPersistenceGate port now p s) =
           map (\<lambda>f. (gp_signatureOf p f, gp_buildEvent p f (gp_signatureOf p f)))
             (filter (\<lambda>f. snd (sig_step (gp_minPersistMs p) (sig_of (gp_signatureOf p f) (fst s)) (sig_obs_of p (gp_signatureOf p f))))
               (first_by (gp_signatureOf p) (gp_findings p)))"
proof -
  let ?g = "forget_recovered p (fst s)"
  note run = gate_findings_untracked [OF assms, of port "gp_findings p" "(?g, snd s)"]
  have gap: "sig_step m st (t, True, b) = sig_step m st (t, True, b')" for m st t b b' by simp
  have now_eq: "seen_now p ?g k = sig_step (gp_minPersistMs p) (sig_of k (fst s)) (sig_obs_of p k)"
    if "k \<in> set (current_signatures p)" for k
    using that gap by (auto simp: seen_now_def forget_recovered_sig sig_obs_of_def)
  show "sig_of k (fst (fst (applyTopologyPersistenceGate port now p s))) =
      fst (sig_step (gp_minPersistMs p) (sig_of k (fst s)) (sig_obs_of p k))"
  proof (cases "k \<in> set (current_signatures p)")
    case True
    with run now_eq [OF True] assms show ?thesis
      by (simp add: applyTopologyPersistenceGate_def keep_active_sig Let_def set_current_signatures)
  next
    case False
    with run assms have "sig_of k (fst (fst (applyTopologyPersistenceGate port now p s))) =
        (if gp_preserve p k then sig_of k (fst s) else (sig_of k (fst s))\<lparr>ss_seen := None, ss_alerted := False\<rparr>)"
      by (simp add: applyTopologyPersistenceGate_def keep_active_sig forget_recovered_sig Let_def set_current_signatures)
    with False show ?thesis by (cases "sig_of k (fst s)") (simp add: sig_obs_of_def)
  qed
  have "filter (\<lambda>f. snd (seen_now p ?g (gp_signatureOf p f))) (first_by (gp_signatureOf p) (gp_findings p)) =
      filter (\<lambda>f. snd (sig_step (gp_minPersistMs p) (sig_of (gp_signatureOf p f) (fst s)) (sig_obs_of p (gp_signatureOf p f))))
        (first_by (gp_signatureOf p) (gp_findings p))"
  proof (rule filter_cong [OF refl])
    fix f assume "f \<in> set (first_by (gp_signatureOf p) (gp_findings p))"
    with set_first_by_subset have "gp_signatureOf p f \<in> set (current_signatures p)" by (force simp: set_current_signatures)
    then show "snd (seen_now p ?g (gp_signatureOf p f)) =
        snd (sig_step (gp_minPersistMs p) (sig_of (gp_signatureOf p f) (fst s)) (sig_obs_of p (gp_signatureOf p f)))"
      by (simp add: now_eq)
  qed
  with run assms show "snd (applyTopologyPersistenceGate port now p s) =
           map (\<lambda>f. (gp_signatureOf p f, gp_buildEvent p f (gp_signatureOf p f)))
             (filter (\<lambda>f. snd (sig_step (gp_minPersistMs p) (sig_of (gp_signatureOf p f) (fst s)) (sig_obs_of p (gp_signatureOf p f))))
               (first_by (gp_signatureOf p) (gp_findings p)))"
    by (simp add: applyTopologyPersistenceGate_def Let_def)
qed

lemma count_first_by:
  "length (filter (\<lambda>x. fst x = k) (map (\<lambda>f. (key f, h f)) (filter (\<lambda>f. Q (key f)) (first_by key xs))))
     = (if k \<in> key ` set xs \<and> Q k then 1 else 0)"
proof -
  have *: "length (filter (\<lambda>x. fst x = k) (map (\<lambda>f. (key f, h f)) (filter (\<lambda>f. Q (key f)) ys))) =
      (if k \<in> key ` set ys \<and> Q k then 1 else 0)" if "distinct (map key ys)" for ys
    using that
  proof (induction ys)
    case (Cons y ys)
    then show ?case by (cases "key y = k"; cases "Q k") (auto simp: rev_image_eqI)
  qed simp
  show ?thesis using * [OF first_by_distinct [of key xs]] by (simp add: first_by_keys)
qed

section \<open>Runs of a gated detector\<close>

fun poll_run :: "(int \<Rightarrow> 'v \<Rightarrow> 's \<Rightarrow> 's \<times> 'e list) \<Rightarrow> 's \<Rightarrow> (int \<times> 'v) list \<Rightarrow> 's \<times> 'e list" where
  "poll_run handler s [] = (s, [])"
| "poll_run handler s ((t, v) # ps) =
     (case handler t v s of (s', es) \<Rightarrow> case poll_run handler s' ps of (s'', es') \<Rightarrow> (s'', es @ es'))"

lemma poll_run_snoc:
  "poll_run h s (ps @ [(t, v)]) =
     (fst (h t v (fst (poll_run h s ps))), snd (poll_run h s ps) @ snd (h t v (fst (poll_run h s ps))))"
  by (induction ps arbitrary: s) (auto simp: case_prod_beta)

definition logged :: "string \<Rightarrow> gate_log \<Rightarrow> nat" where
  "logged k es = length (filter (\<lambda>x. fst x = k) es)"

lemma logged_append [simp]: "logged k (xs @ ys) = logged k xs + logged k ys"
  by (simp add: logged_def)

lemma logged_Nil [simp]: "logged k [] = 0"
  by (simp add: logged_def)

locale gated_detector =
  fixes handler :: "int \<Rightarrow> 'v \<Rightarrow> gate \<times> feed \<times> 'st \<Rightarrow> (gate \<times> feed \<times> 'st) \<times> gate_log"
    and port :: "'st StoragePort"
    and params :: "int \<Rightarrow> 'v \<Rightarrow> 'f gate_params"
    and signature :: "'f \<Rightarrow> string"
    and findings :: "'v \<Rightarrow> 'f list"
    and gap :: "'v \<Rightarrow> string \<Rightarrow> bool"
    and min_persist :: int
  assumes handler_gate: "\<exists>now. handler t v s = applyTopologyPersistenceGate port now (params t v) s"
    and params: "\<not> gp_tracked (params t v)" "gp_timestamp (params t v) = t" "gp_minPersistMs (params t v) = min_persist"
      "gp_signatureOf (params t v) = signature" "gp_findings (params t v) = findings v" "gp_preserve (params t v) = gap v"
    and persist_pos: "0 < min_persist"
begin

lemma observation: "sig_obs_of (params t v) k = (t, k \<in> signature ` set (findings v), gap v k)"
  by (simp add: sig_obs_of_def set_current_signatures params)

lemma handler_refines:
  "sig_of k (fst (fst (handler t v s))) = fst (sig_step min_persist (sig_of k (fst s)) (t, k \<in> signature ` set (findings v), gap v k))"
  "logged k (snd (handler t v s)) =
     (if snd (sig_step min_persist (sig_of k (fst s)) (t, k \<in> signature ` set (findings v), gap v k)) then 1 else 0)"
proof -
  obtain now where h: "handler t v s = applyTopologyPersistenceGate port now (params t v) s" using handler_gate by blast
  note r = gate_refines [OF params(1) [of t v], where port = port and now = now and s = s]
  show "sig_of k (fst (fst (handler t v s))) = fst (sig_step min_persist (sig_of k (fst s)) (t, k \<in> signature ` set (findings v), gap v k))"
    unfolding h r(1) observation by (simp add: params)
  let ?Q = "\<lambda>k. snd (sig_step min_persist (sig_of k (fst s)) (t, k \<in> signature ` set (findings v), gap v k))"
  have "logged k (snd (handler t v s)) = (if k \<in> signature ` set (findings v) \<and> ?Q k then 1 else 0)"
    unfolding h r(2) logged_def observation params by (rule count_first_by)
  moreover have "?Q k \<Longrightarrow> k \<in> signature ` set (findings v)" by (cases "k \<in> signature ` set (findings v)") simp_all
  ultimately show "logged k (snd (handler t v s)) = (if ?Q k then 1 else 0)" by auto
qed

lemma run_refines:
  "sig_of k (fst (fst (poll_run handler (new_gate, fs) ps))) =
     fst (sig_run min_persist sig_init (map (\<lambda>(t, v). (t, k \<in> signature ` set (findings v), gap v k)) ps))"
  "logged k (snd (poll_run handler (new_gate, fs) ps)) =
     snd (sig_run min_persist sig_init (map (\<lambda>(t, v). (t, k \<in> signature ` set (findings v), gap v k)) ps))"
proof (induction ps rule: rev_induct)
  case (snoc p ps)
  obtain t v where p: "p = (t, v)" by (cases p)
  {
    case 1
    show ?case using snoc by (simp add: p poll_run_snoc sig_run_snoc handler_refines del: sig_step.simps)
  next
    case 2
    show ?case using snoc by (simp add: p poll_run_snoc sig_run_snoc handler_refines del: sig_step.simps)
  }
qed simp_all

lemma logged_now: "(k, e) \<in> set es \<Longrightarrow> 0 < logged k es"
  by (force simp: logged_def filter_empty_conv)

lemma alert_persisted:
  assumes "(k, e) \<in> set (snd (handler t v (fst (poll_run handler (new_gate, fs) ps))))"
  shows "k \<in> signature ` set (findings v) \<and>
    (\<exists>before t0 v0 after. ps = before @ (t0, v0) # after \<and> min_persist \<le> t - t0 \<and> k \<in> signature ` set (findings v0) \<and>
       list_all (\<lambda>(t', v'). k \<in> signature ` set (findings v') \<or> gap v' k) after)"
proof -
  let ?o = "\<lambda>(t, v). (t, k \<in> signature ` set (findings v), gap v k)"
  from logged_now [OF assms] have "snd (sig_step min_persist (fst (sig_run min_persist sig_init (map ?o ps)))
      (t, k \<in> signature ` set (findings v), gap v k))"
    by (simp add: handler_refines run_refines split: if_splits del: sig_step.simps)
  from sig_alert_persisted [OF this persist_pos] obtain before t0 gap0 after where
    now: "k \<in> signature ` set (findings v)" and
    split: "map ?o ps = before @ (t0, True, gap0) # after" "list_all not_recovered after" "min_persist \<le> t - t0" by blast
  from split(1) obtain b v0 a where ps: "ps = b @ (t0, v0) # a" "k \<in> signature ` set (findings v0)" "after = map ?o a"
    by (auto simp: map_eq_append_conv map_eq_Cons_conv)
  with split(2) have "list_all (\<lambda>(t', v'). k \<in> signature ` set (findings v') \<or> gap v' k) a"
    by (auto simp: list_all_iff not_recovered_def)
  with now ps split(3) show ?thesis by blast
qed

lemma alerts_bounded:
  "logged k (snd (poll_run handler (new_gate, fs) ps))
     \<le> Suc (length (filter (\<lambda>(t, v). k \<notin> signature ` set (findings v) \<and> \<not> gap v k) ps))"
proof -
  let ?o = "\<lambda>(t, v). (t, k \<in> signature ` set (findings v), gap v k)"
  have "length (filter (\<lambda>x. \<not> not_recovered x) (map ?o ps)) =
      length (filter (\<lambda>(t, v). k \<notin> signature ` set (findings v) \<and> \<not> gap v k) ps)"
    by (induction ps) (auto simp: not_recovered_def)
  with sig_run_budget [of min_persist sig_init "map ?o ps"] show ?thesis
    by (simp add: run_refines split: if_splits)
qed

lemma steady_alerts_once:
  assumes "list_all (\<lambda>(t, v). k \<in> signature ` set (findings v)) ((t0, v0) # ps)"
  shows "logged k (snd (poll_run handler (new_gate, fs) ((t0, v0) # ps))) = (if list_ex (\<lambda>(t, v). min_persist \<le> t - t0) ps then 1 else 0)"
proof -
  let ?o = "\<lambda>(t, v). (t, k \<in> signature ` set (findings v), gap v k)"
  have first: "sig_step min_persist sig_init (?o (t0, v0)) = (\<lparr>ss_seen = Some t0, ss_alerted = False\<rparr>, False)"
    using assms persist_pos by (simp add: sig_init_def)
  have "list_all (\<lambda>x. fst (snd x)) (map ?o ps)" using assms by (induction ps) auto
  from sig_run_steady [OF this, of "\<lparr>ss_seen = Some t0, ss_alerted = False\<rparr>" t0 min_persist] first
  show ?thesis unfolding run_refines by (simp add: list_ex_iff case_prod_beta del: sig_step.simps)
qed

end

section \<open>Gates that track their events\<close>

text \<open>An event still open in the cache is not emitted again, whatever the storage says.\<close>

lemma tracked_no_duplicate:
  assumes "gp_tracked p" and "js_get (gt_eventIds (fst s)) (gp_signatureOf p f) = Some i" and "i \<noteq> ''''"
    and "find_cached (fst (snd s)) i = Some e" and "\<not> ev_resolved e"
  shows "snd (gate_finding port p f s) = [] \<and> snd (fst (gate_finding port p f s)) = snd s
       \<and> gt_eventIds (fst (fst (gate_finding port p f s))) = gt_eventIds (fst s)"
proof -
  have "gt_eventIds (note_seen p sig g) = gt_eventIds g" for sig g by (simp add: note_seen_def)
  with assms show ?thesis by (simp add: gate_finding_def tracked_open_def truthy_def Let_def)
qed

text \<open>An event resolved by an operator while its condition persists is emitted anew.\<close>

lemma tracked_reemits:
  assumes "gp_tracked p" and "js_get (gt_eventIds (fst s)) (gp_signatureOf p f) = Some i" and "i \<noteq> ''''"
    and "find_cached (fst (snd s)) i = Some e" and "ev_resolved e"
    and "js_get (gt_firstSeen (fst s)) (gp_signatureOf p f) = Some t0" and "gp_minPersistMs p \<le> gp_timestamp p - t0"
  shows "snd (gate_finding port p f s) = [(gp_signatureOf p f, gp_buildEvent p f (gp_signatureOf p f))]
       \<and> js_get (gt_eventIds (fst (fst (gate_finding port p f s)))) (gp_signatureOf p f) =
           Some (ev_id (gp_buildEvent p f (gp_signatureOf p f)))"
proof -
  have "gt_eventIds (note_seen p sig g) = gt_eventIds g" for sig g by (simp add: note_seen_def)
  with assms show ?thesis
    by (simp add: gate_finding_def gate_emit_def tracked_open_def truthy_def js_get_or_def js_get_set Let_def)
qed

lemma auto_resolve_keeps:
  assumes "i \<in> set (current_signatures p) \<or> gp_preserve p i"
  shows "js_get (gt_eventIds (fst (auto_resolve port now p es s))) i = js_get (gt_eventIds (fst s)) i"
    and "gt_firstSeen (fst (auto_resolve port now p es s)) = gt_firstSeen (fst s)"
    and "gt_active (fst (auto_resolve port now p es s)) = gt_active (fst s)"
  using assms
  by (induction port now p es s rule: auto_resolve.induct) (auto simp: js_get_delete Let_def)

lemma gate_finding_other:
  assumes "k \<noteq> gp_signatureOf p f"
  shows "js_get (gt_firstSeen (fst (fst (gate_finding port p f s)))) k = js_get (gt_firstSeen (fst s)) k"
    and "js_get (gt_eventIds (fst (fst (gate_finding port p f s)))) k = js_get (gt_eventIds (fst s)) k"
    and "k \<in> set (gt_active (fst (fst (gate_finding port p f s)))) \<longleftrightarrow> k \<in> set (gt_active (fst s))"
  using assms
  by (auto simp: gate_finding_def gate_emit_def note_seen_def js_get_set js_get_delete Let_def split: option.split)

lemma gate_findings_other:
  assumes "k \<notin> gp_signatureOf p ` set xs"
  shows "js_get (gt_firstSeen (fst (fst (gate_findings port p xs s)))) k = js_get (gt_firstSeen (fst s)) k \<and>
     js_get (gt_eventIds (fst (fst (gate_findings port p xs s)))) k = js_get (gt_eventIds (fst s)) k \<and>
     (k \<in> set (gt_active (fst (fst (gate_findings port p xs s)))) \<longleftrightarrow> k \<in> set (gt_active (fst s)))"
  using assms
proof (induction xs arbitrary: s)
  case (Cons f xs)
  with gate_finding_other [of k p f port s] show ?case by (simp add: Let_def)
qed simp

text \<open>An observation gap keeps everything the gate knows of a signature.\<close>

lemma gate_gap_keeps:
  assumes "gp_preserve p k" and "k \<notin> set (current_signatures p)"
  shows "js_get (gt_firstSeen (fst (fst (applyTopologyPersistenceGate port now p s)))) k = js_get (gt_firstSeen (fst s)) k \<and>
     js_get (gt_eventIds (fst (fst (applyTopologyPersistenceGate port now p s)))) k = js_get (gt_eventIds (fst s)) k \<and>
     (k \<in> set (gt_active (fst (fst (applyTopologyPersistenceGate port now p s)))) \<longleftrightarrow> k \<in> set (gt_active (fst s)))"
proof -
  let ?r = "gate_findings port p (gp_findings p) (forget_recovered p (fst s), snd s)"
  have "sig_of k (forget_recovered p (fst s)) = sig_of k (fst s)" "gt_eventIds (forget_recovered p (fst s)) = gt_eventIds (fst s)"
    using assms(1) forget_recovered_sig [of k p "fst s"] by (simp_all add: forget_recovered_def)
  then have "js_get (gt_firstSeen (forget_recovered p (fst s))) k = js_get (gt_firstSeen (fst s)) k"
    "k \<in> set (gt_active (forget_recovered p (fst s))) \<longleftrightarrow> k \<in> set (gt_active (fst s))"
    "gt_eventIds (forget_recovered p (fst s)) = gt_eventIds (fst s)"
    by (simp_all add: sig_of_def)
  with gate_findings_other [of k p "gp_findings p" port "(forget_recovered p (fst s), snd s)"] assms(2)
  have r: "js_get (gt_firstSeen (fst (fst ?r))) k = js_get (gt_firstSeen (fst s)) k"
    "js_get (gt_eventIds (fst (fst ?r))) k = js_get (gt_eventIds (fst s)) k"
    "k \<in> set (gt_active (fst (fst ?r))) \<longleftrightarrow> k \<in> set (gt_active (fst s))"
    by (simp_all add: set_current_signatures)
  have "gp_preserve p k \<or> k \<in> set (current_signatures p)" using assms(1) by simp
  with r auto_resolve_keeps [of k p port now "gt_eventIds (fst (fst ?r))" "fst ?r"] show ?thesis
    by (auto simp: applyTopologyPersistenceGate_def keep_active_def Let_def)
qed

section \<open>Properties\<close>

text \<open>
  C1: A gate that does not track its events (every gate but the one of the replica slots) refines one
  machine per signature: over all findings of a poll, repeated signatures included, the state it
  keeps for a signature and the events it emits are exactly those of the machine that knows only
  when the signature was first seen and whether it is alerted. (A tracking gate may emit again after
  an operator resolved its event: \<open>tracked_gate_follows_feed\<close>.)
\<close>

theorem gate_refines_machine:
  assumes "\<not> gp_tracked p" and "applyTopologyPersistenceGate port now p s = (s', emitted)"
  shows "sig_of k (fst s') = fst (sig_step (gp_minPersistMs p) (sig_of k (fst s)) (sig_obs_of p k)) \<and>
    emitted = map (\<lambda>f. (gp_signatureOf p f, gp_buildEvent p f (gp_signatureOf p f)))
      (filter (\<lambda>f. snd (sig_step (gp_minPersistMs p) (sig_of (gp_signatureOf p f) (fst s)) (sig_obs_of p (gp_signatureOf p f))))
        (first_by (gp_signatureOf p) (gp_findings p)))"
  using gate_refines [OF assms(1), where port = port and now = now and s = s] assms(2) by (simp del: sig_step.simps)

definition sample_params :: "int \<Rightarrow> string list \<Rightarrow> string gate_params" where
  "sample_params t findings = \<lparr>gp_connId = ''c1'', gp_timestamp = t, gp_findings = findings, gp_signatureOf = (\<lambda>x. x), gp_minPersistMs = 30000,
     gp_buildEvent = (\<lambda>f sig. open_event sig), gp_tracked = False, gp_metricType = None, gp_preserve = (\<lambda>_. False)\<rparr>"

theorem gate_refines_machine_witness:
  "\<exists>s'. applyTopologyPersistenceGate memory_port 40000 (sample_params 40000 [''a'', ''b'', ''a''])
        (new_gate\<lparr>gt_firstSeen := [(''a'', 1000)]\<rparr>, empty_feed, []) = (s', [(''a'', open_event ''a'')])
      \<and> ss_alerted (sig_of ''a'' (fst s')) \<and> \<not> ss_alerted (sig_of ''b'' (fst s'))"
proof -
  let ?p = "sample_params 40000 [''a'', ''b'', ''a'']" and ?g = "new_gate\<lparr>gt_firstSeen := [(''a'', 1000)]\<rparr>"
  obtain s' es where r: "applyTopologyPersistenceGate memory_port 40000 ?p (?g, empty_feed, []) = (s', es)" by fastforce
  have un: "\<not> gp_tracked ?p" by (simp add: sample_params_def)
  note ref = gate_refines_machine [OF un r]
  have "map (\<lambda>f. (gp_signatureOf ?p f, gp_buildEvent ?p f (gp_signatureOf ?p f)))
      (filter (\<lambda>f. snd (sig_step (gp_minPersistMs ?p) (sig_of (gp_signatureOf ?p f) (fst (?g, empty_feed, [] :: StoredAnomalyEvent list)))
         (sig_obs_of ?p (gp_signatureOf ?p f)))) (first_by (gp_signatureOf ?p) (gp_findings ?p))) = [(''a'', open_event ''a'')]"
    by code_simp
  with ref have es: "es = [(''a'', open_event ''a'')]" by metis
  have "ss_alerted (fst (sig_step (gp_minPersistMs ?p) (sig_of ''a'' ?g) (sig_obs_of ?p ''a'')))"
    "\<not> ss_alerted (fst (sig_step (gp_minPersistMs ?p) (sig_of ''b'' ?g) (sig_obs_of ?p ''b'')))" by code_simp+
  with ref [of "''a''"] ref [of "''b''"] r es show ?thesis by simp
qed

text \<open>
  A gate that tracks its events follows the feed: while the event of a signature is open in the
  cache a persisting finding is not emitted again, and once an operator has resolved it the finding
  is emitted anew and the new event is the one tracked.
\<close>

theorem tracked_gate_follows_feed:
  assumes "gp_tracked p" and "js_get (gt_eventIds (fst s)) (gp_signatureOf p f) = Some i" and "i \<noteq> ''''"
    and "find_cached (fst (snd s)) i = Some e"
    and "js_get (gt_firstSeen (fst s)) (gp_signatureOf p f) = Some t0" and "gp_minPersistMs p \<le> gp_timestamp p - t0"
    and "gate_finding port p f s = (s', emitted)"
  shows "if ev_resolved e
    then emitted = [(gp_signatureOf p f, gp_buildEvent p f (gp_signatureOf p f))] \<and>
      js_get (gt_eventIds (fst s')) (gp_signatureOf p f) = Some (ev_id (gp_buildEvent p f (gp_signatureOf p f)))
    else emitted = [] \<and> snd s' = snd s \<and> gt_eventIds (fst s') = gt_eventIds (fst s)"
  using tracked_reemits [OF assms(1-4) _ assms(5,6), of port] tracked_no_duplicate [OF assms(1-4), of port] assms(7)
  by simp

theorem tracked_gate_follows_feed_witness:
  "\<exists>s'. gate_finding memory_port ((sample_params 40000 [''a''])\<lparr>gp_tracked := True\<rparr>) ''a''
       (new_gate\<lparr>gt_firstSeen := [(''a'', 1000)], gt_eventIds := [(''a'', ''e1'')]\<rparr>,
        addAnomaly memory_port (Some ''c1'') (open_event ''e1'') (empty_feed, [])) = (s', [])"
proof -
  let ?p = "(sample_params 40000 [''a''])\<lparr>gp_tracked := True\<rparr>"
  let ?s = "(new_gate\<lparr>gt_firstSeen := [(''a'', 1000)], gt_eventIds := [(''a'', ''e1'')]\<rparr>,
        addAnomaly memory_port (Some ''c1'') (open_event ''e1'') (empty_feed, []))"
  obtain s' es where r: "gate_finding memory_port ?p ''a'' ?s = (s', es)" by fastforce
  have "map_option ev_resolved (find_cached (fst (snd ?s)) ''e1'') = Some False" by code_simp
  then obtain e where e: "find_cached (fst (snd ?s)) ''e1'' = Some e" "\<not> ev_resolved e" by auto
  have "gp_tracked ?p" "js_get (gt_eventIds (fst ?s)) (gp_signatureOf ?p ''a'') = Some ''e1''" "''e1'' \<noteq> ''''"
    "js_get (gt_firstSeen (fst ?s)) (gp_signatureOf ?p ''a'') = Some 1000" "gp_minPersistMs ?p \<le> gp_timestamp ?p - 1000"
    by (simp_all add: sample_params_def)
  from tracked_gate_follows_feed [OF this(1-3) e(1) this(4,5) r] e(2) have "es = []" by simp
  with r show ?thesis by blast
qed

text \<open>
  The storage check of the dedupe reads one page: with an open row older than a hundred other
  open rows of its metric and connection, the row counts as resolved, so a tracked event that
  left the cache is emitted a second time next to its open row.
\<close>

theorem open_row_beyond_page_looks_resolved:
  "(let row = (\<lambda>i t. toStoredAnomalyEvent ((open_event i)\<lparr>ev_timestamp := t\<rparr>) None);
        rows = row ''old'' 1 # map (\<lambda>n. row (show_nat n) (2 + int n)) [0..<100]
    in (\<exists>r \<in> set rows. se_id r = ''old'' \<and> \<not> se_resolved r) \<and>
       \<not> isAnomalyUnresolvedInStorage sqlite_port ''old'' ''c1'' (Some REPLICA_SLOT_STATE) (Some rows))"
  by code_simp

end
