(* ===== verification/Ghost_Membership.thy ===== *)
theory Ghost_Membership
  imports Cluster_Types
begin

text \<open>
  Endpoint-identity faults of a CLUSTER NODES view, ghost-membership-detector.ts: stale twins, live
  endpoint collisions and loopback flips. \<open>localeCompare\<close> is the order of a collation key, the
  argument \<open>collate\<close>; what the code relies on is that different ids have different keys.
\<close>

datatype GhostReason = stale_twin | live_endpoint_collision | loopback_flip

record GhostMember =
  gm_reason :: GhostReason
  gm_endpoint :: string
  gm_ghostIds :: "string list"
  gm_liveId :: string
  gm_liveFlags :: "string list"
  gm_collidingIds :: "string list"
  gm_selfReplicatingIds :: "string list"
  gm_stableIds :: "string list"

definition GHOST_FLAGS :: "string list" where
  "GHOST_FLAGS = [''fail'', ''fail?'', ''noaddr'']"

definition isGhost :: "ClusterNode \<Rightarrow> bool" where
  "isGhost node = list_ex (has_flag node) GHOST_FLAGS"

definition countsForCensus :: "ClusterNode \<Rightarrow> bool" where
  "countsForCensus node =
     (if has_flag node ''handshake'' then False
      else \<not> has_flag node ''fail'' \<and> \<not> has_flag node ''noaddr'')"

definition isEstablished :: "ClusterNode \<Rightarrow> bool" where
  "isEstablished node = (if isGhost node then False else \<not> has_flag node ''handshake'')"

section \<open>Endpoints\<close>

text \<open>Everything before the last colon, or all of it when there is none.\<close>

definition before_last_colon :: "string \<Rightarrow> string" where
  "before_last_colon s =
     (if CHR '':'' \<in> set s then rev (tl (dropWhile (\<lambda>c. c \<noteq> CHR '':'') (rev s))) else s)"

definition canonicalEndpoint :: "string \<Rightarrow> string" where
  "canonicalEndpoint address =
     (let hostPort = takeWhile (\<lambda>c. c \<noteq> CHR ''@'') address; host = before_last_colon hostPort
      in if host \<noteq> '''' then hostPort else '''')"

definition endpointHost :: "string \<Rightarrow> string" where
  "endpointHost endpoint =
     (let host = before_last_colon endpoint;
          h1 = (if host \<noteq> '''' \<and> hd host = CHR ''['' then tl host else host)
      in if h1 \<noteq> '''' \<and> last h1 = CHR '']'' then butlast h1 else h1)"

definition isLoopbackHost :: "string \<Rightarrow> bool" where
  "isLoopbackHost host =
     (let normalized = toLowerCase host in
      if normalized = ''localhost'' \<or> normalized = ''::1'' then True else take 4 normalized = ''127.'')"

section \<open>Detection\<close>

definition preferredOccupant :: "(string \<Rightarrow> string) \<Rightarrow> ClusterNode list \<Rightarrow> ClusterNode" where
  "preferredOccupant collate live =
     (let ordered = sort_key (\<lambda>n. collate (cn_id n)) live
      in case List.find isEstablished ordered of Some n \<Rightarrow> n | None \<Rightarrow> ordered ! 0)"

definition sortedDistinctIds :: "ClusterNode list \<Rightarrow> string list" where
  "sortedDistinctIds nodes = sort (js_uniq (map cn_id nodes))"

definition endpoint_key :: "ClusterNode \<Rightarrow> string option" where
  "endpoint_key node = (let endpoint = canonicalEndpoint (cn_address node)
     in if endpoint = '''' then None else Some endpoint)"

definition selfReplicating :: "ClusterNode list \<Rightarrow> string list" where
  "selfReplicating nodes =
     js_uniq (map cn_id (filter (\<lambda>n. cn_master n \<noteq> '''' \<and> cn_master n \<noteq> ''-'' \<and> cn_master n = cn_id n) nodes))"

definition selfReplicatingAmong :: "ClusterNode list \<Rightarrow> string list \<Rightarrow> string list" where
  "selfReplicatingAmong nodes ids = sort (filter (\<lambda>i. i \<in> set (selfReplicating nodes)) ids)"

definition census_step :: "(string, bool) jsmap \<Rightarrow> ClusterNode \<Rightarrow> (string, bool) jsmap" where
  "census_step census n =
     (if \<not> countsForCensus n then census
      else case endpoint_key n of
        None \<Rightarrow> census
      | Some endpoint \<Rightarrow> js_set endpoint (isLoopbackHost (endpointHost endpoint)) census)"

definition censusEndpoints :: "ClusterNode list \<Rightarrow> (string, bool) jsmap" where
  "censusEndpoints nodes = foldl census_step [] nodes"

definition loopbackIsOddOneOut :: "ClusterNode list \<Rightarrow> bool" where
  "loopbackIsOddOneOut nodes =
     (let loopbackEndpoints = length (filter snd (censusEndpoints nodes));
          routableEndpoints = length (filter (\<lambda>e. \<not> snd e) (censusEndpoints nodes))
      in routableEndpoints > 0 \<and> routableEndpoints > loopbackEndpoints)"

text \<open>The live-twin branch and the dead-twin branch of the loop over endpoints.\<close>

definition live_finding ::
  "(string \<Rightarrow> string) \<Rightarrow> ClusterNode list \<Rightarrow> string \<Rightarrow> ClusterNode list \<Rightarrow> GhostMember list" where
  "live_finding collate nodes endpoint grp =
     (let live = filter (\<lambda>n. \<not> isGhost n) grp;
          established = filter isEstablished grp;
          isLoopbackFlip = (loopbackIsOddOneOut nodes \<and> isLoopbackHost (endpointHost endpoint) \<and> length live > 0)
      in if isLoopbackFlip then
           let occupant = preferredOccupant collate live;
               collidingIds = sortedDistinctIds live;
               establishedIds = sortedDistinctIds established
           in [\<lparr>gm_reason = loopback_flip, gm_endpoint = endpoint, gm_ghostIds = [],
                gm_liveId = cn_id occupant, gm_liveFlags = cn_flags occupant, gm_collidingIds = collidingIds,
                gm_selfReplicatingIds = selfReplicatingAmong nodes collidingIds,
                gm_stableIds = (if length establishedIds > 0 then establishedIds else [cn_id occupant])\<rparr>]
         else if length (sortedDistinctIds established) \<ge> 2 then
           let occupant = preferredOccupant collate established;
               collidingIds = sortedDistinctIds established
           in [\<lparr>gm_reason = live_endpoint_collision, gm_endpoint = endpoint, gm_ghostIds = [],
                gm_liveId = cn_id occupant, gm_liveFlags = cn_flags occupant, gm_collidingIds = collidingIds,
                gm_selfReplicatingIds = selfReplicatingAmong nodes collidingIds, gm_stableIds = collidingIds\<rparr>]
         else [])"

definition twin_finding ::
  "(string \<Rightarrow> string) \<Rightarrow> ClusterNode list \<Rightarrow> string \<Rightarrow> ClusterNode list \<Rightarrow> GhostMember list" where
  "twin_finding collate nodes endpoint grp =
     (let ghosts = filter isGhost grp; live = filter (\<lambda>n. \<not> isGhost n) grp in
      if length ghosts = 0 \<or> length live = 0 then []
      else
        let occupant = preferredOccupant collate live;
            ghostIds = filter (\<lambda>i. i \<noteq> cn_id occupant) (sortedDistinctIds ghosts)
        in if length ghostIds = 0 then []
           else [\<lparr>gm_reason = stale_twin, gm_endpoint = endpoint, gm_ghostIds = ghostIds,
                  gm_liveId = cn_id occupant, gm_liveFlags = cn_flags occupant, gm_collidingIds = [],
                  gm_selfReplicatingIds = selfReplicatingAmong nodes (cn_id occupant # ghostIds),
                  gm_stableIds = sort (cn_id occupant # ghostIds)\<rparr>])"

definition detectGhostMembers :: "(string \<Rightarrow> string) \<Rightarrow> ClusterNode list \<Rightarrow> GhostMember list" where
  "detectGhostMembers collate nodes =
     concat (map (\<lambda>(endpoint, grp). live_finding collate nodes endpoint grp @ twin_finding collate nodes endpoint grp)
       (group_into endpoint_key nodes []))"

fun ghost_reason_text :: "GhostReason \<Rightarrow> string" where
  "ghost_reason_text stale_twin = ''stale_twin''"
| "ghost_reason_text live_endpoint_collision = ''live_endpoint_collision''"
| "ghost_reason_text loopback_flip = ''loopback_flip''"

definition ghostMemberSignature :: "GhostMember \<Rightarrow> string" where
  "ghostMemberSignature g =
     (let selfReplicating = (if length (gm_selfReplicatingIds g) > 0 then ''selfrep'' else ''norep'')
      in ghost_reason_text (gm_reason g) @ ''|'' @ gm_endpoint g @ ''|'' @ js_join '','' (sort (gm_stableIds g)) @ ''|'' @ selfReplicating)"

section \<open>Order independence\<close>

lemma sortedDistinctIds_cong: "set xs = set ys \<Longrightarrow> sortedDistinctIds xs = sortedDistinctIds ys"
  unfolding sortedDistinctIds_def by (rule sort_uniq_cong) auto

lemma set_sortedDistinctIds [simp]: "set (sortedDistinctIds xs) = cn_id ` set xs"
  by (simp add: sortedDistinctIds_def)

lemma selfReplicatingAmong_cong:
  assumes "set nodes = set nodes'"
  shows "selfReplicatingAmong nodes ids = selfReplicatingAmong nodes' ids"
  using assms by (simp add: selfReplicatingAmong_def selfReplicating_def)

lemma preferredOccupant_perm:
  assumes "mset xs = mset ys" and "distinct (map cn_id xs)" and "inj_on collate (cn_id ` set xs)"
  shows "preferredOccupant collate xs = preferredOccupant collate ys"
proof -
  have "inj_on (\<lambda>n. collate (cn_id n)) (set xs)"
    using assms(2,3) comp_inj_on [of cn_id "set xs" collate] by (simp add: distinct_map comp_def)
  from sort_key_eq_sort_key [OF assms(1) this] show ?thesis by (simp add: preferredOccupant_def)
qed

definition census_inv :: "ClusterNode list \<Rightarrow> (string, bool) jsmap \<Rightarrow> bool" where
  "census_inv nodes m \<longleftrightarrow> wf_map m \<and>
     set m = {(e, isLoopbackHost (endpointHost e)) |e. \<exists>n \<in> set nodes. countsForCensus n \<and> endpoint_key n = Some e}"

lemma census_step_inv: "census_inv nodes m \<Longrightarrow> census_inv (nodes @ [n]) (census_step m n)"
proof (cases "countsForCensus n \<and> endpoint_key n \<noteq> None")
  case True
  then obtain e where e: "endpoint_key n = Some e" by auto
  let ?v = "isLoopbackHost (endpointHost e)"
  assume inv: "census_inv nodes m"
  have step: "census_step m n = js_set e ?v m" using True e by (simp add: census_step_def)
  have wf: "wf_map (js_set e ?v m)" using inv by (simp add: census_inv_def)
  have "(k, v) \<in> set (js_set e ?v m) \<longleftrightarrow> (k = e \<and> v = ?v) \<or> (k \<noteq> e \<and> (k, v) \<in> set m)" for k v
    using js_get_in_set [OF wf, of k v] js_get_in_set [of m k v] inv
    by (auto simp: js_get_set census_inv_def [of nodes] simp del: update_Some_unfold)
  then show ?thesis using inv True e wf step by (auto simp: census_inv_def)
next
  case False
  assume inv: "census_inv nodes m"
  have "census_step m n = m" using False by (auto simp: census_step_def split: option.split)
  with inv False show ?thesis by (auto simp: census_inv_def)
qed

lemma census_all: "census_inv nodes (censusEndpoints nodes)"
proof (induction nodes rule: rev_induct)
  case (snoc n nodes)
  from census_step_inv [OF this] show ?case by (simp add: censusEndpoints_def)
qed (simp add: census_inv_def censusEndpoints_def)

lemma census_cong:
  assumes "set nodes = set nodes'"
  shows "loopbackIsOddOneOut nodes = loopbackIsOddOneOut nodes'"
proof -
  have d: "distinct (censusEndpoints xs)" for xs
    using census_all [of xs] distinct_map by (auto simp: census_inv_def wf_map_def)
  have "set (censusEndpoints nodes) = set (censusEndpoints nodes')"
    using census_all [of nodes] census_all [of nodes'] assms by (simp add: census_inv_def)
  then have "mset (censusEndpoints nodes) = mset (censusEndpoints nodes')"
    using d by (simp add: set_eq_iff_mset_eq_distinct)
  then have len: "length (filter P (censusEndpoints nodes)) = length (filter P (censusEndpoints nodes'))" for P
    by (metis mset_filter size_mset)
  show ?thesis by (simp only: loopbackIsOddOneOut_def len Let_def)
qed

lemma ghost_group_cong:
  assumes "mset nodes = mset nodes'" and "mset grp = mset grp'" and "set grp \<subseteq> set nodes"
    and "distinct (map cn_id nodes)" and "inj_on collate (cn_id ` set nodes)" and "distinct (map cn_id grp)"
  shows "live_finding collate nodes e grp = live_finding collate nodes' e grp'"
    and "twin_finding collate nodes e grp = twin_finding collate nodes' e grp'"
proof -
  have sets: "set nodes = set nodes'" "set grp = set grp'"
    using assms(1,2) by (metis set_mset_mset)+
  have filters: "mset (filter P grp) = mset (filter P grp')" "set (filter P grp) = set (filter P grp')" for P
    using assms(2) sets by simp_all
  have sub: "inj_on collate (cn_id ` set (filter P grp))" for P
    using assms(3,5) by (rule_tac inj_on_subset) auto
  have dist: "distinct (map cn_id (filter P grp))" for P
    using assms(6) by (simp add: distinct_map_filter)
  have occ: "preferredOccupant collate (filter P grp) = preferredOccupant collate (filter P grp')" for P
    by (rule preferredOccupant_perm [OF filters(1) dist sub])
  have ids: "sortedDistinctIds (filter P grp) = sortedDistinctIds (filter P grp')" for P
    by (rule sortedDistinctIds_cong [OF filters(2)])
  have len: "length (filter P grp) = length (filter P grp')" for P
    using filters(1) by (metis size_mset)
  note eqs = occ ids len selfReplicatingAmong_cong [OF sets(1)] census_cong [OF sets(1)]
  show "live_finding collate nodes e grp = live_finding collate nodes' e grp'"
    by (simp only: live_finding_def Let_def eqs)
  show "twin_finding collate nodes e grp = twin_finding collate nodes' e grp'"
    by (simp only: twin_finding_def Let_def eqs)
qed

lemma detectGhostMembers_mem:
  "g \<in> set (detectGhostMembers collate nodes) \<longleftrightarrow>
     (\<exists>e n. n \<in> set nodes \<and> endpoint_key n = Some e \<and>
        g \<in> set (live_finding collate nodes e (filter (\<lambda>x. endpoint_key x = Some e) nodes)
                 @ twin_finding collate nodes e (filter (\<lambda>x. endpoint_key x = Some e) nodes)))"
proof
  assume "g \<in> set (detectGhostMembers collate nodes)"
  then obtain e grp where grp: "(e, grp) \<in> set (group_into endpoint_key nodes [])"
    and g: "g \<in> set (live_finding collate nodes e grp @ twin_finding collate nodes e grp)"
    by (auto simp: detectGhostMembers_def)
  from group_into_entry [OF grp] have "grp = filter (\<lambda>x. endpoint_key x = Some e) nodes" "grp \<noteq> []" by auto
  moreover from \<open>grp \<noteq> []\<close> have "hd grp \<in> set grp" by (rule hd_in_set)
  with \<open>grp = _\<close> have "hd grp \<in> set nodes \<and> endpoint_key (hd grp) = Some e" by auto
  ultimately show "\<exists>e n. n \<in> set nodes \<and> endpoint_key n = Some e \<and>
        g \<in> set (live_finding collate nodes e (filter (\<lambda>x. endpoint_key x = Some e) nodes)
                 @ twin_finding collate nodes e (filter (\<lambda>x. endpoint_key x = Some e) nodes))"
    using g by blast
next
  assume "\<exists>e n. n \<in> set nodes \<and> endpoint_key n = Some e \<and>
        g \<in> set (live_finding collate nodes e (filter (\<lambda>x. endpoint_key x = Some e) nodes)
                 @ twin_finding collate nodes e (filter (\<lambda>x. endpoint_key x = Some e) nodes))"
  then obtain e n where "n \<in> set nodes" "endpoint_key n = Some e"
    and g: "g \<in> set (live_finding collate nodes e (filter (\<lambda>x. endpoint_key x = Some e) nodes)
                 @ twin_finding collate nodes e (filter (\<lambda>x. endpoint_key x = Some e) nodes))" by blast
  from group_into_complete [of n nodes endpoint_key e] this
  show "g \<in> set (detectGhostMembers collate nodes)" by (force simp: detectGhostMembers_def)
qed

section \<open>Properties\<close>

text \<open>
  Ghost findings do not depend on the line order of CLUSTER NODES: two views with the same nodes
  (each id once, ids told apart by the collation) give the same findings, hence the same
  signatures, so reordering never restarts a persistence window.
\<close>

theorem ghost_findings_order_independent:
  assumes "mset nodes' = mset nodes" and "distinct (map cn_id nodes)" and "inj_on collate (cn_id ` set nodes)"
  shows "set (detectGhostMembers collate nodes') = set (detectGhostMembers collate nodes)"
proof -
  have sets: "set nodes' = set nodes" using assms(1) by (metis set_mset_mset)
  have eq: "live_finding collate nodes e (filter (\<lambda>x. endpoint_key x = Some e) nodes)
            = live_finding collate nodes' e (filter (\<lambda>x. endpoint_key x = Some e) nodes')"
    "twin_finding collate nodes e (filter (\<lambda>x. endpoint_key x = Some e) nodes)
            = twin_finding collate nodes' e (filter (\<lambda>x. endpoint_key x = Some e) nodes')" for e
    using ghost_group_cong [OF assms(1) [symmetric], of "filter (\<lambda>x. endpoint_key x = Some e) nodes"
        "filter (\<lambda>x. endpoint_key x = Some e) nodes'" collate e] assms
    by (auto simp: distinct_map_filter)
  show ?thesis by (simp only: set_eq_iff detectGhostMembers_mem eq sets simp_thms)
qed

lemma preferredOccupant_mem:
  assumes "live \<noteq> []"
  shows "preferredOccupant collate live \<in> set live"
proof -
  define ordered where "ordered = sort_key (\<lambda>n. collate (cn_id n)) live"
  have same: "set ordered = set live" by (simp add: ordered_def)
  then have ne: "ordered \<noteq> []" using assms by auto
  show ?thesis
  proof (cases "List.find isEstablished ordered")
    case None
    with ne same show ?thesis
      by (metis (no_types, lifting) hd_conv_nth hd_in_set option.case(1) ordered_def preferredOccupant_def)
  next
    case (Some n)
    then have "n \<in> set ordered" by (auto simp: find_Some_iff)
    with Some same show ?thesis by (simp add: preferredOccupant_def ordered_def [symmetric] Let_def)
  qed
qed

text \<open>
  C35: FORGET advice is safe: in a view with distinct ids every id a stale-twin finding tells the
  operator to forget belongs to a node of that endpoint flagged dead, differs from the live
  occupant, and the occupant is a node of that endpoint not flagged dead.
\<close>

theorem ghost_forget_targets_safe:
  assumes "g \<in> set (detectGhostMembers collate nodes)" and "gm_reason g = stale_twin"
  shows "gm_ghostIds g \<noteq> [] \<and> gm_liveId g \<notin> set (gm_ghostIds g) \<and>
     (\<forall>i \<in> set (gm_ghostIds g). \<exists>n \<in> set nodes. cn_id n = i \<and> isGhost n \<and> endpoint_key n = Some (gm_endpoint g)) \<and>
     (\<exists>n \<in> set nodes. cn_id n = gm_liveId g \<and> \<not> isGhost n \<and> endpoint_key n = Some (gm_endpoint g))"
proof -
  from assms(1) obtain e where
    g: "g \<in> set (live_finding collate nodes e (filter (\<lambda>x. endpoint_key x = Some e) nodes)
                 @ twin_finding collate nodes e (filter (\<lambda>x. endpoint_key x = Some e) nodes))"
    unfolding detectGhostMembers_mem by blast
  have "g \<notin> set (live_finding collate nodes e (filter (\<lambda>x. endpoint_key x = Some e) nodes))"
    using assms(2) by (auto simp: live_finding_def Let_def split: if_splits)
  with g have tw: "g \<in> set (twin_finding collate nodes e (filter (\<lambda>x. endpoint_key x = Some e) nodes))" by simp
  let ?live = "filter (\<lambda>n. \<not> isGhost n) (filter (\<lambda>x. endpoint_key x = Some e) nodes)"
  have "?live \<noteq> []" using tw by (auto simp: twin_finding_def Let_def split: if_splits)
  from preferredOccupant_mem [OF this, of collate] tw show ?thesis
    unfolding twin_finding_def Let_def by (auto split: if_splits)
qed

text \<open>
  A cluster whose counted nodes all advertise loopback addresses, the normal local development
  topology, is never reported as a loopback flip.
\<close>

theorem all_loopback_not_flagged:
  assumes "\<forall>n \<in> set nodes. \<forall>e. countsForCensus n \<and> endpoint_key n = Some e \<longrightarrow> isLoopbackHost (endpointHost e)"
  shows "\<forall>g \<in> set (detectGhostMembers collate nodes). gm_reason g \<noteq> loopback_flip"
proof -
  have "filter (\<lambda>e. \<not> snd e) (censusEndpoints nodes) = []"
    using census_all [of nodes] assms by (auto simp: census_inv_def filter_empty_conv)
  then have "\<not> loopbackIsOddOneOut nodes" by (simp add: loopbackIsOddOneOut_def)
  then show ?thesis
    by (auto simp: detectGhostMembers_mem live_finding_def twin_finding_def Let_def split: if_splits)
qed

definition ghost_node :: "string \<Rightarrow> string \<Rightarrow> string list \<Rightarrow> ClusterNode" where
  "ghost_node nid address flags = \<lparr>cn_id = nid, cn_address = address, cn_flags = flags, cn_master = ''-'',
     cn_pingSent = 0, cn_pongReceived = 0, cn_configEpoch = 0, cn_linkState = ''connected'',
     cn_slots = [], cn_migratingSlots = None, cn_importingSlots = None, cn_hostname = None\<rparr>"

lemmas ghost_eval = ghost_node_def isGhost_def GHOST_FLAGS_def isEstablished_def has_flag_def endpoint_key_def
  canonicalEndpoint_def before_last_colon_def

theorem ghost_findings_order_independent_witness:
  "set (detectGhostMembers (\<lambda>x. x) [ghost_node ''b'' ''10.0.0.1:1@2'' [''master''], ghost_node ''a'' ''10.0.0.1:1@2'' [''fail'']])
   = set (detectGhostMembers (\<lambda>x. x) [ghost_node ''a'' ''10.0.0.1:1@2'' [''fail''], ghost_node ''b'' ''10.0.0.1:1@2'' [''master'']])"
  by (rule ghost_findings_order_independent) (simp_all add: ghost_node_def add_mset_commute)

theorem ghost_forget_targets_safe_witness:
  "\<exists>g \<in> set (detectGhostMembers (\<lambda>x. x) [ghost_node ''a'' ''h:1'' [''fail''], ghost_node ''b'' ''h:1'' [''master'']]).
     gm_ghostIds g = [''a''] \<and> gm_liveId g \<notin> set (gm_ghostIds g)"
proof -
  let ?nodes = "[ghost_node ''a'' ''h:1'' [''fail''], ghost_node ''b'' ''h:1'' [''master'']]"
  have "\<exists>g \<in> set (detectGhostMembers (\<lambda>x. x) ?nodes). gm_reason g = stale_twin \<and> gm_ghostIds g = [''a'']"
    by (simp add: detectGhostMembers_def ghost_eval bucket_push_def js_get_or_def twin_finding_def
        preferredOccupant_def sortedDistinctIds_def js_uniq_def Let_def)
  with ghost_forget_targets_safe [of _ "\<lambda>x. x" ?nodes] show ?thesis by blast
qed

theorem all_loopback_not_flagged_witness:
  "\<forall>g \<in> set (detectGhostMembers (\<lambda>x. x) [ghost_node ''a'' ''127.0.0.1:1'' [''master''], ghost_node ''b'' ''127.0.0.1:2'' [''master'']]).
     gm_reason g \<noteq> loopback_flip"
  by (rule all_loopback_not_flagged)
    (simp add: ghost_eval endpointHost_def isLoopbackHost_def toLowerCase_def lower_char_def Let_def)

end
