(* ===== verification/Ghost_History.thy ===== *)
theory Ghost_History
  imports Ghost_Membership
begin

text \<open>
  The membership history of a connection, ghost-membership-history.ts: ids that left the
  membership set and came back by themselves after a CLUSTER FORGET. The class's two fields are
  the record \<open>ghost_history\<close>; \<open>observe\<close> is its one operation, in the four phases of the source
  (age the departed, read the view, record departures, evict).
\<close>

definition MIN_ABSENT_POLLS :: nat where "MIN_ABSENT_POLLS = 2"
definition MIN_ABSENT_MS :: int where "MIN_ABSENT_MS = 60000"
definition DEPARTED_RETENTION_MS :: int where "DEPARTED_RETENTION_MS = 6 * 60 * 60 * 1000"
definition MAX_DEPARTED_ENTRIES :: nat where "MAX_DEPARTED_ENTRIES = 512"
definition NON_LIVE_FLAGS :: "string list" where "NON_LIVE_FLAGS = [''fail'', ''fail?'', ''noaddr'']"

record ForgetRejoin =
  fr_nodeId :: string
  fr_endpoint :: string
  fr_flags :: "string list"
  fr_departedAt :: int
  fr_returnedAt :: int
  fr_absentPolls :: nat

record DepartedEntry =
  de_departedAt :: int
  de_absentPolls :: nat

record ghost_history =
  gh_present :: "string list"
  gh_departed :: "(string, DepartedEntry) jsmap"

definition new_history :: ghost_history where
  "new_history = \<lparr>gh_present = [], gh_departed = []\<rparr>"

definition isLive :: "ClusterNode \<Rightarrow> bool" where
  "isLive node = (\<not> list_ex (has_flag node) NON_LIVE_FLAGS)"

definition age_departed :: "string list \<Rightarrow> (string, DepartedEntry) jsmap \<Rightarrow> (string, DepartedEntry) jsmap" where
  "age_departed seenThisPoll departed =
     map (\<lambda>(nodeId, entry). if nodeId \<in> set seenThisPoll then (nodeId, entry)
                           else (nodeId, entry\<lparr>de_absentPolls := de_absentPolls entry + 1\<rparr>)) departed"

fun read_view :: "int \<Rightarrow> ClusterNode list \<Rightarrow> ghost_history \<Rightarrow> ghost_history \<times> ForgetRejoin list" where
  "read_view timestamp [] h = (h, [])"
| "read_view timestamp (node # nodes) h =
     (case js_get (gh_departed h) (cn_id node) of
        None \<Rightarrow> read_view timestamp nodes (h\<lparr>gh_present := set_add (cn_id node) (gh_present h)\<rparr>)
      | Some entry \<Rightarrow>
          if \<not> isLive node then read_view timestamp nodes h
          else
            let h1 = h\<lparr>gh_departed := js_delete (cn_id node) (gh_departed h),
                       gh_present := set_add (cn_id node) (gh_present h)\<rparr>
            in if de_absentPolls entry < MIN_ABSENT_POLLS then read_view timestamp nodes h1
               else if timestamp - de_departedAt entry < MIN_ABSENT_MS then read_view timestamp nodes h1
               else let (h', fs) = read_view timestamp nodes h1
                    in (h', \<lparr>fr_nodeId = cn_id node, fr_endpoint = canonicalEndpoint (cn_address node),
                             fr_flags = cn_flags node, fr_departedAt = de_departedAt entry,
                             fr_returnedAt = timestamp, fr_absentPolls = de_absentPolls entry\<rparr> # fs))"

definition record_departures :: "int \<Rightarrow> string list \<Rightarrow> ghost_history \<Rightarrow> ghost_history" where
  "record_departures timestamp seenThisPoll h =
     (let departing = filter (\<lambda>i. i \<notin> set seenThisPoll) (gh_present h);
          viewReset = (length departing \<ge> 2 \<and> length seenThisPoll \<le> 1);
          present' = filter (\<lambda>i. i \<notin> set departing) (gh_present h)
      in if viewReset then h\<lparr>gh_present := present', gh_departed := []\<rparr>
         else h\<lparr>gh_present := present',
                gh_departed := foldl (\<lambda>m i. js_set i \<lparr>de_departedAt = timestamp, de_absentPolls = 1\<rparr> m)
                                 (gh_departed h) departing\<rparr>)"

definition evictStaleDepartures :: "int \<Rightarrow> ghost_history \<Rightarrow> ghost_history" where
  "evictStaleDepartures timestamp h =
     (let kept = filter (\<lambda>(_, e). timestamp - de_departedAt e \<le> DEPARTED_RETENTION_MS) (gh_departed h) in
      if length kept \<le> MAX_DEPARTED_ENTRIES then h\<lparr>gh_departed := kept\<rparr>
      else
        let oldestFirst = sort_key (\<lambda>(_, e). de_departedAt e) kept;
            excess = length kept - MAX_DEPARTED_ENTRIES
        in h\<lparr>gh_departed := foldl (\<lambda>m (nodeId, _). js_delete nodeId m) kept (take excess oldestFirst)\<rparr>)"

definition observe :: "ghost_history \<Rightarrow> ClusterNode list \<Rightarrow> int \<Rightarrow> ghost_history \<times> ForgetRejoin list" where
  "observe h nodes timestamp =
     (let seenThisPoll = js_uniq (map cn_id nodes);
          h1 = h\<lparr>gh_departed := age_departed seenThisPoll (gh_departed h)\<rparr>;
          (h2, findings) = read_view timestamp nodes h1;
          h3 = record_departures timestamp seenThisPoll h2
      in (evictStaleDepartures timestamp h3, findings))"

definition departedCount :: "ghost_history \<Rightarrow> nat" where
  "departedCount h = length (gh_departed h)"

fun observe_run :: "ghost_history \<Rightarrow> (ClusterNode list \<times> int) list \<Rightarrow> ghost_history \<times> ForgetRejoin list" where
  "observe_run h [] = (h, [])"
| "observe_run h ((nodes, t) # ps) =
     (let (h', fs) = observe h nodes t; (h'', gs) = observe_run h' ps in (h'', fs @ gs))"

section \<open>The invariant\<close>

definition history_inv :: "ghost_history \<Rightarrow> bool" where
  "history_inv h \<longleftrightarrow> distinct (gh_present h) \<and> wf_map (gh_departed h) \<and>
     set (gh_present h) \<inter> fst ` set (gh_departed h) = {}"

lemma distinct_set_add [simp]: "distinct (set_add x xs) \<longleftrightarrow> distinct xs"
  by (auto simp: set_add_def)

lemma age_departed_keys [simp]: "map fst (age_departed seen m) = map fst m"
  by (induction m) (auto simp: age_departed_def)

lemma age_departed_key_set [simp]: "fst ` set (age_departed seen m) = fst ` set m"
  by (metis age_departed_keys list.set_map)

lemma age_departed_wf [simp]: "wf_map (age_departed seen m) = wf_map m"
  by (simp add: wf_map_def)

lemma read_view_inv: "history_inv h \<Longrightarrow> history_inv (fst (read_view t nodes h))"
proof (induction t nodes h rule: read_view.induct)
  case (2 t node nodes h)
  show ?case
  proof (cases "js_get (gh_departed h) (cn_id node)")
    case None
    then have "cn_id node \<notin> fst ` set (gh_departed h)" by (simp add: map_of_eq_None_iff)
    with 2(1) [OF None] 2(6) None show ?thesis by (simp add: history_inv_def)
  next
    case (Some e)
    have "history_inv (h\<lparr>gh_departed := js_delete (cn_id node) (gh_departed h),
                       gh_present := set_add (cn_id node) (gh_present h)\<rparr>)"
      using 2(6) by (auto simp: history_inv_def js_simps)
    with 2(2-6) Some show ?thesis by (simp add: Let_def case_prod_beta)
  qed
qed simp

lemma foldl_set_keys: "fst ` set (foldl (\<lambda>m i. js_set i v m) m is) = fst ` set m \<union> set is"
  by (induction "is" arbitrary: m) (auto simp: js_simps)

lemma foldl_set_wf: "wf_map m \<Longrightarrow> wf_map (foldl (\<lambda>m i. js_set i v m) m is)"
  by (induction "is" arbitrary: m) auto

lemma record_departures_inv: "history_inv h \<Longrightarrow> history_inv (record_departures t seen h)"
  by (auto simp: record_departures_def history_inv_def Let_def foldl_set_keys foldl_set_wf)

lemma foldl_delete_sub: "set (foldl (\<lambda>m (k, _). js_delete k m) m ks) \<subseteq> set m"
proof (induction ks arbitrary: m)
  case (Cons p ks)
  have "set (js_delete (fst p) m) \<subseteq> set m" by (auto simp: AList.delete_eq)
  with Cons.IH [of "js_delete (fst p) m"] show ?case by (simp add: case_prod_beta)
qed simp

lemma foldl_delete_wf: "wf_map m \<Longrightarrow> wf_map (foldl (\<lambda>m (k, _). js_delete k m) m ks)"
  by (induction ks arbitrary: m) (auto split: prod.splits)

lemma evict_sub: "set (gh_departed (evictStaleDepartures t h)) \<subseteq>
    {(k, e) \<in> set (gh_departed h). t - de_departedAt e \<le> DEPARTED_RETENTION_MS}"
proof -
  let ?kept = "filter (\<lambda>(_, e). t - de_departedAt e \<le> DEPARTED_RETENTION_MS) (gh_departed h)"
  have "gh_departed (evictStaleDepartures t h) = ?kept \<or>
      (\<exists>ks :: (string \<times> DepartedEntry) list. gh_departed (evictStaleDepartures t h) = foldl (\<lambda>m (k, _). js_delete k m) ?kept ks)"
  proof (cases "length ?kept \<le> MAX_DEPARTED_ENTRIES")
    case False
    then have "gh_departed (evictStaleDepartures t h) = foldl (\<lambda>m (k, _). js_delete k m) ?kept
        (take (length ?kept - MAX_DEPARTED_ENTRIES) (sort_key (\<lambda>(_, e). de_departedAt e) ?kept))"
      by (simp add: evictStaleDepartures_def Let_def)
    then show ?thesis by blast
  qed (simp add: evictStaleDepartures_def Let_def)
  then have "set (gh_departed (evictStaleDepartures t h)) \<subseteq> set ?kept"
    using foldl_delete_sub [of ?kept] by (elim disjE exE) (simp_all only: order_refl)
  then show ?thesis by auto
qed

lemma evict_present [simp]: "gh_present (evictStaleDepartures t h) = gh_present h"
  by (simp add: evictStaleDepartures_def Let_def)

lemma evict_wf: "wf_map (gh_departed h) \<Longrightarrow> wf_map (gh_departed (evictStaleDepartures t h))"
  by (simp add: evictStaleDepartures_def Let_def foldl_delete_wf)

lemma evict_inv: "history_inv h \<Longrightarrow> history_inv (evictStaleDepartures t h)"
  using evict_sub [of t h] evict_wf [of h t] by (fastforce simp: history_inv_def)

lemma foldl_delete_length:
  assumes "wf_map m" and "distinct (map fst ks)" and "fst ` set ks \<subseteq> fst ` set m"
  shows "length (foldl (\<lambda>m (k, _). js_delete k m) m ks) = length m - length ks"
  using assms
proof (induction ks arbitrary: m)
  case (Cons p ks)
  obtain k v where p: "p = (k, v)" by (cases p)
  have key: "k \<in> fst ` set m" using Cons.prems(3) by (simp add: p)
  have "length (js_delete k m) = length m - 1"
  proof -
    have "length (map fst (js_delete k m)) = card (fst ` set (js_delete k m))"
      using Cons.prems(1) distinct_card [of "map fst (js_delete k m)"] wf_map_delete [of m k] by (simp add: wf_map_def)
    also have "\<dots> = card (fst ` set m) - 1" using key by (simp add: js_simps)
    also have "card (fst ` set m) = length m"
      using Cons.prems(1) distinct_card [of "map fst m"] by (simp add: wf_map_def)
    finally show ?thesis by simp
  qed
  moreover have "fst ` set ks \<subseteq> fst ` set (js_delete k m)" using Cons.prems(2,3) by (force simp: p js_keys_delete)
  ultimately show ?case using Cons.IH [of "js_delete k m"] Cons.prems by (simp add: p)
qed simp

lemma evict_bound:
  assumes "wf_map (gh_departed h)"
  shows "length (gh_departed (evictStaleDepartures t h)) \<le> MAX_DEPARTED_ENTRIES"
proof -
  define kept where "kept = filter (\<lambda>(_, e). t - de_departedAt e \<le> DEPARTED_RETENTION_MS) (gh_departed h)"
  show ?thesis
  proof (cases "length kept \<le> MAX_DEPARTED_ENTRIES")
    case True
    then show ?thesis by (simp add: evictStaleDepartures_def kept_def [symmetric] Let_def)
  next
    case False
    define old where "old = sort_key (\<lambda>(_, e). de_departedAt e) kept"
    define ks where "ks = take (length kept - MAX_DEPARTED_ENTRIES) old"
    have wf: "wf_map kept" using assms by (simp add: kept_def)
    have "mset (map fst old) = mset (map fst kept)" by (simp add: old_def)
    then have "distinct (map fst old)" using wf by (metis mset_eq_imp_distinct_iff wf_map_def)
    then have "distinct (map fst ks)" by (simp add: ks_def take_map [symmetric])
    moreover have "set ks \<subseteq> set kept" using set_take_subset [of _ old] by (auto simp: ks_def old_def)
    then have "fst ` set ks \<subseteq> fst ` set kept" by blast
    moreover have "length ks = length kept - MAX_DEPARTED_ENTRIES" by (simp add: ks_def old_def)
    ultimately have "length (foldl (\<lambda>m (k, _). js_delete k m) kept ks) \<le> MAX_DEPARTED_ENTRIES"
      using foldl_delete_length [OF wf, of ks] False by simp
    with False show ?thesis
      by (simp add: evictStaleDepartures_def kept_def [symmetric] old_def [symmetric] ks_def [symmetric] Let_def)
  qed
qed

lemma observe_inv: "history_inv h \<Longrightarrow> history_inv (fst (observe h nodes t))"
proof -
  assume inv: "history_inv h"
  then have "history_inv (h\<lparr>gh_departed := age_departed (js_uniq (map cn_id nodes)) (gh_departed h)\<rparr>)"
    by (simp add: history_inv_def)
  from read_view_inv [OF this, of t nodes] show ?thesis
    by (simp add: observe_def Let_def case_prod_beta evict_inv record_departures_inv)
qed

lemma observe_run_inv: "history_inv h \<Longrightarrow> history_inv (fst (observe_run h ps))"
proof (induction ps arbitrary: h)
  case (Cons p ps)
  from Cons.IH [OF observe_inv [OF Cons.prems, of "fst p" "snd p"]] show ?case
    by (cases p) (simp add: Let_def case_prod_beta)
qed simp

section \<open>Findings\<close>

lemma read_view_finding:
  "f \<in> set (snd (read_view t nodes h)) \<Longrightarrow>
     fr_returnedAt f = t \<and> MIN_ABSENT_POLLS \<le> fr_absentPolls f \<and> MIN_ABSENT_MS \<le> t - fr_departedAt f \<and>
     (\<exists>n \<in> set nodes. cn_id n = fr_nodeId f \<and> isLive n) \<and>
     fr_nodeId f \<in> fst ` set (gh_departed h)"
proof (induction t nodes h rule: read_view.induct)
  case (2 t node nodes h)
  show ?case
  proof (cases "js_get (gh_departed h) (cn_id node)")
    case None
    from 2(1) [OF None] 2(6) None show ?thesis by auto
  next
    case (Some e)
    have key: "cn_id node \<in> fst ` set (gh_departed h)" using Some by (metis map_of_eq_None_iff option.distinct(1))
    have sub: "fst ` set (js_delete (cn_id node) (gh_departed h)) \<subseteq> fst ` set (gh_departed h)" by (auto simp: js_simps)
    let ?h1 = "h\<lparr>gh_departed := js_delete (cn_id node) (gh_departed h), gh_present := set_add (cn_id node) (gh_present h)\<rparr>"
    show ?thesis
    proof (cases "\<not> isLive node \<or> de_absentPolls e < MIN_ABSENT_POLLS \<or> t - de_departedAt e < MIN_ABSENT_MS")
      case True
      with 2(2-4) 2(6) Some sub show ?thesis by (auto simp: Let_def split: if_splits)
    next
      case False
      with 2(6) Some consider (new) "f = \<lparr>fr_nodeId = cn_id node, fr_endpoint = canonicalEndpoint (cn_address node),
            fr_flags = cn_flags node, fr_departedAt = de_departedAt e, fr_returnedAt = t, fr_absentPolls = de_absentPolls e\<rparr>"
        | (old) "f \<in> set (snd (read_view t nodes ?h1))"
        by (auto simp: Let_def case_prod_beta)
      then show ?thesis
      proof cases
        case new
        with False key show ?thesis by simp
      next
        case old
        with 2(5) [OF Some _ refl] False sub show ?thesis by auto
      qed
    qed
  qed
qed simp

lemma read_view_entry:
  "f \<in> set (snd (read_view t nodes h)) \<Longrightarrow>
     \<exists>e. (fr_nodeId f, e) \<in> set (gh_departed h) \<and> fr_departedAt f = de_departedAt e \<and> fr_absentPolls f = de_absentPolls e"
proof (induction t nodes h rule: read_view.induct)
  case (2 t node nodes h)
  show ?case
  proof (cases "js_get (gh_departed h) (cn_id node)")
    case None
    from 2(1) [OF None] 2(6) None show ?thesis by auto
  next
    case (Some e)
    have mem: "(cn_id node, e) \<in> set (gh_departed h)" using Some by (rule map_of_SomeD)
    have sub: "set (js_delete (cn_id node) (gh_departed h)) \<subseteq> set (gh_departed h)" by (auto simp: AList.delete_eq)
    let ?h1 = "h\<lparr>gh_departed := js_delete (cn_id node) (gh_departed h), gh_present := set_add (cn_id node) (gh_present h)\<rparr>"
    show ?thesis
    proof (cases "\<not> isLive node \<or> de_absentPolls e < MIN_ABSENT_POLLS \<or> t - de_departedAt e < MIN_ABSENT_MS")
      case True
      with 2(2-4) 2(6) Some sub show ?thesis by (auto simp: Let_def split: if_splits) blast+
    next
      case False
      with 2(6) Some consider (new) "f = \<lparr>fr_nodeId = cn_id node, fr_endpoint = canonicalEndpoint (cn_address node),
            fr_flags = cn_flags node, fr_departedAt = de_departedAt e, fr_returnedAt = t, fr_absentPolls = de_absentPolls e\<rparr>"
        | (old) "f \<in> set (snd (read_view t nodes ?h1))"
        by (auto simp: Let_def case_prod_beta)
      then show ?thesis
      proof cases
        case new
        with mem show ?thesis by auto
      next
        case old
        with 2(5) [OF Some _ refl] False sub show ?thesis by auto
      qed
    qed
  qed
qed simp

lemma read_view_member:
  assumes "i \<notin> fst ` set (gh_departed h)"
  shows "i \<notin> fst ` set (gh_departed (fst (read_view t nodes h)))"
  using assms
proof (induction t nodes h rule: read_view.induct)
  case (2 t node nodes h)
  show ?case
  proof (cases "js_get (gh_departed h) (cn_id node)")
    case None
    from 2(1) [OF None] 2(6) None show ?thesis by simp
  next
    case (Some e)
    from 2(2-6) Some show ?thesis by (auto simp: Let_def case_prod_beta js_simps)
  qed
qed simp

lemma observe_member:
  assumes "i \<notin> fst ` set (gh_departed h)" and "i \<in> cn_id ` set nodes"
  shows "i \<notin> fst ` set (gh_departed (fst (observe h nodes t)))"
    and "\<forall>f \<in> set (snd (observe h nodes t)). fr_nodeId f \<noteq> i"
proof -
  let ?seen = "js_uniq (map cn_id nodes)"
  let ?h1 = "h\<lparr>gh_departed := age_departed ?seen (gh_departed h)\<rparr>"
  have i1: "i \<notin> fst ` set (gh_departed ?h1)" using assms by simp
  have "i \<notin> fst ` set (gh_departed (record_departures t ?seen (fst (read_view t nodes ?h1))))"
    using read_view_member [OF i1, of t nodes] assms(2)
    by (auto simp: record_departures_def Let_def foldl_set_keys)
  then show "i \<notin> fst ` set (gh_departed (fst (observe h nodes t)))"
    using evict_sub by (fastforce simp: observe_def Let_def case_prod_beta)
  show "\<forall>f \<in> set (snd (observe h nodes t)). fr_nodeId f \<noteq> i"
    using read_view_finding [of _ t nodes ?h1] i1 by (auto simp: observe_def Let_def case_prod_beta)
qed

section \<open>Properties\<close>

text \<open>
  The membership history stays consistent and bounded: after any sequence of observations no id
  is both present and departed, and at most 512 departures are remembered.
\<close>

theorem ghost_history_bounded:
  assumes "ps \<noteq> []"
  shows "departedCount (fst (observe_run new_history ps)) \<le> 512 \<and>
         set (gh_present (fst (observe_run new_history ps))) \<inter> fst ` set (gh_departed (fst (observe_run new_history ps))) = {}"
proof -
  have inv: "history_inv (fst (observe_run new_history ps))"
    by (rule observe_run_inv) (simp add: history_inv_def new_history_def)
  have last: "departedCount (fst (observe_run h qs)) \<le> MAX_DEPARTED_ENTRIES" if "history_inv h" "qs \<noteq> []" for h qs
    using that
  proof (induction qs arbitrary: h)
    case (Cons p ps)
    obtain nodes t where p: "p = (nodes, t)" by (cases p)
    have inv': "history_inv (fst (observe h nodes t))" using Cons.prems(1) by (rule observe_inv)
    show ?case
    proof (cases ps)
      case Nil
      have "history_inv (fst (read_view t nodes (h\<lparr>gh_departed := age_departed (js_uniq (map cn_id nodes)) (gh_departed h)\<rparr>)))"
        using Cons.prems(1) by (intro read_view_inv) (simp add: history_inv_def)
      then have "wf_map (gh_departed (record_departures t (js_uniq (map cn_id nodes)) (fst (read_view t nodes
          (h\<lparr>gh_departed := age_departed (js_uniq (map cn_id nodes)) (gh_departed h)\<rparr>)))))"
        using record_departures_inv by (auto simp: history_inv_def)
      from evict_bound [OF this] Nil show ?thesis
        by (simp add: p departedCount_def observe_def Let_def case_prod_beta)
    next
      case step: (Cons q qs)
      with Cons.IH [OF inv'] show ?thesis by (simp add: p Let_def case_prod_beta)
    qed
  qed simp
  have "history_inv new_history" by (simp add: history_inv_def new_history_def)
  with last assms inv show ?thesis by (auto simp: history_inv_def MAX_DEPARTED_ENTRIES_def)
qed

definition hist_node :: "string \<Rightarrow> ClusterNode" where
  "hist_node nid = ghost_node nid (nid @ '':1'') [''master'']"

theorem ghost_history_bounded_witness:
  "departedCount (fst (observe_run new_history [([hist_node ''a'', hist_node ''b''], 0), ([hist_node ''a''], 1000)])) \<le> 512"
  using ghost_history_bounded [of "[([hist_node ''a'', hist_node ''b''], 0), ([hist_node ''a''], 1000)]"] by simp

text \<open>
  What the memory of a departure means for the polls behind it: a run \<open>ps\<close> ends with the poll of the
  departure, at which an id that the poll before it had listed was missing, and later polls none of
  which lists a live node of the id; the counter is the number of those polls that do not list it.
\<close>

definition lists :: "string \<Rightarrow> ClusterNode list \<times> int \<Rightarrow> bool" where
  "lists i p \<longleftrightarrow> i \<in> cn_id ` set (fst p)"

definition lists_live :: "string \<Rightarrow> ClusterNode list \<times> int \<Rightarrow> bool" where
  "lists_live i p \<longleftrightarrow> (\<exists>n \<in> set (fst p). cn_id n = i \<and> isLive n)"

definition gone_since :: "(ClusterNode list \<times> int) list \<Rightarrow> string \<Rightarrow> int \<Rightarrow> nat \<Rightarrow> bool" where
  "gone_since ps i t0 n \<longleftrightarrow> (\<exists>before gone. ps = before @ gone \<and> before \<noteq> [] \<and> lists i (last before)
     \<and> gone \<noteq> [] \<and> \<not> lists i (hd gone) \<and> snd (hd gone) = t0
     \<and> (\<forall>p \<in> set gone. \<not> lists_live i p) \<and> n = length (filter (\<lambda>p. \<not> lists i p) gone))"

lemma gone_since_start:
  assumes "ps \<noteq> []" and "lists i (last ps)" and "\<not> lists i p"
  shows "gone_since (ps @ [p]) i (snd p) 1"
proof -
  have "\<not> lists_live i p" using assms(3) by (auto simp: lists_def lists_live_def)
  with assms show ?thesis unfolding gone_since_def by (intro exI [of _ ps] exI [of _ "[p]"]) simp
qed

lemma gone_since_longer:
  assumes "gone_since ps i t0 n" and "\<not> lists_live i p"
  shows "gone_since (ps @ [p]) i t0 (if lists i p then n else n + 1)"
proof -
  from assms(1) obtain before gone where "ps = before @ gone" "before \<noteq> []" "lists i (last before)" "gone \<noteq> []"
    "\<not> lists i (hd gone)" "snd (hd gone) = t0" "\<forall>p \<in> set gone. \<not> lists_live i p"
    "n = length (filter (\<lambda>p. \<not> lists i p) gone)" unfolding gone_since_def by blast
  with assms(2) show ?thesis
    unfolding gone_since_def by (intro exI [of _ before] exI [of _ "gone @ [p]"]) simp
qed

text \<open>The history after a run remembers only ids the last poll listed, and departures that happened.\<close>

definition history_true :: "(ClusterNode list \<times> int) list \<Rightarrow> ghost_history \<Rightarrow> bool" where
  "history_true ps h \<longleftrightarrow> wf_map (gh_departed h)
     \<and> (\<forall>i \<in> set (gh_present h). ps \<noteq> [] \<and> lists i (last ps))
     \<and> (\<forall>(i, e) \<in> set (gh_departed h). gone_since ps i (de_departedAt e) (de_absentPolls e))"

lemma read_view_kept:
  "(i, e) \<in> set (gh_departed (fst (read_view t nodes h))) \<Longrightarrow>
     (i, e) \<in> set (gh_departed h) \<and> \<not> lists_live i (nodes, t)"
proof (induction t nodes h rule: read_view.induct)
  case (1 t h)
  then show ?case by (simp add: lists_live_def)
next
  case (2 t node nodes h)
  show ?case
  proof (cases "js_get (gh_departed h) (cn_id node)")
    case None
    with 2(1) [OF None] 2(6) have old: "(i, e) \<in> set (gh_departed h)" "\<not> lists_live i (nodes, t)" by simp_all
    then have "cn_id node \<noteq> i" using None by (auto simp: map_of_eq_None_iff image_iff)
    with old show ?thesis by (simp add: lists_live_def)
  next
    case (Some e')
    show ?thesis
    proof (cases "isLive node")
      case True
      let ?h1 = "h\<lparr>gh_departed := js_delete (cn_id node) (gh_departed h), gh_present := set_add (cn_id node) (gh_present h)\<rparr>"
      have "(i, e) \<in> set (gh_departed (fst (read_view t nodes ?h1)))"
        using 2(6) Some True by (simp add: Let_def case_prod_beta split: if_splits)
      then have "(i, e) \<in> set (gh_departed ?h1) \<and> \<not> lists_live i (nodes, t)"
        using 2(3-5) [OF Some _ refl] True by (cases "de_absentPolls e' < MIN_ABSENT_POLLS"; cases "t - de_departedAt e' < MIN_ABSENT_MS") auto
      then show ?thesis by (auto simp: lists_live_def AList.delete_eq)
    next
      case False
      with 2(2) [OF Some False] 2(6) Some show ?thesis by (auto simp: lists_live_def)
    qed
  qed
qed

lemma read_view_present: "set (gh_present (fst (read_view t nodes h))) \<subseteq> set (gh_present h) \<union> cn_id ` set nodes"
proof (induction t nodes h rule: read_view.induct)
  case (2 t node nodes h)
  show ?case
  proof (cases "js_get (gh_departed h) (cn_id node)")
    case None
    with 2(1) [OF None] show ?thesis by auto
  next
    case (Some e)
    with 2(2-5) [OF Some] show ?thesis by (auto simp: Let_def case_prod_beta)
  qed
qed simp

lemma foldl_set_mem:
  "(i, e) \<in> set (foldl (\<lambda>m i. js_set i v m) m is) \<Longrightarrow> wf_map m \<Longrightarrow> i \<in> set is \<and> e = v \<or> (i, e) \<in> set m"
proof (induction "is" arbitrary: m)
  case (Cons j js)
  then have "i \<in> set js \<and> e = v \<or> (i, e) \<in> set (js_set j v m)" by simp
  then show ?case using subsetD [OF set_js_set, of "(i, e)" j v m] by auto
qed simp

lemma history_true_observe:
  assumes ok: "history_true ps h"
  shows "history_true (ps @ [(nodes, t)]) (fst (observe h nodes t))"
proof -
  define seen where "seen = js_uniq (map cn_id nodes)"
  define h1 where "h1 = h\<lparr>gh_departed := age_departed seen (gh_departed h)\<rparr>"
  define h2 where "h2 = fst (read_view t nodes h1)"
  define h3 where "h3 = record_departures t seen h2"
  have obs: "fst (observe h nodes t) = evictStaleDepartures t h3"
    by (simp add: observe_def Let_def case_prod_beta seen_def h1_def h2_def h3_def)
  have seen: "i \<in> set seen \<longleftrightarrow> lists i (nodes, t)" for i by (simp add: seen_def lists_def)
  have wf: "wf_map (gh_departed h)" and before: "\<And>i. i \<in> set (gh_present h) \<Longrightarrow> ps \<noteq> [] \<and> lists i (last ps)"
    and gone: "\<And>i e. (i, e) \<in> set (gh_departed h) \<Longrightarrow> gone_since ps i (de_departedAt e) (de_absentPolls e)"
    using ok unfolding history_true_def by auto
  have aged: "gone_since (ps @ [(nodes, t)]) i (de_departedAt e) (de_absentPolls e)" if "(i, e) \<in> set (gh_departed h2)" for i e
  proof -
    have mem: "(i, e) \<in> set (age_departed seen (gh_departed h))" and dead: "\<not> lists_live i (nodes, t)"
      using read_view_kept [of i e t nodes h1] that by (simp_all add: h2_def h1_def)
    from mem obtain e0 where "(i, e0) \<in> set (gh_departed h)"
      "e = (if i \<in> set seen then e0 else e0\<lparr>de_absentPolls := de_absentPolls e0 + 1\<rparr>)"
      by (auto simp: age_departed_def split: if_splits)
    with gone_since_longer [OF gone dead, of e0] seen [of i] show ?thesis by (cases "i \<in> set seen") auto
  qed
  have pres2: "set (gh_present h2) \<subseteq> set (gh_present h) \<union> set seen"
    using read_view_present [of t nodes h1] by (simp add: h2_def h1_def seen_def)
  have wf2: "wf_map (gh_departed h2)"
  proof -
    have "wf_map (gh_departed (fst (read_view t nodes g)))" if "wf_map (gh_departed g)" for g
      using that
    proof (induction t nodes g rule: read_view.induct)
      case (2 t node nodes g)
      then show ?case by (simp add: Let_def case_prod_beta split: option.splits)
    qed simp
    then show ?thesis using wf by (simp add: h2_def h1_def)
  qed
  have left: "gone_since (ps @ [(nodes, t)]) i t 1" if "i \<in> set (gh_present h2)" "i \<notin> set seen" for i
    using gone_since_start [of ps i "(nodes, t)"] before [of i] pres2 that seen by auto
  have "gone_since (ps @ [(nodes, t)]) i (de_departedAt e) (de_absentPolls e)" if "(i, e) \<in> set (gh_departed h3)" for i e
  proof -
    let ?new = "foldl (\<lambda>m i. js_set i \<lparr>de_departedAt = t, de_absentPolls = 1\<rparr> m) (gh_departed h2)
        (filter (\<lambda>i. i \<notin> set seen) (gh_present h2))"
    have "(i, e) \<in> set ?new" using that by (auto simp: h3_def record_departures_def Let_def split: if_splits)
    from foldl_set_mem [OF this wf2]
    have "i \<in> set (gh_present h2) \<and> i \<notin> set seen \<and> e = \<lparr>de_departedAt = t, de_absentPolls = 1\<rparr> \<or> (i, e) \<in> set (gh_departed h2)"
      by simp
    with aged left show ?thesis by auto
  qed
  moreover have "i \<in> set seen" if "i \<in> set (gh_present h3)" for i
    using that by (auto simp: h3_def record_departures_def Let_def split: if_splits)
  moreover have "wf_map (gh_departed h3)"
    using wf2 by (simp add: h3_def record_departures_def Let_def foldl_set_wf)
  ultimately show ?thesis
    unfolding history_true_def obs using evict_sub [of t h3] evict_wf [of h3 t] seen by fastforce
qed

lemma observe_run_snoc: "fst (observe_run h (ps @ [p])) = fst (observe (fst (observe_run h ps)) (fst p) (snd p))"
  by (induction ps arbitrary: h) (cases p, auto simp: Let_def case_prod_beta split: prod.splits)

lemma history_true_run: "history_true ps (fst (observe_run new_history ps))"
proof (induction ps rule: rev_induct)
  case Nil
  show ?case by (simp add: history_true_def new_history_def)
next
  case (snoc p ps)
  from history_true_observe [OF snoc, of "fst p" "snd p"] show ?case by (simp add: observe_run_snoc)
qed

text \<open>
  C36: A rejoin is reported only for an id that really left and came back. In the history of polls
  there is one that no longer lists the id while the poll before it did, at the reported departure,
  at least 60 seconds ago; no poll since then, up to the present one, lists a live node of the id, at
  least two of them do not list it at all (their number is the one reported), and the present one
  lists it alive. Polls with a line of the id that is not alive are not counted as absent.
\<close>

theorem ghost_rejoin_sound:
  assumes "f \<in> set (snd (observe (fst (observe_run new_history ps)) nodes t))"
  shows "\<exists>before gone. ps = before @ gone \<and> before \<noteq> [] \<and> gone \<noteq> []
    \<and> fr_nodeId f \<in> cn_id ` set (fst (last before)) \<and> fr_nodeId f \<notin> cn_id ` set (fst (hd gone))
    \<and> snd (hd gone) = fr_departedAt f \<and> fr_returnedAt f = t \<and> 60000 \<le> t - fr_departedAt f
    \<and> (\<forall>p \<in> set gone. \<forall>n \<in> set (fst p). cn_id n = fr_nodeId f \<longrightarrow> \<not> isLive n)
    \<and> fr_absentPolls f = length (filter (\<lambda>p. fr_nodeId f \<notin> cn_id ` set (fst p)) gone) \<and> 2 \<le> fr_absentPolls f
    \<and> (\<exists>n \<in> set nodes. cn_id n = fr_nodeId f \<and> isLive n)"
proof -
  define h where "h = fst (observe_run new_history ps)"
  define seen where "seen = js_uniq (map cn_id nodes)"
  have f: "f \<in> set (snd (read_view t nodes (h\<lparr>gh_departed := age_departed seen (gh_departed h)\<rparr>)))"
    using assms by (simp add: observe_def Let_def case_prod_beta h_def seen_def)
  note found = read_view_finding [OF f]
  from read_view_entry [OF f] obtain e where e: "(fr_nodeId f, e) \<in> set (age_departed seen (gh_departed h))"
    "fr_departedAt f = de_departedAt e" "fr_absentPolls f = de_absentPolls e" by auto
  obtain n where "n \<in> set nodes" "cn_id n = fr_nodeId f" using found by blast
  then have "fr_nodeId f \<in> set seen" unfolding seen_def set_js_uniq set_map by (metis imageI)
  then have "(fr_nodeId f, e) \<in> set (gh_departed h)" using e(1) by (auto simp: age_departed_def split: if_splits)
  then have "gone_since ps (fr_nodeId f) (fr_departedAt f) (fr_absentPolls f)"
    using history_true_run [of ps] e by (auto simp: history_true_def h_def)
  then obtain before gone where g: "ps = before @ gone" "before \<noteq> []" "gone \<noteq> []" "lists (fr_nodeId f) (last before)"
    "\<not> lists (fr_nodeId f) (hd gone)" "snd (hd gone) = fr_departedAt f" "\<forall>p \<in> set gone. \<not> lists_live (fr_nodeId f) p"
    "fr_absentPolls f = length (filter (\<lambda>p. \<not> lists (fr_nodeId f) p) gone)"
    unfolding gone_since_def by blast
  show ?thesis
    by (intro exI [of _ before] exI [of _ gone])
      (use g found in \<open>auto simp: lists_def lists_live_def MIN_ABSENT_POLLS_def MIN_ABSENT_MS_def\<close>)
qed

lemmas history_eval = observe_def read_view.simps age_departed_def record_departures_def evictStaleDepartures_def
  new_history_def hist_node_def ghost_node_def set_add_def js_uniq_def isLive_def NON_LIVE_FLAGS_def has_flag_def
  MIN_ABSENT_POLLS_def MIN_ABSENT_MS_def DEPARTED_RETENTION_MS_def MAX_DEPARTED_ENTRIES_def Let_def

definition hist_polls :: "(ClusterNode list \<times> int) list" where
  "hist_polls = [([hist_node ''a'', hist_node ''b'', hist_node ''c''], 0), ([hist_node ''a'', hist_node ''b''], 1000),
     ([hist_node ''a'', hist_node ''b''], 2000)]"

theorem ghost_rejoin_sound_witness:
  "\<exists>f \<in> set (snd (observe (fst (observe_run new_history hist_polls)) [hist_node ''a'', hist_node ''b'', hist_node ''c''] 70000)).
     fr_nodeId f = ''c'' \<and> 2 \<le> fr_absentPolls f"
proof -
  have "\<exists>f \<in> set (snd (observe (fst (observe_run new_history hist_polls))
      [hist_node ''a'', hist_node ''b'', hist_node ''c''] 70000)). fr_nodeId f = ''c''"
    by (simp add: hist_polls_def history_eval)
  with ghost_rejoin_sound show ?thesis by blast
qed

text \<open>
  An id listed in every view, however it is flagged, is never reported as rejoined, so a crash
  or a flap is not taken for a FORGET.
\<close>

theorem ghost_never_left_never_reported:
  assumes "\<forall>p \<in> set ps. i \<in> cn_id ` set (fst p)"
  shows "\<forall>f \<in> set (snd (observe_run new_history ps)). fr_nodeId f \<noteq> i"
proof -
  have "\<forall>f \<in> set (snd (observe_run h ps)). fr_nodeId f \<noteq> i" if "i \<notin> fst ` set (gh_departed h)" for h
    using assms that
  proof (induction ps arbitrary: h)
    case (Cons p ps)
    from observe_member [OF Cons.prems(2), of "fst p" "snd p"] Cons.IH [of "fst (observe h (fst p) (snd p))"] Cons.prems(1)
    show ?case by (cases p) (auto simp: Let_def case_prod_beta)
  qed simp
  from this [of new_history] show ?thesis by (simp add: new_history_def)
qed

theorem ghost_never_left_never_reported_witness:
  "map fr_nodeId (snd (observe_run new_history [([hist_node ''a'', hist_node ''b''], 0), ([hist_node ''a''], 1000),
       ([hist_node ''a''], 2000), ([hist_node ''a'', hist_node ''b''], 90000)])) = [''b'']
   \<and> ''a'' \<notin> fr_nodeId ` set (snd (observe_run new_history [([hist_node ''a'', hist_node ''b''], 0), ([hist_node ''a''], 1000),
       ([hist_node ''a''], 2000), ([hist_node ''a'', hist_node ''b''], 90000)]))"
proof
  let ?ps = "[([hist_node ''a'', hist_node ''b''], 0), ([hist_node ''a''], 1000), ([hist_node ''a''], 2000),
    ([hist_node ''a'', hist_node ''b''], 90000)]"
  show "map fr_nodeId (snd (observe_run new_history ?ps)) = [''b'']" by code_simp
  have "\<forall>p \<in> set ?ps. ''a'' \<in> cn_id ` set (fst p)" by (simp add: hist_node_def ghost_node_def)
  note never = ghost_never_left_never_reported [OF this]
  define out where "out = snd (observe_run new_history ?ps)"
  from never have "''a'' \<notin> fr_nodeId ` set out" unfolding out_def [symmetric] by auto
  then show "''a'' \<notin> fr_nodeId ` set (snd (observe_run new_history ?ps))" unfolding out_def .
qed

end
