(* ===== verification/Hostname_Staleness.thy ===== *)
theory Hostname_Staleness
  imports Cluster_Types
begin

text \<open>
  Hostname gossip faults, hostname-staleness-detector.ts: a live node without a hostname while a
  peer has one, and a node whose hostname differs between CLUSTER NODES and CLUSTER SHARDS.
\<close>

datatype HostnameStalenessReason = missing_hostname | hostname_mismatch

record HostnameStaleness =
  hs_nodeId :: string
  hs_address :: string
  hs_reason :: HostnameStalenessReason
  hs_nodesHostname :: "string option"
  hs_shardsHostname :: "string option"

definition HOSTNAME_NON_LIVE_FLAGS :: "string list" where
  "HOSTNAME_NON_LIVE_FLAGS = [''handshake'', ''noaddr'', ''fail'', ''fail?'']"

definition isLiveNode :: "ClusterNode \<Rightarrow> bool" where
  "isLiveNode node \<longleftrightarrow> cn_id node \<noteq> '''' \<and> \<not> list_ex (has_flag node) HOSTNAME_NON_LIVE_FLAGS"

definition hostname_of :: "ClusterNode \<Rightarrow> string option" where
  "hostname_of n = truthy '''' (cn_hostname n)"

definition shardHostnameById :: "ClusterShard list \<Rightarrow> (string, string) jsmap" where
  "shardHostnameById shards =
     foldl (\<lambda>m n. case truthy '''' (sn_hostname n) of None \<Rightarrow> m | Some h \<Rightarrow> js_set (sn_id n) h m)
       [] (concat (map sh_nodes shards))"

definition missing_findings :: "ClusterNode list \<Rightarrow> HostnameStaleness list" where
  "missing_findings known =
     (let anyHostnamePresent = list_ex (\<lambda>n. hostname_of n \<noteq> None) known
      in if anyHostnamePresent then
           map (\<lambda>n. \<lparr>hs_nodeId = cn_id n, hs_address = cn_address n, hs_reason = missing_hostname,
                      hs_nodesHostname = None, hs_shardsHostname = None\<rparr>)
             (filter (\<lambda>n. hostname_of n = None) known)
         else [])"

definition mismatch_of :: "(string, string) jsmap \<Rightarrow> ClusterNode \<Rightarrow> HostnameStaleness option" where
  "mismatch_of byId n =
     (case (hostname_of n, js_get byId (cn_id n)) of
        (Some h, Some shardsHostname) \<Rightarrow>
          if h \<noteq> shardsHostname then
            Some \<lparr>hs_nodeId = cn_id n, hs_address = cn_address n, hs_reason = hostname_mismatch,
                  hs_nodesHostname = Some h, hs_shardsHostname = Some shardsHostname\<rparr>
          else None
      | _ \<Rightarrow> None)"

definition detectHostnameStaleness :: "ClusterNode list \<Rightarrow> ClusterShard list option \<Rightarrow> HostnameStaleness list" where
  "detectHostnameStaleness nodes shards =
     (let known = filter isLiveNode nodes
      in if length known = 0 then []
         else missing_findings known @
           (case shards of
              Some (sh # shs) \<Rightarrow> List.map_filter (mismatch_of (shardHostnameById (sh # shs))) known
            | _ \<Rightarrow> []))"

fun hostname_reason_text :: "HostnameStalenessReason \<Rightarrow> string" where
  "hostname_reason_text missing_hostname = ''missing_hostname''"
| "hostname_reason_text hostname_mismatch = ''hostname_mismatch''"

definition hostnameStalenessSignature :: "HostnameStaleness \<Rightarrow> string" where
  "hostnameStalenessSignature f = hs_nodeId f @ ''|'' @ hostname_reason_text (hs_reason f)"

section \<open>Lemmas\<close>

lemma shardHostname_value:
  assumes "js_get (shardHostnameById shards) i = Some h"
  shows "\<exists>sh \<in> set shards. \<exists>n \<in> set (sh_nodes sh). sn_id n = i \<and> sn_hostname n = Some h \<and> h \<noteq> ''''"
proof -
  have "js_get (foldl (\<lambda>m n. case truthy '''' (sn_hostname n) of None \<Rightarrow> m | Some h \<Rightarrow> js_set (sn_id n) h m) m0 ns) i = Some h \<Longrightarrow>
      js_get m0 i = Some h \<or> (\<exists>n \<in> set ns. sn_id n = i \<and> sn_hostname n = Some h \<and> h \<noteq> '''')" for ns m0
  proof (induction ns arbitrary: m0)
    case (Cons n ns)
    then show ?case
      by (cases "truthy '''' (sn_hostname n)") (fastforce simp: js_simps split: if_splits)+
  qed simp
  from this [of "[]" "concat (map sh_nodes shards)"] assms show ?thesis by (auto simp: shardHostnameById_def)
qed

lemma missing_findings_mem:
  "f \<in> set (missing_findings known) \<longleftrightarrow>
     (\<exists>m \<in> set known. hostname_of m \<noteq> None) \<and>
     (\<exists>n \<in> set known. hostname_of n = None \<and> f = \<lparr>hs_nodeId = cn_id n, hs_address = cn_address n,
        hs_reason = missing_hostname, hs_nodesHostname = None, hs_shardsHostname = None\<rparr>)"
  by (auto simp: missing_findings_def list_ex_iff Let_def)

lemma mismatch_of_Some:
  "mismatch_of byId n = Some f \<longleftrightarrow>
     (\<exists>h h'. hostname_of n = Some h \<and> js_get byId (cn_id n) = Some h' \<and> h \<noteq> h' \<and>
        f = \<lparr>hs_nodeId = cn_id n, hs_address = cn_address n, hs_reason = hostname_mismatch,
             hs_nodesHostname = Some h, hs_shardsHostname = Some h'\<rparr>)"
  by (auto simp: mismatch_of_def split: option.splits)

lemma mismatch_no_shards: "mismatch_of (shardHostnameById []) n = None"
  by (simp add: mismatch_of_def shardHostnameById_def split: option.split)

lemma detectHostnameStaleness_mem:
  "f \<in> set (detectHostnameStaleness nodes shards) \<longleftrightarrow>
     f \<in> set (missing_findings (filter isLiveNode nodes)) \<or>
     (\<exists>shs n. shards = Some shs \<and> n \<in> set nodes \<and> isLiveNode n \<and> mismatch_of (shardHostnameById shs) n = Some f)"
proof (cases "filter isLiveNode nodes = []")
  case True
  then show ?thesis by (auto simp: detectHostnameStaleness_def missing_findings_def filter_empty_conv)
next
  case False
  then have "f \<in> set (detectHostnameStaleness nodes shards) \<longleftrightarrow>
      f \<in> set (missing_findings (filter isLiveNode nodes)) \<or>
      (\<exists>sh shs. shards = Some (sh # shs) \<and> f \<in> set (List.map_filter (mismatch_of (shardHostnameById (sh # shs))) (filter isLiveNode nodes)))"
    by (auto simp: detectHostnameStaleness_def Let_def split: option.split list.split)
  also have "\<dots> \<longleftrightarrow> f \<in> set (missing_findings (filter isLiveNode nodes)) \<or>
      (\<exists>shs n. shards = Some shs \<and> n \<in> set nodes \<and> isLiveNode n \<and> mismatch_of (shardHostnameById shs) n = Some f)"
    by (auto simp: map_filter_mem) (metis mismatch_no_shards neq_Nil_conv option.distinct(1))
  finally show ?thesis .
qed

definition bare_node :: "string \<Rightarrow> string option \<Rightarrow> ClusterNode" where
  "bare_node i h = \<lparr>cn_id = i, cn_address = ''h:1'', cn_flags = [''master''], cn_master = ''-'', cn_pingSent = 0, cn_pongReceived = 0,
     cn_configEpoch = 1, cn_linkState = ''connected'', cn_slots = [], cn_migratingSlots = None, cn_importingSlots = None, cn_hostname = h\<rparr>"

section \<open>Properties\<close>

text \<open>
  Hostname findings are about live nodes and are grounded in the views: a missing hostname is
  reported only for a live node without one while some live node of the view has one (so never
  on a cluster that uses no hostnames), and a mismatch only when both views carry different,
  non-empty hostnames for the node.
\<close>

theorem hostname_findings_grounded:
  assumes "f \<in> set (detectHostnameStaleness nodes shards)"
  shows "\<exists>n \<in> set nodes. isLiveNode n \<and> hs_nodeId f = cn_id n \<and> hs_address f = cn_address n \<and>
     (case hs_reason f of
        missing_hostname \<Rightarrow> hostname_of n = None \<and> (\<exists>m \<in> set nodes. isLiveNode m \<and> hostname_of m \<noteq> None)
      | hostname_mismatch \<Rightarrow> (\<exists>h h' shs. hostname_of n = Some h \<and> h \<noteq> h' \<and> h' \<noteq> '''' \<and> shards = Some shs \<and>
          (\<exists>sh \<in> set shs. \<exists>sn \<in> set (sh_nodes sh). sn_id sn = cn_id n \<and> sn_hostname sn = Some h')))"
  using assms unfolding detectHostnameStaleness_mem
proof
  assume "f \<in> set (missing_findings (filter isLiveNode nodes))"
  then show ?thesis by (fastforce simp: missing_findings_mem)
next
  assume "\<exists>shs n. shards = Some shs \<and> n \<in> set nodes \<and> isLiveNode n \<and> mismatch_of (shardHostnameById shs) n = Some f"
  then obtain shs n h h' where n: "shards = Some shs" "n \<in> set nodes" "isLiveNode n" "hostname_of n = Some h"
    "js_get (shardHostnameById shs) (cn_id n) = Some h'" "h \<noteq> h'" "f = \<lparr>hs_nodeId = cn_id n, hs_address = cn_address n,
      hs_reason = hostname_mismatch, hs_nodesHostname = Some h, hs_shardsHostname = Some h'\<rparr>"
    by (auto simp: mismatch_of_Some)
  from shardHostname_value [OF n(5)] n show ?thesis by (intro bexI [of _ n]) auto
qed

theorem hostname_findings_grounded_witness:
  "\<exists>n f. f \<in> set (detectHostnameStaleness [bare_node ''a'' (Some ''h''), bare_node ''b'' None] None) \<and>
     hs_nodeId f = cn_id n \<and> isLiveNode n \<and> hostname_of n = None"
proof -
  let ?nodes = "[bare_node ''a'' (Some ''h''), bare_node ''b'' None]"
  let ?f = "\<lparr>hs_nodeId = ''b'', hs_address = ''h:1'', hs_reason = missing_hostname, hs_nodesHostname = None, hs_shardsHostname = None\<rparr>"
  have f: "detectHostnameStaleness ?nodes None = [?f]" by code_simp
  then have "?f \<in> set (detectHostnameStaleness ?nodes None)" by simp
  from hostname_findings_grounded [OF this] obtain n where "isLiveNode n" "hs_nodeId ?f = cn_id n" "hostname_of n = None" by auto
  with f show ?thesis by force
qed

text \<open>The signature tells findings apart by node and reason.\<close>

lemma hostname_signature_inject:
  "hostnameStalenessSignature f = hostnameStalenessSignature g \<Longrightarrow> hs_nodeId f = hs_nodeId g \<and> hs_reason f = hs_reason g"
  by (cases "hs_reason f"; cases "hs_reason g") (auto simp: hostnameStalenessSignature_def append_eq_append_conv2 Cons_eq_append_conv)

end
