(* ===== verification/Replica_Slot.thy ===== *)
theory Replica_Slot
  imports Cluster_Types
begin

text \<open>
  Replicas that report slot state, replica-slot-state-detector.ts: migrating or importing markers
  on a replica's own line, or owned slots that the shard view contradicts.
\<close>

datatype ReplicaSlotReason = replica_migrating | replica_importing | slot_view_divergence

record ReplicaSlotAnomaly =
  ra_replicaId :: string
  ra_replicaAddress :: string
  ra_reason :: ReplicaSlotReason
  ra_affectedSlots :: "int list"
  ra_ownedSlots :: "(int \<times> int) list option"
  ra_shardId :: "string option"
  ra_shardSlots :: "(int \<times> int) list option"

record ShardInfo =
  si_shardId :: string
  si_shardSlots :: "(int \<times> int) list"

definition replicaFlagged :: "ClusterNode \<Rightarrow> bool" where
  "replicaFlagged node \<longleftrightarrow> has_flag node ''slave'' \<or> has_flag node ''replica''"

definition sortedUnique :: "int list \<Rightarrow> int list" where
  "sortedUnique nums = sort (js_uniq nums)"

definition shard_master_id :: "ClusterShard \<Rightarrow> string" where
  "shard_master_id shard =
     (case List.find (\<lambda>n. sn_role n = ''master'') (sh_nodes shard) of
        Some n \<Rightarrow> sn_id n
      | None \<Rightarrow> (case sh_nodes shard of [] \<Rightarrow> '''' | n # _ \<Rightarrow> sn_id n))"

definition index_shard ::
  "(string, string) jsmap \<times> (string, ShardInfo) jsmap \<Rightarrow> ClusterShard \<Rightarrow> (string, string) jsmap \<times> (string, ShardInfo) jsmap" where
  "index_shard acc shard =
     (let shardId = shard_master_id shard
      in foldl (\<lambda>(roleByNode, shardByNode) n.
             (js_set (sn_id n) (sn_role n) roleByNode,
              js_set (sn_id n) \<lparr>si_shardId = shardId, si_shardSlots = sh_slots shard\<rparr> shardByNode))
           acc (sh_nodes shard))"

definition indexShards :: "ClusterShard list \<Rightarrow> (string, string) jsmap \<times> (string, ShardInfo) jsmap" where
  "indexShards shards = foldl index_shard ([], []) shards"

definition slot_anomaly ::
  "(string, ShardInfo) jsmap \<Rightarrow> ClusterNode \<Rightarrow> ReplicaSlotReason \<Rightarrow> int list \<Rightarrow> (int \<times> int) list option \<Rightarrow> ReplicaSlotAnomaly" where
  "slot_anomaly shardByNode node reason slots owned =
     (let shardInfo = js_get shardByNode (cn_id node)
      in \<lparr>ra_replicaId = cn_id node, ra_replicaAddress = cn_address node, ra_reason = reason,
          ra_affectedSlots = sortedUnique slots, ra_ownedSlots = owned,
          ra_shardId = map_option si_shardId shardInfo, ra_shardSlots = map_option si_shardSlots shardInfo\<rparr>)"

definition slot_markers :: "(int \<times> string) list option \<Rightarrow> int list" where
  "slot_markers m = (case m of None \<Rightarrow> [] | Some xs \<Rightarrow> map fst xs)"

definition node_slot_anomalies ::
  "bool \<Rightarrow> (string, string) jsmap \<Rightarrow> (string, ShardInfo) jsmap \<Rightarrow> ClusterNode \<Rightarrow> ReplicaSlotAnomaly list" where
  "node_slot_anomalies hasShards roleByNode shardByNode node =
     (if \<not> replicaFlagged node then []
      else if hasShards \<and> js_get roleByNode (cn_id node) = Some ''master'' then []
      else
        let migrating = slot_markers (cn_migratingSlots node);
            importing = slot_markers (cn_importingSlots node);
            hasMigrationMarkers = (length migrating > 0 \<or> length importing > 0)
        in (if length migrating > 0 then [slot_anomaly shardByNode node replica_migrating migrating None] else []) @
           (if length importing > 0 then [slot_anomaly shardByNode node replica_importing importing None] else []) @
           (if hasShards \<and> \<not> hasMigrationMarkers \<and> length (cn_slots node) > 0
            then [slot_anomaly shardByNode node slot_view_divergence
                    (concat (map (\<lambda>(s, e). [s, e]) (cn_slots node))) (Some (cn_slots node))]
            else []))"

definition detectReplicaSlotState :: "ClusterNode list \<Rightarrow> ClusterShard list option \<Rightarrow> ReplicaSlotAnomaly list" where
  "detectReplicaSlotState nodes shards =
     (let hasShards = (case shards of Some (_ # _) \<Rightarrow> True | _ \<Rightarrow> False);
          idx = (case shards of Some shs \<Rightarrow> if hasShards then indexShards shs else ([], []) | None \<Rightarrow> ([], []))
      in concat (map (node_slot_anomalies hasShards (fst idx) (snd idx)) nodes))"

fun slot_reason_text :: "ReplicaSlotReason \<Rightarrow> string" where
  "slot_reason_text replica_migrating = ''replica_migrating''"
| "slot_reason_text replica_importing = ''replica_importing''"
| "slot_reason_text slot_view_divergence = ''slot_view_divergence''"

definition replicaSlotSignature :: "ReplicaSlotAnomaly \<Rightarrow> string" where
  "replicaSlotSignature a =
     ra_replicaId a @ ''|'' @ slot_reason_text (ra_reason a) @ ''|'' @ js_join '','' (map show_int (ra_affectedSlots a))"

text \<open>\<open>signature.split('|')[0]\<close>, which the handler uses to find the replica of a signature.\<close>

definition signature_replica :: "string \<Rightarrow> string" where
  "signature_replica signature = takeWhile (\<lambda>c. c \<noteq> CHR ''|'') signature"

section \<open>The shard index\<close>

lemma index_shard_roles:
  "js_get (fst (foldl (\<lambda>(r, s) n. (js_set (sn_id n) (sn_role n) r, js_set (sn_id n) info s)) acc ns)) i = Some role
     \<Longrightarrow> js_get (fst acc) i = Some role \<or> (\<exists>n \<in> set ns. sn_id n = i \<and> sn_role n = role)"
  by (induction ns arbitrary: acc) (fastforce simp: js_simps case_prod_beta split: if_splits)+

lemma indexShards_role:
  assumes "js_get (fst (indexShards shards)) i = Some role"
  shows "\<exists>sh \<in> set shards. \<exists>n \<in> set (sh_nodes sh). sn_id n = i \<and> sn_role n = role"
proof -
  have "js_get (fst (foldl index_shard acc shs)) i = Some role \<Longrightarrow>
      js_get (fst acc) i = Some role \<or> (\<exists>sh \<in> set shs. \<exists>n \<in> set (sh_nodes sh). sn_id n = i \<and> sn_role n = role)" for acc shs
  proof (induction shs arbitrary: acc)
    case (Cons sh shs)
    have "js_get (fst (index_shard acc sh)) i = Some role \<Longrightarrow>
        js_get (fst acc) i = Some role \<or> (\<exists>n \<in> set (sh_nodes sh). sn_id n = i \<and> sn_role n = role)"
      unfolding index_shard_def Let_def by (rule index_shard_roles)
    with Cons.IH [of "index_shard acc sh"] Cons.prems show ?case by auto
  qed simp
  from this [of "([], [])" shards] assms show ?thesis by (simp add: indexShards_def)
qed

lemma sortedUnique_set [simp]: "set (sortedUnique xs) = set xs"
  by (simp add: sortedUnique_def)

lemma slot_anomaly_fields [simp]:
  "ra_replicaId (slot_anomaly sb n r xs ow) = cn_id n" "ra_reason (slot_anomaly sb n r xs ow) = r"
  "set (ra_affectedSlots (slot_anomaly sb n r xs ow)) = set xs" "ra_affectedSlots (slot_anomaly sb n r xs ow) = sortedUnique xs"
  by (simp_all add: slot_anomaly_def Let_def)

lemma node_slot_anomalies_cases:
  assumes "a \<in> set (node_slot_anomalies hasShards roles sb n)"
  obtains (migrating) "replicaFlagged n" "\<not> (hasShards \<and> js_get roles (cn_id n) = Some ''master'')"
      "slot_markers (cn_migratingSlots n) \<noteq> []" "a = slot_anomaly sb n replica_migrating (slot_markers (cn_migratingSlots n)) None"
  | (importing) "replicaFlagged n" "\<not> (hasShards \<and> js_get roles (cn_id n) = Some ''master'')"
      "slot_markers (cn_importingSlots n) \<noteq> []" "a = slot_anomaly sb n replica_importing (slot_markers (cn_importingSlots n)) None"
  | (divergence) "replicaFlagged n" "hasShards" "js_get roles (cn_id n) \<noteq> Some ''master''"
      "slot_markers (cn_migratingSlots n) = []" "slot_markers (cn_importingSlots n) = []" "cn_slots n \<noteq> []"
      "a = slot_anomaly sb n slot_view_divergence (concat (map (\<lambda>(s, e). [s, e]) (cn_slots n))) (Some (cn_slots n))"
  using assms by (auto simp: node_slot_anomalies_def Let_def split: if_splits)

lemma detect_slot_mem:
  assumes "a \<in> set (detectReplicaSlotState nodes shards)"
  obtains n hasShards roles sb where "n \<in> set nodes" "a \<in> set (node_slot_anomalies hasShards roles sb n)"
    "hasShards \<longleftrightarrow> (\<exists>sh shs. shards = Some (sh # shs))"
    "hasShards \<Longrightarrow> roles = fst (indexShards (the shards))"
  using assms unfolding detectReplicaSlotState_def Let_def
  by (cases shards; cases "the shards") (auto, metis+)

lemma slot_reason_no_bar [simp]: "CHR ''|'' \<notin> set (slot_reason_text r)"
  by (cases r) simp_all

lemma slot_reason_inject [simp]: "slot_reason_text r = slot_reason_text r' \<longleftrightarrow> r = r'"
  by (cases r; cases r') simp_all

lemma show_ints_inject:
  assumes "js_join '','' (map show_int xs) = js_join '','' (map show_int ys)" and "xs \<noteq> []" and "ys \<noteq> []"
  shows "xs = ys"
proof -
  have "map show_int xs = map show_int ys"
    by (rule js_join_inject [where c = "CHR '',''"]) (use assms in auto)
  then show ?thesis by (metis injI inj_map_eq_map show_int_inject)
qed

section \<open>Properties\<close>

text \<open>
  A stuck replica gets one remedy: in a view with distinct node ids every anomaly is about a node
  flagged as replica and names at least one slot, sorted and without repetition, and a replica
  reported for owning slots is never also reported for migrating or importing ones, whose advice
  contradicts it.
\<close>

theorem replica_slot_single_remedy:
  assumes "distinct (map cn_id nodes)" and "a \<in> set (detectReplicaSlotState nodes shards)"
    and "b \<in> set (detectReplicaSlotState nodes shards)"
  shows "(\<exists>n \<in> set nodes. cn_id n = ra_replicaId a \<and> replicaFlagged n) \<and> ra_affectedSlots a \<noteq> [] \<and>
    sorted (ra_affectedSlots a) \<and> distinct (ra_affectedSlots a) \<and>
    \<not> (ra_replicaId a = ra_replicaId b \<and> ra_reason a = slot_view_divergence \<and> ra_reason b \<noteq> slot_view_divergence)"
proof -
  obtain n h r s where n: "n \<in> set nodes" "a \<in> set (node_slot_anomalies h r s n)" by (rule detect_slot_mem [OF assms(2)])
  obtain m h' r' s' where m: "m \<in> set nodes" "b \<in> set (node_slot_anomalies h' r' s' m)" by (rule detect_slot_mem [OF assms(3)])
  have a: "cn_id n = ra_replicaId a" "replicaFlagged n" "ra_affectedSlots a \<noteq> []"
    "ra_reason a = slot_view_divergence \<Longrightarrow> slot_markers (cn_migratingSlots n) = [] \<and> slot_markers (cn_importingSlots n) = []"
    using n(2) by (cases rule: node_slot_anomalies_cases; force simp: sortedUnique_def neq_Nil_conv dest: arg_cong [of _ _ set])+
  have "sorted (ra_affectedSlots a) \<and> distinct (ra_affectedSlots a)"
    using n(2) by (cases rule: node_slot_anomalies_cases) (auto simp: sortedUnique_def)
  moreover have b: "cn_id m = ra_replicaId b"
    "ra_reason b \<noteq> slot_view_divergence \<Longrightarrow> slot_markers (cn_migratingSlots m) \<noteq> [] \<or> slot_markers (cn_importingSlots m) \<noteq> []"
    using m(2) by (cases rule: node_slot_anomalies_cases; force)+
  moreover have "ra_replicaId a = ra_replicaId b \<Longrightarrow> n = m"
    using assms(1) n(1) m(1) a(1) b(1) by (metis distinct_map inj_on_eq_iff)
  ultimately show ?thesis using a n(1) by blast
qed

text \<open>
  C37: The signature of a slot anomaly can be read back: for replica ids without a bar, equal
  signatures mean the same replica, reason and slots, and the leading field, by which the handler
  keeps the state of unreachable replicas, is the replica's id.
\<close>

theorem replica_slot_signature_roundtrip:
  assumes "CHR ''|'' \<notin> set (ra_replicaId a)" and "CHR ''|'' \<notin> set (ra_replicaId b)"
    and "ra_affectedSlots a \<noteq> []" and "ra_affectedSlots b \<noteq> []"
  shows "signature_replica (replicaSlotSignature a) = ra_replicaId a \<and>
    (replicaSlotSignature a = replicaSlotSignature b \<longleftrightarrow>
       ra_replicaId a = ra_replicaId b \<and> ra_reason a = ra_reason b \<and> ra_affectedSlots a = ra_affectedSlots b)"
proof -
  have "signature_replica (replicaSlotSignature a) = ra_replicaId a"
    using assms(1) by (simp add: signature_replica_def replicaSlotSignature_def takeWhile_append)
  moreover have "replicaSlotSignature a = replicaSlotSignature b \<longleftrightarrow> ra_replicaId a = ra_replicaId b \<and> ra_reason a = ra_reason b \<and>
      js_join '','' (map show_int (ra_affectedSlots a)) = js_join '','' (map show_int (ra_affectedSlots b))"
    unfolding replicaSlotSignature_def append_Cons append_Nil
    by (simp only: sep_inject [OF assms(1,2)] sep_inject [OF slot_reason_no_bar slot_reason_no_bar] slot_reason_inject)
  ultimately show ?thesis using show_ints_inject [OF _ assms(3,4)] by metis
qed

definition slot_node :: "string \<Rightarrow> (int \<times> string) list \<Rightarrow> ClusterNode" where
  "slot_node i mig = \<lparr>cn_id = i, cn_address = ''h:1'', cn_flags = [''slave''], cn_master = ''m'', cn_pingSent = 0,
     cn_pongReceived = 0, cn_configEpoch = 1, cn_linkState = ''connected'', cn_slots = [], cn_migratingSlots = Some mig,
     cn_importingSlots = None, cn_hostname = None\<rparr>"

theorem replica_slot_single_remedy_witness:
  "\<exists>a \<in> set (detectReplicaSlotState [slot_node ''r'' [(7, ''x''), (3, ''x''), (7, ''y'')]] None). sorted (ra_affectedSlots a) \<and> ra_affectedSlots a = [3, 7]"
proof -
  let ?nodes = "[slot_node ''r'' [(7, ''x''), (3, ''x''), (7, ''y'')]]"
  have "map ra_affectedSlots (detectReplicaSlotState ?nodes None) = [[3, 7]]" by code_simp
  then obtain a where a: "a \<in> set (detectReplicaSlotState ?nodes None)" "ra_affectedSlots a = [3, 7]" by auto
  have "distinct (map cn_id ?nodes)" by simp
  from replica_slot_single_remedy [OF this a(1) a(1)] a show ?thesis by blast
qed

theorem replica_slot_signature_roundtrip_witness:
  "\<exists>a \<in> set (detectReplicaSlotState [slot_node ''r'' [(7, ''x''), (3, ''x'')]] None).
     replicaSlotSignature a = ''r|replica_migrating|3,7'' \<and> signature_replica (replicaSlotSignature a) = ''r''"
proof -
  let ?nodes = "[slot_node ''r'' [(7, ''x''), (3, ''x'')]]"
  have "map (\<lambda>a. (ra_replicaId a, ra_affectedSlots a, replicaSlotSignature a)) (detectReplicaSlotState ?nodes None)
      = [(''r'', [3, 7], ''r|replica_migrating|3,7'')]" by code_simp
  then obtain a where a: "a \<in> set (detectReplicaSlotState ?nodes None)" "ra_replicaId a = ''r''" "ra_affectedSlots a = [3, 7]"
    "replicaSlotSignature a = ''r|replica_migrating|3,7''" by auto
  then have "CHR ''|'' \<notin> set (ra_replicaId a)" "ra_affectedSlots a \<noteq> []" by simp_all
  from replica_slot_signature_roundtrip [OF this(1,1) this(2,2)] a show ?thesis by auto
qed

end
