(* ===== verification/Orphaned_Slots.thy ===== *)
theory Orphaned_Slots
  imports Cluster_Types
begin

text \<open>
  Keys in slots a node does not own, orphaned-slot-keys-detector.ts: DBSIZE against the keys of
  every slot CLUSTER SLOT-STATS reports. The reply is an object from slot label to key count; a
  label counts when \<open>parseInt\<close> reads a number from its start.
\<close>

record OrphanedSlotKeysInput =
  oi_clusterEnabled :: bool
  oi_isClusterPrimary :: bool
  oi_importingSlots :: "int list"
  oi_slotStats :: "(string \<times> int) list"
  oi_dbsize :: "int option"

record OrphanedSlotKeysFinding =
  of_totalOrphanedKeys :: int

definition ORPHANED_DBSIZE_DELTA_MIN_KEYS :: int where
  "ORPHANED_DBSIZE_DELTA_MIN_KEYS = 100"

definition parses_int :: "string \<Rightarrow> bool" where
  "parses_int s \<longleftrightarrow> parseInt s \<noteq> None"

definition reported_keys :: "(string \<times> int) list \<Rightarrow> int" where
  "reported_keys slotStats =
     foldl (\<lambda>total (slotLabel, key_count). if \<not> parses_int slotLabel \<or> key_count \<le> 0 then total else total + key_count) 0 slotStats"

definition detectOrphanedSlotKeys :: "OrphanedSlotKeysInput \<Rightarrow> OrphanedSlotKeysFinding option" where
  "detectOrphanedSlotKeys input =
     (if \<not> oi_clusterEnabled input \<or> \<not> oi_isClusterPrimary input then None
      else if length (oi_importingSlots input) > 0 then None
      else case oi_dbsize input of
          None \<Rightarrow> None
        | Some dbsize \<Rightarrow>
            let invisibleKeys = dbsize - reported_keys (oi_slotStats input)
            in if invisibleKeys < ORPHANED_DBSIZE_DELTA_MIN_KEYS then None
               else Some \<lparr>of_totalOrphanedKeys = invisibleKeys\<rparr>)"

definition orphanedSlotKeysSignature :: "OrphanedSlotKeysFinding \<Rightarrow> string" where
  "orphanedSlotKeysSignature _ = ''dbsize-delta''"

section \<open>The surplus\<close>

lemma foldl_sum_if:
  "foldl (\<lambda>total (l, k). if \<not> P l \<or> k \<le> 0 then total else total + (k :: int)) a xs
     = a + sum_list (map (\<lambda>(l, k). if P l \<and> 0 < k then k else 0) xs)"
  by (induction xs arbitrary: a) (auto simp: algebra_simps)

lemma reported_keys_sum: "reported_keys stats = sum_list (map (\<lambda>(l, k). if parses_int l \<and> 0 < k then k else 0) stats)"
  unfolding reported_keys_def foldl_sum_if by simp

lemma reported_keys_all:
  assumes "list_all (\<lambda>(l, k). parses_int l \<and> 0 \<le> k) stats"
  shows "reported_keys stats = sum_list (map snd stats)"
proof -
  have "map (\<lambda>(l, k). if parses_int l \<and> 0 < k then k else 0) stats = map snd stats"
    using assms by (induction stats) auto
  then show ?thesis by (simp only: reported_keys_sum)
qed

section \<open>Properties\<close>

text \<open>
  The reported surplus never exceeds the true leak: let \<open>leaked\<close> keys live in slots the node does
  not own, and let the owned keys be \<open>own0\<close>, \<open>own1\<close> and \<open>own2\<close> at the first DBSIZE, at
  SLOT-STATS and at the second DBSIZE. When the owned keys only grow or only shrink in between, a
  finding on the lower DBSIZE reports at most the leak, so a cluster without leaked keys is never
  reported; when they are steady it reports exactly the leak, and every leak of 100 keys or more.
\<close>

theorem orphaned_surplus_sound:
  assumes "list_all (\<lambda>(l, k). parses_int l \<and> 0 \<le> k) stats" and "sum_list (map snd stats) = own1"
    and "(own0 \<le> own1 \<and> own1 \<le> own2) \<or> (own2 \<le> own1 \<and> own1 \<le> own0)"
    and "input = \<lparr>oi_clusterEnabled = True, oi_isClusterPrimary = True, oi_importingSlots = [], oi_slotStats = stats,
                  oi_dbsize = Some (min (own0 + leaked) (own2 + leaked))\<rparr>"
  shows "(case detectOrphanedSlotKeys input of
       None \<Rightarrow> own0 = own1 \<and> own1 = own2 \<longrightarrow> leaked < 100
     | Some f \<Rightarrow> of_totalOrphanedKeys f \<le> leaked \<and> 100 \<le> of_totalOrphanedKeys f \<and>
         (own0 = own1 \<and> own1 = own2 \<longrightarrow> of_totalOrphanedKeys f = leaked))"
  using assms(3) reported_keys_all [OF assms(1)] assms(2)
  by (auto simp: detectOrphanedSlotKeys_def assms(4) ORPHANED_DBSIZE_DELTA_MIN_KEYS_def Let_def min_def)

theorem orphaned_surplus_sound_witness:
  "detectOrphanedSlotKeys \<lparr>oi_clusterEnabled = True, oi_isClusterPrimary = True, oi_importingSlots = [],
      oi_slotStats = [(''0'', 40), (''12'', 60)], oi_dbsize = Some (min (100 + 250) (90 + 250))\<rparr> = Some \<lparr>of_totalOrphanedKeys = 240\<rparr>
   \<and> (240 :: int) \<le> 250"
proof -
  let ?i = "\<lparr>oi_clusterEnabled = True, oi_isClusterPrimary = True, oi_importingSlots = [],
      oi_slotStats = [(''0'', 40), (''12'', 60)], oi_dbsize = Some (min (100 + 250) (90 + 250 :: int))\<rparr>"
  have d: "detectOrphanedSlotKeys ?i = Some \<lparr>of_totalOrphanedKeys = 240\<rparr>" by code_simp
  have "list_all (\<lambda>(l, k). parses_int l \<and> 0 \<le> k) [(''0'', 40), (''12'', 60 :: int)]" by code_simp
  from orphaned_surplus_sound [OF this, of 100 100 90 ?i 250] d show ?thesis by simp
qed

end
