(* ===== verification/Topology_Handlers.thy ===== *)
theory Topology_Handlers
  imports Persistence_Gate Stuck_Replica Ghost_History Hostname_Staleness Replica_Slot Orphaned_Slots
begin

text \<open>
  The handlers of anomaly.service.ts that run a snapshot detector through the persistence gate:
  stuck replicas, ghost members, hostname staleness, orphaned slot keys and replica slot state
  with its fan-out of self views, and the forget-rejoin handler, which needs no gate. Each is a
  composition of its detector's theory with \<open>Persistence_Gate\<close>; the untracked ones interpret
  \<open>gated_detector\<close>. Outside I/O is an argument: the replies of DBSIZE and SLOT-STATS (\<open>None\<close> for a
  failed call), the self view of a replica, random ids.
\<close>

definition STUCK_REPLICA_MIN_PERSIST_MS :: int where "STUCK_REPLICA_MIN_PERSIST_MS = 30000"
definition GHOST_MEMBER_MIN_PERSIST_MS :: int where "GHOST_MEMBER_MIN_PERSIST_MS = 30000"
definition HOSTNAME_STALENESS_MIN_PERSIST_MS :: int where "HOSTNAME_STALENESS_MIN_PERSIST_MS = 30000"
definition ORPHANED_SLOT_KEYS_MIN_PERSIST_MS :: int where "ORPHANED_SLOT_KEYS_MIN_PERSIST_MS = 30000"
definition ORPHANED_SLOT_KEYS_PROBE_INTERVAL_MS :: int where "ORPHANED_SLOT_KEYS_PROBE_INTERVAL_MS = 15000"
definition REPLICA_SLOT_STATE_MIN_PERSIST_MS :: int where "REPLICA_SLOT_STATE_MIN_PERSIST_MS = 30000"

type_synonym 'st gate_handler = "gate \<times> feed \<times> 'st \<Rightarrow> (gate \<times> feed \<times> 'st) \<times> gate_log"

definition stuck_params :: "string \<Rightarrow> int \<Rightarrow> ClusterNode list \<Rightarrow> StuckReplica gate_params" where
  "stuck_params connectionId timestamp nodes =
     \<lparr>gp_connId = connectionId, gp_timestamp = timestamp, gp_findings = detectStuckReplicas nodes,
      gp_signatureOf = stuckReplicaSignature, gp_minPersistMs = STUCK_REPLICA_MIN_PERSIST_MS,
      gp_buildEvent = (\<lambda>s signature. state_event (connectionId @ ''-stuck-replica-'' @ signature @ ''-'' @ show_int timestamp)
        timestamp CLUSTER_TOPOLOGY SPIKE WARNING 1 0 0 connectionId),
      gp_tracked = False, gp_metricType = None, gp_preserve = (\<lambda>_. False)\<rparr>"

definition handleStuckReplicas :: "'st StoragePort \<Rightarrow> int \<Rightarrow> string \<Rightarrow> int \<Rightarrow> ClusterNode list \<Rightarrow> 'st gate_handler" where
  "handleStuckReplicas port now connectionId timestamp nodes =
     applyTopologyPersistenceGate port now (stuck_params connectionId timestamp nodes)"

definition describeGhostFinding :: "GhostMember \<Rightarrow> AnomalySeverity \<times> nat" where
  "describeGhostFinding g =
     (case gm_reason g of
        loopback_flip \<Rightarrow> (CRITICAL, length (gm_collidingIds g))
      | live_endpoint_collision \<Rightarrow>
          (if length (gm_selfReplicatingIds g) > 0 then CRITICAL else WARNING, length (gm_collidingIds g))
      | stale_twin \<Rightarrow> (WARNING, length (gm_ghostIds g)))"

definition ghost_params ::
  "(string \<Rightarrow> string) \<Rightarrow> (string \<Rightarrow> string) \<Rightarrow> string \<Rightarrow> int \<Rightarrow> ClusterNode list \<Rightarrow> GhostMember gate_params" where
  "ghost_params collate uuid connectionId timestamp nodes =
     \<lparr>gp_connId = connectionId, gp_timestamp = timestamp, gp_findings = detectGhostMembers collate nodes,
      gp_signatureOf = ghostMemberSignature, gp_minPersistMs = GHOST_MEMBER_MIN_PERSIST_MS,
      gp_buildEvent = (\<lambda>g signature. case describeGhostFinding g of (severity, value) \<Rightarrow>
        state_event (uuid signature) timestamp GHOST_MEMBERSHIP SPIKE severity (real value) 0 0 connectionId),
      gp_tracked = False, gp_metricType = None, gp_preserve = (\<lambda>_. False)\<rparr>"

definition handleGhostMembers ::
  "'st StoragePort \<Rightarrow> (string \<Rightarrow> string) \<Rightarrow> (string \<Rightarrow> string) \<Rightarrow> int \<Rightarrow> string \<Rightarrow> int \<Rightarrow> ClusterNode list \<Rightarrow> 'st gate_handler" where
  "handleGhostMembers port collate uuid now connectionId timestamp nodes =
     applyTopologyPersistenceGate port now (ghost_params collate uuid connectionId timestamp nodes)"

definition hostname_params :: "string \<Rightarrow> int \<Rightarrow> ClusterNode list \<times> ClusterShard list option \<Rightarrow> HostnameStaleness gate_params" where
  "hostname_params connectionId timestamp view =
     \<lparr>gp_connId = connectionId, gp_timestamp = timestamp, gp_findings = detectHostnameStaleness (fst view) (snd view),
      gp_signatureOf = hostnameStalenessSignature, gp_minPersistMs = HOSTNAME_STALENESS_MIN_PERSIST_MS,
      gp_buildEvent = (\<lambda>f signature. state_event (connectionId @ ''-hostname-staleness-'' @ signature @ ''-'' @ show_int timestamp)
        timestamp HOSTNAME_STALENESS SPIKE WARNING 1 0 0 connectionId),
      gp_tracked = False, gp_metricType = None, gp_preserve = (\<lambda>_. False)\<rparr>"

definition handleHostnameStaleness ::
  "'st StoragePort \<Rightarrow> int \<Rightarrow> string \<Rightarrow> int \<Rightarrow> ClusterNode list \<times> ClusterShard list option \<Rightarrow> 'st gate_handler" where
  "handleHostnameStaleness port now connectionId timestamp view =
     applyTopologyPersistenceGate port now (hostname_params connectionId timestamp view)"

section \<open>Forget-rejoin\<close>

text \<open>\<open>uuid n\<close> is the random id of the poll's n-th event.\<close>

definition buildForgetRejoinEvent :: "string \<Rightarrow> string \<Rightarrow> int \<Rightarrow> ForgetRejoin \<Rightarrow> AnomalyEvent" where
  "buildForgetRejoinEvent uuid connectionId timestamp rejoin =
     state_event uuid timestamp GHOST_MEMBERSHIP SPIKE WARNING (real (fr_absentPolls rejoin)) 0 0 connectionId"

definition detectForgetRejoin ::
  "'st StoragePort \<Rightarrow> (nat \<Rightarrow> string) \<Rightarrow> string \<Rightarrow> int \<Rightarrow> ClusterNode list \<Rightarrow> (string, ghost_history) jsmap \<times> feed \<times> 'st
   \<Rightarrow> ((string, ghost_history) jsmap \<times> feed \<times> 'st) \<times> AnomalyEvent list" where
  "detectForgetRejoin port uuid connectionId timestamp nodes s =
     (let history = js_get_or new_history (fst s) connectionId;
          (history', rejoins) = observe history nodes timestamp;
          events = map (\<lambda>(n, rejoin). buildForgetRejoinEvent (uuid n) connectionId timestamp rejoin) (List.enumerate 0 rejoins)
      in ((js_set connectionId history' (fst s),
           foldl (\<lambda>fs e. addAnomaly port (Some connectionId) e fs) (snd s) events), events))"

section \<open>Orphaned slot keys\<close>

record slot_reads =
  sr_hasClusterSlotStats :: bool
  sr_dbsizeBefore :: "int option"
  sr_slotStats :: "(string \<times> int) list option"
  sr_dbsizeAfter :: "int option"

definition orphan_params :: "string \<Rightarrow> int \<Rightarrow> OrphanedSlotKeysFinding option \<Rightarrow> OrphanedSlotKeysFinding gate_params" where
  "orphan_params connectionId timestamp finding =
     \<lparr>gp_connId = connectionId, gp_timestamp = timestamp,
      gp_findings = (case finding of None \<Rightarrow> [] | Some f \<Rightarrow> [f]),
      gp_signatureOf = orphanedSlotKeysSignature, gp_minPersistMs = ORPHANED_SLOT_KEYS_MIN_PERSIST_MS,
      gp_buildEvent = (\<lambda>f signature. state_event (connectionId @ ''-orphaned-slots-'' @ signature @ ''-'' @ show_int timestamp)
        timestamp ORPHANED_SLOT_KEYS SPIKE WARNING (of_int (of_totalOrphanedKeys f)) 0 0 connectionId),
      gp_tracked = False, gp_metricType = Some ORPHANED_SLOT_KEYS, gp_preserve = (\<lambda>_. False)\<rparr>"

definition orphan_import :: "ClusterNode \<Rightarrow> (int \<times> string) list" where
  "orphan_import self = (case cn_importingSlots self of None \<Rightarrow> [] | Some xs \<Rightarrow> xs)"

text \<open>
  The probe's time is the handler's extra state, set before the reads: a failed read skips the gate
  but counts as a probe.
\<close>

definition handleOrphanedSlotKeys ::
  "'st StoragePort \<Rightarrow> int \<Rightarrow> string \<Rightarrow> int \<Rightarrow> ClusterNode list \<Rightarrow> slot_reads \<Rightarrow> int option \<times> gate \<times> feed \<times> 'st
   \<Rightarrow> (int option \<times> gate \<times> feed \<times> 'st) \<times> gate_log" where
  "handleOrphanedSlotKeys port now connectionId timestamp nodes reads s =
     (case List.find (\<lambda>n. has_flag n ''myself'') nodes of
        None \<Rightarrow> (s, [])
      | Some self \<Rightarrow>
          let isClusterPrimary = has_flag self ''master'';
              dueForProbe = (case fst s of None \<Rightarrow> True | Some lastProbe \<Rightarrow> timestamp - lastProbe \<ge> ORPHANED_SLOT_KEYS_PROBE_INTERVAL_MS)
          in if \<not> isClusterPrimary \<or> \<not> sr_hasClusterSlotStats reads \<or> length (orphan_import self) > 0 \<or> \<not> dueForProbe
             then (s, [])
             else (case (sr_dbsizeBefore reads, sr_slotStats reads, sr_dbsizeAfter reads) of
                 (Some before, Some stats, Some after) \<Rightarrow>
                   let finding = detectOrphanedSlotKeys \<lparr>oi_clusterEnabled = True, oi_isClusterPrimary = isClusterPrimary,
                         oi_importingSlots = map fst (orphan_import self), oi_slotStats = stats, oi_dbsize = Some (min before after)\<rparr>;
                       r = applyTopologyPersistenceGate port now (orphan_params connectionId timestamp finding) (snd s)
                   in ((Some timestamp, fst r), snd r)
               | _ \<Rightarrow> ((Some timestamp, snd s), [])))"

section \<open>Replica slot state\<close>

text \<open>The outcome of asking a replica for its own line.\<close>

datatype self_view = Unreachable | NoSelf | SelfView ClusterNode

definition FANOUT_DEAD_FLAGS :: "string list" where
  "FANOUT_DEAD_FLAGS = [''fail'', ''fail?'', ''noaddr'', ''handshake'']"

definition remoteReplicas :: "ClusterNode list \<Rightarrow> ClusterNode list" where
  "remoteReplicas baseNodes =
     filter (\<lambda>n. (has_flag n ''slave'' \<or> has_flag n ''replica'') \<and> \<not> has_flag n ''myself'' \<and>
                 \<not> list_ex (has_flag n) FANOUT_DEAD_FLAGS) baseNodes"

definition overlay :: "ClusterNode \<Rightarrow> ClusterNode \<Rightarrow> ClusterNode" where
  "overlay self target =
     target\<lparr>cn_flags := filter (\<lambda>flag. flag \<noteq> ''myself'') (cn_flags self), cn_master := cn_master self,
            cn_slots := cn_slots self, cn_migratingSlots := cn_migratingSlots self, cn_importingSlots := cn_importingSlots self\<rparr>"

text \<open>\<open>byId\<close> holds the last node of an id, so that is the one overlaid.\<close>

fun update_first :: "('a \<Rightarrow> bool) \<Rightarrow> ('a \<Rightarrow> 'a) \<Rightarrow> 'a list \<Rightarrow> 'a list" where
  "update_first P f [] = []"
| "update_first P f (x # xs) = (if P x then f x # xs else x # update_first P f xs)"

definition merge_self_view :: "(ClusterNode \<Rightarrow> self_view) \<Rightarrow> ClusterNode list \<Rightarrow> ClusterNode \<Rightarrow> ClusterNode list" where
  "merge_self_view selfView merged r =
     (case selfView r of
        SelfView self \<Rightarrow> rev (update_first (\<lambda>n. cn_id n = cn_id r) (overlay self) (rev merged))
      | _ \<Rightarrow> merged)"

definition gatherReplicaSlotView ::
  "bool \<Rightarrow> (ClusterNode \<Rightarrow> self_view) \<Rightarrow> ClusterNode list \<Rightarrow> ClusterNode list \<times> string list" where
  "gatherReplicaSlotView clusterDiscovery selfView baseNodes =
     (if \<not> clusterDiscovery then (baseNodes, [])
      else let remotes = remoteReplicas baseNodes
           in if length remotes = 0 then (baseNodes, [])
              else (foldl (merge_self_view selfView) baseNodes remotes,
                    js_uniq (map cn_id (filter (\<lambda>r. selfView r = Unreachable) remotes))))"

definition replica_slot_params ::
  "string \<Rightarrow> int \<Rightarrow> ClusterNode list \<Rightarrow> ClusterShard list option \<Rightarrow> string list \<Rightarrow> ReplicaSlotAnomaly gate_params" where
  "replica_slot_params connectionId timestamp nodes shards unreachable =
     \<lparr>gp_connId = connectionId, gp_timestamp = timestamp, gp_findings = detectReplicaSlotState nodes shards,
      gp_signatureOf = replicaSlotSignature, gp_minPersistMs = REPLICA_SLOT_STATE_MIN_PERSIST_MS,
      gp_buildEvent = (\<lambda>a signature. state_event (connectionId @ ''-replica-slot-state-'' @ signature @ ''-'' @ show_int timestamp)
        timestamp REPLICA_SLOT_STATE SPIKE WARNING 1 0 0 connectionId),
      gp_tracked = True, gp_metricType = Some REPLICA_SLOT_STATE,
      gp_preserve = (\<lambda>signature. signature_replica signature \<in> set unreachable)\<rparr>"

definition handleReplicaSlotState ::
  "'st StoragePort \<Rightarrow> int \<Rightarrow> string \<Rightarrow> int \<Rightarrow> ClusterNode list \<Rightarrow> ClusterShard list option \<Rightarrow> string list \<Rightarrow> 'st gate_handler" where
  "handleReplicaSlotState port now connectionId timestamp nodes shards unreachable =
     applyTopologyPersistenceGate port now (replica_slot_params connectionId timestamp nodes shards unreachable)"

section \<open>The untracked handlers as gated detectors\<close>

interpretation stuck: gated_detector "\<lambda>t nodes. handleStuckReplicas port now c t nodes" port "stuck_params c" stuckReplicaSignature
  detectStuckReplicas "\<lambda>_ _. False" STUCK_REPLICA_MIN_PERSIST_MS for port now c
  by unfold_locales (auto simp: handleStuckReplicas_def stuck_params_def STUCK_REPLICA_MIN_PERSIST_MS_def)

interpretation ghosts: gated_detector "\<lambda>t nodes. handleGhostMembers port collate uuid now c t nodes" port "ghost_params collate uuid c"
  ghostMemberSignature "detectGhostMembers collate" "\<lambda>_ _. False" GHOST_MEMBER_MIN_PERSIST_MS for port collate uuid now c
  by unfold_locales (auto simp: handleGhostMembers_def ghost_params_def GHOST_MEMBER_MIN_PERSIST_MS_def)

interpretation hostnames: gated_detector "\<lambda>t view. handleHostnameStaleness port now c t view" port "hostname_params c"
  hostnameStalenessSignature "\<lambda>view. detectHostnameStaleness (fst view) (snd view)" "\<lambda>_ _. False"
  HOSTNAME_STALENESS_MIN_PERSIST_MS for port now c
  by unfold_locales (auto simp: handleHostnameStaleness_def hostname_params_def HOSTNAME_STALENESS_MIN_PERSIST_MS_def)

section \<open>The fan-out\<close>

lemma update_first_id:
  assumes "distinct (map cn_id ns)"
  shows "update_first (\<lambda>n. cn_id n = i) f ns = map (\<lambda>n. if cn_id n = i then f n else n) ns"
  using assms
proof (induction ns)
  case (Cons n ns)
  show ?case
  proof (cases "cn_id n = i")
    case True
    with Cons.prems have "cn_id m \<noteq> i" if "m \<in> set ns" for m using that by (metis distinct.simps(2) image_eqI list.map(2) list.set_map)
    then have "map (\<lambda>n. if cn_id n = i then f n else n) ns = ns" by (simp add: map_idI)
    with True show ?thesis by simp
  qed (use Cons in simp)
qed simp

lemma overlay_id [simp]: "cn_id (overlay self n) = cn_id n"
  by (simp add: overlay_def)

lemma merge_self_view_map:
  assumes "distinct (map cn_id ns)"
  shows "merge_self_view selfView ns r =
    map (\<lambda>n. if cn_id n = cn_id r then (case selfView r of SelfView self \<Rightarrow> overlay self n | _ \<Rightarrow> n) else n) ns"
proof (cases "selfView r")
  case (SelfView self)
  have "distinct (map cn_id (rev ns))" using assms by (simp flip: rev_map)
  with SelfView show ?thesis by (simp add: merge_self_view_def update_first_id rev_map)
qed (auto simp: merge_self_view_def intro: map_idI [symmetric])

definition own_view :: "(ClusterNode \<Rightarrow> self_view) \<Rightarrow> ClusterNode list \<Rightarrow> ClusterNode \<Rightarrow> ClusterNode" where
  "own_view selfView remotes n =
     (case List.find (\<lambda>r. cn_id r = cn_id n) remotes of
        None \<Rightarrow> n
      | Some r \<Rightarrow> (case selfView r of SelfView self \<Rightarrow> overlay self n | _ \<Rightarrow> n))"

lemma own_view_id [simp]: "cn_id (own_view selfView rs n) = cn_id n"
  by (simp add: own_view_def split: option.split self_view.split)

lemma foldl_merge:
  assumes "distinct (map cn_id ns)" and "distinct (map cn_id rs)"
  shows "foldl (merge_self_view selfView) ns rs = map (own_view selfView rs) ns"
  using assms
proof (induction rs arbitrary: ns)
  case Nil
  then show ?case by (simp add: own_view_def)
next
  case (Cons r rs)
  let ?f = "\<lambda>n. if cn_id n = cn_id r then (case selfView r of SelfView self \<Rightarrow> overlay self n | _ \<Rightarrow> n) else n"
  have id: "cn_id (?f n) = cn_id n" for n by (simp split: self_view.split)
  then have ids: "map cn_id (map ?f ns) = map cn_id ns" by simp
  have "own_view selfView rs (?f n) = own_view selfView (r # rs) n" for n
  proof (cases "cn_id n = cn_id r")
    case True
    have "cn_id x \<noteq> cn_id r" if "x \<in> set rs" for x
      using Cons.prems(2) that by (metis distinct.simps(2) image_eqI list.map(2) list.set_map)
    then have "List.find (\<lambda>x. cn_id x = cn_id r) rs = None" by (simp add: find_None_iff)
    with True id [of n] show ?thesis by (simp add: own_view_def)
  next
    case False
    then show ?thesis by (auto simp: own_view_def)
  qed
  then have "map (own_view selfView rs) (map ?f ns) = map (own_view selfView (r # rs)) ns" by simp
  moreover have "foldl (merge_self_view selfView) ns (r # rs) = map (own_view selfView rs) (map ?f ns)"
    using Cons.IH [of "map ?f ns"] Cons.prems merge_self_view_map [OF Cons.prems(1), of selfView r]
    by (simp only: foldl_Cons ids distinct.simps list.map)
  ultimately show ?case by simp
qed

lemma own_view_remotes:
  assumes "distinct (map cn_id ns)" and "n \<in> set ns"
  shows "own_view selfView (remoteReplicas ns) n =
    (if n \<in> set (remoteReplicas ns) then (case selfView n of SelfView self \<Rightarrow> overlay self n | _ \<Rightarrow> n) else n)"
proof -
  have unique: "m = n" if "m \<in> set (remoteReplicas ns)" "cn_id m = cn_id n" for m
  proof -
    have "m \<in> set ns" using that(1) by (simp add: remoteReplicas_def)
    then show ?thesis using assms that(2) by (metis distinct_map inj_on_eq_iff)
  qed
  show ?thesis
  proof (cases "List.find (\<lambda>r. cn_id r = cn_id n) (remoteReplicas ns)")
    case None
    then have "n \<notin> set (remoteReplicas ns)" by (auto simp: find_None_iff)
    with None show ?thesis by (simp add: own_view_def)
  next
    case (Some r)
    then have "r \<in> set (remoteReplicas ns)" "cn_id r = cn_id n" by (auto simp: find_Some_iff)
    with unique [OF this] Some show ?thesis by (simp add: own_view_def)
  qed
qed

section \<open>Properties\<close>

text \<open>
  A transient orphaning of a failover raises nothing: a stuck-replica alert is emitted only for a
  (replica, primary) pair of the current view that was reported in every poll since one at least
  30 seconds ago.
\<close>

theorem stuck_alert_after_grace:
  assumes "(k, e) \<in> set (snd (handleStuckReplicas port now c t nodes
      (fst (poll_run (\<lambda>t nodes. handleStuckReplicas port now c t nodes) (new_gate, fs) ps))))"
  shows "k \<in> stuckReplicaSignature ` set (detectStuckReplicas nodes) \<and>
    (\<exists>before t0 v0 after. ps = before @ (t0, v0) # after \<and> 30000 \<le> t - t0 \<and>
       k \<in> stuckReplicaSignature ` set (detectStuckReplicas v0) \<and>
       list_all (\<lambda>(t', v'). k \<in> stuckReplicaSignature ` set (detectStuckReplicas v')) after)"
proof -
  note alert = stuck.alert_persisted [OF assms]
  from alert show ?thesis unfolding STUCK_REPLICA_MIN_PERSIST_MS_def by (simp only: simp_thms)
qed

definition orphan_replica :: ClusterNode where
  "orphan_replica = \<lparr>cn_id = ''r'', cn_address = ''h:1'', cn_flags = [''slave''], cn_master = ''p'', cn_pingSent = 0,
     cn_pongReceived = 0, cn_configEpoch = 1, cn_linkState = ''connected'', cn_slots = [], cn_migratingSlots = None,
     cn_importingSlots = None, cn_hostname = None\<rparr>"

theorem stuck_alert_after_grace_witness:
  "\<exists>k e. (k, e) \<in> set (snd (handleStuckReplicas memory_port 0 ''c'' 31000 [orphan_replica]
      (fst (poll_run (\<lambda>t nodes. handleStuckReplicas memory_port 0 ''c'' t nodes) (new_gate, empty_feed, []) [(1000, [orphan_replica])]))))
     \<and> k \<in> stuckReplicaSignature ` set (detectStuckReplicas [orphan_replica])"
proof -
  let ?log = "snd (handleStuckReplicas memory_port 0 ''c'' 31000 [orphan_replica]
      (fst (poll_run (\<lambda>t nodes. handleStuckReplicas memory_port 0 ''c'' t nodes) (new_gate, empty_feed, []) [(1000, [orphan_replica])])))"
  have one: "map fst ?log = [''r|p'']" by code_simp
  have "\<exists>e. (''r|p'', e) \<in> set log" if "map fst log = [''r|p'']" for log :: gate_log
    using that by (cases log) auto
  from this [OF one] obtain e where e: "(''r|p'', e) \<in> set ?log" by (rule exE)
  from e conjunct1 [OF stuck_alert_after_grace [OF e]] show ?thesis by (intro exI conjI)
qed

text \<open>
  A persistent ghost is alerted exactly once: when every poll of a run reports the signature, one
  alert is emitted if some poll is 30 seconds after the first and none otherwise, and in any run the
  alerts of a signature are at most one more than the polls in which it was absent.
\<close>

theorem ghost_alerted_once:
  assumes "list_all (\<lambda>(t, nodes). k \<in> ghostMemberSignature ` set (detectGhostMembers collate nodes)) ((t0, v0) # ps)"
  shows "logged k (snd (poll_run (\<lambda>t nodes. handleGhostMembers port collate uuid now c t nodes) (new_gate, fs) ((t0, v0) # ps)))
      = (if list_ex (\<lambda>(t, nodes). 30000 \<le> t - t0) ps then 1 else 0) \<and>
    logged k (snd (poll_run (\<lambda>t nodes. handleGhostMembers port collate uuid now c t nodes) (new_gate, fs) qs))
      \<le> Suc (length (filter (\<lambda>(t, nodes). k \<notin> ghostMemberSignature ` set (detectGhostMembers collate nodes)) qs))"
  using ghosts.steady_alerts_once [OF assms, where port = port and uuid = uuid and now = now and c = c and fs = fs]
    ghosts.alerts_bounded [where port = port and collate = collate and uuid = uuid and now = now and c = c and fs = fs
      and k = k and ps = qs]
  by (simp add: GHOST_MEMBER_MIN_PERSIST_MS_def del: poll_run.simps)

theorem ghost_alerted_once_witness:
  "\<exists>k. logged k (snd (poll_run (\<lambda>t nodes. handleGhostMembers memory_port (\<lambda>x. x) (\<lambda>x. x) 0 ''c'' t nodes) (new_gate, empty_feed, [])
      [(0, [ghost_node ''a'' ''h:1'' [''fail''], ghost_node ''b'' ''h:1'' [''master'']]),
       (20000, [ghost_node ''a'' ''h:1'' [''fail''], ghost_node ''b'' ''h:1'' [''master'']]),
       (40000, [ghost_node ''a'' ''h:1'' [''fail''], ghost_node ''b'' ''h:1'' [''master'']])])) = 1"
proof -
  let ?v = "[ghost_node ''a'' ''h:1'' [''fail''], ghost_node ''b'' ''h:1'' [''master'']]"
  let ?k = "ghostMemberSignature (hd (detectGhostMembers (\<lambda>x. x) ?v))"
  have "detectGhostMembers (\<lambda>x. x) ?v \<noteq> []" by code_simp
  then have "?k \<in> ghostMemberSignature ` set (detectGhostMembers (\<lambda>x. x) ?v)" by simp
  then have "list_all (\<lambda>(t, nodes). ?k \<in> ghostMemberSignature ` set (detectGhostMembers (\<lambda>x. x) nodes)) [(0, ?v), (20000, ?v), (40000, ?v)]"
    by simp
  from ghost_alerted_once [OF this, where port = memory_port and uuid = "\<lambda>x. x" and now = 0 and c = "''c''" and fs = "(empty_feed, [])" and qs = "[]"]
  show ?thesis by (intro exI [of _ ?k]) (simp del: poll_run.simps)
qed

text \<open>
  C30: A replica that cannot be reached keeps its alert: for a signature of an unreachable replica that
  the poll does not report, the grace clock, the alerted mark and the tracked event stay as they
  were, so a connectivity gap neither resolves nor repeats the warning.
\<close>

theorem unreachable_replica_keeps_alert:
  assumes "signature_replica k \<in> set unreachable" and "k \<notin> replicaSlotSignature ` set (detectReplicaSlotState nodes shards)"
    and "handleReplicaSlotState port now c t nodes shards unreachable (g, fs) = ((g', fs'), emitted)"
  shows "js_get (gt_firstSeen g') k = js_get (gt_firstSeen g) k \<and> js_get (gt_eventIds g') k = js_get (gt_eventIds g) k \<and>
    (k \<in> set (gt_active g') \<longleftrightarrow> k \<in> set (gt_active g))"
proof -
  let ?p = "replica_slot_params c t nodes shards unreachable"
  have "gp_preserve ?p k" "k \<notin> set (current_signatures ?p)"
    using assms(1,2) by (simp_all add: replica_slot_params_def set_current_signatures)
  from gate_gap_keeps [OF this, where port = port and now = now and s = "(g, fs)"] assms(3)
  show ?thesis by (simp add: handleReplicaSlotState_def)
qed

theorem unreachable_replica_keeps_alert_witness:
  "\<exists>g' fs' emitted. handleReplicaSlotState memory_port 0 ''c'' 90000 [] None [''r'']
      (new_gate\<lparr>gt_eventIds := [(''r|replica_migrating|7'', ''e1'')]\<rparr>, empty_feed, []) = ((g', fs'), emitted)
    \<and> js_get (gt_eventIds g') ''r|replica_migrating|7'' = Some ''e1''"
proof -
  let ?g = "new_gate\<lparr>gt_eventIds := [(''r|replica_migrating|7'', ''e1'')]\<rparr>"
  obtain g' fs' emitted where r: "handleReplicaSlotState memory_port 0 ''c'' 90000 [] None [''r''] (?g, empty_feed, []) = ((g', fs'), emitted)"
    by (metis surj_pair)
  have "signature_replica ''r|replica_migrating|7'' \<in> set [''r'']" by code_simp
  moreover have "''r|replica_migrating|7'' \<notin> replicaSlotSignature ` set (detectReplicaSlotState [] None)"
    by (simp add: detectReplicaSlotState_def)
  ultimately show ?thesis using unreachable_replica_keeps_alert [OF _ _ r] r by fastforce
qed

text \<open>
  The fan-out overlays each replica's own line: on a view with distinct node ids the in-place
  merge of the self views is the base view with every reachable remote replica's role and slot
  state replaced by its own and every other node untouched, and the unreachable ids are those of the
  replicas whose query failed.
\<close>

theorem fanout_overlays_own_lines:
  assumes "distinct (map cn_id nodes)"
  shows "gatherReplicaSlotView True selfView nodes =
    (map (\<lambda>n. if n \<in> set (remoteReplicas nodes) then (case selfView n of SelfView self \<Rightarrow> overlay self n | _ \<Rightarrow> n) else n) nodes,
     map cn_id (filter (\<lambda>r. selfView r = Unreachable) (remoteReplicas nodes)))"
proof -
  have rs: "distinct (map cn_id (remoteReplicas nodes))"
    using assms unfolding remoteReplicas_def by (rule distinct_map_filter)
  then have "distinct (map cn_id (filter (\<lambda>r. selfView r = Unreachable) (remoteReplicas nodes)))" by (rule distinct_map_filter)
  then have "js_uniq (map cn_id (filter (\<lambda>r. selfView r = Unreachable) (remoteReplicas nodes)))
      = map cn_id (filter (\<lambda>r. selfView r = Unreachable) (remoteReplicas nodes))" by (rule js_uniq_distinct)
  moreover have "map (own_view selfView (remoteReplicas nodes)) nodes =
      map (\<lambda>n. if n \<in> set (remoteReplicas nodes) then (case selfView n of SelfView self \<Rightarrow> overlay self n | _ \<Rightarrow> n) else n) nodes"
    by (rule map_cong [OF refl]) (rule own_view_remotes [OF assms])
  ultimately show ?thesis
    by (cases "remoteReplicas nodes = []")
       (simp_all add: gatherReplicaSlotView_def foldl_merge [OF assms rs] Let_def)
qed

theorem fanout_overlays_own_lines_witness:
  "map cn_flags (fst (gatherReplicaSlotView True (\<lambda>_. SelfView (orphan_replica\<lparr>cn_flags := [''myself'', ''master'']\<rparr>)) [orphan_replica]))
     = [[''master'']]"
proof -
  have rem: "remoteReplicas [orphan_replica] = [orphan_replica]" by code_simp
  have "distinct (map cn_id [orphan_replica])" by simp
  from fanout_overlays_own_lines [OF this, of "\<lambda>_. SelfView (orphan_replica\<lparr>cn_flags := [''myself'', ''master'']\<rparr>)"]
  show ?thesis by (simp add: rem overlay_def)
qed

end
