(* ===== verification/Latency_Regression.thy ===== *)
theory Latency_Regression
  imports Anomaly_Feed
begin

text \<open>
  The P99 latency regression guard, latency-regression: the pure detector of regression-detector.ts
  (version tracking, the upgrade rule, the sustained rule, revert) and the part of
  latency-regression.service.ts that turns findings into stored events and reverts what could not
  be stored. Latencies and rates are reals; the message texts and the
  webhook call are left out, and the configured prefetch size is an argument of the runbook. \<open>None\<close> as the result of an evaluation stands for the TypeError a missing
  latest sample would raise; it is shown not to occur.

  What the detector guarantees is shown in Latency_Streak.
\<close>

record CommandP99Point =
  cp_command :: string
  cp_p99Us :: real
  cp_serverVersion :: string
  cp_capturedAt :: int

record CommandRegression =
  cr_command :: string
  cr_baselineP99Us :: real
  cr_currentP99Us :: real
  cr_degradationFactor :: real
  cr_callsPerMin :: real

record ClusterRefreshPoint =
  rp_capturedAt :: int
  rp_callsDelta :: real

record DetectorInput =
  di_nowMs :: int
  di_samples :: "CommandP99Point list"
  di_callsPerMin :: "(string, real) jsmap"
  di_clusterRefreshDeltas :: "ClusterRefreshPoint list"

datatype RegressionKind = upgrade_regression | sustained_degradation

record RegressionFinding =
  rf_kind :: RegressionKind
  rf_previousVersion :: "string option"
  rf_currentVersion :: string
  rf_critical :: bool
  rf_commands :: "CommandRegression list"
  rf_topologyRefreshCorrelated :: bool
  rf_timestamp :: int

record UpgradeWindowState =
  uw_fromVersion :: string
  uw_toVersion :: string
  uw_openedAtMs :: int
  uw_baselines :: "(string, real) jsmap"
  uw_consecutive :: "(string, nat) jsmap"
  uw_lastCountedAt :: "(string, int) jsmap"
  uw_fired :: bool

record SustainedState =
  st_consecutive :: nat
  st_lastFiredAt :: int
  st_lastCountedAt :: int

record RegressionDetector =
  rd_lastVersion :: "string option"
  rd_upgrade :: "UpgradeWindowState option"
  rd_sustained :: "(string, SustainedState) jsmap"

definition new_regression_detector :: RegressionDetector where
  "new_regression_detector = \<lparr>rd_lastVersion = None, rd_upgrade = None, rd_sustained = []\<rparr>"

definition UPGRADE_WINDOW_MS :: int where "UPGRADE_WINDOW_MS = 24 * 60 * 60 * 1000"
definition UPGRADE_BASELINE_LOOKBACK_MS :: int where "UPGRADE_BASELINE_LOOKBACK_MS = 6 * 60 * 60 * 1000"
definition UPGRADE_MIN_BASELINE_SAMPLES :: nat where "UPGRADE_MIN_BASELINE_SAMPLES = 5"
definition UPGRADE_DEGRADATION_FACTOR :: real where "UPGRADE_DEGRADATION_FACTOR = 3 / 2"
definition SUSTAINED_DEGRADATION_FACTOR :: real where "SUSTAINED_DEGRADATION_FACTOR = 2"
definition SUSTAINED_MIN_BASELINE_SAMPLES :: nat where "SUSTAINED_MIN_BASELINE_SAMPLES = 30"
definition SUSTAINED_BASELINE_EXCLUDE_MS :: int where "SUSTAINED_BASELINE_EXCLUDE_MS = 5 * 60 * 1000"
definition SUSTAINED_COOLDOWN_MS :: int where "SUSTAINED_COOLDOWN_MS = 30 * 60 * 1000"
definition MIN_ABS_DEGRADATION_US :: real where "MIN_ABS_DEGRADATION_US = 1000"
definition CONSECUTIVE_REQUIRED :: nat where "CONSECUTIVE_REQUIRED = 5"
definition MIN_CALLS_PER_MIN :: real where "MIN_CALLS_PER_MIN = 60"
definition TOP_K_COMMANDS :: nat where "TOP_K_COMMANDS = 20"
definition STALE_SAMPLE_MS :: int where "STALE_SAMPLE_MS = 150000"
definition CRITICAL_UPGRADE_FACTOR :: real where "CRITICAL_UPGRADE_FACTOR = 3"
definition CRITICAL_P99_US :: real where "CRITICAL_P99_US = 100000"
definition CRITICAL_SUSTAINED_FACTOR :: real where "CRITICAL_SUSTAINED_FACTOR = 4"
definition TOPOLOGY_CORRELATION_WINDOW_MS :: int where "TOPOLOGY_CORRELATION_WINDOW_MS = int CONSECUTIVE_REQUIRED * 60000"
definition TOPOLOGY_BURST_MIN_CALLS :: real where "TOPOLOGY_BURST_MIN_CALLS = 10"
definition TOPOLOGY_BURST_MEDIAN_FACTOR :: real where "TOPOLOGY_BURST_MEDIAN_FACTOR = 2"

definition median :: "real list \<Rightarrow> real" where
  "median values =
     (if length values = 0 then 0
      else let sorted_values = sort values; mid = length sorted_values div 2
           in if length sorted_values mod 2 = 1 then sorted_values ! mid
              else (sorted_values ! (mid - 1) + sorted_values ! mid) / 2)"

definition parseMajorVersion :: "string \<Rightarrow> int" where
  "parseMajorVersion version = (case parseInt version of Some major \<Rightarrow> major | None \<Rightarrow> 0)"

definition isDegraded :: "real \<Rightarrow> real \<Rightarrow> real \<Rightarrow> bool" where
  "isDegraded currentP99Us baselineP99Us factor \<longleftrightarrow>
     baselineP99Us > 0 \<and> currentP99Us \<ge> factor * baselineP99Us \<and> currentP99Us - baselineP99Us \<ge> MIN_ABS_DEGRADATION_US"

definition isTopologyRefreshCorrelated :: "ClusterRefreshPoint list \<Rightarrow> int \<Rightarrow> int \<Rightarrow> bool" where
  "isTopologyRefreshCorrelated deltas windowStartMs windowEndMs =
     (if length deltas = 0 then False
      else let hourMedian = median (map rp_callsDelta deltas);
               threshold = max TOPOLOGY_BURST_MIN_CALLS (TOPOLOGY_BURST_MEDIAN_FACTOR * hourMedian)
           in list_ex (\<lambda>d. rp_capturedAt d \<ge> windowStartMs \<and> rp_capturedAt d \<le> windowEndMs \<and> rp_callsDelta d > threshold) deltas)"

definition correlated_now :: "DetectorInput \<Rightarrow> bool" where
  "correlated_now input = isTopologyRefreshCorrelated (di_clusterRefreshDeltas input)
     (di_nowMs input - TOPOLOGY_CORRELATION_WINDOW_MS) (di_nowMs input)"

section \<open>Reading the samples\<close>

definition latestByCommand :: "CommandP99Point list \<Rightarrow> (string, CommandP99Point) jsmap" where
  "latestByCommand samples =
     foldl (\<lambda>latest s. case js_get latest (cp_command s) of
         None \<Rightarrow> js_set (cp_command s) s latest
       | Some prev \<Rightarrow> if cp_capturedAt s \<ge> cp_capturedAt prev then js_set (cp_command s) s latest else latest) [] samples"

definition currentVersion :: "CommandP99Point list \<Rightarrow> string" where
  "currentVersion samples =
     (case samples of
        [] \<Rightarrow> ''''
      | first # _ \<Rightarrow> cp_serverVersion (foldl (\<lambda>newest s. if cp_capturedAt s \<ge> cp_capturedAt newest then s else newest) first samples))"

definition p99_by_command :: "(CommandP99Point \<Rightarrow> bool) \<Rightarrow> CommandP99Point list \<Rightarrow> (string, real list) jsmap" where
  "p99_by_command keep samples =
     map (\<lambda>(c, ss). (c, map cp_p99Us ss)) (group_into (\<lambda>s. if keep s then Some (cp_command s) else None) samples [])"

definition upgrade_baselines :: "int \<Rightarrow> string \<Rightarrow> CommandP99Point list \<Rightarrow> (string, real) jsmap" where
  "upgrade_baselines nowMs fromVersion samples =
     (let fromMajor = parseMajorVersion fromVersion;
          byCommand = p99_by_command (\<lambda>s. parseMajorVersion (cp_serverVersion s) = fromMajor \<and>
                                          cp_capturedAt s \<ge> nowMs - UPGRADE_BASELINE_LOOKBACK_MS) samples
      in map (\<lambda>(c, values). (c, median values))
           (filter (\<lambda>(c, values). length values \<ge> UPGRADE_MIN_BASELINE_SAMPLES) byCommand))"

definition open_window :: "int \<Rightarrow> string \<Rightarrow> string \<Rightarrow> CommandP99Point list \<Rightarrow> UpgradeWindowState" where
  "open_window nowMs fromVersion toVersion samples =
     \<lparr>uw_fromVersion = fromVersion, uw_toVersion = toVersion, uw_openedAtMs = nowMs,
      uw_baselines = upgrade_baselines nowMs fromVersion samples, uw_consecutive = [], uw_lastCountedAt = [], uw_fired = False\<rparr>"

definition trackVersion :: "string \<Rightarrow> int \<Rightarrow> CommandP99Point list \<Rightarrow> RegressionDetector \<Rightarrow> RegressionDetector" where
  "trackVersion version nowMs samples d =
     (if version = '''' then d
      else case rd_lastVersion d of
          None \<Rightarrow> d\<lparr>rd_lastVersion := Some version\<rparr>
        | Some fromVersion \<Rightarrow>
            if version = fromVersion then d
            else let d1 = d\<lparr>rd_lastVersion := Some version\<rparr>
                 in if parseMajorVersion version \<le> parseMajorVersion fromVersion then
                      (case rd_upgrade d1 of
                         Some up \<Rightarrow> if parseMajorVersion version < parseMajorVersion (uw_toVersion up)
                                    then d1\<lparr>rd_upgrade := None\<rparr> else d1
                       | None \<Rightarrow> d1)
                    else d1\<lparr>rd_upgrade := Some (open_window nowMs fromVersion version samples), rd_sustained := []\<rparr>)"

definition eligibleCommands :: "(string, real) jsmap \<Rightarrow> string list" where
  "eligibleCommands callsPerMin =
     js_uniq (map fst (take TOP_K_COMMANDS (sort_key (\<lambda>x. - snd x) (filter (\<lambda>x. snd x \<ge> MIN_CALLS_PER_MIN) callsPerMin))))"

section \<open>The upgrade rule\<close>

definition upgrade_fresh :: "DetectorInput \<Rightarrow> UpgradeWindowState \<Rightarrow> CommandP99Point option \<Rightarrow> bool" where
  "upgrade_fresh input up latest =
     (case latest of
        None \<Rightarrow> False
      | Some s \<Rightarrow> cp_capturedAt s \<ge> di_nowMs input - STALE_SAMPLE_MS \<and>
                 parseMajorVersion (cp_serverVersion s) \<ge> parseMajorVersion (uw_toVersion up))"

definition upgrade_count ::
  "DetectorInput \<Rightarrow> (string, CommandP99Point) jsmap \<Rightarrow> string list \<Rightarrow> UpgradeWindowState \<Rightarrow> string \<times> real \<Rightarrow> UpgradeWindowState" where
  "upgrade_count input latestBy eligible up cb =
     (let command = fst cb; baseline = snd cb; latest = js_get latestBy command
      in if command \<notin> set eligible then up\<lparr>uw_consecutive := js_set command 0 (uw_consecutive up)\<rparr>
         else if \<not> upgrade_fresh input up latest then up\<lparr>uw_consecutive := js_set command 0 (uw_consecutive up)\<rparr>
         else case latest of
             None \<Rightarrow> up
           | Some s \<Rightarrow>
               if cp_capturedAt s \<le> js_get_or (- 1) (uw_lastCountedAt up) command then up
               else let degraded = isDegraded (cp_p99Us s) baseline UPGRADE_DEGRADATION_FACTOR
                    in up\<lparr>uw_lastCountedAt := js_set command (cp_capturedAt s) (uw_lastCountedAt up),
                          uw_consecutive := js_set command
                            (if degraded then js_get_or 0 (uw_consecutive up) command + 1 else 0) (uw_consecutive up)\<rparr>)"

definition regression_of ::
  "DetectorInput \<Rightarrow> (string, CommandP99Point) jsmap \<Rightarrow> UpgradeWindowState \<Rightarrow> string \<Rightarrow> CommandRegression option" where
  "regression_of input latestBy up command =
     (case (js_get latestBy command, js_get (uw_baselines up) command) of
        (Some latest, Some baseline) \<Rightarrow>
          Some \<lparr>cr_command = command, cr_baselineP99Us = baseline, cr_currentP99Us = cp_p99Us latest,
                cr_degradationFactor = cp_p99Us latest / baseline, cr_callsPerMin = js_get_or 0 (di_callsPerMin input) command\<rparr>
      | _ \<Rightarrow> None)"

text \<open>All or nothing: one missing sample raises.\<close>

fun all_some :: "'a option list \<Rightarrow> 'a list option" where
  "all_some [] = Some []"
| "all_some (None # xs) = None"
| "all_some (Some x # xs) = map_option (\<lambda>ys. x # ys) (all_some xs)"

definition evaluateUpgrade ::
  "DetectorInput \<Rightarrow> (string, CommandP99Point) jsmap \<Rightarrow> string list \<Rightarrow> UpgradeWindowState option
   \<Rightarrow> (UpgradeWindowState option \<times> RegressionFinding option) option" where
  "evaluateUpgrade input latestBy eligible upgrade =
     (case upgrade of
        None \<Rightarrow> Some (None, None)
      | Some up \<Rightarrow>
          if uw_fired up then Some (Some up, None)
          else
            let up1 = foldl (upgrade_count input latestBy eligible) up (uw_baselines up);
                hot = filter (\<lambda>(c, n). n \<ge> CONSECUTIVE_REQUIRED) (uw_consecutive up1)
            in case all_some (map (\<lambda>(c, n). regression_of input latestBy up1 c) hot) of
                 None \<Rightarrow> None
               | Some regressed \<Rightarrow>
                   if length regressed = 0 then Some (Some up1, None)
                   else let ranked = sort_key (\<lambda>r. - cr_degradationFactor r) regressed;
                            critical = list_ex (\<lambda>c. cr_degradationFactor c \<ge> CRITICAL_UPGRADE_FACTOR \<or>
                                                    cr_currentP99Us c \<ge> CRITICAL_P99_US) ranked
                        in Some (Some (up1\<lparr>uw_fired := True\<rparr>),
                             Some \<lparr>rf_kind = upgrade_regression, rf_previousVersion = Some (uw_fromVersion up1),
                                   rf_currentVersion = uw_toVersion up1, rf_critical = critical, rf_commands = ranked,
                                   rf_topologyRefreshCorrelated = correlated_now input, rf_timestamp = di_nowMs input\<rparr>))"

section \<open>The sustained rule\<close>

definition new_sustained :: SustainedState where
  "new_sustained = \<lparr>st_consecutive = 0, st_lastFiredAt = 0, st_lastCountedAt = - 1\<rparr>"

definition sustained_fresh :: "DetectorInput \<Rightarrow> CommandP99Point option \<Rightarrow> bool" where
  "sustained_fresh input latest = (case latest of None \<Rightarrow> False | Some s \<Rightarrow> cp_capturedAt s \<ge> di_nowMs input - STALE_SAMPLE_MS)"

definition sustained_finding :: "DetectorInput \<Rightarrow> string \<Rightarrow> string \<Rightarrow> real \<Rightarrow> CommandP99Point \<Rightarrow> RegressionFinding" where
  "sustained_finding input version command baseline latest =
     (let factor = cp_p99Us latest / baseline
      in \<lparr>rf_kind = sustained_degradation, rf_previousVersion = None, rf_currentVersion = version,
          rf_critical = (factor \<ge> CRITICAL_SUSTAINED_FACTOR),
          rf_commands = [\<lparr>cr_command = command, cr_baselineP99Us = baseline, cr_currentP99Us = cp_p99Us latest,
                          cr_degradationFactor = factor, cr_callsPerMin = js_get_or 0 (di_callsPerMin input) command\<rparr>],
          rf_topologyRefreshCorrelated = correlated_now input, rf_timestamp = di_nowMs input\<rparr>)"

text \<open>The loop body for one command: its state, its baseline values and its latest sample.\<close>

definition sustained_command ::
  "DetectorInput \<Rightarrow> string \<Rightarrow> string \<Rightarrow> bool \<Rightarrow> real list option \<Rightarrow> CommandP99Point option \<Rightarrow> SustainedState
   \<Rightarrow> SustainedState \<times> RegressionFinding option" where
  "sustained_command input version command owned baselineValues latest state =
     (if owned then (state\<lparr>st_consecutive := 0\<rparr>, None)
      else case (latest, baselineValues) of
          (Some s, Some values) \<Rightarrow>
            if \<not> sustained_fresh input latest \<or> length values < SUSTAINED_MIN_BASELINE_SAMPLES
            then (state\<lparr>st_consecutive := 0\<rparr>, None)
            else if cp_capturedAt s \<le> st_lastCountedAt state then (state, None)
            else
              let state1 = state\<lparr>st_lastCountedAt := cp_capturedAt s\<rparr>; baseline = median values
              in if \<not> isDegraded (cp_p99Us s) baseline SUSTAINED_DEGRADATION_FACTOR
                 then (state1\<lparr>st_consecutive := 0\<rparr>, None)
                 else
                   let state2 = state1\<lparr>st_consecutive := st_consecutive state1 + 1\<rparr>
                   in if st_consecutive state2 < CONSECUTIVE_REQUIRED then (state2, None)
                      else if di_nowMs input - st_lastFiredAt state2 < SUSTAINED_COOLDOWN_MS then (state2, None)
                      else (state2\<lparr>st_lastFiredAt := di_nowMs input, st_consecutive := 0\<rparr>,
                            Some (sustained_finding input version command baseline s))
        | _ \<Rightarrow> (state\<lparr>st_consecutive := 0\<rparr>, None))"

definition owned_by_upgrade :: "UpgradeWindowState option \<Rightarrow> string \<Rightarrow> bool" where
  "owned_by_upgrade upgrade command = (case upgrade of None \<Rightarrow> False | Some up \<Rightarrow> js_has (uw_baselines up) command)"

fun sustained_loop ::
  "DetectorInput \<Rightarrow> string \<Rightarrow> UpgradeWindowState option \<Rightarrow> (string, real list) jsmap \<Rightarrow> (string, CommandP99Point) jsmap
   \<Rightarrow> string list \<Rightarrow> (string, SustainedState) jsmap \<Rightarrow> (string, SustainedState) jsmap \<times> RegressionFinding list" where
  "sustained_loop input version upgrade byCommand latestBy [] m = (m, [])"
| "sustained_loop input version upgrade byCommand latestBy (command # rest) m =
     (let r = sustained_command input version command (owned_by_upgrade upgrade command) (js_get byCommand command)
                (js_get latestBy command) (js_get_or new_sustained m command);
          r' = sustained_loop input version upgrade byCommand latestBy rest (js_set command (fst r) m)
      in (fst r', (case snd r of None \<Rightarrow> [] | Some f \<Rightarrow> [f]) @ snd r'))"

definition evaluateSustained ::
  "DetectorInput \<Rightarrow> (string, CommandP99Point) jsmap \<Rightarrow> string list \<Rightarrow> string \<Rightarrow> RegressionDetector \<Rightarrow> RegressionDetector \<times> RegressionFinding list" where
  "evaluateSustained input latestBy eligible version d =
     (let baselineCutoff = di_nowMs input - SUSTAINED_BASELINE_EXCLUDE_MS;
          byCommand = p99_by_command (\<lambda>s. cp_capturedAt s \<le> baselineCutoff \<and> cp_command s \<in> set eligible) (di_samples input);
          r = sustained_loop input version (rd_upgrade d) byCommand latestBy eligible (rd_sustained d)
      in (d\<lparr>rd_sustained := fst r\<rparr>, snd r))"

section \<open>Evaluation and revert\<close>

definition expire_window :: "int \<Rightarrow> RegressionDetector \<Rightarrow> RegressionDetector" where
  "expire_window nowMs d =
     (case rd_upgrade d of
        Some up \<Rightarrow> if nowMs - uw_openedAtMs up > UPGRADE_WINDOW_MS then d\<lparr>rd_upgrade := None\<rparr> else d
      | None \<Rightarrow> d)"

definition evaluate :: "DetectorInput \<Rightarrow> RegressionDetector \<Rightarrow> (RegressionDetector \<times> RegressionFinding list) option" where
  "evaluate input d =
     (if length (di_samples input) = 0 then Some (d, [])
      else
        let latestBy = latestByCommand (di_samples input);
            version = currentVersion (di_samples input);
            d1 = expire_window (di_nowMs input) (trackVersion version (di_nowMs input) (di_samples input) d);
            eligible = eligibleCommands (di_callsPerMin input)
        in case evaluateUpgrade input latestBy eligible (rd_upgrade d1) of
             None \<Rightarrow> None
           | Some (upgrade, upgradeFinding) \<Rightarrow>
               let r = evaluateSustained input latestBy eligible version (d1\<lparr>rd_upgrade := upgrade\<rparr>)
               in Some (fst r, (case upgradeFinding of None \<Rightarrow> [] | Some f \<Rightarrow> [f]) @ snd r))"

definition revert_command :: "(string, SustainedState) jsmap \<Rightarrow> CommandRegression \<Rightarrow> (string, SustainedState) jsmap" where
  "revert_command m c =
     (case js_get m (cr_command c) of
        None \<Rightarrow> m
      | Some state \<Rightarrow> js_set (cr_command c)
          (state\<lparr>st_consecutive := CONSECUTIVE_REQUIRED, st_lastFiredAt := 0, st_lastCountedAt := - 1\<rparr>) m)"

definition revert :: "RegressionFinding \<Rightarrow> RegressionDetector \<Rightarrow> RegressionDetector" where
  "revert finding d =
     (case rf_kind finding of
        upgrade_regression \<Rightarrow>
          (case rd_upgrade d of
             Some up \<Rightarrow> if uw_toVersion up = rf_currentVersion finding then d\<lparr>rd_upgrade := Some (up\<lparr>uw_fired := False\<rparr>)\<rparr> else d
           | None \<Rightarrow> d)
      | sustained_degradation \<Rightarrow> d\<lparr>rd_sustained := foldl revert_command (rd_sustained d) (rf_commands finding)\<rparr>)"

section \<open>The service\<close>

record stats_point =
  sp_capturedAt :: int
  sp_callsDelta :: real

definition SAMPLE_LOOKBACK_MS :: int where "SAMPLE_LOOKBACK_MS = 24 * 60 * 60 * 1000"
definition VOLUME_WINDOW_MS :: int where "VOLUME_WINDOW_MS = 10 * 60 * 1000"
definition CLUSTER_DELTA_WINDOW_MS :: int where "CLUSTER_DELTA_WINDOW_MS = 60 * 60 * 1000"
definition CLUSTER_REFRESH_COMMANDS :: "string list" where "CLUSTER_REFRESH_COMMANDS = [''cluster|slots'', ''cluster|shards'']"

definition regression_event :: "string \<Rightarrow> string \<Rightarrow> RegressionFinding \<Rightarrow> StoredAnomalyEvent" where
  "regression_event uuid connectionId finding =
     (let worst = rf_commands finding ! 0
      in \<lparr>se_id = uuid, se_timestamp = rf_timestamp finding, se_metricType = COMMAND_P99, se_anomalyType = SPIKE,
          se_severity = (if rf_critical finding then CRITICAL else WARNING), se_value = cr_currentP99Us worst,
          se_baseline = cr_baselineP99Us worst, se_stdDev = 0, se_zScore = 0, se_threshold = cr_degradationFactor worst,
          se_correlationId = None,
          se_relatedMetrics = (if rf_topologyRefreshCorrelated finding then Some [CLUSTER_STATE, COMMAND_P99] else None),
          se_resolved = False, se_resolvedAt = None, se_durationMs = None, se_connectionId = Some connectionId\<rparr>)"

text \<open>The runbook of the webhook; the prefetch setting is read only from version 9 on.\<close>

definition getPrefetchBatchMaxSize :: "string \<Rightarrow> int option \<Rightarrow> int option" where
  "getPrefetchBatchMaxSize version configured = (if parseMajorVersion version < 9 then None else configured)"

definition buildRunbook :: "RegressionFinding \<Rightarrow> int option \<Rightarrow> string list" where
  "buildRunbook finding prefetchBatchMaxSize =
     [''Compare per-command P99 before/after the change via GET /metrics/latencystats/history.''] @
     (if parseMajorVersion (rf_currentVersion finding) \<ge> 9
      then [''Tune prefetch-batch-max-size ('' @
              (case prefetchBatchMaxSize of Some n \<Rightarrow> ''currently '' @ show_int n | None \<Rightarrow> ''current value unknown'') @
              '', default 16): try 4, or 0 to disable batched prefetching (valkey PR #2092).'']
      else []) @
     [''Split multi-thousand-command pipelines into smaller batches on the client side.''] @
     [if rf_topologyRefreshCorrelated finding
      then ''Spikes correlate with cluster topology refresh - review the client topology refresh interval.''
      else ''If P99 spikes recur hourly, check the client cluster topology refresh interval.''] @
     (if rf_kind finding = upgrade_regression
      then [''Consider holding the rollout / rolling back; track valkey/valkey#3527 and valkey/valkey#3451 for upstream fixes.'']
      else [])"

text \<open>The flag of the result: whether the event was stored and the webhook is dispatched.\<close>

definition handleFinding ::
  "'st StoragePort \<Rightarrow> string \<Rightarrow> string \<Rightarrow> RegressionFinding \<Rightarrow> RegressionDetector \<times> 'st \<Rightarrow> (RegressionDetector \<times> 'st) \<times> bool" where
  "handleFinding port uuid connectionId finding ds =
     (case saveAnomalyEvent port (regression_event uuid connectionId finding) connectionId (snd ds) of
        None \<Rightarrow> ((revert finding (fst ds), snd ds), False)
      | Some st' \<Rightarrow> ((fst ds, st'), True))"

text \<open>The inputs of a poll from storage: \<open>history c w\<close> are the commandstats deltas of \<open>c\<close> over the last \<open>w\<close> ms.\<close>

definition calls_per_min :: "(string \<Rightarrow> int \<Rightarrow> stats_point list) \<Rightarrow> string list \<Rightarrow> (string, real) jsmap" where
  "calls_per_min history recent =
     foldl (\<lambda>m c. let h = history c VOLUME_WINDOW_MS
                  in if length h = 0 then m else js_set c (sum_list (map sp_callsDelta h) / real (length h)) m) [] recent"

definition poll_input :: "int \<Rightarrow> CommandP99Point list \<Rightarrow> (string \<Rightarrow> int \<Rightarrow> stats_point list) \<Rightarrow> DetectorInput" where
  "poll_input nowMs samples history =
     (let recent = js_uniq (map cp_command (filter (\<lambda>s. cp_capturedAt s \<ge> nowMs - STALE_SAMPLE_MS) samples))
      in \<lparr>di_nowMs = nowMs, di_samples = samples, di_callsPerMin = calls_per_min history recent,
          di_clusterRefreshDeltas = concat (map (\<lambda>c. map (\<lambda>h. \<lparr>rp_capturedAt = sp_capturedAt h, rp_callsDelta = sp_callsDelta h\<rparr>)
             (history c CLUSTER_DELTA_WINDOW_MS)) CLUSTER_REFRESH_COMMANDS)\<rparr>)"

fun handle_findings ::
  "'st StoragePort \<Rightarrow> (nat \<Rightarrow> string) \<Rightarrow> string \<Rightarrow> nat \<Rightarrow> RegressionFinding list \<Rightarrow> RegressionDetector \<times> 'st
   \<Rightarrow> (RegressionDetector \<times> 'st) \<times> RegressionFinding list" where
  "handle_findings port uuid connectionId n [] ds = (ds, [])"
| "handle_findings port uuid connectionId n (f # fs) ds =
     (let r = handleFinding port (uuid n) connectionId f ds; r' = handle_findings port uuid connectionId (Suc n) fs (fst r)
      in (fst r', (if snd r then [f] else []) @ snd r'))"

definition pollLatency ::
  "'st StoragePort \<Rightarrow> (nat \<Rightarrow> string) \<Rightarrow> string \<Rightarrow> int \<Rightarrow> CommandP99Point list \<Rightarrow> (string \<Rightarrow> int \<Rightarrow> stats_point list)
   \<Rightarrow> (string, RegressionDetector) jsmap \<times> 'st \<Rightarrow> ((string, RegressionDetector) jsmap \<times> 'st) option" where
  "pollLatency port uuid connectionId nowMs samples history ds =
     (if length samples = 0 then Some ds
      else case evaluate (poll_input nowMs samples history) (js_get_or new_regression_detector (fst ds) connectionId) of
          None \<Rightarrow> None
        | Some (d, findings) \<Rightarrow>
            let r = fst (handle_findings port uuid connectionId 0 findings (d, snd ds))
            in Some (js_set connectionId (fst r) (fst ds), snd r))"

end
