(* ===== verification/Latency_Streak.thy ===== *)
theory Latency_Streak
  imports Latency_Regression
begin

text \<open>
  What the latency regression guard promises. Both rules count physical samples, not polls: the
  locale \<open>sample_streak\<close> states that counting contract over any state with a counter, the time of
  the last counted sample and the reference it was compared with, and its client lemma says what
  a count means. The two counters of the detector are its interpretations, for every command.
  The detector's invariant \<open>reg_inv\<close> gives that an evaluation never raises.
\<close>

section \<open>Counting physical samples\<close>

datatype 'b streak_obs = Reset | NoSample | Sample int bool 'b

fun streak_step :: "nat \<times> int \<Rightarrow> 'b streak_obs \<Rightarrow> nat \<times> int" where
  "streak_step (n, l) Reset = (0, l)"
| "streak_step (n, l) NoSample = (n, l)"
| "streak_step (n, l) (Sample t degraded b) = (if t \<le> l then (n, l) else (if degraded then Suc n else 0, t))"

lemma streak_step_NoSample [simp]: "streak_step p NoSample = p"
  by (cases p) simp

fun run_obs :: "('s \<Rightarrow> 'o \<Rightarrow> 's) \<Rightarrow> ('s \<Rightarrow> 'o \<Rightarrow> 'b streak_obs) \<Rightarrow> 's \<Rightarrow> 'o list \<Rightarrow> 'b streak_obs list" where
  "run_obs step obs s [] = []"
| "run_obs step obs s (x # xs) = obs s x # run_obs step obs (step s x) xs"

lemma run_obs_snoc: "run_obs step obs s (xs @ [x]) = run_obs step obs s xs @ [obs (foldl step s xs) x]"
  by (induction xs arbitrary: s) simp_all

lemma run_obs_mem: "y \<in> set (run_obs step obs s xs) \<Longrightarrow> \<exists>x \<in> set xs. \<exists>s'. y = obs s' x"
  by (induction xs arbitrary: s) auto

text \<open>\<open>n\<close> samples with increasing capture times, the last at or before \<open>l\<close>, each observed as degraded against \<open>b\<close>.\<close>

definition degraded_samples :: "'b streak_obs list \<Rightarrow> 'b \<Rightarrow> nat \<Rightarrow> int \<Rightarrow> int list \<Rightarrow> bool" where
  "degraded_samples os b n l ts \<longleftrightarrow> length ts = n \<and> sorted_wrt (<) ts \<and> (\<forall>t \<in> set ts. t \<le> l \<and> Sample t True b \<in> set os)"

lemma degraded_samples_0 [simp, intro]: "degraded_samples os b 0 l []"
  by (simp add: degraded_samples_def)

lemma degraded_samples_more: "degraded_samples os b n l ts \<Longrightarrow> degraded_samples (os @ [x]) b n l ts"
  by (auto simp: degraded_samples_def)

lemma degraded_samples_snoc:
  "degraded_samples os b n l ts \<Longrightarrow> l < t \<Longrightarrow> degraded_samples (os @ [Sample t True b]) b (Suc n) t (ts @ [t])"
  by (fastforce simp: degraded_samples_def sorted_wrt_append)

lemma degraded_samples_step:
  assumes "degraded_samples os b n l ts" and "streak_step (n, l) x = (n', l')"
    and "\<forall>t c. x = Sample t True c \<longrightarrow> c = b"
  shows "\<exists>ts'. degraded_samples (os @ [x]) b n' l' ts'"
proof (cases x)
  case (Sample t degraded c)
  with assms degraded_samples_more [OF assms(1), of x] degraded_samples_snoc [OF assms(1), of t] show ?thesis
    by (cases "t \<le> l"; cases degraded) auto
qed (use assms(2) degraded_samples_more [OF assms(1), of x] in auto)

locale sample_streak =
  fixes step :: "'s \<Rightarrow> 'o \<Rightarrow> 's"
    and obs :: "'s \<Rightarrow> 'o \<Rightarrow> 'b streak_obs"
    and counter :: "'s \<Rightarrow> nat"
    and counted :: "'s \<Rightarrow> int"
    and ref :: "'s \<Rightarrow> 'b"
    and ok :: "'s \<Rightarrow> bool"
  assumes step_counter: "ok s \<Longrightarrow> counter (step s x) = 0
        \<or> (\<exists>l. (counter (step s x), counted (step s x)) = streak_step (0, l) (obs s x))
        \<or> ((counter (step s x), counted (step s x)) = streak_step (counter s, counted s) (obs s x) \<and> ref (step s x) = ref s)"
    and step_ref: "ok s \<Longrightarrow> obs s x = Sample t True b \<Longrightarrow> b = ref (step s x)"
    and step_ok: "ok s \<Longrightarrow> ok (step s x)"
begin

lemma run_ok: "ok s \<Longrightarrow> ok (foldl step s xs)"
  by (induction xs arbitrary: s) (simp_all add: step_ok)

lemma counter_means:
  assumes "ok s" and "counter s = 0"
  shows "\<exists>ts. degraded_samples (run_obs step obs s xs) (ref (foldl step s xs)) (counter (foldl step s xs)) (counted (foldl step s xs)) ts"
proof (induction xs rule: rev_induct)
  case Nil
  from assms(2) show ?case by auto
next
  case (snoc x xs)
  define s1 where "s1 = foldl step s xs"
  define os where "os = run_obs step obs s xs"
  from snoc obtain ts where ts: "degraded_samples os (ref s1) (counter s1) (counted s1) ts" unfolding s1_def os_def by blast
  have ok1: "ok s1" unfolding s1_def by (rule run_ok [OF assms(1)])
  have ref1: "\<forall>t c. obs s1 x = Sample t True c \<longrightarrow> c = ref (step s1 x)" using step_ref [OF ok1] by blast
  have "\<exists>ts. degraded_samples (os @ [obs s1 x]) (ref (step s1 x)) (counter (step s1 x)) (counted (step s1 x)) ts"
    using step_counter [OF ok1, of x]
  proof (elim disjE exE conjE)
    fix l assume "(counter (step s1 x), counted (step s1 x)) = streak_step (0, l) (obs s1 x)"
    then show ?thesis by (intro degraded_samples_step [OF degraded_samples_0 _ ref1]) (rule sym)
  next
    assume *: "(counter (step s1 x), counted (step s1 x)) = streak_step (counter s1, counted s1) (obs s1 x)"
      and same: "ref (step s1 x) = ref s1"
    show ?thesis unfolding same by (rule degraded_samples_step [OF ts * [symmetric] ref1 [unfolded same]])
  qed auto
  then show ?case by (simp add: run_obs_snoc s1_def os_def)
qed

end

section \<open>The upgrade counters of one poll\<close>

definition up_counter :: "string \<Rightarrow> UpgradeWindowState \<Rightarrow> nat \<times> int" where
  "up_counter c up = (js_get_or 0 (uw_consecutive up) c, js_get_or (- 1) (uw_lastCountedAt up) c)"

definition upgrade_seen ::
  "DetectorInput \<Rightarrow> (string, CommandP99Point) jsmap \<Rightarrow> string list \<Rightarrow> string \<Rightarrow> UpgradeWindowState \<Rightarrow> real \<Rightarrow> 'b \<Rightarrow> 'b streak_obs" where
  "upgrade_seen input latestBy eligible c up baseline ref =
     (case js_get latestBy c of
        None \<Rightarrow> Reset
      | Some s \<Rightarrow> if c \<notin> set eligible \<or> \<not> upgrade_fresh input up (Some s) then Reset
                  else Sample (cp_capturedAt s) (isDegraded (cp_p99Us s) baseline UPGRADE_DEGRADATION_FACTOR) ref)"

lemma upgrade_count_frame [simp]:
  "uw_baselines (upgrade_count input latestBy eligible up cb) = uw_baselines up"
  "uw_toVersion (upgrade_count input latestBy eligible up cb) = uw_toVersion up"
  "uw_fromVersion (upgrade_count input latestBy eligible up cb) = uw_fromVersion up"
  "uw_fired (upgrade_count input latestBy eligible up cb) = uw_fired up"
  by (simp_all add: upgrade_count_def Let_def split: option.split)

lemma upgrade_count_self:
  "up_counter (fst cb) (upgrade_count input latestBy eligible up cb)
     = streak_step (up_counter (fst cb) up) (upgrade_seen input latestBy eligible (fst cb) up (snd cb) ref)"
  by (auto simp: upgrade_count_def Let_def up_counter_def upgrade_seen_def upgrade_fresh_def js_get_or_def js_simps split: option.split)

lemma upgrade_count_other:
  "c \<noteq> fst cb \<Longrightarrow> up_counter c (upgrade_count input latestBy eligible up cb) = up_counter c up"
  by (auto simp: upgrade_count_def Let_def up_counter_def js_get_or_def js_simps split: option.split)

lemma upgrade_seen_cong:
  "uw_toVersion up' = uw_toVersion up \<Longrightarrow> upgrade_seen input latestBy eligible c up' = upgrade_seen input latestBy eligible c up"
  by (intro ext) (simp add: upgrade_seen_def upgrade_fresh_def split: option.split)

lemma upgrade_fold_frame [simp]:
  "uw_baselines (foldl (upgrade_count input latestBy eligible) up bs) = uw_baselines up"
  "uw_toVersion (foldl (upgrade_count input latestBy eligible) up bs) = uw_toVersion up"
  "uw_fromVersion (foldl (upgrade_count input latestBy eligible) up bs) = uw_fromVersion up"
  "uw_fired (foldl (upgrade_count input latestBy eligible) up bs) = uw_fired up"
  by (induction bs arbitrary: up) simp_all

lemma upgrade_fold_other:
  "c \<notin> fst ` set bs \<Longrightarrow> up_counter c (foldl (upgrade_count input latestBy eligible) up bs) = up_counter c up"
  by (induction bs arbitrary: up) (simp_all add: upgrade_count_other)

lemma upgrade_fold_counter:
  assumes "wf_map bs" and "js_get bs c = Some b"
  shows "up_counter c (foldl (upgrade_count input latestBy eligible) up bs)
           = streak_step (up_counter c up) (upgrade_seen input latestBy eligible c up b ref)"
  using assms
proof (induction bs arbitrary: up)
  case (Cons cb bs)
  show ?case
  proof (cases "fst cb = c")
    case True
    with Cons.prems have "b = snd cb" and "c \<notin> fst ` set bs" by (auto simp: wf_map_def)
    with True upgrade_count_self [of cb input latestBy eligible up ref] show ?thesis by (simp add: upgrade_fold_other)
  next
    case False
    with Cons.prems have "js_get bs c = Some b" "wf_map bs" by (simp_all add: wf_map_def)
    with Cons.IH [of "upgrade_count input latestBy eligible up cb"] False show ?thesis
      by (simp add: upgrade_count_other upgrade_seen_cong [of "upgrade_count input latestBy eligible up cb" up])
  qed
qed simp

lemma upgrade_fold_maps:
  assumes "wf_map (uw_consecutive up)"
  shows "wf_map (uw_consecutive (foldl (upgrade_count input latestBy eligible) up bs))
    \<and> fst ` set (uw_consecutive (foldl (upgrade_count input latestBy eligible) up bs)) \<subseteq> fst ` set (uw_consecutive up) \<union> fst ` set bs"
  using assms
proof (induction bs arbitrary: up)
  case (Cons cb bs)
  let ?up = "upgrade_count input latestBy eligible up cb"
  have "wf_map (uw_consecutive ?up)" "fst ` set (uw_consecutive ?up) \<subseteq> insert (fst cb) (fst ` set (uw_consecutive up))"
    using Cons.prems by (auto simp: upgrade_count_def Let_def js_keys_set split: option.split)
  note one = this
  have "fst ` set (cb # bs) = insert (fst cb) (fst ` set bs)" by simp
  with one Cons.IH [OF one(1)] show ?case by (simp del: set_simps image_insert) blast
qed simp

section \<open>The invariant of the detector\<close>

definition window_inv :: "UpgradeWindowState \<Rightarrow> bool" where
  "window_inv up \<longleftrightarrow> wf_map (uw_baselines up) \<and> wf_map (uw_consecutive up) \<and>
     fst ` set (uw_consecutive up) \<subseteq> fst ` set (uw_baselines up)"

definition reg_inv :: "RegressionDetector \<Rightarrow> bool" where
  "reg_inv d \<longleftrightarrow> (case rd_upgrade d of None \<Rightarrow> True | Some up \<Rightarrow> window_inv up)"

lemma reg_inv_new [simp]: "reg_inv new_regression_detector"
  by (simp add: reg_inv_def new_regression_detector_def)

lemma wf_map_map_snd [simp]: "wf_map (map (\<lambda>(c, v). (c, f v)) xs) \<longleftrightarrow> wf_map xs"
  by (simp add: wf_map_def case_prod_unfold comp_def)

lemma wf_p99_by_command [simp]: "wf_map (p99_by_command keep samples)"
  by (simp add: p99_by_command_def)

lemma window_inv_open [simp]: "window_inv (open_window nowMs fromVersion toVersion samples)"
  by (simp add: window_inv_def open_window_def upgrade_baselines_def Let_def)

text \<open>The detector after version tracking and window expiry, before the two rules run.\<close>

definition ready :: "DetectorInput \<Rightarrow> RegressionDetector \<Rightarrow> RegressionDetector" where
  "ready input d = expire_window (di_nowMs input) (trackVersion (currentVersion (di_samples input)) (di_nowMs input) (di_samples input) d)"

lemma ready_cases:
  obtains "rd_upgrade (ready input d) = rd_upgrade d" and "rd_sustained (ready input d) = rd_sustained d"
  | "rd_upgrade (ready input d) = None" and "rd_sustained (ready input d) = rd_sustained d"
  | "rd_sustained (ready input d) = []" and "rd_upgrade (ready input d) = None"
  | fromVersion toVersion where "rd_sustained (ready input d) = []"
      and "rd_upgrade (ready input d) = Some (open_window (di_nowMs input) fromVersion toVersion (di_samples input))"
  by (fastforce simp: ready_def expire_window_def trackVersion_def Let_def split: option.splits if_splits)

lemma reg_inv_ready [simp]: "reg_inv d \<Longrightarrow> reg_inv (ready input d)"
  by (cases rule: ready_cases [of input d]) (simp_all add: reg_inv_def)

lemma all_some_map: "\<forall>x \<in> set xs. f x \<noteq> None \<Longrightarrow> all_some (map f xs) = Some (map (\<lambda>x. the (f x)) xs)"
  by (induction xs) auto

lemma all_some_SomeD: "all_some xs = Some ys \<Longrightarrow> xs = map Some ys"
  by (induction xs arbitrary: ys rule: all_some.induct) auto

text \<open>A counter that stands after the poll belongs to a command whose latest sample was fresh.\<close>

lemma counter_stands:
  assumes "window_inv up" and "(c, n) \<in> set (uw_consecutive (foldl (upgrade_count input latestBy eligible) up (uw_baselines up)))" and "0 < n"
  obtains s b where "js_get latestBy c = Some s" and "js_get (uw_baselines up) c = Some b" and "c \<in> set eligible"
    and "upgrade_fresh input up (Some s)" and "fst (up_counter c (foldl (upgrade_count input latestBy eligible) up (uw_baselines up))) = n"
proof -
  let ?up = "foldl (upgrade_count input latestBy eligible) up (uw_baselines up)"
  have maps: "wf_map (uw_consecutive ?up)" "fst ` set (uw_consecutive ?up) \<subseteq> fst ` set (uw_baselines up)"
    using upgrade_fold_maps [of up input latestBy eligible "uw_baselines up"] assms(1) by (auto simp: window_inv_def)
  have "js_get (uw_consecutive ?up) c = Some n" using assms(2) maps(1) by (simp add: js_get_in_set)
  then have n: "fst (up_counter c ?up) = n" by (simp add: up_counter_def js_get_or_def)
  have "c \<in> fst ` set (uw_baselines up)" using maps(2) assms(2) by force
  then obtain b where b: "js_get (uw_baselines up) c = Some b" by (metis map_of_eq_None_iff not_Some_eq)
  have "up_counter c ?up = streak_step (up_counter c up) (upgrade_seen input latestBy eligible c up b ())"
    using assms(1) b by (intro upgrade_fold_counter) (simp_all add: window_inv_def)
  with n assms(3) have "upgrade_seen input latestBy eligible c up b () \<noteq> Reset"
    by (cases "up_counter c up") auto
  with b n that show thesis by (auto simp: upgrade_seen_def split: option.splits if_splits)
qed

lemma regression_of_Some: "regression_of input latestBy up c = Some r \<Longrightarrow>
    cr_command r = c \<and> js_get (uw_baselines up) c = Some (cr_baselineP99Us r)"
  by (auto simp: regression_of_def split: option.splits)

text \<open>One run of the upgrade rule: it never raises, keeps the window's identity, and what it reports is counted.\<close>

lemma evaluateUpgrade_total:
  assumes "window_inv up"
  obtains "uw_fired up" and "evaluateUpgrade input latestBy eligible (Some up) = Some (Some up, None)"
  | up1 fired finding where "\<not> uw_fired up" and "evaluateUpgrade input latestBy eligible (Some up) = Some (Some (up1\<lparr>uw_fired := fired\<rparr>), finding)"
      and "up1 = foldl (upgrade_count input latestBy eligible) up (uw_baselines up)" and "fired \<longleftrightarrow> finding \<noteq> None"
      and "\<forall>f. finding = Some f \<longrightarrow> rf_kind f = upgrade_regression \<and> rf_currentVersion f = uw_toVersion up \<and>
             (\<forall>r \<in> set (rf_commands f). CONSECUTIVE_REQUIRED \<le> fst (up_counter (cr_command r) up1) \<and>
                js_get (uw_baselines up) (cr_command r) = Some (cr_baselineP99Us r))"
proof (cases "uw_fired up")
  case True
  with that(1) show thesis by (simp add: evaluateUpgrade_def)
next
  case False
  define up1 where "up1 = foldl (upgrade_count input latestBy eligible) up (uw_baselines up)"
  define hot where "hot = filter (\<lambda>(c, n). n \<ge> CONSECUTIVE_REQUIRED) (uw_consecutive up1)"
  let ?reg = "\<lambda>(c, n). regression_of input latestBy up1 c"
  have frame: "uw_baselines up1 = uw_baselines up" "uw_toVersion up1 = uw_toVersion up" "uw_fired up1 = uw_fired up"
    by (simp_all add: up1_def)
  have hot1: "?reg x \<noteq> None \<and> CONSECUTIVE_REQUIRED \<le> fst (up_counter (fst x) up1)" if x: "x \<in> set hot" for x
  proof -
    from x have *: "(fst x, snd x) \<in> set (uw_consecutive up1)" "CONSECUTIVE_REQUIRED \<le> snd x" by (auto simp: hot_def)
    then have "0 < snd x" by (simp add: CONSECUTIVE_REQUIRED_def)
    from counter_stands [OF assms *(1) [unfolded up1_def] this] obtain s b where
      "js_get latestBy (fst x) = Some s" "js_get (uw_baselines up) (fst x) = Some b" "fst (up_counter (fst x) up1) = snd x"
      unfolding up1_def by metis
    with * frame show ?thesis by (cases x) (simp add: regression_of_def)
  qed
  define regressed where "regressed = map (\<lambda>x. the (?reg x)) hot"
  have all: "all_some (map ?reg hot) = Some regressed" unfolding regressed_def using hot1 by (intro all_some_map) blast
  have regs: "CONSECUTIVE_REQUIRED \<le> fst (up_counter (cr_command r) up1) \<and> js_get (uw_baselines up) (cr_command r) = Some (cr_baselineP99Us r)"
    if "r \<in> set regressed" for r
  proof -
    from that obtain x where x: "x \<in> set hot" "r = the (?reg x)" unfolding regressed_def by auto
    with hot1 [OF x(1)] have "regression_of input latestBy up1 (fst x) = Some r" by (cases x) auto
    from regression_of_Some [OF this] hot1 [OF x(1)] frame show ?thesis by simp
  qed
  show thesis
  proof (cases "regressed = []")
    case True
    with False all have "evaluateUpgrade input latestBy eligible (Some up) = Some (Some (up1\<lparr>uw_fired := False\<rparr>), None)"
      using frame by (simp add: evaluateUpgrade_def Let_def hot_def flip: up1_def)
    with that(2) [OF False this up1_def] show thesis by simp
  next
    case nonempty: False
    define f where "f = the (snd (the (evaluateUpgrade input latestBy eligible (Some up))))"
    from False all nonempty have ev: "evaluateUpgrade input latestBy eligible (Some up) = Some (Some (up1\<lparr>uw_fired := True\<rparr>), Some f)"
      and f: "rf_kind f = upgrade_regression" "rf_currentVersion f = uw_toVersion up" "set (rf_commands f) = set regressed"
      by (simp_all add: f_def evaluateUpgrade_def Let_def hot_def frame flip: up1_def)
    from that(2) [OF False ev up1_def] f regs show thesis by simp
  qed
qed

lemma evaluateUpgrade_None [simp]: "evaluateUpgrade input latestBy eligible None = Some (None, None)"
  by (simp add: evaluateUpgrade_def)

lemma upgrade_finding_counted:
  assumes "window_inv u" and "evaluateUpgrade input latestBy eligible (Some u) = Some (up, Some f)" and "r \<in> set (rf_commands f)"
  obtains up1 where "up = Some up1" and "uw_baselines up1 = uw_baselines u" and "uw_toVersion up1 = uw_toVersion u"
    and "rf_currentVersion f = uw_toVersion u" and "CONSECUTIVE_REQUIRED \<le> fst (up_counter (cr_command r) up1)"
    and "js_get (uw_baselines u) (cr_command r) = Some (cr_baselineP99Us r)"
proof (cases rule: evaluateUpgrade_total [OF assms(1), of input latestBy eligible])
  case 1
  with assms(2) show thesis by simp
next
  case (2 up1 fired finding)
  from 2(2) assms(2) have *: "up = Some (up1\<lparr>uw_fired := fired\<rparr>)" "finding = Some f" by simp_all
  from 2(5) *(2) assms(3) have **: "rf_currentVersion f = uw_toVersion u" "CONSECUTIVE_REQUIRED \<le> fst (up_counter (cr_command r) up1)"
    "js_get (uw_baselines u) (cr_command r) = Some (cr_baselineP99Us r)" by simp_all
  show thesis by (rule that [OF *(1)]) (use ** 2(3) in \<open>simp_all add: up_counter_def\<close>)
qed

section \<open>The sustained counters of one poll\<close>

definition sustained_values :: "DetectorInput \<Rightarrow> (string, real list) jsmap" where
  "sustained_values input = p99_by_command (\<lambda>s. cp_capturedAt s \<le> di_nowMs input - SUSTAINED_BASELINE_EXCLUDE_MS \<and>
     cp_command s \<in> set (eligibleCommands (di_callsPerMin input))) (di_samples input)"

definition latest_of :: "DetectorInput \<Rightarrow> string \<Rightarrow> CommandP99Point option" where
  "latest_of input c = js_get (latestByCommand (di_samples input)) c"

text \<open>What one poll sees of a command the rule looks at, whatever the state of the detector is.\<close>

definition sustained_seen :: "DetectorInput \<Rightarrow> bool \<Rightarrow> string \<Rightarrow> unit streak_obs" where
  "sustained_seen input owned c =
     (if owned then Reset
      else case (latest_of input c, js_get (sustained_values input) c) of
          (Some s, Some values) \<Rightarrow>
            if cp_capturedAt s < di_nowMs input - STALE_SAMPLE_MS \<or> length values < SUSTAINED_MIN_BASELINE_SAMPLES then Reset
            else Sample (cp_capturedAt s) (isDegraded (cp_p99Us s) (median values) SUSTAINED_DEGRADATION_FACTOR) ()
        | _ \<Rightarrow> Reset)"

definition sustained_at :: "DetectorInput \<Rightarrow> string \<Rightarrow> bool \<Rightarrow> string \<Rightarrow> SustainedState \<Rightarrow> SustainedState \<times> RegressionFinding option" where
  "sustained_at input version owned c = sustained_command input version c owned (js_get (sustained_values input) c) (latest_of input c)"

definition sust_counter :: "SustainedState \<Rightarrow> nat \<times> int" where
  "sust_counter st = (st_consecutive st, st_lastCountedAt st)"

lemma sustained_at_quiet:
  assumes "snd (sustained_at input version owned c st) = None"
  shows "sust_counter (fst (sustained_at input version owned c st)) = streak_step (sust_counter st) (sustained_seen input owned c)"
    and "st_lastFiredAt (fst (sustained_at input version owned c st)) = st_lastFiredAt st"
  using assms
  by (auto simp: sustained_at_def sustained_command_def sustained_seen_def sust_counter_def sustained_fresh_def Let_def
      split: option.splits if_splits)

lemma sustained_at_fires:
  assumes "snd (sustained_at input version owned c st) = Some f"
  shows "st_consecutive (fst (sustained_at input version owned c st)) = 0"
    and "st_lastFiredAt (fst (sustained_at input version owned c st)) = di_nowMs input"
    and "SUSTAINED_COOLDOWN_MS \<le> di_nowMs input - st_lastFiredAt st"
    and "rf_kind f = sustained_degradation" and "map cr_command (rf_commands f) = [c]"
    and "\<exists>t. sustained_seen input owned c = Sample t True () \<and> st_lastCountedAt st < t \<and> CONSECUTIVE_REQUIRED \<le> Suc (st_consecutive st)"
  using assms
  by (auto simp: sustained_at_def sustained_command_def sustained_seen_def sustained_finding_def sustained_fresh_def Let_def
      split: option.splits if_splits)

lemma sustained_loop_state:
  assumes "distinct cs"
  shows "js_get_or new_sustained (fst (sustained_loop input version up (sustained_values input) (latestByCommand (di_samples input)) cs m)) c
     = (if c \<in> set cs then fst (sustained_at input version (owned_by_upgrade up c) c (js_get_or new_sustained m c)) else js_get_or new_sustained m c)"
  using assms
  by (induction cs arbitrary: m) (auto simp: Let_def js_get_or_def js_simps sustained_at_def latest_of_def)

lemma sustained_loop_findings:
  assumes "distinct cs"
  shows "f \<in> set (snd (sustained_loop input version up (sustained_values input) (latestByCommand (di_samples input)) cs m)) \<longleftrightarrow>
     (\<exists>c \<in> set cs. snd (sustained_at input version (owned_by_upgrade up c) c (js_get_or new_sustained m c)) = Some f)"
  using assms
proof (induction cs arbitrary: m)
  case (Cons a cs)
  have "js_get_or new_sustained (js_set a v m) c = js_get_or new_sustained m c" if "c \<in> set cs" for c v
    using that Cons.prems by (auto simp: js_get_or_def js_simps)
  with Cons show ?case by (auto simp: Let_def sustained_at_def latest_of_def split: option.splits)
qed simp

lemma distinct_eligible [simp]: "distinct (eligibleCommands m)"
  by (simp add: eligibleCommands_def)

section \<open>A poll of the whole detector\<close>

definition sust :: "string \<Rightarrow> RegressionDetector \<Rightarrow> SustainedState" where
  "sust c d = js_get_or new_sustained (rd_sustained d) c"

definition eligible_at :: "DetectorInput \<Rightarrow> string \<Rightarrow> bool" where
  "eligible_at input c \<longleftrightarrow> c \<in> set (eligibleCommands (di_callsPerMin input))"

definition sust_step :: "DetectorInput \<Rightarrow> RegressionDetector \<Rightarrow> string \<Rightarrow> SustainedState \<times> RegressionFinding option" where
  "sust_step input d c = sustained_at input (currentVersion (di_samples input))
     (owned_by_upgrade (rd_upgrade (ready input d)) c) c (sust c (ready input d))"

text \<open>
  \<open>evaluate\<close> under the invariant: the upgrade rule gives the new window, and every eligible
  command takes one sustained step, from its state once the version change has been tracked.
\<close>

lemma evaluate_cases:
  assumes "reg_inv d" and "di_samples input \<noteq> []"
  obtains d' findings up uf where "evaluate input d = Some (d', findings)"
    and "evaluateUpgrade input (latestByCommand (di_samples input)) (eligibleCommands (di_callsPerMin input)) (rd_upgrade (ready input d)) = Some (up, uf)"
    and "rd_upgrade d' = up" and "rd_lastVersion d' = rd_lastVersion (ready input d)"
    and "\<And>c. owned_by_upgrade up c = owned_by_upgrade (rd_upgrade (ready input d)) c"
    and "\<And>c. sust c d' = (if eligible_at input c then fst (sust_step input d c) else sust c (ready input d))"
    and "\<And>f. f \<in> set findings \<longleftrightarrow> uf = Some f \<or> (\<exists>c. eligible_at input c \<and> snd (sust_step input d c) = Some f)"
    and "reg_inv d'"
proof -
  let ?lb = "latestByCommand (di_samples input)" and ?el = "eligibleCommands (di_callsPerMin input)"
  let ?v = "currentVersion (di_samples input)"
  let ?r = "ready input d"
  have inv: "reg_inv ?r" using assms(1) by simp
  obtain up uf where up: "evaluateUpgrade input ?lb ?el (rd_upgrade ?r) = Some (up, uf)"
    and own: "\<And>c. owned_by_upgrade up c = owned_by_upgrade (rd_upgrade ?r) c"
    and inv': "case up of None \<Rightarrow> True | Some u \<Rightarrow> window_inv u"
  proof (cases "rd_upgrade ?r")
    case None
    with that [of None None] show thesis by simp
  next
    case (Some u)
    with inv have u: "window_inv u" by (simp add: reg_inv_def)
    show thesis
    proof (cases rule: evaluateUpgrade_total [OF u, of input ?lb ?el])
      case 1
      with Some u that [of "Some u" None] show thesis by simp
    next
      case (2 up1 fired finding)
      have "window_inv (up1\<lparr>uw_fired := fired\<rparr>)"
        using upgrade_fold_maps [of u input ?lb ?el "uw_baselines u"] u 2(3) by (auto simp: window_inv_def)
      with 2 Some that [of "Some (up1\<lparr>uw_fired := fired\<rparr>)" finding] show thesis by (simp add: owned_by_upgrade_def)
    qed
  qed
  let ?loop = "sustained_loop input ?v up (sustained_values input) ?lb ?el (rd_sustained ?r)"
  have ev: "evaluate input d = Some (?r\<lparr>rd_upgrade := up, rd_sustained := fst ?loop\<rparr>, (case uf of None \<Rightarrow> [] | Some f \<Rightarrow> [f]) @ snd ?loop)"
    using assms(2) up by (simp add: evaluate_def Let_def evaluateSustained_def sustained_values_def flip: ready_def)
  show thesis
  proof (rule that [OF ev up])
    show "sust c (?r\<lparr>rd_upgrade := up, rd_sustained := fst ?loop\<rparr>) = (if eligible_at input c then fst (sust_step input d c) else sust c ?r)" for c
      by (simp add: sust_step_def sust_def sustained_loop_state eligible_at_def own)
    show "f \<in> set ((case uf of None \<Rightarrow> [] | Some f \<Rightarrow> [f]) @ snd ?loop) \<longleftrightarrow> uf = Some f \<or> (\<exists>c. eligible_at input c \<and> snd (sust_step input d c) = Some f)" for f
      by (auto simp: sust_step_def sust_def sustained_loop_findings eligible_at_def own split: option.splits)
    show "reg_inv (?r\<lparr>rd_upgrade := up, rd_sustained := fst ?loop\<rparr>)" using inv' by (simp add: reg_inv_def)
  qed (simp_all add: own)
qed

lemma evaluated:
  assumes "reg_inv d" and "evaluate input d = Some (d', findings)" and "di_samples input \<noteq> []"
  shows "\<exists>uf. evaluateUpgrade input (latestByCommand (di_samples input)) (eligibleCommands (di_callsPerMin input)) (rd_upgrade (ready input d))
                = Some (rd_upgrade d', uf) \<and>
     (\<forall>f. f \<in> set findings \<longleftrightarrow> uf = Some f \<or> (\<exists>c. eligible_at input c \<and> snd (sust_step input d c) = Some f))"
    and "sust c d' = (if eligible_at input c then fst (sust_step input d c) else sust c (ready input d))"
    and "rd_lastVersion d' = rd_lastVersion (ready input d)" and "reg_inv d'"
  by (rule evaluate_cases [OF assms(1,3)]; use assms(2) in simp)+

lemma evaluate_empty: "di_samples input = [] \<Longrightarrow> evaluate input d = Some (d, [])"
  by (simp add: evaluate_def)

definition regression_poll :: "RegressionDetector \<Rightarrow> DetectorInput \<Rightarrow> RegressionDetector" where
  "regression_poll d input = (case evaluate input d of None \<Rightarrow> d | Some (d', _) \<Rightarrow> d')"

lemma reg_inv_poll [simp]: "reg_inv d \<Longrightarrow> reg_inv (regression_poll d input)"
  by (cases "di_samples input = []") (auto simp: regression_poll_def evaluate_empty elim!: evaluate_cases [of d input])

text \<open>The two counters of a command, as instances of the counting contract.\<close>

definition sustained_obs :: "string \<Rightarrow> RegressionDetector \<Rightarrow> DetectorInput \<Rightarrow> unit streak_obs" where
  "sustained_obs c d input =
     (if di_samples input = [] \<or> \<not> eligible_at input c then NoSample
      else sustained_seen input (owned_by_upgrade (rd_upgrade (ready input d)) c) c)"

lemma sust_ready: "sust c (ready input d) = sust c d \<or> sust c (ready input d) = new_sustained"
  by (cases rule: ready_cases [of input d]) (simp_all add: sust_def js_get_or_def)

lemma sustained_poll:
  assumes "reg_inv d"
  shows "st_consecutive (sust c (regression_poll d input)) = 0 \<or>
    sust_counter (sust c (regression_poll d input)) = streak_step (sust_counter (sust c (ready input d))) (sustained_obs c d input) \<or>
    sust_counter (sust c (regression_poll d input)) = streak_step (sust_counter (sust c d)) (sustained_obs c d input)"
proof (cases "di_samples input = []")
  case True
  then show ?thesis by (simp add: regression_poll_def evaluate_empty sustained_obs_def sust_counter_def)
next
  case False
  let ?at = "sust_step input d c"
  from evaluate_cases [OF assms False] obtain d' findings where ev: "evaluate input d = Some (d', findings)"
    and st: "sust c d' = (if eligible_at input c then fst ?at else sust c (ready input d))" by metis
  from ev have d': "regression_poll d input = d'" by (simp add: regression_poll_def)
  show ?thesis
  proof (cases "eligible_at input c")
    case True
    show ?thesis
    proof (cases "snd ?at")
      case None
      with sustained_at_quiet(1) [OF None [unfolded sust_step_def]] True False st d' show ?thesis by (simp add: sustained_obs_def sust_step_def)
    next
      case (Some f)
      with sustained_at_fires(1) [OF Some [unfolded sust_step_def]] True st d' show ?thesis by (simp add: sust_step_def)
    qed
  qed (simp add: st d' sustained_obs_def sust_counter_def)
qed

interpretation sustained: sample_streak regression_poll "sustained_obs c" "\<lambda>d. st_consecutive (sust c d)"
  "\<lambda>d. st_lastCountedAt (sust c d)" "\<lambda>_. ()" reg_inv for c :: string
proof unfold_locales
  fix s x assume "reg_inv s"
  from sustained_poll [OF this, of c x] sust_ready [of c x s]
  show "st_consecutive (sust c (regression_poll s x)) = 0
        \<or> (\<exists>l. (st_consecutive (sust c (regression_poll s x)), st_lastCountedAt (sust c (regression_poll s x))) = streak_step (0, l) (sustained_obs c s x))
        \<or> ((st_consecutive (sust c (regression_poll s x)), st_lastCountedAt (sust c (regression_poll s x)))
             = streak_step (st_consecutive (sust c s), st_lastCountedAt (sust c s)) (sustained_obs c s x) \<and> () = ())"
    by (elim disjE) (auto simp: sust_counter_def new_sustained_def)
qed auto

definition upgrade_ref :: "string \<Rightarrow> RegressionDetector \<Rightarrow> (string \<times> real option) option" where
  "upgrade_ref c d = map_option (\<lambda>up. (uw_toVersion up, js_get (uw_baselines up) c)) (rd_upgrade d)"

definition upgrade_obs :: "string \<Rightarrow> RegressionDetector \<Rightarrow> DetectorInput \<Rightarrow> (string \<times> real option) option streak_obs" where
  "upgrade_obs c d input =
     (if di_samples input = [] then NoSample
      else case rd_upgrade (ready input d) of
          None \<Rightarrow> Reset
        | Some up \<Rightarrow>
            if uw_fired up then NoSample
            else case js_get (uw_baselines up) c of
                None \<Rightarrow> NoSample
              | Some b \<Rightarrow> upgrade_seen input (latestByCommand (di_samples input)) (eligibleCommands (di_callsPerMin input)) c up b
                            (Some (uw_toVersion up, Some b)))"

definition window_counter :: "string \<Rightarrow> RegressionDetector \<Rightarrow> nat \<times> int" where
  "window_counter c d = (case rd_upgrade d of None \<Rightarrow> (0, - 1) | Some up \<Rightarrow> up_counter c up)"

lemma upgrade_poll:
  assumes "reg_inv d" and "di_samples input \<noteq> []"
  shows "fst (window_counter c (regression_poll d input)) = 0 \<or>
      window_counter c (regression_poll d input) = streak_step (window_counter c (ready input d)) (upgrade_obs c d input)"
    and "upgrade_ref c (regression_poll d input) = upgrade_ref c (ready input d)"
proof -
  let ?lb = "latestByCommand (di_samples input)" and ?el = "eligibleCommands (di_callsPerMin input)"
  from evaluate_cases [OF assms] obtain d' findings up uf where ev: "evaluate input d = Some (d', findings)"
    and up: "evaluateUpgrade input ?lb ?el (rd_upgrade (ready input d)) = Some (up, uf)" "rd_upgrade d' = up" by metis
  from ev have d': "regression_poll d input = d'" by (simp add: regression_poll_def)
  have "(fst (window_counter c d') = 0 \<or> window_counter c d' = streak_step (window_counter c (ready input d)) (upgrade_obs c d input))
     \<and> upgrade_ref c d' = upgrade_ref c (ready input d)"
  proof (cases "rd_upgrade (ready input d)")
    case None
    with up show ?thesis by (simp add: window_counter_def upgrade_ref_def)
  next
    case (Some u)
    with reg_inv_ready [OF assms(1), of input] have u: "window_inv u" by (simp add: reg_inv_def)
    show ?thesis
    proof (cases rule: evaluateUpgrade_total [OF u, of input ?lb ?el])
      case 1
      with Some up have "rd_upgrade d' = Some u" by simp
      with Some 1(1) assms(2) show ?thesis by (simp add: window_counter_def upgrade_ref_def upgrade_obs_def)
    next
      case (2 up1 fired finding)
      have d1: "rd_upgrade d' = Some (up1\<lparr>uw_fired := fired\<rparr>)" using up 2(2) unfolding Some by simp
      have w: "window_counter c d' = up_counter c up1" by (simp add: window_counter_def d1 up_counter_def)
      have ref: "upgrade_ref c d' = upgrade_ref c (ready input d)" using Some 2(3) by (simp add: upgrade_ref_def d1)
      show ?thesis
      proof (cases "js_get (uw_baselines u) c")
        case None
        then have "up_counter c up1 = up_counter c u" using 2(3) by (simp add: upgrade_fold_other map_of_eq_None_iff)
        with None Some 2(1) assms(2) w ref show ?thesis by (simp add: upgrade_obs_def window_counter_def)
      next
        case (Some b)
        have "up_counter c up1 = streak_step (up_counter c u) (upgrade_seen input ?lb ?el c u b (Some (uw_toVersion u, Some b)))"
          unfolding 2(3) using u Some by (intro upgrade_fold_counter) (simp_all add: window_inv_def)
        with Some \<open>rd_upgrade (ready input d) = Some u\<close> 2(1) assms(2) w ref show ?thesis
          by (simp add: upgrade_obs_def window_counter_def)
      qed
    qed
  qed
  with d' show "fst (window_counter c (regression_poll d input)) = 0 \<or>
      window_counter c (regression_poll d input) = streak_step (window_counter c (ready input d)) (upgrade_obs c d input)"
    and "upgrade_ref c (regression_poll d input) = upgrade_ref c (ready input d)" by simp_all
qed

lemma window_ready: "rd_upgrade (ready input d) = rd_upgrade d \<or> fst (window_counter c (ready input d)) = 0"
  by (cases rule: ready_cases [of input d]) (simp_all add: window_counter_def up_counter_def open_window_def js_get_or_def)

interpretation upgrade: sample_streak regression_poll "upgrade_obs c" "\<lambda>d. fst (window_counter c d)"
  "\<lambda>d. snd (window_counter c d)" "upgrade_ref c" reg_inv for c :: string
proof unfold_locales
  fix s x assume inv: "reg_inv s"
  show "fst (window_counter c (regression_poll s x)) = 0
        \<or> (\<exists>l. (fst (window_counter c (regression_poll s x)), snd (window_counter c (regression_poll s x))) = streak_step (0, l) (upgrade_obs c s x))
        \<or> ((fst (window_counter c (regression_poll s x)), snd (window_counter c (regression_poll s x)))
             = streak_step (fst (window_counter c s), snd (window_counter c s)) (upgrade_obs c s x)
           \<and> upgrade_ref c (regression_poll s x) = upgrade_ref c s)"
  proof (cases "di_samples x = []")
    case True
    then show ?thesis by (simp add: regression_poll_def evaluate_empty upgrade_obs_def)
  next
    case False
    from upgrade_poll [OF inv this, of c] window_ready [of x s c] show ?thesis
      by (cases "window_counter c (ready x s)"; cases "rd_upgrade (ready x s) = rd_upgrade s")
         (auto simp: window_counter_def upgrade_ref_def)
  qed
next
  fix s x t b assume inv: "reg_inv s" and obs: "upgrade_obs c s x = Sample t True b"
  then have "di_samples x \<noteq> []" by (auto simp: upgrade_obs_def)
  with upgrade_poll(2) [OF inv this, of c] obs show "b = upgrade_ref c (regression_poll s x)"
    by (auto simp: upgrade_obs_def upgrade_ref_def upgrade_seen_def split: option.splits if_splits)
qed simp

section \<open>Guarantees\<close>

text \<open>Any run of the detector: polls, and reverts of findings the service could not store.\<close>

datatype reg_op = Poll DetectorInput | Revert RegressionFinding

fun reg_run :: "reg_op list \<Rightarrow> RegressionDetector \<Rightarrow> RegressionDetector option" where
  "reg_run [] d = Some d"
| "reg_run (Poll input # ops) d = (case evaluate input d of None \<Rightarrow> None | Some (d', _) \<Rightarrow> reg_run ops d')"
| "reg_run (Revert f # ops) d = reg_run ops (revert f d)"

lemma reg_inv_revert: "reg_inv d \<Longrightarrow> reg_inv (revert f d)"
  by (auto simp: reg_inv_def revert_def window_inv_def split: option.splits RegressionKind.split)

lemma reg_run_total: "reg_inv d \<Longrightarrow> \<exists>d'. reg_run ops d = Some d' \<and> reg_inv d'"
proof (induction ops arbitrary: d)
  case (Cons op ops)
  show ?case
  proof (cases op)
    case (Poll input)
    show ?thesis
    proof (cases "di_samples input = []")
      case True
      with Cons Poll show ?thesis by (simp add: evaluate_empty)
    next
      case False
      with evaluate_cases [OF Cons.prems False] obtain d' fs where "evaluate input d = Some (d', fs)" "reg_inv d'" by metis
      with Cons.IH Poll show ?thesis by simp
    qed
  next
    case (Revert f)
    with Cons show ?thesis by (simp add: reg_inv_revert)
  qed
qed simp

text \<open>
  an evaluation of the latency detector never raises. Whatever polls it has seen since its
  creation, with whatever samples, rates and version strings, and whichever findings were
  reverted, every command whose streak is long enough has a latest sample and a baseline to
  report, so the non-null assertions of the source hold.
\<close>

theorem regression_evaluate_never_raises: "\<exists>d. reg_run ops new_regression_detector = Some d \<and> reg_inv d"
  by (rule reg_run_total) simp

definition upgrade_degraded_at :: "DetectorInput \<Rightarrow> string \<Rightarrow> string \<Rightarrow> real \<Rightarrow> int \<Rightarrow> bool" where
  "upgrade_degraded_at input toVersion c baseline t \<longleftrightarrow>
     eligible_at input c \<and>
     (\<exists>s. latest_of input c = Some s \<and> cp_capturedAt s = t \<and> di_nowMs input - STALE_SAMPLE_MS \<le> t \<and>
        parseMajorVersion toVersion \<le> parseMajorVersion (cp_serverVersion s) \<and>
        isDegraded (cp_p99Us s) baseline UPGRADE_DEGRADATION_FACTOR)"

definition sustained_degraded_at :: "DetectorInput \<Rightarrow> string \<Rightarrow> int \<Rightarrow> bool" where
  "sustained_degraded_at input c t \<longleftrightarrow>
     eligible_at input c \<and>
     (\<exists>s values. latest_of input c = Some s \<and> cp_capturedAt s = t \<and> di_nowMs input - STALE_SAMPLE_MS \<le> t \<and>
        js_get (sustained_values input) c = Some values \<and> SUSTAINED_MIN_BASELINE_SAMPLES \<le> length values \<and>
        isDegraded (cp_p99Us s) (median values) SUSTAINED_DEGRADATION_FACTOR)"

lemma upgrade_obs_degraded:
  "upgrade_obs c d input = Sample t True (Some (v, Some b)) \<Longrightarrow> upgrade_degraded_at input v c b t"
  by (auto simp: upgrade_obs_def upgrade_degraded_at_def upgrade_seen_def upgrade_fresh_def eligible_at_def latest_of_def
      split: option.splits if_splits)

lemma sustained_obs_degraded: "sustained_obs c d input = Sample t True () \<Longrightarrow> sustained_degraded_at input c t"
  by (auto simp: sustained_obs_def sustained_degraded_at_def sustained_seen_def split: option.splits if_splits)

lemma new_counters [simp]: "window_counter c new_regression_detector = (0, - 1)" "sust c new_regression_detector = new_sustained"
  by (simp_all add: window_counter_def new_regression_detector_def sust_def js_get_or_def)

text \<open>Concrete runs: thirty old samples of 1 ms, then one sample of 5 ms a minute; and an upgrade from 8 to 9.\<close>

definition demo_sample :: "real \<Rightarrow> string \<Rightarrow> int \<Rightarrow> CommandP99Point" where
  "demo_sample p99 version t = \<lparr>cp_command = ''get'', cp_p99Us = p99, cp_serverVersion = version, cp_capturedAt = t\<rparr>"

definition demo_input :: "int \<Rightarrow> DetectorInput" where
  "demo_input k =
     (let now = 2000000 + 60000 * k
      in \<lparr>di_nowMs = now, di_samples = map (demo_sample 1000 ''8.0.0'') [1..30] @ [demo_sample 5000 ''8.0.0'' (now - 1000)],
          di_callsPerMin = [(''get'', 100)], di_clusterRefreshDeltas = []\<rparr>)"

definition demo_upgrade :: "int \<Rightarrow> DetectorInput" where
  "demo_upgrade k =
     (let now = 2000000 + 60000 * k
      in \<lparr>di_nowMs = now, di_samples = map (demo_sample 1000 ''8.0.0'') [1..5] @ (if k = 0 then [] else [demo_sample 5000 ''9.0.0'' (now - 1000)]),
          di_callsPerMin = [(''get'', 100)], di_clusterRefreshDeltas = []\<rparr>)"

lemma reach_evaluate:
  "evaluate input (foldl regression_poll new_regression_detector inputs)
     = Some (regression_poll (foldl regression_poll new_regression_detector inputs) input,
             snd (the (evaluate input (foldl regression_poll new_regression_detector inputs))))"
proof -
  let ?d = "foldl regression_poll new_regression_detector inputs"
  have inv: "reg_inv ?d" by (rule sustained.run_ok) simp
  have "\<exists>d' fs. evaluate input ?d = Some (d', fs)"
  proof (cases "di_samples input = []")
    case False
    then show ?thesis using evaluate_cases [OF inv False] by metis
  qed (simp add: evaluate_empty)
  then show ?thesis by (auto simp: regression_poll_def)
qed

definition demo_finding :: RegressionFinding where
  "demo_finding = hd (snd (the (evaluate (demo_input 5) (foldl regression_poll new_regression_detector (map demo_input [1..4])))))"

definition demo_upgrade_finding :: RegressionFinding where
  "demo_upgrade_finding = hd (snd (the (evaluate (demo_upgrade 5) (foldl regression_poll new_regression_detector (map demo_upgrade [0..4])))))"

lemma demo_fires:
  "demo_finding \<in> set (snd (the (evaluate (demo_input 5) (foldl regression_poll new_regression_detector (map demo_input [1..4])))))"
  "rf_kind demo_finding = sustained_degradation" "map cr_command (rf_commands demo_finding) = [''get'']"
  unfolding demo_finding_def by (rule hd_in_set, code_simp) code_simp+

lemma demo_upgrade_fires:
  "demo_upgrade_finding \<in> set (snd (the (evaluate (demo_upgrade 5) (foldl regression_poll new_regression_detector (map demo_upgrade [0..4])))))"
  "rf_kind demo_upgrade_finding = upgrade_regression" "rf_commands demo_upgrade_finding \<noteq> []"
  unfolding demo_upgrade_finding_def by (rule hd_in_set, code_simp) code_simp+

text \<open>
  C26: an upgrade regression is reported only for commands that were degraded on at least five
  distinct physical samples, each fresh when it was read, on the target major or later, at least
  1.5 times and 1 ms above the very baseline the finding reports, whatever polls the detector saw.
\<close>

theorem upgrade_needs_five_samples:
  assumes "evaluate input (foldl regression_poll new_regression_detector inputs) = Some (d', findings)"
    and "f \<in> set findings" and "rf_kind f = upgrade_regression" and "r \<in> set (rf_commands f)"
  shows "\<exists>ts. CONSECUTIVE_REQUIRED \<le> length ts \<and> sorted_wrt (<) ts \<and>
    (\<forall>t \<in> set ts. \<exists>i \<in> set (inputs @ [input]). upgrade_degraded_at i (rf_currentVersion f) (cr_command r) (cr_baselineP99Us r) t)"
proof -
  let ?d = "foldl regression_poll new_regression_detector inputs" and ?c = "cr_command r"
  have inv: "reg_inv ?d" by (rule sustained.run_ok) simp
  have ne: "di_samples input \<noteq> []" using assms(1,2) by (auto simp: evaluate_def)
  from evaluated(1) [OF inv assms(1) ne] obtain uf where
    up: "evaluateUpgrade input (latestByCommand (di_samples input)) (eligibleCommands (di_callsPerMin input)) (rd_upgrade (ready input ?d)) = Some (rd_upgrade d', uf)"
    and fs: "f \<in> set findings \<longleftrightarrow> uf = Some f \<or> (\<exists>c. eligible_at input c \<and> snd (sust_step input ?d c) = Some f)" by blast
  have "snd (sust_step input ?d c) \<noteq> Some f" for c
    using sustained_at_fires(4) assms(3) unfolding sust_step_def by (metis RegressionKind.distinct(1))
  with fs assms(2) have uf: "uf = Some f" by blast
  then obtain u where u: "rd_upgrade (ready input ?d) = Some u" using up by (cases "rd_upgrade (ready input ?d)") auto
  with reg_inv_ready [OF inv, of input] have wu: "window_inv u" by (simp add: reg_inv_def)
  from upgrade_finding_counted [OF wu up [unfolded u uf] assms(4)] obtain up1 where up1: "rd_upgrade d' = Some up1"
    "uw_baselines up1 = uw_baselines u" "uw_toVersion up1 = uw_toVersion u" "rf_currentVersion f = uw_toVersion u"
    and f: "CONSECUTIVE_REQUIRED \<le> fst (up_counter ?c up1)" "js_get (uw_baselines u) ?c = Some (cr_baselineP99Us r)" by metis
  have run: "foldl regression_poll new_regression_detector (inputs @ [input]) = d'" using assms(1) by (simp add: regression_poll_def)
  have n: "CONSECUTIVE_REQUIRED \<le> fst (window_counter ?c d')" using f(1) by (simp add: window_counter_def up1)
  have ref: "upgrade_ref ?c d' = Some (rf_currentVersion f, Some (cr_baselineP99Us r))" by (simp add: upgrade_ref_def up1 f)
  from upgrade.counter_means [of new_regression_detector ?c "inputs @ [input]"] obtain ts where
    "degraded_samples (run_obs regression_poll (upgrade_obs ?c) new_regression_detector (inputs @ [input])) (upgrade_ref ?c d')
       (fst (window_counter ?c d')) (snd (window_counter ?c d')) ts" unfolding run by auto
  then have ts: "CONSECUTIVE_REQUIRED \<le> length ts" "sorted_wrt (<) ts"
    and all: "\<forall>t \<in> set ts. Sample t True (Some (rf_currentVersion f, Some (cr_baselineP99Us r)))
        \<in> set (run_obs regression_poll (upgrade_obs ?c) new_regression_detector (inputs @ [input]))"
    using n ref by (simp_all add: degraded_samples_def)
  have "\<exists>i \<in> set (inputs @ [input]). upgrade_degraded_at i (rf_currentVersion f) ?c (cr_baselineP99Us r) t" if "t \<in> set ts" for t
    using run_obs_mem [OF all [rule_format, OF that]] upgrade_obs_degraded by metis
  with ts show ?thesis by blast
qed

theorem upgrade_needs_five_samples_witness:
  "\<exists>ts. CONSECUTIVE_REQUIRED \<le> length ts \<and> sorted_wrt (<) ts \<and>
    (\<forall>t \<in> set ts. \<exists>i \<in> set (map demo_upgrade [0..4] @ [demo_upgrade 5]).
       upgrade_degraded_at i (rf_currentVersion demo_upgrade_finding) (cr_command (hd (rf_commands demo_upgrade_finding)))
         (cr_baselineP99Us (hd (rf_commands demo_upgrade_finding))) t)"
  by (rule upgrade_needs_five_samples [OF reach_evaluate demo_upgrade_fires(1,2) hd_in_set [OF demo_upgrade_fires(3)]])

lemma upgrade_finding_kind: "evaluateUpgrade input latestBy eligible upgrade = Some (up, Some f) \<Longrightarrow> rf_kind f = upgrade_regression"
  by (auto simp: evaluateUpgrade_def Let_def split: option.splits if_splits)

lemma sustained_finding_step:
  assumes "reg_inv d" and "evaluate input d = Some (d', findings)" and "f \<in> set findings" and "rf_kind f = sustained_degradation"
  obtains c where "di_samples input \<noteq> []" and "eligible_at input c" and "snd (sust_step input d c) = Some f"
    and "map cr_command (rf_commands f) = [c]"
proof -
  have ne: "di_samples input \<noteq> []" using assms(2,3) by (auto simp: evaluate_def)
  from evaluated(1) [OF assms(1,2) ne] assms(3,4) obtain c where *: "eligible_at input c" "snd (sust_step input d c) = Some f"
    using upgrade_finding_kind by (metis RegressionKind.distinct(1))
  with that [OF ne *] sustained_at_fires(5) [OF *(2) [unfolded sust_step_def]] show thesis by simp
qed

text \<open>
  C27: a sustained degradation is reported only for a command that was degraded on at least five
  distinct physical samples, each fresh when it was read and at least twice and 1 ms above the
  median of at least thirty older samples: polls that read the same sample again never count.
\<close>

theorem sustained_needs_five_samples:
  assumes "evaluate input (foldl regression_poll new_regression_detector inputs) = Some (d', findings)"
    and "f \<in> set findings" and "rf_kind f = sustained_degradation"
  shows "\<exists>c ts. map cr_command (rf_commands f) = [c] \<and> CONSECUTIVE_REQUIRED \<le> length ts \<and> sorted_wrt (<) ts \<and>
    (\<forall>t \<in> set ts. \<exists>i \<in> set (inputs @ [input]). sustained_degraded_at i c t)"
proof -
  let ?d = "foldl regression_poll new_regression_detector inputs"
  have inv: "reg_inv ?d" by (rule sustained.run_ok) simp
  from sustained_finding_step [OF inv assms] obtain c where ne: "di_samples input \<noteq> []" and c: "eligible_at input c"
    "snd (sust_step input ?d c) = Some f" "map cr_command (rf_commands f) = [c]" by metis
  from sustained_at_fires(6) [OF c(2) [unfolded sust_step_def]] obtain t where
    t: "sustained_obs c ?d input = Sample t True ()" "st_lastCountedAt (sust c (ready input ?d)) < t"
      "CONSECUTIVE_REQUIRED \<le> Suc (st_consecutive (sust c (ready input ?d)))"
    using ne c(1) by (auto simp: sustained_obs_def)
  have same: "sust c (ready input ?d) = sust c ?d"
    using sust_ready [of c input ?d] t(3) by (auto simp: new_sustained_def CONSECUTIVE_REQUIRED_def)
  from sustained.counter_means [of new_regression_detector c inputs] obtain ts where
    "degraded_samples (run_obs regression_poll (sustained_obs c) new_regression_detector inputs) ()
       (st_consecutive (sust c ?d)) (st_lastCountedAt (sust c ?d)) ts" by (auto simp: new_sustained_def)
  from degraded_samples_snoc [OF this t(2) [unfolded same]] t(1,3) have
    ts: "CONSECUTIVE_REQUIRED \<le> length (ts @ [t])" "sorted_wrt (<) (ts @ [t])" and
    all: "\<forall>u \<in> set (ts @ [t]). Sample u True () \<in> set (run_obs regression_poll (sustained_obs c) new_regression_detector (inputs @ [input]))"
    by (simp_all add: degraded_samples_def run_obs_snoc same)
  have "\<exists>i \<in> set (inputs @ [input]). sustained_degraded_at i c u" if "u \<in> set (ts @ [t])" for u
    using run_obs_mem [OF all [rule_format, OF that]] sustained_obs_degraded by metis
  with ts c(3) show ?thesis by (intro exI [of _ c] exI [of _ "ts @ [t]"] conjI ballI)
qed

theorem sustained_needs_five_samples_witness:
  "\<exists>c ts. map cr_command (rf_commands demo_finding) = [c] \<and> CONSECUTIVE_REQUIRED \<le> length ts \<and> sorted_wrt (<) ts \<and>
    (\<forall>t \<in> set ts. \<exists>i \<in> set (map demo_input [1..4] @ [demo_input 5]). sustained_degraded_at i c t)"
  by (rule sustained_needs_five_samples [OF reach_evaluate demo_fires(1,2)])

lemma ready_same_version:
  assumes "v = '''' \<or> rd_lastVersion d = Some v" and "currentVersion (di_samples input) = v"
  shows "rd_sustained (ready input d) = rd_sustained d" and "rd_lastVersion (ready input d) = rd_lastVersion d"
    and "rd_upgrade (ready input d) = rd_upgrade d \<or> rd_upgrade (ready input d) = None"
  using assms by (auto simp: ready_def expire_window_def trackVersion_def Let_def split: option.splits if_splits)

lemma ready_version: "currentVersion (di_samples input) = '''' \<or> rd_lastVersion (ready input d) = Some (currentVersion (di_samples input))"
  by (auto simp: ready_def expire_window_def trackVersion_def Let_def split: option.splits if_splits)

lemma quiet_or_fired:
  assumes "sust_step input d c = (st, r)"
  shows "st_lastFiredAt st = (if r = None then st_lastFiredAt (sust c (ready input d)) else di_nowMs input)"
  using sustained_at_quiet(2) sustained_at_fires(2) assms unfolding sust_step_def
  by (cases r) (metis fst_conv snd_conv, metis fst_conv option.distinct(1) snd_conv)

lemma fired_at_stays:
  assumes "reg_inv d" and "v = '''' \<or> rd_lastVersion d = Some v" and "t \<le> st_lastFiredAt (sust c d)"
    and "\<forall>i \<in> set inputs. t \<le> di_nowMs i \<and> (di_samples i = [] \<or> currentVersion (di_samples i) = v)"
  shows "t \<le> st_lastFiredAt (sust c (foldl regression_poll d inputs)) \<and> (v = '''' \<or> rd_lastVersion (foldl regression_poll d inputs) = Some v)"
  using assms
proof (induction inputs arbitrary: d)
  case (Cons i inputs)
  show ?case
  proof (cases "di_samples i = []")
    case True
    with Cons show ?thesis by (simp add: regression_poll_def evaluate_empty)
  next
    case False
    then have v: "currentVersion (di_samples i) = v" using Cons.prems(4) by simp
    obtain d' fs where ev: "evaluate i d = Some (d', fs)" using evaluate_cases [OF Cons.prems(1) False] by metis
    obtain st r where step: "sust_step i d c = (st, r)" by (cases "sust_step i d c")
    note ready = ready_same_version [OF Cons.prems(2) v]
    have "t \<le> st_lastFiredAt (sust c d')"
      using evaluated(2) [OF Cons.prems(1) ev False, of c] quiet_or_fired [OF step] step ready(1) Cons.prems(3,4)
      by (auto simp: sust_def)
    moreover have "v = '''' \<or> rd_lastVersion d' = Some v"
      using evaluated(3) [OF Cons.prems(1) ev False] ready(2) Cons.prems(2) by simp
    ultimately show ?thesis
      using Cons.IH [OF evaluated(4) [OF Cons.prems(1) ev False]] Cons.prems(4) ev by (simp add: regression_poll_def)
  qed
qed simp

text \<open>
  while the server reports one version, two sustained findings for the same command are at
  least thirty minutes apart, whatever the polls before and between them were.
\<close>

theorem sustained_cooldown_respected:
  assumes "evaluate i1 (foldl regression_poll new_regression_detector history) = Some (d1, fs1)"
    and "evaluate i2 (foldl regression_poll d1 between) = Some (d2, fs2)"
    and "f1 \<in> set fs1" and "f2 \<in> set fs2" and "rf_kind f1 = sustained_degradation" and "rf_kind f2 = sustained_degradation"
    and "map cr_command (rf_commands f1) = map cr_command (rf_commands f2)"
    and "sorted (map di_nowMs (i1 # between @ [i2]))"
    and "\<forall>i \<in> set (between @ [i2]). di_samples i = [] \<or> currentVersion (di_samples i) = currentVersion (di_samples i1)"
  shows "SUSTAINED_COOLDOWN_MS \<le> di_nowMs i2 - di_nowMs i1"
proof -
  let ?d0 = "foldl regression_poll new_regression_detector history" and ?v = "currentVersion (di_samples i1)"
  have inv0: "reg_inv ?d0" by (rule sustained.run_ok) simp
  from sustained_finding_step [OF inv0 assms(1,3,5)] obtain c where ne1: "di_samples i1 \<noteq> []" and c: "eligible_at i1 c"
    "snd (sust_step i1 ?d0 c) = Some f1" "map cr_command (rf_commands f1) = [c]" by metis
  note d1 = evaluated [OF inv0 assms(1) ne1]
  have t1: "st_lastFiredAt (sust c d1) = di_nowMs i1"
    using d1(2) [of c] c(1) sustained_at_fires(2) [OF c(2) [unfolded sust_step_def]] by (simp add: sust_step_def)
  have v1: "?v = '''' \<or> rd_lastVersion d1 = Some ?v" using d1(3) ready_version [of i1 ?d0] by simp
  let ?d = "foldl regression_poll d1 between"
  have inv: "reg_inv ?d" by (rule sustained.run_ok [OF d1(4)])
  from sustained_finding_step [OF inv assms(2,4,6)] assms(7) c(3) have ne2: "di_samples i2 \<noteq> []"
    and c2: "snd (sust_step i2 ?d c) = Some f2" by (metis list.inject)+
  have st: "di_nowMs i1 \<le> st_lastFiredAt (sust c ?d) \<and> (?v = '''' \<or> rd_lastVersion ?d = Some ?v)"
    using t1 assms(8,9) by (intro fired_at_stays [OF d1(4) v1]) simp_all
  have "sust c (ready i2 ?d) = sust c ?d"
    using ready_same_version(1) [of ?v ?d i2] st assms(9) ne2 by (simp add: sust_def)
  with sustained_at_fires(3) [OF c2 [unfolded sust_step_def]] st show ?thesis by simp
qed

text \<open>The run goes on for half an hour and fires again.\<close>

definition demo_later :: "DetectorInput list" where
  "demo_later = map demo_input ([1..5] @ [6..9])"

lemma demo_later_run:
  "foldl regression_poll (regression_poll (foldl regression_poll new_regression_detector (map demo_input [1..4])) (demo_input 5)) (map demo_input [6..9])
     = foldl regression_poll new_regression_detector demo_later"
proof -
  have later: "demo_later = map demo_input [1..4] @ demo_input 5 # map demo_input [6..9]" unfolding demo_later_def by code_simp
  show ?thesis unfolding later by (simp only: foldl_append foldl_Cons)
qed

definition demo_second :: RegressionFinding where
  "demo_second = hd (snd (the (evaluate (demo_input 35) (foldl regression_poll new_regression_detector demo_later))))"

lemma demo_fires_again:
  "demo_second \<in> set (snd (the (evaluate (demo_input 35) (foldl regression_poll new_regression_detector demo_later))))"
  "rf_kind demo_second = sustained_degradation" "map cr_command (rf_commands demo_second) = [''get'']"
  unfolding demo_second_def by (rule hd_in_set, code_simp) code_simp+

theorem sustained_cooldown_respected_witness:
  "SUSTAINED_COOLDOWN_MS \<le> di_nowMs (demo_input 35) - di_nowMs (demo_input 5)"
proof (rule sustained_cooldown_respected [OF reach_evaluate _ demo_fires(1) demo_fires_again(1) demo_fires(2) demo_fires_again(2)])
  show "evaluate (demo_input 35) (foldl regression_poll (regression_poll (foldl regression_poll new_regression_detector (map demo_input [1..4])) (demo_input 5)) (map demo_input [6..9]))
    = Some (regression_poll (foldl regression_poll new_regression_detector demo_later) (demo_input 35),
            snd (the (evaluate (demo_input 35) (foldl regression_poll new_regression_detector demo_later))))"
    unfolding demo_later_run by (rule reach_evaluate)
  show "sorted (map di_nowMs (demo_input 5 # map demo_input [6..9] @ [demo_input 35]))" by code_simp
  show "\<forall>i \<in> set (map demo_input [6..9] @ [demo_input 35]). di_samples i = [] \<or> currentVersion (di_samples i) = currentVersion (di_samples (demo_input 5))"
    by code_simp
qed (simp add: demo_fires demo_fires_again)

lemma handle_findings_down:
  assumes "\<forall>e cid st. saveAnomalyEvent port e cid st = None"
  shows "handle_findings port uuid connectionId n fs (d, st) = ((foldl (\<lambda>d f. revert f d) d fs, st), [])"
  using assms by (induction fs arbitrary: n d) (simp_all add: Let_def handleFinding_def)

lemma revert_frame:
  "rd_lastVersion (revert f d) = rd_lastVersion d" "owned_by_upgrade (rd_upgrade (revert f d)) c = owned_by_upgrade (rd_upgrade d) c"
  by (simp_all add: revert_def owned_by_upgrade_def split: option.split RegressionKind.split)

definition rearmed :: SustainedState where
  "rearmed = \<lparr>st_consecutive = CONSECUTIVE_REQUIRED, st_lastFiredAt = 0, st_lastCountedAt = - 1\<rparr>"

lemma revert_commands:
  "js_get (foldl revert_command m cs) c =
     (if js_has m c \<and> c \<in> cr_command ` set cs then Some rearmed else js_get m c)"
  by (induction cs arbitrary: m)
    (auto simp: revert_command_def js_has_def js_simps rearmed_def split: option.splits)

lemma revert_sustained:
  assumes "js_has (rd_sustained d) c"
  shows "js_has (rd_sustained (revert f d)) c"
    and "sust c (revert f d) = (if rf_kind f = sustained_degradation \<and> c \<in> cr_command ` set (rf_commands f) then rearmed else sust c d)"
  using assms
  by (auto simp: revert_def sust_def js_get_or_def js_has_def revert_commands split: option.splits RegressionKind.split)

lemma reverts_rearm:
  assumes "js_has (rd_sustained d) c" and "f \<in> set fs \<or> sust c d = rearmed" and "rf_kind f = sustained_degradation" and "c \<in> cr_command ` set (rf_commands f)"
  shows "sust c (foldl (\<lambda>d f. revert f d) d fs) = rearmed \<and> rd_lastVersion (foldl (\<lambda>d f. revert f d) d fs) = rd_lastVersion d \<and>
    owned_by_upgrade (rd_upgrade (foldl (\<lambda>d f. revert f d) d fs)) c = owned_by_upgrade (rd_upgrade d) c"
  using assms
proof (induction fs arbitrary: d)
  case (Cons g fs)
  have "f \<in> set fs \<or> sust c (revert g d) = rearmed" using Cons.prems by (auto simp: revert_sustained(2))
  from Cons.IH [OF revert_sustained(1) [OF Cons.prems(1)] this Cons.prems(3,4)] show ?case by (simp add: revert_frame)
qed simp

lemma reg_inv_reverts: "reg_inv d \<Longrightarrow> reg_inv (foldl (\<lambda>d f. revert f d) d fs)"
  by (induction fs arbitrary: d) (simp_all add: reg_inv_revert)

lemma sustained_loop_has:
  "c \<in> set cs \<or> js_has m c \<Longrightarrow> js_has (fst (sustained_loop input version up byCommand latestBy cs m)) c"
  by (induction cs arbitrary: m) (auto simp: Let_def js_has_def js_simps)

lemma evaluate_has:
  "evaluate input d = Some (d', fs) \<Longrightarrow> di_samples input \<noteq> [] \<Longrightarrow> eligible_at input c \<Longrightarrow> js_has (rd_sustained d') c"
  by (auto simp: evaluate_def Let_def evaluateSustained_def eligible_at_def sustained_loop_has split: option.splits)

lemma sustained_at_rearmed:
  assumes "sustained_degraded_at input c t" and "0 \<le> t" and "SUSTAINED_COOLDOWN_MS \<le> di_nowMs input"
  shows "\<exists>f. snd (sustained_at input version False c rearmed) = Some f"
  using assms
  by (auto simp: sustained_degraded_at_def sustained_at_def sustained_command_def sustained_fresh_def rearmed_def Let_def)

text \<open>
  C28: a sustained regression whose event could not be stored is not lost. When storage refuses
  the events of one poll, a later poll of the same server version that still finds the command
  degraded reports it again, on the very same sample if no newer one has arrived.
\<close>

theorem unsaved_regression_reported_again:
  assumes "\<forall>e cid st. saveAnomalyEvent port e cid st = None"
    and "evaluate i1 (foldl regression_poll new_regression_detector history) = Some (d1, fs1)"
    and "f \<in> set fs1" and "rf_kind f = sustained_degradation" and "c \<in> cr_command ` set (rf_commands f)"
    and "sustained_degraded_at i2 c t" and "0 \<le> t" and "SUSTAINED_COOLDOWN_MS \<le> di_nowMs i2"
    and "currentVersion (di_samples i2) = currentVersion (di_samples i1)" and "\<not> owned_by_upgrade (rd_upgrade d1) c"
  shows "\<exists>d2 fs2. evaluate i2 (fst (fst (handle_findings port uuid connectionId n fs1 (d1, st)))) = Some (d2, fs2) \<and>
    (\<exists>f2 \<in> set fs2. rf_kind f2 = sustained_degradation \<and> map cr_command (rf_commands f2) = [c])"
proof -
  let ?d0 = "foldl regression_poll new_regression_detector history" and ?v = "currentVersion (di_samples i1)"
  let ?r = "foldl (\<lambda>d f. revert f d) d1 fs1"
  have inv0: "reg_inv ?d0" by (rule sustained.run_ok) simp
  from sustained_finding_step [OF inv0 assms(2,3,4)] obtain c1 where ne1: "di_samples i1 \<noteq> []" and c1: "eligible_at i1 c1"
    "map cr_command (rf_commands f) = [c1]" by metis
  have "cr_command ` set (rf_commands f) = {c1}" by (metis c1(2) list.set_map list.simps(15) empty_set)
  with assms(5) c1(1) have el1: "eligible_at i1 c" by simp
  note d1 = evaluated [OF inv0 assms(2) ne1]
  have inv: "reg_inv ?r" by (rule reg_inv_reverts [OF d1(4)])
  have r: "sust c ?r = rearmed" "rd_lastVersion ?r = rd_lastVersion d1" "\<not> owned_by_upgrade (rd_upgrade ?r) c"
    using reverts_rearm [OF evaluate_has [OF assms(2) ne1 el1] _ assms(4,5)] assms(3,10) by simp_all
  have "?v = '''' \<or> rd_lastVersion ?r = Some ?v" using d1(3) r(2) ready_version [of i1 ?d0] by simp
  note same = ready_same_version [OF this assms(9)]
  have el2: "eligible_at i2 c" and ne2: "di_samples i2 \<noteq> []"
    using assms(6) by (auto simp: sustained_degraded_at_def latest_of_def latestByCommand_def)
  have own: "owned_by_upgrade (rd_upgrade (ready i2 ?r)) c = False" using same(3) r(3) by (auto simp: owned_by_upgrade_def)
  have "sust c (ready i2 ?r) = rearmed" using same(1) r(1) by (simp add: sust_def)
  then obtain f2 where f2: "snd (sust_step i2 ?r c) = Some f2"
    using sustained_at_rearmed [OF assms(6,7,8)] unfolding sust_step_def own by metis
  from evaluate_cases [OF inv ne2] obtain d2 fs2 where ev: "evaluate i2 ?r = Some (d2, fs2)" by metis
  from evaluated(1) [OF inv ev ne2] f2 el2 have "f2 \<in> set fs2" by auto
  then have "\<exists>f2 \<in> set fs2. rf_kind f2 = sustained_degradation \<and> map cr_command (rf_commands f2) = [c]"
    by (rule bexI [rotated]) (intro conjI sustained_at_fires(4,5) [OF f2 [unfolded sust_step_def]])
  moreover have "fst (fst (handle_findings port uuid connectionId n fs1 (d1, st))) = ?r" by (simp add: handle_findings_down [OF assms(1)])
  ultimately show ?thesis using ev by metis
qed

lemma eligible_set:
  "set (eligibleCommands m) = fst ` set (take TOP_K_COMMANDS (sort_key (\<lambda>x. - snd x) (filter (\<lambda>x. snd x \<ge> MIN_CALLS_PER_MIN) m)))"
  by (simp add: eligibleCommands_def)

text \<open>
  the commands looked at are the busiest: at most twenty, each with at least sixty calls a
  minute, and a command with that volume is left out only when twenty commands at least as busy
  are in.
\<close>

theorem eligible_top_k:
  assumes "wf_map callsPerMin"
  shows "length (eligibleCommands callsPerMin) \<le> TOP_K_COMMANDS \<and>
    (\<forall>c \<in> set (eligibleCommands callsPerMin). \<exists>r. js_get callsPerMin c = Some r \<and> MIN_CALLS_PER_MIN \<le> r) \<and>
    (\<forall>c r. js_get callsPerMin c = Some r \<and> MIN_CALLS_PER_MIN \<le> r \<and> c \<notin> set (eligibleCommands callsPerMin) \<longrightarrow>
       length (eligibleCommands callsPerMin) = TOP_K_COMMANDS \<and>
       (\<forall>c' \<in> set (eligibleCommands callsPerMin). \<forall>r'. js_get callsPerMin c' = Some r' \<longrightarrow> r \<le> r'))"
proof -
  define ranked where "ranked = sort_key (\<lambda>x. - snd x) (filter (\<lambda>x. snd x \<ge> MIN_CALLS_PER_MIN) callsPerMin)"
  have set_ranked: "set ranked = {x \<in> set callsPerMin. MIN_CALLS_PER_MIN \<le> snd x}" by (auto simp: ranked_def)
  have "distinct (map fst (filter (\<lambda>x. snd x \<ge> MIN_CALLS_PER_MIN) callsPerMin))" using assms by (simp add: wf_map_def distinct_map_filter)
  then have dist: "distinct (map fst ranked)" unfolding ranked_def by (simp add: distinct_map)
  have sorted: "sorted (map (\<lambda>x. - snd x) ranked)" by (simp add: ranked_def)
  have el: "eligibleCommands callsPerMin = map fst (take TOP_K_COMMANDS ranked)"
    unfolding eligibleCommands_def ranked_def [symmetric] using dist by (intro js_uniq_distinct) (metis distinct_take take_map)
  have get: "js_get callsPerMin c = Some r \<longleftrightarrow> (c, r) \<in> set callsPerMin" for c r using js_get_in_set [OF assms] by blast
  have split: "ranked = take TOP_K_COMMANDS ranked @ drop TOP_K_COMMANDS ranked" by simp
  have left: "length ranked > TOP_K_COMMANDS \<and> (\<forall>x \<in> set (take TOP_K_COMMANDS ranked). r \<le> snd x)"
    if "(c, r) \<in> set callsPerMin" "MIN_CALLS_PER_MIN \<le> r" "c \<notin> fst ` set (take TOP_K_COMMANDS ranked)" for c r
  proof -
    from that have "(c, r) \<in> set ranked" "(c, r) \<notin> set (take TOP_K_COMMANDS ranked)" by (auto simp: set_ranked intro: rev_image_eqI)
    then have dr: "(c, r) \<in> set (drop TOP_K_COMMANDS ranked)" by (metis UnE split set_append)
    then have "length ranked > TOP_K_COMMANDS" by (metis drop_all empty_iff list.set(1) not_le)
    moreover have "r \<le> snd x" if "x \<in> set (take TOP_K_COMMANDS ranked)" for x
    proof -
      have "sorted (map (\<lambda>x. - snd x) (take TOP_K_COMMANDS ranked) @ map (\<lambda>x. - snd x) (drop TOP_K_COMMANDS ranked))"
        using sorted by (metis map_append split)
      then have "- snd x \<le> - snd (c, r)" using that dr by (simp only: sorted_append set_map) blast
      then show ?thesis by simp
    qed
    ultimately show ?thesis by blast
  qed
  show ?thesis
  proof (intro conjI ballI allI impI)
    show "length (eligibleCommands callsPerMin) \<le> TOP_K_COMMANDS" by (simp add: el)
    fix c assume "c \<in> set (eligibleCommands callsPerMin)"
    then obtain x where "x \<in> set ranked" "c = fst x" by (auto simp: el dest: in_set_takeD)
    with get show "\<exists>r. js_get callsPerMin c = Some r \<and> MIN_CALLS_PER_MIN \<le> r" by (cases x) (auto simp: set_ranked)
  next
    fix c r assume *: "js_get callsPerMin c = Some r \<and> MIN_CALLS_PER_MIN \<le> r \<and> c \<notin> set (eligibleCommands callsPerMin)"
    with left [of c r] get have l: "length ranked > TOP_K_COMMANDS" "\<forall>x \<in> set (take TOP_K_COMMANDS ranked). r \<le> snd x" by (auto simp: el)
    show "length (eligibleCommands callsPerMin) = TOP_K_COMMANDS" using l by (simp add: el)
    fix c' r' assume "c' \<in> set (eligibleCommands callsPerMin)" "js_get callsPerMin c' = Some r'"
    then obtain x where x: "x \<in> set (take TOP_K_COMMANDS ranked)" "c' = fst x" by (auto simp: el)
    then have "x \<in> set callsPerMin" using set_ranked by (auto dest: in_set_takeD)
    with x get \<open>js_get callsPerMin c' = Some r'\<close> have "r' = snd x" by (metis prod.collapse option.inject)
    with l x show "r \<le> r'" by simp
  qed
qed

definition refusing_port :: "unit StoragePort" where
  "refusing_port = \<lparr>saveAnomalyEvent = \<lambda>_ _ _. None, getAnomalyEvents = \<lambda>_ _. None, resolveAnomalyRow = \<lambda>_ _ _. None\<rparr>"

lemma demo_degraded: "sustained_degraded_at (demo_input 5) ''get'' 2299000"
proof -
  have "eligible_at (demo_input 5) ''get''" by code_simp
  moreover have "latest_of (demo_input 5) ''get'' = Some (demo_sample 5000 ''8.0.0'' 2299000)" by code_simp
  moreover have "js_get (sustained_values (demo_input 5)) ''get'' = Some (replicate 30 1000)" by code_simp
  moreover have "cp_capturedAt (demo_sample 5000 ''8.0.0'' 2299000) = 2299000" "di_nowMs (demo_input 5) - STALE_SAMPLE_MS \<le> 2299000"
    "SUSTAINED_MIN_BASELINE_SAMPLES \<le> length (replicate 30 (1000 :: real))"
    "isDegraded (cp_p99Us (demo_sample 5000 ''8.0.0'' 2299000)) (median (replicate 30 1000)) SUSTAINED_DEGRADATION_FACTOR"
    by code_simp+
  ultimately show ?thesis unfolding sustained_degraded_at_def by blast
qed

theorem unsaved_regression_reported_again_witness:
  "\<exists>d2 fs2. evaluate (demo_input 5) (fst (fst (handle_findings refusing_port (\<lambda>_. ''id'') ''c1'' 0
        (snd (the (evaluate (demo_input 5) (foldl regression_poll new_regression_detector (map demo_input [1..4])))))
        (regression_poll (foldl regression_poll new_regression_detector (map demo_input [1..4])) (demo_input 5), ())))) = Some (d2, fs2) \<and>
    (\<exists>f2 \<in> set fs2. rf_kind f2 = sustained_degradation \<and> map cr_command (rf_commands f2) = [''get''])"
proof (rule unsaved_regression_reported_again [OF _ reach_evaluate demo_fires(1,2) _ demo_degraded])
  show "''get'' \<in> cr_command ` set (rf_commands demo_finding)" by (metis demo_fires(3) list.set_intros(1) list.set_map)
  show "SUSTAINED_COOLDOWN_MS \<le> di_nowMs (demo_input 5)" by code_simp
  show "\<not> owned_by_upgrade (rd_upgrade (regression_poll (foldl regression_poll new_regression_detector (map demo_input [1..4])) (demo_input 5))) ''get''"
    by code_simp
qed (simp_all add: refusing_port_def)

theorem eligible_top_k_witness:
  "length (eligibleCommands [(''get'', 100), (''set'', 10)]) \<le> TOP_K_COMMANDS \<and> eligibleCommands [(''get'', 100), (''set'', 10)] = [''get'']"
proof
  have "wf_map [(''get'', 100 :: real), (''set'', 10)]" by (simp add: wf_map_def)
  from eligible_top_k [OF this] show "length (eligibleCommands [(''get'', 100), (''set'', 10)]) \<le> TOP_K_COMMANDS" by (rule conjunct1)
  show "eligibleCommands [(''get'', 100), (''set'', 10)] = [''get'']" by code_simp
qed

end
