(* ===== verification/Spec2Isabelle.thy ===== *)
theory Spec2Isabelle
  imports Memory_Machine Proposal_Calls Raft_Health Bulk_Jobs Webhook_Service Capture_Machine
    Load_Saturation Memory_Overhead Fork_Memory Metric_Pipeline Client_Lockout Stuck_Replica
    Duplicate_Primary Topology_Handlers Latency_Streak
begin

text \<open>
  A verification development for BetterDB Monitor: the anomaly detection of the monitor, from the
  samples a poll reads to the events an operator sees and resolves, the latency regression
  guard that shares its storage, the webhooks that report what happened to the outside, the
  bulk deletion of keys that an operator starts, the captures of MONITOR output, and the proposals
  to change a cache or to forget memories that an agent makes and an operator decides.

  \<^bold>\<open>The program.\<close> The service of src/proprietary/anomaly-detection/anomaly.service.ts polls every
  connection. A poll reads INFO and, on a cluster, CLUSTER NODES and CLUSTER SHARDS, and feeds
  what it read to three kinds of detectors: windows of samples with a z-score detector per
  metric; hysteresis detectors, which keep a level or a streak and report a change once; and
  snapshot detectors of the topology, pure functions of one view whose findings pass a gate that
  waits for persistence and reports a finding once. Every reported event goes through addAnomaly
  into a bounded cache and into storage; a timer correlates the cached events into groups; the
  feed queries merge cache and storage; an operator, or the gate when a finding disappears,
  resolves an event in both. src/proprietary/latency-regression is a second service with its own
  poll, which writes into the same storage. The webhook services of src/apps/api/src/webhooks
  keep subscriptions, decide which event goes to whom and with which alert hysteresis, deliver
  with a bounded number of retries and leave what failed in a dead letter queue. The service of
  src/proprietary/bulk-delete runs deletion jobs: an engine scans the primaries of a connection
  and deletes what matches, under the limits and the cancellation of the job, with an audit row.
  The capture service of src/apps/api/src/monitor opens MONITOR on one node or on every node of a
  cluster and gives each connection a writer, which buffers the lines and writes them in chunks
  until a cap, a timer, a stop or a disconnection ends it.
  The services of src/proprietary/cache-proposals and src/proprietary/memory-proposals take the
  proposals of agents under a rate limit, store at most one pending proposal per target, let an
  operator approve, edit or reject it until it expires, apply what was approved and keep an audit
  trail; any of these calls may overlap.

  \<^bold>\<open>How the source is read.\<close> Prelude says how TypeScript data is read in HOL: a Map is an
  association list in insertion order, a Set the list of first occurrences, null and undefined
  are \<open>None\<close>, timestamps and counters are integers and measurements are reals (so rounding of
  doubles is not modelled), and \<open>jsnum\<close> has the non-finite numbers where the source tests for
  them. An asynchronous operation that may reject is a function into an option, \<open>None\<close> the
  rejection; a handler that catches keeps its state there as the source does. A record stands for
  an interface or for the fields of a class, and one definition for a function or a method, with
  its loop bodies as definitions of their own. Message texts are left out, except where a text is
  a key (signatures, event ids).

  \<^bold>\<open>Theories and the code they model.\<close>
  \<^item> Prelude, Anomaly_Types, Cluster_Types: shared data, types.ts and the cluster records of
    common/types/metrics.types.ts.
  \<^item> Alert_Contract: the locales of the alert levels, held levels and deliver-once alerts. The
    detectors that follow are its interpretations.
  \<^item> Load_Saturation, Memory_Overhead, Fork_Memory, Client_Lockout, Control_Plane: the detector
    files of the same names and their handlers in anomaly.service.ts.
  \<^item> Metric_Buffer, Spike_Detector, Metric_Pipeline: metric-buffer.ts, spike-detector.ts and the
    metric feeds of pollConnection.
  \<^item> Stuck_Replica (with the resync loop), Failover_Churn, Duplicate_Primary, Ghost_Membership,
    Ghost_History, Hostname_Staleness, Replica_Slot, Orphaned_Slots: the topology detectors.
  \<^item> Correlator: correlator.ts, windows, pattern rules and groups.
  \<^item> Anomaly_Store: the anomaly rows of the memory and SQLite adapters, and the locales
    \<open>anomaly_storage\<close> and \<open>closing_storage\<close> with what the service relies on; both adapters are
    interpretations of the first, only SQLite of the second.
  \<^item> Anomaly_Feed: addAnomaly, correlateAnomalies, the feed queries and the resolution of events
    and groups, over any storage port.
  \<^item> Persistence_Gate: applyTopologyPersistenceGate. The machine of one signature (grace,
    alerted, forgotten) is its abstract specification, and the locale \<open>gated_detector\<close> carries
    the gate's guarantees to every handler that uses it.
  \<^item> Topology_Handlers: the handlers that read a topology, run a detector and pass the gate; the
    untracked ones are interpretations of \<open>gated_detector\<close>. The remote reads of the replica
    fan-out are a function argument.
  \<^item> Latency_Regression and Latency_Streak: regression-detector.ts and
    latency-regression.service.ts. The counting of physical samples is the locale
    \<open>sample_streak\<close>, with the upgrade and the sustained counters as interpretations.
  \<^item> Raft_Health (over Js_Number, the numbers a text field parses to): raft-health-detector.ts and
    its handler.
  \<^item> Bulk_Scan, Bulk_Guarantees, Bulk_Jobs: bulk-delete-engine.ts with the scan target, what its
    loop guarantees, and bulk-delete.service.ts, the job map and the audit rows. The store of the
    audit rows is the locale \<open>audit_store\<close>.
  \<^item> Webhook_Types, Webhook_Store, Webhook_Alerts, Webhook_Delivery, Webhook_Machine,
    Webhook_Service: the shared webhook types and the URL guard, the webhook tables of the memory
    and SQLite adapters (locales \<open>delivery_store\<close> and \<open>delivery_repo\<close>, both adapters are
    interpretations), the alert hysteresis of the dispatcher, one delivery attempt with its
    classification of answers, the life of a delivery as a step relation over timers, retries and
    the dead letter queue, and the dispatch of an event to its subscribers.
  \<^item> Capture_Store, Capture_Writer, Capture_Session, Capture_Machine: the capture rows of the memory and
    SQLite adapters; capture-writer.ts, one capture as a machine over lines, timers, stops and answers
    of the storage; starting and finalising a session of monitor-capture.service.ts; and the service
    with any number of starts and writers, suspended at their awaits and interleaved.
  \<^item> Rate_Limiter: rate-limiter.ts, the sliding window with reservations that can be given back.
  \<^item> Proposal_Types, Proposal_Store, Proposal_Review, Proposal_Machine, Proposal_Calls: the schemas of
    packages/shared/src/utils/cache-proposals.ts, the proposal tables of the memory and SQLite
    adapters (both interpretations of the locale \<open>proposal_repo\<close>), the handlers of
    cache-proposal.service.ts and cache-apply.service.ts, the same handlers as threads that interleave at
    every await, and the lemma that a handler is its thread when nothing runs in between.
  \<^item> Memory_Proposals, Memory_Machine: memory-proposals/, its rows, handlers and threads.

  \<^bold>\<open>What is shown.\<close> For the hysteresis detectors: a change of level is delivered once, and only
  after it held; a finding that could not be stored is reported again. For the snapshot
  detectors: they report exactly the stated fault, whatever the order of the nodes, and the
  remedies they print are safe. For the gate: it refines the machine of one signature, so an
  alert comes once, after the grace window, and an observation gap neither resolves nor restarts
  it. For the feed: the cache stays bounded, a resolution is never undone, an outcome of
  \<open>resolved\<close> means resolved in storage, the active feed shows every open event. For the
  correlator: the groups are the maximal time windows of the events. For the latency guard: it never
  raises, reports
  only after five distinct degraded samples, respects its cooldown and retries what was not
  stored. For bulk deletion: a dry run deletes nothing, a delete run deletes only keys that match
  and, when it reports as many keys deleted as matched, all of them, it
  stays within its limits, ends on every target whose cursor advances, and a finished job has
  its audit row. For captures: the chunks handed
  to the storage and the lines still buffered are the lines that arrived while the writer ran, in order;
  the chunks of concurrent writers never clash; without overlapping starts a connection has one session
  at a time (one_session_per_connection).
  For webhooks: an accepted URL reaches no blocked address, an alert fires once per
  excursion, a delivery ends after its bounded attempts, the step relation keeps the tables
  consistent and never reopens a settled delivery. For the proposals: a window of time never has
  more grants than the limit and a refusal names an instant at which a grant is possible; both
  adapters answer every sequence of operations alike and keep pending proposals unique; in every
  interleaving a proposal is decided once, a settled proposal stays settled, and the dispatch of a
  memory proposal is started at most once. Where the code differs from its comments, a theorem
  shows that it does: two overlapping approvals of a cache proposal both reach the servers, the dead
  letter queue lists no dead letter, two overlapping starts of a capture both run.

  \<^bold>\<open>Bounds.\<close> No definition uses fuel: every loop of the modelled code but one is bounded by its
  input and is structural recursion, a fold, or recursion with a proved measure. The scan loop of
  bulk deletion follows the cursor of a server and may not end: it is a partial function into an
  option. That it returns is proved from the hypothesis \<open>scan_advances\<close> (the cursor comes back to
  zero); \<open>scan_sound\<close> and \<open>scan_complete\<close> state what SCAN documents about the keys it returns
  while no other client writes; an unlink may fail on some of its keys, as the target of the source
  swallows such errors, and then counts fewer. The capacities (cached events and groups, sample
  windows, departed entries) are those of the source.

  \<^bold>\<open>Not modelled.\<close> The transport (INFO, CLUSTER and Sentinel reads), the Postgres adapter, HTTP
  controllers, scheduling of polls and timers (a handler of the anomaly service is one atomic step;
  interleaving of two polls of a connection is excluded by the poller), the HTTP request of a webhook and its
  signature (the answer is an argument), the statistics and the export of the dead letter queue,
  the discovery of cluster nodes for a scan (an argument), the dispatchers of proposals and the
  resolver of caches (arguments), the encoding of a row's columns as JSON (a row is its record),
  the evaluation of outcomes, the triggers, schedules, preflight checks and parsing of captures,
  the web interface and the separately published packages. Later work: the remaining detectors of the anomaly service (Sentinel and
  ACL drift, authentication failures, buffer pressure, large replies, persistence stalls) and the
  reply parsers.
\<close>

end
